(* ===== verification/Prelude.thy ===== *)
theory Prelude
  imports Main "HOL-Library.AList" "HOL-Library.Sublist" "HOL-Library.Multiset"
begin

text \<open>
  Shared vocabulary of the development.  It models the parts of the Go language and its
  standard library that several components use: instants and durations, dictionaries,
  byte strings, number and duration formatting, and the (value, error) return convention.

  \<^item> An instant (\<open>time.Time\<close>) is the number of nanoseconds since the Unix epoch and a
    duration (\<open>time.Duration\<close>) a number of nanoseconds; both are \<open>int\<close>.
  \<^item> A dictionary is an association list with distinct keys (\<open>gm_ok\<close>).  The position of an
    entry has no meaning for a lookup; where the source ranges over a dictionary and the
    visiting order can change the outcome, the order is an explicit argument.
  \<^item> A string or byte slice is a \<open>string\<close>, one \<open>char\<close> per byte.
  \<^item> A fallible call returns \<open>'e + 'a\<close>, \<open>Inl\<close> being the non-nil error.
\<close>

named_theorems ezy_defs "unfolding rules of the model's operations"
named_theorems ezy_inv "preservation of component invariants"

section \<open>Instants and durations\<close>

type_synonym time = int
type_synonym duration = int

definition Nanosecond :: duration where "Nanosecond = 1"
definition Microsecond :: duration where "Microsecond = 1000"
definition Millisecond :: duration where "Millisecond = 1000000"
definition Second :: duration where "Second = 1000000000"
definition Minute :: duration where "Minute = 60000000000"
definition Hour :: duration where "Hour = 3600000000000"

lemmas duration_units = Nanosecond_def Microsecond_def Millisecond_def
  Second_def Minute_def Hour_def

text \<open>
  \<open>Time.Truncate\<close> rounds down to a multiple of the duration counted from the zero time
  (year 1), which is 62135596800 seconds before the Unix epoch; a non-positive duration
  leaves the instant unchanged.
\<close>

definition zero_time_offset :: int where
  "zero_time_offset = 62135596800 * Second"

definition zero_time :: time where
  "zero_time = - zero_time_offset"

definition time_truncate :: "time \<Rightarrow> duration \<Rightarrow> time" where
  "time_truncate t d = (if d \<le> 0 then t else t - (t + zero_time_offset) mod d)"

text \<open>\<open>Time.Unix\<close> and \<open>time.Unix(sec, 0)\<close>.\<close>

definition time_unix :: "time \<Rightarrow> int" where
  "time_unix t = t div Second"

definition unix_time :: "int \<Rightarrow> time" where
  "unix_time s = s * Second"

text \<open>\<open>Duration.Truncate\<close> rounds toward zero.\<close>

definition quot :: "int \<Rightarrow> int \<Rightarrow> int" where
  "quot a b = sgn a * sgn b * (\<bar>a\<bar> div \<bar>b\<bar>)"

definition dur_truncate :: "duration \<Rightarrow> duration \<Rightarrow> duration" where
  "dur_truncate d m = (if m \<le> 0 then d else quot d m * m)"

definition dur_seconds :: "duration \<Rightarrow> int" where
  "dur_seconds d = quot d Second"

lemma quot_nonneg: "0 \<le> a \<Longrightarrow> 0 < b \<Longrightarrow> quot a b = a div b"
  by (cases "a = 0") (auto simp: quot_def sgn_if)

lemma time_truncate_le: "time_truncate t d \<le> t"
  by (simp add: time_truncate_def)

lemma time_truncate_gt: "0 < d \<Longrightarrow> t - d < time_truncate t d"
  using pos_mod_bound [of d "t + zero_time_offset"] by (simp add: time_truncate_def)

lemma unix_time_mono: "unix_time a < unix_time b \<longleftrightarrow> a < b"
  by (simp add: unix_time_def Second_def)

lemma unix_time_of_time_unix_le: "unix_time (time_unix t) \<le> t"
proof -
  have "t div Second * Second + t mod Second = t" by (rule div_mult_mod_eq)
  moreover have "0 \<le> t mod Second" by (simp add: Second_def)
  ultimately show ?thesis unfolding unix_time_def time_unix_def by linarith
qed

section \<open>Dictionaries\<close>

type_synonym ('k, 'v) gomap = "('k \<times> 'v) list"

abbreviation gm_get :: "('k, 'v) gomap \<Rightarrow> 'k \<Rightarrow> 'v option" where
  "gm_get m k \<equiv> map_of m k"

abbreviation gm_set :: "'k \<Rightarrow> 'v \<Rightarrow> ('k, 'v) gomap \<Rightarrow> ('k, 'v) gomap" where
  "gm_set k v m \<equiv> AList.update k v m"

abbreviation gm_del :: "'k \<Rightarrow> ('k, 'v) gomap \<Rightarrow> ('k, 'v) gomap" where
  "gm_del k m \<equiv> AList.delete k m"

abbreviation gm_keys :: "('k, 'v) gomap \<Rightarrow> 'k list" where
  "gm_keys m \<equiv> map fst m"

definition gm_ok :: "('k, 'v) gomap \<Rightarrow> bool" where
  "gm_ok m \<longleftrightarrow> distinct (map fst m)"

text \<open>\<open>m[k] += n\<close> on an integer dictionary: an absent key reads as 0.\<close>

definition gm_val :: "('k, int) gomap \<Rightarrow> 'k \<Rightarrow> int" where
  "gm_val m k = (case map_of m k of None \<Rightarrow> 0 | Some n \<Rightarrow> n)"

definition gm_add :: "'k \<Rightarrow> int \<Rightarrow> ('k, int) gomap \<Rightarrow> ('k, int) gomap" where
  "gm_add k n m = AList.update k (gm_val m k + n) m"

lemma gm_ok_Nil [simp, intro]: "gm_ok []"
  by (simp add: gm_ok_def)

lemma gm_ok_set [simp, intro]: "gm_ok m \<Longrightarrow> gm_ok (gm_set k v m)"
  by (simp add: gm_ok_def distinct_update)

lemma gm_ok_del [simp, intro]: "gm_ok m \<Longrightarrow> gm_ok (gm_del k m)"
  by (simp add: gm_ok_def distinct_delete)

lemma gm_ok_filter [simp, intro]: "gm_ok m \<Longrightarrow> gm_ok (filter P m)"
  by (induction m) (auto simp: gm_ok_def)

lemma gm_ok_add [simp, intro]: "gm_ok m \<Longrightarrow> gm_ok (gm_add k n m)"
  by (simp add: gm_add_def)

lemma gm_get_set [simp]: "gm_get (gm_set k v m) = (gm_get m)(k \<mapsto> v)"
  by (rule update_conv')

lemma gm_get_del [simp]: "gm_get (gm_del k m) = (gm_get m)(k := None)"
  by (rule delete_conv')

lemma gm_val_Nil [simp]: "gm_val [] k = 0"
  by (simp add: gm_val_def)

lemma gm_val_add [simp]:
  "gm_val (gm_add k n m) k' = (if k' = k then gm_val m k + n else gm_val m k')"
  by (simp add: gm_val_def gm_add_def)

lemma gm_get_filter:
  assumes "gm_ok m"
  shows "gm_get (filter (\<lambda>(k, v). P k v) m) k =
    (case gm_get m k of None \<Rightarrow> None | Some v \<Rightarrow> if P k v then Some v else None)"
  using assms
proof (induction m)
  case Nil
  then show ?case by simp
next
  case (Cons kv m)
  obtain k0 v0 where kv: "kv = (k0, v0)" by force
  from Cons.prems have ok: "gm_ok m" and notin: "k0 \<notin> fst ` set m"
    by (auto simp: gm_ok_def kv)
  have "k0 \<notin> fst ` set (filter (\<lambda>(k, v). P k v) m)" using notin by auto
  then have "map_of (filter (\<lambda>(k, v). P k v) m) k0 = None" by (simp add: map_of_eq_None_iff)
  with Cons.IH [OF ok] show ?case by (auto simp: kv split: option.splits)
qed

lemma length_gm_set:
  "length (gm_set k v m) = (if k \<in> set (gm_keys m) then length m else Suc (length m))"
  by (induction m) auto

lemma length_gm_del:
  "gm_ok m \<Longrightarrow> k \<in> set (gm_keys m) \<Longrightarrow> Suc (length (gm_del k m)) = length m"
  by (induction m) (auto simp: gm_ok_def)

lemma gm_keys_set: "set (gm_keys (gm_set k v m)) = insert k (set (gm_keys m))"
  using dom_update [of k v m] by auto

lemma gm_keys_del: "set (gm_keys (gm_del k m)) = set (gm_keys m) - {k}"
  by (simp add: delete_keys set_removeAll)

lemma gm_get_in_set: "gm_get m k = Some v \<Longrightarrow> (k, v) \<in> set m"
  by (rule map_of_SomeD)

lemma gm_in_set_get: "gm_ok m \<Longrightarrow> (k, v) \<in> set m \<Longrightarrow> gm_get m k = Some v"
  by (simp add: gm_ok_def)

lemma gm_set_in: "(k', v') \<in> set (gm_set k v m) \<Longrightarrow> (k' = k \<and> v' = v) \<or> (k', v') \<in> set m"
  by (induction m) (auto split: if_splits)

lemma gm_del_in: "(k', v') \<in> set (gm_del k m) \<Longrightarrow> (k', v') \<in> set m"
  by (induction m) (auto split: if_splits)

text \<open>Adding to one key adds to the sum over a selection of keys iff the key is selected.\<close>

lemma sum_filter_gm_set:
  fixes m :: "('k, int) gomap"
  assumes "gm_ok m"
  shows "sum_list (map snd (filter (\<lambda>x. P (fst x)) (gm_set k (gm_val m k + n) m)))
    = sum_list (map snd (filter (\<lambda>x. P (fst x)) m)) + (if P k then n else 0)"
  using assms
proof (induction m)
  case Nil
  then show ?case by simp
next
  case (Cons kv m)
  then have "gm_ok m" by (simp add: gm_ok_def)
  with Cons.IH show ?case by (cases kv) (auto simp: gm_val_def)
qed

section \<open>Byte strings\<close>

definition str_has_prefix :: "string \<Rightarrow> string \<Rightarrow> bool" where
  "str_has_prefix s p \<longleftrightarrow> take (length p) s = p"

fun str_contains :: "string \<Rightarrow> string \<Rightarrow> bool" where
  "str_contains [] sub = (sub = [])"
| "str_contains (c # s) sub = (str_has_prefix (c # s) sub \<or> str_contains s sub)"

lemma str_has_prefix_iff: "str_has_prefix s p \<longleftrightarrow> prefix p s"
  by (auto simp: str_has_prefix_def prefix_def) (metis append_take_drop_id)

text \<open>The scan finds exactly the contiguous substrings.\<close>

lemma str_contains_iff_sublist: "str_contains s sub \<longleftrightarrow> sublist sub s"
proof (induction s)
  case Nil
  then show ?case by (simp add: sublist_def)
next
  case (Cons c s)
  then show ?case by (simp add: str_has_prefix_iff sublist_Cons_right)
qed

definition is_space :: "char \<Rightarrow> bool" where
  "is_space c \<longleftrightarrow> c \<in> {CHR '' '', CHR 0x09, CHR 0x0A, CHR 0x0B, CHR 0x0C, CHR 0x0D}"

definition trim_space :: "string \<Rightarrow> string" where
  "trim_space s = rev (dropWhile is_space (rev (dropWhile is_space s)))"

text \<open>\<open>strings.Split\<close> on a one-byte separator: always at least one part.\<close>

fun str_split :: "char \<Rightarrow> string \<Rightarrow> string list" where
  "str_split sep [] = [[]]"
| "str_split sep (c # s) =
     (if c = sep then [] # str_split sep s
      else (case str_split sep s of [] \<Rightarrow> [[c]] | p # ps \<Rightarrow> (c # p) # ps))"

text \<open>\<open>strings.Fields\<close>: the maximal runs of non-space bytes.\<close>

function str_fields :: "string \<Rightarrow> string list" where
  "str_fields s =
     (case dropWhile is_space s of
        [] \<Rightarrow> []
      | c # t \<Rightarrow>
          takeWhile (\<lambda>x. \<not> is_space x) (c # t)
            # str_fields (dropWhile (\<lambda>x. \<not> is_space x) t))"
  by pat_completeness auto
termination
proof (relation "measure length", simp, goal_cases)
  case (1 s c t)
  have "length (dropWhile (\<lambda>x. \<not> is_space x) t) \<le> length t" by (rule length_dropWhile_le)
  also have "\<dots> < length (dropWhile is_space s)" using 1 by simp
  also have "\<dots> \<le> length s" by (rule length_dropWhile_le)
  finally show ?case by simp
qed

declare str_fields.simps [simp del]

lemma str_split_nonempty [simp]: "str_split sep s \<noteq> []"
  by (induction s) (auto split: list.splits)

fun str_join :: "string \<Rightarrow> string list \<Rightarrow> string" where
  "str_join sep [] = []"
| "str_join sep [p] = p"
| "str_join sep (p # ps) = p @ sep @ str_join sep ps"

text \<open>Joining what was split gives the string back.\<close>

lemma str_join_split: "str_join [sep] (str_split sep s) = s"
proof (induction s)
  case Nil
  then show ?case by simp
next
  case (Cons c s)
  obtain p ps where p: "str_split sep s = p # ps" by (cases "str_split sep s") auto
  show ?case
  proof (cases "c = sep")
    case True
    then show ?thesis using Cons.IH p by simp
  next
    case False
    then show ?thesis using Cons.IH p by (cases ps) auto
  qed
qed

text \<open>The bytes before the first occurrence of a separator, and the last-occurrence split.\<close>

definition before_byte :: "char \<Rightarrow> string \<Rightarrow> string" where
  "before_byte c s = takeWhile (\<lambda>x. x \<noteq> c) s"

definition split_last :: "char \<Rightarrow> string \<Rightarrow> (string \<times> string) option" where
  "split_last c s =
     (if c \<in> set s then
        Some (rev (tl (dropWhile (\<lambda>x. x \<noteq> c) (rev s))), rev (takeWhile (\<lambda>x. x \<noteq> c) (rev s)))
      else None)"

section \<open>Numbers and durations as text\<close>

definition digit_char :: "nat \<Rightarrow> char" where
  "digit_char d = char_of (48 + d)"

lemma digit_char_zero: "digit_char 0 = CHR ''0''"
  by (simp add: digit_char_def char_of_def bit_Suc_0_iff)

fun nat_str :: "nat \<Rightarrow> string" where
  "nat_str n = (if n < 10 then [digit_char n] else nat_str (n div 10) @ [digit_char (n mod 10)])"

declare nat_str.simps [simp del]

definition int_str :: "int \<Rightarrow> string" where
  "int_str i = (if i < 0 then CHR ''-'' # nat_str (nat (- i)) else nat_str (nat i))"

definition is_digit :: "char \<Rightarrow> bool" where
  "is_digit c \<longleftrightarrow> 48 \<le> (of_char c :: nat) \<and> (of_char c :: nat) \<le> 57"

definition digit_val :: "char \<Rightarrow> nat" where
  "digit_val c = of_char c - 48"

definition digits_val :: "string \<Rightarrow> nat" where
  "digits_val s = foldl (\<lambda>n c. 10 * n + digit_val c) 0 s"

lemma digit_val_char [simp]: "d < 10 \<Longrightarrow> digit_val (digit_char d) = d"
  by (simp add: digit_val_def digit_char_def of_char_of)

lemma is_digit_char [simp]: "d < 10 \<Longrightarrow> is_digit (digit_char d)"
  by (simp add: is_digit_def digit_char_def of_char_of)

lemma nat_str_nonempty [simp]: "nat_str n \<noteq> []"
  by (subst nat_str.simps) simp

text \<open>Printing then reading a number is the identity.\<close>

lemma digits_val_nat_str [simp]: "digits_val (nat_str n) = n"
proof (induction n rule: nat_str.induct)
  case (1 n)
  then show ?case
    by (subst nat_str.simps) (auto simp: digits_val_def)
qed

lemma nat_str_digits: "\<forall>c \<in> set (nat_str n). is_digit c"
proof (induction n rule: nat_str.induct)
  case (1 n)
  then show ?case by (subst nat_str.simps) auto
qed

lemma nat_str_inj: "nat_str m = nat_str n \<longleftrightarrow> m = n"
  by (metis digits_val_nat_str)

text \<open>
  The decimals of a fraction \<open>v / 10 ^ prec\<close> without trailing zeros, with the leading dot
  unless nothing is left (Go's \<open>fmtFrac\<close>; also the \<open>.999999999\<close> field of \<open>RFC3339Nano\<close>).
\<close>

fun frac_digits :: "nat \<Rightarrow> nat \<Rightarrow> string" where
  "frac_digits 0 v = []"
| "frac_digits (Suc p) v = frac_digits p (v div 10) @ [digit_char (v mod 10)]"

definition strip_zeros :: "string \<Rightarrow> string" where
  "strip_zeros s = rev (dropWhile (\<lambda>c. c = CHR ''0'') (rev s))"

definition fmt_frac :: "nat \<Rightarrow> nat \<Rightarrow> string" where
  "fmt_frac prec v =
     (let s = strip_zeros (frac_digits prec v) in if s = [] then [] else CHR ''.'' # s)"

text \<open>\<open>Duration.String\<close>.\<close>

definition dur_str :: "duration \<Rightarrow> string" where
  "dur_str d =
     (let u = nat \<bar>d\<bar>; sign = (if d < 0 then ''-'' else [])
      in sign @
        (if u < 1000000000 then
           (if u = 0 then ''0s''
            else if u < 1000 then nat_str u @ ''ns''
            else if u < 1000000 then nat_str (u div 1000) @ fmt_frac 3 (u mod 1000) @ [CHR 0xC2, CHR 0xB5, CHR ''s'']
            else nat_str (u div 1000000) @ fmt_frac 6 (u mod 1000000) @ ''ms'')
         else
           (let secs = u div 1000000000; f = fmt_frac 9 (u mod 1000000000);
                mins = secs div 60; hours = mins div 60
            in (if hours > 0 then nat_str hours @ ''h'' else [])
               @ (if mins > 0 then nat_str (mins mod 60) @ ''m'' else [])
               @ nat_str (secs mod 60) @ f @ ''s'')))"

section \<open>Folding over fallible steps and over lists\<close>

text \<open>\<open>for ... \<lbrace> if err \<noteq> nil \<lbrace> return err \<rbrace> \<rbrace>\<close>: the first error of a loop, or none.\<close>

fun first_error :: "('a \<Rightarrow> 'e option) \<Rightarrow> 'a list \<Rightarrow> 'e option" where
  "first_error f [] = None"
| "first_error f (x # xs) = (case f x of Some e \<Rightarrow> Some e | None \<Rightarrow> first_error f xs)"

lemma first_error_None [simp]: "first_error f xs = None \<longleftrightarrow> (\<forall>x \<in> set xs. f x = None)"
  by (induction xs) (auto split: option.splits)

text \<open>A loop that maps each element to a value or returns the first error.\<close>

fun map_res :: "('a \<Rightarrow> 'e + 'b) \<Rightarrow> 'a list \<Rightarrow> 'e + 'b list" where
  "map_res f [] = Inr []"
| "map_res f (x # xs) =
     (case f x of Inl e \<Rightarrow> Inl e
      | Inr y \<Rightarrow> (case map_res f xs of Inl e \<Rightarrow> Inl e | Inr ys \<Rightarrow> Inr (y # ys)))"

lemma map_res_Inr:
  "map_res f xs = Inr ys \<longleftrightarrow> list_all2 (\<lambda>x y. f x = Inr y) xs ys"
proof (induction xs arbitrary: ys)
  case Nil
  then show ?case by auto
next
  case (Cons x xs)
  show ?case
  proof (cases "f x")
    case (Inl e)
    then show ?thesis by (cases ys) auto
  next
    case (Inr y)
    then show ?thesis using Cons.IH by (cases ys; cases "map_res f xs") auto
  qed
qed

lemma foldl_invariant:
  assumes "P s" and "\<And>s x. x \<in> set xs \<Longrightarrow> P s \<Longrightarrow> P (f s x)"
  shows "P (foldl f s xs)"
  using assms by (induction xs arbitrary: s) auto

lemma sum_list_filter_le:
  fixes f :: "'a \<Rightarrow> int"
  assumes "\<And>x. x \<in> set xs \<Longrightarrow> 0 \<le> f x"
  shows "sum_list (map f (filter P xs)) \<le> sum_list (map f xs)"
  using assms by (induction xs) (auto simp: add_increasing)

text \<open>Subsequences keep what holds of all pairs.\<close>

lemma subseq_set: "subseq xs ys \<Longrightarrow> set xs \<subseteq> set ys"
  by (induction rule: list_emb.induct) auto

lemma sorted_wrt_subseq: "subseq xs ys \<Longrightarrow> sorted_wrt R ys \<Longrightarrow> sorted_wrt R xs"
  by (induction rule: list_emb.induct) (auto dest: subseq_set)

lemma distinct_subseq: "subseq xs ys \<Longrightarrow> distinct ys \<Longrightarrow> distinct xs"
  by (induction rule: list_emb.induct) (auto dest: subseq_set)

end
