(* ===== verification/Netip.thy ===== *)
theory Netip
  imports Prelude "HOL-Library.Word"
begin

text \<open>
  The part of Go's \<open>net/netip\<close> that EzyShield relies on: addresses with their family and
  zone, prefixes, containment, overlap, masking, unmapping, and the text forms accepted by
  \<open>ParseAddr\<close> and \<open>ParsePrefix\<close>.  The main facts: containment compares the leading bits
  (\<open>prefix_contains_iff\<close>), and two prefixes overlap exactly when some address lies in both
  (\<open>prefix_overlaps_iff\<close>), which is what makes an overlap test a sound lock-out guard.
\<close>

unbundle bit_operations_syntax

section \<open>Addresses\<close>

datatype addr =
    NoAddr
  | V4 "32 word"
  | V6 "128 word" string

definition addr_is_valid :: "addr \<Rightarrow> bool" where
  "addr_is_valid a \<longleftrightarrow> a \<noteq> NoAddr"

fun bit_len :: "addr \<Rightarrow> int" where
  "bit_len NoAddr = 0"
| "bit_len (V4 w) = 32"
| "bit_len (V6 w z) = 128"

fun addr_is4 :: "addr \<Rightarrow> bool" where
  "addr_is4 (V4 w) = True"
| "addr_is4 _ = False"

fun addr_zone :: "addr \<Rightarrow> string" where
  "addr_zone (V6 w z) = z"
| "addr_zone _ = []"

fun without_zone :: "addr \<Rightarrow> addr" where
  "without_zone (V6 w z) = V6 w []"
| "without_zone a = a"

fun is4in6 :: "addr \<Rightarrow> bool" where
  "is4in6 (V6 w z) = (drop_bit 32 w = 0xffff)"
| "is4in6 _ = False"

fun unmap :: "addr \<Rightarrow> addr" where
  "unmap (V6 w z) = (if drop_bit 32 w = 0xffff then V4 (ucast w) else V6 w z)"
| "unmap a = a"

text \<open>The IPv4-mapped IPv6 spelling of an IPv4 address.\<close>

definition mapped_tag :: "128 word" where
  "mapped_tag = 0xffff"

definition map4in6 :: "32 word \<Rightarrow> addr" where
  "map4in6 w = V6 (push_bit 32 mapped_tag OR ucast w) []"

section \<open>Prefixes\<close>

datatype pfx = Pfx (pfx_ip: addr) (pfx_bits: int)

definition prefix_from :: "addr \<Rightarrow> int \<Rightarrow> pfx" where
  "prefix_from a b =
     Pfx (without_zone a) (if a \<noteq> NoAddr \<and> 0 \<le> b \<and> b \<le> bit_len a then b else -1)"

definition no_prefix :: pfx where
  "no_prefix = Pfx NoAddr (-1)"

definition prefix_is_valid :: "pfx \<Rightarrow> bool" where
  "prefix_is_valid p \<longleftrightarrow> 0 \<le> pfx_bits p"

definition prefix_is_single_ip :: "pfx \<Rightarrow> bool" where
  "prefix_is_single_ip p \<longleftrightarrow> prefix_is_valid p \<and> pfx_bits p = bit_len (pfx_ip p)"

fun prefix_contains :: "pfx \<Rightarrow> addr \<Rightarrow> bool" where
  "prefix_contains (Pfx (V4 p) b) (V4 a) = (0 \<le> b \<and> drop_bit (nat (32 - b)) (a XOR p) = 0)"
| "prefix_contains (Pfx (V6 p _) b) (V6 a z) =
     (0 \<le> b \<and> z = [] \<and> drop_bit (nat (128 - b)) (a XOR p) = 0)"
| "prefix_contains _ _ = False"

text \<open>\<open>Addr.Prefix\<close>: keep the leading bits; the zero address gives the zero prefix.\<close>

fun addr_prefix :: "addr \<Rightarrow> int \<Rightarrow> pfx option" where
  "addr_prefix NoAddr b = (if b < 0 then None else Some no_prefix)"
| "addr_prefix (V4 w) b =
     (if b < 0 \<or> b > 32 then None
      else Some (prefix_from (V4 (push_bit (nat (32 - b)) (drop_bit (nat (32 - b)) w))) b))"
| "addr_prefix (V6 w z) b =
     (if b < 0 \<or> b > 128 then None
      else Some (prefix_from (V6 (push_bit (nat (128 - b)) (drop_bit (nat (128 - b)) w)) z) b))"

definition prefix_masked :: "pfx \<Rightarrow> pfx" where
  "prefix_masked p = (case addr_prefix (pfx_ip p) (pfx_bits p) of None \<Rightarrow> no_prefix | Some q \<Rightarrow> q)"

definition prefix_overlaps :: "pfx \<Rightarrow> pfx \<Rightarrow> bool" where
  "prefix_overlaps p q =
     (if \<not> prefix_is_valid p \<or> \<not> prefix_is_valid q then False
      else if p = q then True
      else if addr_is4 (pfx_ip p) \<noteq> addr_is4 (pfx_ip q) then False
      else
        let b = min (pfx_bits p) (pfx_bits q) in
        if b = 0 then True
        else (case addr_prefix (pfx_ip p) b of None \<Rightarrow> False
              | Some p' \<Rightarrow>
                (case addr_prefix (pfx_ip q) b of None \<Rightarrow> False
                 | Some q' \<Rightarrow> pfx_ip p' = pfx_ip q')))"

text \<open>
  A well-formed prefix: what \<open>PrefixFrom\<close> and the parser build.  Its address carries no
  zone, and a valid prefix has a length within its family's width.
\<close>

definition prefix_wf :: "pfx \<Rightarrow> bool" where
  "prefix_wf p \<longleftrightarrow> addr_zone (pfx_ip p) = []
     \<and> (pfx_bits p = -1 \<or> (pfx_ip p \<noteq> NoAddr \<and> 0 \<le> pfx_bits p \<and> pfx_bits p \<le> bit_len (pfx_ip p)))"

section \<open>Leading bits\<close>

lemma drop_bit_eq_mono:
  fixes a b :: "'a::len word"
  assumes "drop_bit m a = drop_bit m b" and "m \<le> n"
  shows "drop_bit n a = drop_bit n b"
proof -
  have "drop_bit (n - m) (drop_bit m a) = drop_bit (n - m) (drop_bit m b)"
    using assms(1) by simp
  then show ?thesis using assms(2) unfolding drop_bit_drop_bit by simp
qed

lemma word_xor_0_iff: "a XOR b = 0 \<longleftrightarrow> a = (b :: 'a::len word)"
  by (auto simp: bit_eq_iff bit_simps)

lemma drop_bit_xor_0_iff:
  fixes a b :: "'a::len word"
  shows "drop_bit n (a XOR b) = 0 \<longleftrightarrow> drop_bit n a = drop_bit n b"
  by (simp add: word_xor_0_iff)

lemma drop_push_drop [simp]:
  "drop_bit n (push_bit n (drop_bit n w)) = drop_bit n (w :: 'a::len word)"
  by (rule bit_word_eqI) (auto simp: bit_simps dest: bit_imp_le_length)

lemma masked_eq_iff:
  "push_bit n (drop_bit n a) = push_bit n (drop_bit n b)
     \<longleftrightarrow> drop_bit n a = drop_bit n (b :: 'a::len word)"
  by (metis drop_push_drop)

lemma bit_mapped_tag: "bit mapped_tag n \<longleftrightarrow> n < 16"
proof -
  have "mapped_tag = mask 16" by (simp add: mapped_tag_def mask_eq_exp_minus_1)
  then have "bit mapped_tag n \<longleftrightarrow> bit (mask 16 :: 128 word) n" by simp
  then show ?thesis by (auto simp: bit_simps simp del: mask_numeral)
qed

lemma ucast_map4in6: "ucast (push_bit 32 mapped_tag OR ucast w :: 128 word) = (w :: 32 word)"
  by (rule bit_word_eqI) (auto simp: bit_simps)

lemma drop_map4in6:
  "drop_bit 32 (push_bit 32 mapped_tag OR ucast (w :: 32 word) :: 128 word) = mapped_tag"
  by (rule bit_word_eqI) (auto simp: bit_simps bit_mapped_tag dest: bit_imp_le_length)

section \<open>Unmapping\<close>

text \<open>Both spellings of an IPv4 client have one identity after \<open>Unmap\<close>.\<close>

lemma unmap_map4in6 [simp]: "unmap (map4in6 w) = V4 w"
  using drop_map4in6 [of w] ucast_map4in6 [of w] by (simp add: map4in6_def mapped_tag_def)

lemma is4in6_map4in6 [simp]: "is4in6 (map4in6 w)"
  using drop_map4in6 [of w] by (simp add: map4in6_def mapped_tag_def)

lemma unmap_not4in6 [simp]: "\<not> is4in6 (unmap a)"
  by (cases a) auto

lemma unmap_idem [simp]: "unmap (unmap a) = unmap a"
  by (cases a) auto

lemma unmap_id: "\<not> is4in6 a \<Longrightarrow> unmap a = a"
  by (cases a) auto

lemma unmap_valid [simp]: "addr_is_valid (unmap a) = addr_is_valid a"
  by (cases a) (auto simp: addr_is_valid_def)

lemma is4in6_unmap_V4: "is4in6 a \<Longrightarrow> \<exists>w. unmap a = V4 w"
  by (cases a) auto

section \<open>Containment and overlap\<close>

fun lead :: "int \<Rightarrow> addr \<Rightarrow> addr" where
  "lead b (V4 w) = V4 (drop_bit (nat (32 - b)) w)"
| "lead b (V6 w z) = V6 (drop_bit (nat (128 - b)) w) []"
| "lead b NoAddr = NoAddr"

text \<open>Containment is equality of the leading bits within one family, for unzoned addresses.\<close>

lemma prefix_contains_iff:
  "prefix_contains p a \<longleftrightarrow>
     prefix_is_valid p \<and> a \<noteq> NoAddr \<and> addr_zone a = [] \<and>
     lead (pfx_bits p) (pfx_ip p) = lead (pfx_bits p) a"
proof (cases p)
  case (Pfx ip b)
  then show ?thesis
    by (cases ip; cases a)
      (simp_all add: prefix_is_valid_def drop_bit_xor_0_iff del: drop_bit_xor, auto)
qed

lemma lead_mono:
  assumes "lead n a = lead n b" and "m \<le> n"
  shows "lead m a = lead m b"
  using assms(1)
proof (cases a; cases b)
  fix x y assume ab: "a = V4 x" "b = V4 y"
  have "nat (32 - n) \<le> nat (32 - m)" using assms(2) by simp
  with ab assms(1) show ?thesis by (auto intro: drop_bit_eq_mono)
next
  fix x z y z' assume ab: "a = V6 x z" "b = V6 y z'"
  have "nat (128 - n) \<le> nat (128 - m)" using assms(2) by simp
  with ab assms(1) show ?thesis by (auto intro: drop_bit_eq_mono)
qed auto

lemma addr_prefix_ip_eq_iff:
  assumes "addr_prefix a b = Some p" and "addr_prefix a' b = Some p'"
    and "a \<noteq> NoAddr" and "a' \<noteq> NoAddr"
  shows "pfx_ip p = pfx_ip p' \<longleftrightarrow> lead b a = lead b a'"
  using assms by (cases a; cases a') (auto simp: prefix_from_def masked_eq_iff split: if_splits)

lemma addr_prefix_Some:
  "a \<noteq> NoAddr \<Longrightarrow> 0 \<le> b \<Longrightarrow> b \<le> bit_len a \<Longrightarrow> \<exists>p. addr_prefix a b = Some p"
  by (cases a) auto

lemma lead_same_family: "lead b p = lead b q \<Longrightarrow> addr_is4 p = addr_is4 q"
  by (cases p; cases q) auto

lemma lead_zero:
  assumes "addr_is4 p = addr_is4 q" "p \<noteq> NoAddr" "q \<noteq> NoAddr"
  shows "lead 0 p = lead 0 q"
proof -
  have 1: "drop_bit 32 x = 0" for x :: "32 word"
    by (rule bit_word_eqI) (auto simp: bit_simps dest: bit_imp_le_length)
  have 2: "drop_bit 128 x = 0" for x :: "128 word"
    by (rule bit_word_eqI) (auto simp: bit_simps dest: bit_imp_le_length)
  show ?thesis using assms by (cases p; cases q) (simp_all add: 1 2)
qed

lemma prefix_overlaps_lead:
  assumes "prefix_wf p" "prefix_wf q"
  shows "prefix_overlaps p q \<longleftrightarrow>
    prefix_is_valid p \<and> prefix_is_valid q \<and>
    lead (min (pfx_bits p) (pfx_bits q)) (pfx_ip p) = lead (min (pfx_bits p) (pfx_bits q)) (pfx_ip q)"
proof (cases "prefix_is_valid p \<and> prefix_is_valid q")
  case False
  then show ?thesis by (auto simp: prefix_overlaps_def)
next
  case True
  let ?b = "min (pfx_bits p) (pfx_bits q)"
  from True assms have wf: "pfx_ip p \<noteq> NoAddr" "pfx_ip q \<noteq> NoAddr" "0 \<le> ?b"
      "pfx_bits p \<le> bit_len (pfx_ip p)" "pfx_bits q \<le> bit_len (pfx_ip q)"
    by (auto simp: prefix_wf_def prefix_is_valid_def)
  have "?b \<le> bit_len (pfx_ip p)" "?b \<le> bit_len (pfx_ip q)" using wf by linarith+
  then obtain p' q' where p': "addr_prefix (pfx_ip p) ?b = Some p'"
    and q': "addr_prefix (pfx_ip q) ?b = Some q'"
    using wf addr_prefix_Some [of "pfx_ip p" ?b] addr_prefix_Some [of "pfx_ip q" ?b] by blast
  have eq: "pfx_ip p' = pfx_ip q' \<longleftrightarrow> lead ?b (pfx_ip p) = lead ?b (pfx_ip q)"
    using addr_prefix_ip_eq_iff [OF p' q'] wf by simp
  show ?thesis
  proof (cases "addr_is4 (pfx_ip p) = addr_is4 (pfx_ip q)")
    case False
    then have "p \<noteq> q" and "lead ?b (pfx_ip p) \<noteq> lead ?b (pfx_ip q)"
      using lead_same_family [of ?b "pfx_ip p" "pfx_ip q"] by auto
    with False True show ?thesis by (simp add: prefix_overlaps_def)
  next
    case fam: True
    then show ?thesis
      using True p' q' eq lead_zero [OF fam wf(1,2)] by (auto simp: prefix_overlaps_def Let_def)
  qed
qed

text \<open>Two valid prefixes overlap exactly when they share an address.\<close>

lemma prefix_overlaps_iff:
  assumes "prefix_wf p" "prefix_wf q"
  shows "prefix_overlaps p q \<longleftrightarrow> (\<exists>a. prefix_contains p a \<and> prefix_contains q a)"
proof
  assume o: "prefix_overlaps p q"
  then have v: "prefix_is_valid p" "prefix_is_valid q"
    and l: "lead (min (pfx_bits p) (pfx_bits q)) (pfx_ip p) = lead (min (pfx_bits p) (pfx_bits q)) (pfx_ip q)"
    using prefix_overlaps_lead [OF assms] by auto
  let ?a = "if pfx_bits p \<le> pfx_bits q then pfx_ip q else pfx_ip p"
  from assms v have "?a \<noteq> NoAddr" "addr_zone ?a = []"
    by (auto simp: prefix_wf_def prefix_is_valid_def)
  then have "prefix_contains p ?a \<and> prefix_contains q ?a"
    using l v by (auto simp: prefix_contains_iff min_def split: if_splits)
  then show "\<exists>a. prefix_contains p a \<and> prefix_contains q a" by blast
next
  assume "\<exists>a. prefix_contains p a \<and> prefix_contains q a"
  then obtain a where "prefix_contains p a" "prefix_contains q a" by blast
  then have v: "prefix_is_valid p" "prefix_is_valid q"
    and lp: "lead (pfx_bits p) (pfx_ip p) = lead (pfx_bits p) a"
    and lq: "lead (pfx_bits q) (pfx_ip q) = lead (pfx_bits q) a"
    by (auto simp: prefix_contains_iff)
  have "lead (min (pfx_bits p) (pfx_bits q)) (pfx_ip p) = lead (min (pfx_bits p) (pfx_bits q)) a"
    by (rule lead_mono [OF lp]) simp
  moreover have "lead (min (pfx_bits p) (pfx_bits q)) (pfx_ip q) = lead (min (pfx_bits p) (pfx_bits q)) a"
    by (rule lead_mono [OF lq]) simp
  ultimately show "prefix_overlaps p q" using prefix_overlaps_lead [OF assms] v by simp
qed

text \<open>A host prefix contains its own address and nothing else of an unzoned kind.\<close>

lemma prefix_wf_from [simp]: "prefix_wf (prefix_from a b)"
  by (cases a) (auto simp: prefix_wf_def prefix_from_def)

lemma prefix_wf_no_prefix [simp]: "prefix_wf no_prefix"
  by (simp add: prefix_wf_def no_prefix_def)

lemma host_prefix_contains:
  "prefix_contains (prefix_from a (bit_len a)) x \<longleftrightarrow>
     x \<noteq> NoAddr \<and> addr_zone x = [] \<and> x = without_zone a"
  by (cases a; cases x) (auto simp: prefix_from_def word_xor_0_iff)

lemma prefix_overlaps_host:
  assumes "prefix_wf p" "a \<noteq> NoAddr" "addr_zone a = []"
  shows "prefix_overlaps p (prefix_from a (bit_len a)) \<longleftrightarrow> prefix_contains p a"
proof -
  have "without_zone a = a" using assms(3) by (cases a) auto
  then show ?thesis
    using prefix_overlaps_iff [OF assms(1) prefix_wf_from, of a "bit_len a"] assms
    by (auto simp: host_prefix_contains)
qed

lemma prefix_wf_masked [simp]: "prefix_wf (prefix_masked p)"
proof (cases p)
  case (Pfx ip b)
  then show ?thesis by (cases ip) (auto simp: prefix_masked_def)
qed

text \<open>Masking changes the spelling of a prefix, not the set of its addresses.\<close>

lemma prefix_masked_contains:
  assumes "prefix_wf p"
  shows "prefix_contains (prefix_masked p) a = prefix_contains p a"
proof (cases p)
  case (Pfx ip b)
  with assms show ?thesis
    by (cases ip; cases a)
      (auto simp: prefix_masked_def prefix_wf_def prefix_from_def no_prefix_def drop_bit_xor_0_iff
         simp del: drop_bit_xor)
qed

end
