(* ===== verification/Sdk.thy ===== *)
theory Sdk
  imports Netip Complex_Main
begin

text \<open>
  The contract types of \<open>pkg/sdk/types.go\<close>.  Field names carry a two-letter prefix because
  record selectors share one name space.  A \<open>nil\<close> slice is the empty list, a nil pointer is
  \<open>None\<close>, and a nil map the empty dictionary.  \<open>float64\<close> values are exact rationals.
\<close>

record enrichment =
  er_country :: string
  er_asn :: int
  er_asn_org :: string
  er_is_known_bot :: bool
  er_is_tor_exit :: bool
  er_is_proxy :: bool

record event =
  ev_time :: time
  ev_source_ip :: addr
  ev_kind :: string
  ev_fields :: "(string, string) gomap"
  ev_origin :: string
  ev_raw :: string

definition EvidenceRawCap :: nat where "EvidenceRawCap = 512"
definition EvidenceMaxLines :: nat where "EvidenceMaxLines = 5"

record behavior_summary =
  bs_top_paths :: "string list"
  bs_methods :: "(string, int) gomap"
  bs_status_classes :: "(string, int) gomap"
  bs_top_user_agents :: "string list"

record aggregate =
  ag_ip :: addr
  ag_window :: duration
  ag_count :: int
  ag_kinds :: "(string, int) gomap"
  ag_sample :: "event list"
  ag_enrich :: enrichment
  ag_behavior :: "behavior_summary option"

definition no_enrichment :: enrichment where
  "no_enrichment = \<lparr>er_country = [], er_asn = 0, er_asn_org = [], er_is_known_bot = False,
     er_is_tor_exit = False, er_is_proxy = False\<rparr>"

record verdict =
  vd_ip :: addr
  vd_score :: int
  vd_category :: string
  vd_confidence :: rat
  vd_reason :: string
  vd_source :: string
  vd_suggest_ttl :: duration
  vd_evidence :: "string list"

record action =
  ac_ip :: addr
  ac_op :: string
  ac_ttl :: duration
  ac_permanent :: bool
  ac_strike :: int
  ac_reason :: string
  ac_verdicts :: "verdict list"

text \<open>The zero value of \<open>sdk.Action\<close>, on which the source's composite literals are built.\<close>

definition zero_action :: action where
  "zero_action = \<lparr>ac_ip = NoAddr, ac_op = [], ac_ttl = 0, ac_permanent = False, ac_strike = 0,
     ac_reason = [], ac_verdicts = []\<rparr>"

record target =
  tg_ip :: addr
  tg_prefix :: pfx
  tg_asn :: int
  tg_country :: string
  tg_ttl :: duration

definition zero_target :: target where
  "zero_target = \<lparr>tg_ip = NoAddr, tg_prefix = no_prefix, tg_asn = 0, tg_country = [], tg_ttl = 0\<rparr>"

record usage =
  us_input_tokens :: int
  us_output_tokens :: int
  us_cost_usd :: rat

record notification =
  nt_severity :: string
  nt_title :: string
  nt_body :: string
  nt_action :: "action option"

end
