(* ===== verification/Aggregate.thy ===== *)
theory Aggregate
  imports Sdk
begin

text \<open>
  The per-IP sliding-window aggregator, \<open>internal/aggregate/aggregate.go\<close>.

  A bucket keeps the newest events of an address in arrival order, at most \<open>maxSamp\<close> of
  them; older events of the retention horizon are folded into fixed-width overflow slots.
  Dictionaries are ranged over in an unspecified order by the source, so the operations
  whose outcome may depend on it (\<open>evict_lru\<close>, \<open>agg_flush\<close>) take the visiting order as an
  argument.  A nil overflow map is the empty dictionary: the code never keeps an empty
  non-nil one between calls.

  Main results: every operation keeps the state well formed (sample cap, empty sample means
  no counters), the counts reported by \<open>agg_aggregate\<close> never include an event older than
  the window, and, when nothing was evicted for capacity, they miss only events that are
  less than one slot width inside the window.
\<close>

section \<open>State\<close>

definition DefaultMaxSamples :: int where "DefaultMaxSamples = 4096"
definition minOverflowBucket :: duration where "minOverflowBucket = Second"
definition maxOverflowBucket :: duration where "maxOverflowBucket = Minute"
definition overflowBucketDiv :: int where "overflowBucketDiv = 12"

record agg_entry =
  en_at :: time
  en_ev :: event
  en_counters :: "string list"

record overflow_slot =
  sl_events :: int
  sl_kinds :: "(string, int) gomap"

record ip_bucket =
  bk_entries :: "agg_entry list"
  bk_overflow :: "(int, overflow_slot) gomap"
  bk_overflow_min :: int
  bk_last_seen :: time

record aggregator =
  gg_windows :: "duration list"
  gg_max_window :: duration
  gg_bucket :: duration
  gg_max_samp :: int
  gg_max_ips :: int
  gg_classify :: "(event \<Rightarrow> string list) option"
  gg_buckets :: "(addr, ip_bucket) gomap"

definition zero_bucket :: ip_bucket where
  "zero_bucket = \<lparr>bk_entries = [], bk_overflow = [], bk_overflow_min = 0, bk_last_seen = zero_time\<rparr>"

section \<open>Construction\<close>

definition agg_bucket_width :: "duration \<Rightarrow> duration" where
  "agg_bucket_width min_w =
     (let b = dur_truncate (quot min_w overflowBucketDiv) Second;
          b1 = (if b > maxOverflowBucket then maxOverflowBucket else b)
      in if b1 < minOverflowBucket then minOverflowBucket else b1)"

text \<open>\<open>None\<close> is the index-out-of-range panic of \<open>windows[0]\<close> on an empty slice.\<close>

fun agg_new :: "duration list \<Rightarrow> int \<Rightarrow> aggregator option" where
  "agg_new [] max_samples = None"
| "agg_new (w0 # ws) max_samples =
     (let max_w = foldl (\<lambda>m w. if w > m then w else m) w0 ws;
          min_w = foldl (\<lambda>m w. if w < m then w else m) w0 ws
      in Some \<lparr>gg_windows = w0 # ws, gg_max_window = max_w,
               gg_bucket = agg_bucket_width min_w,
               gg_max_samp = (if max_samples \<le> 0 then DefaultMaxSamples else max_samples),
               gg_max_ips = 0, gg_classify = None, gg_buckets = []\<rparr>)"

definition with_classifier :: "(event \<Rightarrow> string list) option \<Rightarrow> aggregator \<Rightarrow> aggregator" where
  "with_classifier f a = a\<lparr>gg_classify := f\<rparr>"

definition with_max_ips :: "int \<Rightarrow> aggregator \<Rightarrow> aggregator" where
  "with_max_ips n a = a\<lparr>gg_max_ips := n\<rparr>"

definition agg_len :: "aggregator \<Rightarrow> nat" where
  "agg_len a = length (gg_buckets a)"

definition agg_entries :: "addr \<Rightarrow> aggregator \<Rightarrow> nat" where
  "agg_entries ip a =
     (case gm_get (gg_buckets a) ip of None \<Rightarrow> 0 | Some b \<Rightarrow> length (bk_entries b))"

section \<open>Bucket operations\<close>

definition slot_before :: "int \<Rightarrow> time \<Rightarrow> bool" where
  "slot_before key cutoff \<longleftrightarrow> unix_time key < cutoff"

fun min_key :: "int list \<Rightarrow> int" where
  "min_key [] = 0"
| "min_key (k # ks) = foldl (\<lambda>m x. if x < m then x else m) k ks"

definition trim_before :: "time \<Rightarrow> ip_bucket \<Rightarrow> ip_bucket" where
  "trim_before cutoff b =
     (let es = dropWhile (\<lambda>e. en_at e < cutoff) (bk_entries b);
          b1 = b\<lparr>bk_entries := es\<rparr>
      in if bk_overflow b = [] then b1
         else if es = [] then b1\<lparr>bk_overflow := [], bk_overflow_min := 0\<rparr>
         else if \<not> slot_before (bk_overflow_min b) cutoff then b1
         else (let kept = filter (\<lambda>(key, s). \<not> slot_before key cutoff) (bk_overflow b)
               in b1\<lparr>bk_overflow := kept, bk_overflow_min := min_key (gm_keys kept)\<rparr>))"

definition overflow_key :: "duration \<Rightarrow> agg_entry \<Rightarrow> int" where
  "overflow_key width e = time_unix (time_truncate (en_at e) width)"

definition zero_slot :: overflow_slot where
  "zero_slot = \<lparr>sl_events = 0, sl_kinds = []\<rparr>"

definition slot_add :: "agg_entry \<Rightarrow> overflow_slot \<Rightarrow> overflow_slot" where
  "slot_add e s =
     s\<lparr>sl_events := sl_events s + 1,
       sl_kinds := foldl (\<lambda>m k. gm_add k 1 m) (gm_add (ev_kind (en_ev e)) 1 (sl_kinds s)) (en_counters e)\<rparr>"

definition fold_overflow :: "duration \<Rightarrow> ip_bucket \<Rightarrow> agg_entry \<Rightarrow> ip_bucket" where
  "fold_overflow width b e =
     (let key = overflow_key width e
      in case gm_get (bk_overflow b) key of
           Some s \<Rightarrow> b\<lparr>bk_overflow := gm_set key (slot_add e s) (bk_overflow b)\<rparr>
         | None \<Rightarrow>
             (let ov = gm_set key (slot_add e zero_slot) (bk_overflow b)
              in b\<lparr>bk_overflow := ov,
                   bk_overflow_min :=
                     (if length ov = 1 \<or> key < bk_overflow_min b then key else bk_overflow_min b)\<rparr>))"

definition cap_sample :: "duration \<Rightarrow> int \<Rightarrow> ip_bucket \<Rightarrow> ip_bucket" where
  "cap_sample width max_samp b =
     (let surplus = int (length (bk_entries b)) - max_samp
      in if surplus > 0 then
           (let b1 = foldl (fold_overflow width) b (take (nat surplus) (bk_entries b))
            in b1\<lparr>bk_entries := drop (nat surplus) (bk_entries b)\<rparr>)
         else b)"

section \<open>Aggregator operations\<close>

definition lru_pick :: "(addr, ip_bucket) gomap \<Rightarrow> addr list \<Rightarrow> (addr \<times> time) option" where
  "lru_pick m order =
     foldl (\<lambda>acc ip.
       case gm_get m ip of
         None \<Rightarrow> acc
       | Some b \<Rightarrow>
           (case acc of
              None \<Rightarrow> Some (ip, bk_last_seen b)
            | Some (lip, lt) \<Rightarrow> if bk_last_seen b < lt then Some (ip, bk_last_seen b) else acc))
       None order"

definition evict_lru :: "addr list \<Rightarrow> aggregator \<Rightarrow> aggregator" where
  "evict_lru order a =
     (case lru_pick (gg_buckets a) order of
        None \<Rightarrow> a
      | Some (ip, _) \<Rightarrow>
          if addr_is_valid ip then a\<lparr>gg_buckets := gm_del ip (gg_buckets a)\<rparr> else a)"

definition agg_entry_of :: "aggregator \<Rightarrow> event \<Rightarrow> agg_entry" where
  "agg_entry_of a ev =
     \<lparr>en_at = ev_time ev, en_ev = ev,
      en_counters = (case gg_classify a of None \<Rightarrow> [] | Some f \<Rightarrow> f ev)\<rparr>"

definition bucket_add :: "aggregator \<Rightarrow> event \<Rightarrow> ip_bucket \<Rightarrow> ip_bucket" where
  "bucket_add a ev b =
     (let b1 = b\<lparr>bk_entries := bk_entries b @ [agg_entry_of a ev], bk_last_seen := ev_time ev\<rparr>
      in cap_sample (gg_bucket a) (gg_max_samp a) (trim_before (ev_time ev - gg_max_window a) b1))"

definition agg_add :: "addr list \<Rightarrow> event \<Rightarrow> aggregator \<Rightarrow> aggregator" where
  "agg_add order ev a =
     (let ip = ev_source_ip ev;
          b = (case gm_get (gg_buckets a) ip of None \<Rightarrow> zero_bucket | Some b \<Rightarrow> b);
          a1 = a\<lparr>gg_buckets := gm_set ip (bucket_add a ev b) (gg_buckets a)\<rparr>
      in if gg_max_ips a1 > 0 \<and> int (length (gg_buckets a1)) > gg_max_ips a1
         then evict_lru order a1 else a1)"

definition kinds_of_entries :: "agg_entry list \<Rightarrow> (string, int) gomap" where
  "kinds_of_entries es =
     foldl (\<lambda>m e. foldl (\<lambda>m k. gm_add k 1 m) (gm_add (ev_kind (en_ev e)) 1 m) (en_counters e)) [] es"

definition add_slot_kinds :: "(string, int) gomap \<Rightarrow> (int \<times> overflow_slot) \<Rightarrow> (string, int) gomap" where
  "add_slot_kinds m ks = foldl (\<lambda>m (k, n). gm_add k n m) m (sl_kinds (snd ks))"

definition agg_aggregate :: "addr \<Rightarrow> duration \<Rightarrow> time \<Rightarrow> aggregator \<Rightarrow> aggregate" where
  "agg_aggregate ip window now a =
     (let cutoff = now - window;
          b = (case gm_get (gg_buckets a) ip of None \<Rightarrow> zero_bucket | Some b \<Rightarrow> b);
          inw = filter (\<lambda>e. \<not> en_at e < cutoff) (bk_entries b);
          slots = filter (\<lambda>(key, s). \<not> slot_before key cutoff) (bk_overflow b)
      in \<lparr>ag_ip = ip, ag_window = window,
          ag_count = int (length inw) + sum_list (map (\<lambda>(key, s). sl_events s) slots),
          ag_kinds = foldl add_slot_kinds (kinds_of_entries inw) slots,
          ag_sample = map en_ev inw,
          ag_enrich = no_enrichment, ag_behavior = None\<rparr>)"

definition agg_reset :: "addr \<Rightarrow> aggregator \<Rightarrow> aggregator" where
  "agg_reset ip a = a\<lparr>gg_buckets := gm_del ip (gg_buckets a)\<rparr>"

text \<open>\<open>order\<close> lists the addresses visited before the context was cancelled.\<close>

definition flush_one :: "time \<Rightarrow> aggregator \<Rightarrow> addr \<Rightarrow> aggregator" where
  "flush_one cutoff a ip =
     (case gm_get (gg_buckets a) ip of
        None \<Rightarrow> a
      | Some b \<Rightarrow>
          (let b1 = trim_before cutoff b
           in if bk_entries b1 = [] then a\<lparr>gg_buckets := gm_del ip (gg_buckets a)\<rparr>
              else a\<lparr>gg_buckets := gm_set ip b1 (gg_buckets a)\<rparr>))"

definition agg_flush :: "addr list \<Rightarrow> time \<Rightarrow> aggregator \<Rightarrow> aggregator" where
  "agg_flush order cutoff a = foldl (flush_one cutoff) a order"


section \<open>Well-formed states\<close>

definition slots_ok :: "(int, overflow_slot) gomap \<Rightarrow> bool" where
  "slots_ok ov \<longleftrightarrow> gm_ok ov \<and> (\<forall>(key, s) \<in> set ov. gm_ok (sl_kinds s) \<and> 0 < sl_events s)"

definition bucket_ok :: "int \<Rightarrow> ip_bucket \<Rightarrow> bool" where
  "bucket_ok max_samp b \<longleftrightarrow>
     slots_ok (bk_overflow b)
     \<and> int (length (bk_entries b)) \<le> max_samp
     \<and> (bk_overflow b \<noteq> [] \<longrightarrow> bk_entries b \<noteq> [] \<and> bk_overflow_min b = min_key (gm_keys (bk_overflow b)))"

definition agg_ok :: "aggregator \<Rightarrow> bool" where
  "agg_ok a \<longleftrightarrow>
     gm_ok (gg_buckets a) \<and> 0 < gg_max_samp a \<and> 0 < gg_bucket a \<and> gg_bucket a mod Second = 0
     \<and> 0 \<le> gg_max_window a
     \<and> (\<forall>(ip, b) \<in> set (gg_buckets a). bucket_ok (gg_max_samp a) b)
     \<and> list_all addr_is_valid (gm_keys (gg_buckets a))
     \<and> (gg_max_ips a > 0 \<longrightarrow> int (length (gg_buckets a)) \<le> gg_max_ips a)"

section \<open>Counting lemmas\<close>

definition entry_weight :: "string \<Rightarrow> agg_entry \<Rightarrow> int" where
  "entry_weight k e = (if ev_kind (en_ev e) = k then 1 else 0) + int (count_list (en_counters e) k)"

lemma entry_weight_nonneg: "0 \<le> entry_weight k e"
  by (simp add: entry_weight_def)

lemma gm_val_count: "gm_val (foldl (\<lambda>m k. gm_add k 1 m) m ks) k = gm_val m k + int (count_list ks k)"
  by (induction ks arbitrary: m) auto

lemma gm_ok_count [simp, intro]: "gm_ok m \<Longrightarrow> gm_ok (foldl (\<lambda>m k. gm_add k 1 m) m ks)"
  by (induction ks arbitrary: m) auto

lemma slot_add_kind: "gm_val (sl_kinds (slot_add e s)) k = gm_val (sl_kinds s) k + entry_weight k e"
  by (simp add: slot_add_def gm_val_count entry_weight_def)

lemma kinds_of_entries_val: "gm_val (kinds_of_entries es) k = sum_list (map (entry_weight k) es)"
proof -
  have "gm_val (foldl (\<lambda>m e. foldl (\<lambda>m k. gm_add k 1 m) (gm_add (ev_kind (en_ev e)) 1 m) (en_counters e)) m es) k
      = gm_val m k + sum_list (map (entry_weight k) es)" for m
    by (induction es arbitrary: m) (auto simp: gm_val_count entry_weight_def)
  then show ?thesis by (simp add: kinds_of_entries_def)
qed

lemma gm_val_merge:
  "gm_ok ks \<Longrightarrow> gm_val (foldl (\<lambda>m (k, n). gm_add k n m) m ks) k = gm_val m k + gm_val ks k"
proof (induction ks arbitrary: m)
  case Nil
  then show ?case by simp
next
  case (Cons kn ks)
  obtain k0 n where kn: "kn = (k0, n)" by force
  with Cons.prems have ok: "gm_ok ks" and "k0 \<notin> fst ` set ks" by (auto simp: gm_ok_def)
  then have "gm_val ks k0 = 0" by (simp add: gm_val_def map_of_eq_None_iff [THEN iffD2])
  with Cons.IH [OF ok] show ?case by (auto simp: kn) (auto simp: gm_val_def)
qed

text \<open>
  The overflow dictionary as a sum: \<open>slot_total val P\<close> adds \<open>val\<close> of the slots whose key
  satisfies \<open>P\<close>, \<open>entry_total w P\<close> the weights of the folded entries whose key does.
\<close>

definition slot_total :: "(overflow_slot \<Rightarrow> int) \<Rightarrow> (int \<Rightarrow> bool) \<Rightarrow> (int, overflow_slot) gomap \<Rightarrow> int" where
  "slot_total val P ov = sum_list (map (\<lambda>(key, s). val s) (filter (\<lambda>(key, s). P key) ov))"

definition entry_total :: "(agg_entry \<Rightarrow> int) \<Rightarrow> (agg_entry \<Rightarrow> bool) \<Rightarrow> agg_entry multiset \<Rightarrow> int" where
  "entry_total w P G = sum_mset (image_mset w (filter_mset P G))"

definition additive :: "(overflow_slot \<Rightarrow> int) \<Rightarrow> (agg_entry \<Rightarrow> int) \<Rightarrow> bool" where
  "additive val w \<longleftrightarrow> val zero_slot = 0 \<and> (\<forall>e s. val (slot_add e s) = val s + w e)"

definition counts_folded :: "duration \<Rightarrow> agg_entry multiset \<Rightarrow> (int, overflow_slot) gomap \<Rightarrow> bool" where
  "counts_folded width G ov \<longleftrightarrow>
     (\<forall>val w P. additive val w \<longrightarrow>
        slot_total val P ov = entry_total w (\<lambda>e. P (overflow_key width e)) G)"

lemma additive_events: "additive sl_events (\<lambda>_. 1)"
  by (simp add: additive_def zero_slot_def slot_add_def)

lemma additive_kind: "additive (\<lambda>s. gm_val (sl_kinds s) k) (entry_weight k)"
  by (simp add: additive_def zero_slot_def slot_add_kind)

lemma slot_total_set:
  "slot_total val P (gm_set key s ov) = slot_total val P ov +
     (if P key then val s - (case gm_get ov key of None \<Rightarrow> 0 | Some s' \<Rightarrow> val s') else 0)"
  by (induction ov) (auto simp: slot_total_def)

lemma slot_total_filter:
  "slot_total val P (filter (\<lambda>(key, s). Q key) ov) = slot_total val (\<lambda>k. P k \<and> Q k) ov"
  by (induction ov) (auto simp: slot_total_def)

lemma entry_total_filter:
  "entry_total w P (filter_mset Q G) = entry_total w (\<lambda>e. P e \<and> Q e) G"
  by (simp add: entry_total_def filter_filter_mset conj_commute)

lemma entry_total_add [simp]:
  "entry_total w P (add_mset e G) = (if P e then w e else 0) + entry_total w P G"
  by (simp add: entry_total_def)

lemma entry_total_union [simp]: "entry_total w P (G + H) = entry_total w P G + entry_total w P H"
  by (simp add: entry_total_def)

lemma entry_total_empty [simp]: "entry_total w P {#} = 0"
  by (simp add: entry_total_def)

lemma entry_total_mset: "entry_total w P (mset es) = sum_list (map w (filter P es))"
  by (simp add: entry_total_def sum_mset_sum_list [symmetric] flip: mset_filter mset_map)

lemma entry_total_nonneg: "(\<And>e. 0 \<le> w e) \<Longrightarrow> 0 \<le> entry_total w P G"
  by (induction G) auto

lemma entry_total_mono:
  assumes "\<And>e. 0 \<le> w e" and "\<And>e. e \<in># G \<Longrightarrow> P e \<Longrightarrow> Q e"
  shows "entry_total w P G \<le> entry_total w Q G"
  using assms(2)
proof (induction G)
  case empty
  then show ?case by simp
next
  case (add e G)
  then have "entry_total w P G \<le> entry_total w Q G" and "P e \<Longrightarrow> Q e" by auto
  with assms(1) [of e] show ?case by auto
qed

lemma counts_folded_empty: "counts_folded width {#} []"
  by (simp add: counts_folded_def slot_total_def)

lemma counts_folded_filter:
  "counts_folded width G ov \<Longrightarrow>
     counts_folded width (filter_mset (\<lambda>e. Q (overflow_key width e)) G) (filter (\<lambda>(key, s). Q key) ov)"
  by (auto simp: counts_folded_def slot_total_filter entry_total_filter)

lemma fold_overflow_slots:
  "bk_overflow (fold_overflow width b e) =
     gm_set (overflow_key width e)
       (slot_add e (case gm_get (bk_overflow b) (overflow_key width e) of None \<Rightarrow> zero_slot | Some s \<Rightarrow> s))
       (bk_overflow b)"
  by (auto simp: fold_overflow_def Let_def split: option.splits)

lemma fold_overflow_entries [simp]: "bk_entries (fold_overflow width b e) = bk_entries b"
  by (auto simp: fold_overflow_def Let_def split: option.splits)

lemma counts_folded_step:
  "counts_folded width G (bk_overflow b) \<Longrightarrow>
     counts_folded width (add_mset e G) (bk_overflow (fold_overflow width b e))"
  unfolding counts_folded_def fold_overflow_slots
  by (auto simp: slot_total_set additive_def split: option.splits)

lemma counts_folded_fold:
  "counts_folded width G (bk_overflow b) \<Longrightarrow>
     counts_folded width (G + mset es) (bk_overflow (foldl (fold_overflow width) b es))"
proof (induction es arbitrary: b G)
  case Nil
  then show ?case by simp
next
  case (Cons e es)
  from Cons.IH [OF counts_folded_step [OF Cons.prems]] show ?case by simp
qed

lemma foldl_overflow_entries [simp]: "bk_entries (foldl (fold_overflow width) b es) = bk_entries b"
  by (induction es arbitrary: b) auto


section \<open>What a bucket remembers of its history\<close>

text \<open>
  \<open>bucket_tracks width lost hist b\<close>: the events added so far (\<open>hist\<close>) split into those
  folded into the overflow counters, those still in the raw sample, and lost ones, each of
  which satisfies \<open>lost\<close>.
\<close>

definition bucket_tracks ::
  "duration \<Rightarrow> (agg_entry \<Rightarrow> bool) \<Rightarrow> agg_entry multiset \<Rightarrow> ip_bucket \<Rightarrow> bool" where
  "bucket_tracks width lost hist b \<longleftrightarrow>
     (\<exists>G L. hist = G + mset (bk_entries b) + L \<and> counts_folded width G (bk_overflow b)
        \<and> (\<forall>e \<in># L. lost e))"

lemma bucket_tracks_zero: "bucket_tracks width lost {#} zero_bucket"
  by (auto simp: bucket_tracks_def zero_bucket_def counts_folded_empty)

lemma bucket_tracks_append:
  "bucket_tracks width lost hist b \<Longrightarrow>
     bucket_tracks width lost (add_mset e hist)
       (b\<lparr>bk_entries := bk_entries b @ [e], bk_last_seen := t\<rparr>)"
  unfolding bucket_tracks_def by fastforce

lemma dropWhile_mset_split: "mset xs = mset (dropWhile P xs) + mset (takeWhile P xs)"
  by (metis mset_append takeWhile_dropWhile_id union_commute)

lemma trim_before_entries:
  "bk_entries (trim_before cutoff b) = dropWhile (\<lambda>e. en_at e < cutoff) (bk_entries b)"
  by (simp add: trim_before_def Let_def)

lemma bucket_tracks_trim:
  assumes tr: "bucket_tracks width lost hist b"
    and old: "\<And>e. en_at e < cutoff \<Longrightarrow> lost e"
    and slot: "\<And>e. slot_before (overflow_key width e) cutoff \<Longrightarrow> lost e"
    and all: "bk_entries (trim_before cutoff b) = [] \<Longrightarrow> \<forall>e. lost e"
  shows "bucket_tracks width lost hist (trim_before cutoff b)"
proof -
  from tr obtain G L where h: "hist = G + mset (bk_entries b) + L"
    and c: "counts_folded width G (bk_overflow b)" and L: "\<forall>e \<in># L. lost e"
    by (auto simp: bucket_tracks_def)
  let ?es = "dropWhile (\<lambda>e. en_at e < cutoff) (bk_entries b)"
  let ?dr = "takeWhile (\<lambda>e. en_at e < cutoff) (bk_entries b)"
  have dr: "\<forall>e \<in> set ?dr. lost e" using old by (auto dest: set_takeWhileD)
  have split: "mset (bk_entries b) = mset ?es + mset ?dr" by (rule dropWhile_mset_split)
  have part: "bucket_tracks width lost hist b'"
    if "bk_entries b' = ?es" "bk_overflow b' = filter (\<lambda>(k, s). Q k) (bk_overflow b)"
      and "\<And>e. \<not> Q (overflow_key width e) \<Longrightarrow> lost e" for Q b'
    unfolding bucket_tracks_def
  proof (intro exI conjI)
    show "counts_folded width (filter_mset (\<lambda>e. Q (overflow_key width e)) G) (bk_overflow b')"
      using counts_folded_filter [OF c] that(2) by simp
    show "hist = filter_mset (\<lambda>e. Q (overflow_key width e)) G + mset (bk_entries b')
        + (filter_mset (\<lambda>e. \<not> Q (overflow_key width e)) G + mset ?dr + L)"
      using h split that(1) multiset_partition [of G "\<lambda>e. Q (overflow_key width e)"]
      by (simp add: ac_simps)
    show "\<forall>e \<in># filter_mset (\<lambda>e. \<not> Q (overflow_key width e)) G + mset ?dr + L. lost e"
      using that(3) dr L by auto
  qed
  consider "bk_overflow b = []" | "bk_overflow b \<noteq> []" "?es = []"
    | "bk_overflow b \<noteq> []" "?es \<noteq> []" "\<not> slot_before (bk_overflow_min b) cutoff"
    | "bk_overflow b \<noteq> []" "?es \<noteq> []" "slot_before (bk_overflow_min b) cutoff" by blast
  then show ?thesis
  proof cases
    case 1
    then show ?thesis by (intro part [of _ "\<lambda>_. True"]) (auto simp: trim_before_def Let_def)
  next
    case 2
    then show ?thesis using all
      by (intro part [of _ "\<lambda>_. False"]) (simp_all add: trim_before_def Let_def)
  next
    case 3
    then show ?thesis by (intro part [of _ "\<lambda>_. True"]) (auto simp: trim_before_def Let_def)
  next
    case 4
    then show ?thesis using slot
      by (intro part [of _ "\<lambda>k. \<not> slot_before k cutoff"]) (auto simp: trim_before_def Let_def)
  qed
qed

lemma cap_sample_entries:
  "bk_entries (cap_sample width m b) =
     (if int (length (bk_entries b)) > m then drop (nat (int (length (bk_entries b)) - m)) (bk_entries b)
      else bk_entries b)"
  by (simp add: cap_sample_def Let_def)

lemma bucket_tracks_cap:
  assumes "bucket_tracks width lost hist b"
  shows "bucket_tracks width lost hist (cap_sample width m b)"
proof (cases "int (length (bk_entries b)) - m > 0")
  case False
  then show ?thesis using assms by (simp add: cap_sample_def Let_def)
next
  case True
  let ?n = "nat (int (length (bk_entries b)) - m)"
  from assms obtain G L where h: "hist = G + mset (bk_entries b) + L"
    and c: "counts_folded width G (bk_overflow b)" and L: "\<forall>e \<in># L. lost e"
    by (auto simp: bucket_tracks_def)
  have "mset (bk_entries b) = mset (take ?n (bk_entries b)) + mset (drop ?n (bk_entries b))"
    by (metis append_take_drop_id mset_append)
  then have "hist = G + mset (take ?n (bk_entries b)) + mset (drop ?n (bk_entries b)) + L"
    using h by (simp add: ac_simps)
  moreover have "counts_folded width (G + mset (take ?n (bk_entries b))) (bk_overflow (cap_sample width m b))"
    using True counts_folded_fold [OF c, of "take ?n (bk_entries b)"] by (simp add: cap_sample_def Let_def)
  moreover have "bk_entries (cap_sample width m b) = drop ?n (bk_entries b)"
    using True by (simp add: cap_sample_entries)
  ultimately show ?thesis unfolding bucket_tracks_def using L by metis
qed

text \<open>An event just added is always in the window, so the trim of \<open>Add\<close> never empties a sample.\<close>

lemma dropWhile_snoc_nonempty: "\<not> P x \<Longrightarrow> dropWhile P (xs @ [x]) \<noteq> []"
  by (induction xs) auto

lemma bucket_tracks_add:
  assumes "bucket_tracks (gg_bucket a) lost hist b" and "0 \<le> gg_max_window a"
    and "\<And>e. en_at e < ev_time ev - gg_max_window a \<Longrightarrow> lost e"
    and "\<And>e. slot_before (overflow_key (gg_bucket a) e) (ev_time ev - gg_max_window a) \<Longrightarrow> lost e"
  shows "bucket_tracks (gg_bucket a) lost (add_mset (agg_entry_of a ev) hist) (bucket_add a ev b)"
proof -
  let ?b1 = "b\<lparr>bk_entries := bk_entries b @ [agg_entry_of a ev], bk_last_seen := ev_time ev\<rparr>"
  let ?c = "ev_time ev - gg_max_window a"
  have "bk_entries (trim_before ?c ?b1) \<noteq> []"
    using assms(2)
    by (simp add: trim_before_entries dropWhile_snoc_nonempty agg_entry_of_def)
  then have "bucket_tracks (gg_bucket a) lost (add_mset (agg_entry_of a ev) hist) (trim_before ?c ?b1)"
    using bucket_tracks_append [OF assms(1)] assms(3,4) by (intro bucket_tracks_trim) auto
  then show ?thesis unfolding bucket_add_def Let_def by (rule bucket_tracks_cap)
qed


section \<open>Reported counts\<close>

abbreviation bucket_of :: "aggregator \<Rightarrow> addr \<Rightarrow> ip_bucket" where
  "bucket_of a ip \<equiv> (case gm_get (gg_buckets a) ip of None \<Rightarrow> zero_bucket | Some b \<Rightarrow> b)"

lemma foldl_add_slot_kinds:
  "(\<forall>(key, s) \<in> set slots. gm_ok (sl_kinds s)) \<Longrightarrow>
     gm_val (foldl add_slot_kinds m slots) k = gm_val m k + sum_list (map (\<lambda>(key, s). gm_val (sl_kinds s) k) slots)"
  by (induction slots arbitrary: m) (auto simp: add_slot_kinds_def gm_val_merge)

lemma agg_aggregate_kind:
  assumes "slots_ok (bk_overflow (bucket_of a ip))"
  shows "gm_val (ag_kinds (agg_aggregate ip w now a)) k =
     entry_total (entry_weight k) (\<lambda>e. \<not> en_at e < now - w) (mset (bk_entries (bucket_of a ip)))
     + slot_total (\<lambda>s. gm_val (sl_kinds s) k) (\<lambda>key. \<not> slot_before key (now - w)) (bk_overflow (bucket_of a ip))"
proof -
  have ok: "\<forall>(key, s) \<in> set (filter (\<lambda>(key, s). \<not> slot_before key (now - w)) (bk_overflow (bucket_of a ip))).
      gm_ok (sl_kinds s)"
    using assms by (auto simp: slots_ok_def)
  show ?thesis
    unfolding agg_aggregate_def Let_def slot_total_def
    using foldl_add_slot_kinds [OF ok] by (simp add: kinds_of_entries_val entry_total_mset)
qed

lemma agg_aggregate_count:
  "ag_count (agg_aggregate ip w now a) =
     entry_total (\<lambda>_. 1) (\<lambda>e. \<not> en_at e < now - w) (mset (bk_entries (bucket_of a ip)))
     + slot_total sl_events (\<lambda>key. \<not> slot_before key (now - w)) (bk_overflow (bucket_of a ip))"
  by (simp add: agg_aggregate_def Let_def slot_total_def entry_total_mset sum_list_triv)

lemma overflow_key_le: "unix_time (overflow_key width e) \<le> en_at e"
  using unix_time_of_time_unix_le [of "time_truncate (en_at e) width"] time_truncate_le [of "en_at e" width]
  by (simp add: overflow_key_def)

text \<open>Slot widths are whole seconds, so the start of a slot is exactly its key.\<close>

lemma overflow_key_gt:
  assumes "0 < width" and "width mod Second = 0"
  shows "en_at e - width < unix_time (overflow_key width e)"
proof -
  let ?t = "time_truncate (en_at e) width"
  have "?t + zero_time_offset = width * ((en_at e + zero_time_offset) div width)"
    using assms(1) mult_div_mod_eq [of width "en_at e + zero_time_offset"]
    by (simp add: time_truncate_def algebra_simps)
  then have "Second dvd ?t + zero_time_offset"
    using assms(2) by (simp add: mod_eq_0_iff_dvd)
  moreover have "Second dvd zero_time_offset" by (simp add: zero_time_offset_def)
  ultimately have "Second dvd ?t" by (simp add: dvd_add_left_iff)
  then have "unix_time (time_unix ?t) = ?t" by (simp add: unix_time_def time_unix_def)
  then show ?thesis using time_truncate_gt [OF assms(1)] by (simp add: overflow_key_def)
qed

text \<open>
  The counts of a tracked bucket lie between the number of events at least one slot width
  inside the window and the number of events inside the window.
\<close>

definition reported_total ::
  "(overflow_slot \<Rightarrow> int) \<Rightarrow> (agg_entry \<Rightarrow> int) \<Rightarrow> time \<Rightarrow> ip_bucket \<Rightarrow> int" where
  "reported_total val w cutoff b =
     entry_total w (\<lambda>e. \<not> en_at e < cutoff) (mset (bk_entries b))
     + slot_total val (\<lambda>key. \<not> slot_before key cutoff) (bk_overflow b)"

lemma reported_total_tracked:
  assumes "bucket_tracks width lost hist b" and "additive val w"
  obtains G L where "hist = G + mset (bk_entries b) + L" "\<forall>e \<in># L. lost e"
    "reported_total val w cutoff b =
       entry_total w (\<lambda>e. \<not> en_at e < cutoff) (mset (bk_entries b))
       + entry_total w (\<lambda>e. \<not> slot_before (overflow_key width e) cutoff) G"
  using assms by (auto simp: bucket_tracks_def counts_folded_def reported_total_def)

lemma reported_total_upper:
  assumes "bucket_tracks width lost hist b" and "additive val w" and pos: "\<And>e. 0 \<le> w e"
  shows "reported_total val w cutoff b \<le> entry_total w (\<lambda>e. \<not> en_at e < cutoff) hist"
proof -
  obtain G L where h: "hist = G + mset (bk_entries b) + L"
    and r: "reported_total val w cutoff b =
       entry_total w (\<lambda>e. \<not> en_at e < cutoff) (mset (bk_entries b))
       + entry_total w (\<lambda>e. \<not> slot_before (overflow_key width e) cutoff) G"
    using reported_total_tracked [OF assms(1,2)] by metis
  have "entry_total w (\<lambda>e. \<not> slot_before (overflow_key width e) cutoff) G \<le> entry_total w (\<lambda>e. \<not> en_at e < cutoff) G"
  proof (rule entry_total_mono [OF pos])
    fix e :: agg_entry assume "\<not> slot_before (overflow_key width e) cutoff"
    then show "\<not> en_at e < cutoff" using overflow_key_le [of width e] by (simp add: slot_before_def)
  qed
  moreover have "0 \<le> entry_total w (\<lambda>e. \<not> en_at e < cutoff) L" by (rule entry_total_nonneg [OF pos])
  ultimately show ?thesis using r h by simp
qed

lemma reported_total_lower:
  assumes "bucket_tracks width lost hist b" and "additive val w" and pos: "\<And>e. 0 \<le> w e"
    and w: "0 < width" "width mod Second = 0" and lost: "\<And>e. lost e \<Longrightarrow> en_at e < cutoff + width"
  shows "entry_total w (\<lambda>e. cutoff + width \<le> en_at e) hist \<le> reported_total val w cutoff b"
proof -
  obtain G L where h: "hist = G + mset (bk_entries b) + L" and L: "\<forall>e \<in># L. lost e"
    and r: "reported_total val w cutoff b =
       entry_total w (\<lambda>e. \<not> en_at e < cutoff) (mset (bk_entries b))
       + entry_total w (\<lambda>e. \<not> slot_before (overflow_key width e) cutoff) G"
    using reported_total_tracked [OF assms(1,2)] by metis
  have "entry_total w (\<lambda>e. cutoff + width \<le> en_at e) G \<le> entry_total w (\<lambda>e. \<not> slot_before (overflow_key width e) cutoff) G"
  proof (rule entry_total_mono [OF pos])
    fix e :: agg_entry assume "cutoff + width \<le> en_at e"
    then show "\<not> slot_before (overflow_key width e) cutoff"
      using overflow_key_gt [OF w, of e] by (simp add: slot_before_def)
  qed
  moreover have "entry_total w (\<lambda>e. cutoff + width \<le> en_at e) (mset (bk_entries b))
      \<le> entry_total w (\<lambda>e. \<not> en_at e < cutoff) (mset (bk_entries b))"
    using w by (intro entry_total_mono pos) auto
  moreover have "entry_total w (\<lambda>e. cutoff + width \<le> en_at e) L = 0"
  proof -
    have "filter_mset (\<lambda>e. cutoff + width \<le> en_at e) L = {#}"
      using L lost by (force simp: filter_mset_eq_conv)
    then show ?thesis by (simp only: entry_total_def) simp
  qed
  ultimately show ?thesis using r h by simp
qed

lemma agg_aggregate_totals:
  "ag_count (agg_aggregate ip w now a) = reported_total sl_events (\<lambda>_. 1) (now - w) (bucket_of a ip)"
  "slots_ok (bk_overflow (bucket_of a ip)) \<Longrightarrow>
     gm_val (ag_kinds (agg_aggregate ip w now a)) k =
       reported_total (\<lambda>s. gm_val (sl_kinds s) k) (entry_weight k) (now - w) (bucket_of a ip)"
  by (simp_all add: reported_total_def agg_aggregate_count agg_aggregate_kind)

section \<open>Every operation keeps the state well formed\<close>

definition overflow_ok :: "ip_bucket \<Rightarrow> bool" where
  "overflow_ok b \<longleftrightarrow> slots_ok (bk_overflow b)
     \<and> (bk_overflow b \<noteq> [] \<longrightarrow> bk_overflow_min b = min_key (gm_keys (bk_overflow b)))"

lemma bucket_ok_alt:
  "bucket_ok m b \<longleftrightarrow> overflow_ok b \<and> int (length (bk_entries b)) \<le> m
     \<and> (bk_entries b = [] \<longrightarrow> bk_overflow b = [])"
  by (auto simp: bucket_ok_def overflow_ok_def)

lemma min_key_snoc: "min_key (ks @ [k]) = (if ks = [] \<or> k < min_key ks then k else min_key ks)"
  by (cases ks) auto

lemma slots_ok_set: "slots_ok ov \<Longrightarrow> gm_ok (sl_kinds s) \<Longrightarrow> 0 < sl_events s \<Longrightarrow> slots_ok (gm_set key s ov)"
  by (auto simp: slots_ok_def dest: gm_set_in)

lemma slots_ok_slot: "slots_ok ov \<Longrightarrow> gm_get ov key = Some s \<Longrightarrow> gm_ok (sl_kinds s) \<and> 0 < sl_events s"
  by (auto simp: slots_ok_def dest: gm_get_in_set)

lemma overflow_ok_fold_step [ezy_inv]:
  assumes "overflow_ok b"
  shows "overflow_ok (fold_overflow width b e)"
proof -
  let ?k = "overflow_key width e"
  have s: "slots_ok (bk_overflow (fold_overflow width b e))"
    using assms slots_ok_slot [of "bk_overflow b" ?k]
    unfolding fold_overflow_slots overflow_ok_def
    by (intro slots_ok_set) (auto simp: slot_add_def zero_slot_def split: option.splits)
  show ?thesis
  proof (cases "gm_get (bk_overflow b) ?k")
    case None
    then have "?k \<notin> set (gm_keys (bk_overflow b))" by (simp add: map_of_eq_None_iff)
    then have keys: "gm_keys (bk_overflow (fold_overflow width b e)) = gm_keys (bk_overflow b) @ [?k]"
      by (simp add: fold_overflow_slots update_keys)
    show ?thesis
      using s assms None keys length_gm_set [of ?k _ "bk_overflow b"] \<open>?k \<notin> _\<close>
      by (auto simp: overflow_ok_def min_key_snoc fold_overflow_def Let_def)
  next
    case (Some sl)
    then have "?k \<in> set (gm_keys (bk_overflow b))" by (force dest: gm_get_in_set)
    then have "gm_keys (bk_overflow (fold_overflow width b e)) = gm_keys (bk_overflow b)"
      by (simp add: fold_overflow_slots update_keys)
    then show ?thesis using s assms Some by (auto simp: overflow_ok_def fold_overflow_def Let_def)
  qed
qed

lemma overflow_ok_fold [ezy_inv]: "overflow_ok b \<Longrightarrow> overflow_ok (foldl (fold_overflow width) b es)"
  by (rule foldl_invariant) (auto intro: ezy_inv)

lemma slots_ok_filter: "slots_ok ov \<Longrightarrow> slots_ok (filter P ov)"
  by (auto simp: slots_ok_def)

lemma overflow_ok_trim [ezy_inv]: "overflow_ok b \<Longrightarrow> overflow_ok (trim_before cutoff b)"
  by (auto simp: overflow_ok_def trim_before_def Let_def slots_ok_filter) (auto simp: slots_ok_def)

lemma trim_before_empty: "bk_entries (trim_before c b) = [] \<Longrightarrow> bk_overflow (trim_before c b) = []"
  unfolding trim_before_entries by (simp add: trim_before_def Let_def)

lemma bucket_ok_trim [ezy_inv]:
  assumes "bucket_ok m b"
  shows "bucket_ok m (trim_before c b)"
proof -
  have "length (dropWhile (\<lambda>e. en_at e < c) (bk_entries b)) \<le> length (bk_entries b)"
    by (rule length_dropWhile_le)
  then show ?thesis
    using assms trim_before_empty [of c b]
    by (auto simp: bucket_ok_alt trim_before_entries intro: ezy_inv)
qed

lemma overflow_ok_cap: "overflow_ok b \<Longrightarrow> overflow_ok (cap_sample width m b)"
  using overflow_ok_fold [of b width] by (simp add: cap_sample_def Let_def overflow_ok_def)

lemma bucket_ok_add [ezy_inv]:
  assumes "overflow_ok b" and "0 < gg_max_samp a" and "0 \<le> gg_max_window a"
  shows "bucket_ok (gg_max_samp a) (bucket_add a ev b)"
proof -
  let ?b1 = "b\<lparr>bk_entries := bk_entries b @ [agg_entry_of a ev], bk_last_seen := ev_time ev\<rparr>"
  let ?t = "trim_before (ev_time ev - gg_max_window a) ?b1"
  have ne: "bk_entries ?t \<noteq> []"
    using assms(3) by (simp add: trim_before_entries dropWhile_snoc_nonempty agg_entry_of_def)
  have "overflow_ok ?b1" using assms(1) by (simp add: overflow_ok_def)
  then have "overflow_ok (cap_sample (gg_bucket a) (gg_max_samp a) ?t)"
    by (intro overflow_ok_cap ezy_inv)
  moreover have "int (length (bk_entries (cap_sample (gg_bucket a) (gg_max_samp a) ?t))) \<le> gg_max_samp a
      \<and> bk_entries (cap_sample (gg_bucket a) (gg_max_samp a) ?t) \<noteq> []"
    using ne assms(2) by (auto simp: cap_sample_entries)
  ultimately show ?thesis by (simp add: bucket_ok_alt bucket_add_def)
qed


section \<open>Least-recently-seen eviction\<close>

lemma lru_pick_snoc:
  "lru_pick m (order @ [ip]) =
     (case gm_get m ip of
        None \<Rightarrow> lru_pick m order
      | Some b \<Rightarrow>
          (case lru_pick m order of
             None \<Rightarrow> Some (ip, bk_last_seen b)
           | Some (lip, lt) \<Rightarrow> if bk_last_seen b < lt then Some (ip, bk_last_seen b) else Some (lip, lt)))"
  by (auto simp: lru_pick_def split: option.splits)

text \<open>The pick is a visited bucket whose last event is oldest; it is missing only if none was visited.\<close>

lemma lru_pick_oldest:
  "case lru_pick m order of
     None \<Rightarrow> \<forall>ip \<in> set order. gm_get m ip = None
   | Some (ip, t) \<Rightarrow> ip \<in> set order \<and> (\<exists>b. gm_get m ip = Some b \<and> bk_last_seen b = t)
       \<and> (\<forall>ip' \<in> set order. \<forall>b'. gm_get m ip' = Some b' \<longrightarrow> t \<le> bk_last_seen b')"
proof (induction order rule: rev_induct)
  case Nil
  then show ?case by (simp add: lru_pick_def)
next
  case (snoc ip order)
  then show ?case by (auto simp: lru_pick_snoc split: option.splits if_splits)
qed

lemma lru_pick_key: "lru_pick m order = Some (ip, t) \<Longrightarrow> ip \<in> set (gm_keys m)"
  using lru_pick_oldest [where m = m and order = order] by (force dest: gm_get_in_set)

lemma evict_lru_frame [simp]:
  "gg_bucket (evict_lru order a) = gg_bucket a" "gg_max_window (evict_lru order a) = gg_max_window a"
  "gg_max_samp (evict_lru order a) = gg_max_samp a" "gg_max_ips (evict_lru order a) = gg_max_ips a"
  "gg_classify (evict_lru order a) = gg_classify a"
  by (auto simp: evict_lru_def split: option.splits)

lemma evict_lru_cases:
  "gg_buckets (evict_lru order a) = gg_buckets a
     \<or> (\<exists>ip \<in> set (gm_keys (gg_buckets a)). gg_buckets (evict_lru order a) = gm_del ip (gg_buckets a))"
proof (cases "lru_pick (gg_buckets a) order")
  case None
  then show ?thesis by (simp add: evict_lru_def)
next
  case (Some p)
  obtain ip t where p: "lru_pick (gg_buckets a) order = Some (ip, t)" using Some by (cases p) auto
  then show ?thesis using lru_pick_key [OF p] by (auto simp: evict_lru_def)
qed

lemma evict_lru_shrinks:
  assumes "set order = set (gm_keys (gg_buckets a))" and "gg_buckets a \<noteq> []"
    and "list_all addr_is_valid (gm_keys (gg_buckets a))" and "gm_ok (gg_buckets a)"
  shows "Suc (length (gg_buckets (evict_lru order a))) = length (gg_buckets a)"
proof -
  obtain k b m where "gg_buckets a = (k, b) # m" using assms(2) by (metis list.exhaust surj_pair)
  then have "k \<in> set order" "gm_get (gg_buckets a) k \<noteq> None" using assms(1) by auto
  then obtain ip t where p: "lru_pick (gg_buckets a) order = Some (ip, t)"
    using lru_pick_oldest [where m = "gg_buckets a" and order = order] by (cases "lru_pick (gg_buckets a) order") auto
  then have "ip \<in> set (gm_keys (gg_buckets a))" by (rule lru_pick_key)
  moreover from this assms(3) have "addr_is_valid ip" by (auto simp: list_all_iff)
  ultimately show ?thesis using p length_gm_del [OF assms(4)] by (simp add: evict_lru_def)
qed

section \<open>Runs of the aggregator\<close>

datatype agg_op = OpAdd "addr list" event | OpReset addr | OpFlush "addr list" time

fun agg_step :: "aggregator \<Rightarrow> agg_op \<Rightarrow> aggregator" where
  "agg_step a (OpAdd order ev) = agg_add order ev a"
| "agg_step a (OpReset ip) = agg_reset ip a"
| "agg_step a (OpFlush order cutoff) = agg_flush order cutoff a"

definition agg_run :: "aggregator \<Rightarrow> agg_op list \<Rightarrow> aggregator" where
  "agg_run a ops = foldl agg_step a ops"

text \<open>The entries of the events a run added for one address.\<close>

fun added :: "aggregator \<Rightarrow> addr \<Rightarrow> agg_op list \<Rightarrow> agg_entry multiset" where
  "added a ip [] = {#}"
| "added a ip (OpAdd order ev # ops) =
     (if ev_source_ip ev = ip then add_mset (agg_entry_of a ev) (added a ip ops) else added a ip ops)"
| "added a ip (_ # ops) = added a ip ops"

lemma added_append: "added a ip (ops @ ops') = added a ip ops + added a ip ops'"
  by (induction a ip ops rule: added.induct) auto

lemma flush_one_frame [simp]:
  "gg_bucket (flush_one c a ip) = gg_bucket a" "gg_max_window (flush_one c a ip) = gg_max_window a"
  "gg_max_samp (flush_one c a ip) = gg_max_samp a" "gg_max_ips (flush_one c a ip) = gg_max_ips a"
  "gg_classify (flush_one c a ip) = gg_classify a"
  by (auto simp: flush_one_def Let_def split: option.splits)

lemma agg_flush_frame [simp]:
  "gg_bucket (agg_flush order c a) = gg_bucket a" "gg_max_window (agg_flush order c a) = gg_max_window a"
  "gg_max_samp (agg_flush order c a) = gg_max_samp a" "gg_max_ips (agg_flush order c a) = gg_max_ips a"
  "gg_classify (agg_flush order c a) = gg_classify a"
  by (induction order arbitrary: a) (simp_all add: agg_flush_def)

lemma agg_step_frame [simp]:
  "gg_bucket (agg_step a x) = gg_bucket a" "gg_max_window (agg_step a x) = gg_max_window a"
  "gg_max_samp (agg_step a x) = gg_max_samp a" "gg_max_ips (agg_step a x) = gg_max_ips a"
  "gg_classify (agg_step a x) = gg_classify a"
  by (cases x; simp add: agg_add_def agg_reset_def Let_def)+

lemma agg_run_frame [simp]:
  "gg_bucket (agg_run a ops) = gg_bucket a" "gg_max_window (agg_run a ops) = gg_max_window a"
  "gg_max_samp (agg_run a ops) = gg_max_samp a" "gg_max_ips (agg_run a ops) = gg_max_ips a"
  "gg_classify (agg_run a ops) = gg_classify a"
  by (induction ops arbitrary: a) (simp_all add: agg_run_def)

lemma agg_entry_of_run [simp]: "agg_entry_of (agg_run a ops) ev = agg_entry_of a ev"
  by (simp add: agg_entry_of_def)

lemma agg_run_snoc: "agg_run a (ops @ [x]) = agg_step (agg_run a ops) x"
  by (simp add: agg_run_def)

text \<open>What a step does to the bucket of one address.\<close>

lemma bucket_of_set: "bucket_of (a\<lparr>gg_buckets := gm_set k v (gg_buckets a)\<rparr>) ip = (if ip = k then v else bucket_of a ip)"
  by simp

lemma bucket_of_evict: "bucket_of (evict_lru order a) ip = bucket_of a ip \<or> bucket_of (evict_lru order a) ip = zero_bucket"
  using evict_lru_cases [of order a] by auto

lemma bucket_of_add:
  "bucket_of (agg_add order ev a) ip = zero_bucket
   \<or> bucket_of (agg_add order ev a) ip =
       (if ip = ev_source_ip ev then bucket_add a ev (bucket_of a ip) else bucket_of a ip)"
  using bucket_of_evict [of order "a\<lparr>gg_buckets := gm_set (ev_source_ip ev) (bucket_add a ev (bucket_of a (ev_source_ip ev))) (gg_buckets a)\<rparr>" ip]
  by (auto simp: agg_add_def Let_def)

lemma bucket_of_add_unlimited:
  "gg_max_ips a \<le> 0 \<Longrightarrow> bucket_of (agg_add order ev a) ip =
     (if ip = ev_source_ip ev then bucket_add a ev (bucket_of a ip) else bucket_of a ip)"
  by (simp add: agg_add_def Let_def)

lemma bucket_of_flush_one:
  "bucket_of (flush_one c a ip') ip = zero_bucket
   \<or> bucket_of (flush_one c a ip') ip = bucket_of a ip
   \<or> bucket_of (flush_one c a ip') ip = trim_before c (bucket_of a ip)"
  by (auto simp: flush_one_def Let_def split: option.splits)


lemma bucket_tracks_lossy_zero: "bucket_tracks width (\<lambda>_. True) hist zero_bucket"
  unfolding bucket_tracks_def
  by (rule exI [of _ "{#}"], rule exI [of _ hist]) (simp add: zero_bucket_def counts_folded_empty)

lemma overflow_ok_zero [simp]: "overflow_ok zero_bucket"
  by (simp add: overflow_ok_def zero_bucket_def slots_ok_def)

lemma bucket_of_flush_tracks:
  "bucket_tracks width (\<lambda>_. True) hist (bucket_of a ip) \<Longrightarrow>
     bucket_tracks width (\<lambda>_. True) hist (bucket_of (agg_flush order c a) ip)"
  unfolding agg_flush_def
proof (induction order arbitrary: a)
  case Nil
  then show ?case by simp
next
  case (Cons ip' order)
  have "bucket_tracks width (\<lambda>_. True) hist (bucket_of (flush_one c a ip') ip)"
    using bucket_of_flush_one [of c a ip' ip] Cons.prems bucket_tracks_lossy_zero [of width hist]
      bucket_tracks_trim [OF Cons.prems, of c] by auto
  then show ?case using Cons.IH by simp
qed

lemma bucket_of_flush_overflow_ok:
  "\<forall>ip. overflow_ok (bucket_of a ip) \<Longrightarrow> overflow_ok (bucket_of (agg_flush order c a) ip)"
  unfolding agg_flush_def
proof (induction order arbitrary: a)
  case Nil
  then show ?case by simp
next
  case (Cons ip' order)
  have "\<forall>ip. overflow_ok (bucket_of (flush_one c a ip') ip)"
  proof
    fix ip
    show "overflow_ok (bucket_of (flush_one c a ip') ip)"
      using bucket_of_flush_one [of c a ip' ip] Cons.prems overflow_ok_trim [of "bucket_of a ip" c] by auto
  qed
  then show ?case using Cons.IH by simp
qed

lemma agg_run_overflow_ok:
  assumes "gg_buckets a = []" "0 < gg_max_samp a" "0 \<le> gg_max_window a"
  shows "\<forall>ip. overflow_ok (bucket_of (agg_run a ops) ip)"
proof (induction ops rule: rev_induct)
  case Nil
  then show ?case using assms by (simp add: agg_run_def)
next
  case (snoc x ops)
  show ?case
  proof
    fix ip
    show "overflow_ok (bucket_of (agg_run a (ops @ [x])) ip)"
    proof (cases x)
      case (OpAdd order ev)
      have "overflow_ok (bucket_add (agg_run a ops) ev (bucket_of (agg_run a ops) ip))"
        using bucket_ok_add [of "bucket_of (agg_run a ops) ip" "agg_run a ops" ev] snoc assms
        by (simp add: bucket_ok_alt)
      then show ?thesis
        using bucket_of_add [of order ev "agg_run a ops" ip] snoc OpAdd
        by (auto simp: agg_run_snoc)
    next
      case (OpReset ip')
      then show ?thesis using snoc by (simp add: agg_run_snoc agg_reset_def)
    next
      case (OpFlush order c)
      then show ?thesis using bucket_of_flush_overflow_ok [OF snoc] by (simp add: agg_run_snoc)
    qed
  qed
qed

lemma agg_run_tracks:
  assumes "gg_buckets a = []" "0 \<le> gg_max_window a"
  shows "bucket_tracks (gg_bucket a) (\<lambda>_. True) (added a ip ops) (bucket_of (agg_run a ops) ip)"
proof (induction ops rule: rev_induct)
  case Nil
  then show ?case using assms bucket_tracks_lossy_zero by (simp add: agg_run_def)
next
  case (snoc x ops)
  show ?case
  proof (cases x)
    case (OpAdd order ev)
    let ?s = "agg_run a ops"
    have "bucket_tracks (gg_bucket ?s) (\<lambda>_. True) (add_mset (agg_entry_of ?s ev) (added a ip ops))
        (bucket_add ?s ev (bucket_of ?s ip))"
      using snoc assms by (intro bucket_tracks_add) auto
    then show ?thesis
      using bucket_of_add [of order ev ?s ip] snoc OpAdd bucket_tracks_lossy_zero
      by (auto simp: agg_run_snoc added_append)
  next
    case (OpReset ip')
    then show ?thesis using snoc bucket_tracks_lossy_zero
      by (simp add: agg_run_snoc agg_reset_def added_append)
  next
    case (OpFlush order c)
    then show ?thesis using bucket_of_flush_tracks [OF snoc] by (simp add: agg_run_snoc added_append)
  qed
qed

text \<open>Without Reset, Flush and capacity eviction, only events older than the horizon are lost.\<close>

lemma agg_run_adds_tracks:
  assumes "gg_buckets a = []" "0 \<le> gg_max_window a" "gg_max_ips a \<le> 0" "0 < gg_bucket a"
    and "gg_bucket a mod Second = 0" and "\<forall>ev \<in> set evs. ev_time ev - gg_max_window a \<le> horizon"
  shows "bucket_tracks (gg_bucket a) (\<lambda>e. en_at e < horizon + gg_bucket a)
      (added a ip (map (OpAdd []) evs)) (bucket_of (agg_run a (map (OpAdd []) evs)) ip)"
  using assms(6)
proof (induction evs rule: rev_induct)
  case Nil
  then show ?case using assms bucket_tracks_zero by (simp add: agg_run_def)
next
  case (snoc ev evs)
  let ?s = "agg_run a (map (OpAdd []) evs)"
  have IH: "bucket_tracks (gg_bucket a) (\<lambda>e. en_at e < horizon + gg_bucket a)
      (added a ip (map (OpAdd []) evs)) (bucket_of ?s ip)" using snoc by simp
  have "bucket_tracks (gg_bucket ?s) (\<lambda>e. en_at e < horizon + gg_bucket a)
      (add_mset (agg_entry_of ?s ev) (added a ip (map (OpAdd []) evs))) (bucket_add ?s ev (bucket_of ?s ip))"
  proof (rule bucket_tracks_add)
    fix e :: agg_entry
    have le: "ev_time ev - gg_max_window a \<le> horizon" using snoc.prems by simp
    show "en_at e < ev_time ev - gg_max_window ?s \<Longrightarrow> en_at e < horizon + gg_bucket a"
      using le assms(4) by simp
    show "slot_before (overflow_key (gg_bucket ?s) e) (ev_time ev - gg_max_window ?s) \<Longrightarrow> en_at e < horizon + gg_bucket a"
      using overflow_key_gt [OF assms(4,5), of e] le by (simp add: slot_before_def)
  qed (use IH assms in auto)
  then show ?case
    using IH assms(3) bucket_of_add_unlimited [of ?s "[]" ev ip]
    by (auto simp: agg_run_snoc added_append)
qed

section \<open>Construction and preservation\<close>

lemma foldl_max_ge: "(m::int) \<le> foldl (\<lambda>m w. if w > m then w else m) m ws
    \<and> (\<forall>w \<in> set ws. w \<le> foldl (\<lambda>m w. if w > m then w else m) m ws)"
proof (induction ws arbitrary: m)
  case Nil
  then show ?case by simp
next
  case (Cons x ws)
  from Cons.IH [of "if x > m then x else m"] show ?case by auto
qed

lemma agg_bucket_width_ok: "0 < agg_bucket_width w \<and> agg_bucket_width w mod Second = 0"
  by (simp add: agg_bucket_width_def Let_def dur_truncate_def minOverflowBucket_def maxOverflowBucket_def
      Second_def Minute_def)

lemma agg_new_facts:
  assumes "agg_new ws ms = Some a" and "\<forall>w \<in> set ws. 0 < w"
  shows "gg_buckets a = []" "0 < gg_max_samp a" "0 \<le> gg_max_window a" "0 < gg_bucket a"
    "gg_bucket a mod Second = 0" "gg_max_ips a = 0" "w \<in> set ws \<Longrightarrow> w \<le> gg_max_window a"
proof -
  obtain w0 ws' where ws: "ws = w0 # ws'" using assms(1) by (cases ws) auto
  have a: "a = \<lparr>gg_windows = ws, gg_max_window = foldl (\<lambda>m w. if w > m then w else m) w0 ws',
      gg_bucket = agg_bucket_width (foldl (\<lambda>m w. if w < m then w else m) w0 ws'),
      gg_max_samp = (if ms \<le> 0 then DefaultMaxSamples else ms),
      gg_max_ips = 0, gg_classify = None, gg_buckets = []\<rparr>"
    using assms(1) by (simp add: ws Let_def)
  have w0: "0 < w0" using assms(2) ws by simp
  note m = foldl_max_ge [of w0 ws']
  show "gg_buckets a = []" "0 < gg_max_samp a" "0 < gg_bucket a" "gg_bucket a mod Second = 0" "gg_max_ips a = 0"
    using agg_bucket_width_ok by (simp_all add: a DefaultMaxSamples_def)
  show "0 \<le> gg_max_window a" using m w0 by (simp add: a)
  show "w \<le> gg_max_window a" if "w \<in> set ws" using m that by (auto simp: a ws)
qed

lemma agg_new_ok:
  assumes "agg_new ws ms = Some a" and "\<forall>w \<in> set ws. 0 < w"
  shows "agg_ok (with_max_ips n (with_classifier f a))"
  using agg_new_facts [OF assms] by (simp add: agg_ok_def with_max_ips_def with_classifier_def)

lemma buckets_ok_set:
  "\<forall>(ip, b) \<in> set m. bucket_ok k b \<Longrightarrow> bucket_ok k v \<Longrightarrow> \<forall>(ip, b) \<in> set (gm_set key v m). bucket_ok k b"
  by (auto dest: gm_set_in)

lemma buckets_ok_del:
  "\<forall>(ip, b) \<in> set m. bucket_ok k b \<Longrightarrow> \<forall>(ip, b) \<in> set (gm_del key m). bucket_ok k b"
  by (auto dest: gm_del_in)

lemma bucket_of_ok:
  assumes "agg_ok a"
  shows "overflow_ok (bucket_of a ip) \<and> (\<forall>b. gm_get (gg_buckets a) ip = Some b \<longrightarrow> bucket_ok (gg_max_samp a) b)"
  using assms by (auto simp: agg_ok_def bucket_ok_alt split: option.splits dest!: gm_get_in_set)

lemma valid_keys_set: "list_all addr_is_valid (gm_keys m) \<Longrightarrow> addr_is_valid k \<Longrightarrow>
    list_all addr_is_valid (gm_keys (gm_set k v m))"
  using gm_keys_set [of k v m] by (auto simp: list_all_iff)

lemma valid_keys_del: "list_all addr_is_valid (gm_keys m) \<Longrightarrow> list_all addr_is_valid (gm_keys (gm_del k m))"
  using gm_keys_del [of k m] by (auto simp: list_all_iff)

lemma length_gm_del_le: "length (gm_del k m) \<le> length m"
  by (rule length_delete_le)

lemma agg_ok_del:
  assumes "agg_ok a"
  shows "agg_ok (a\<lparr>gg_buckets := gm_del ip (gg_buckets a)\<rparr>)"
  using assms length_gm_del_le [of ip "gg_buckets a"]
  by (auto simp: agg_ok_def valid_keys_del dest: gm_del_in)

lemma agg_ok_reset [ezy_inv]: "agg_ok a \<Longrightarrow> agg_ok (agg_reset ip a)"
  unfolding agg_reset_def by (rule agg_ok_del)

lemma agg_ok_flush_one:
  assumes "agg_ok a"
  shows "agg_ok (flush_one c a ip)"
proof (cases "gm_get (gg_buckets a) ip")
  case None
  then show ?thesis using assms by (simp add: flush_one_def)
next
  case (Some b)
  then have key: "ip \<in> set (gm_keys (gg_buckets a))" by (force dest: gm_get_in_set)
  with assms have v: "addr_is_valid ip" by (auto simp: agg_ok_def list_all_iff)
  have "bucket_ok (gg_max_samp a) (trim_before c b)"
    using Some bucket_of_ok [OF assms, of ip] by (auto intro: ezy_inv)
  then have "agg_ok (a\<lparr>gg_buckets := gm_set ip (trim_before c b) (gg_buckets a)\<rparr>)"
    using assms key v valid_keys_set [of "gg_buckets a" ip] length_gm_set [of ip _ "gg_buckets a"]
    by (auto simp: agg_ok_def dest: gm_set_in)
  then show ?thesis using Some agg_ok_del [OF assms, of ip] by (simp add: flush_one_def Let_def)
qed

lemma agg_ok_flush [ezy_inv]: "agg_ok a \<Longrightarrow> agg_ok (agg_flush order c a)"
  unfolding agg_flush_def by (rule foldl_invariant) (auto intro: agg_ok_flush_one)

text \<open>\<open>Add\<close>, when the eviction scan visits every bucket.\<close>

lemma agg_ok_add [ezy_inv]:
  assumes ok: "agg_ok a" and v: "addr_is_valid (ev_source_ip ev)"
    and order: "set order = insert (ev_source_ip ev) (set (gm_keys (gg_buckets a)))"
  shows "agg_ok (agg_add order ev a)"
proof -
  let ?ip = "ev_source_ip ev" let ?b = "bucket_add a ev (bucket_of a ?ip)"
  let ?m = "gm_set ?ip ?b (gg_buckets a)" let ?a1 = "a\<lparr>gg_buckets := ?m\<rparr>"
  have b: "bucket_ok (gg_max_samp a) ?b"
    using ok bucket_of_ok [OF ok, of ?ip] by (intro bucket_ok_add) (auto simp: agg_ok_def)
  have all: "\<forall>(ip, b) \<in> set ?m. bucket_ok (gg_max_samp a) b"
    using ok b by (intro buckets_ok_set) (auto simp: agg_ok_def)
  have vk: "list_all addr_is_valid (gm_keys ?m)" using ok v by (intro valid_keys_set) (auto simp: agg_ok_def)
  have gm: "gm_ok ?m" using ok by (auto simp: agg_ok_def)
  have len: "length ?m \<le> Suc (length (gg_buckets a))" by (simp add: length_gm_set)
  show ?thesis
  proof (cases "gg_max_ips a > 0 \<and> int (length ?m) > gg_max_ips a")
    case False
    then show ?thesis using ok all vk gm by (auto simp: agg_add_def Let_def agg_ok_def)
  next
    case True
    have "set order = set (gm_keys (gg_buckets ?a1))"
      using order gm_keys_set [of ?ip ?b "gg_buckets a"] by simp
    then have sh: "Suc (length (gg_buckets (evict_lru order ?a1))) = length ?m"
      using evict_lru_shrinks [of order ?a1] vk gm by simp
    obtain ip' where d: "gg_buckets (evict_lru order ?a1) = gm_del ip' ?m"
      using evict_lru_cases [of order ?a1] sh by auto
    have "\<forall>(ip, b) \<in> set (gm_del ip' ?m). bucket_ok (gg_max_samp a) b" by (rule buckets_ok_del [OF all])
    then have "agg_ok (evict_lru order ?a1)"
      using ok gm vk sh len d valid_keys_del [OF vk, of ip'] by (auto simp: agg_ok_def)
    then show ?thesis using True by (simp add: agg_add_def Let_def)
  qed
qed

inductive agg_reach :: "aggregator \<Rightarrow> aggregator \<Rightarrow> bool" for a0 where
  agg_start: "agg_reach a0 a0"
| agg_add: "agg_reach a0 a \<Longrightarrow> addr_is_valid (ev_source_ip ev) \<Longrightarrow>
     set order = insert (ev_source_ip ev) (set (gm_keys (gg_buckets a))) \<Longrightarrow>
     agg_reach a0 (agg_add order ev a)"
| agg_reset: "agg_reach a0 a \<Longrightarrow> agg_reach a0 (agg_reset ip a)"
| agg_flush: "agg_reach a0 a \<Longrightarrow> agg_reach a0 (agg_flush order c a)"

lemma agg_reach_ok: "agg_reach a0 a \<Longrightarrow> agg_ok a0 \<Longrightarrow> agg_ok a"
  by (induction rule: agg_reach.induct) (auto intro: ezy_inv)

lemma agg_reach_frame:
  "agg_reach a0 a \<Longrightarrow> gg_max_samp a = gg_max_samp a0 \<and> gg_max_ips a = gg_max_ips a0"
proof (induction rule: agg_reach.induct)
  case (agg_add a ev order)
  then show ?case using agg_step_frame(3,4) [of a "OpAdd order ev"] by simp
next
  case (agg_reset a ip)
  then show ?case by (simp add: agg_reset_def)
qed simp_all


section \<open>Properties\<close>

text \<open>
  C23 (safety).  Whatever sequence of Add, Reset and Flush calls ran, and whatever the
  eviction order, the number of events and the number of events of each kind that Aggregate
  reports for an address and a window never exceed the numbers of events added for it with a
  timestamp inside the window: overflow counters never make a rule fire on events older than
  the window.
\<close>

theorem aggregate_never_overcounts:
  assumes "agg_new ws max_samples = Some a0" and "\<forall>w \<in> set ws. 0 < w"
    and "a = with_max_ips n (with_classifier f a0)"
  shows "ag_count (agg_aggregate ip w now (agg_run a ops))
      \<le> int (size {#e \<in># added a ip ops. now - w \<le> en_at e#})
    \<and> gm_val (ag_kinds (agg_aggregate ip w now (agg_run a ops))) k
      \<le> (\<Sum>e \<in># {#e \<in># added a ip ops. now - w \<le> en_at e#}. entry_weight k e)"
proof -
  note facts = agg_new_facts [OF assms(1,2)]
  have a: "gg_buckets a = []" "0 < gg_max_samp a" "0 \<le> gg_max_window a" "gg_bucket a = gg_bucket a0"
    using facts by (simp_all add: assms(3) with_max_ips_def with_classifier_def)
  have tr: "bucket_tracks (gg_bucket a) (\<lambda>_. True) (added a ip ops) (bucket_of (agg_run a ops) ip)"
    using a by (intro agg_run_tracks)
  have ok: "slots_ok (bk_overflow (bucket_of (agg_run a ops) ip))"
    using agg_run_overflow_ok [OF a(1-3)] by (simp add: overflow_ok_def)
  have "ag_count (agg_aggregate ip w now (agg_run a ops)) \<le> int (size {#e \<in># added a ip ops. now - w \<le> en_at e#})"
    using reported_total_upper [OF tr additive_events, of "now - w"]
    by (simp add: agg_aggregate_totals entry_total_def not_less)
  moreover have "gm_val (ag_kinds (agg_aggregate ip w now (agg_run a ops))) k
      \<le> (\<Sum>e \<in># {#e \<in># added a ip ops. now - w \<le> en_at e#}. entry_weight k e)"
    using reported_total_upper [OF tr additive_kind entry_weight_nonneg, where cutoff = "now - w"]
    by (simp add: agg_aggregate_totals(2) [OF ok] entry_total_def not_less)
  ultimately show ?thesis by blast
qed

text \<open>
  With no Reset, Flush or address cap in between, every event that lies at
  least one overflow slot inside the window is counted: past the sample cap the aggregator
  under-counts by at most the events of one slot width at the window edge.
\<close>

theorem aggregate_undercount_bound:
  assumes "agg_new ws max_samples = Some a0" and "\<forall>w \<in> set ws. 0 < w"
    and "a = with_classifier f a0" and "w \<in> set ws" and "\<forall>ev \<in> set evs. ev_time ev \<le> now"
  shows "(\<Sum>e \<in># {#e \<in># added a ip (map (OpAdd []) evs). now - w + gg_bucket a \<le> en_at e#}. entry_weight k e)
      \<le> gm_val (ag_kinds (agg_aggregate ip w now (agg_run a (map (OpAdd []) evs)))) k"
proof -
  note facts = agg_new_facts [OF assms(1,2)]
  have a: "gg_buckets a = []" "0 < gg_max_samp a" "0 \<le> gg_max_window a" "0 < gg_bucket a"
      "gg_bucket a mod Second = 0" "gg_max_ips a \<le> 0"
    using facts by (simp_all add: assms(3) with_classifier_def)
  have "w \<le> gg_max_window a" using facts(7) [OF assms(4)] by (simp add: assms(3) with_classifier_def)
  then have "\<forall>ev \<in> set evs. ev_time ev - gg_max_window a \<le> now - w" using assms(5) by force
  then have tr: "bucket_tracks (gg_bucket a) (\<lambda>e. en_at e < now - w + gg_bucket a)
      (added a ip (map (OpAdd []) evs)) (bucket_of (agg_run a (map (OpAdd []) evs)) ip)"
    using a by (intro agg_run_adds_tracks)
  have ok: "slots_ok (bk_overflow (bucket_of (agg_run a (map (OpAdd []) evs)) ip))"
    using agg_run_overflow_ok [OF a(1-3)] by (simp add: overflow_ok_def)
  show ?thesis
    using reported_total_lower [OF tr additive_kind entry_weight_nonneg a(4,5), where cutoff = "now - w"]
    by (simp add: agg_aggregate_totals(2) [OF ok] entry_total_def)
qed

text \<open>
  C24 (invariant).  In every state reachable by Add (of events with a valid source address,
  the eviction scan visiting every bucket), Reset and Flush, no address holds more raw
  events than the sample cap, the number of tracked addresses respects the configured cap,
  an address without raw events holds no counters, and the cached oldest slot is right.
\<close>

theorem aggregator_memory_bounded:
  assumes "agg_new ws max_samples = Some a0" and "\<forall>w \<in> set ws. 0 < w"
    and "agg_reach (with_max_ips n (with_classifier f a0)) a"
  shows "int (agg_entries ip a) \<le> gg_max_samp a0 \<and> (0 < n \<longrightarrow> int (agg_len a) \<le> n)
    \<and> (\<forall>(ip, b) \<in> set (gg_buckets a). bucket_ok (gg_max_samp a0) b)"
proof -
  have ok: "agg_ok a" using agg_reach_ok [OF assms(3)] agg_new_ok [OF assms(1,2)] by blast
  have fr: "gg_max_samp a = gg_max_samp a0" "gg_max_ips a = n"
    using agg_reach_frame [OF assms(3)] by (simp_all add: with_max_ips_def with_classifier_def)
  have "int (agg_entries ip a) \<le> gg_max_samp a0"
    using bucket_of_ok [OF ok, of ip] ok fr(1)
    by (auto simp: agg_entries_def bucket_ok_def agg_ok_def split: option.splits)
  then show ?thesis using ok fr by (auto simp: agg_ok_def agg_len_def)
qed

section \<open>Witnesses\<close>

definition demo_event :: "time \<Rightarrow> event" where
  "demo_event t = \<lparr>ev_time = t, ev_source_ip = V4 1, ev_kind = ''ssh_fail'', ev_fields = [],
     ev_origin = [], ev_raw = []\<rparr>"

definition demo_agg :: aggregator where
  "demo_agg = \<lparr>gg_windows = [Minute, Hour], gg_max_window = Hour, gg_bucket = 5 * Second,
     gg_max_samp = 2, gg_max_ips = 0, gg_classify = None, gg_buckets = []\<rparr>"

lemma demo_agg_new: "agg_new [Minute, Hour] 2 = Some demo_agg"
  by (simp add: demo_agg_def agg_bucket_width_def dur_truncate_def quot_def Let_def duration_units
      overflowBucketDiv_def maxOverflowBucket_def minOverflowBucket_def)

lemma demo_windows: "\<forall>w \<in> set [Minute, Hour]. 0 < w"
  by (simp add: duration_units)

lemma demo_classifier: "with_classifier None demo_agg = demo_agg"
  by (simp add: with_classifier_def demo_agg_def)

theorem aggregate_never_overcounts_witness:
  "ag_count (agg_aggregate (V4 1) Minute (10 * Second)
      (agg_run (with_max_ips 3 (with_classifier None demo_agg))
        [OpAdd [V4 1] (demo_event 0), OpAdd [V4 1] (demo_event Second), OpAdd [V4 1] (demo_event (9 * Second))]))
    \<le> int (size {#e \<in># added (with_max_ips 3 (with_classifier None demo_agg)) (V4 1)
        [OpAdd [V4 1] (demo_event 0), OpAdd [V4 1] (demo_event Second), OpAdd [V4 1] (demo_event (9 * Second))].
        10 * Second - Minute \<le> en_at e#})"
  using aggregate_never_overcounts [OF demo_agg_new demo_windows refl] by blast

theorem aggregate_undercount_bound_witness:
  "(\<Sum>e \<in># {#e \<in># added (with_classifier None demo_agg) (V4 1)
        (map (OpAdd []) [demo_event 0, demo_event Second, demo_event (9 * Second)]).
        10 * Second - Minute + gg_bucket (with_classifier None demo_agg) \<le> en_at e#}. entry_weight ''ssh_fail'' e)
    \<le> gm_val (ag_kinds (agg_aggregate (V4 1) Minute (10 * Second)
        (agg_run (with_classifier None demo_agg) (map (OpAdd []) [demo_event 0, demo_event Second, demo_event (9 * Second)])))) ''ssh_fail''"
  by (rule aggregate_undercount_bound [OF demo_agg_new demo_windows refl])
    (simp_all add: demo_event_def duration_units)

theorem aggregator_memory_bounded_witness:
  "int (agg_entries (V4 1) (agg_add [V4 1] (demo_event 0) (with_max_ips 3 (with_classifier None demo_agg))))
      \<le> gg_max_samp demo_agg
   \<and> int (agg_len (agg_add [V4 1] (demo_event 0) (with_max_ips 3 (with_classifier None demo_agg)))) \<le> 3"
proof -
  have "agg_reach (with_max_ips 3 (with_classifier None demo_agg))
      (agg_add [V4 1] (demo_event 0) (with_max_ips 3 (with_classifier None demo_agg)))"
    by (rule agg_reach.agg_add [OF agg_reach.agg_start])
      (simp_all add: demo_event_def addr_is_valid_def demo_agg_def with_max_ips_def with_classifier_def)
  from aggregator_memory_bounded [OF demo_agg_new demo_windows this, of "V4 1"]
  show ?thesis by simp
qed

end
