(* ===== verification/Rules.thy ===== *)
theory Rules
  imports Sdk "HOL-Library.List_Lexorder" "HOL-Library.Char_ord"
begin

text \<open>
  The rule engine, \<open>internal/rules/engine.go\<close>.

  YAML decoding (a third-party package) and the file system are parameters: \<open>rules_fs\<close>
  holds what opening a file, listing a directory and decoding a document return.  Loading
  follows the source: an override file replaces everything, otherwise the embedded base is
  overlaid by the drop-in files in lexical order and the merged set is validated.  All
  evaluation is pure.

  Main results: a verdict is emitted exactly for the rules of the aggregate's window whose
  count reaches the threshold; evidence is a bounded selection of events the rule counts;
  validated rules never fire on an empty aggregate and score within 0..100; drop-ins act as a
  map override keyed by rule name.
\<close>

section \<open>Rules\<close>

record spec =
  sp_name :: string
  sp_description :: string
  sp_kinds :: "string list"
  sp_field :: string
  sp_value :: string
  sp_contains :: string
  sp_contains_any :: "string list"
  sp_window :: duration
  sp_threshold :: int
  sp_score :: int
  sp_category :: string

definition LongWindowCutoff :: duration where "LongWindowCutoff = Hour"
definition LongCounterKindPrefix :: string where "LongCounterKindPrefix = ''rule:''"

definition LongCounterKind :: "string \<Rightarrow> string" where
  "LongCounterKind rule = LongCounterKindPrefix @ rule"

definition IsLongCounterKind :: "string \<Rightarrow> bool" where
  "IsLongCounterKind kind = str_has_prefix kind LongCounterKindPrefix"

definition isLongField :: "spec \<Rightarrow> bool" where
  "isLongField r \<longleftrightarrow> sp_window r > LongWindowCutoff \<and> sp_field r \<noteq> []"

section \<open>Matching and evaluation\<close>

definition fieldMatches :: "spec \<Rightarrow> event \<Rightarrow> bool" where
  "fieldMatches r ev =
     (case gm_get (ev_fields ev) (sp_field r) of
        None \<Rightarrow> False
      | Some val \<Rightarrow>
          if sp_value r \<noteq> [] then val = sp_value r
          else if sp_contains r \<noteq> [] then str_contains val (sp_contains r)
          else list_ex (str_contains val) (sp_contains_any r))"

definition countMatches :: "spec \<Rightarrow> aggregate \<Rightarrow> int" where
  "countMatches r agg =
     (if sp_field r = [] then
        sum_list (map snd (filter (\<lambda>(kind, n). kind \<in> set (sp_kinds r)) (ag_kinds agg)))
      else
        (case gm_get (ag_kinds agg) (LongCounterKind (sp_name r)) of
           Some n \<Rightarrow> n
         | None \<Rightarrow>
             int (length (filter (\<lambda>ev. ev_kind ev \<in> set (sp_kinds r) \<and> fieldMatches r ev) (ag_sample agg)))))"

text \<open>The loop of \<open>evidenceLines\<close>: stop at the cap, skip what does not match or has no raw line.\<close>

fun evidence_loop :: "spec \<Rightarrow> event list \<Rightarrow> string list \<Rightarrow> string list" where
  "evidence_loop r [] out = out"
| "evidence_loop r (ev # evs) out =
     (if length out \<ge> EvidenceMaxLines then out
      else if ev_kind ev \<notin> set (sp_kinds r) \<or> ev_raw ev = [] then evidence_loop r evs out
      else if sp_field r \<noteq> [] \<and> \<not> fieldMatches r ev then evidence_loop r evs out
      else evidence_loop r evs (out @ [ev_raw ev]))"

definition evidenceLines :: "spec \<Rightarrow> aggregate \<Rightarrow> string list" where
  "evidenceLines r agg = evidence_loop r (ag_sample agg) []"

definition applyRule :: "spec \<Rightarrow> aggregate \<Rightarrow> verdict option" where
  "applyRule r agg =
     (let count = countMatches r agg in
      if count < sp_threshold r then None
      else Some \<lparr>vd_ip = ag_ip agg, vd_score = sp_score r, vd_category = sp_category r,
                 vd_confidence = 1,
                 vd_reason = ''rule/'' @ sp_name r @ '': '' @ int_str count @ '' events in ''
                   @ dur_str (sp_window r) @ '' (threshold '' @ int_str (sp_threshold r) @ '')'',
                 vd_source = ''rules'', vd_suggest_ttl = 0, vd_evidence = evidenceLines r agg\<rparr>)"

text \<open>
  \<open>Evaluate\<close>.  The context is polled before each rule; \<open>alive i\<close> says whether it is still
  live when rule \<open>i\<close> is reached.
\<close>

fun evaluate_from :: "(nat \<Rightarrow> bool) \<Rightarrow> nat \<Rightarrow> spec list \<Rightarrow> aggregate \<Rightarrow> verdict list" where
  "evaluate_from alive i [] agg = []"
| "evaluate_from alive i (r # rs) agg =
     (if \<not> alive i then []
      else if sp_window r \<noteq> ag_window agg then evaluate_from alive (Suc i) rs agg
      else (case applyRule r agg of
              Some v \<Rightarrow> v # evaluate_from alive (Suc i) rs agg
            | None \<Rightarrow> evaluate_from alive (Suc i) rs agg))"

definition Evaluate :: "(nat \<Rightarrow> bool) \<Rightarrow> spec list \<Rightarrow> aggregate \<Rightarrow> verdict list" where
  "Evaluate alive rules agg = evaluate_from alive 0 rules agg"

section \<open>Counter kinds and windows\<close>

definition counterKinds :: "spec list \<Rightarrow> event \<Rightarrow> bool \<Rightarrow> string list" where
  "counterKinds rules ev long =
     map (\<lambda>r. LongCounterKind (sp_name r))
       (filter (\<lambda>r. sp_field r \<noteq> [] \<and> isLongField r = long
          \<and> ev_kind ev \<in> set (sp_kinds r) \<and> fieldMatches r ev) rules)"

definition LongCounterKinds :: "spec list \<Rightarrow> event \<Rightarrow> string list" where
  "LongCounterKinds rules ev = counterKinds rules ev True"

definition MemoryCounterKinds :: "spec list \<Rightarrow> event \<Rightarrow> string list" where
  "MemoryCounterKinds rules ev = counterKinds rules ev False"

definition append_new :: "string list \<Rightarrow> string list \<Rightarrow> string list" where
  "append_new old ks = foldl (\<lambda>acc k. if k \<in> set acc then acc else acc @ [k]) old ks"

definition KindsForLongWindows :: "spec list \<Rightarrow> (duration, string list) gomap" where
  "KindsForLongWindows rules =
     foldl (\<lambda>out r.
       if sp_window r \<le> LongWindowCutoff then out
       else
         (let w = sp_window r;
              old = (case gm_get out w of None \<Rightarrow> [] | Some ks \<Rightarrow> ks);
              kinds = (if sp_field r \<noteq> [] then [LongCounterKind (sp_name r)] else sp_kinds r);
              new = append_new old kinds
          in if new = old then out else gm_set w new out)) [] rules"

definition LongFieldEventKinds :: "spec list \<Rightarrow> string set" where
  "LongFieldEventKinds rules = \<Union> (set ` sp_kinds ` set (filter isLongField rules))"

definition rule_windows :: "spec list \<Rightarrow> duration list" where
  "rule_windows rules =
     foldl (\<lambda>out r. if sp_window r \<in> set out then out else out @ [sp_window r]) [] rules"

section \<open>Validation\<close>

datatype rule_error =
    NameRequired nat
  | KindsEmpty string
  | ThresholdNotPositive string int
  | ScoreOutOfRange string int
  | WindowNotPositive string
  | MatchersExclusive string
  | MatcherNeedsField string
  | FieldNeedsMatcher string
  | CategoryRequired string
  | NameReserved string

datatype load_error =
    OpenFailed string
  | ReadDirFailed string
  | ReadEmbeddedFailed
  | DecodeFailed string
  | DropinOpenFailed string
  | DropinDecodeFailed string string
  | BadRule rule_error
  | BadDropinRule string rule_error

definition hasMatcher :: "spec \<Rightarrow> bool" where
  "hasMatcher r \<longleftrightarrow> sp_value r \<noteq> [] \<or> sp_contains r \<noteq> [] \<or> sp_contains_any r \<noteq> []"

definition validateRule :: "nat \<Rightarrow> spec \<Rightarrow> rule_error option" where
  "validateRule i r =
     (if sp_name r = [] then Some (NameRequired i)
      else if sp_kinds r = [] then Some (KindsEmpty (sp_name r))
      else if sp_threshold r \<le> 0 then Some (ThresholdNotPositive (sp_name r) (sp_threshold r))
      else if sp_score r < 0 \<or> sp_score r > 100 then Some (ScoreOutOfRange (sp_name r) (sp_score r))
      else if sp_window r \<le> 0 then Some (WindowNotPositive (sp_name r))
      else if (sp_value r \<noteq> [] \<and> sp_contains r \<noteq> []) \<or> (sp_value r \<noteq> [] \<and> sp_contains_any r \<noteq> [])
              \<or> (sp_contains r \<noteq> [] \<and> sp_contains_any r \<noteq> []) then Some (MatchersExclusive (sp_name r))
      else if hasMatcher r \<and> sp_field r = [] then Some (MatcherNeedsField (sp_name r))
      else if sp_field r \<noteq> [] \<and> \<not> hasMatcher r then Some (FieldNeedsMatcher (sp_name r))
      else if sp_category r = [] then Some (CategoryRequired (sp_name r))
      else if IsLongCounterKind (sp_name r) then Some (NameReserved (sp_name r))
      else None)"

fun validate_from :: "nat \<Rightarrow> spec list \<Rightarrow> (string, string) gomap \<Rightarrow> load_error option" where
  "validate_from i [] origin = None"
| "validate_from i (r # rs) origin =
     (case validateRule i r of
        Some e \<Rightarrow>
          (case gm_get origin (sp_name r) of
             None \<Rightarrow> Some (BadRule e)
           | Some from \<Rightarrow> if from \<noteq> [] then Some (BadDropinRule from e) else Some (BadRule e))
      | None \<Rightarrow> validate_from (Suc i) rs origin)"

definition validateRules :: "spec list \<Rightarrow> (string, string) gomap \<Rightarrow> load_error option" where
  "validateRules rules origin = validate_from 0 rules origin"

section \<open>Loading\<close>

datatype dir_listing = DirMissing | DirError | DirEntries "(string \<times> bool) list"

text \<open>
  \<open>fs_open\<close> is \<open>os.Open\<close> plus reading, \<open>fs_read_dir\<close> is \<open>os.ReadDir\<close> (entry name, is a
  directory), \<open>fs_embedded\<close> the embedded \<open>rules.yaml\<close>, and \<open>yaml_decode\<close> the decoder with
  \<open>KnownFields(true)\<close>: \<open>None\<close> is \<open>io.EOF\<close> (empty document), \<open>Some (Inl _)\<close> an error.
\<close>

record rules_fs =
  fs_open :: "string \<Rightarrow> string option"
  fs_read_dir :: "string \<Rightarrow> dir_listing"
  fs_embedded :: "string option"
  yaml_decode :: "string \<Rightarrow> (string + spec list) option"

definition decodeRules :: "rules_fs \<Rightarrow> string \<Rightarrow> string + spec list" where
  "decodeRules fs content =
     (case yaml_decode fs content of
        None \<Rightarrow> Inr []
      | Some (Inl e) \<Rightarrow> Inl e
      | Some (Inr rs) \<Rightarrow> Inr rs)"

definition to_lower :: "char \<Rightarrow> char" where
  "to_lower c = (if 65 \<le> (of_char c :: nat) \<and> (of_char c :: nat) \<le> 90 then char_of (of_char c + 32 :: nat) else c)"

definition file_ext :: "string \<Rightarrow> string" where
  "file_ext name = (case split_last (CHR ''.'') name of None \<Rightarrow> [] | Some (_, e) \<Rightarrow> CHR ''.'' # e)"

definition path_join :: "string \<Rightarrow> string \<Rightarrow> string" where
  "path_join dir name = dir @ ''/'' @ name"

definition dropin_files :: "(string \<times> bool) list \<Rightarrow> string list" where
  "dropin_files entries =
     sort (map fst (filter (\<lambda>(name, is_dir).
       \<not> is_dir \<and> \<not> str_has_prefix name ''.''
       \<and> map to_lower (file_ext name) \<in> {''.yaml'', ''.yml''}) entries))"

text \<open>The merge state: rule list, position of each name, and the file that owns each name.\<close>

type_synonym merge_state = "spec list \<times> (string, nat) gomap \<times> (string, string) gomap"

definition merge_rule :: "string \<Rightarrow> merge_state \<Rightarrow> spec \<Rightarrow> merge_state" where
  "merge_rule path = (\<lambda>(merged, index, origin) r.
     case gm_get index (sp_name r) of
       Some i \<Rightarrow> (merged[i := r], index, gm_set (sp_name r) path origin)
     | None \<Rightarrow> (merged @ [r], gm_set (sp_name r) (length merged) index, gm_set (sp_name r) path origin))"

fun merge_files :: "rules_fs \<Rightarrow> string \<Rightarrow> string list \<Rightarrow> merge_state \<Rightarrow> load_error + merge_state" where
  "merge_files fs dir [] st = Inr st"
| "merge_files fs dir (name # names) st =
     (let path = path_join dir name in
      case fs_open fs path of
        None \<Rightarrow> Inl (DropinOpenFailed path)
      | Some content \<Rightarrow>
          (case decodeRules fs content of
             Inl e \<Rightarrow> Inl (DropinDecodeFailed path e)
           | Inr rs \<Rightarrow> merge_files fs dir names (foldl (merge_rule path) st rs)))"

definition base_state :: "spec list \<Rightarrow> merge_state" where
  "base_state base =
     (base,
      foldl (\<lambda>m (i, r). gm_set (sp_name r) i m) [] (enumerate 0 base),
      foldl (\<lambda>m r. gm_set (sp_name r) [] m) [] base)"

definition applyDropins :: "rules_fs \<Rightarrow> spec list \<Rightarrow> string \<Rightarrow> load_error + spec list \<times> (string, string) gomap" where
  "applyDropins fs base dir =
     (if dir = [] then Inr (base, [])
      else (case fs_read_dir fs dir of
              DirMissing \<Rightarrow> Inr (base, [])
            | DirError \<Rightarrow> Inl (ReadDirFailed dir)
            | DirEntries es \<Rightarrow>
                (case merge_files fs dir (dropin_files es) (base_state base) of
                   Inl e \<Rightarrow> Inl e
                 | Inr (merged, _, origin) \<Rightarrow> Inr (merged, origin))))"

definition rules_new :: "rules_fs \<Rightarrow> string \<Rightarrow> string \<Rightarrow> load_error + spec list" where
  "rules_new fs override_path rules_dir =
     (if override_path \<noteq> [] then
        (case fs_open fs override_path of
           None \<Rightarrow> Inl (OpenFailed override_path)
         | Some content \<Rightarrow>
             (case decodeRules fs content of
                Inl e \<Rightarrow> Inl (DecodeFailed e)
              | Inr rs \<Rightarrow> (case validateRules rs [] of Some e \<Rightarrow> Inl e | None \<Rightarrow> Inr rs)))
      else
        (case fs_embedded fs of
           None \<Rightarrow> Inl ReadEmbeddedFailed
         | Some data \<Rightarrow>
             (case decodeRules fs data of
                Inl e \<Rightarrow> Inl (DecodeFailed e)
              | Inr base \<Rightarrow>
                  (case applyDropins fs base rules_dir of
                     Inl e \<Rightarrow> Inl e
                   | Inr (merged, origin) \<Rightarrow>
                       (case validateRules merged origin of Some e \<Rightarrow> Inl e | None \<Rightarrow> Inr merged)))))"

section \<open>Facts about evaluation\<close>

lemma evaluate_from_member:
  "v \<in> set (evaluate_from (\<lambda>_. True) i rs agg) \<longleftrightarrow>
     (\<exists>r \<in> set rs. sp_window r = ag_window agg \<and> applyRule r agg = Some v)"
  by (induction rs arbitrary: i) (auto split: option.splits)

lemma evaluate_from_sub: "set (evaluate_from alive i rs agg) \<subseteq> set (evaluate_from (\<lambda>_. True) i rs agg)"
  by (induction rs arbitrary: i) (auto split: option.splits)

lemma evidence_loop_facts:
  "length out \<le> EvidenceMaxLines \<Longrightarrow>
     length (evidence_loop r evs out) \<le> EvidenceMaxLines
     \<and> (\<forall>l \<in> set (evidence_loop r evs out). l \<in> set out \<or>
         (\<exists>ev \<in> set evs. l = ev_raw ev \<and> l \<noteq> [] \<and> ev_kind ev \<in> set (sp_kinds r)
            \<and> (sp_field r \<noteq> [] \<longrightarrow> fieldMatches r ev)))"
proof (induction evs arbitrary: out)
  case Nil
  then show ?case by simp
next
  case (Cons ev evs)
  show ?case
  proof (cases "length out \<ge> EvidenceMaxLines")
    case True
    then show ?thesis using Cons.prems by simp
  next
    case False
    let ?skip = "ev_kind ev \<notin> set (sp_kinds r) \<or> ev_raw ev = [] \<or> (sp_field r \<noteq> [] \<and> \<not> fieldMatches r ev)"
    show ?thesis
    proof (cases ?skip)
      case True
      then have "evidence_loop r (ev # evs) out = evidence_loop r evs out" using False by auto
      then show ?thesis using Cons.IH [OF Cons.prems] by auto
    next
      case match: False
      then have eq: "evidence_loop r (ev # evs) out = evidence_loop r evs (out @ [ev_raw ev])" using False by auto
      have "length (out @ [ev_raw ev]) \<le> EvidenceMaxLines" using False by simp
      from Cons.IH [OF this] show ?thesis using match unfolding eq by auto
    qed
  qed
qed

lemma validate_from_None:
  "validate_from i rs origin = None \<longleftrightarrow> (\<forall>j < length rs. validateRule (i + j) (rs ! j) = None)"
proof (induction rs arbitrary: i)
  case Nil
  then show ?case by simp
next
  case (Cons r rs)
  have "(\<forall>j < length (r # rs). validateRule (i + j) ((r # rs) ! j) = None)
      \<longleftrightarrow> validateRule i r = None \<and> (\<forall>j < length rs. validateRule (Suc i + j) (rs ! j) = None)"
    by (auto simp: less_Suc_eq_0_disj nth_Cons split: nat.splits)
  then show ?case using Cons.IH by (auto split: option.splits)
qed

text \<open>The shape of an accepted rule.\<close>

definition rule_ok :: "spec \<Rightarrow> bool" where
  "rule_ok r \<longleftrightarrow> sp_name r \<noteq> [] \<and> sp_kinds r \<noteq> [] \<and> 0 < sp_threshold r
     \<and> 0 \<le> sp_score r \<and> sp_score r \<le> 100 \<and> 0 < sp_window r
     \<and> (sp_value r = [] \<or> sp_contains r = []) \<and> (sp_value r = [] \<or> sp_contains_any r = [])
     \<and> (sp_contains r = [] \<or> sp_contains_any r = [])
     \<and> (sp_field r \<noteq> [] \<longleftrightarrow> hasMatcher r) \<and> sp_category r \<noteq> []
     \<and> \<not> IsLongCounterKind (sp_name r)"

lemma validateRule_ok: "validateRule i r = None \<longleftrightarrow> rule_ok r"
  by (auto simp: validateRule_def rule_ok_def)

lemma validateRules_ok: "validateRules rs origin = None \<Longrightarrow> r \<in> set rs \<Longrightarrow> rule_ok r"
  using validateRule_ok by (force simp: validateRules_def validate_from_None in_set_conv_nth)

lemma rules_new_ok: "rules_new fs ov dir = Inr rs \<Longrightarrow> r \<in> set rs \<Longrightarrow> rule_ok r"
  unfolding rules_new_def
  by (auto split: if_splits option.splits sum.splits prod.splits intro: validateRules_ok)

lemma countMatches_empty:
  "ag_kinds agg = [] \<Longrightarrow> ag_sample agg = [] \<Longrightarrow> countMatches r agg = 0"
  by (simp add: countMatches_def)


section \<open>Drop-ins as a map override\<close>

definition rule_map :: "spec list \<Rightarrow> string \<Rightarrow> spec option" where
  "rule_map rs = map_of (map (\<lambda>r. (sp_name r, r)) rs)"

definition put_rule :: "(string \<Rightarrow> spec option) \<Rightarrow> spec \<Rightarrow> (string \<Rightarrow> spec option)" where
  "put_rule m r = m(sp_name r \<mapsto> r)"

fun loaded_rules :: "rules_fs \<Rightarrow> string \<Rightarrow> string list \<Rightarrow> spec list" where
  "loaded_rules fs dir [] = []"
| "loaded_rules fs dir (name # names) =
     (case fs_open fs (path_join dir name) of
        None \<Rightarrow> []
      | Some content \<Rightarrow>
          (case decodeRules fs content of Inl e \<Rightarrow> [] | Inr rs \<Rightarrow> rs @ loaded_rules fs dir names))"

definition merge_ok :: "merge_state \<Rightarrow> bool" where
  "merge_ok = (\<lambda>(merged, index, origin).
     distinct (map sp_name merged)
     \<and> (\<forall>n i. gm_get index n = Some i \<longleftrightarrow> i < length merged \<and> sp_name (merged ! i) = n))"

lemma rule_map_update:
  assumes "distinct (map sp_name rs)" and "i < length rs" and "sp_name (rs ! i) = sp_name r"
  shows "rule_map (rs[i := r]) = put_rule (rule_map rs) r"
proof -
  let ?m = "map (\<lambda>r. (sp_name r, r)) rs"
  have "AList.update (sp_name r) r ?m = ?m[i := (sp_name r, r)]"
    using assms
  proof (induction rs arbitrary: i)
    case Nil
    then show ?case by simp
  next
    case (Cons x rs)
    show ?case
    proof (cases i)
      case 0
      then show ?thesis using Cons.prems by simp
    next
      case (Suc j)
      then have "sp_name r \<in> set (map sp_name rs)" using Cons.prems by (metis length_map nth_Cons_Suc nth_map nth_mem Suc_less_eq length_Cons)
      then have "sp_name x \<noteq> sp_name r" using Cons.prems(1) by auto
      then show ?thesis using Cons Suc by simp
    qed
  qed
  then have "map_of (?m[i := (sp_name r, r)]) = (map_of ?m)(sp_name r \<mapsto> r)"
    by (metis update_conv')
  then show ?thesis by (simp add: rule_map_def put_rule_def map_update)
qed

lemma rule_map_snoc:
  "sp_name r \<notin> sp_name ` set rs \<Longrightarrow> rule_map (rs @ [r]) = put_rule (rule_map rs) r"
  by (induction rs) (auto simp: rule_map_def put_rule_def fun_eq_iff)

lemma merge_rule_step:
  assumes "merge_ok (merged, index, origin)"
    and "merge_rule path (merged, index, origin) r = (merged', index', origin')"
  shows "merge_ok (merged', index', origin') \<and> rule_map merged' = put_rule (rule_map merged) r"
proof (cases "gm_get index (sp_name r)")
  case (Some i)
  with assms have i: "i < length merged" "sp_name (merged ! i) = sp_name r" and d: "distinct (map sp_name merged)"
    and eq: "merged' = merged[i := r]" "index' = index"
    by (auto simp: merge_ok_def merge_rule_def)
  have names: "map sp_name (merged[i := r]) = map sp_name merged"
    using i by (metis list_update_id map_update)
  then have "sp_name (merged[i := r] ! j) = sp_name (merged ! j)" if "j < length merged" for j
    using that by (metis length_list_update nth_map)
  then have "merge_ok (merged', index', origin')"
    using assms(1) names by (auto simp: merge_ok_def eq)
  then show ?thesis using rule_map_update [OF d i] eq by simp
next
  case None
  have notin: "sp_name r \<notin> sp_name ` set merged"
  proof
    assume "sp_name r \<in> sp_name ` set merged"
    then obtain i where "i < length merged" "sp_name (merged ! i) = sp_name r"
      by (metis imageE in_set_conv_nth)
    then have "gm_get index (sp_name r) = Some i" using assms(1) by (simp add: merge_ok_def)
    with None show False by simp
  qed
  from None assms(2) have eq: "merged' = merged @ [r]" "index' = gm_set (sp_name r) (length merged) index"
    by (auto simp: merge_rule_def)
  have "merge_ok (merged', index', origin')"
  proof -
    have ne: "sp_name (merged ! i) \<noteq> sp_name r" if "i < length merged" for i
      using notin that by (metis imageI nth_mem)
    show ?thesis
      using assms(1) notin ne by (auto simp: merge_ok_def eq nth_append less_Suc_eq split: if_splits)
  qed
  then show ?thesis using rule_map_snoc [OF notin] eq by simp
qed

lemma foldl_merge_rule:
  "merge_ok st \<Longrightarrow> merge_ok (foldl (merge_rule path) st rs)
     \<and> rule_map (fst (foldl (merge_rule path) st rs)) = foldl put_rule (rule_map (fst st)) rs"
proof (induction rs arbitrary: st)
  case Nil
  then show ?case by simp
next
  case (Cons r rs)
  obtain merged index origin where st: "st = (merged, index, origin)" by (cases st) auto
  obtain m' i' o' where st': "merge_rule path st r = (m', i', o')" by (cases "merge_rule path st r") auto
  from merge_rule_step [of merged index origin path r m' i' o'] Cons.prems st st'
  have "merge_ok (m', i', o')" "rule_map m' = put_rule (rule_map (fst st)) r" by auto
  then show ?case using Cons.IH [of "(m', i', o')"] by (simp add: st [symmetric] st')
qed

lemma merge_files_map:
  "merge_ok st \<Longrightarrow> merge_files fs dir names st = Inr st' \<Longrightarrow>
     merge_ok st' \<and> rule_map (fst st') = foldl put_rule (rule_map (fst st)) (loaded_rules fs dir names)"
proof (induction names arbitrary: st)
  case Nil
  then show ?case by simp
next
  case (Cons name names)
  from Cons.prems(2) obtain content rs where c: "fs_open fs (path_join dir name) = Some content"
    "decodeRules fs content = Inr rs"
    and m: "merge_files fs dir names (foldl (merge_rule (path_join dir name)) st rs) = Inr st'"
    by (auto simp: Let_def split: option.splits sum.splits)
  from foldl_merge_rule [OF Cons.prems(1)] Cons.IH [OF _ m] c show ?case by simp
qed

lemma base_index:
  assumes "distinct (map sp_name base)"
  shows "gm_get (foldl (\<lambda>m (i, r). gm_set (sp_name r) i m) m0 (enumerate n base)) name = Some k \<longleftrightarrow>
    (\<exists>j < length base. sp_name (base ! j) = name \<and> k = n + j)
    \<or> (name \<notin> sp_name ` set base \<and> gm_get m0 name = Some k)"
  using assms
proof (induction base arbitrary: n m0)
  case Nil
  then show ?case by simp
next
  case (Cons r base)
  have "(\<exists>j < length (r # base). sp_name ((r # base) ! j) = name \<and> k = n + j) \<longleftrightarrow>
      (sp_name r = name \<and> k = n) \<or> (\<exists>j < length base. sp_name (base ! j) = name \<and> k = Suc n + j)"
    by (auto simp: Ex_less_Suc2)
  moreover have "sp_name r \<notin> sp_name ` set base" using Cons.prems by simp
  moreover have "(\<exists>j < length base. sp_name (base ! j) = sp_name r) \<Longrightarrow> False"
    using \<open>sp_name r \<notin> sp_name ` set base\<close> by (metis imageI nth_mem)
  ultimately show ?case using Cons by auto
qed

lemma base_state_ok: "distinct (map sp_name base) \<Longrightarrow> merge_ok (base_state base)"
  using base_index [of base "[]" 0] by (auto simp: merge_ok_def base_state_def)

section \<open>Properties\<close>

text \<open>
  C25 (functional).  With a live context, an evaluation gives, in the order of the rules, one verdict
  for each rule whose window is the aggregate's and whose count is at least the threshold, and for
  no other: on the aggregate's address, with the rule's score, category and evidence, at full
  confidence.  A cancelled context only drops verdicts.
\<close>

theorem evaluate_exact:
  "map (\<lambda>v. (vd_ip v, vd_score v, vd_category v, vd_confidence v, vd_source v, vd_suggest_ttl v, vd_evidence v))
       (Evaluate (\<lambda>_. True) rules agg)
     = map (\<lambda>r. (ag_ip agg, sp_score r, sp_category r, 1, ''rules'', 0, evidenceLines r agg))
         (filter (\<lambda>r. sp_window r = ag_window agg \<and> sp_threshold r \<le> countMatches r agg) rules)
   \<and> set (Evaluate alive rules agg) \<subseteq> set (Evaluate (\<lambda>_. True) rules agg)"
proof -
  have "map (\<lambda>v. (vd_ip v, vd_score v, vd_category v, vd_confidence v, vd_source v, vd_suggest_ttl v, vd_evidence v))
       (evaluate_from (\<lambda>_. True) i rules agg)
     = map (\<lambda>r. (ag_ip agg, sp_score r, sp_category r, 1, ''rules'', 0, evidenceLines r agg))
         (filter (\<lambda>r. sp_window r = ag_window agg \<and> sp_threshold r \<le> countMatches r agg) rules)" for i
    by (induction rules arbitrary: i) (auto simp: applyRule_def Let_def)
  then show ?thesis unfolding Evaluate_def using evaluate_from_sub by blast
qed

text \<open>
  C26 (invariant).  Every rule of a successfully loaded set passed the whole of the validation: it has
  a name that is not reserved, kinds, a positive threshold and window, a score in 0..100, a
  category, at most one of the three matchers, and a field exactly when it has one.  So scores and
  categories of its verdicts are in range, and no rule fires on an aggregate without events.
\<close>

theorem loaded_rules_wellformed:
  assumes "rules_new fs override_path rules_dir = Inr rules"
  shows "(\<forall>r \<in> set rules. rule_ok r)
    \<and> (\<forall>v \<in> set (Evaluate alive rules agg). 0 \<le> vd_score v \<and> vd_score v \<le> 100 \<and> vd_category v \<noteq> [])
    \<and> (ag_kinds agg = [] \<and> ag_sample agg = [] \<longrightarrow> Evaluate alive rules agg = [])"
proof -
  have ok: "\<forall>r \<in> set rules. rule_ok r" using assms by (auto intro: rules_new_ok)
  have fire: "\<exists>r \<in> set rules. applyRule r agg = Some v" if "v \<in> set (Evaluate alive rules agg)" for v
    using that evaluate_from_sub [of alive 0 rules agg] evaluate_from_member [of v 0 rules agg]
    by (auto simp: Evaluate_def)
  have "0 \<le> vd_score v \<and> vd_score v \<le> 100 \<and> vd_category v \<noteq> []" if "v \<in> set (Evaluate alive rules agg)" for v
    using fire [OF that] ok by (auto simp: applyRule_def Let_def rule_ok_def split: if_splits)
  moreover have "Evaluate alive rules agg = []" if e: "ag_kinds agg = []" "ag_sample agg = []"
  proof -
    have "applyRule r agg = None" if "r \<in> set rules" for r
      using that ok countMatches_empty [OF e, of r] by (force simp: applyRule_def rule_ok_def)
    then have "set (Evaluate alive rules agg) = {}" using fire by force
    then show ?thesis by simp
  qed
  ultimately show ?thesis using ok by blast
qed

text \<open>
  The evidence attached to a verdict has at most five lines, and each is the
  non-empty raw line of a sampled event that the rule matches.
\<close>

theorem evidence_bounded_and_matching:
  "length (evidenceLines r agg) \<le> 5
   \<and> set (evidenceLines r agg) \<subseteq>
       {ev_raw ev | ev. ev \<in> set (ag_sample agg) \<and> ev_raw ev \<noteq> [] \<and> ev_kind ev \<in> set (sp_kinds r)
          \<and> (sp_field r = [] \<or> fieldMatches r ev)}"
proof -
  have facts: "length (evidenceLines r agg) \<le> EvidenceMaxLines"
    "\<forall>l \<in> set (evidenceLines r agg). \<exists>ev \<in> set (ag_sample agg). l = ev_raw ev \<and> l \<noteq> []
       \<and> ev_kind ev \<in> set (sp_kinds r) \<and> (sp_field r \<noteq> [] \<longrightarrow> fieldMatches r ev)"
    using evidence_loop_facts [of "[]" r "ag_sample agg"] by (simp_all add: evidenceLines_def)
  from facts(2) have "set (evidenceLines r agg) \<subseteq>
       {ev_raw ev | ev. ev \<in> set (ag_sample agg) \<and> ev_raw ev \<noteq> [] \<and> ev_kind ev \<in> set (sp_kinds r)
          \<and> (sp_field r = [] \<or> fieldMatches r ev)}"
  proof (intro subsetI CollectI)
    fix l assume "l \<in> set (evidenceLines r agg)"
    with facts(2) obtain ev where "ev \<in> set (ag_sample agg)" "l = ev_raw ev" "l \<noteq> []"
      "ev_kind ev \<in> set (sp_kinds r)" "sp_field r \<noteq> [] \<longrightarrow> fieldMatches r ev" by metis
    then show "\<exists>ev. l = ev_raw ev \<and> ev \<in> set (ag_sample agg) \<and> ev_raw ev \<noteq> [] \<and> ev_kind ev \<in> set (sp_kinds r)
        \<and> (sp_field r = [] \<or> fieldMatches r ev)" by (intro exI [of _ ev]) auto
  qed
  with facts(1) show ?thesis by (simp add: EvidenceMaxLines_def)
qed

text \<open>
  Loading with drop-ins is a map override: with distinct names in the base,
  the merged set again has distinct names, and looking a name up gives the last drop-in
  definition of it, in lexical file order, and otherwise the base rule.
\<close>

theorem dropins_override_by_name:
  assumes "distinct (map sp_name base)" and "dir \<noteq> []" and "fs_read_dir fs dir = DirEntries es"
    and "applyDropins fs base dir = Inr (merged, origin)"
  shows "distinct (map sp_name merged)
    \<and> rule_map merged = foldl put_rule (rule_map base) (loaded_rules fs dir (dropin_files es))"
proof -
  obtain index where m: "merge_files fs dir (dropin_files es) (base_state base) = Inr (merged, index, origin)"
    using assms(2-4) by (auto simp: applyDropins_def split: sum.splits)
  have "fst (base_state base) = base" by (simp add: base_state_def)
  with merge_files_map [OF base_state_ok [OF assms(1)] m] show ?thesis by (simp add: merge_ok_def)
qed

section \<open>Witnesses\<close>

definition demo_rule :: "int \<Rightarrow> spec" where
  "demo_rule threshold = \<lparr>sp_name = ''b'', sp_description = [], sp_kinds = [''k''], sp_field = [],
     sp_value = [], sp_contains = [], sp_contains_any = [], sp_window = Minute,
     sp_threshold = threshold, sp_score = 90, sp_category = ''c''\<rparr>"

definition demo_fs :: rules_fs where
  "demo_fs = \<lparr>fs_open = (\<lambda>p. Some p), fs_read_dir = (\<lambda>d. DirEntries [(''a.yml'', False), (''n'', False)]),
     fs_embedded = Some ''e'',
     yaml_decode = (\<lambda>c. Some (Inr [demo_rule (if c = ''e'' then 5 else 3)]))\<rparr>"

lemma demo_dropins: "dropin_files [(''a.yml'', False), (''n'', False)] = [''a.yml'']"
  by (simp add: dropin_files_def file_ext_def split_last_def str_has_prefix_def to_lower_def)

lemma demo_applyDropins:
  "applyDropins demo_fs [demo_rule 5] ''d'' = Inr ([demo_rule 3], [(''b'', ''d/a.yml'')])"
  by (simp add: applyDropins_def demo_fs_def demo_dropins decodeRules_def base_state_def
      enumerate_eq_zip merge_rule_def demo_rule_def path_join_def)

lemma demo_rules_new: "rules_new demo_fs [] ''d'' = Inr [demo_rule 3]"
  using demo_applyDropins
  by (simp add: rules_new_def decodeRules_def demo_fs_def validateRules_def validateRule_def
      hasMatcher_def IsLongCounterKind_def LongCounterKindPrefix_def str_has_prefix_def Minute_def demo_rule_def)

theorem loaded_rules_wellformed_witness:
  "rule_ok (demo_rule 3)
   \<and> Evaluate (\<lambda>_. True) [demo_rule 3]
       \<lparr>ag_ip = V4 1, ag_window = Minute, ag_count = 0, ag_kinds = [], ag_sample = [],
        ag_enrich = no_enrichment, ag_behavior = None\<rparr> = []"
  using loaded_rules_wellformed [OF demo_rules_new, of "\<lambda>_. True"
      "\<lparr>ag_ip = V4 1, ag_window = Minute, ag_count = 0, ag_kinds = [], ag_sample = [],
        ag_enrich = no_enrichment, ag_behavior = None\<rparr>"] by simp

theorem dropins_override_by_name_witness:
  "distinct (map sp_name [demo_rule 3]) \<and> rule_map [demo_rule 3] ''b'' = Some (demo_rule 3)
   \<and> rule_map [demo_rule 3] =
       foldl put_rule (rule_map [demo_rule 5]) (loaded_rules demo_fs ''d'' (dropin_files [(''a.yml'', False), (''n'', False)]))"
proof -
  have "fs_read_dir demo_fs ''d'' = DirEntries [(''a.yml'', False), (''n'', False)]" by (simp add: demo_fs_def)
  moreover have "distinct (map sp_name [demo_rule 5])" "''d'' \<noteq> []" by simp_all
  ultimately have "rule_map [demo_rule 3] =
      foldl put_rule (rule_map [demo_rule 5]) (loaded_rules demo_fs ''d'' (dropin_files [(''a.yml'', False), (''n'', False)]))"
    using dropins_override_by_name [OF _ _ _ demo_applyDropins] by blast
  moreover have "rule_map [demo_rule 3] ''b'' = Some (demo_rule 3)" by (simp add: rule_map_def demo_rule_def)
  ultimately show ?thesis by simp
qed

end
