(* ===== verification/NetipText.thy ===== *)
theory NetipText
  imports Netip
begin

text \<open>
  The text forms of addresses and prefixes: \<open>netip.ParseAddr\<close>, \<open>netip.ParsePrefix\<close> and the
  printers \<open>Addr.String\<close> and \<open>Prefix.String\<close>.  Parsing yields only well-formed values
  (\<open>parse_prefix_wf\<close>), and a printed IPv4 address or prefix reads back as itself
  (\<open>parse_addr_ipv4_str\<close>, \<open>parse_prefix_ipv4_str\<close>).
\<close>

section \<open>IPv4\<close>

text \<open>
  The octet scanner.  \<open>dl\<close> counts the digits of the current octet: it is 0 exactly at the
  start of the string and right after a dot.
\<close>

fun ipv4_fields :: "string \<Rightarrow> nat \<Rightarrow> nat \<Rightarrow> nat list \<Rightarrow> nat list option" where
  "ipv4_fields [] v dl acc = (if length acc < 3 then None else Some (acc @ [v]))"
| "ipv4_fields (c # s) v dl acc =
     (if is_digit c then
        (if dl = 1 \<and> v = 0 then None
         else let v' = v * 10 + digit_val c in
              if v' > 255 then None else ipv4_fields s v' (Suc dl) acc)
      else if c = CHR ''.'' then
        (if dl = 0 \<or> s = [] then None
         else if length acc = 3 then None
         else ipv4_fields s 0 0 (acc @ [v]))
      else None)"

definition bytes_word :: "nat list \<Rightarrow> 'a::len word" where
  "bytes_word bs = foldl (\<lambda>w b. w * 256 + of_nat b) 0 bs"

definition parse_ipv4 :: "string \<Rightarrow> addr option" where
  "parse_ipv4 s = map_option (\<lambda>bs. V4 (bytes_word bs)) (ipv4_fields s 0 0 [])"

section \<open>IPv6\<close>

definition is_hex :: "char \<Rightarrow> bool" where
  "is_hex c \<longleftrightarrow> is_digit c
     \<or> (97 \<le> (of_char c :: nat) \<and> (of_char c :: nat) \<le> 102)
     \<or> (65 \<le> (of_char c :: nat) \<and> (of_char c :: nat) \<le> 70)"

definition hex_digit_val :: "char \<Rightarrow> nat" where
  "hex_digit_val c =
     (if is_digit c then digit_val c
      else if 97 \<le> (of_char c :: nat) then of_char c - 87 else of_char c - 55)"

definition hex_val :: "string \<Rightarrow> nat" where
  "hex_val s = foldl (\<lambda>n c. 16 * n + hex_digit_val c) 0 s"

text \<open>
  The group loop, at most \<open>n\<close> further groups: bytes read so far, position of the ellipsis,
  rest of the text.
\<close>

fun ipv6_groups ::
  "nat \<Rightarrow> string \<Rightarrow> nat list \<Rightarrow> nat option \<Rightarrow> (nat list \<times> nat option \<times> string) option" where
  "ipv6_groups 0 s ip ell = Some (ip, ell, s)"
| "ipv6_groups (Suc n) s ip ell =
     (let h = takeWhile is_hex s; r = dropWhile is_hex s; v = hex_val h;
          ip' = ip @ [v div 256, v mod 256] in
      if length h > 4 then None
      else if h = [] then None
      else
        (case r of
           [] \<Rightarrow> Some (ip', ell, [])
         | c # r1 \<Rightarrow>
             if c = CHR ''.'' then
               (if ell = None \<and> length ip \<noteq> 12 then None
                else if length ip + 4 > 16 then None
                else map_option (\<lambda>f. (ip @ f, ell, [])) (ipv4_fields s 0 0 []))
             else if c \<noteq> CHR '':'' then None
             else
               (case r1 of
                  [] \<Rightarrow> None
                | c1 # r2 \<Rightarrow>
                    if c1 = CHR '':'' then
                      (if ell \<noteq> None then None
                       else if r2 = [] then Some (ip', Some (length ip'), [])
                       else ipv6_groups n r2 ip' (Some (length ip')))
                    else ipv6_groups n r1 ip' ell)))"

definition ipv6_expand :: "nat list \<times> nat option \<times> string \<Rightarrow> nat list option" where
  "ipv6_expand = (\<lambda>(ip, ell, s).
     if s \<noteq> [] then None
     else if length ip < 16 then
       (case ell of None \<Rightarrow> None
        | Some e \<Rightarrow> Some (take e ip @ replicate (16 - length ip) 0 @ drop e ip))
     else if ell \<noteq> None then None
     else Some ip)"

definition parse_ipv6 :: "string \<Rightarrow> addr option" where
  "parse_ipv6 inp =
     (let s = before_byte (CHR ''%'') inp; has_zone = CHR ''%'' \<in> set inp;
          zone = drop (Suc (length s)) inp in
      if has_zone \<and> zone = [] then None
      else if s = ''::'' then Some (V6 0 zone)
      else
        (let (ell, body) = (if str_has_prefix s ''::'' then (Some 0, drop 2 s) else (None, s)) in
         case ipv6_groups 8 body [] ell of
           None \<Rightarrow> None
         | Some r \<Rightarrow> map_option (\<lambda>bs. V6 (bytes_word bs) zone) (ipv6_expand r)))"

section \<open>Addresses and prefixes\<close>

text \<open>\<open>netip.ParseAddr\<close>: the first dot, colon or percent sign decides the family.\<close>

definition parse_addr :: "string \<Rightarrow> addr option" where
  "parse_addr s =
     (case dropWhile (\<lambda>c. c \<notin> {CHR ''.'', CHR '':'', CHR ''%''}) s of
        [] \<Rightarrow> None
      | c # _ \<Rightarrow> if c = CHR ''.'' then parse_ipv4 s
                else if c = CHR '':'' then parse_ipv6 s
                else None)"

text \<open>
  \<open>netip.ParsePrefix\<close>: a zone is refused, the length has no sign and no leading zero.
\<close>

definition parse_bits :: "string \<Rightarrow> int \<Rightarrow> int option" where
  "parse_bits t maxb =
     (if t = [] \<or> \<not> list_all is_digit t \<or> (length t > 1 \<and> hd t = CHR ''0'') then None
      else if int (digits_val t) > maxb then None
      else Some (int (digits_val t)))"

definition parse_prefix :: "string \<Rightarrow> pfx option" where
  "parse_prefix s =
     (case split_last (CHR ''/'') s of
        None \<Rightarrow> None
      | Some (a, b) \<Rightarrow>
          (case parse_addr a of
             None \<Rightarrow> None
           | Some ip \<Rightarrow>
               if addr_zone ip \<noteq> [] then None
               else map_option (prefix_from ip) (parse_bits b (bit_len ip))))"

section \<open>Printing IPv4\<close>

definition ipv4_bytes :: "32 word \<Rightarrow> nat list" where
  "ipv4_bytes w = [unat w div 16777216, unat w div 65536 mod 256, unat w div 256 mod 256, unat w mod 256]"

definition ipv4_str :: "32 word \<Rightarrow> string" where
  "ipv4_str w = str_join ''.'' (map nat_str (ipv4_bytes w))"

section \<open>Printing IPv6\<close>

definition v6_groups :: "128 word \<Rightarrow> nat list" where
  "v6_groups w = map (\<lambda>i. nat (uint w div 65536 ^ (7 - i) mod 65536)) [0..<8]"

definition hex_char :: "nat \<Rightarrow> char" where
  "hex_char d = (if d < 10 then digit_char d else char_of (87 + d))"

fun hex_str :: "nat \<Rightarrow> string" where
  "hex_str n = (if n < 16 then [hex_char n] else hex_str (n div 16) @ [hex_char (n mod 16)])"

declare hex_str.simps [simp del]

text \<open>The longest run of at least two zero groups, the first one on a tie.\<close>

definition zero_run :: "nat list \<Rightarrow> nat \<times> nat" where
  "zero_run gs = foldl (\<lambda>(s, l) i. let n = length (takeWhile (\<lambda>g. g = 0) (drop i gs)) in
       if 2 \<le> n \<and> l < n then (i, n) else (s, l)) (255, 0) [0..<8]"

definition v6_str :: "128 word \<Rightarrow> string" where
  "v6_str w =
     (let gs = v6_groups w; (s, l) = zero_run gs in
      if l = 0 then str_join '':'' (map hex_str gs)
      else str_join '':'' (map hex_str (take s gs)) @ ''::'' @ str_join '':'' (map hex_str (drop (s + l) gs)))"

fun addr_str :: "addr \<Rightarrow> string" where
  "addr_str NoAddr = ''invalid IP''"
| "addr_str (V4 w) = ipv4_str w"
| "addr_str (V6 w z) =
     (if drop_bit 32 w = 0xffff then ''::ffff:'' @ ipv4_str (ucast w) else v6_str w)
     @ (if z = [] then [] else CHR ''%'' # z)"

definition pfx_str :: "pfx \<Rightarrow> string" where
  "pfx_str p =
     (if prefix_is_valid p then addr_str (pfx_ip p) @ ''/'' @ int_str (pfx_bits p) else ''invalid Prefix'')"

section \<open>Facts\<close>

lemma is_digit_not_dot [simp]: "\<not> is_digit (CHR ''.'')" "\<not> is_digit (CHR ''/'')"
    "\<not> is_digit (CHR '':'')" "\<not> is_digit (CHR ''%'')"
  by (simp_all add: is_digit_def)

text \<open>An octet is printed with one to three digits and no leading zero.\<close>

lemma nat_str_small:
  assumes "n < 256"
  shows "nat_str n =
    (if n < 10 then [digit_char n]
     else if n < 100 then [digit_char (n div 10), digit_char (n mod 10)]
     else [digit_char (n div 100), digit_char (n div 10 mod 10), digit_char (n mod 10)])"
proof -
  have "n < 10 \<or> (10 \<le> n \<and> n < 100) \<or> (100 \<le> n \<and> n < 256)" using assms by linarith
  then show ?thesis
  proof (elim disjE)
    assume *: "10 \<le> n \<and> n < 100"
    then have "n div 10 < 10" by linarith
    with * show ?thesis by (simp add: nat_str.simps [of n] nat_str.simps [of "n div 10"])
  next
    assume *: "100 \<le> n \<and> n < 256"
    then have "\<not> n div 10 < 10" "n div 10 div 10 < 10" "n div 10 div 10 = n div 100"
      by (auto simp: div_mult2_eq [symmetric])
    with * show ?thesis
      by (simp add: nat_str.simps [of n] nat_str.simps [of "n div 10"] nat_str.simps [of "n div 100"])
  qed (simp add: nat_str.simps)
qed

lemma ipv4_fields_octet:
  assumes "n < 256" and "s = [] \<or> hd s = CHR ''.''"
  shows "ipv4_fields (nat_str n @ s) 0 0 acc = ipv4_fields s n (length (nat_str n)) acc"
proof -
  have d3: "n div 100 * 100 + n div 10 mod 10 * 10 + n mod 10 = n"
  proof -
    have "n = n div 10 * 10 + n mod 10" by simp
    also have "n div 10 = n div 10 div 10 * 10 + n div 10 mod 10" by simp
    finally show ?thesis by (simp add: div_mult2_eq [symmetric] algebra_simps)
  qed
  have "n < 10 \<or> (10 \<le> n \<and> n < 100) \<or> (100 \<le> n \<and> n < 256)" using assms by linarith
  then show ?thesis
  proof (elim disjE)
    assume "n < 10"
    then show ?thesis by (simp add: nat_str.simps)
  next
    assume *: "10 \<le> n \<and> n < 100"
    then have "n div 10 < 10" "0 < n div 10" "n div 10 * 10 + n mod 10 = n" "\<not> 255 < n div 10" by auto
    with * assms(1) show ?thesis by (simp add: nat_str_small Let_def)
  next
    assume *: "100 \<le> n \<and> n < 256"
    then have a: "n div 100 < 10" "0 < n div 100" by auto
    have b: "(n div 100 * 10 + n div 10 mod 10) * 10 + n mod 10 = n" using d3 by (simp add: algebra_simps)
    have c: "n div 100 * 10 + n div 10 mod 10 \<le> 255" using b assms(1) by linarith
    show ?thesis using * a b c assms(1) by (simp add: nat_str_small Let_def)
  qed
qed

lemma ipv4_bytes_bounds: "\<forall>b \<in> set (ipv4_bytes w). b < 256"
proof -
  have "unat w < 2 ^ 32" using unsigned_less [of w] by simp
  then have "unat w div 16777216 < 256" by (simp add: less_mult_imp_div_less)
  then show ?thesis by (simp add: ipv4_bytes_def)
qed

lemma bytes_word_ipv4_bytes: "bytes_word (ipv4_bytes w) = w"
proof -
  let ?n = "unat w"
  have "((?n div 16777216 * 256 + ?n div 65536 mod 256) * 256 + ?n div 256 mod 256) * 256 + ?n mod 256 = ?n"
  proof -
    have "?n = ?n div 256 * 256 + ?n mod 256" by simp
    also have "?n div 256 = ?n div 256 div 256 * 256 + ?n div 256 mod 256" by simp
    also have "?n div 256 div 256 = ?n div 256 div 256 div 256 * 256 + ?n div 256 div 256 mod 256" by simp
    finally show ?thesis by (simp add: div_mult2_eq [symmetric])
  qed
  then have "of_nat (((?n div 16777216 * 256 + ?n div 65536 mod 256) * 256 + ?n div 256 mod 256) * 256
      + ?n mod 256) = (of_nat ?n :: 32 word)" by simp
  then show ?thesis by (simp add: bytes_word_def ipv4_bytes_def algebra_simps)
qed

lemma ipv4_fields_dot:
  "dl \<noteq> 0 \<Longrightarrow> s \<noteq> [] \<Longrightarrow> length acc < 3 \<Longrightarrow>
     ipv4_fields (CHR ''.'' # s) v dl acc = ipv4_fields s 0 0 (acc @ [v])"
  by simp

lemma ipv4_fields_str: "ipv4_fields (ipv4_str w) 0 0 [] = Some (ipv4_bytes w)"
proof -
  obtain a b c d where bs: "ipv4_bytes w = [a, b, c, d]" by (simp add: ipv4_bytes_def)
  with ipv4_bytes_bounds [of w] have lt: "a < 256" "b < 256" "c < 256" "d < 256" by auto
  have "length (nat_str n) \<noteq> 0" for n by simp
  then show ?thesis
    using ipv4_fields_octet [OF lt(4), of "[]"] unfolding ipv4_str_def bs
    by (simp add: ipv4_fields_octet lt ipv4_fields_dot del: ipv4_fields.simps)
      (simp add: ipv4_fields.simps(1))
qed

lemma takeWhile_nat_str_dot: "dropWhile (\<lambda>c. c \<notin> {CHR ''.'', CHR '':'', CHR ''%''}) (nat_str n @ CHR ''.'' # s)
    = CHR ''.'' # s"
proof -
  have "\<forall>c \<in> set (nat_str n). c \<notin> {CHR ''.'', CHR '':'', CHR ''%''}"
    using nat_str_digits [of n] by auto
  then show ?thesis by (simp add: dropWhile_append2)
qed

text \<open>A printed IPv4 address reads back as itself.\<close>

lemma parse_addr_ipv4_str: "parse_addr (ipv4_str w) = Some (V4 w)"
proof -
  obtain a b c d where bs: "ipv4_bytes w = [a, b, c, d]" by (simp add: ipv4_bytes_def)
  have "dropWhile (\<lambda>c. c \<notin> {CHR ''.'', CHR '':'', CHR ''%''}) (ipv4_str w)
      = CHR ''.'' # str_join ''.'' (map nat_str [b, c, d])"
    using takeWhile_nat_str_dot [of a "str_join ''.'' (map nat_str [b, c, d])"]
    by (simp add: ipv4_str_def bs)
  then show ?thesis
    unfolding parse_addr_def parse_ipv4_def
    by (simp add: ipv4_fields_str bytes_word_ipv4_bytes)
qed

lemma split_last_append:
  assumes "c \<notin> set t"
  shows "split_last c (s @ c # t) = Some (s, t)"
proof -
  have t: "\<forall>x \<in> set (rev t). x \<noteq> c" using assms by auto
  have "dropWhile (\<lambda>x. x \<noteq> c) (rev t @ c # rev s) = c # rev s"
    using t by (subst dropWhile_append2) auto
  moreover have "takeWhile (\<lambda>x. x \<noteq> c) (rev t @ c # rev s) = rev t"
    using t by (subst takeWhile_append2) auto
  ultimately show ?thesis by (simp add: split_last_def)
qed

lemma nat_str_no_leading_zero: "length (nat_str n) > 1 \<Longrightarrow> hd (nat_str n) \<noteq> CHR ''0''"
proof (induction n rule: nat_str.induct)
  case (1 n)
  show ?case
  proof (cases "n < 10")
    case True
    then show ?thesis using 1 by (simp add: nat_str.simps)
  next
    case False
    have eq: "nat_str n = nat_str (n div 10) @ [digit_char (n mod 10)]"
      using False by (simp add: nat_str.simps [of n])
    show ?thesis
    proof (cases "n div 10 < 10")
      case True
      have "digit_char (n div 10) \<noteq> CHR ''0''"
      proof
        assume "digit_char (n div 10) = CHR ''0''"
        then have "digit_val (digit_char (n div 10)) = 0" by (simp add: digit_val_def)
        then show False using True False by simp
      qed
      then show ?thesis using eq True by (simp add: nat_str.simps [of "n div 10"])
    next
      case big: False
      then have "length (nat_str (n div 10)) > 1" by (simp add: nat_str.simps [of "n div 10"])
      with 1 False have "hd (nat_str (n div 10)) \<noteq> CHR ''0''" by simp
      then show ?thesis using eq by simp
    qed
  qed
qed

lemma parse_bits_nat_str: "int n \<le> maxb \<Longrightarrow> parse_bits (nat_str n) maxb = Some (int n)"
  using nat_str_digits [of n] nat_str_no_leading_zero [of n]
  by (auto simp: parse_bits_def list_all_iff)

text \<open>So does a printed IPv4 prefix.\<close>

lemma parse_prefix_ipv4_str:
  assumes "b \<le> 32"
  shows "parse_prefix (ipv4_str w @ ''/'' @ nat_str b) = Some (prefix_from (V4 w) (int b))"
proof -
  have "CHR ''/'' \<notin> set (nat_str b)" using nat_str_digits [of b] by auto
  then have "split_last (CHR ''/'') (ipv4_str w @ ''/'' @ nat_str b) = Some (ipv4_str w, nat_str b)"
    by (simp add: split_last_append)
  then show ?thesis
    using assms by (simp add: parse_prefix_def parse_addr_ipv4_str parse_bits_nat_str)
qed

lemma parse_prefix_wf: "parse_prefix s = Some p \<Longrightarrow> prefix_wf p \<and> prefix_is_valid p"
proof -
  assume "parse_prefix s = Some p"
  then obtain ip t b where ip: "parse_addr t = Some ip" and z: "addr_zone ip = []"
    and b: "\<exists>u. parse_bits u (bit_len ip) = Some b" and p: "p = prefix_from ip b"
    by (auto simp: parse_prefix_def split: option.splits prod.splits if_splits)
  have "ip \<noteq> NoAddr"
    using ip by (auto simp: parse_addr_def parse_ipv4_def parse_ipv6_def Let_def
        split: list.splits if_splits option.splits prod.splits)
  moreover from b have bb: "0 \<le> b \<and> b \<le> bit_len ip" by (auto simp: parse_bits_def split: if_splits)
  ultimately have "pfx_bits p = b" using p by (simp add: prefix_from_def)
  with bb show ?thesis using p by (simp add: prefix_is_valid_def)
qed

end
