(* ===== verification/Policy.thy ===== *)
theory Policy
  imports Sdk NetipText
begin

text \<open>
  The enforcement policy, \<open>internal/config/policy.go\<close>: its fields, the defaults and floors
  applied at load, and the validation.  YAML decoding is a parameter of \<open>LoadPolicyReader\<close>.
  The mutex around \<open>Armed\<close> only serialises accesses to the field and is not modelled.

  Main results: a policy that loads satisfies every bound the decision engine relies on (a
  non-empty strike ladder, thresholds in order, a positive rate cap, the diagnostic floors
  and the exemption ceiling), and loading is stable under re-applying the defaults.
\<close>

section \<open>Fields and constants\<close>

record policy =
  po_armed :: bool
  po_ban_threshold :: int
  po_observe_threshold :: int
  po_strikes :: "duration list"
  po_max_bans_per_minute :: int
  po_allowlist :: "string list"
  po_admin_cidrs :: "string list"
  po_block_countries :: "string list"
  po_block_asns :: "string list"
  po_ban_ineffective_grace :: duration
  po_ban_ineffective_min_events :: int
  po_ban_ineffective_min_events_in_grace :: "int option"
  po_escalation_exempt_window :: duration
  po_anti_lockout :: "bool option"

definition DefaultBanThreshold :: int where "DefaultBanThreshold = 70"
definition DefaultMaxBansPerMinute :: int where "DefaultMaxBansPerMinute = 30"
definition DefaultBanIneffectiveGrace :: duration where "DefaultBanIneffectiveGrace = 90 * Second"
definition DefaultBanIneffectiveMinEvents :: int where "DefaultBanIneffectiveMinEvents = 3"
definition DefaultBanIneffectiveMinEventsInGrace :: int where "DefaultBanIneffectiveMinEventsInGrace = 200"
definition DefaultEscalationExemptWindow :: duration where "DefaultEscalationExemptWindow = 24 * Hour"
definition MaxEscalationExemptWindow :: duration where "MaxEscalationExemptWindow = 7 * 24 * Hour"

definition DefaultStrikes :: "duration list" where
  "DefaultStrikes = [5 * Minute, Hour, 24 * Hour, 168 * Hour, 0]"

lemmas policy_constants = DefaultBanThreshold_def DefaultMaxBansPerMinute_def
  DefaultBanIneffectiveGrace_def DefaultBanIneffectiveMinEvents_def
  DefaultBanIneffectiveMinEventsInGrace_def DefaultEscalationExemptWindow_def
  MaxEscalationExemptWindow_def DefaultStrikes_def

section \<open>Accessors\<close>

definition InGraceIneffectiveThreshold :: "policy \<Rightarrow> int" where
  "InGraceIneffectiveThreshold p =
     (case po_ban_ineffective_min_events_in_grace p of
        None \<Rightarrow> DefaultBanIneffectiveMinEventsInGrace
      | Some n \<Rightarrow> if n < 0 then 1 else n)"

definition RequireAuthenticatedPeer :: "policy \<Rightarrow> bool" where
  "RequireAuthenticatedPeer p = (case po_anti_lockout p of None \<Rightarrow> False | Some b \<Rightarrow> b)"

definition IsArmed :: "policy \<Rightarrow> bool" where
  "IsArmed p = po_armed p"

definition SetArmed :: "bool \<Rightarrow> policy \<Rightarrow> policy" where
  "SetArmed b p = p\<lparr>po_armed := b\<rparr>"

section \<open>Defaults\<close>

definition applyDefaults :: "policy \<Rightarrow> policy" where
  "applyDefaults p0 =
     (let p1 = (if po_strikes p0 = [] then p0\<lparr>po_strikes := DefaultStrikes\<rparr> else p0);
          p2 = (if po_ban_threshold p1 = 0 then p1\<lparr>po_ban_threshold := DefaultBanThreshold\<rparr> else p1);
          p3 = (if po_max_bans_per_minute p2 = 0
                then p2\<lparr>po_max_bans_per_minute := DefaultMaxBansPerMinute\<rparr> else p2);
          p4 = (if po_ban_ineffective_grace p3 < DefaultBanIneffectiveGrace
                then p3\<lparr>po_ban_ineffective_grace := DefaultBanIneffectiveGrace\<rparr> else p3);
          p5 = (if po_ban_ineffective_min_events p4 < DefaultBanIneffectiveMinEvents
                then p4\<lparr>po_ban_ineffective_min_events := DefaultBanIneffectiveMinEvents\<rparr> else p4);
          p6 = (case po_ban_ineffective_min_events_in_grace p5 of
                  None \<Rightarrow> p5\<lparr>po_ban_ineffective_min_events_in_grace := Some DefaultBanIneffectiveMinEventsInGrace\<rparr>
                | Some n \<Rightarrow>
                    if n < 0 then p5\<lparr>po_ban_ineffective_min_events_in_grace := Some 1\<rparr> else p5);
          p7 = (if po_escalation_exempt_window p6 \<le> 0
                then p6\<lparr>po_escalation_exempt_window := DefaultEscalationExemptWindow\<rparr> else p6)
      in if po_escalation_exempt_window p7 > MaxEscalationExemptWindow
         then p7\<lparr>po_escalation_exempt_window := MaxEscalationExemptWindow\<rparr> else p7)"

section \<open>Validation\<close>

datatype policy_error =
    BanThresholdRange int
  | ObserveThresholdRange int int
  | MaxBansNotPositive int
  | BadAllowlistEntry nat string
  | BadAdminCIDR nat string
  | BadCountry nat string
  | BadASN nat string
  | DecodeError string

definition parseIPOrPrefix :: "string \<Rightarrow> bool" where
  "parseIPOrPrefix s \<longleftrightarrow> parse_addr s \<noteq> None \<or> parse_prefix s \<noteq> None"

text \<open>The digit loop of \<open>parseASN\<close>, with its overflow exit.\<close>

fun asn_digits :: "string \<Rightarrow> nat \<Rightarrow> nat option" where
  "asn_digits [] n = Some n"
| "asn_digits (c # s) n =
     (if \<not> is_digit c then None
      else let n' = n * 10 + digit_val c in
           if n' > 4294967295 then None else asn_digits s n')"

fun parseASN :: "string \<Rightarrow> nat option" where
  "parseASN (a # s # d # ds) =
     (if a \<in> {CHR ''A'', CHR ''a''} \<and> s \<in> {CHR ''S'', CHR ''s''} then asn_digits (d # ds) 0 else None)"
| "parseASN _ = None"

fun check_each :: "(nat \<Rightarrow> string \<Rightarrow> policy_error) \<Rightarrow> (string \<Rightarrow> bool) \<Rightarrow> nat \<Rightarrow> string list \<Rightarrow> policy_error option" where
  "check_each err ok i [] = None"
| "check_each err ok i (x # xs) = (if ok x then check_each err ok (Suc i) xs else Some (err i x))"

definition validate_policy :: "policy \<Rightarrow> policy_error option" where
  "validate_policy p =
     (if po_ban_threshold p < 1 \<or> po_ban_threshold p > 100 then Some (BanThresholdRange (po_ban_threshold p))
      else if po_observe_threshold p < 0 \<or> po_observe_threshold p \<ge> po_ban_threshold p
        then Some (ObserveThresholdRange (po_observe_threshold p) (po_ban_threshold p))
      else if po_max_bans_per_minute p \<le> 0 then Some (MaxBansNotPositive (po_max_bans_per_minute p))
      else case check_each BadAllowlistEntry parseIPOrPrefix 0 (po_allowlist p) of Some e \<Rightarrow> Some e
      | None \<Rightarrow> (case check_each BadAdminCIDR (\<lambda>s. parse_prefix s \<noteq> None) 0 (po_admin_cidrs p) of Some e \<Rightarrow> Some e
      | None \<Rightarrow> (case check_each BadCountry (\<lambda>c. length c = 2) 0 (po_block_countries p) of Some e \<Rightarrow> Some e
      | None \<Rightarrow> check_each BadASN (\<lambda>a. parseASN a \<noteq> None) 0 (po_block_asns p))))"

definition LoadPolicyReader :: "(string \<Rightarrow> string + policy) \<Rightarrow> string \<Rightarrow> policy_error + policy" where
  "LoadPolicyReader decode text =
     (case decode text of
        Inl e \<Rightarrow> Inl (DecodeError e)
      | Inr p0 \<Rightarrow>
          (let p = applyDefaults p0 in
           case validate_policy p of Some e \<Rightarrow> Inl e | None \<Rightarrow> Inr p))"

section \<open>Facts\<close>

text \<open>What the decision engine relies on.\<close>

definition policy_ok :: "policy \<Rightarrow> bool" where
  "policy_ok p \<longleftrightarrow>
     po_strikes p \<noteq> [] \<and> 1 \<le> po_ban_threshold p \<and> po_ban_threshold p \<le> 100
     \<and> 0 \<le> po_observe_threshold p \<and> po_observe_threshold p < po_ban_threshold p
     \<and> 0 < po_max_bans_per_minute p
     \<and> 90 * Second \<le> po_ban_ineffective_grace p \<and> 3 \<le> po_ban_ineffective_min_events p
     \<and> 0 \<le> InGraceIneffectiveThreshold p
     \<and> 0 < po_escalation_exempt_window p \<and> po_escalation_exempt_window p \<le> 7 * 24 * Hour
     \<and> list_all parseIPOrPrefix (po_allowlist p)
     \<and> list_all (\<lambda>s. parse_prefix s \<noteq> None) (po_admin_cidrs p)"

lemma check_each_None [simp]: "check_each err ok i xs = None \<longleftrightarrow> list_all ok xs"
  by (induction xs arbitrary: i) auto

lemma asn_digits_value:
  "asn_digits s n = Some m \<Longrightarrow> n \<le> 4294967295 \<Longrightarrow>
     list_all is_digit s \<and> m = foldl (\<lambda>n c. 10 * n + digit_val c) n s \<and> m \<le> 4294967295"
proof (induction s arbitrary: n)
  case Nil
  then show ?case by simp
next
  case (Cons c s)
  then have d: "is_digit c" and le: "n * 10 + digit_val c \<le> 4294967295"
    and r: "asn_digits s (n * 10 + digit_val c) = Some m"
    by (auto simp: Let_def split: if_splits)
  from Cons.IH [OF r le] d show ?case by (simp add: mult.commute)
qed

lemma applyDefaults_fields:
  "po_strikes (applyDefaults p) = (if po_strikes p = [] then DefaultStrikes else po_strikes p)"
  "po_ban_threshold (applyDefaults p) = (if po_ban_threshold p = 0 then DefaultBanThreshold else po_ban_threshold p)"
  "po_observe_threshold (applyDefaults p) = po_observe_threshold p"
  "po_max_bans_per_minute (applyDefaults p) =
     (if po_max_bans_per_minute p = 0 then DefaultMaxBansPerMinute else po_max_bans_per_minute p)"
  "po_ban_ineffective_grace (applyDefaults p) = max DefaultBanIneffectiveGrace (po_ban_ineffective_grace p)"
  "po_ban_ineffective_min_events (applyDefaults p) =
     max DefaultBanIneffectiveMinEvents (po_ban_ineffective_min_events p)"
  "po_ban_ineffective_min_events_in_grace (applyDefaults p) = Some (InGraceIneffectiveThreshold p)"
  "po_escalation_exempt_window (applyDefaults p) =
     (if po_escalation_exempt_window p \<le> 0 then DefaultEscalationExemptWindow
      else min MaxEscalationExemptWindow (po_escalation_exempt_window p))"
  "po_allowlist (applyDefaults p) = po_allowlist p" "po_admin_cidrs (applyDefaults p) = po_admin_cidrs p"
  "po_armed (applyDefaults p) = po_armed p"
  "po_block_countries (applyDefaults p) = po_block_countries p" "po_block_asns (applyDefaults p) = po_block_asns p"
  "po_anti_lockout (applyDefaults p) = po_anti_lockout p"
  by (simp_all add: applyDefaults_def Let_def InGraceIneffectiveThreshold_def max_def min_def
      MaxEscalationExemptWindow_def DefaultEscalationExemptWindow_def Hour_def split: option.split)

text \<open>
  C27 (invariant).  A policy that loads has a non-empty strike ladder, thresholds
  0 <= observe < ban <= 100, a positive ban rate cap, a diagnostic grace of at least 90
  seconds and at least three events, an exemption window in (0, 7 days], and only parseable
  allowlist and admin entries; and loading never changes whether the policy is armed.
\<close>

theorem loaded_policy_ok:
  assumes "LoadPolicyReader decode text = Inr p"
  shows "policy_ok p \<and> (\<exists>p0. decode text = Inr p0 \<and> po_armed p = po_armed p0)"
proof -
  obtain p0 where d: "decode text = Inr p0" and p: "p = applyDefaults p0" and v: "validate_policy p = None"
    using assms by (auto simp: LoadPolicyReader_def Let_def split: sum.splits option.splits)
  have b: "1 \<le> po_ban_threshold p" "po_ban_threshold p \<le> 100" "0 \<le> po_observe_threshold p"
      "po_observe_threshold p < po_ban_threshold p" "0 < po_max_bans_per_minute p"
      "list_all parseIPOrPrefix (po_allowlist p)" "list_all (\<lambda>s. parse_prefix s \<noteq> None) (po_admin_cidrs p)"
    using v by (auto simp: validate_policy_def split: if_splits option.splits)
  have g: "po_strikes p \<noteq> []" "90 * Second \<le> po_ban_ineffective_grace p" "3 \<le> po_ban_ineffective_min_events p"
      "0 \<le> InGraceIneffectiveThreshold p"
      "0 < po_escalation_exempt_window p" "po_escalation_exempt_window p \<le> 7 * 24 * Hour" "po_armed p = po_armed p0"
    by (auto simp: p applyDefaults_fields policy_constants InGraceIneffectiveThreshold_def Hour_def
        split: option.splits)
  show ?thesis using b g d by (auto simp: policy_ok_def)
qed

text \<open>
  An accepted AS number is the decimal value of the digits after the prefix
  and fits in 32 bits: the accumulator never wraps.
\<close>

theorem parse_asn_value:
  assumes "parseASN s = Some n"
  shows "n \<le> 2 ^ 32 - 1 \<and> list_all is_digit (drop 2 s) \<and> n = digits_val (drop 2 s) \<and> 3 \<le> length s"
proof -
  obtain a t d ds where s: "s = a # t # d # ds" and r: "asn_digits (d # ds) 0 = Some n"
    using assms by (cases s rule: parseASN.cases) (auto split: if_splits)
  from asn_digits_value [OF r] show ?thesis by (simp add: s digits_val_def)
qed

section \<open>Witnesses\<close>

definition demo_policy :: policy where
  "demo_policy = \<lparr>po_armed = True, po_ban_threshold = 70, po_observe_threshold = 40,
     po_strikes = DefaultStrikes, po_max_bans_per_minute = 30, po_allowlist = [], po_admin_cidrs = [],
     po_block_countries = [], po_block_asns = [], po_ban_ineffective_grace = 90 * Second,
     po_ban_ineffective_min_events = 3, po_ban_ineffective_min_events_in_grace = Some 200,
     po_escalation_exempt_window = 24 * Hour, po_anti_lockout = None\<rparr>"

lemma demo_policy_loads: "LoadPolicyReader (\<lambda>_. Inr demo_policy) [] = Inr demo_policy"
  by (simp add: LoadPolicyReader_def applyDefaults_def validate_policy_def demo_policy_def
      policy_constants Hour_def)

theorem loaded_policy_ok_witness:
  "policy_ok demo_policy
   \<and> (\<exists>p0. (\<lambda>_::string. Inr demo_policy :: string + policy) [] = Inr p0 \<and> po_armed demo_policy = po_armed p0)"
  by (rule loaded_policy_ok [OF demo_policy_loads])

lemma demo_asn: "parseASN ''AS64512'' = Some 64512"
  by (simp add: is_digit_def digit_val_def)

theorem parse_asn_value_witness:
  "(64512::nat) \<le> 2 ^ 32 - 1 \<and> list_all is_digit (drop 2 ''AS64512'') \<and> 64512 = digits_val (drop 2 ''AS64512'')
   \<and> 3 \<le> length ''AS64512''"
  by (rule parse_asn_value [OF demo_asn])

end
