(* ===== verification/Store.thy ===== *)
theory Store
  imports Sdk NetipText "HOL-Library.List_Lexorder" "HOL-Library.Char_ord"
begin

text \<open>
  The SQLite store, \<open>internal/store/store.go\<close>: its tables, and every statement of its
  operations as a function on them.

  \<^item> A table with a primary key is a dictionary in row order, a log table a list of rows.
    \<open>AUTOINCREMENT\<close> is a counter that never goes back.
  \<^item> The \<open>ip\<close> and \<open>prefix\<close> columns hold \<open>Addr.String\<close> and \<open>Prefix.String\<close>, which are injective
    on valid values and read back by \<open>ParseAddr\<close> and \<open>ParsePrefix\<close>; the model keeps the value
    itself.  The invalid address and prefix print as texts that do not parse, and the readers
    refuse them.
  \<^item> Timestamps are written in \<open>RFC3339Nano\<close> and parsed back exactly, so a column is an
    instant; but SQL compares the \<^emph>\<open>texts\<close>, whose order differs from the order of instants
    within one second (\<open>text_less\<close>).
  \<^item> The clock is an argument, one per reading of the clock in the source.
  \<^item> \<open>int64(d.Seconds())\<close> is the exact truncation \<open>dur_seconds\<close>: the float of \<open>Seconds\<close> can
    round up only above \<open>2\<^sup>2\<^sup>3\<close> seconds and within nanoseconds of the next second.

  The operations below are the successful executions.  A driver error aborts the transaction
  and leaves the tables as they were; callers see it as an error value (theory \<open>Decision\<close>).
\<close>

section \<open>Text timestamps\<close>

definition col_suffix :: "time \<Rightarrow> string" where
  "col_suffix t = fmt_frac 9 (nat (t mod Second)) @ ''Z''"

text \<open>
  The order of the stored texts: the date and time down to the second have fixed width, so
  they compare as the second does; the rest is the trimmed fraction and the zone letter.
\<close>

definition text_less :: "time \<Rightarrow> time \<Rightarrow> bool" where
  "text_less a b \<longleftrightarrow>
     time_unix a < time_unix b \<or> (time_unix a = time_unix b \<and> col_suffix a < col_suffix b)"

text \<open>\<open>called_at >= '2006-01-02'\<close>: a timestamp text is not below a date text iff its day is not.\<close>

definition utc_day :: "time \<Rightarrow> int" where
  "utc_day t = t div (24 * Hour)"

section \<open>Tables\<close>

record ban_row =
  br_banned_at :: time
  br_expires_at :: "time option"
  br_strike :: int
  br_reason :: string
  br_dry_run :: bool
  br_suppressed_total :: int
  br_suppressed_after_grace :: int
  br_ineffective_fired :: bool
  br_last_suppressed_at :: "time option"

record offender_row =
  of_first_seen :: time
  of_last_seen :: time
  of_total_strikes :: int
  of_had_ineffective :: bool

record strike_row =
  sr_id :: int
  sr_ip :: addr
  sr_recorded_at :: time
  sr_strike_num :: int
  sr_ttl_seconds :: int
  sr_reason :: string
  sr_verdicts :: "verdict list"

datatype subject = SubIP addr | SubPrefix pfx | SubSystem | SubNone

record audit_row =
  au_id :: int
  au_recorded_at :: time
  au_op :: string
  au_ip :: subject
  au_ttl_seconds :: int
  au_strike :: int
  au_reason :: string

record allow_row =
  al_expires_at :: "time option"
  al_reason :: string
  al_created_at :: time

record usage_row =
  ur_called_at :: time
  ur_provider :: string
  ur_usage :: usage
  ur_ip :: "string option"

record db =
  db_bans :: "(addr, ban_row) gomap"
  db_offenders :: "(addr, offender_row) gomap"
  db_strikes :: "strike_row list"
  db_strike_seq :: int
  db_audit :: "audit_row list"
  db_audit_seq :: int
  db_allow :: "(pfx, allow_row) gomap"
  db_state :: "(string, string \<times> time) gomap"
  db_usage :: "usage_row list"
  db_events :: "(addr \<times> string \<times> int, int) gomap"
  db_consumed :: "(addr \<times> int \<times> string, int \<times> int) gomap"

definition empty_db :: db where
  "empty_db = \<lparr>db_bans = [], db_offenders = [], db_strikes = [], db_strike_seq = 0, db_audit = [],
     db_audit_seq = 0, db_allow = [], db_state = [], db_usage = [], db_events = [], db_consumed = []\<rparr>"

definition IneffectiveRearmAfter :: duration where "IneffectiveRearmAfter = 24 * Hour"

datatype store_error =
    StBadIP
  | StBadPrefix
  | StNegativeTTL duration
  | StDriver string

section \<open>Inserting log rows\<close>

definition insert_audit :: "time \<Rightarrow> string \<Rightarrow> subject \<Rightarrow> int \<Rightarrow> int \<Rightarrow> string \<Rightarrow> db \<Rightarrow> db" where
  "insert_audit now opn sub ttl strike reason d =
     d\<lparr>db_audit := db_audit d @ [\<lparr>au_id = db_audit_seq d + 1, au_recorded_at = now, au_op = opn, au_ip = sub,
          au_ttl_seconds = ttl, au_strike = strike, au_reason = reason\<rparr>],
       db_audit_seq := db_audit_seq d + 1\<rparr>"

definition insert_strike :: "addr \<Rightarrow> time \<Rightarrow> int \<Rightarrow> int \<Rightarrow> string \<Rightarrow> verdict list \<Rightarrow> db \<Rightarrow> db" where
  "insert_strike ip now num ttl reason vs d =
     d\<lparr>db_strikes := db_strikes d @ [\<lparr>sr_id = db_strike_seq d + 1, sr_ip = ip, sr_recorded_at = now,
          sr_strike_num = num, sr_ttl_seconds = ttl, sr_reason = reason, sr_verdicts = vs\<rparr>],
       db_strike_seq := db_strike_seq d + 1\<rparr>"

section \<open>Strikes and bans\<close>

definition fresh_ban :: "time \<Rightarrow> time option \<Rightarrow> int \<Rightarrow> string \<Rightarrow> bool \<Rightarrow> ban_row" where
  "fresh_ban now expires strike reason dry =
     \<lparr>br_banned_at = now, br_expires_at = expires, br_strike = strike, br_reason = reason, br_dry_run = dry,
      br_suppressed_total = 0, br_suppressed_after_grace = 0, br_ineffective_fired = False,
      br_last_suppressed_at = None\<rparr>"

definition upsert_offender :: "addr \<Rightarrow> time \<Rightarrow> int \<Rightarrow> db \<Rightarrow> db" where
  "upsert_offender ip now n d =
     d\<lparr>db_offenders := gm_set ip
         (case gm_get (db_offenders d) ip of
            None \<Rightarrow> \<lparr>of_first_seen = now, of_last_seen = now, of_total_strikes = n, of_had_ineffective = False\<rparr>
          | Some r \<Rightarrow> r\<lparr>of_last_seen := now, of_total_strikes := of_total_strikes r + n\<rparr>)
         (db_offenders d)\<rparr>"

text \<open>\<open>now\<close> is the first clock reading (\<open>nowRFC3339\<close>), \<open>now2\<close> the one \<open>expires_at\<close> is computed from.\<close>

definition RecordStrike :: "time \<Rightarrow> time \<Rightarrow> action \<Rightarrow> db \<Rightarrow> db" where
  "RecordStrike now now2 a d =
     (let ip = ac_ip a; ttlSec = dur_seconds (ac_ttl a); dryRun = (ac_op a = ''dry_ban'');
          expiresAt = (if ac_ttl a > 0 then Some (now2 + ac_ttl a) else None);
          d1 = upsert_offender ip now 1 d;
          d2 = insert_strike ip now (ac_strike a) ttlSec (ac_reason a) (ac_verdicts a) d1;
          d3 = d2\<lparr>db_bans := gm_set ip (fresh_ban now expiresAt (ac_strike a) (ac_reason a) dryRun) (db_bans d2)\<rparr>
      in insert_audit now (ac_op a) (SubIP ip) ttlSec (ac_strike a) (ac_reason a) d3)"

text \<open>The result is (bannedAt, strike, dryRun) when the ban is found.\<close>

definition GetBanInfo :: "time \<Rightarrow> addr \<Rightarrow> db \<Rightarrow> (time \<times> int \<times> bool) option" where
  "GetBanInfo clock ip d =
     (case gm_get (db_bans d) ip of
        None \<Rightarrow> None
      | Some r \<Rightarrow>
          (case br_expires_at r of
             Some et \<Rightarrow> if \<not> et > clock then None else Some (br_banned_at r, br_strike r, br_dry_run r)
           | None \<Rightarrow> Some (br_banned_at r, br_strike r, br_dry_run r)))"

text \<open>The two \<open>UPDATE\<close> statements of \<open>RecordSuppressed\<close> on the row, the re-arm first.\<close>

definition rearm_row :: "time \<Rightarrow> ban_row \<Rightarrow> ban_row" where
  "rearm_row now r =
     (if br_ineffective_fired r
         \<and> (case br_last_suppressed_at r of None \<Rightarrow> True | Some t \<Rightarrow> text_less t (now - IneffectiveRearmAfter))
      then r\<lparr>br_ineffective_fired := False, br_suppressed_after_grace := 0\<rparr> else r)"

definition count_suppressed :: "time \<Rightarrow> bool \<Rightarrow> ban_row \<Rightarrow> ban_row" where
  "count_suppressed now afterGrace r =
     r\<lparr>br_suppressed_total := br_suppressed_total r + 1,
       br_suppressed_after_grace := br_suppressed_after_grace r + (if afterGrace then 1 else 0),
       br_last_suppressed_at := Some now\<rparr>"

definition RecordSuppressed :: "time \<Rightarrow> addr \<Rightarrow> bool \<Rightarrow> db \<Rightarrow> (int \<times> int \<times> bool) \<times> db" where
  "RecordSuppressed now ip afterGrace d =
     (case gm_get (db_bans d) ip of
        None \<Rightarrow> ((0, 0, False), d)
      | Some r \<Rightarrow>
          let r' = count_suppressed now afterGrace (rearm_row now r)
          in ((br_suppressed_total r', br_suppressed_after_grace r', br_ineffective_fired r'),
              d\<lparr>db_bans := gm_set ip r' (db_bans d)\<rparr>))"

definition MarkBanIneffective :: "addr \<Rightarrow> db \<Rightarrow> bool \<times> db" where
  "MarkBanIneffective ip d =
     (case gm_get (db_bans d) ip of
        None \<Rightarrow> (False, d)
      | Some r \<Rightarrow>
          if br_ineffective_fired r then (False, d)
          else
            let d1 = d\<lparr>db_bans := gm_set ip (r\<lparr>br_ineffective_fired := True\<rparr>) (db_bans d)\<rparr>
            in (True,
                (case gm_get (db_offenders d1) ip of
                   None \<Rightarrow> d1
                 | Some q \<Rightarrow> d1\<lparr>db_offenders := gm_set ip (q\<lparr>of_had_ineffective := True\<rparr>) (db_offenders d1)\<rparr>)))"

definition HadIneffectiveBan :: "addr \<Rightarrow> db \<Rightarrow> bool" where
  "HadIneffectiveBan ip d =
     (case gm_get (db_offenders d) ip of None \<Rightarrow> False | Some q \<Rightarrow> of_had_ineffective q)"

text \<open>\<open>ORDER BY id DESC LIMIT 1\<close>.\<close>

definition max_strike :: "addr \<Rightarrow> strike_row list \<Rightarrow> strike_row option" where
  "max_strike ip rows =
     (case filter (\<lambda>r. sr_ip r = ip) rows of
        [] \<Rightarrow> None
      | r # rs \<Rightarrow> Some (foldl (\<lambda>m x. if sr_id m < sr_id x then x else m) r rs))"

definition LastStrike :: "addr \<Rightarrow> db \<Rightarrow> (time \<times> duration) option" where
  "LastStrike ip d =
     map_option (\<lambda>r. (sr_recorded_at r, sr_ttl_seconds r * Second)) (max_strike ip (db_strikes d))"

definition BumpLastSeen :: "time \<Rightarrow> addr \<Rightarrow> db \<Rightarrow> db" where
  "BumpLastSeen now ip d = upsert_offender ip now 0 d"

definition GetStrikeCount :: "addr \<Rightarrow> db \<Rightarrow> int" where
  "GetStrikeCount ip d =
     (case gm_get (db_offenders d) ip of None \<Rightarrow> 0 | Some q \<Rightarrow> of_total_strikes q)"

definition ban_action :: "time \<Rightarrow> addr \<times> ban_row \<Rightarrow> action option" where
  "ban_action clock = (\<lambda>(ip, r).
     case br_expires_at r of
       None \<Rightarrow> Some (zero_action\<lparr>ac_ip := ip, ac_op := (if br_dry_run r then ''dry_ban'' else ''ban''),
                 ac_ttl := 0, ac_permanent := True, ac_strike := br_strike r, ac_reason := br_reason r\<rparr>)
     | Some et \<Rightarrow>
         if et - clock \<le> 0 then None
         else Some (zero_action\<lparr>ac_ip := ip, ac_op := (if br_dry_run r then ''dry_ban'' else ''ban''),
                 ac_ttl := et - clock, ac_permanent := False, ac_strike := br_strike r, ac_reason := br_reason r\<rparr>))"

text \<open>The clock is read once per row with an expiry; one reading stands for all of them.\<close>

fun active_rows :: "time \<Rightarrow> (addr \<times> ban_row) list \<Rightarrow> store_error + action list" where
  "active_rows clock [] = Inr []"
| "active_rows clock ((ip, r) # rows) =
     (if \<not> addr_is_valid ip then Inl StBadIP
      else case active_rows clock rows of
             Inl e \<Rightarrow> Inl e
           | Inr out \<Rightarrow> Inr (case ban_action clock (ip, r) of None \<Rightarrow> out | Some a \<Rightarrow> a # out))"

definition ActiveBans :: "time \<Rightarrow> db \<Rightarrow> store_error + action list" where
  "ActiveBans clock d = active_rows clock (db_bans d)"

text \<open>\<open>ExpireBans\<close> is two statements with the same \<open>WHERE\<close>: audit the rows, then delete them.\<close>

definition ban_expired :: "time \<Rightarrow> ban_row \<Rightarrow> bool" where
  "ban_expired now r = (case br_expires_at r of None \<Rightarrow> False | Some et \<Rightarrow> text_less et now)"

definition audit_expired :: "time \<Rightarrow> db \<Rightarrow> addr \<times> ban_row \<Rightarrow> db" where
  "audit_expired now d = (\<lambda>(ip, r). insert_audit now ''expire'' (SubIP ip) 0 (br_strike r)
     (if br_dry_run r then ''simulated ttl expired'' else ''ttl expired'') d)"

definition ExpireBans :: "time \<Rightarrow> db \<Rightarrow> int \<times> db" where
  "ExpireBans now d =
     (let gone = filter (\<lambda>(ip, r). ban_expired now r) (db_bans d);
          d1 = foldl (audit_expired now) d gone
      in (int (length gone),
          d1\<lparr>db_bans := filter (\<lambda>(ip, r). \<not> ban_expired now r) (db_bans d1)\<rparr>))"

definition Unban :: "time \<Rightarrow> addr \<Rightarrow> db \<Rightarrow> db" where
  "Unban now ip d =
     insert_audit now ''unban'' (SubIP ip) 0 0 ''manual unban'' (d\<lparr>db_bans := gm_del ip (db_bans d)\<rparr>)"

definition RecordManualBan ::
  "time \<Rightarrow> time \<Rightarrow> addr \<Rightarrow> duration \<Rightarrow> string \<Rightarrow> bool \<Rightarrow> db \<Rightarrow> store_error + db" where
  "RecordManualBan now now2 ip ttl reason dryRun d =
     (if ttl < 0 then Inl (StNegativeTTL ttl)
      else
        let ttlSec = dur_seconds ttl;
            expiresAt = (if ttl > 0 then Some (now2 + ttl) else None);
            row = (case gm_get (db_bans d) ip of
                     None \<Rightarrow> fresh_ban now expiresAt 1 reason dryRun
                   | Some r \<Rightarrow> fresh_ban now expiresAt (br_strike r) reason dryRun);
            d1 = d\<lparr>db_bans := gm_set ip row (db_bans d)\<rparr>
        in Inr (insert_audit now (if dryRun then ''dry_ban'' else ''ban'') (SubIP ip) ttlSec 1 reason d1))"

section \<open>The audit log\<close>

definition Audit :: "time \<Rightarrow> action \<Rightarrow> db \<Rightarrow> db" where
  "Audit now a d =
     insert_audit now (ac_op a) (SubIP (ac_ip a)) (dur_seconds (ac_ttl a)) (ac_strike a) (ac_reason a) d"

definition AuditOp :: "time \<Rightarrow> string \<Rightarrow> pfx \<Rightarrow> duration \<Rightarrow> string \<Rightarrow> db \<Rightarrow> db" where
  "AuditOp now opn p ttl reason d =
     insert_audit now opn (SubPrefix (prefix_masked p)) (dur_seconds ttl) 0 reason d"

definition AuditSystem :: "time \<Rightarrow> string \<Rightarrow> string \<Rightarrow> db \<Rightarrow> db" where
  "AuditSystem now opn reason d = insert_audit now opn SubSystem 0 0 reason d"

definition ListAuditLog :: "int \<Rightarrow> db \<Rightarrow> audit_row list" where
  "ListAuditLog limit d =
     (let n = (if limit \<le> 0 then 1 else if limit > 1000 then 1000 else limit)
      in take (nat n) (rev (sort_key au_id (db_audit d))))"

definition AuditLogAfter :: "int \<Rightarrow> int \<Rightarrow> db \<Rightarrow> audit_row list" where
  "AuditLogAfter afterID limit d =
     (let n = (if limit \<le> 0 then 100 else if limit > 1000 then 1000 else limit)
      in take (nat n) (sort_key au_id (filter (\<lambda>r. au_id r > afterID) (db_audit d))))"

section \<open>The runtime allowlist\<close>

record allow_entry =
  ae_prefix :: pfx
  ae_expires_at :: time
  ae_reason :: string
  ae_created_at :: time

definition AddAllow :: "time \<Rightarrow> pfx \<Rightarrow> time option \<Rightarrow> string \<Rightarrow> db \<Rightarrow> db" where
  "AddAllow now p expiresAt reason d =
     d\<lparr>db_allow := gm_set (prefix_masked p)
         \<lparr>al_expires_at = expiresAt, al_reason = reason, al_created_at = now\<rparr> (db_allow d)\<rparr>"

definition RemoveAllow :: "pfx \<Rightarrow> db \<Rightarrow> int \<times> db" where
  "RemoveAllow p d =
     ((if gm_get (db_allow d) (prefix_masked p) = None then 0 else 1),
      d\<lparr>db_allow := gm_del (prefix_masked p) (db_allow d)\<rparr>)"

definition allow_entry_of :: "pfx \<times> allow_row \<Rightarrow> store_error + allow_entry" where
  "allow_entry_of = (\<lambda>(p, r).
     if \<not> prefix_is_valid p then Inl StBadPrefix
     else Inr \<lparr>ae_prefix = p, ae_expires_at = (case al_expires_at r of None \<Rightarrow> zero_time | Some t \<Rightarrow> t),
               ae_reason = al_reason r, ae_created_at = al_created_at r\<rparr>)"

definition ListAllow :: "db \<Rightarrow> store_error + allow_entry list" where
  "ListAllow d = map_res allow_entry_of (sort_key (\<lambda>(p, r). pfx_str p) (db_allow d))"

definition allow_expired :: "time \<Rightarrow> allow_row \<Rightarrow> bool" where
  "allow_expired now r = (case al_expires_at r of None \<Rightarrow> False | Some et \<Rightarrow> text_less et now)"

definition audit_allow_expired :: "time \<Rightarrow> db \<Rightarrow> pfx \<times> allow_row \<Rightarrow> db" where
  "audit_allow_expired now d = (\<lambda>(p, r). insert_audit now ''allow_expire'' (SubPrefix p) 0 0 ''allowlist ttl expired'' d)"

definition ExpireAllows :: "time \<Rightarrow> db \<Rightarrow> int \<times> db" where
  "ExpireAllows now d =
     (let gone = filter (\<lambda>(p, r). allow_expired now r) (db_allow d);
          d1 = foldl (audit_allow_expired now) d gone
      in (int (length gone),
          d1\<lparr>db_allow := filter (\<lambda>(p, r). \<not> allow_expired now r) (db_allow d1)\<rparr>))"

section \<open>Lifting covered bans\<close>

definition unban_one :: "time \<Rightarrow> string \<Rightarrow> db \<Rightarrow> addr \<Rightarrow> db" where
  "unban_one now reason d ip =
     insert_audit now ''unban'' (SubIP ip) 0 0 reason (d\<lparr>db_bans := gm_del ip (db_bans d)\<rparr>)"

definition UnbanCovered :: "time \<Rightarrow> pfx \<Rightarrow> string \<Rightarrow> db \<Rightarrow> addr list \<times> db" where
  "UnbanCovered now p reason d =
     (let matches = filter (\<lambda>ip. addr_is_valid ip \<and> prefix_contains p ip) (gm_keys (db_bans d))
      in if matches = [] then ([], d) else (matches, foldl (unban_one now reason) d matches))"

definition UnbanPrefix :: "time \<Rightarrow> pfx \<Rightarrow> db \<Rightarrow> int \<times> db" where
  "UnbanPrefix now p d =
     (let (ips, d') = UnbanCovered now p (''manual unban via '' @ pfx_str (prefix_masked p)) d
      in (int (length ips), d'))"

text \<open>\<open>internal/store/disableall.go\<close>: every ban goes, one row tells how many.\<close>

definition UnbanAll :: "time \<Rightarrow> string \<Rightarrow> db \<Rightarrow> int \<times> db" where
  "UnbanAll now reason d =
     (let n = int (length (db_bans d))
      in (n, insert_audit now ''disable_all'' SubNone 0 0 (reason @ '' (removed '' @ int_str n @ '' active bans)'')
               (d\<lparr>db_bans := []\<rparr>)))"

section \<open>AI usage and daemon state\<close>

definition RecordUsage :: "time \<Rightarrow> string \<Rightarrow> usage \<Rightarrow> string \<Rightarrow> db \<Rightarrow> db" where
  "RecordUsage now provider u ip d =
     d\<lparr>db_usage := db_usage d @ [\<lparr>ur_called_at = now, ur_provider = provider, ur_usage = u,
          ur_ip = (if ip = [] then None else Some ip)\<rparr>]\<rparr>"

definition TodayUsage :: "time \<Rightarrow> string \<Rightarrow> db \<Rightarrow> usage" where
  "TodayUsage clock provider d =
     (let rows = filter (\<lambda>r. ur_provider r = provider \<and> utc_day clock \<le> utc_day (ur_called_at r)) (db_usage d)
      in \<lparr>us_input_tokens = sum_list (map (us_input_tokens \<circ> ur_usage) rows),
          us_output_tokens = sum_list (map (us_output_tokens \<circ> ur_usage) rows),
          us_cost_usd = sum_list (map (us_cost_usd \<circ> ur_usage) rows)\<rparr>)"

definition SetState :: "time \<Rightarrow> string \<Rightarrow> string \<Rightarrow> db \<Rightarrow> db" where
  "SetState now k v d = d\<lparr>db_state := gm_set k (v, now) (db_state d)\<rparr>"

definition GetState :: "string \<Rightarrow> db \<Rightarrow> string option" where
  "GetState k d = map_option fst (gm_get (db_state d) k)"

definition DeleteState :: "string \<Rightarrow> db \<Rightarrow> db" where
  "DeleteState k d = d\<lparr>db_state := gm_del k (db_state d)\<rparr>"

lemmas store_defs = RecordStrike_def RecordManualBan_def BumpLastSeen_def MarkBanIneffective_def
  RecordSuppressed_def Unban_def Audit_def AuditOp_def AuditSystem_def AddAllow_def RemoveAllow_def
  RecordUsage_def SetState_def DeleteState_def upsert_offender_def insert_audit_def insert_strike_def
  unban_one_def

section \<open>Well-formed tables\<close>

definition ids_ok :: "int list \<Rightarrow> int \<Rightarrow> bool" where
  "ids_ok ids n \<longleftrightarrow> sorted_wrt (<) ids \<and> (\<forall>i \<in> set ids. i \<le> n)"

definition ban_row_ok :: "ban_row \<Rightarrow> bool" where
  "ban_row_ok r \<longleftrightarrow> 0 \<le> br_suppressed_after_grace r \<and> br_suppressed_after_grace r \<le> br_suppressed_total r"

definition bans_ok :: "(addr, ban_row) gomap \<Rightarrow> bool" where
  "bans_ok m \<longleftrightarrow> gm_ok m \<and> (\<forall>(ip, r) \<in> set m. ban_row_ok r)"

definition strike_rows :: "addr \<Rightarrow> db \<Rightarrow> nat" where
  "strike_rows ip d = length (filter (\<lambda>r. sr_ip r = ip) (db_strikes d))"

definition counters_ok :: "db \<Rightarrow> bool" where
  "counters_ok d \<longleftrightarrow> gm_ok (db_events d) \<and> gm_ok (db_consumed d)
     \<and> (\<forall>(k, n) \<in> set (db_events d). 0 < n) \<and> (\<forall>(k, n, t) \<in> set (db_consumed d). 0 < n)"

text \<open>
  The invariant of the store: unique keys, increasing row ids below their sequence, sane
  suppression counters, and never more strike rows for an address than its offender row counts.
\<close>

definition db_ok :: "db \<Rightarrow> bool" where
  "db_ok d \<longleftrightarrow> bans_ok (db_bans d) \<and> gm_ok (db_offenders d) \<and> gm_ok (db_allow d) \<and> gm_ok (db_state d)
     \<and> ids_ok (map sr_id (db_strikes d)) (db_strike_seq d) \<and> ids_ok (map au_id (db_audit d)) (db_audit_seq d)
     \<and> (\<forall>ip. int (strike_rows ip d) \<le> GetStrikeCount ip d) \<and> counters_ok d"

lemma db_okI:
  assumes "bans_ok (db_bans d)" "gm_ok (db_offenders d)" "gm_ok (db_allow d)" "gm_ok (db_state d)"
    "ids_ok (map sr_id (db_strikes d)) (db_strike_seq d)" "ids_ok (map au_id (db_audit d)) (db_audit_seq d)"
    "\<And>ip. int (strike_rows ip d) \<le> GetStrikeCount ip d" "counters_ok d"
  shows "db_ok d"
  using assms by (simp add: db_ok_def)

lemma db_okD:
  assumes "db_ok d"
  shows "bans_ok (db_bans d)" "gm_ok (db_offenders d)" "gm_ok (db_allow d)" "gm_ok (db_state d)"
    "ids_ok (map sr_id (db_strikes d)) (db_strike_seq d)" "ids_ok (map au_id (db_audit d)) (db_audit_seq d)"
    "int (strike_rows ip d) \<le> GetStrikeCount ip d" "counters_ok d"
  using assms by (simp_all add: db_ok_def)

lemma ids_ok_snoc: "ids_ok ids n \<Longrightarrow> ids_ok (ids @ [n + 1]) (n + 1)"
  by (fastforce simp: ids_ok_def sorted_wrt_append)

lemma ids_ok_filter: "ids_ok (map f xs) n \<Longrightarrow> ids_ok (map f (filter P xs)) n"
  by (auto simp: ids_ok_def sorted_wrt_map intro: sorted_wrt_filter)

lemma bans_ok_set: "bans_ok m \<Longrightarrow> ban_row_ok r \<Longrightarrow> bans_ok (gm_set ip r m)"
  by (auto simp: bans_ok_def dest!: gm_set_in)

lemma bans_ok_del: "bans_ok m \<Longrightarrow> bans_ok (gm_del ip m)"
  by (auto simp: bans_ok_def dest!: gm_del_in)

lemma bans_ok_filter: "bans_ok m \<Longrightarrow> bans_ok (filter P m)"
  by (auto simp: bans_ok_def)

lemma bans_ok_get: "bans_ok m \<Longrightarrow> gm_get m ip = Some r \<Longrightarrow> ban_row_ok r"
  by (auto simp: bans_ok_def dest!: gm_get_in_set)

lemma ban_row_ok_fresh: "ban_row_ok (fresh_ban t e s reason dry)"
  by (simp add: ban_row_ok_def fresh_ban_def)

lemma ban_row_ok_suppressed: "ban_row_ok r \<Longrightarrow> ban_row_ok (count_suppressed now ag (rearm_row now r))"
  by (auto simp: ban_row_ok_def count_suppressed_def rearm_row_def)

lemma counters_ok_cong:
  "db_events d' = db_events d \<Longrightarrow> db_consumed d' = db_consumed d \<Longrightarrow> counters_ok d' = counters_ok d"
  by (simp add: counters_ok_def)

lemma db_ok_insert_audit [ezy_inv]: "db_ok d \<Longrightarrow> db_ok (insert_audit now opn sub ttl n reason d)"
  by (auto simp: db_ok_def insert_audit_def ids_ok_snoc strike_rows_def GetStrikeCount_def counters_ok_def)

lemma db_ok_bans [ezy_inv]: "db_ok d \<Longrightarrow> bans_ok m \<Longrightarrow> db_ok (d\<lparr>db_bans := m\<rparr>)"
  by (auto simp: db_ok_def strike_rows_def GetStrikeCount_def counters_ok_def)

lemma db_ok_allow [ezy_inv]: "db_ok d \<Longrightarrow> gm_ok m \<Longrightarrow> db_ok (d\<lparr>db_allow := m\<rparr>)"
  by (auto simp: db_ok_def strike_rows_def GetStrikeCount_def counters_ok_def)

lemma db_ok_state [ezy_inv]: "db_ok d \<Longrightarrow> gm_ok m \<Longrightarrow> db_ok (d\<lparr>db_state := m\<rparr>)"
  by (auto simp: db_ok_def strike_rows_def GetStrikeCount_def counters_ok_def)

lemma db_ok_usage [ezy_inv]: "db_ok d \<Longrightarrow> db_ok (d\<lparr>db_usage := m\<rparr>)"
  by (auto simp: db_ok_def strike_rows_def GetStrikeCount_def counters_ok_def)

lemma db_ok_upsert_offender [ezy_inv]: "db_ok d \<Longrightarrow> 0 \<le> n \<Longrightarrow> db_ok (upsert_offender ip now n d)"
proof (rule db_okI)
  fix ip'
  assume d: "db_ok d" and n: "0 \<le> n"
  from db_okD(7) [OF d, of ip'] n
  show "int (strike_rows ip' (upsert_offender ip now n d)) \<le> GetStrikeCount ip' (upsert_offender ip now n d)"
    by (auto simp: upsert_offender_def strike_rows_def GetStrikeCount_def split: option.splits)
qed (auto simp: upsert_offender_def db_ok_def counters_ok_def split: option.splits)

text \<open>A strike row may be inserted once the offender row counts it.\<close>

lemma db_ok_insert_strike [ezy_inv]:
  assumes "db_ok d" and "int (strike_rows ip d) < GetStrikeCount ip d"
  shows "db_ok (insert_strike ip now num ttl reason vs d)"
proof (rule db_okI)
  fix ip'
  show "int (strike_rows ip' (insert_strike ip now num ttl reason vs d))
      \<le> GetStrikeCount ip' (insert_strike ip now num ttl reason vs d)"
    using db_okD(7) [OF assms(1), of ip'] assms(2)
    by (auto simp: insert_strike_def strike_rows_def GetStrikeCount_def)
qed (use assms(1) in \<open>auto simp: insert_strike_def db_ok_def ids_ok_snoc counters_ok_def\<close>)

lemma strike_rows_upsert [simp]: "strike_rows ip (upsert_offender ip' now n d) = strike_rows ip d"
  by (simp add: strike_rows_def upsert_offender_def)

lemma GetStrikeCount_upsert:
  "GetStrikeCount ip (upsert_offender ip' now n d) = GetStrikeCount ip d + (if ip = ip' then n else 0)"
  by (auto simp: upsert_offender_def GetStrikeCount_def split: option.splits)

section \<open>Preservation, one lemma per operation\<close>

lemma db_ok_empty [ezy_inv]: "db_ok empty_db"
  by (simp add: db_ok_def empty_db_def bans_ok_def ids_ok_def strike_rows_def GetStrikeCount_def counters_ok_def)

lemma db_ok_RecordStrike [ezy_inv]:
  assumes "db_ok d"
  shows "db_ok (RecordStrike now now2 a d)"
proof -
  let ?d1 = "upsert_offender (ac_ip a) now 1 d"
  have "db_ok ?d1" using assms by (simp add: db_ok_upsert_offender)
  moreover have "int (strike_rows (ac_ip a) ?d1) < GetStrikeCount (ac_ip a) ?d1"
    using db_okD(7) [OF assms, of "ac_ip a"] by (simp add: GetStrikeCount_upsert)
  ultimately have "db_ok (insert_strike (ac_ip a) now num ttl reason vs ?d1)" for num ttl reason vs
    by (rule db_ok_insert_strike)
  then show ?thesis
    unfolding RecordStrike_def Let_def
    by (intro db_ok_insert_audit db_ok_bans bans_ok_set ban_row_ok_fresh db_okD(1))
qed

lemma db_ok_RecordSuppressed [ezy_inv]: "db_ok d \<Longrightarrow> db_ok (snd (RecordSuppressed now ip ag d))"
  by (auto simp: RecordSuppressed_def Let_def split: option.splits
      intro!: db_ok_bans bans_ok_set ban_row_ok_suppressed dest: db_okD(1) bans_ok_get)

lemma db_ok_MarkBanIneffective [ezy_inv]:
  assumes "db_ok d"
  shows "db_ok (snd (MarkBanIneffective ip d))"
proof (cases "gm_get (db_bans d) ip")
  case None
  then show ?thesis using assms by (simp add: MarkBanIneffective_def)
next
  case (Some r)
  let ?d1 = "d\<lparr>db_bans := gm_set ip (r\<lparr>br_ineffective_fired := True\<rparr>) (db_bans d)\<rparr>"
  have "ban_row_ok (r\<lparr>br_ineffective_fired := True\<rparr>)"
    using bans_ok_get [OF db_okD(1) [OF assms] Some] by (simp add: ban_row_ok_def)
  then have d1: "db_ok ?d1" by (intro db_ok_bans bans_ok_set assms db_okD(1))
  have "db_ok (?d1\<lparr>db_offenders := gm_set ip (q\<lparr>of_had_ineffective := True\<rparr>) (db_offenders ?d1)\<rparr>)"
    if "gm_get (db_offenders ?d1) ip = Some q" for q
  proof (rule db_okI)
    fix ip'
    show "int (strike_rows ip' (?d1\<lparr>db_offenders := gm_set ip (q\<lparr>of_had_ineffective := True\<rparr>) (db_offenders ?d1)\<rparr>))
      \<le> GetStrikeCount ip' (?d1\<lparr>db_offenders := gm_set ip (q\<lparr>of_had_ineffective := True\<rparr>) (db_offenders ?d1)\<rparr>)"
      using db_okD(7) [OF d1, of ip'] that by (auto simp: strike_rows_def GetStrikeCount_def)
  qed (use d1 in \<open>auto simp: db_ok_def counters_ok_def\<close>)
  then show ?thesis
    using assms d1 by (auto simp: MarkBanIneffective_def Some Let_def split: option.split)
qed

lemma db_ok_BumpLastSeen [ezy_inv]: "db_ok d \<Longrightarrow> db_ok (BumpLastSeen now ip d)"
  by (simp add: BumpLastSeen_def db_ok_upsert_offender)

lemma db_ok_ExpireBans [ezy_inv]:
  assumes "db_ok d"
  shows "db_ok (snd (ExpireBans now d))"
proof -
  have "db_ok (foldl (audit_expired now) d rows)" for rows
    by (rule foldl_invariant [where P = db_ok]) (auto simp: audit_expired_def assms intro: ezy_inv)
  then show ?thesis
    by (auto simp: ExpireBans_def Let_def intro!: db_ok_bans bans_ok_filter dest: db_okD(1))
qed

lemma db_ok_Unban [ezy_inv]: "db_ok d \<Longrightarrow> db_ok (Unban now ip d)"
  unfolding Unban_def by (intro db_ok_insert_audit db_ok_bans bans_ok_del db_okD(1))

lemma db_ok_RecordManualBan [ezy_inv]:
  "db_ok d \<Longrightarrow> RecordManualBan now now2 ip ttl reason dry d = Inr d' \<Longrightarrow> db_ok d'"
  by (auto simp: RecordManualBan_def Let_def ban_row_ok_fresh split: if_splits option.splits
      intro!: db_ok_insert_audit db_ok_bans bans_ok_set dest: db_okD(1))

lemma db_ok_audit_ops [ezy_inv]:
  "db_ok d \<Longrightarrow> db_ok (Audit now a d)"
  "db_ok d \<Longrightarrow> db_ok (AuditOp now opn p ttl reason d)"
  "db_ok d \<Longrightarrow> db_ok (AuditSystem now opn reason d)"
  by (simp_all add: Audit_def AuditOp_def AuditSystem_def db_ok_insert_audit)

lemma db_ok_AddAllow [ezy_inv]: "db_ok d \<Longrightarrow> db_ok (AddAllow now p e reason d)"
  unfolding AddAllow_def by (intro db_ok_allow gm_ok_set db_okD(3))

lemma db_ok_RemoveAllow [ezy_inv]: "db_ok d \<Longrightarrow> db_ok (snd (RemoveAllow p d))"
  unfolding RemoveAllow_def snd_conv by (intro db_ok_allow gm_ok_del db_okD(3))

lemma db_ok_ExpireAllows [ezy_inv]:
  assumes "db_ok d"
  shows "db_ok (snd (ExpireAllows now d))"
proof -
  have "db_ok (foldl (audit_allow_expired now) d rows)"
    for rows
    by (rule foldl_invariant [where P = db_ok]) (auto simp: audit_allow_expired_def assms intro: ezy_inv)
  then show ?thesis
    by (auto simp: ExpireAllows_def Let_def intro!: db_ok_allow gm_ok_filter dest: db_okD(3))
qed

lemma db_ok_unban_one: "db_ok d \<Longrightarrow> db_ok (unban_one now reason d ip)"
  unfolding unban_one_def by (intro db_ok_insert_audit db_ok_bans bans_ok_del db_okD(1))

lemma db_ok_UnbanCovered [ezy_inv]: "db_ok d \<Longrightarrow> db_ok (snd (UnbanCovered now p reason d))"
  by (auto simp: UnbanCovered_def Let_def db_ok_unban_one intro!: foldl_invariant [where P = db_ok])

lemma db_ok_UnbanPrefix [ezy_inv]: "db_ok d \<Longrightarrow> db_ok (snd (UnbanPrefix now p d))"
  using db_ok_UnbanCovered [of d now p "''manual unban via '' @ pfx_str (prefix_masked p)"]
  by (simp add: UnbanPrefix_def case_prod_unfold Let_def)

lemma db_ok_UnbanAll [ezy_inv]: "db_ok d \<Longrightarrow> db_ok (snd (UnbanAll now reason d))"
  unfolding UnbanAll_def Let_def snd_conv by (rule db_ok_insert_audit, rule db_ok_bans) (simp_all add: bans_ok_def)

lemma db_ok_misc [ezy_inv]:
  "db_ok d \<Longrightarrow> db_ok (RecordUsage now prov u ip d)"
  "db_ok d \<Longrightarrow> db_ok (SetState now k v d)"
  "db_ok d \<Longrightarrow> db_ok (DeleteState k d)"
  by (auto simp: RecordUsage_def SetState_def DeleteState_def intro!: db_ok_usage db_ok_state dest: db_okD(4))

section \<open>Frame and lookup facts\<close>

lemma db_insert_audit [simp]:
  "db_bans (insert_audit now opn sub ttl n reason d) = db_bans d"
  "db_offenders (insert_audit now opn sub ttl n reason d) = db_offenders d"
  "db_strikes (insert_audit now opn sub ttl n reason d) = db_strikes d"
  "db_allow (insert_audit now opn sub ttl n reason d) = db_allow d"
  "db_events (insert_audit now opn sub ttl n reason d) = db_events d"
  "db_consumed (insert_audit now opn sub ttl n reason d) = db_consumed d"
  by (simp_all add: insert_audit_def)

lemma db_bans_RecordStrike:
  "db_bans (RecordStrike now now2 a d) =
     gm_set (ac_ip a) (fresh_ban now (if ac_ttl a > 0 then Some (now2 + ac_ttl a) else None)
       (ac_strike a) (ac_reason a) (ac_op a = ''dry_ban'')) (db_bans d)"
  by (simp add: RecordStrike_def Let_def insert_strike_def upsert_offender_def)

lemma GetBanInfo_cong: "gm_get (db_bans d) ip = gm_get (db_bans d') ip \<Longrightarrow> GetBanInfo c ip d = GetBanInfo c ip d'"
  by (simp add: GetBanInfo_def)

lemma GetStrikeCount_RecordStrike:
  "GetStrikeCount ip (RecordStrike now now2 a d) = GetStrikeCount ip d + (if ip = ac_ip a then 1 else 0)"
  using GetStrikeCount_upsert [of ip "ac_ip a" now 1 d]
  by (simp add: RecordStrike_def Let_def insert_strike_def GetStrikeCount_def)

lemma max_id_fold:
  assumes "\<And>x. x \<in> set rs \<Longrightarrow> sr_id x < sr_id y" and "sr_id m < sr_id y"
  shows "foldl (\<lambda>m x. if sr_id m < sr_id x then x else m) m (rs @ [y]) = y"
proof -
  have "sr_id (foldl (\<lambda>m x. if sr_id m < sr_id x then x else m) m rs) < sr_id y"
    by (rule foldl_invariant [where P = "\<lambda>m. sr_id m < sr_id y"]) (auto simp: assms)
  then show ?thesis by simp
qed

text \<open>The row with the newest id is the last one inserted.\<close>

lemma max_strike_snoc:
  assumes "\<And>x. x \<in> set rows \<Longrightarrow> sr_id x < sr_id y"
  shows "max_strike ip (rows @ [y]) = (if sr_ip y = ip then Some y else max_strike ip rows)"
proof (cases "filter (\<lambda>r. sr_ip r = ip) rows")
  case Nil
  then show ?thesis by (simp add: max_strike_def)
next
  case (Cons r rs)
  have "set (r # rs) \<subseteq> set rows" unfolding Cons [symmetric] by auto
  then have "foldl (\<lambda>m x. if sr_id m < sr_id x then x else m) r (rs @ [y]) = y"
    using assms by (intro max_id_fold) auto
  then show ?thesis by (simp add: max_strike_def Cons)
qed

lemma LastStrike_RecordStrike:
  assumes "db_ok d"
  shows "LastStrike ip (RecordStrike now now2 a d) =
    (if ip = ac_ip a then Some (now, dur_seconds (ac_ttl a) * Second) else LastStrike ip d)"
proof -
  have "\<And>x. x \<in> set (db_strikes d) \<Longrightarrow> sr_id x < db_strike_seq d + 1"
    using db_okD(5) [OF assms] by (force simp: ids_ok_def)
  then show ?thesis
    by (auto simp: LastStrike_def RecordStrike_def Let_def insert_strike_def upsert_offender_def max_strike_snoc)
qed

section \<open>Text order against the order of instants\<close>

lemma text_less_imp: "text_less a b \<Longrightarrow> a < b + Second"
proof -
  assume "text_less a b"
  then have "a div Second \<le> b div Second" by (auto simp: text_less_def time_unix_def)
  moreover have "b div Second * Second \<le> b"
    using div_mult_mod_eq [of b Second] pos_mod_sign [of Second b] by (simp add: Second_def)
  moreover have "a < a div Second * Second + Second"
    using div_mult_mod_eq [of a Second] pos_mod_bound [of Second a] by (simp add: Second_def)
  ultimately show ?thesis by (simp add: Second_def)
qed

lemma text_less_if: "a + Second \<le> b \<Longrightarrow> text_less a b"
proof -
  assume "a + Second \<le> b"
  then have "(a + Second) div Second \<le> b div Second" by (rule zdiv_mono1) (simp add: Second_def)
  then have "a div Second < b div Second" by (simp add: Second_def)
  then show ?thesis by (simp add: text_less_def time_unix_def)
qed

text \<open>On whole seconds the two orders agree.\<close>

lemma text_less_whole:
  assumes "a mod Second = 0" and "b mod Second = 0"
  shows "text_less a b \<longleftrightarrow> a < b"
proof -
  have "a = a div Second * Second" "b = b div Second * Second"
    using assms div_mult_mod_eq [of a Second] div_mult_mod_eq [of b Second] by simp_all
  then have "a < b \<longleftrightarrow> a div Second < b div Second"
    by (metis Second_def mult_less_cancel_right_pos zero_less_numeral)
  then show ?thesis using assms by (simp add: text_less_def time_unix_def col_suffix_def)
qed

section \<open>Properties\<close>

text \<open>
  A strike is visible at once and in full: until its expiry \<open>GetBanInfo\<close>
  reports the ban with the strike's number and its simulated flag, and nothing afterwards; the
  count of its address grows by one and \<open>LastStrike\<close> is this strike; the log gains exactly one
  row, with the operation of the action; and no other address is affected.
\<close>

theorem record_strike_effect:
  assumes "db_ok d"
  shows "GetBanInfo clock ip (RecordStrike now now2 a d) =
      (if ip \<noteq> ac_ip a then GetBanInfo clock ip d
       else if 0 < ac_ttl a \<and> now2 + ac_ttl a \<le> clock then None
       else Some (now, ac_strike a, ac_op a = ''dry_ban''))
    \<and> GetStrikeCount ip (RecordStrike now now2 a d) = GetStrikeCount ip d + (if ip = ac_ip a then 1 else 0)
    \<and> LastStrike ip (RecordStrike now now2 a d) =
        (if ip = ac_ip a then Some (now, dur_seconds (ac_ttl a) * Second) else LastStrike ip d)
    \<and> (\<exists>r. db_audit (RecordStrike now now2 a d) = db_audit d @ [r] \<and> au_op r = ac_op a \<and> au_ip r = SubIP (ac_ip a))"
proof -
  have "\<exists>r. db_audit (RecordStrike now now2 a d) = db_audit d @ [r] \<and> au_op r = ac_op a \<and> au_ip r = SubIP (ac_ip a)"
    by (simp add: RecordStrike_def Let_def insert_audit_def insert_strike_def upsert_offender_def)
  moreover have "GetBanInfo clock ip (RecordStrike now now2 a d) =
      (if ip \<noteq> ac_ip a then GetBanInfo clock ip d
       else if 0 < ac_ttl a \<and> now2 + ac_ttl a \<le> clock then None
       else Some (now, ac_strike a, ac_op a = ''dry_ban''))"
    by (auto simp: GetBanInfo_def db_bans_RecordStrike fresh_ban_def)
  ultimately show ?thesis using GetStrikeCount_RecordStrike LastStrike_RecordStrike [OF assms] by simp
qed

lemma active_rows_Inr:
  "active_rows clock rows = Inr out \<Longrightarrow>
     out = List.map_filter (ban_action clock) rows \<and> (\<forall>x \<in> set rows. addr_is_valid (fst x))"
proof (induction rows arbitrary: out)
  case (Cons x rows)
  then show ?case by (cases x) (auto simp: map_filter_simps split: if_splits sum.splits option.splits)
qed (simp add: map_filter_simps)

lemma ban_action_cases:
  "ban_action clock (ip, r) = Some a \<Longrightarrow>
     ac_ip a = ip \<and> ac_strike a = br_strike r \<and> ac_op a = (if br_dry_run r then ''dry_ban'' else ''ban'')
     \<and> 0 \<le> ac_ttl a \<and> (ac_permanent a \<longleftrightarrow> ac_ttl a = 0) \<and> (ac_permanent a \<longleftrightarrow> br_expires_at r = None)"
  by (auto simp: ban_action_def zero_action_def split: option.splits if_splits)

lemma ban_action_GetBanInfo:
  "gm_get (db_bans d) ip = Some r \<Longrightarrow>
     GetBanInfo clock ip d = map_option (\<lambda>a. (br_banned_at r, br_strike r, br_dry_run r)) (ban_action clock (ip, r))"
  by (auto simp: GetBanInfo_def ban_action_def split: option.splits)

lemma set_map_filter: "set (List.map_filter f xs) = {y. \<exists>x \<in> set xs. f x = Some y}"
  by (induction xs) (auto simp: map_filter_simps split: option.splits)

text \<open>
  C32 (equivalence).  The two readers of the ban table agree at every instant: an address is
  in the list of \<open>ActiveBans\<close> exactly when \<open>GetBanInfo\<close> finds a ban for it, with the same
  strike and the same simulated flag; and a listed ban carries a positive remaining time
  unless it is permanent, so an expired row is never mistaken for a permanent ban.
\<close>

theorem active_bans_agree:
  assumes "db_ok d" and "ActiveBans clock d = Inr out"
  shows "((\<exists>a \<in> set out. ac_ip a = ip \<and> ac_strike a = n \<and> ac_op a = (if dry then ''dry_ban'' else ''ban''))
      \<longleftrightarrow> (\<exists>t. GetBanInfo clock ip d = Some (t, n, dry)))
    \<and> (\<forall>a \<in> set out. 0 \<le> ac_ttl a \<and> (ac_permanent a \<longleftrightarrow> ac_ttl a = 0))"
proof -
  have out: "set out = {a. \<exists>x \<in> set (db_bans d). ban_action clock x = Some a}"
    using active_rows_Inr [of clock "db_bans d" out] assms(2) by (simp add: ActiveBans_def set_map_filter)
  have ok: "gm_ok (db_bans d)" using db_okD(1) [OF assms(1)] by (simp add: bans_ok_def)
  have ops: "(if b then ''dry_ban'' else ''ban'') = (if c then ''dry_ban'' else ''ban'') \<longleftrightarrow> b = c" for b c :: bool
    by simp
  have "(\<exists>a \<in> set out. ac_ip a = ip \<and> ac_strike a = n \<and> ac_op a = (if dry then ''dry_ban'' else ''ban''))
      \<longleftrightarrow> (\<exists>t. GetBanInfo clock ip d = Some (t, n, dry))" (is "?L \<longleftrightarrow> ?R")
  proof
    assume ?L
    then obtain a where a: "a \<in> set out" "ac_ip a = ip" "ac_strike a = n"
      and opn: "ac_op a = (if dry then ''dry_ban'' else ''ban'')" by blast
    then obtain ip' r where r: "(ip', r) \<in> set (db_bans d)" "ban_action clock (ip', r) = Some a" using out by auto
    note c = ban_action_cases [OF r(2)]
    have dry: "br_dry_run r = dry" using c opn ops by metis
    have ip': "ip' = ip" using c a(2) by simp
    show ?R using ban_action_GetBanInfo [OF gm_in_set_get [OF ok r(1)], of clock] r(2) c a(3) dry ip' by simp
  next
    assume ?R
    then obtain r where r: "gm_get (db_bans d) ip = Some r" by (auto simp: GetBanInfo_def split: option.splits)
    with \<open>?R\<close> obtain a where a: "ban_action clock (ip, r) = Some a" "br_strike r = n" "br_dry_run r = dry"
      using ban_action_GetBanInfo [OF r, of clock] by auto
    have "a \<in> set out" using out gm_get_in_set [OF r] a(1) by blast
    then show ?L using ban_action_cases [OF a(1)] a by (intro bexI [of _ a]) simp_all
  qed
  moreover have "0 \<le> ac_ttl a \<and> (ac_permanent a \<longleftrightarrow> ac_ttl a = 0)" if "a \<in> set out" for a
  proof -
    from that out obtain ip' r where "ban_action clock (ip', r) = Some a" by auto
    from ban_action_cases [OF this] show ?thesis by blast
  qed
  ultimately show ?thesis by blast
qed

lemma foldl_audit_frame:
  assumes "\<And>d x. \<exists>opn sub ttl n reason. f d x = insert_audit now opn sub ttl n reason d"
  shows "db_bans (foldl f d xs) = db_bans d \<and> db_allow (foldl f d xs) = db_allow d
    \<and> (\<exists>rows. db_audit (foldl f d xs) = db_audit d @ rows \<and> length rows = length xs)"
proof (induction xs rule: rev_induct)
  case (snoc x xs)
  obtain opn sub ttl n reason where "f (foldl f d xs) x = insert_audit now opn sub ttl n reason (foldl f d xs)"
    using assms by blast
  with snoc show ?case by (auto simp: insert_audit_def)
qed simp

lemma audit_expired_frame:
  "db_bans (foldl (audit_expired now) d xs) = db_bans d
    \<and> (\<exists>rows. db_audit (foldl (audit_expired now) d xs) = db_audit d @ rows \<and> length rows = length xs)"
proof -
  have "\<exists>opn sub ttl n reason. audit_expired now d x = insert_audit now opn sub ttl n reason d" for d x
    unfolding audit_expired_def case_prod_unfold by blast
  then show ?thesis using foldl_audit_frame [where f = "audit_expired now" and d = d and xs = xs and now = now] by blast
qed

lemma audit_allow_expired_frame:
  "db_bans (foldl (audit_allow_expired now) d xs) = db_bans d
    \<and> db_allow (foldl (audit_allow_expired now) d xs) = db_allow d
    \<and> (\<exists>rows. db_audit (foldl (audit_allow_expired now) d xs) = db_audit d @ rows \<and> length rows = length xs)"
proof -
  have "\<exists>opn sub ttl n reason. audit_allow_expired now d x = insert_audit now opn sub ttl n reason d" for d x
    unfolding audit_allow_expired_def case_prod_unfold by blast
  then show ?thesis using foldl_audit_frame [where f = "audit_allow_expired now" and d = d and xs = xs and now = now] by blast
qed

lemma db_bans_ExpireBans: "db_bans (snd (ExpireBans now d)) = filter (\<lambda>(ip, r). \<not> ban_expired now r) (db_bans d)"
  by (simp add: ExpireBans_def Let_def audit_expired_frame)

text \<open>
  The expiry sweep removes every ban that expired at least one second before
  \<open>now\<close>, keeps unchanged every permanent ban and every ban with at least one second left, is
  exact when both instants are whole seconds, and writes one audit row per removed ban.
\<close>

theorem expire_bans_within_a_second:
  assumes "db_ok d" and "gm_get (db_bans d) ip = Some r"
  shows "(case br_expires_at r of
        None \<Rightarrow> gm_get (db_bans (snd (ExpireBans now d))) ip = Some r
      | Some e \<Rightarrow>
          gm_get (db_bans (snd (ExpireBans now d))) ip =
            (if e + Second \<le> now then None
             else if now + Second \<le> e then Some r
             else if e mod Second = 0 \<and> now mod Second = 0 then (if e < now then None else Some r)
             else gm_get (db_bans (snd (ExpireBans now d))) ip))
    \<and> int (length (db_audit (snd (ExpireBans now d)))) = int (length (db_audit d)) + fst (ExpireBans now d)"
proof -
  have ok: "gm_ok (db_bans d)" using db_okD(1) [OF assms(1)] by (simp add: bans_ok_def)
  have get: "gm_get (db_bans (snd (ExpireBans now d))) ip = (if ban_expired now r then None else Some r)"
    using gm_get_filter [OF ok, of "\<lambda>ip r. \<not> ban_expired now r" ip] assms(2) by (simp add: db_bans_ExpireBans)
  have audit: "int (length (db_audit (snd (ExpireBans now d)))) = int (length (db_audit d)) + fst (ExpireBans now d)"
    using audit_expired_frame [of now d "filter (\<lambda>(ip, r). ban_expired now r) (db_bans d)"]
    by (auto simp: ExpireBans_def Let_def)
  show ?thesis
  proof (cases "br_expires_at r")
    case None
    then show ?thesis using get audit by (simp add: ban_expired_def)
  next
    case (Some e)
    have "e + Second \<le> now \<Longrightarrow> text_less e now" "now + Second \<le> e \<Longrightarrow> \<not> text_less e now"
      using text_less_if [of e now] text_less_imp [of e now] by auto
    then show ?thesis using get audit text_less_whole [of e now] by (auto simp: ban_expired_def Some)
  qed
qed

lemma frac_digits_numeral:
  "frac_digits (numeral k) v = frac_digits (pred_numeral k) (v div 10) @ [digit_char (v mod 10)]"
  by (simp only: numeral_eq_Suc [of k] frac_digits.simps)

text \<open>
  The text comparison is not the order of instants: a ban that expires half a second after a
  whole second is removed by a sweep running at that whole second.
\<close>

theorem expire_bans_may_be_early:
  "fst (ExpireBans (5 * Second) (RecordStrike 0 0 (zero_action\<lparr>ac_ip := V4 1, ac_op := ''ban'', ac_ttl := 5500 * Millisecond\<rparr>) empty_db)) = 1
   \<and> GetBanInfo (5 * Second) (V4 1) (RecordStrike 0 0 (zero_action\<lparr>ac_ip := V4 1, ac_op := ''ban'', ac_ttl := 5500 * Millisecond\<rparr>) empty_db)
       = Some (0, 0, False)"
proof -
  have five: "digit_char 5 \<noteq> CHR ''0''" using digit_val_char [of 5] by (auto simp: digit_val_def)
  have "fmt_frac 9 500000000 \<noteq> [] \<longrightarrow> hd (fmt_frac 9 500000000) = CHR ''.''" by (simp add: fmt_frac_def Let_def)
  moreover have "fmt_frac 9 500000000 \<noteq> []"
    using five by (simp add: fmt_frac_def strip_zeros_def frac_digits_numeral dropWhile_append1 dropWhile_eq_Nil_conv Let_def)
  ultimately obtain f where f: "fmt_frac 9 500000000 = CHR ''.'' # f" by (cases "fmt_frac 9 500000000") auto
  have z: "fmt_frac 9 0 = []" by (simp add: fmt_frac_def strip_zeros_def frac_digits_numeral digit_char_zero)
  have t: "text_less (5500 * Millisecond) (5 * Second)"
    by (simp add: text_less_def time_unix_def col_suffix_def duration_units f z less_char_def)
  show ?thesis
    by (simp add: ExpireBans_def ban_expired_def db_bans_RecordStrike fresh_ban_def empty_db_def Let_def
        GetBanInfo_def zero_action_def t) (simp add: duration_units)
qed

lemma unban_one_get:
  "gm_get (db_bans (unban_one now reason d x)) ip = (if ip = x then None else gm_get (db_bans d) ip)"
  by (simp add: unban_one_def)

lemma unban_fold:
  "(\<forall>ip. gm_get (db_bans (foldl (unban_one now reason) d ips)) ip = (if ip \<in> set ips then None else gm_get (db_bans d) ip))
   \<and> (\<exists>rows. db_audit (foldl (unban_one now reason) d ips) = db_audit d @ rows
        \<and> map au_ip rows = map SubIP ips \<and> (\<forall>r \<in> set rows. au_op r = ''unban'' \<and> au_reason r = reason))"
proof (induction ips rule: rev_induct)
  case (snoc x ips)
  then obtain rows where "db_audit (foldl (unban_one now reason) d ips) = db_audit d @ rows"
    "map au_ip rows = map SubIP ips" "\<forall>r \<in> set rows. au_op r = ''unban'' \<and> au_reason r = reason" by blast
  then have "\<exists>rows'. db_audit (foldl (unban_one now reason) d (ips @ [x])) = db_audit d @ rows'
      \<and> map au_ip rows' = map SubIP (ips @ [x]) \<and> (\<forall>r \<in> set rows'. au_op r = ''unban'' \<and> au_reason r = reason)"
    by (intro exI [of _ "rows @ [last (db_audit (foldl (unban_one now reason) d (ips @ [x])))]"])
      (auto simp: unban_one_def insert_audit_def)
  moreover have "gm_get (db_bans (foldl (unban_one now reason) d (ips @ [x]))) ip
      = (if ip \<in> set (ips @ [x]) then None else gm_get (db_bans d) ip)" for ip
    using snoc by (simp add: unban_one_get)
  ultimately show ?case by blast
qed auto

text \<open>
  \<open>UnbanCovered\<close> lifts exactly the bans of the addresses the prefix covers,
  leaves every other ban as it was, returns each lifted address once, and audits exactly one
  \<open>unban\<close> per lifted address in the order returned.
\<close>

theorem unban_covered_exact:
  assumes "db_ok d" and "UnbanCovered now p reason d = (ips, d')"
  shows "(ip \<in> set ips \<longleftrightarrow> gm_get (db_bans d) ip \<noteq> None \<and> prefix_contains p ip)
    \<and> gm_get (db_bans d') ip = (if prefix_contains p ip then None else gm_get (db_bans d) ip)
    \<and> distinct ips
    \<and> (\<exists>rows. db_audit d' = db_audit d @ rows \<and> map au_ip rows = map SubIP ips
         \<and> (\<forall>r \<in> set rows. au_op r = ''unban'' \<and> au_reason r = reason))"
proof -
  let ?m = "filter (\<lambda>ip. addr_is_valid ip \<and> prefix_contains p ip) (gm_keys (db_bans d))"
  have r: "ips = ?m" "d' = foldl (unban_one now reason) d ?m"
    using assms(2) by (auto simp: UnbanCovered_def Let_def split: if_splits)
  have mem: "x \<in> set ?m \<longleftrightarrow> gm_get (db_bans d) x \<noteq> None \<and> prefix_contains p x" for x
    by (auto simp: map_of_eq_None_iff addr_is_valid_def prefix_contains_iff)
  have "distinct ?m" using db_okD(1) [OF assms(1)] by (simp add: bans_ok_def gm_ok_def)
  then show ?thesis using unban_fold [of now reason d ?m] mem [of ip] unfolding r by auto
qed

section \<open>Witnesses\<close>

definition demo_ban :: action where
  "demo_ban = zero_action\<lparr>ac_ip := V4 0x0A000001, ac_op := ''ban'', ac_ttl := Hour, ac_strike := 1\<rparr>"

definition demo_db :: db where
  "demo_db = RecordStrike 0 0 demo_ban empty_db"

lemma demo_db_ok: "db_ok demo_db"
  unfolding demo_db_def by (intro ezy_inv)

lemma demo_db_ban: "gm_get (db_bans demo_db) (V4 0x0A000001) = Some (fresh_ban 0 (Some Hour) 1 [] False)"
  by (simp add: demo_db_def db_bans_RecordStrike demo_ban_def zero_action_def duration_units)

theorem record_strike_effect_witness:
  "GetStrikeCount (V4 0x0A000001) (RecordStrike Minute Minute demo_ban demo_db) = GetStrikeCount (V4 0x0A000001) demo_db + 1"
  using record_strike_effect [OF demo_db_ok, of 0 "V4 0x0A000001" Minute Minute demo_ban] by (simp add: demo_ban_def)

theorem active_bans_agree_witness:
  "\<exists>out. ActiveBans Minute demo_db = Inr out \<and> (\<exists>a \<in> set out. ac_ip a = V4 0x0A000001 \<and> ac_strike a = 1 \<and> ac_op a = ''ban'')"
proof -
  have bans: "db_bans demo_db = [(V4 0x0A000001, fresh_ban 0 (Some Hour) 1 [] False)]"
    by (simp add: demo_db_def db_bans_RecordStrike demo_ban_def zero_action_def duration_units empty_db_def)
  obtain out where out: "ActiveBans Minute demo_db = Inr out"
    by (simp add: ActiveBans_def bans addr_is_valid_def)
  have "GetBanInfo Minute (V4 0x0A000001) demo_db = Some (0, 1, False)"
    by (simp add: GetBanInfo_def demo_db_ban fresh_ban_def duration_units)
  then show ?thesis using active_bans_agree [OF demo_db_ok out, of "V4 0x0A000001" 1 False] out by auto
qed

theorem expire_bans_within_a_second_witness:
  "gm_get (db_bans (snd (ExpireBans (2 * Hour) demo_db))) (V4 0x0A000001) = None"
  using expire_bans_within_a_second [OF demo_db_ok demo_db_ban, of "2 * Hour"]
  by (simp add: fresh_ban_def duration_units)

theorem unban_covered_exact_witness:
  "gm_get (db_bans (snd (UnbanCovered Minute (prefix_from (V4 0x0A000000) 8) ''x'' demo_db))) (V4 0x0A000001) = None"
proof -
  obtain ips d' where r: "UnbanCovered Minute (prefix_from (V4 0x0A000000) 8) ''x'' demo_db = (ips, d')" by fastforce
  have "prefix_contains (prefix_from (V4 0x0A000000) 8) (V4 0x0A000001)" by (simp add: prefix_from_def)
  then show ?thesis using unban_covered_exact [OF demo_db_ok r, of "V4 0x0A000001"] r by simp
qed

end
