(* ===== verification/Decision.thy ===== *)
theory Decision
  imports Policy Store
begin

text \<open>
  The decision engine, \<open>internal/decision\<close>: \<open>engine.go\<close> (the whole of \<open>Decide\<close> with its
  rate limit, escalation and suppression tracking, and the construction of the static
  allowlist), \<open>notifyedge.go\<close> (the rising-edge map of audit rows), \<open>manualban.go\<close> (the
  authorisation of operator bans), \<open>verifiedbot.go\<close>, \<open>diagnostics.go\<close>, and the peer cache of
  \<open>sshpeers.go\<close>.

  \<^item> The store is a parameter: a record \<open>store_ops\<close> of the nine operations of the Go interface
    \<open>decision.Store\<close>, over any state type, each of which may fail.  The locale \<open>store_contract\<close>
    (theory \<open>DecisionProps\<close>) states what the engine relies on; it is interpreted on the tables of
    theory \<open>Store\<close>, with and without driver failures.
  \<^item> What a call reads from outside (environment variable, clocks, kernel probe, CDN table, bot
    verifier, map iteration order) is the record \<open>decide_env\<close>.  The engine clock is read at
    most twice in one call; one instant stands for both readings.
  \<^item> Log lines are not modelled.  Diagnostics are: a call returns the deliveries it makes, in
    order, after the strike lock is released.
  \<^item> The per-address lock makes the section from the active-ban guard to \<open>RecordStrike\<close> atomic
    per address, so calls for one address are a sequence of whole steps.
\<close>

section \<open>Errors, reasons, interfaces\<close>

datatype decide_error =
    EmptyVerdicts
  | ErrRateLimited
  | StoreFailed string store_error
  | PanicIndex int

definition ReasonAntiLockoutSSHPeer :: string where
  "ReasonAntiLockoutSSHPeer = ''anti-lockout: active SSH peer''"

definition ReasonAntiLockoutCDNRange :: string where
  "ReasonAntiLockoutCDNRange = ''anti-lockout: shared CDN edge range''"

definition ReasonMarkCDNUnverified :: string where
  "ReasonMarkCDNUnverified = '' [cdn-ranges-unverified]''"

definition ReasonVerifiedBotSpared :: string where
  "ReasonVerifiedBotSpared = ''verified-bot spared''"

definition cdnWarnInterval :: duration where "cdnWarnInterval = 15 * Minute"

text \<open>A store operation: an error or a value, and the next state of the store.\<close>

type_synonym ('s, 'a) store_op = "'s \<Rightarrow> (store_error + 'a) \<times> 's"

record 's store_ops =
  so_get_ban_info :: "addr \<Rightarrow> ('s, (time \<times> int \<times> bool) option) store_op"
  so_record_suppressed :: "addr \<Rightarrow> bool \<Rightarrow> ('s, int \<times> int \<times> bool) store_op"
  so_mark_ban_ineffective :: "addr \<Rightarrow> ('s, bool) store_op"
  so_had_ineffective_ban :: "addr \<Rightarrow> ('s, bool) store_op"
  so_bump_last_seen :: "addr \<Rightarrow> ('s, unit) store_op"
  so_get_strike_count :: "addr \<Rightarrow> ('s, int) store_op"
  so_last_strike :: "addr \<Rightarrow> ('s, (time \<times> duration) option) store_op"
  so_record_strike :: "action \<Rightarrow> ('s, unit) store_op"
  so_audit :: "action \<Rightarrow> ('s, unit) store_op"

datatype phase = PhasePostGrace | PhaseInGrace

record ban_ineffective_diag =
  bd_ip :: addr
  bd_strike :: int
  bd_ladder_len :: int
  bd_next_rungs :: string
  bd_events_after_grace :: int
  bd_total_suppressed :: int
  bd_grace_seconds :: int
  bd_phase :: phase
  bd_events_in_grace :: int

datatype diag = BanIneffective ban_ineffective_diag | BanIneffectivePermanent addr int

section \<open>The engine and its surroundings\<close>

record engine =
  dc_policy :: policy
  dc_allow :: "pfx list"
  dc_bans_in_win :: int
  dc_window_start :: time
  dc_ssh_fetched :: time
  dc_ssh_peers :: "addr list"
  dc_cdn_warn_last :: time
  dc_notify_edges :: "(addr, string \<times> time) gomap"

text \<open>
  \<open>de_cdn\<close> is \<open>None\<close> when no CDN source is injected, and otherwise the table or the error of
  this call; \<open>de_bot\<close> is \<open>None\<close> when no verifier is injected, and otherwise its answer (the
  provider when the ban is spared); \<open>de_diag\<close> says whether a diagnostics sink is set.
\<close>

record decide_env =
  de_clock :: time
  de_wall :: time
  de_ssh_client :: string
  de_probe :: "addr list"
  de_cdn :: "(string + pfx list) option"
  de_bot :: "(addr \<Rightarrow> string option) option"
  de_diag :: bool
  de_map_order :: "addr list"

section \<open>The static allowlist\<close>

datatype allow_error =
    InvalidEntry string
  | MappedTooBroad pfx

definition NormalizePrefix :: "pfx \<Rightarrow> allow_error + pfx" where
  "NormalizePrefix p =
     (if \<not> is4in6 (pfx_ip p) then Inr p
      else if pfx_bits p < 96 then Inl (MappedTooBroad p)
      else Inr (prefix_from (unmap (pfx_ip p)) (pfx_bits p - 96)))"

definition parsePrefixOrAddr :: "string \<Rightarrow> allow_error + pfx" where
  "parsePrefixOrAddr s =
     (case parse_prefix s of
        Some p \<Rightarrow> NormalizePrefix p
      | None \<Rightarrow>
          (case parse_addr s of
             None \<Rightarrow> Inl (InvalidEntry s)
           | Some a \<Rightarrow> Inr (prefix_from (unmap a) (bit_len (unmap a)))))"

definition admin_prefix :: "string \<Rightarrow> allow_error + pfx" where
  "admin_prefix s = (case parse_prefix s of None \<Rightarrow> Inl (InvalidEntry s) | Some p \<Rightarrow> NormalizePrefix p)"

definition StaticAllowlist :: "policy \<Rightarrow> allow_error + pfx list" where
  "StaticAllowlist pol =
     (case map_res parsePrefixOrAddr (po_allowlist pol) of
        Inl e \<Rightarrow> Inl e
      | Inr ps \<Rightarrow>
          (case map_res admin_prefix (po_admin_cidrs pol) of
             Inl e \<Rightarrow> Inl e
           | Inr qs \<Rightarrow> Inr (ps @ qs)))"

text \<open>\<open>v\<close> is the value of \<open>SSH_CLIENT\<close>, the empty string when it is unset.\<close>

definition sshClientIP :: "string \<Rightarrow> addr" where
  "sshClientIP v =
     (if v = [] then NoAddr
      else case str_fields v of
             [] \<Rightarrow> NoAddr
           | f # _ \<Rightarrow> (case parse_addr f of None \<Rightarrow> NoAddr | Some ip \<Rightarrow> unmap ip))"

definition buildAllowlist :: "string \<Rightarrow> policy \<Rightarrow> allow_error + pfx list" where
  "buildAllowlist ssh_client pol =
     (case StaticAllowlist pol of
        Inl e \<Rightarrow> Inl e
      | Inr ps \<Rightarrow>
          let peer = sshClientIP ssh_client
          in Inr (if addr_is_valid peer then ps @ [prefix_from peer (bit_len peer)] else ps))"

text \<open>\<open>decision.New\<close>; the peer cache and the warning clock start at the zero time.\<close>

definition engine_new :: "string \<Rightarrow> time \<Rightarrow> policy \<Rightarrow> allow_error + engine" where
  "engine_new ssh_client now pol =
     (case buildAllowlist ssh_client pol of
        Inl e \<Rightarrow> Inl e
      | Inr allow \<Rightarrow> Inr \<lparr>dc_policy = pol, dc_allow = allow, dc_bans_in_win = 0, dc_window_start = now,
          dc_ssh_fetched = zero_time, dc_ssh_peers = [], dc_cdn_warn_last = zero_time, dc_notify_edges = []\<rparr>)"

definition isAllowlisted :: "engine \<Rightarrow> addr \<Rightarrow> bool" where
  "isAllowlisted e ip = list_ex (\<lambda>p. prefix_contains p ip) (dc_allow e)"

section \<open>Peers, CDN warning, notify edges\<close>

definition SSHPeerCacheTTL :: duration where "SSHPeerCacheTTL = 2 * Second"

definition ssh_cache_get :: "decide_env \<Rightarrow> engine \<Rightarrow> addr list \<times> engine" where
  "ssh_cache_get env e =
     (if de_wall env - dc_ssh_fetched e > SSHPeerCacheTTL
      then (de_probe env, e\<lparr>dc_ssh_peers := de_probe env, dc_ssh_fetched := de_wall env\<rparr>)
      else (dc_ssh_peers e, e))"

definition activeSSHPeers :: "decide_env \<Rightarrow> engine \<Rightarrow> addr list \<times> engine" where
  "activeSSHPeers env e =
     (let p = sshClientIP (de_ssh_client env); (ps, e') = ssh_cache_get env e
      in ((if addr_is_valid p then p # ps else ps), e'))"

definition warnCDNRangesUnavailable :: "decide_env \<Rightarrow> engine \<Rightarrow> engine" where
  "warnCDNRangesUnavailable env e =
     (if de_wall env - dc_cdn_warn_last e > cdnWarnInterval then e\<lparr>dc_cdn_warn_last := de_wall env\<rparr> else e)"

definition notifyEdgeWindow :: duration where "notifyEdgeWindow = 60 * Second"
definition notifyEdgeMaxEntries :: nat where "notifyEdgeMaxEntries = 10000"
definition notifyRuleMaxLen :: nat where "notifyRuleMaxLen = 128"

definition notifyRuleID :: "string \<Rightarrow> string" where
  "notifyRuleID reason = take notifyRuleMaxLen (before_byte (CHR '':'') reason)"

definition evictNotifyEdges :: "addr list \<Rightarrow> time \<Rightarrow> (addr, string \<times> time) gomap \<Rightarrow> (addr, string \<times> time) gomap" where
  "evictNotifyEdges order now m =
     (let live = filter (\<lambda>(ip, rule, t). \<not> now - t \<ge> notifyEdgeWindow) m
      in if length live < length m then live
         else case order of [] \<Rightarrow> m | ip # _ \<Rightarrow> gm_del ip m)"

definition notifyEdgeRising :: "addr list \<Rightarrow> addr \<Rightarrow> string \<Rightarrow> time \<Rightarrow> engine \<Rightarrow> bool \<times> engine" where
  "notifyEdgeRising order ip rule now e =
     (let m = dc_notify_edges e; prev = gm_get m ip
      in if (case prev of None \<Rightarrow> False | Some (r, t) \<Rightarrow> r = rule \<and> now - t < notifyEdgeWindow) then (False, e)
         else
           let m1 = (if prev = None \<and> length m \<ge> notifyEdgeMaxEntries then evictNotifyEdges order now m else m)
           in (True, e\<lparr>dc_notify_edges := gm_set ip (rule, now) m1\<rparr>))"

definition clearNotifyEdge :: "addr \<Rightarrow> engine \<Rightarrow> engine" where
  "clearNotifyEdge ip e = e\<lparr>dc_notify_edges := gm_del ip (dc_notify_edges e)\<rparr>"

section \<open>The rate limit\<close>

definition checkRateLimit :: "time \<Rightarrow> engine \<Rightarrow> bool \<times> engine" where
  "checkRateLimit now e =
     (let e1 = (if now - dc_window_start e > Minute then e\<lparr>dc_window_start := now, dc_bans_in_win := 0\<rparr> else e);
          e2 = e1\<lparr>dc_bans_in_win := dc_bans_in_win e1 + 1\<rparr>
      in (\<not> dc_bans_in_win e2 > po_max_bans_per_minute (dc_policy e2), e2))"

definition escalationExempt :: "'s store_ops \<Rightarrow> decide_env \<Rightarrow> engine \<Rightarrow> addr \<Rightarrow> 's \<Rightarrow> bool \<times> 's" where
  "escalationExempt ops env e ip s =
     (case so_last_strike ops ip s of
        (Inl err, s') \<Rightarrow> (False, s')
      | (Inr None, s') \<Rightarrow> (False, s')
      | (Inr (Some (recordedAt, ttl)), s') \<Rightarrow>
          (if ttl \<le> 0 then (False, s')
           else (de_clock env - (recordedAt + ttl) \<le> po_escalation_exempt_window (dc_policy e), s')))"

section \<open>Suppressed events\<close>

definition rung_str :: "duration \<Rightarrow> string" where
  "rung_str ttl = (if ttl = 0 then ''permanent'' else dur_str ttl)"

definition next_rungs :: "duration list \<Rightarrow> int \<Rightarrow> string" where
  "next_rungs strikes banStrike =
     (if banStrike < int (length strikes) then str_join '', '' (map rung_str (drop (nat banStrike) strikes))
      else ''(already at top)'')"

definition ineffective_phase :: "policy \<Rightarrow> bool \<Rightarrow> int \<Rightarrow> int \<Rightarrow> phase option" where
  "ineffective_phase pol afterGrace tot afterCount =
     (if afterGrace \<and> afterCount \<ge> po_ban_ineffective_min_events pol then Some PhasePostGrace
      else if \<not> afterGrace \<and> InGraceIneffectiveThreshold pol > 0
              \<and> tot - afterCount \<ge> InGraceIneffectiveThreshold pol then Some PhaseInGrace
      else None)"

text \<open>The result is the delivery to make after the lock is released, if any.\<close>

definition trackSuppressedEvent ::
  "'s store_ops \<Rightarrow> decide_env \<Rightarrow> engine \<Rightarrow> addr \<Rightarrow> time \<Rightarrow> int \<Rightarrow> 's \<Rightarrow> (decide_error + diag option) \<times> 's" where
  "trackSuppressedEvent ops env e ip bannedAt banStrike s =
     (let pol = dc_policy e; grace = po_ban_ineffective_grace pol; afterGrace = (de_clock env - bannedAt \<ge> grace)
      in case so_record_suppressed ops ip afterGrace s of
           (Inl err, s1) \<Rightarrow> (Inr None, s1)
         | (Inr (tot, afterCount, fired), s1) \<Rightarrow>
             if \<not> IsArmed pol \<or> fired then (Inr None, s1)
             else
               (case ineffective_phase pol afterGrace tot afterCount of
                  None \<Rightarrow> (Inr None, s1)
                | Some ph \<Rightarrow>
                    (case so_mark_ban_ineffective ops ip s1 of
                       (Inl err, s2) \<Rightarrow> (Inr None, s2)
                     | (Inr newlyFired, s2) \<Rightarrow>
                         if \<not> newlyFired then (Inr None, s2)
                         else if banStrike < 0 then (Inl (PanicIndex banStrike), s2)
                         else if \<not> de_diag env then (Inr None, s2)
                         else (Inr (Some (BanIneffective
                            \<lparr>bd_ip = ip, bd_strike = banStrike, bd_ladder_len = int (length (po_strikes pol)),
                             bd_next_rungs = next_rungs (po_strikes pol) banStrike,
                             bd_events_after_grace = afterCount, bd_total_suppressed = tot,
                             bd_grace_seconds = dur_seconds grace, bd_phase = ph,
                             bd_events_in_grace = tot - afterCount\<rparr>)), s2))))"

section \<open>Decide\<close>

type_synonym 's decision = "(decide_error + action) \<times> diag list \<times> engine \<times> 's"

text \<open>The first verdict with the highest score.\<close>

definition best_verdict :: "verdict \<Rightarrow> verdict list \<Rightarrow> verdict" where
  "best_verdict v vs = foldl (\<lambda>b v. if vd_score v > vd_score b then v else b) v vs"

definition plain_action :: "addr \<Rightarrow> string \<Rightarrow> string \<Rightarrow> verdict list \<Rightarrow> action" where
  "plain_action ip opn reason verdicts =
     zero_action\<lparr>ac_ip := ip, ac_op := opn, ac_reason := reason, ac_verdicts := verdicts\<rparr>"

text \<open>Audit an action and return it; a failing audit is only logged.\<close>

definition audited :: "'s store_ops \<Rightarrow> engine \<Rightarrow> action \<Rightarrow> 's \<Rightarrow> 's decision" where
  "audited ops e act s = (Inr act, [], e, snd (so_audit ops act s))"

definition ban_reason :: "verdict \<Rightarrow> bool \<Rightarrow> string" where
  "ban_reason best cdnUnverified =
     ''score='' @ int_str (vd_score best) @ '' category='' @ vd_category best @ '' source='' @ vd_source best
     @ (if cdnUnverified then ReasonMarkCDNUnverified else [])"

definition strike_index :: "policy \<Rightarrow> int \<Rightarrow> int" where
  "strike_index pol nextStrike =
     (let idx = nextStrike - 1 in
      if idx \<ge> int (length (po_strikes pol)) then int (length (po_strikes pol)) - 1 else idx)"

definition ban_action_of :: "policy \<Rightarrow> addr \<Rightarrow> int \<Rightarrow> duration \<Rightarrow> string \<Rightarrow> verdict list \<Rightarrow> action" where
  "ban_action_of pol ip nextStrike ttl reason verdicts =
     \<lparr>ac_ip = ip, ac_op = (if IsArmed pol then ''ban'' else ''dry_ban''), ac_ttl = ttl, ac_permanent = (ttl = 0),
      ac_strike = nextStrike, ac_reason = reason, ac_verdicts = verdicts\<rparr>"

definition rate_gate :: "'s store_ops \<Rightarrow> decide_env \<Rightarrow> engine \<Rightarrow> addr \<Rightarrow> int \<Rightarrow> 's \<Rightarrow> bool \<times> engine \<times> 's" where
  "rate_gate ops env e ip nextStrike s =
     (if nextStrike > 1 then
        (case escalationExempt ops env e ip s of
           (True, s1) \<Rightarrow> (True, e, s1)
         | (False, s1) \<Rightarrow> (case checkRateLimit (de_clock env) e of (ok, e1) \<Rightarrow> (ok, e1, s1)))
      else (case checkRateLimit (de_clock env) e of (ok, e1) \<Rightarrow> (ok, e1, s)))"

definition permanent_alert :: "'s store_ops \<Rightarrow> decide_env \<Rightarrow> addr \<Rightarrow> int \<Rightarrow> duration \<Rightarrow> 's \<Rightarrow> diag list \<times> 's" where
  "permanent_alert ops env ip nextStrike ttl s =
     (if ttl = 0 then
        (case so_had_ineffective_ban ops ip s of
           (Inr True, s1) \<Rightarrow> ((if de_diag env then [BanIneffectivePermanent ip nextStrike] else []), s1)
         | (r, s1) \<Rightarrow> ([], s1))
      else ([], s))"

text \<open>From the strike count to \<open>RecordStrike\<close>.  An index outside the ladder is Go's panic.\<close>

definition strike_path ::
  "'s store_ops \<Rightarrow> decide_env \<Rightarrow> engine \<Rightarrow> addr \<Rightarrow> verdict \<Rightarrow> verdict list \<Rightarrow> bool \<Rightarrow> 's \<Rightarrow> 's decision" where
  "strike_path ops env e ip best verdicts cdnUnverified s =
     (case so_get_strike_count ops ip s of
        (Inl err, s1) \<Rightarrow> (Inl (StoreFailed ''GetStrikeCount'' err), [], e, s1)
      | (Inr existing, s1) \<Rightarrow>
          let nextStrike = existing + 1; idx = strike_index (dc_policy e) nextStrike
          in if idx < 0 then (Inl (PanicIndex idx), [], e, s1)
             else
               let ttl = po_strikes (dc_policy e) ! nat idx;
                   act = ban_action_of (dc_policy e) ip nextStrike ttl (ban_reason best cdnUnverified) verdicts
               in (case rate_gate ops env e ip nextStrike s1 of
                     (False, e2, s2) \<Rightarrow> (Inl ErrRateLimited, [], e2, s2)
                   | (True, e2, s2) \<Rightarrow>
                       (case permanent_alert ops env ip nextStrike ttl s2 of
                          (diags, s3) \<Rightarrow>
                            (case so_record_strike ops act s3 of
                               (Inl err, s4) \<Rightarrow> (Inl (StoreFailed ''RecordStrike'' err), diags, e2, s4)
                             | (Inr u, s4) \<Rightarrow> (Inr act, diags, clearNotifyEdge ip e2, s4)))))"

definition suppress_path ::
  "'s store_ops \<Rightarrow> decide_env \<Rightarrow> engine \<Rightarrow> addr \<Rightarrow> time \<Rightarrow> int \<Rightarrow> bool \<Rightarrow> verdict list \<Rightarrow> 's \<Rightarrow> 's decision" where
  "suppress_path ops env e ip bannedAt banStrike dryBan verdicts s =
     (let reason = (if dryBan then ''active simulated ban (dry-run)'' else ''active ban in bans_active'')
      in case trackSuppressedEvent ops env e ip bannedAt banStrike s of
           (Inl err, s1) \<Rightarrow> (Inl err, [], e, s1)
         | (Inr deliver, s1) \<Rightarrow>
             (Inr (plain_action ip ''already_banned'' reason verdicts),
              (case deliver of None \<Rightarrow> [] | Some d \<Rightarrow> [d]), e, snd (so_bump_last_seen ops ip s1)))"

text \<open>The active-ban guard; a failing read falls through to the strike path.\<close>

definition ban_path ::
  "'s store_ops \<Rightarrow> decide_env \<Rightarrow> engine \<Rightarrow> addr \<Rightarrow> verdict \<Rightarrow> verdict list \<Rightarrow> bool \<Rightarrow> 's \<Rightarrow> 's decision" where
  "ban_path ops env e ip best verdicts cdnUnverified s =
     (case so_get_ban_info ops ip s of
        (Inl err, s1) \<Rightarrow> strike_path ops env e ip best verdicts cdnUnverified s1
      | (Inr None, s1) \<Rightarrow> strike_path ops env e ip best verdicts cdnUnverified s1
      | (Inr (Some (bannedAt, banStrike, dryBan)), s1) \<Rightarrow>
          if IsArmed (dc_policy e) \<and> dryBan then strike_path ops env e ip best verdicts cdnUnverified s1
          else suppress_path ops env e ip bannedAt banStrike dryBan verdicts s1)"

definition notify_path ::
  "'s store_ops \<Rightarrow> decide_env \<Rightarrow> engine \<Rightarrow> addr \<Rightarrow> verdict \<Rightarrow> verdict list \<Rightarrow> 's \<Rightarrow> 's decision" where
  "notify_path ops env e ip best verdicts s =
     (let act = plain_action ip ''notify_only'' (vd_reason best) verdicts
      in case notifyEdgeRising (de_map_order env) ip (notifyRuleID (vd_reason best)) (de_clock env) e of
           (False, e1) \<Rightarrow> (Inr act, [], e1, s)
         | (True, e1) \<Rightarrow>
             (case so_audit ops act s of
                (Inl err, s1) \<Rightarrow> (Inr act, [], clearNotifyEdge ip e1, s1)
              | (Inr u, s1) \<Rightarrow> (Inr act, [], e1, s1)))"

text \<open>The bands below the ban threshold, the verified-bot guard, and the ban path.\<close>

definition score_path ::
  "'s store_ops \<Rightarrow> decide_env \<Rightarrow> engine \<Rightarrow> addr \<Rightarrow> verdict \<Rightarrow> verdict list \<Rightarrow> bool \<Rightarrow> 's \<Rightarrow> 's decision" where
  "score_path ops env e ip best verdicts cdnUnverified s =
     (if vd_score best < po_observe_threshold (dc_policy e)
      then audited ops e (plain_action ip ''record'' (vd_reason best) verdicts) s
      else if vd_score best < po_ban_threshold (dc_policy e) then notify_path ops env e ip best verdicts s
      else case (case de_bot env of None \<Rightarrow> None | Some verify \<Rightarrow> verify ip) of
             Some provider \<Rightarrow>
               audited ops e (plain_action ip ''record'' (ReasonVerifiedBotSpared @ '': '' @ provider) verdicts) s
           | None \<Rightarrow> ban_path ops env e ip best verdicts cdnUnverified s)"

definition cdn_path ::
  "'s store_ops \<Rightarrow> decide_env \<Rightarrow> engine \<Rightarrow> addr \<Rightarrow> verdict \<Rightarrow> verdict list \<Rightarrow> 's \<Rightarrow> 's decision" where
  "cdn_path ops env e ip best verdicts s =
     (case de_cdn env of
        None \<Rightarrow> score_path ops env e ip best verdicts False s
      | Some (Inl err) \<Rightarrow> score_path ops env (warnCDNRangesUnavailable env e) ip best verdicts True s
      | Some (Inr ranges) \<Rightarrow>
          if list_ex (\<lambda>p. prefix_contains p ip) ranges
          then audited ops e (plain_action ip ''record'' ReasonAntiLockoutCDNRange verdicts) s
          else score_path ops env e ip best verdicts False s)"

fun Decide :: "'s store_ops \<Rightarrow> decide_env \<Rightarrow> verdict list \<Rightarrow> engine \<Rightarrow> 's \<Rightarrow> 's decision" where
  "Decide ops env [] e s = (Inl EmptyVerdicts, [], e, s)"
| "Decide ops env (v # vs) e s =
     (let best = best_verdict v vs; ip = unmap (vd_ip best)
      in if isAllowlisted e ip then audited ops e (plain_action ip ''record'' ''allowlisted'' (v # vs)) s
         else case activeSSHPeers env e of
                (peers, e1) \<Rightarrow>
                  if ip \<in> set peers
                  then audited ops e1 (plain_action ip ''record'' ReasonAntiLockoutSSHPeer (v # vs)) s
                  else cdn_path ops env e1 ip best (v # vs) s)"

section \<open>Manual bans\<close>

datatype manual_error =
    ManualNormalize allow_error
  | ErrManualBanAllowlisted pfx
  | ErrManualBanSSHPeer addr
  | ErrManualBanCDNRange pfx
  | ErrManualBanCDNUnverified
  | ManualRateLimited

definition find_first :: "('a \<Rightarrow> bool) \<Rightarrow> 'a list \<Rightarrow> 'a option" where
  "find_first P xs = (case dropWhile (\<lambda>x. \<not> P x) xs of [] \<Rightarrow> None | x # _ \<Rightarrow> Some x)"

definition manual_rate :: "decide_env \<Rightarrow> engine \<Rightarrow> (manual_error + unit) \<times> engine" where
  "manual_rate env e =
     (case checkRateLimit (de_clock env) e of (ok, e1) \<Rightarrow> (if ok then Inr () else Inl ManualRateLimited, e1))"

definition AuthorizeManualBan ::
  "decide_env \<Rightarrow> pfx \<Rightarrow> bool \<Rightarrow> addr list \<Rightarrow> engine \<Rightarrow> (manual_error + unit) \<times> engine" where
  "AuthorizeManualBan env target0 force peers e =
     (case NormalizePrefix target0 of
        Inl err \<Rightarrow> (Inl (ManualNormalize err), e)
      | Inr target \<Rightarrow>
          (case find_first (\<lambda>p. prefix_overlaps p target) (dc_allow e) of
             Some p \<Rightarrow> (Inl (ErrManualBanAllowlisted p), e)
           | None \<Rightarrow>
               (case activeSSHPeers env e of
                  (own, e1) \<Rightarrow>
                    (case find_first (prefix_contains target) own of
                       Some peer \<Rightarrow> (Inl (ErrManualBanSSHPeer peer), e1)
                     | None \<Rightarrow>
                         (case find_first (\<lambda>a. addr_is_valid a \<and> prefix_contains target a) (map unmap peers) of
                            Some peer \<Rightarrow> (Inl (ErrManualBanSSHPeer peer), e1)
                          | None \<Rightarrow>
                              (case de_cdn env of
                                 None \<Rightarrow> manual_rate env e1
                               | Some src \<Rightarrow>
                                   if force then manual_rate env e1
                                   else (case src of
                                           Inl err \<Rightarrow> (Inl ErrManualBanCDNUnverified, warnCDNRangesUnavailable env e1)
                                         | Inr ranges \<Rightarrow>
                                             (case find_first (\<lambda>p. prefix_overlaps p target) ranges of
                                                Some p \<Rightarrow> (Inl (ErrManualBanCDNRange p), e1)
                                              | None \<Rightarrow> manual_rate env e1))))))))"

end
