(* ===== verification/DecisionProps.thy ===== *)
theory DecisionProps
  imports Decision
begin

text \<open>
  Properties of the decision engine.  What holds for any store (guards, bands, dry-run) is
  proved on the definitions alone; what rests on the store is proved once in the locale
  \<open>store_contract\<close> and obtained for the tables of theory \<open>Store\<close>, under any schedule of driver
  failures, through the interpretation \<open>store\<close>.
\<close>

section \<open>The choice of the verdict\<close>

lemma best_verdict_max: "vd_score (best_verdict v vs) = Max (vd_score ` set (v # vs)) \<and> best_verdict v vs \<in> set (v # vs)"
proof (induction vs rule: rev_induct)
  case Nil
  then show ?case by (simp add: best_verdict_def)
next
  case (snoc x vs)
  let ?b = "best_verdict v vs"
  have step: "best_verdict v (vs @ [x]) = (if vd_score x > vd_score ?b then x else ?b)"
    by (simp add: best_verdict_def)
  have top: "vd_score ?b = Max (vd_score ` set (v # vs))" and mem: "?b \<in> set (v # vs)" using snoc by auto
  have "vd_score ` set (v # vs @ [x]) = insert (vd_score x) (vd_score ` set (v # vs))" by auto
  also have "Max \<dots> = max (vd_score x) (Max (vd_score ` set (v # vs)))" by (rule Max_insert) simp_all
  finally have "Max (vd_score ` set (v # vs @ [x])) = max (vd_score x) (vd_score ?b)" by (simp only: top)
  moreover have "vd_score (best_verdict v (vs @ [x])) = max (vd_score x) (vd_score ?b)"
    unfolding step by (simp split: if_split)
  moreover have "best_verdict v (vs @ [x]) \<in> set (v # vs @ [x])" unfolding step using mem by auto
  ultimately show ?case by simp
qed

section \<open>Outcomes of the paths, for any store\<close>

lemma strike_path_outcome:
  assumes "strike_path ops env e ip best verdicts unv s = (Inr act, ds, e', s')"
  shows "\<exists>n. 0 \<le> strike_index (dc_policy e) n \<and>
    act = ban_action_of (dc_policy e) ip n (po_strikes (dc_policy e) ! nat (strike_index (dc_policy e) n))
      (ban_reason best unv) verdicts"
  using assms
  by (auto simp: strike_path_def Let_def split: prod.splits sum.splits if_splits bool.splits)
    (rule exI, rule conjI, erule linorder_not_less [THEN iffD1], rule refl)

lemma ban_path_outcome:
  assumes "ban_path ops env e ip best verdicts unv s = (Inr act, ds, e', s')"
  shows "ac_ip act = ip \<and> ac_op act \<in> {''already_banned'', (if IsArmed (dc_policy e) then ''ban'' else ''dry_ban'')}"
proof -
  have "ac_ip act = ip \<and> ac_op act = (if IsArmed (dc_policy e) then ''ban'' else ''dry_ban'')"
    if "strike_path ops env e ip best verdicts unv s1 = (Inr act, ds, e', s')" for s1
    using strike_path_outcome [OF that] by (auto simp: ban_action_of_def)
  moreover have "ac_ip act = ip \<and> ac_op act = ''already_banned''"
    if "suppress_path ops env e ip t n b verdicts s1 = (Inr act, ds, e', s')" for t n b s1
    using that by (auto simp: suppress_path_def plain_action_def split: prod.splits sum.splits)
  ultimately show ?thesis
    using assms by (auto simp: ban_path_def split: prod.splits sum.splits option.splits if_splits)
qed

text \<open>What \<open>score_path\<close> returns, band by band.\<close>

lemma score_path_outcome:
  assumes "score_path ops env e ip best verdicts unv s = (Inr act, ds, e', s')"
  shows "ac_ip act = ip \<and>
    (vd_score best < po_observe_threshold (dc_policy e) \<and> ac_op act = ''record''
     \<or> \<not> vd_score best < po_observe_threshold (dc_policy e) \<and> vd_score best < po_ban_threshold (dc_policy e)
        \<and> ac_op act = ''notify_only''
     \<or> \<not> vd_score best < po_observe_threshold (dc_policy e) \<and> \<not> vd_score best < po_ban_threshold (dc_policy e)
        \<and> ac_op act \<in> {''record'', ''already_banned'', (if IsArmed (dc_policy e) then ''ban'' else ''dry_ban'')})"
proof (cases "vd_score best < po_observe_threshold (dc_policy e)")
  case True
  then show ?thesis using assms by (auto simp: score_path_def audited_def plain_action_def)
next
  case low: False
  show ?thesis
  proof (cases "vd_score best < po_ban_threshold (dc_policy e)")
    case True
    then show ?thesis
      using assms low by (auto simp: score_path_def notify_path_def plain_action_def Let_def split: prod.splits sum.splits bool.splits)
  next
    case high: False
    show ?thesis
    proof (cases "case de_bot env of None \<Rightarrow> None | Some verify \<Rightarrow> verify ip")
      case None
      then have "ban_path ops env e ip best verdicts unv s = (Inr act, ds, e', s')"
        using assms low high by (simp add: score_path_def)
      from ban_path_outcome [OF this] show ?thesis using low high by blast
    next
      case (Some provider)
      then have "ac_ip act = ip \<and> ac_op act = ''record''"
        using assms low high by (auto simp: score_path_def audited_def plain_action_def)
      then show ?thesis using low high by blast
    qed
  qed
qed

lemma warn_frame [simp]:
  "dc_policy (warnCDNRangesUnavailable env e) = dc_policy e"
  "dc_allow (warnCDNRangesUnavailable env e) = dc_allow e"
  by (simp_all add: warnCDNRangesUnavailable_def)

lemma peers_frame:
  "dc_policy (snd (activeSSHPeers env e)) = dc_policy e"
  "dc_allow (snd (activeSSHPeers env e)) = dc_allow e"
  by (simp_all add: activeSSHPeers_def ssh_cache_get_def Let_def split: prod.split)

text \<open>The address a call is about, and whether a guard protects it.\<close>

definition decided_ip :: "verdict list \<Rightarrow> addr" where
  "decided_ip vs = unmap (vd_ip (best_verdict (hd vs) (tl vs)))"

definition cdn_covers :: "decide_env \<Rightarrow> addr \<Rightarrow> bool" where
  "cdn_covers env ip \<longleftrightarrow>
     (case de_cdn env of Some (Inr ranges) \<Rightarrow> list_ex (\<lambda>p. prefix_contains p ip) ranges | _ \<Rightarrow> False)"

definition protected :: "decide_env \<Rightarrow> engine \<Rightarrow> addr \<Rightarrow> bool" where
  "protected env e ip \<longleftrightarrow> isAllowlisted e ip \<or> ip \<in> set (fst (activeSSHPeers env e)) \<or> cdn_covers env ip"

text \<open>A protected address is recorded and audited, and nothing else is read or written.\<close>

lemma Decide_protected:
  assumes "protected env e (decided_ip (v # vs))"
  shows "\<exists>reason e'. Decide ops env (v # vs) e s =
    audited ops e' (plain_action (decided_ip (v # vs)) ''record'' reason (v # vs)) s"
  using assms
  by (auto simp: protected_def decided_ip_def cdn_covers_def cdn_path_def Let_def split: prod.splits option.splits sum.splits)

text \<open>An unprotected one goes to the score bands.\<close>

lemma Decide_unprotected:
  assumes "\<not> protected env e (decided_ip (v # vs))"
  shows "\<exists>e1 unv. Decide ops env (v # vs) e s =
      score_path ops env e1 (decided_ip (v # vs)) (best_verdict v vs) (v # vs) unv s
    \<and> dc_policy e1 = dc_policy e \<and> dc_allow e1 = dc_allow e"
proof -
  obtain peers e1 where p: "activeSSHPeers env e = (peers, e1)" by fastforce
  have fr: "dc_policy e1 = dc_policy e" "dc_allow e1 = dc_allow e" using peers_frame [of env e] p by simp_all
  have "Decide ops env (v # vs) e s = cdn_path ops env e1 (decided_ip (v # vs)) (best_verdict v vs) (v # vs) s"
    using assms p by (simp add: protected_def decided_ip_def Let_def)
  also have "\<exists>e2 unv. \<dots> = score_path ops env e2 (decided_ip (v # vs)) (best_verdict v vs) (v # vs) unv s
      \<and> dc_policy e2 = dc_policy e \<and> dc_allow e2 = dc_allow e"
  proof (cases "de_cdn env")
    case None
    then show ?thesis using fr by (auto simp: cdn_path_def)
  next
    case (Some src)
    then show ?thesis
      using assms fr warn_frame [of env e1]
      by (cases src) (auto simp: cdn_path_def protected_def cdn_covers_def simp del: warn_frame)
  qed
  finally show ?thesis .
qed

text \<open>
  C4 (safety).  Whatever the store does or fails to do, an address covered by the static
  allowlist, or equal to an active SSH peer, or inside a shared CDN range, gets the outcome
  \<open>record\<close>: \<open>Decide\<close> then makes exactly one store call, the audit, so no strike, ban,
  suppression or notification can result from it.
\<close>

theorem decide_never_bans_protected:
  assumes "vs \<noteq> []" and "protected env e (decided_ip vs)"
  shows "\<exists>reason e'. Decide ops env vs e s =
    (Inr (plain_action (decided_ip vs) ''record'' reason vs), [], e',
     snd (so_audit ops (plain_action (decided_ip vs) ''record'' reason vs) s))"
  using assms Decide_protected by (cases vs) (auto simp: audited_def)

lemma Decide_outcome:
  assumes "Decide ops env (v # vs) e s = (Inr act, ds, e', s')"
  shows "ac_ip act = decided_ip (v # vs) \<and>
    (protected env e (decided_ip (v # vs)) \<and> ac_op act = ''record'' \<or>
     \<not> protected env e (decided_ip (v # vs)) \<and>
      (vd_score (best_verdict v vs) < po_observe_threshold (dc_policy e) \<and> ac_op act = ''record''
       \<or> \<not> vd_score (best_verdict v vs) < po_observe_threshold (dc_policy e)
          \<and> vd_score (best_verdict v vs) < po_ban_threshold (dc_policy e) \<and> ac_op act = ''notify_only''
       \<or> \<not> vd_score (best_verdict v vs) < po_observe_threshold (dc_policy e)
          \<and> \<not> vd_score (best_verdict v vs) < po_ban_threshold (dc_policy e)
          \<and> ac_op act \<in> {''record'', ''already_banned'', (if IsArmed (dc_policy e) then ''ban'' else ''dry_ban'')}))"
proof (cases "protected env e (decided_ip (v # vs))")
  case True
  from Decide_protected [OF this, of ops s] assms
  show ?thesis using True by (auto simp: audited_def plain_action_def simp del: Decide.simps)
next
  case False
  from Decide_unprotected [OF this, of ops s] obtain e1 unv where
    "score_path ops env e1 (decided_ip (v # vs)) (best_verdict v vs) (v # vs) unv s = (Inr act, ds, e', s')"
    and "dc_policy e1 = dc_policy e" using assms by auto
  from score_path_outcome [OF this(1)] this(2) show ?thesis using False by simp
qed

text \<open>
  What the bands say of a call, read off the highest score: \<open>spared\<close> is the verified-bot guard,
  \<open>suppressing\<close> an active ban that the current mode enforces.
\<close>

definition spared :: "decide_env \<Rightarrow> addr \<Rightarrow> bool" where
  "spared env ip \<longleftrightarrow> (case de_bot env of None \<Rightarrow> False | Some verify \<Rightarrow> verify ip \<noteq> None)"

definition suppressing :: "'s store_ops \<Rightarrow> policy \<Rightarrow> addr \<Rightarrow> 's \<Rightarrow> bool" where
  "suppressing ops pol ip s \<longleftrightarrow>
     (case fst (so_get_ban_info ops ip s) of Inr (Some (t, n, dry)) \<Rightarrow> \<not> (IsArmed pol \<and> dry) | _ \<Rightarrow> False)"

definition top_band :: "'s store_ops \<Rightarrow> policy \<Rightarrow> addr \<Rightarrow> 's \<Rightarrow> string" where
  "top_band ops pol ip s =
     (if suppressing ops pol ip s then ''already_banned'' else if IsArmed pol then ''ban'' else ''dry_ban'')"

definition band_outcome :: "'s store_ops \<Rightarrow> decide_env \<Rightarrow> engine \<Rightarrow> verdict list \<Rightarrow> 's \<Rightarrow> string" where
  "band_outcome ops env e vs s =
     (let m = Max (vd_score ` set vs); ip = decided_ip vs
      in if protected env e ip \<or> m < po_observe_threshold (dc_policy e) then ''record''
         else if m < po_ban_threshold (dc_policy e) then ''notify_only''
         else if spared env ip then ''record''
         else top_band ops (dc_policy e) ip s)"

lemma strike_path_band:
  "case fst (strike_path ops env e ip best verdicts unv s) of
     Inl err \<Rightarrow> True
   | Inr act \<Rightarrow> ac_op act = (if IsArmed (dc_policy e) then ''ban'' else ''dry_ban'')"
  by (auto simp: strike_path_def Let_def ban_action_of_def split: prod.splits sum.splits bool.splits)

lemma suppress_path_band:
  "case fst (suppress_path ops env e ip t n b verdicts s) of
     Inl err \<Rightarrow> True | Inr act \<Rightarrow> ac_op act = ''already_banned''"
  by (auto simp: suppress_path_def plain_action_def split: prod.splits sum.splits)

lemma ban_path_band:
  "case fst (ban_path ops env e ip best verdicts unv s) of
     Inl err \<Rightarrow> True | Inr act \<Rightarrow> ac_op act = top_band ops (dc_policy e) ip s"
proof (cases "so_get_ban_info ops ip s")
  case (Pair r s1)
  have st: "case fst (strike_path ops env e ip best verdicts unv s1) of
      Inl err \<Rightarrow> True | Inr act \<Rightarrow> ac_op act = (if IsArmed (dc_policy e) then ''ban'' else ''dry_ban'')"
    by (rule strike_path_band)
  show ?thesis
  proof (cases r)
    case (Inl err)
    then show ?thesis using st Pair by (auto simp: ban_path_def top_band_def suppressing_def split: sum.splits)
  next
    case (Inr found)
    show ?thesis
    proof (cases found)
      case None
      then show ?thesis using st Pair Inr by (auto simp: ban_path_def top_band_def suppressing_def split: sum.splits)
    next
      case (Some x)
      obtain t n b where x: "x = (t, n, b)" by (cases x) auto
      have su: "case fst (suppress_path ops env e ip t n b verdicts s1) of
          Inl err \<Rightarrow> True | Inr act \<Rightarrow> ac_op act = ''already_banned''"
        by (rule suppress_path_band)
      show ?thesis
        using st su Pair Inr Some x
        by (cases "IsArmed (dc_policy e) \<and> b") (auto simp: ban_path_def top_band_def suppressing_def split: sum.splits)
    qed
  qed
qed

lemma notify_path_band:
  "\<exists>act. fst (notify_path ops env e ip best verdicts s) = Inr act \<and> ac_op act = ''notify_only''"
  by (auto simp: notify_path_def plain_action_def Let_def split: prod.splits sum.splits bool.splits)

lemma score_path_band:
  "case fst (score_path ops env e ip best verdicts unv s) of
     Inl err \<Rightarrow> \<not> vd_score best < po_observe_threshold (dc_policy e) \<and> \<not> vd_score best < po_ban_threshold (dc_policy e)
       \<and> \<not> spared env ip
   | Inr act \<Rightarrow> ac_op act =
       (if vd_score best < po_observe_threshold (dc_policy e) then ''record''
        else if vd_score best < po_ban_threshold (dc_policy e) then ''notify_only''
        else if spared env ip then ''record'' else top_band ops (dc_policy e) ip s)"
proof (cases "vd_score best < po_observe_threshold (dc_policy e)")
  case True
  then show ?thesis by (simp add: score_path_def audited_def plain_action_def)
next
  case low: False
  show ?thesis
  proof (cases "vd_score best < po_ban_threshold (dc_policy e)")
    case True
    with notify_path_band [of ops env e ip best verdicts s] low show ?thesis by (auto simp: score_path_def)
  next
    case high: False
    show ?thesis
    proof (cases "case de_bot env of None \<Rightarrow> None | Some verify \<Rightarrow> verify ip")
      case None
      then have "score_path ops env e ip best verdicts unv s = ban_path ops env e ip best verdicts unv s"
        and "\<not> spared env ip"
        using low high by (auto simp: score_path_def spared_def split: option.splits)
      then show ?thesis
        using ban_path_band [where ops = ops and env = env and e = e and ip = ip and best = best and verdicts = verdicts and unv = unv and s = s] low high by (simp split: sum.splits)
    next
      case (Some provider)
      then have "spared env ip" by (auto simp: spared_def split: option.splits)
      then show ?thesis using Some low high by (simp add: score_path_def audited_def plain_action_def)
    qed
  qed
qed

lemma Decide_address:
  assumes "Decide ops env vs e s = (Inr act, ds, e', s')"
  shows "ac_ip act = decided_ip vs"
proof (cases vs)
  case Nil
  then show ?thesis using assms by simp
next
  case (Cons v ws)
  from Decide_outcome [OF assms [unfolded Cons]] show ?thesis unfolding Cons by (rule conjunct1)
qed

text \<open>
  C17 (functional).  The score bands decide the outcome, and nothing else does.  An action
  \<open>Decide\<close> returns has operation \<open>record\<close> exactly when the address is protected (allowlist, SSH
  peer, CDN range), the highest score among the verdicts is below the observe threshold, or the
  score reaches the ban threshold and the verified-bot guard names a provider; \<open>notify_only\<close>
  exactly in the band between the thresholds; \<open>already_banned\<close> exactly in the top band under an
  active ban the mode enforces; and otherwise \<open>ban\<close> when the policy is armed, \<open>dry_ban\<close> when it is
  not.  It is about the unmapped address of the highest verdict, and \<open>Decide\<close> can return an error
  only in the top band.
\<close>

theorem decide_bands:
  assumes "vs \<noteq> []"
  shows "case fst (Decide ops env vs e s) of
      Inr act \<Rightarrow> ac_op act = band_outcome ops env e vs s
        \<and> ac_ip act = decided_ip vs \<and> \<not> is4in6 (ac_ip act)
    | Inl err \<Rightarrow> \<not> protected env e (decided_ip vs) \<and> \<not> spared env (decided_ip vs)
        \<and> po_observe_threshold (dc_policy e) \<le> Max (vd_score ` set vs)
        \<and> po_ban_threshold (dc_policy e) \<le> Max (vd_score ` set vs)"
proof -
  obtain v ws where vs: "vs = v # ws" using assms by (cases vs) auto
  have m: "Max (vd_score ` set vs) = vd_score (best_verdict v ws)"
    using best_verdict_max [of v ws] vs by simp
  have ip: "\<not> is4in6 (decided_ip vs)" by (simp add: decided_ip_def)
  have addr: "ac_ip act = decided_ip vs" if "fst (Decide ops env vs e s) = Inr act" for act
    using that Decide_address by (metis prod.collapse)
  show ?thesis
  proof (cases "protected env e (decided_ip vs)")
    case True
    with Decide_protected [of env e v ws ops s] vs obtain reason e1 where
      "Decide ops env vs e s = audited ops e1 (plain_action (decided_ip vs) ''record'' reason vs) s" by auto
    then show ?thesis using True ip by (simp add: audited_def plain_action_def band_outcome_def)
  next
    case False
    with Decide_unprotected [of env e v ws ops s] vs obtain e1 unv where
      d: "Decide ops env vs e s = score_path ops env e1 (decided_ip vs) (best_verdict v ws) vs unv s"
      and "dc_policy e1 = dc_policy e" by auto
    then show ?thesis
      using score_path_band [where ops = ops and env = env and e = e1 and ip = "decided_ip vs" and best = "best_verdict v ws"
        and verdicts = vs and unv = unv and s = s] False ip addr
      by (auto simp: band_outcome_def Let_def m split: sum.splits if_splits)
  qed
qed

section \<open>The store interface\<close>

text \<open>
  What the engine relies on.  \<open>cnt\<close> and \<open>banned\<close> are the two views of the store the
  decision depends on: the strike count and the active ban of an address.  An operation that
  fails changes neither; a read returns the view; only \<open>RecordStrike\<close> changes them.
\<close>

definition same_views :: "('s \<Rightarrow> addr \<Rightarrow> int) \<Rightarrow> ('s \<Rightarrow> addr \<Rightarrow> (time \<times> int \<times> bool) option) \<Rightarrow> 's \<Rightarrow> 's \<Rightarrow> bool" where
  "same_views cnt banned s s' \<longleftrightarrow> cnt s' = cnt s \<and> banned s' = banned s"

definition struck :: "('s \<Rightarrow> addr \<Rightarrow> int) \<Rightarrow> ('s \<Rightarrow> addr \<Rightarrow> (time \<times> int \<times> bool) option) \<Rightarrow> action \<Rightarrow> 's \<Rightarrow> 's \<Rightarrow> bool" where
  "struck cnt banned a s s' \<longleftrightarrow> cnt s' = (cnt s)(ac_ip a := cnt s (ac_ip a) + 1)
     \<and> (\<exists>t. banned s' = (banned s)(ac_ip a \<mapsto> (t, ac_strike a, ac_op a = ''dry_ban'')))"

locale store_contract =
  fixes ops :: "'s store_ops"
    and cnt :: "'s \<Rightarrow> addr \<Rightarrow> int"
    and banned :: "'s \<Rightarrow> addr \<Rightarrow> (time \<times> int \<times> bool) option"
  assumes get_ban_info: "so_get_ban_info ops ip s = (r, s') \<Longrightarrow>
      same_views cnt banned s s' \<and> (\<forall>x. r = Inr x \<longrightarrow> x = banned s ip)"
    and get_strike_count: "so_get_strike_count ops ip s = (r2, s') \<Longrightarrow>
      same_views cnt banned s s' \<and> (\<forall>n. r2 = Inr n \<longrightarrow> n = cnt s ip)"
    and record_suppressed: "same_views cnt banned s (snd (so_record_suppressed ops ip ag s))"
    and mark_ban_ineffective: "same_views cnt banned s (snd (so_mark_ban_ineffective ops ip s))"
    and had_ineffective_ban: "same_views cnt banned s (snd (so_had_ineffective_ban ops ip s))"
    and bump_last_seen: "same_views cnt banned s (snd (so_bump_last_seen ops ip s))"
    and last_strike: "same_views cnt banned s (snd (so_last_strike ops ip s))"
    and audit: "same_views cnt banned s (snd (so_audit ops a s))"
    and record_strike: "so_record_strike ops a s = (r3, s') \<Longrightarrow>
      (case r3 of Inl err \<Rightarrow> same_views cnt banned s s' | Inr u \<Rightarrow> struck cnt banned a s s')"
begin

abbreviation same :: "'s \<Rightarrow> 's \<Rightarrow> bool" where
  "same \<equiv> same_views cnt banned"

lemma same_refl [simp]: "same s s"
  by (simp add: same_views_def)

lemma same_trans [trans]: "same s s1 \<Longrightarrow> same s1 s2 \<Longrightarrow> same s s2"
  by (simp add: same_views_def)

lemma struck_after_same: "same s s1 \<Longrightarrow> struck cnt banned a s1 s2 \<Longrightarrow> struck cnt banned a s s2"
  by (simp add: same_views_def struck_def)

lemma rate_gate_same: "rate_gate ops env e ip n s = (ok, e', s') \<Longrightarrow> same s s'"
  using last_strike [of s ip]
  by (auto simp: rate_gate_def escalationExempt_def split: if_splits prod.splits sum.splits option.splits bool.splits)

lemma permanent_alert_same: "permanent_alert ops env ip n ttl s = (ds, s') \<Longrightarrow> same s s'"
  using had_ineffective_ban [of s ip]
  by (auto simp: permanent_alert_def split: if_splits prod.splits sum.splits bool.splits)

lemma trackSuppressed_same:
  "same s (snd (trackSuppressedEvent ops env e ip t n s))"
proof -
  obtain r s1 where 1: "so_record_suppressed ops ip (de_clock env - t \<ge> po_ban_ineffective_grace (dc_policy e)) s = (r, s1)"
    by fastforce
  have s1: "same s s1" using record_suppressed [of s ip "de_clock env - t \<ge> po_ban_ineffective_grace (dc_policy e)"] 1 by simp
  obtain r2 s2 where 2: "so_mark_ban_ineffective ops ip s1 = (r2, s2)" by fastforce
  have s2: "same s s2" using mark_ban_ineffective [of s1 ip] s1 2 same_trans by simp
  show ?thesis
    using 1 2 s1 s2 unfolding trackSuppressedEvent_def Let_def
    by (simp split: sum.split prod.split option.split)
qed

lemma strike_path_spec:
  assumes "strike_path ops env e ip best verdicts unv s = (r, ds, e', s')"
  shows "case r of Inl err \<Rightarrow> same s s'
    | Inr act \<Rightarrow> struck cnt banned act s s' \<and> 0 \<le> strike_index (dc_policy e) (cnt s ip + 1)
        \<and> act = ban_action_of (dc_policy e) ip (cnt s ip + 1)
            (po_strikes (dc_policy e) ! nat (strike_index (dc_policy e) (cnt s ip + 1))) (ban_reason best unv) verdicts"
proof -
  obtain c s1 where c: "so_get_strike_count ops ip s = (c, s1)" by fastforce
  note g = get_strike_count [OF c]
  show ?thesis
  proof (cases c)
    case (Inl err)
    then show ?thesis using assms c g by (auto simp: strike_path_def)
  next
    case (Inr n)
    then have n: "n = cnt s ip" using g by simp
    let ?idx = "strike_index (dc_policy e) (cnt s ip + 1)"
    let ?ttl = "po_strikes (dc_policy e) ! nat ?idx"
    let ?act = "ban_action_of (dc_policy e) ip (cnt s ip + 1) ?ttl (ban_reason best unv) verdicts"
    show ?thesis
    proof (cases "?idx < 0")
      case True
      then have "strike_path ops env e ip best verdicts unv s = (Inl (PanicIndex ?idx), [], e, s1)"
        using c Inr n by (simp add: strike_path_def Let_def)
      then show ?thesis using assms g by simp
    next
      case idx: False
      obtain ok e2 s2 where rg: "rate_gate ops env e ip (cnt s ip + 1) s1 = (ok, e2, s2)" by (metis prod_cases3)
      obtain dd s3 where pa: "permanent_alert ops env ip (cnt s ip + 1) ?ttl s2 = (dd, s3)" by fastforce
      obtain rs s4 where rs: "so_record_strike ops ?act s3 = (rs, s4)" by fastforce
      have s2: "same s s2" using g rate_gate_same [OF rg] same_trans by blast
      have s3: "same s s3" using s2 permanent_alert_same [OF pa] same_trans by blast
      show ?thesis
      proof (cases ok)
        case False
        then show ?thesis using assms c Inr n idx rg s2 by (simp add: strike_path_def Let_def) auto
      next
        case True
        show ?thesis
        proof (cases rs)
          case err: (Inl x)
          have "same s s4" using record_strike [OF rs] err s3 same_trans by auto
          then show ?thesis using assms c Inr n idx rg True pa rs err by (simp add: strike_path_def Let_def) auto
        next
          case stored: (Inr u)
          have "struck cnt banned ?act s s4" using record_strike [OF rs] stored s3 struck_after_same by auto
          then show ?thesis using assms c Inr n idx rg True pa rs stored by (simp add: strike_path_def Let_def) auto
        qed
      qed
    qed
  qed
qed

text \<open>A call either strikes its address exactly once or leaves both views alone.\<close>

definition effect_ok :: "engine \<Rightarrow> addr \<Rightarrow> 's \<Rightarrow> decide_error + action \<Rightarrow> 's \<Rightarrow> bool" where
  "effect_ok e ip s r s' \<longleftrightarrow>
     (case r of Inl err \<Rightarrow> same s s'
      | Inr act \<Rightarrow>
          if ac_op act \<in> {''ban'', ''dry_ban''} then
            struck cnt banned act s s' \<and> 0 \<le> strike_index (dc_policy e) (cnt s ip + 1)
            \<and> ac_ip act = ip \<and> ac_strike act = cnt s ip + 1
            \<and> ac_ttl act = po_strikes (dc_policy e) ! nat (strike_index (dc_policy e) (cnt s ip + 1))
            \<and> ac_permanent act = (ac_ttl act = 0)
          else same s s')"

lemma effect_ok_policy: "dc_policy e1 = dc_policy e2 \<Longrightarrow> effect_ok e1 ip s r s' = effect_ok e2 ip s r s'"
  by (simp only: effect_ok_def)

lemma effect_ok_strike: "strike_path ops env e ip best verdicts unv s = (r, ds, e', s') \<Longrightarrow> effect_ok e ip s r s'"
  using strike_path_spec [of env e ip best verdicts unv s r ds e' s']
  by (cases r) (auto simp: effect_ok_def ban_action_of_def)

lemma effect_ok_after_same: "same s s1 \<Longrightarrow> effect_ok e ip s1 r s' \<Longrightarrow> effect_ok e ip s r s'"
  by (auto simp: effect_ok_def same_views_def struck_def split: sum.splits if_splits)

lemma effect_ok_plain: "same s s' \<Longrightarrow> opn \<notin> {''ban'', ''dry_ban''} \<Longrightarrow> effect_ok e ip s (Inr (plain_action ip' opn reason vs)) s'"
  by (simp add: effect_ok_def plain_action_def)

lemma suppress_effect:
  "suppress_path ops env e ip t n b verdicts s = (r, ds, e', s') \<Longrightarrow> effect_ok e2 ip s r s'"
proof -
  assume run: "suppress_path ops env e ip t n b verdicts s = (r, ds, e', s')"
  obtain tr s1 where tr: "trackSuppressedEvent ops env e ip t n s = (tr, s1)" by fastforce
  have s1: "same s s1" using trackSuppressed_same [of s env e ip t n] tr by simp
  show ?thesis
  proof (cases tr)
    case (Inl err)
    then show ?thesis using run tr s1 by (auto simp: suppress_path_def effect_ok_def)
  next
    case (Inr deliver)
    have "same s (snd (so_bump_last_seen ops ip s1))" using s1 bump_last_seen same_trans by blast
    then show ?thesis using run tr Inr by (auto simp: suppress_path_def intro!: effect_ok_plain)
  qed
qed

lemma ban_path_effect:
  assumes "ban_path ops env e ip best verdicts unv s = (r, ds, e', s')"
  shows "effect_ok e ip s r s'"
proof -
  obtain g s1 where g: "so_get_ban_info ops ip s = (g, s1)" by fastforce
  have s1: "same s s1" using get_ban_info [OF g] by blast
  have "effect_ok e ip s1 r s'"
    using assms g suppress_effect effect_ok_strike
    by (auto simp: ban_path_def split: sum.splits option.splits if_splits)
  with s1 show ?thesis by (rule effect_ok_after_same)
qed

lemma score_path_effect:
  assumes "score_path ops env e ip best verdicts unv s = (r, ds, e', s')"
  shows "effect_ok e ip s r s'"
proof -
  have aud: "effect_ok e ip s r s'" if "audited ops e (plain_action ip ''record'' reason verdicts) s = (r, ds, e', s')" for reason
    using that audit by (auto simp: audited_def intro!: effect_ok_plain)
  have notif: "effect_ok e ip s r s'" if "notify_path ops env e ip best verdicts s = (r, ds, e', s')"
  proof -
    have "same s (snd (so_audit ops a s))" for a by (rule audit)
    then have a: "so_audit ops a s = (x, s2) \<Longrightarrow> same s s2" for a x s2 by (metis snd_conv)
    show ?thesis
      using that by (auto simp: notify_path_def Let_def split: prod.splits sum.splits bool.splits intro!: effect_ok_plain dest: a)
  qed
  show ?thesis
    using assms aud notif ban_path_effect [of env e ip best verdicts unv s r ds e' s']
    by (auto simp: score_path_def split: if_splits option.splits)
qed

lemma Decide_effect:
  assumes "Decide ops env (v # vs) e s = (r, ds, e', s')"
  shows "effect_ok e (decided_ip (v # vs)) s r s'"
proof (cases "protected env e (decided_ip (v # vs))")
  case True
  from Decide_protected [OF this, of ops s] assms show ?thesis
    using audit by (auto simp: audited_def simp del: Decide.simps intro!: effect_ok_plain)
next
  case False
  from Decide_unprotected [OF this, of ops s] obtain e1 unv where
    "score_path ops env e1 (decided_ip (v # vs)) (best_verdict v vs) (v # vs) unv s = (r, ds, e', s')"
    and "dc_policy e1 = dc_policy e" using assms by auto
  from effect_ok_policy [OF this(2)] score_path_effect [OF this(1)] show ?thesis by simp
qed

end

section \<open>The store of the daemon\<close>

text \<open>
  The tables of theory \<open>Store\<close> behind the interface, at the instant \<open>c\<close> of a call.  The first
  component of the state is the schedule of driver failures: \<open>True\<close> makes the next operation
  fail with its transaction rolled back; an exhausted schedule means no more failures.
\<close>

type_synonym fstore = "bool list \<times> db"

definition faulty :: "(db \<Rightarrow> 'a \<times> db) \<Rightarrow> (fstore, 'a) store_op" where
  "faulty f = (\<lambda>(fs, d). if fs \<noteq> [] \<and> hd fs then (Inl (StDriver ''database error''), (tl fs, d))
     else (Inr (fst (f d)), (tl fs, snd (f d))))"

definition db_ops :: "time \<Rightarrow> fstore store_ops" where
  "db_ops c = \<lparr>so_get_ban_info = (\<lambda>ip. faulty (\<lambda>d. (GetBanInfo c ip d, d))),
     so_record_suppressed = (\<lambda>ip ag. faulty (RecordSuppressed c ip ag)),
     so_mark_ban_ineffective = (\<lambda>ip. faulty (MarkBanIneffective ip)),
     so_had_ineffective_ban = (\<lambda>ip. faulty (\<lambda>d. (HadIneffectiveBan ip d, d))),
     so_bump_last_seen = (\<lambda>ip. faulty (\<lambda>d. ((), BumpLastSeen c ip d))),
     so_get_strike_count = (\<lambda>ip. faulty (\<lambda>d. (GetStrikeCount ip d, d))),
     so_last_strike = (\<lambda>ip. faulty (\<lambda>d. (LastStrike ip d, d))),
     so_record_strike = (\<lambda>a. faulty (\<lambda>d. ((), RecordStrike c c a d))),
     so_audit = (\<lambda>a. faulty (\<lambda>d. ((), Audit c a d)))\<rparr>"

lemma views_suppressed:
  "GetStrikeCount ip' (snd (RecordSuppressed c ip ag d)) = GetStrikeCount ip' d"
  "GetBanInfo c' ip' (snd (RecordSuppressed c ip ag d)) = GetBanInfo c' ip' d"
  by (auto simp: RecordSuppressed_def GetStrikeCount_def GetBanInfo_def Let_def count_suppressed_def rearm_row_def
      split: option.split)

lemma views_mark:
  "GetStrikeCount ip' (snd (MarkBanIneffective ip d)) = GetStrikeCount ip' d"
  "GetBanInfo c' ip' (snd (MarkBanIneffective ip d)) = GetBanInfo c' ip' d"
  by (auto simp: MarkBanIneffective_def GetStrikeCount_def GetBanInfo_def Let_def split: option.split)

lemma views_bump:
  "GetStrikeCount ip' (BumpLastSeen c ip d) = GetStrikeCount ip' d"
  "GetBanInfo c' ip' (BumpLastSeen c ip d) = GetBanInfo c' ip' d"
  by (auto simp: BumpLastSeen_def GetStrikeCount_upsert) (simp add: upsert_offender_def GetBanInfo_def)

lemma views_audit:
  "GetStrikeCount ip' (Audit c a d) = GetStrikeCount ip' d"
  "GetBanInfo c' ip' (Audit c a d) = GetBanInfo c' ip' d"
  by (simp_all add: Audit_def GetStrikeCount_def GetBanInfo_def)

lemma views_strike:
  "(\<lambda>ip. GetStrikeCount ip (RecordStrike c c a d)) = (\<lambda>ip. GetStrikeCount ip d)(ac_ip a := GetStrikeCount (ac_ip a) d + 1)"
  "(\<lambda>ip. GetBanInfo c ip (RecordStrike c c a d)) = (\<lambda>ip. GetBanInfo c ip d)(ac_ip a \<mapsto> (c, ac_strike a, ac_op a = ''dry_ban''))"
  by (auto simp: GetStrikeCount_RecordStrike GetBanInfo_def db_bans_RecordStrike fresh_ban_def fun_eq_iff)

interpretation store: store_contract "db_ops c" "\<lambda>s ip. GetStrikeCount ip (snd s)" "\<lambda>s ip. GetBanInfo c ip (snd s)" for c
proof
  show "so_record_strike (db_ops c) a s = (r3, s') \<Longrightarrow>
      (case r3 of Inl err \<Rightarrow> same_views (\<lambda>s ip. GetStrikeCount ip (snd s)) (\<lambda>s ip. GetBanInfo c ip (snd s)) s s'
       | Inr u \<Rightarrow> struck (\<lambda>s ip. GetStrikeCount ip (snd s)) (\<lambda>s ip. GetBanInfo c ip (snd s)) a s s')" for a s s' r3
    by (auto simp: db_ops_def faulty_def same_views_def struck_def views_strike split: prod.splits if_splits)
qed (auto simp: db_ops_def faulty_def same_views_def views_suppressed views_mark views_bump views_audit
    split: prod.splits if_splits)

lemma decide_strikes_at:
  assumes "Decide (db_ops c) env vs e (fs, d) = (r, ds, e', (fs', d'))"
  shows "case r of
      Inr act \<Rightarrow>
        if ac_op act \<in> {''ban'', ''dry_ban''} then
          ac_ip act = decided_ip vs \<and> ac_strike act = GetStrikeCount (ac_ip act) d + 1
          \<and> ac_ttl act = po_strikes (dc_policy e) ! nat (strike_index (dc_policy e) (ac_strike act))
          \<and> ac_permanent act = (ac_ttl act = 0)
          \<and> (\<forall>ip. GetStrikeCount ip d' = GetStrikeCount ip d + (if ip = ac_ip act then 1 else 0))
          \<and> (\<exists>t. \<forall>ip. GetBanInfo c ip d' =
               (if ip = ac_ip act then Some (t, ac_strike act, ac_op act = ''dry_ban'') else GetBanInfo c ip d))
        else (\<forall>ip. GetStrikeCount ip d' = GetStrikeCount ip d \<and> GetBanInfo c ip d' = GetBanInfo c ip d)
    | Inl err \<Rightarrow> (\<forall>ip. GetStrikeCount ip d' = GetStrikeCount ip d \<and> GetBanInfo c ip d' = GetBanInfo c ip d)"
proof (cases vs)
  case Nil
  then show ?thesis using assms by auto
next
  case (Cons v ws)
  have eff: "store.effect_ok c e (decided_ip vs) (fs, d) r (fs', d')"
    using store.Decide_effect [OF assms [unfolded Cons]] Cons by simp
  show ?thesis
  proof (cases r)
    case (Inl err)
    then show ?thesis using eff by (simp add: store.effect_ok_def same_views_def fun_eq_iff)
  next
    case (Inr act)
    show ?thesis
    proof (cases "ac_op act \<in> {''ban'', ''dry_ban''}")
      case True
      then have a: "struck (\<lambda>s ip. GetStrikeCount ip (snd s)) (\<lambda>s ip. GetBanInfo c ip (snd s)) act (fs, d) (fs', d')"
        "ac_ip act = decided_ip vs" "ac_strike act = GetStrikeCount (decided_ip vs) d + 1"
        "ac_ttl act = po_strikes (dc_policy e) ! nat (strike_index (dc_policy e) (GetStrikeCount (decided_ip vs) d + 1))"
        "ac_permanent act = (ac_ttl act = 0)"
        using eff Inr unfolding store.effect_ok_def by simp_all
      then show ?thesis using Inr True by (auto simp: struck_def fun_eq_iff)
    next
      case False
      then have "same_views (\<lambda>s ip. GetStrikeCount ip (snd s)) (\<lambda>s ip. GetBanInfo c ip (snd s)) (fs, d) (fs', d')"
        using eff Inr unfolding store.effect_ok_def by simp
      then show ?thesis using Inr False by (simp add: same_views_def fun_eq_iff)
    qed
  qed
qed

text \<open>
  C12 (functional).  One call of \<open>Decide\<close> against the store, under any driver failures.  When
  it returns a ban or a simulated ban, exactly one strike was recorded: the strike count of
  the address grew by one, the action carries that number, the rung of the ladder it selects
  and \<open>permanent\<close> exactly for the rung without expiry, and the ban is active from this instant;
  no other address changes.  When it returns anything else, an error included, no strike
  count and no ban of any address changes.
\<close>

theorem decide_strikes_exactly_once:
  assumes "Decide (db_ops c) env vs e (fs, d) = (r, ds, e', (fs', d'))"
  shows "case r of
      Inr act \<Rightarrow>
        if ac_op act \<in> {''ban'', ''dry_ban''} then
          ac_ip act = decided_ip vs \<and> ac_strike act = GetStrikeCount (ac_ip act) d + 1
          \<and> ac_ttl act = po_strikes (dc_policy e) ! nat (strike_index (dc_policy e) (ac_strike act))
          \<and> ac_permanent act = (ac_ttl act = 0)
          \<and> (\<forall>ip. GetStrikeCount ip d' = GetStrikeCount ip d + (if ip = ac_ip act then 1 else 0))
          \<and> (\<exists>t. \<forall>ip. GetBanInfo c ip d' =
               (if ip = ac_ip act then Some (t, ac_strike act, ac_op act = ''dry_ban'') else GetBanInfo c ip d))
        else (\<forall>ip. GetStrikeCount ip d' = GetStrikeCount ip d \<and> GetBanInfo c ip d' = GetBanInfo c ip d)
    | Inl err \<Rightarrow> (\<forall>ip. GetStrikeCount ip d' = GetStrikeCount ip d \<and> GetBanInfo c ip d' = GetBanInfo c ip d)"
  using decide_strikes_at [OF assms] .

section \<open>The ladder never runs out\<close>

lemma strike_index_bounds:
  assumes "po_strikes pol \<noteq> []" and "1 \<le> n"
  shows "strike_index pol n = min (n - 1) (int (length (po_strikes pol)) - 1)" and "0 \<le> strike_index pol n"
    and "nat (strike_index pol n) < length (po_strikes pol)"
  using assms by (auto simp: strike_index_def Let_def min_def length_greater_0_conv [symmetric] simp del: length_greater_0_conv)

definition ban_strikes_ok :: "db \<Rightarrow> bool" where
  "ban_strikes_ok d \<longleftrightarrow> (\<forall>(ip, r) \<in> set (db_bans d). 0 \<le> br_strike r)"

lemma GetBanInfo_strike: "ban_strikes_ok d \<Longrightarrow> GetBanInfo c ip d = Some (t, n, b) \<Longrightarrow> 0 \<le> n"
  by (auto simp: ban_strikes_ok_def GetBanInfo_def split: option.splits if_splits dest!: gm_get_in_set)

lemma track_no_panic:
  "0 \<le> n \<Longrightarrow> fst (trackSuppressedEvent ops env e ip t n s) \<noteq> Inl (PanicIndex i)"
  by (simp add: trackSuppressedEvent_def Let_def split: sum.split prod.split option.split)

lemma strike_path_panic:
  assumes "fst (strike_path ops env e ip best verdicts unv s) = Inl (PanicIndex i)"
  shows "\<exists>n s1. so_get_strike_count ops ip s = (Inr n, s1) \<and> strike_index (dc_policy e) (n + 1) < 0"
proof -
  obtain r s1 where r: "so_get_strike_count ops ip s = (r, s1)" by fastforce
  show ?thesis
    using assms by (cases r) (auto simp: strike_path_def r Let_def split: prod.splits sum.splits bool.splits if_splits)
qed

lemma strike_path_no_panic:
  assumes "po_strikes (dc_policy e) \<noteq> []" and "0 \<le> GetStrikeCount ip d"
  shows "fst (strike_path (db_ops c) env e ip best verdicts unv (fs, d)) \<noteq> Inl (PanicIndex i)"
proof
  assume "fst (strike_path (db_ops c) env e ip best verdicts unv (fs, d)) = Inl (PanicIndex i)"
  from strike_path_panic [OF this] obtain n s1 where
    n: "so_get_strike_count (db_ops c) ip (fs, d) = (Inr n, s1)"
    and neg: "strike_index (dc_policy e) (n + 1) < 0" by (elim exE conjE)
  have "n = GetStrikeCount ip d" using store.get_strike_count [OF n] by simp
  then show False using neg strike_index_bounds(2) [OF assms(1), of "n + 1"] assms(2) by simp
qed

text \<open>
  C18 (termination).  With the policy that loading guarantees and a well-formed store, no call
  of \<open>Decide\<close> indexes the strike ladder out of range, and a recorded strike uses rung
  \<open>min (count, length - 1)\<close>: repeated offenders stay on the last rung for ever.
\<close>

theorem ladder_total:
  assumes "po_strikes (dc_policy e) \<noteq> []" and "db_ok d" and "ban_strikes_ok d"
    and "Decide (db_ops c) env vs e (fs, d) = (r, ds, e', (fs', d'))"
  shows "r \<noteq> Inl (PanicIndex i) \<and>
    (\<forall>act. r = Inr act \<and> ac_op act \<in> {''ban'', ''dry_ban''} \<longrightarrow>
       ac_ttl act = po_strikes (dc_policy e) !
         min (nat (GetStrikeCount (ac_ip act) d)) (length (po_strikes (dc_policy e)) - 1))"
proof -
  have nn: "0 \<le> GetStrikeCount ip d" for ip using db_okD(7) [OF assms(2), of ip] by simp
  have panic: "r \<noteq> Inl (PanicIndex i)"
  proof (cases vs)
    case Nil
    then show ?thesis using assms(4) by auto
  next
    case (Cons v ws)
    show ?thesis
    proof (cases "protected env e (decided_ip (v # ws))")
      case True
      from Decide_protected [OF this, of "db_ops c" "(fs, d)"] assms(4) Cons show ?thesis
        by (auto simp: audited_def simp del: Decide.simps)
    next
      case False
      from Decide_unprotected [OF this, of "db_ops c" "(fs, d)"] obtain e1 unv where
        run: "score_path (db_ops c) env e1 (decided_ip (v # ws)) (best_verdict v ws) (v # ws) unv (fs, d) = (r, ds, e', (fs', d'))"
        and pol: "dc_policy e1 = dc_policy e" using assms(4) Cons by auto
      let ?ip = "decided_ip (v # ws)"
      have strike: "fst (strike_path (db_ops c) env e1 ?ip best verdicts unv (f, d)) \<noteq> Inl (PanicIndex i)" for best verdicts f
        by (rule strike_path_no_panic) (simp_all add: pol assms(1) nn)
      have suppress: "fst (suppress_path (db_ops c) env e1 ?ip t n b verdicts (f, d)) \<noteq> Inl (PanicIndex i)"
        if "GetBanInfo c ?ip d = Some (t, n, b)" for t n b verdicts f
        using track_no_panic [OF GetBanInfo_strike [OF assms(3) that], of "db_ops c" env e1 ?ip t "(f, d)" i]
        by (auto simp: suppress_path_def split: prod.split sum.split)
      have ban: "fst (ban_path (db_ops c) env e1 ?ip best verdicts unv (fs, d)) \<noteq> Inl (PanicIndex i)" for best verdicts
        using strike suppress
        by (auto simp: ban_path_def db_ops_def [of c, THEN arg_cong [where f = so_get_ban_info]] faulty_def split: option.split)
      have "fst (score_path (db_ops c) env e1 ?ip (best_verdict v ws) (v # ws) unv (fs, d)) \<noteq> Inl (PanicIndex i)"
        using ban by (auto simp: score_path_def audited_def notify_path_def Let_def split: option.split prod.split sum.split bool.split)
      then show ?thesis using run by simp
    qed
  qed
  have ttl: "ac_ttl act = po_strikes (dc_policy e) !
      min (nat (GetStrikeCount (ac_ip act) d)) (length (po_strikes (dc_policy e)) - 1)"
    if act: "r = Inr act" "ac_op act \<in> {''ban'', ''dry_ban''}" for act
  proof -
    from decide_strikes_at [OF assms(4)] act
    have "ac_strike act = GetStrikeCount (ac_ip act) d + 1"
      "ac_ttl act = po_strikes (dc_policy e) ! nat (strike_index (dc_policy e) (ac_strike act))" by simp_all
    moreover have "nat (strike_index (dc_policy e) (GetStrikeCount (ac_ip act) d + 1))
        = min (nat (GetStrikeCount (ac_ip act) d)) (length (po_strikes (dc_policy e)) - 1)"
      using strike_index_bounds(1) [OF assms(1), of "GetStrikeCount (ac_ip act) d + 1"] nn [of "ac_ip act"] assms(1)
      by (cases "po_strikes (dc_policy e)") (auto simp: min_def)
    ultimately show ?thesis by simp
  qed
  from panic ttl show ?thesis by blast
qed

section \<open>An active ban absorbs offences\<close>


section \<open>The rate limit\<close>

fun rate_run :: "time list \<Rightarrow> engine \<Rightarrow> bool list" where
  "rate_run [] e = []"
| "rate_run (t # ts) e = (case checkRateLimit t e of (ok, e') \<Rightarrow> ok # rate_run ts e')"

definition admitted :: "time list \<Rightarrow> engine \<Rightarrow> int" where
  "admitted ts e = int (length (filter id (rate_run ts e)))"

definition rate_cap :: "engine \<Rightarrow> int" where
  "rate_cap e = po_max_bans_per_minute (dc_policy e)"

lemma admitted_Cons:
  "admitted (t # ts) e = (if fst (checkRateLimit t e) then 1 else 0) + admitted ts (snd (checkRateLimit t e))"
  by (simp add: admitted_def split: prod.split)

lemma rate_cap_step [simp]: "rate_cap (snd (checkRateLimit t e)) = rate_cap e"
  by (simp add: rate_cap_def checkRateLimit_def Let_def)

text \<open>Within one window, what is still admitted is at most the rest of the budget.\<close>

lemma admitted_same_window:
  assumes "\<forall>t \<in> set ts. t - dc_window_start e \<le> Minute" and "0 \<le> rate_cap e"
  shows "admitted ts e \<le> max 0 (rate_cap e - dc_bans_in_win e)"
  using assms
proof (induction ts arbitrary: e)
  case Nil
  then show ?case by (simp add: admitted_def)
next
  case (Cons t ts)
  let ?e = "snd (checkRateLimit t e)"
  have e: "dc_window_start ?e = dc_window_start e" "dc_bans_in_win ?e = dc_bans_in_win e + 1"
      "fst (checkRateLimit t e) = (dc_bans_in_win e + 1 \<le> rate_cap e)"
    using Cons.prems by (auto simp: checkRateLimit_def Let_def rate_cap_def)
  have "admitted ts ?e \<le> max 0 (rate_cap ?e - dc_bans_in_win ?e)"
    using Cons.prems by (intro Cons.IH) (simp_all add: e)
  then show ?case using e by (simp add: admitted_Cons max_def split: if_splits)
qed

lemma admitted_one_reset:
  assumes "sorted ts" and "\<forall>t \<in> set ts. a \<le> t \<and> t \<le> a + Minute" and "0 \<le> rate_cap e" and "0 \<le> dc_bans_in_win e"
  shows "admitted ts e \<le> max 0 (rate_cap e - dc_bans_in_win e) + rate_cap e"
  using assms
proof (induction ts arbitrary: e)
  case Nil
  then show ?case by (simp add: admitted_def)
next
  case (Cons t ts)
  let ?e = "snd (checkRateLimit t e)"
  show ?case
  proof (cases "t - dc_window_start e > Minute")
    case True
    then have e: "dc_window_start ?e = t" "dc_bans_in_win ?e = 1" "fst (checkRateLimit t e) = (1 \<le> rate_cap e)"
      by (auto simp: checkRateLimit_def Let_def rate_cap_def)
    have "admitted ts ?e \<le> max 0 (rate_cap ?e - dc_bans_in_win ?e)"
      using Cons.prems by (intro admitted_same_window) (auto simp: e)
    then show ?thesis using e Cons.prems(3) by (simp add: admitted_Cons max_def split: if_splits)
  next
    case False
    then have e: "dc_bans_in_win ?e = dc_bans_in_win e + 1" "fst (checkRateLimit t e) = (dc_bans_in_win e + 1 \<le> rate_cap e)"
      by (auto simp: checkRateLimit_def Let_def rate_cap_def)
    have "admitted ts ?e \<le> max 0 (rate_cap ?e - dc_bans_in_win ?e) + rate_cap ?e"
      using Cons.prems by (intro Cons.IH) (simp_all add: e)
    then show ?thesis using e by (simp add: admitted_Cons max_def split: if_splits)
  qed
qed


section \<open>Edges of notify-only audit rows\<close>

lemma length_evict:
  assumes "gm_ok m" and "notifyEdgeMaxEntries \<le> length m" and "set order = set (gm_keys m)"
  shows "length (evictNotifyEdges order now m) < length m \<and> gm_ok (evictNotifyEdges order now m)"
proof -
  have "0 < length m" using assms(2) unfolding notifyEdgeMaxEntries_def by linarith
  then obtain ip rest where o: "order = ip # rest" using assms(3) by (cases order) auto
  then have "ip \<in> set (gm_keys m)" using assms(3) by auto
  from length_gm_del [OF assms(1) this] show ?thesis
    using assms(1) o by (auto simp: evictNotifyEdges_def Let_def)
qed

text \<open>
  Histories of the edge table, newest first: each look-up with its answer, and each clearing (a
  strike, or an audit of the observe band that failed).  Anything else the engine does leaves
  the table alone, and the iteration order of the map is whatever it is.
\<close>

datatype edge_event = EdgeSeen addr string time bool | EdgeCleared addr

inductive edge_runs :: "edge_event list \<Rightarrow> engine \<Rightarrow> bool" where
  edge_start: "dc_notify_edges e = [] \<Longrightarrow> edge_runs [] e"
| edge_seen: "\<lbrakk>edge_runs h e; set order = set (gm_keys (dc_notify_edges e));
     notifyEdgeRising order ip rule now e = (rising, e')\<rbrakk> \<Longrightarrow> edge_runs (EdgeSeen ip rule now rising # h) e'"
| edge_cleared: "edge_runs h e \<Longrightarrow> edge_runs (EdgeCleared ip # h) (clearNotifyEdge ip e)"
| edge_else: "\<lbrakk>edge_runs h e; dc_notify_edges e' = dc_notify_edges e\<rbrakk> \<Longrightarrow> edge_runs h e'"

text \<open>The last audited offence of an address since it was last cleared: its rule and time.\<close>

fun last_audit :: "addr \<Rightarrow> edge_event list \<Rightarrow> (string \<times> time) option" where
  "last_audit ip [] = None"
| "last_audit ip (EdgeSeen a rule now rising # h) = (if a = ip \<and> rising then Some (rule, now) else last_audit ip h)"
| "last_audit ip (EdgeCleared a # h) = (if a = ip then None else last_audit ip h)"

fun edge_addr :: "edge_event \<Rightarrow> addr" where
  "edge_addr (EdgeSeen a rule now rising) = a"
| "edge_addr (EdgeCleared a) = a"

text \<open>Every answer of a history says whether a full window has passed since the last audit of the rule.\<close>

definition fresh_edge :: "edge_event list \<Rightarrow> addr \<Rightarrow> string \<Rightarrow> time \<Rightarrow> bool" where
  "fresh_edge h ip rule now \<longleftrightarrow>
     (case last_audit ip h of None \<Rightarrow> True | Some (r, t) \<Rightarrow> r \<noteq> rule \<or> notifyEdgeWindow \<le> now - t)"

lemma rising_edges:
  assumes "notifyEdgeRising order ip rule now e = (rising, e')"
  defines "m \<equiv> dc_notify_edges e"
  shows "rising \<longleftrightarrow> (case gm_get m ip of None \<Rightarrow> True | Some (r, t) \<Rightarrow> r \<noteq> rule \<or> notifyEdgeWindow \<le> now - t)"
    and "dc_notify_edges e' = (if rising then gm_set ip (rule, now)
        (if gm_get m ip = None \<and> notifyEdgeMaxEntries \<le> length m then evictNotifyEdges order now m else m) else m)"
  using assms by (auto simp: notifyEdgeRising_def Let_def m_def split: option.splits if_splits)

lemma rising_bounded:
  assumes "notifyEdgeRising order ip rule now e = (rising, e')" and "set order = set (gm_keys (dc_notify_edges e))"
    and "gm_ok (dc_notify_edges e)" and "length (dc_notify_edges e) \<le> notifyEdgeMaxEntries"
  shows "gm_ok (dc_notify_edges e') \<and> length (dc_notify_edges e') \<le> notifyEdgeMaxEntries"
proof -
  let ?m = "dc_notify_edges e"
  let ?m1 = "if gm_get ?m ip = None \<and> notifyEdgeMaxEntries \<le> length ?m then evictNotifyEdges order now ?m else ?m"
  have m1: "gm_ok ?m1" using length_evict [OF assms(3) _ assms(2), of now] assms(3) by auto
  have len: "length (gm_set ip (rule, now) ?m1) \<le> notifyEdgeMaxEntries"
  proof (cases "gm_get ?m ip = None")
    case True
    then show ?thesis
      using length_evict [OF assms(3) _ assms(2), of now] assms(4) by (auto simp: length_gm_set)
  next
    case False
    then have "ip \<in> set (gm_keys ?m)" by (auto simp: map_of_eq_None_iff)
    moreover have "?m1 = ?m" by (rule if_not_P) (use False in blast)
    ultimately show ?thesis using assms(4) by (simp only: length_gm_set if_True)
  qed
  show ?thesis unfolding rising_edges(2) [OF assms(1)] using m1 len assms(3,4) by simp
qed

lemma evict_subset:
  assumes "gm_ok m" and "gm_get (evictNotifyEdges order now m) a = Some x"
  shows "gm_get m a = Some x"
proof -
  have "gm_get (filter P m) a = Some x \<Longrightarrow> gm_get m a = Some x" for P
    using assms(1) by (auto simp: gm_ok_def dest!: map_of_SomeD)
  then show ?thesis using assms(2) by (auto simp: evictNotifyEdges_def Let_def split: list.splits if_splits)
qed

lemma edge_runs_bounded:
  "edge_runs h e \<Longrightarrow> gm_ok (dc_notify_edges e) \<and> length (dc_notify_edges e) \<le> notifyEdgeMaxEntries"
proof (induction rule: edge_runs.induct)
  case (edge_seen h e order ip rule now rising e')
  then show ?case using rising_bounded by blast
next
  case (edge_cleared h e ip)
  then show ?case using le_trans [OF length_delete_le] by (auto simp: clearNotifyEdge_def)
qed auto

text \<open>The table never holds more than the history; while every address of it fits, it holds just that.\<close>

definition edges_fit :: "edge_event list \<Rightarrow> bool" where
  "edges_fit h \<longleftrightarrow> card (edge_addr ` set h) \<le> notifyEdgeMaxEntries"

lemma edges_fit_sub: "edges_fit (h1 @ h2) \<Longrightarrow> edges_fit h2"
  unfolding edges_fit_def by (erule order_trans [OF card_mono, rotated -1]) auto

lemma edges_fit_Cons: "edges_fit (x # h) \<Longrightarrow> edges_fit h"
  using edges_fit_sub [of "[x]" h] by simp

lemma last_audit_addr: "last_audit a h \<noteq> None \<Longrightarrow> a \<in> edge_addr ` set h"
  by (induction a h rule: last_audit.induct) (auto split: if_splits)

lemma room_for_new:
  assumes "gm_ok m" and "\<forall>a. gm_get m a = last_audit a h" and "edges_fit (EdgeSeen ip rule now rising # h)"
  shows "\<not> (gm_get m ip = None \<and> notifyEdgeMaxEntries \<le> length m)"
proof
  assume full: "gm_get m ip = None \<and> notifyEdgeMaxEntries \<le> length m"
  have keys: "set (gm_keys m) \<subseteq> edge_addr ` set h" using assms(2) last_audit_addr by (metis subsetI map_of_eq_None_iff list.set_map)
  have "ip \<notin> set (gm_keys m)" using full by (auto simp: map_of_eq_None_iff)
  then have "card (insert ip (set (gm_keys m))) = Suc (length m)"
    using assms(1) distinct_card [of "gm_keys m"] by (simp add: gm_ok_def)
  moreover have "card (insert ip (set (gm_keys m))) \<le> card (edge_addr ` set (EdgeSeen ip rule now rising # h))"
    by (rule card_mono) (use keys in auto)
  ultimately show False using full assms(3) by (simp add: edges_fit_def)
qed

lemma edge_table:
  "edge_runs h e \<Longrightarrow> (\<forall>a x. gm_get (dc_notify_edges e) a = Some x \<longrightarrow> last_audit a h = Some x)
     \<and> (edges_fit h \<longrightarrow> (\<forall>a. gm_get (dc_notify_edges e) a = last_audit a h))"
proof (induction rule: edge_runs.induct)
  case (edge_seen h e order ip rule now rising e')
  let ?m = "dc_notify_edges e"
  have ok: "gm_ok ?m" using edge_runs_bounded [OF edge_seen.hyps(1)] by blast
  note e' = rising_edges(2) [OF edge_seen.hyps(3)]
  have 1: "last_audit a (EdgeSeen ip rule now rising # h) = Some x" if "gm_get (dc_notify_edges e') a = Some x" for a x
  proof (cases "rising \<and> a = ip")
    case True
    then show ?thesis using that by (simp add: e')
  next
    case False
    let ?m1 = "if gm_get ?m ip = None \<and> notifyEdgeMaxEntries \<le> length ?m then evictNotifyEdges order now ?m else ?m"
    have "gm_get ?m1 a = Some x \<or> gm_get ?m a = Some x"
      using that False unfolding e' by (cases rising) simp_all
    moreover have "?m1 = ?m \<or> ?m1 = evictNotifyEdges order now ?m" by (simp split: if_split)
    ultimately have "gm_get ?m a = Some x" using evict_subset [OF ok, of order now a x] by (elim disjE) (simp_all only:)
    then have "last_audit a h = Some x" using edge_seen.IH by blast
    then show ?thesis using False by auto
  qed
  have 2: "gm_get (dc_notify_edges e') a = last_audit a (EdgeSeen ip rule now rising # h)"
    if "edges_fit (EdgeSeen ip rule now rising # h)" for a
  proof -
    have t: "\<forall>a. gm_get ?m a = last_audit a h" using edge_seen.IH edges_fit_Cons [OF that] by blast
    show ?thesis unfolding e' if_not_P [OF room_for_new [OF ok t that]] using t by (cases rising) auto
  qed
  show ?case using 1 2 by blast
next
  case (edge_cleared h e ip)
  have t: "gm_get (dc_notify_edges (clearNotifyEdge ip e)) a = (if a = ip then None else gm_get (dc_notify_edges e) a)" for a
    by (simp add: clearNotifyEdge_def)
  have l: "last_audit a (EdgeCleared ip # h) = (if a = ip then None else last_audit a h)" for a by auto
  have 1: "(if a = ip then None else last_audit a h) = Some x" if "(if a = ip then None else gm_get (dc_notify_edges e) a) = Some x"
    for a x using edge_cleared.IH that by (cases "a = ip") (simp, metis)
  have 2: "(if a = ip then None else gm_get (dc_notify_edges e) a) = (if a = ip then None else last_audit a h)"
    if "edges_fit (EdgeCleared ip # h)" for a
  proof -
    have "gm_get (dc_notify_edges e) a = last_audit a h" using edge_cleared.IH edges_fit_Cons [OF that] by blast
    then show ?thesis by (simp only:)
  qed
  show ?case unfolding t l using 1 2 by blast
next
  case (edge_else h e e')
  then show ?case by (simp only:)
qed (simp)

lemma edge_answers:
  assumes "edge_runs h e"
  shows "h = post @ EdgeSeen ip rule now rising # pre \<Longrightarrow>
    (\<not> rising \<longrightarrow> \<not> fresh_edge pre ip rule now) \<and> (edges_fit h \<longrightarrow> rising = fresh_edge pre ip rule now)"
  using assms
proof (induction arbitrary: post rule: edge_runs.induct)
  case (edge_seen h e order a r t up e')
  show ?case
  proof (cases post)
    case Nil
    then have eq: "a = ip" "r = rule" "t = now" "up = rising" "h = pre" using edge_seen.prems by auto
    note up = rising_edges(1) [OF edge_seen.hyps(3)]
    have 1: "\<not> fresh_edge pre ip rule now" if quiet: "\<not> rising"
    proof -
      obtain t0 where "gm_get (dc_notify_edges e) ip = Some (rule, t0)" and w: "\<not> notifyEdgeWindow \<le> now - t0"
        using quiet up by (auto simp: eq split: option.splits)
      then have "last_audit ip pre = Some (rule, t0)" using edge_table [OF edge_seen.hyps(1)] eq by blast
      then show ?thesis using w by (simp add: fresh_edge_def)
    qed
    have 2: "rising = fresh_edge pre ip rule now" if "edges_fit (EdgeSeen a r t up # h)"
    proof -
      have "gm_get (dc_notify_edges e) ip = last_audit ip pre"
        using edge_table [OF edge_seen.hyps(1)] edges_fit_Cons [OF that] eq by blast
      then show ?thesis using up unfolding fresh_edge_def eq by (simp only:)
    qed
    show ?thesis using 1 2 by blast
  next
    case (Cons x xs)
    then show ?thesis using edge_seen.prems edge_seen.IH [of xs] edges_fit_Cons by auto
  qed
next
  case (edge_cleared h e a)
  then show ?case using edges_fit_Cons by (cases post) auto
qed auto

text \<open>
  C22 (invariant).  The audit of the observe band, over any history of look-ups and clearings of
  the edge table from a fresh engine.  The table never exceeds its 10000 entries; a look-up is
  answered \<open>not rising\<close> (no audit row) only when the last audit of its address since the address
  was last cleared was for the same rule and less than a window ago; and, as long as the history
  names no more addresses than the table holds, exactly then.  So a row for the same address and
  rule is written again inside the window only when another rule of the address was audited in
  between, a strike or a failed audit cleared the address, or a full table evicted it.
\<close>

theorem notify_edges_bounded:
  assumes "edge_runs (post @ EdgeSeen ip rule now rising # pre) e"
  shows "gm_ok (dc_notify_edges e) \<and> length (dc_notify_edges e) \<le> notifyEdgeMaxEntries
    \<and> (\<not> rising \<longrightarrow> (\<exists>t. last_audit ip pre = Some (rule, t) \<and> now - t < notifyEdgeWindow))
    \<and> (edges_fit (post @ EdgeSeen ip rule now rising # pre) \<longrightarrow>
         (rising \<longleftrightarrow> \<not> (\<exists>t. last_audit ip pre = Some (rule, t) \<and> now - t < notifyEdgeWindow)))"
proof -
  have "fresh_edge pre ip rule now \<longleftrightarrow> \<not> (\<exists>t. last_audit ip pre = Some (rule, t) \<and> now - t < notifyEdgeWindow)"
    by (auto simp: fresh_edge_def split: option.splits)
  then show ?thesis using edge_answers [OF assms refl] edge_runs_bounded [OF assms] by auto
qed

section \<open>Witnesses\<close>

text \<open>
  A minute after a ban of 10.0.0.1, with an SSH peer at 10.0.0.9: its offence is recorded, the
  banned address stays banned, and a new address gets its first strike.
\<close>

definition demo_env :: decide_env where
  "demo_env = \<lparr>de_clock = Minute, de_wall = Minute, de_ssh_client = [], de_probe = [V4 0x0A000009],
     de_cdn = None, de_bot = None, de_diag = True, de_map_order = []\<rparr>"

definition demo_engine :: engine where
  "demo_engine = \<lparr>dc_policy = demo_policy, dc_allow = [], dc_bans_in_win = 0, dc_window_start = 0,
     dc_ssh_fetched = zero_time, dc_ssh_peers = [], dc_cdn_warn_last = zero_time, dc_notify_edges = []\<rparr>"

definition demo_verdict :: "addr \<Rightarrow> int \<Rightarrow> verdict" where
  "demo_verdict ip n = \<lparr>vd_ip = ip, vd_score = n, vd_category = ''ssh'', vd_confidence = 1, vd_reason = ''ssh-brute: 9'',
     vd_source = ''rules'', vd_suggest_ttl = 0, vd_evidence = []\<rparr>"

lemma demo_simps:
  "dc_policy demo_engine = demo_policy" "dc_allow demo_engine = []" "dc_notify_edges demo_engine = []"
  "po_ban_threshold demo_policy = 70" "po_observe_threshold demo_policy = 40" "po_max_bans_per_minute demo_policy = 30"
  "po_strikes demo_policy = DefaultStrikes" "IsArmed demo_policy"
  "de_cdn demo_env = None" "de_bot demo_env = None" "de_clock demo_env = Minute"
  "vd_score (demo_verdict ip n) = n" "vd_ip (demo_verdict ip n) = ip"
  "dc_bans_in_win demo_engine = 0" "dc_window_start demo_engine = 0"
  by (simp_all add: demo_engine_def demo_policy_def demo_env_def demo_verdict_def IsArmed_def)

lemma db_ops_ok:
  "so_get_ban_info (db_ops c) ip ([], d) = (Inr (GetBanInfo c ip d), [], d)"
  "so_get_strike_count (db_ops c) ip ([], d) = (Inr (GetStrikeCount ip d), [], d)"
  "so_record_strike (db_ops c) a ([], d) = (Inr (), [], RecordStrike c c a d)"
  by (simp_all add: db_ops_def faulty_def)

lemma demo_decided: "decided_ip [demo_verdict ip n] = unmap ip"
  by (simp add: decided_ip_def demo_verdict_def best_verdict_def)

lemma demo_peers: "activeSSHPeers demo_env demo_engine = ([V4 0x0A000009],
    demo_engine\<lparr>dc_ssh_peers := [V4 0x0A000009], dc_ssh_fetched := Minute\<rparr>)"
  by (simp add: activeSSHPeers_def sshClientIP_def ssh_cache_get_def demo_env_def demo_engine_def addr_is_valid_def
      SSHPeerCacheTTL_def zero_time_def zero_time_offset_def duration_units)

lemma demo_protected: "protected demo_env demo_engine ip \<longleftrightarrow> ip = V4 0x0A000009"
  by (simp add: protected_def isAllowlisted_def demo_peers cdn_covers_def)
    (simp add: demo_env_def demo_engine_def)

lemma demo_bans: "db_bans demo_db = [(V4 0x0A000001, fresh_ban 0 (Some Hour) 1 [] False)]"
  by (simp add: demo_db_def db_bans_RecordStrike demo_ban_def zero_action_def duration_units empty_db_def)

lemma demo_no_strikes: "GetStrikeCount (V4 0x0A000002) demo_db = 0"
  by (simp add: demo_db_def RecordStrike_def upsert_offender_def Let_def demo_ban_def zero_action_def empty_db_def
      insert_strike_def insert_audit_def GetStrikeCount_def split: option.split)

theorem decide_never_bans_protected_witness:
  "\<exists>reason e'. Decide (db_ops Minute) demo_env [demo_verdict (V4 0x0A000009) 90] demo_engine ([], demo_db) =
    (Inr (plain_action (V4 0x0A000009) ''record'' reason [demo_verdict (V4 0x0A000009) 90]), [], e',
     snd (so_audit (db_ops Minute) (plain_action (V4 0x0A000009) ''record'' reason [demo_verdict (V4 0x0A000009) 90]) ([], demo_db)))"
  using decide_never_bans_protected [of "[demo_verdict (V4 0x0A000009) 90]" demo_env demo_engine "db_ops Minute" "([], demo_db)"]
  by (simp only: demo_decided demo_protected unmap.simps) simp

lemma demo_first_strike:
  "\<exists>act ds e' fs' d'. Decide (db_ops Minute) demo_env [demo_verdict (V4 0x0A000002) 90] demo_engine ([], demo_db)
     = (Inr act, ds, e', fs', d') \<and> ac_op act = ''ban'' \<and> ac_ip act = V4 0x0A000002"
proof -
  have 1: "Decide (db_ops Minute) demo_env [demo_verdict (V4 0x0A000002) 90] demo_engine ([], demo_db)
     = strike_path (db_ops Minute) demo_env (demo_engine\<lparr>dc_ssh_peers := [V4 0x0A000009], dc_ssh_fetched := Minute\<rparr>)
        (V4 0x0A000002) (demo_verdict (V4 0x0A000002) 90) [demo_verdict (V4 0x0A000002) 90] False ([], demo_db)"
    by (simp add: Let_def best_verdict_def demo_peers)
      (simp add: demo_simps isAllowlisted_def cdn_path_def score_path_def ban_path_def db_ops_ok GetBanInfo_def demo_bans)
  show ?thesis unfolding 1
    by (simp add: strike_path_def db_ops_ok demo_no_strikes Let_def strike_index_def demo_simps
      rate_gate_def checkRateLimit_def permanent_alert_def ban_action_of_def DefaultStrikes_def duration_units)
qed

theorem decide_bands_witness:
  "\<exists>act. fst (Decide (db_ops Minute) demo_env [demo_verdict (V4 0x0A000002) 90] demo_engine ([], demo_db)) = Inr act
     \<and> ac_op act = ''ban'' \<and> ac_ip act = V4 0x0A000002"
proof -
  from demo_first_strike obtain act ds e' fs' d' where
    r: "Decide (db_ops Minute) demo_env [demo_verdict (V4 0x0A000002) 90] demo_engine ([], demo_db) = (Inr act, ds, e', fs', d')"
    by blast
  from decide_bands [where vs = "[demo_verdict (V4 0x0A000002) 90]" and ops = "db_ops Minute" and env = demo_env
      and e = demo_engine and s = "([], demo_db)"] r
  have "ac_op act = band_outcome (db_ops Minute) demo_env demo_engine [demo_verdict (V4 0x0A000002) 90] ([], demo_db)
      \<and> ac_ip act = decided_ip [demo_verdict (V4 0x0A000002) 90]" by simp
  moreover have "band_outcome (db_ops Minute) demo_env demo_engine [demo_verdict (V4 0x0A000002) 90] ([], demo_db) = ''ban''"
    by (simp add: band_outcome_def demo_decided demo_protected spared_def top_band_def suppressing_def demo_simps
        db_ops_ok GetBanInfo_def demo_bans)
  ultimately show ?thesis using r by (auto simp: demo_decided)
qed

theorem decide_strikes_exactly_once_witness:
  "GetStrikeCount (V4 0x0A000002) (snd (snd (snd (snd
     (Decide (db_ops Minute) demo_env [demo_verdict (V4 0x0A000002) 90] demo_engine ([], demo_db))))))
   = GetStrikeCount (V4 0x0A000002) demo_db + 1"
proof -
  from demo_first_strike obtain act ds e' fs' d' where
    r: "Decide (db_ops Minute) demo_env [demo_verdict (V4 0x0A000002) 90] demo_engine ([], demo_db) = (Inr act, ds, e', fs', d')"
    "ac_op act = ''ban''" "ac_ip act = V4 0x0A000002" by blast
  from decide_strikes_exactly_once [OF r(1)] r show ?thesis by simp
qed

theorem ladder_total_witness:
  "fst (Decide (db_ops Minute) demo_env [demo_verdict (V4 0x0A000002) 90] demo_engine ([], demo_db)) \<noteq> Inl (PanicIndex (-1))"
proof -
  from demo_first_strike obtain act ds e' fs' d' where
    r: "Decide (db_ops Minute) demo_env [demo_verdict (V4 0x0A000002) 90] demo_engine ([], demo_db) = (Inr act, ds, e', fs', d')"
    by blast
  have "po_strikes (dc_policy demo_engine) \<noteq> []" by (simp add: demo_simps DefaultStrikes_def)
  moreover have "ban_strikes_ok demo_db" by (simp add: ban_strikes_ok_def demo_bans fresh_ban_def)
  ultimately show ?thesis using ladder_total [OF _ demo_db_ok _ r, of "-1"] r by simp
qed



lemma demo_edges:
  "edge_runs [EdgeSeen (V4 7) ''r'' 2 True, EdgeSeen (V4 7) ''s'' 1 True, EdgeSeen (V4 7) ''r'' 0 True]
     (demo_engine\<lparr>dc_notify_edges := [(V4 7, ''r'', 2)]\<rparr>)"
proof -
  have 0: "edge_runs [] demo_engine" by (rule edge_start) (simp add: demo_simps)
  have 1: "edge_runs [EdgeSeen (V4 7) ''r'' 0 True] (demo_engine\<lparr>dc_notify_edges := [(V4 7, ''r'', 0)]\<rparr>)"
    by (rule edge_seen [OF 0, of "[]"]) (simp_all add: demo_simps notifyEdgeRising_def notifyEdgeMaxEntries_def)
  have 2: "edge_runs [EdgeSeen (V4 7) ''s'' 1 True, EdgeSeen (V4 7) ''r'' 0 True]
      (demo_engine\<lparr>dc_notify_edges := [(V4 7, ''s'', 1)]\<rparr>)"
    by (rule edge_seen [OF 1, of "[V4 7]"]) (simp_all add: notifyEdgeRising_def)
  show ?thesis by (rule edge_seen [OF 2, of "[V4 7]"]) (simp_all add: notifyEdgeRising_def)
qed

text \<open>The rules of one address alternate (A, B, A) within three nanoseconds: all three are audited; a repeat is not.\<close>

theorem notify_edges_bounded_witness:
  "\<exists>rising e'. edge_runs [EdgeSeen (V4 7) ''r'' 3 rising, EdgeSeen (V4 7) ''r'' 2 True, EdgeSeen (V4 7) ''s'' 1 True,
      EdgeSeen (V4 7) ''r'' 0 True] e' \<and> \<not> rising"
proof -
  let ?e = "demo_engine\<lparr>dc_notify_edges := [(V4 7, ''r'', 2)]\<rparr>"
  obtain rising e' where r: "notifyEdgeRising [V4 7] (V4 7) ''r'' 3 ?e = (rising, e')" by fastforce
  have h: "edge_runs ([] @ EdgeSeen (V4 7) ''r'' 3 rising # [EdgeSeen (V4 7) ''r'' 2 True, EdgeSeen (V4 7) ''s'' 1 True,
      EdgeSeen (V4 7) ''r'' 0 True]) e'"
    using edge_seen [OF demo_edges _ r] by simp
  have f: "edges_fit ([] @ EdgeSeen (V4 7) ''r'' 3 rising # [EdgeSeen (V4 7) ''r'' 2 True, EdgeSeen (V4 7) ''s'' 1 True,
      EdgeSeen (V4 7) ''r'' 0 True])"
    by (simp add: edges_fit_def notifyEdgeMaxEntries_def)
  from notify_edges_bounded [OF h] f have "\<not> rising" by (simp add: notifyEdgeWindow_def duration_units)
  then show ?thesis using h by auto
qed

end
