(* ===== verification/Guards.thy ===== *)
theory Guards
  imports DecisionProps
begin

text \<open>
  The guards of the decision engine seen from the operator: what an allowlist entry protects
  (\<open>NormalizePrefix\<close>, \<open>parsePrefixOrAddr\<close>, \<open>buildAllowlist\<close>, in both spellings of an IPv4
  client), and what an authorised manual ban can never touch (\<open>AuthorizeManualBan\<close>).  One
  limit is proved too: an address with an IPv6 zone is not matched by any prefix.
\<close>

section \<open>Normalised prefixes\<close>

lemma drop_bit_mapped:
  fixes x p :: "128 word"
  assumes "drop_bit n x = drop_bit n p" and "n \<le> 32"
  shows "drop_bit 32 x = drop_bit 32 p" and "drop_bit n (ucast x :: 32 word) = drop_bit n (ucast p :: 32 word)"
proof -
  show "drop_bit 32 x = drop_bit 32 p" by (rule drop_bit_eq_mono [OF assms])
  show "drop_bit n (ucast x :: 32 word) = drop_bit n (ucast p :: 32 word)"
  proof (rule bit_word_eqI)
    fix i
    have "bit x (n + i) = bit p (n + i)" using arg_cong [OF assms(1), of "\<lambda>w. bit w i"] by (simp add: bit_simps)
    then show "bit (drop_bit n (ucast x :: 32 word)) i = bit (drop_bit n (ucast p :: 32 word)) i"
      by (simp add: bit_simps)
  qed
qed

text \<open>
  Normalisation keeps the protection: an address in the prefix is, unmapped, in the
  normalised one; the only exception is a mapped address inside a genuine IPv6 prefix.
\<close>

lemma NormalizePrefix_contains:
  assumes "NormalizePrefix p = Inr q" and "prefix_contains p x" and "is4in6 x \<longrightarrow> is4in6 (pfx_ip p)"
    and "prefix_wf p"
  shows "prefix_contains q (unmap x)"
proof (cases "is4in6 (pfx_ip p)")
  case False
  then show ?thesis using assms by (simp add: NormalizePrefix_def unmap_id)
next
  case True
  obtain w z b where p: "p = Pfx (V6 w z) b" and w: "drop_bit 32 w = 0xffff"
    using True by (cases p; cases "pfx_ip p") auto
  have b: "96 \<le> b" and q: "q = prefix_from (V4 (ucast w)) (b - 96)"
    using assms(1) w by (auto simp: NormalizePrefix_def p split: if_splits)
  obtain v where x: "x = V6 v []" using assms(2) p by (cases x) auto
  have d: "drop_bit (nat (128 - b)) v = drop_bit (nat (128 - b)) w" and le: "nat (128 - b) \<le> 32"
    using assms(2) b by (auto simp: p x drop_bit_xor_0_iff simp del: drop_bit_xor)
  have u: "unmap x = V4 (ucast v)" using drop_bit_mapped(1) [OF d le] w by (simp add: x)
  have "b \<le> 128" using assms(4) by (auto simp: p prefix_wf_def)
  moreover have "nat (32 - (b - 96)) = nat (128 - b)" by simp
  ultimately show ?thesis using drop_bit_mapped(2) [OF d le] b
    by (simp add: q u prefix_from_def drop_bit_xor_0_iff del: drop_bit_xor)
qed

lemma NormalizePrefix_wf: "prefix_wf p \<Longrightarrow> NormalizePrefix p = Inr q \<Longrightarrow> prefix_wf q"
  by (auto simp: NormalizePrefix_def split: if_splits)

section \<open>What an allowlist entry protects\<close>

lemma map_res_mem: "map_res f xs = Inr ys \<Longrightarrow> x \<in> set xs \<Longrightarrow> \<exists>y \<in> set ys. f x = Inr y"
  by (induction xs arbitrary: ys) (auto split: sum.splits)

lemma map_res_all:
  "map_res f xs = Inr ys \<Longrightarrow> y \<in> set ys \<Longrightarrow> \<exists>x \<in> set xs. f x = Inr y"
  by (induction xs arbitrary: ys) (auto split: sum.splits)

lemma engine_new_allow:
  assumes "engine_new sc now pol = Inr e"
  shows "\<exists>ps qs. map_res parsePrefixOrAddr (po_allowlist pol) = Inr ps \<and> map_res admin_prefix (po_admin_cidrs pol) = Inr qs
    \<and> set ps \<union> set qs \<subseteq> set (dc_allow e)
    \<and> set (dc_allow e) \<subseteq> set ps \<union> set qs \<union> {prefix_from (sshClientIP sc) (bit_len (sshClientIP sc))}
    \<and> (addr_is_valid (sshClientIP sc) \<longrightarrow> prefix_from (sshClientIP sc) (bit_len (sshClientIP sc)) \<in> set (dc_allow e))
    \<and> dc_policy e = pol \<and> dc_bans_in_win e = 0 \<and> dc_notify_edges e = []"
  using assms
  by (auto simp: engine_new_def buildAllowlist_def StaticAllowlist_def Let_def split: sum.splits if_splits)

text \<open>The operator wrote \<open>s\<close>, which as text covers the address \<open>x\<close>.\<close>

definition entry_covers :: "string \<Rightarrow> addr \<Rightarrow> bool" where
  "entry_covers s x \<longleftrightarrow>
     (case parse_prefix s of
        Some p \<Rightarrow> prefix_contains p x \<and> (is4in6 x \<longrightarrow> is4in6 (pfx_ip p))
      | None \<Rightarrow> (case parse_addr s of None \<Rightarrow> False | Some a \<Rightarrow> unmap x = unmap a \<and> addr_zone (unmap a) = []))"

lemma entry_covers_normal:
  assumes "entry_covers s x" and "parsePrefixOrAddr s = Inr q"
  shows "prefix_contains q (unmap x)"
proof (cases "parse_prefix s")
  case (Some p)
  then show ?thesis
    using assms NormalizePrefix_contains [of p q x] parse_prefix_wf [OF Some]
    by (auto simp: entry_covers_def parsePrefixOrAddr_def)
next
  case None
  then obtain a where a: "parse_addr s = Some a" "unmap x = unmap a" "addr_zone (unmap a) = []"
    using assms(1) by (auto simp: entry_covers_def split: option.splits)
  then have q: "q = prefix_from (unmap a) (bit_len (unmap a))" using assms(2) None by (simp add: parsePrefixOrAddr_def)
  have "unmap a \<noteq> NoAddr"
    using a(1) unmap_valid [of a]
    by (auto simp: addr_is_valid_def parse_addr_def parse_ipv4_def parse_ipv6_def Let_def
        split: list.splits if_splits option.splits prod.splits)
  moreover have "without_zone (unmap a) = unmap a" using a(3) by (cases "unmap a") auto
  ultimately show ?thesis using a by (simp add: q host_prefix_contains)
qed

lemma entry_protects:
  assumes "engine_new sc now pol = Inr e0" and "dc_allow e = dc_allow e0"
    and "s \<in> set (po_allowlist pol) \<or> s \<in> set (po_admin_cidrs pol) \<and> parse_prefix s \<noteq> None" and "entry_covers s x"
  shows "isAllowlisted e (unmap x)"
proof -
  obtain ps qs where new: "map_res parsePrefixOrAddr (po_allowlist pol) = Inr ps"
    "map_res admin_prefix (po_admin_cidrs pol) = Inr qs" "set ps \<union> set qs \<subseteq> set (dc_allow e0)"
    using engine_new_allow [OF assms(1)] by blast
  have "\<exists>q \<in> set (dc_allow e0). prefix_contains q (unmap x)"
  proof (cases "s \<in> set (po_allowlist pol)")
    case True
    then obtain q where "q \<in> set ps" "parsePrefixOrAddr s = Inr q" using map_res_mem [OF new(1)] by blast
    then show ?thesis using entry_covers_normal [OF assms(4)] new(3) by blast
  next
    case False
    then have s: "s \<in> set (po_admin_cidrs pol)" "parse_prefix s \<noteq> None" using assms(3) by auto
    then obtain q where q: "q \<in> set qs" "admin_prefix s = Inr q" using map_res_mem [OF new(2)] by blast
    have "parsePrefixOrAddr s = Inr q" using q(2) s(2) by (auto simp: admin_prefix_def parsePrefixOrAddr_def split: option.splits)
    then show ?thesis using entry_covers_normal [OF assms(4)] q(1) new(3) by blast
  qed
  then show ?thesis using assms(2) by (auto simp: isAllowlisted_def list_ex_iff)
qed

text \<open>
  C5 (safety).  The allowlist always wins, from the text of the policy to the decision: if an
  entry of \<open>allowlist\<close> or \<open>admin_cidrs\<close> covers an address, in either spelling of an IPv4
  client, then no verdicts about it, in either spelling, produce anything but an audited
  \<open>record\<close>.
\<close>

theorem allowlist_always_wins:
  assumes "engine_new sc now pol = Inr e0" and "dc_allow e = dc_allow e0"
    and "s \<in> set (po_allowlist pol) \<or> s \<in> set (po_admin_cidrs pol) \<and> parse_prefix s \<noteq> None" and "entry_covers s x"
    and "vs \<noteq> []" and "decided_ip vs = unmap x"
  shows "\<exists>e'. Decide ops env vs e st =
    (Inr (plain_action (unmap x) ''record'' ''allowlisted'' vs), [], e',
     snd (so_audit ops (plain_action (unmap x) ''record'' ''allowlisted'' vs) st))"
proof -
  have "isAllowlisted e (unmap x)" by (rule entry_protects [OF assms(1-4)])
  then show ?thesis using assms(5,6) by (cases vs) (auto simp: decided_ip_def audited_def Let_def)
qed

section \<open>Manual bans\<close>

lemma find_first_None [simp]: "find_first P xs = None \<longleftrightarrow> (\<forall>x \<in> set xs. \<not> P x)"
  by (auto simp: find_first_def dropWhile_eq_Nil_conv split: list.split) (metis dropWhile_eq_Nil_conv list.distinct(1))

lemma engine_new_wf:
  assumes "engine_new sc now pol = Inr e"
  shows "\<forall>p \<in> set (dc_allow e). prefix_wf p"
proof -
  obtain ps qs where new: "map_res parsePrefixOrAddr (po_allowlist pol) = Inr ps"
    "map_res admin_prefix (po_admin_cidrs pol) = Inr qs"
    and sub: "set (dc_allow e) \<subseteq> set ps \<union> set qs \<union> {prefix_from (sshClientIP sc) (bit_len (sshClientIP sc))}"
    using engine_new_allow [OF assms] by blast
  have 1: "prefix_wf q" if "parsePrefixOrAddr s = Inr q" for s q
    using that parse_prefix_wf NormalizePrefix_wf by (auto simp: parsePrefixOrAddr_def split: option.splits)
  have 2: "prefix_wf q" if "admin_prefix s = Inr q" for s q
    using that parse_prefix_wf NormalizePrefix_wf by (auto simp: admin_prefix_def split: option.splits)
  have "prefix_wf p" if "p \<in> set ps" for p using map_res_all [OF new(1) that] 1 by auto
  moreover have "prefix_wf p" if "p \<in> set qs" for p using map_res_all [OF new(2) that] 2 by auto
  ultimately show ?thesis using sub by (auto dest!: subsetD)
qed

lemma checkRateLimit_ok:
  "checkRateLimit t e = (True, e') \<Longrightarrow> dc_bans_in_win e' \<le> po_max_bans_per_minute (dc_policy e')
     \<and> dc_bans_in_win e' = (if Minute < t - dc_window_start e then 1 else dc_bans_in_win e + 1)"
  by (auto simp: checkRateLimit_def Let_def)

text \<open>
  C13 (safety).  A manual ban that is authorised, forced or not, covers no address of the
  allowlist, no active SSH peer of the daemon and none the client forwarded (in either
  spelling), and is counted in the shared ban budget: the count of the minute is one higher, or one
  where the old minute is over, and still within the cap; without force it also covers no address of
  a shared CDN range and the range data was available.
\<close>

theorem manual_ban_guarded:
  assumes "AuthorizeManualBan env target force peers e = (Inr (), e')"
    and "prefix_wf target" and "\<forall>p \<in> set (dc_allow e). prefix_wf p"
    and "\<forall>ranges. de_cdn env = Some (Inr ranges) \<longrightarrow> (\<forall>p \<in> set ranges. prefix_wf p)"
  shows "\<exists>t. NormalizePrefix target = Inr t
    \<and> (\<forall>x. prefix_contains t x \<longrightarrow> \<not> isAllowlisted e x \<and> x \<notin> set (fst (activeSSHPeers env e)) \<and> x \<notin> unmap ` set peers)
    \<and> (\<not> force \<longrightarrow> (\<forall>err. de_cdn env \<noteq> Some (Inl err)) \<and> (\<forall>x. prefix_contains t x \<longrightarrow> \<not> cdn_covers env x))
    \<and> dc_bans_in_win e' = (if Minute < de_clock env - dc_window_start e then 1 else dc_bans_in_win e + 1)
    \<and> dc_bans_in_win e' \<le> po_max_bans_per_minute (dc_policy e')"
proof -
  obtain t where t: "NormalizePrefix target = Inr t"
    using assms(1) by (auto simp: AuthorizeManualBan_def split: sum.splits)
  have wf: "prefix_wf t" by (rule NormalizePrefix_wf [OF assms(2) t])
  obtain own e1 where own: "activeSSHPeers env e = (own, e1)" by fastforce
  have a: "find_first (\<lambda>p. prefix_overlaps p t) (dc_allow e) = None"
    and p: "find_first (prefix_contains t) own = None"
    and q: "find_first (\<lambda>a. addr_is_valid a \<and> prefix_contains t a) (map unmap peers) = None"
    using assms(1) t own by (auto simp: AuthorizeManualBan_def split: option.splits prod.splits)
  have "manual_rate env e1 = (Inr (), e') \<and> (\<not> force \<longrightarrow> (\<forall>err. de_cdn env \<noteq> Some (Inl err))
      \<and> (\<forall>ranges. de_cdn env = Some (Inr ranges) \<longrightarrow> find_first (\<lambda>p. prefix_overlaps p t) ranges = None))"
    using assms(1) t own a p q
    by (auto simp: AuthorizeManualBan_def simp del: find_first_None split: option.splits sum.splits if_splits)
  then have rate: "manual_rate env e1 = (Inr (), e')"
    and cdn: "\<not> force \<Longrightarrow> (\<forall>err. de_cdn env \<noteq> Some (Inl err))"
    and none: "\<And>ranges. \<not> force \<Longrightarrow> de_cdn env = Some (Inr ranges) \<Longrightarrow> find_first (\<lambda>p. prefix_overlaps p t) ranges = None"
    by blast+
  have "dc_window_start e1 = dc_window_start e" "dc_bans_in_win e1 = dc_bans_in_win e"
    using own by (auto simp: activeSSHPeers_def ssh_cache_get_def Let_def split: option.splits if_splits)
  then have cap: "dc_bans_in_win e' \<le> po_max_bans_per_minute (dc_policy e')"
    "dc_bans_in_win e' = (if Minute < de_clock env - dc_window_start e then 1 else dc_bans_in_win e + 1)"
    using rate checkRateLimit_ok [of "de_clock env" e1 e'] by (auto simp: manual_rate_def split: prod.splits if_splits)
  have cover: "\<not> prefix_overlaps p t \<Longrightarrow> prefix_wf p \<Longrightarrow> prefix_contains t x \<Longrightarrow> \<not> prefix_contains p x" for p x
    using prefix_overlaps_iff wf by blast
  have allow: "\<not> isAllowlisted e x" if "prefix_contains t x" for x
    using a cover [OF _ _ that] assms(3) by (auto simp: isAllowlisted_def list_ex_iff)
  have peers: "x \<notin> set own \<and> x \<notin> unmap ` set peers" if "prefix_contains t x" for x
  proof -
    have "addr_is_valid x" using that by (auto simp: addr_is_valid_def prefix_contains_iff)
    then show ?thesis using p q that by auto
  qed
  have "\<not> cdn_covers env x" if "\<not> force" "prefix_contains t x" for x
  proof (cases "de_cdn env")
    case (Some src)
    have "\<forall>err. de_cdn env \<noteq> Some (Inl err)" by (rule cdn [OF that(1)])
    then have "\<exists>ranges. src = Inr ranges" using Some by (cases src) auto
    then obtain ranges where "src = Inr ranges" by blast
    then show ?thesis
      using none [OF that(1)] Some cover [OF _ _ that(2)] assms(4) by (auto simp: cdn_covers_def list_ex_iff)
  qed (simp add: cdn_covers_def)
  then show ?thesis using t allow peers cdn cap own by auto
qed

section \<open>Witnesses\<close>

definition demo_allow :: policy where
  "demo_allow = demo_policy\<lparr>po_allowlist := [''10.0.0.0/8'']\<rparr>"

lemma demo_entry: "parse_prefix ''10.0.0.0/8'' = Some (Pfx (V4 0x0A000000) 8)"
  by code_simp

lemma demo_new: "engine_new [] 0 demo_allow = Inr (demo_engine\<lparr>dc_policy := demo_allow, dc_allow := [Pfx (V4 0x0A000000) 8]\<rparr>)"
  by (simp add: engine_new_def buildAllowlist_def StaticAllowlist_def demo_allow_def parsePrefixOrAddr_def demo_entry
      NormalizePrefix_def sshClientIP_def addr_is_valid_def Let_def)
     (simp add: demo_engine_def demo_policy_def Let_def sshClientIP_def addr_is_valid_def)

theorem allowlist_always_wins_witness:
  "\<exists>e'. Decide (db_ops 0) demo_env [demo_verdict (map4in6 0x0A000001) 90]
      (demo_engine\<lparr>dc_policy := demo_allow, dc_allow := [Pfx (V4 0x0A000000) 8]\<rparr>) ([], demo_db)
    = (Inr (plain_action (V4 0x0A000001) ''record'' ''allowlisted'' [demo_verdict (map4in6 0x0A000001) 90]), [], e',
       snd (so_audit (db_ops 0) (plain_action (V4 0x0A000001) ''record'' ''allowlisted'' [demo_verdict (map4in6 0x0A000001) 90])
         ([], demo_db)))"
  using allowlist_always_wins [OF demo_new refl, of "''10.0.0.0/8''" "V4 0x0A000001"
      "[demo_verdict (map4in6 0x0A000001) 90]" "db_ops 0" demo_env "([], demo_db)"]
  by (simp add: demo_allow_def demo_decided entry_covers_def demo_entry del: Decide.simps)

theorem manual_ban_guarded_witness:
  "\<exists>t. NormalizePrefix (Pfx (V4 0x0B000000) 16) = Inr t \<and> V4 0x0A000009 \<notin> {x. prefix_contains t x}"
proof -
  have r: "AuthorizeManualBan demo_env (Pfx (V4 0x0B000000) 16) False [V4 0x0A000009] demo_engine
      = (Inr (), demo_engine\<lparr>dc_ssh_peers := [V4 0x0A000009], dc_ssh_fetched := Minute, dc_bans_in_win := 1\<rparr>)"
    by (simp add: AuthorizeManualBan_def NormalizePrefix_def find_first_def demo_peers addr_is_valid_def demo_simps
        manual_rate_def checkRateLimit_def Let_def)
  have "prefix_wf (Pfx (V4 0x0B000000) 16)" by (simp add: prefix_wf_def)
  from manual_ban_guarded [OF r this] show ?thesis by (auto simp: demo_simps demo_peers)
qed


section \<open>The limit of the allowlist\<close>

text \<open>
  \<open>Prefix.Contains\<close> is false for an address with a zone, and \<open>Unmap\<close> keeps the zone: with
  \<open>fe80::/10\<close> allowlisted, the link-local address \<open>fe80::1\<close> is protected and \<open>fe80::1%eth0\<close>
  is not, and its offence is a ban.
\<close>

theorem zoned_address_escapes_allowlist:
  "isAllowlisted (demo_engine\<lparr>dc_allow := [Pfx (V6 (push_bit 112 0xfe80) []) 10]\<rparr>) (V6 (push_bit 112 0xfe80) [])
   \<and> \<not> isAllowlisted (demo_engine\<lparr>dc_allow := [Pfx (V6 (push_bit 112 0xfe80) []) 10]\<rparr>) (V6 (push_bit 112 0xfe80) ''eth0'')"
  by (simp add: isAllowlisted_def)

end
