(* ===== verification/EventCounts.thy ===== *)
theory EventCounts
  imports Store
begin

text \<open>
  The persistent hourly counters behind long-window rules, \<open>internal/store/eventsagg.go\<close>, and
  the arithmetic of \<open>evaluateLongRules\<close> (\<open>internal/daemon/daemon.go\<close>) that subtracts what the
  last strike consumed.  Main result: after a strike, a long-window count never exceeds the
  number of increments made since that strike (\<open>strike_consumes_long_evidence\<close>), however
  increments and prunes are interleaved.
\<close>

section \<open>Operations\<close>

definition HourBucket :: "time \<Rightarrow> int" where
  "HourBucket t = time_unix (time_truncate t Hour)"

definition IncrEventCount :: "addr \<Rightarrow> string \<Rightarrow> int \<Rightarrow> db \<Rightarrow> db" where
  "IncrEventCount ip kind bucketStart d =
     d\<lparr>db_events := gm_add (unmap ip, kind, bucketStart) 1 (db_events d)\<rparr>"

text \<open>The rows a query selects, and their \<open>SUM(count)\<close>.\<close>

definition event_rows :: "addr \<Rightarrow> string \<Rightarrow> int \<Rightarrow> db \<Rightarrow> ((addr \<times> string \<times> int) \<times> int) list" where
  "event_rows ip kind since d = filter (\<lambda>((i, k, b), n). i = ip \<and> k = kind \<and> since \<le> b) (db_events d)"

definition event_sum :: "addr \<Rightarrow> string \<Rightarrow> int \<Rightarrow> db \<Rightarrow> int" where
  "event_sum ip kind since d = sum_list (map snd (event_rows ip kind since d))"

definition SumEventCounts :: "addr \<Rightarrow> string list \<Rightarrow> int \<Rightarrow> db \<Rightarrow> (string, int) gomap" where
  "SumEventCounts ip kinds since d =
     (if kinds = [] then []
      else map (\<lambda>k. (k, event_sum (unmap ip) k since d))
             (filter (\<lambda>k. event_rows (unmap ip) k since d \<noteq> []) (remdups kinds)))"

definition PruneEventCounts :: "int \<Rightarrow> db \<Rightarrow> int \<times> db" where
  "PruneEventCounts before d =
     (let d1 = d\<lparr>db_consumed := filter (\<lambda>(k, n, tm). \<not> tm < before) (db_consumed d)\<rparr>;
          gone = filter (\<lambda>((i, k, b), n). b < before) (db_events d1)
      in (int (length gone), d1\<lparr>db_events := filter (\<lambda>((i, k, b), n). \<not> b < before) (db_events d1)\<rparr>))"

text \<open>One (window, kind) pair of the write loop of \<open>ConsumeEventCounts\<close>.\<close>

definition consume_kind :: "addr \<Rightarrow> int \<Rightarrow> int \<Rightarrow> (string, int) gomap \<Rightarrow> db \<Rightarrow> string \<Rightarrow> db" where
  "consume_kind ip window_s tm totals d k =
     (if gm_val totals k = 0 then d\<lparr>db_consumed := gm_del (ip, window_s, k) (db_consumed d)\<rparr>
      else d\<lparr>db_consumed := gm_set (ip, window_s, k) (gm_val totals k, tm) (db_consumed d)\<rparr>)"

definition window_secs :: "duration \<Rightarrow> int" where
  "window_secs w = quot w Second"

definition ConsumeEventCounts :: "addr \<Rightarrow> (duration, string list) gomap \<Rightarrow> time \<Rightarrow> db \<Rightarrow> db" where
  "ConsumeEventCounts ip0 windows now d =
     (let ip = unmap ip0;
          snapshot = map (\<lambda>(w, kinds). (w, kinds, SumEventCounts ip kinds (HourBucket (now - w)) d)) windows
      in foldl (\<lambda>d (w, kinds, totals). foldl (consume_kind ip (window_secs w) (time_unix now) totals) d kinds)
           d snapshot)"

definition ConsumedEventCounts :: "addr \<Rightarrow> duration \<Rightarrow> time \<Rightarrow> db \<Rightarrow> (string, int) gomap" where
  "ConsumedEventCounts ip window now d =
     map (\<lambda>((i, ws, k), n, tm). (k, n))
       (filter (\<lambda>((i, ws, k), n, tm). i = unmap ip \<and> ws = window_secs window \<and> HourBucket (now - window) \<le> tm)
         (db_consumed d))"

text \<open>The subtraction loop of \<open>evaluateLongRules\<close>: the adjusted totals and their total.\<close>

definition long_counts :: "(string, int) gomap \<Rightarrow> (string, int) gomap \<Rightarrow> (string, int) gomap" where
  "long_counts totals consumed =
     map (\<lambda>(k, n). (k, let c = gm_val consumed k in if c > 0 then (if n - c < 0 then 0 else n - c) else n)) totals"

definition long_window_counts :: "addr \<Rightarrow> string list \<Rightarrow> duration \<Rightarrow> time \<Rightarrow> db \<Rightarrow> (string, int) gomap" where
  "long_window_counts ip kinds w now d =
     long_counts (SumEventCounts ip kinds (HourBucket (now - w)) d) (ConsumedEventCounts ip w now d)"

section \<open>Invariant\<close>

lemma db_ok_counters:
  assumes "db_ok d" "counters_ok d'" "d' = d\<lparr>db_events := e, db_consumed := c\<rparr>"
  shows "db_ok d'"
  using assms by (auto simp: db_ok_def strike_rows_def GetStrikeCount_def)

lemma gm_val_pos: "gm_ok m \<Longrightarrow> \<forall>(k, n) \<in> set m. 0 < n \<Longrightarrow> 0 \<le> gm_val m k"
  by (auto simp: gm_val_def split: option.splits dest!: gm_get_in_set)

lemma counters_ok_incr: "counters_ok d \<Longrightarrow> counters_ok (IncrEventCount ip kind b d)"
  using gm_val_pos [of "db_events d" "(unmap ip, kind, b)"]
  by (auto simp: counters_ok_def IncrEventCount_def gm_add_def add_pos_nonneg add.commute [of _ 1] dest!: gm_set_in)

lemma db_ok_IncrEventCount [ezy_inv]: "db_ok d \<Longrightarrow> db_ok (IncrEventCount ip kind b d)"
  by (rule db_ok_counters [where e = "db_events (IncrEventCount ip kind b d)" and c = "db_consumed d"])
    (auto simp: counters_ok_incr db_okD(8), simp add: IncrEventCount_def)

lemma db_ok_PruneEventCounts [ezy_inv]: "db_ok d \<Longrightarrow> db_ok (snd (PruneEventCounts before d))"
  by (auto simp: db_ok_def counters_ok_def PruneEventCounts_def strike_rows_def GetStrikeCount_def)

lemma event_sum_nonneg: "counters_ok d \<Longrightarrow> 0 \<le> event_sum ip k since d"
  unfolding event_sum_def by (rule sum_list_nonneg) (fastforce simp: counters_ok_def event_rows_def)

lemma gm_val_SumEventCounts:
  "gm_val (SumEventCounts ip kinds since d) k = (if k \<in> set kinds then event_sum (unmap ip) k since d else 0)"
proof (cases "kinds = []")
  case True
  then show ?thesis by (simp add: SumEventCounts_def)
next
  case False
  let ?ks = "filter (\<lambda>k. event_rows (unmap ip) k since d \<noteq> []) (remdups kinds)"
  have "gm_get (map (\<lambda>k. (k, event_sum (unmap ip) k since d)) ?ks) k =
      (if k \<in> set ?ks then Some (event_sum (unmap ip) k since d) else None)"
    using map_of_map_restrict [of "\<lambda>k. event_sum (unmap ip) k since d" ?ks] by (simp add: restrict_map_def)
  then show ?thesis using False by (auto simp: SumEventCounts_def gm_val_def event_sum_def)
qed

lemma consume_kind_only_consumed:
  "consume_kind ip ws tm totals d k = d\<lparr>db_consumed := db_consumed (consume_kind ip ws tm totals d k)\<rparr>"
  by (simp add: consume_kind_def)

lemma counters_ok_consume_kind:
  assumes "counters_ok d" and "0 \<le> gm_val totals k"
  shows "counters_ok (consume_kind ip ws tm totals d k)"
  using assms by (auto simp: counters_ok_def consume_kind_def dest!: gm_set_in gm_del_in)

lemma counters_ok_ConsumeEventCounts:
  assumes "counters_ok d"
  shows "counters_ok (ConsumeEventCounts ip windows now d)"
proof -
  have nn: "0 \<le> gm_val (SumEventCounts ip kinds since d) k" for ip kinds since k
    using event_sum_nonneg [OF assms] by (simp add: gm_val_SumEventCounts)
  show ?thesis
    unfolding ConsumeEventCounts_def Let_def
    by (rule foldl_invariant [where P = counters_ok, OF assms])
      (auto intro!: foldl_invariant [where P = counters_ok] counters_ok_consume_kind nn)
qed

lemma ConsumeEventCounts_only_consumed:
  "\<exists>c. ConsumeEventCounts ip windows now d = d\<lparr>db_consumed := c\<rparr>"
proof -
  have inner: "\<exists>c. foldl (consume_kind ip ws tm totals) x kinds = x\<lparr>db_consumed := c\<rparr>" for ip ws tm totals kinds x
  proof (rule foldl_invariant [where P = "\<lambda>y. \<exists>c. y = x\<lparr>db_consumed := c\<rparr>"])
    show "\<exists>c. x = x\<lparr>db_consumed := c\<rparr>" by (rule exI [of _ "db_consumed x"]) simp
  qed (auto simp: consume_kind_def)
  have outer: "(\<exists>c. x = d\<lparr>db_consumed := c\<rparr>)
      \<Longrightarrow> \<exists>c. foldl (consume_kind ip ws tm totals) x kinds = d\<lparr>db_consumed := c\<rparr>" for x ip ws tm totals kinds
    using inner [of ip ws tm totals x kinds] by auto
  show ?thesis
    unfolding ConsumeEventCounts_def Let_def
  proof (rule foldl_invariant [where P = "\<lambda>y. \<exists>c. y = d\<lparr>db_consumed := c\<rparr>"])
    show "\<exists>c. d = d\<lparr>db_consumed := c\<rparr>" by (rule exI [of _ "db_consumed d"]) simp
  qed (auto split: prod.splits intro: outer)
qed

lemma ConsumeEventCounts_events: "db_events (ConsumeEventCounts ip windows now d) = db_events d"
  using ConsumeEventCounts_only_consumed [of ip windows now d] by auto

lemma db_ok_ConsumeEventCounts [ezy_inv]:
  assumes "db_ok d"
  shows "db_ok (ConsumeEventCounts ip windows now d)"
proof -
  obtain c where c: "ConsumeEventCounts ip windows now d = d\<lparr>db_consumed := c\<rparr>"
    using ConsumeEventCounts_only_consumed by blast
  show ?thesis
    using assms counters_ok_ConsumeEventCounts [OF db_okD(8) [OF assms], of ip windows now]
    by (auto simp: c db_ok_def strike_rows_def GetStrikeCount_def)
qed

section \<open>Buckets\<close>

lemma HourBucket_eq: "HourBucket t = t div Hour * 3600"
proof -
  have z: "zero_time_offset = 17259888 * Hour" by (simp add: zero_time_offset_def duration_units)
  have "(t + zero_time_offset) mod Hour = t mod Hour" by (simp only: z mod_mult_self1)
  then have "time_truncate t Hour = t div Hour * Hour"
    by (simp add: time_truncate_def minus_mod_eq_div_mult duration_units)
  also have "\<dots> = t div Hour * 3600 * Second" by (simp add: duration_units)
  finally show ?thesis by (simp add: HourBucket_def time_unix_def duration_units)
qed

lemma HourBucket_mono: "a \<le> b \<Longrightarrow> HourBucket a \<le> HourBucket b"
  by (simp add: HourBucket_eq zdiv_mono1 duration_units)

lemma HourBucket_le: "HourBucket t \<le> time_unix t"
proof -
  have "time_truncate t Hour div Second \<le> t div Second"
    by (rule zdiv_mono1 [OF time_truncate_le]) (simp add: Second_def)
  then show ?thesis by (simp add: HourBucket_def time_unix_def)
qed

lemma event_sum_alt:
  "event_sum ip k since d = sum_list (map snd (filter (\<lambda>x. case fst x of (i, k', b) \<Rightarrow> i = ip \<and> k' = k \<and> since \<le> b) (db_events d)))"
proof -
  have "(\<lambda>((i, k', b), n). i = ip \<and> k' = k \<and> since \<le> b)
      = (\<lambda>x :: (addr \<times> string \<times> int) \<times> int. case fst x of (i, k', b) \<Rightarrow> i = ip \<and> k' = k \<and> since \<le> b)"
    by auto
  then show ?thesis by (simp only: event_sum_def event_rows_def)
qed

lemma event_sum_incr:
  assumes "counters_ok d"
  shows "event_sum ip k since (IncrEventCount ip' k' b d) =
    event_sum ip k since d + (if unmap ip' = ip \<and> k' = k \<and> since \<le> b then 1 else 0)"
  using sum_filter_gm_set [of "db_events d" "\<lambda>(i, k', b). i = ip \<and> k' = k \<and> since \<le> b" "(unmap ip', k', b)" 1] assms
  by (simp add: event_sum_alt IncrEventCount_def gm_add_def counters_ok_def)

lemma event_sum_prune:
  "event_sum ip k since (snd (PruneEventCounts before d)) = event_sum ip k (max since before) d"
proof -
  have "filter (\<lambda>((i, k', b), n). i = ip \<and> k' = k \<and> since \<le> b) (filter (\<lambda>((i, k, b), n). \<not> b < before) (db_events d))
      = filter (\<lambda>((i, k', b), n). i = ip \<and> k' = k \<and> max since before \<le> b) (db_events d)"
    unfolding filter_filter by (rule filter_cong) auto
  then show ?thesis by (simp add: event_sum_def event_rows_def PruneEventCounts_def)
qed

text \<open>A later horizon selects fewer rows, and none past the newest bucket.\<close>

lemma event_sum_antimono:
  assumes "counters_ok d" and "a \<le> b"
  shows "event_sum ip k b d \<le> event_sum ip k a d"
proof -
  have "event_rows ip k b d = filter (\<lambda>((i, k', c), n). b \<le> c) (event_rows ip k a d)"
    using assms(2) unfolding event_rows_def filter_filter by (intro filter_cong) auto
  moreover have "\<And>x. x \<in> set (event_rows ip k a d) \<Longrightarrow> 0 \<le> snd x"
    using assms(1) by (fastforce simp: counters_ok_def event_rows_def)
  ultimately show ?thesis unfolding event_sum_def by (metis sum_list_filter_le)
qed

lemma event_sum_future:
  assumes "\<forall>((i, k, b), n) \<in> set (db_events d). b \<le> t" and "t < since"
  shows "event_sum ip k since d = 0"
proof -
  have "event_rows ip k since d = []" using assms by (fastforce simp: event_rows_def filter_empty_conv)
  then show ?thesis by (simp add: event_sum_def)
qed

section \<open>Watermarks\<close>

lemma consume_fold_get:
  "gm_get (db_consumed (foldl (consume_kind ip ws tm totals) d kinds)) (i, ws', k) =
     (if i = ip \<and> ws' = ws \<and> k \<in> set kinds
      then (if gm_val totals k = 0 then None else Some (gm_val totals k, tm))
      else gm_get (db_consumed d) (i, ws', k))"
  by (induction kinds arbitrary: d) (auto simp: consume_kind_def)

lemma consume_windows_get:
  assumes "distinct (map (\<lambda>(w, _, _). window_secs w) snap)" and "(w, kinds, totals) \<in> set snap" and "k \<in> set kinds"
  shows "gm_get (db_consumed (foldl (\<lambda>d (w, kinds, totals). foldl (consume_kind ip (window_secs w) tm totals) d kinds) d snap))
      (ip, window_secs w, k) = (if gm_val totals k = 0 then None else Some (gm_val totals k, tm))"
  using assms(1,2)
proof (induction snap rule: rev_induct)
  case Nil
  then show ?case by simp
next
  case (snoc x snap)
  obtain w' kinds' totals' where x: "x = (w', kinds', totals')" by (cases x)
  show ?case
  proof (cases "(w, kinds, totals) = x")
    case True
    then show ?thesis using x assms(3) by (simp add: consume_fold_get)
  next
    case False
    then have "(w, kinds, totals) \<in> set snap" using snoc.prems by auto
    moreover from this have "window_secs w \<noteq> window_secs w'" using snoc.prems(1) x by force
    ultimately show ?thesis using snoc x by (simp add: consume_fold_get)
  qed
qed

lemma ConsumeEventCounts_get:
  assumes "distinct (map (\<lambda>(w, _). window_secs w) windows)" and "(w, kinds) \<in> set windows" and "k \<in> set kinds"
  shows "gm_get (db_consumed (ConsumeEventCounts ip windows now d)) (unmap ip, window_secs w, k) =
    (let n = event_sum (unmap ip) k (HourBucket (now - w)) d in if n = 0 then None else Some (n, time_unix now))"
proof -
  let ?snap = "map (\<lambda>(w, kinds). (w, kinds, SumEventCounts (unmap ip) kinds (HourBucket (now - w)) d)) windows"
  have "map (\<lambda>(w, _, _). window_secs w) ?snap = map (\<lambda>(w, _). window_secs w) windows"
    by (simp add: case_prod_unfold comp_def)
  then have dist: "distinct (map (\<lambda>(w, _, _). window_secs w) ?snap)" using assms(1) by (simp only:)
  have mem: "(w, kinds, SumEventCounts (unmap ip) kinds (HourBucket (now - w)) d) \<in> set ?snap"
    using assms(2) by force
  show ?thesis
    using consume_windows_get [OF dist mem assms(3), of "unmap ip" "time_unix now" d]
    by (simp add: ConsumeEventCounts_def Let_def gm_val_SumEventCounts assms(3))
qed

lemma map_of_filter_key:
  assumes "gm_ok m"
  shows "map_of (map (\<lambda>((i, ws, k), n, tm). (k, n))
      (filter (\<lambda>((i, ws, k), n, tm). i = ip \<and> ws = w \<and> since \<le> tm) m)) k =
    (case gm_get m (ip, w, k) of None \<Rightarrow> None | Some (n, tm) \<Rightarrow> if since \<le> tm then Some n else None)"
  using assms
proof (induction m)
  case Nil
  then show ?case by simp
next
  case (Cons x m)
  obtain i ws k' n tm where x: "x = ((i, ws, k'), n, tm)" by (cases x) auto
  have ok: "gm_ok m" and notin: "(i, ws, k') \<notin> fst ` set m" using Cons.prems x by (auto simp: gm_ok_def)
  then have "gm_get m (i, ws, k') = None" by (simp add: map_of_eq_None_iff)
  then show ?case using Cons.IH [OF ok] by (auto simp: x)
qed

lemma gm_val_ConsumedEventCounts:
  assumes "counters_ok d"
  shows "gm_val (ConsumedEventCounts ip w now d) k =
    (case gm_get (db_consumed d) (unmap ip, window_secs w, k) of None \<Rightarrow> 0
     | Some (n, tm) \<Rightarrow> if HourBucket (now - w) \<le> tm then n else 0)"
proof -
  have "gm_ok (db_consumed d)" using assms by (simp add: counters_ok_def)
  from map_of_filter_key [OF this, of "unmap ip" "window_secs w" "HourBucket (now - w)" k]
  show ?thesis unfolding gm_val_def ConsumedEventCounts_def by (auto split: option.splits)
qed

section \<open>After a strike only new events count\<close>

datatype count_op = CIncr addr string int | CPrune int

fun count_step :: "db \<Rightarrow> count_op \<Rightarrow> db" where
  "count_step d (CIncr ip kind b) = IncrEventCount ip kind b d"
| "count_step d (CPrune before) = snd (PruneEventCounts before d)"

fun incr_matches :: "addr \<Rightarrow> string \<Rightarrow> count_op \<Rightarrow> bool" where
  "incr_matches ip k (CIncr ip' k' b) = (unmap ip' = unmap ip \<and> k' = k)"
| "incr_matches ip k (CPrune b) = False"

definition increments :: "addr \<Rightarrow> string \<Rightarrow> count_op list \<Rightarrow> int" where
  "increments ip k ops = int (length (filter (incr_matches ip k) ops))"

text \<open>
  The state after the strike of instant \<open>t\<close> (in seconds), with \<open>n\<close> increments since: \<open>old\<close> is
  what each horizon summed to at the strike and \<open>c\<close> what was consumed.  Either the watermark
  is still there, or it was pruned together with every bucket it covers.
\<close>

definition since_strike :: "addr \<Rightarrow> int \<Rightarrow> string \<Rightarrow> (int \<Rightarrow> int) \<Rightarrow> int \<Rightarrow> int \<Rightarrow> int \<Rightarrow> db \<Rightarrow> bool" where
  "since_strike ip ws k old c t n d \<longleftrightarrow> counters_ok d \<and>
     (gm_get (db_consumed d) (ip, ws, k) = (if c = 0 then None else Some (c, t))
        \<and> (\<forall>s. event_sum ip k s d \<le> n + old s)
      \<or> gm_get (db_consumed d) (ip, ws, k) = None \<and> (\<forall>s. event_sum ip k s d \<le> n))"

lemma counters_ok_prune: "counters_ok d \<Longrightarrow> counters_ok (snd (PruneEventCounts b d))"
  by (auto simp: counters_ok_def PruneEventCounts_def)

lemma since_strike_incr:
  assumes "since_strike (unmap ip) ws k old c t n d"
  shows "since_strike (unmap ip) ws k old c t (n + (if incr_matches ip k (CIncr ip' k' b) then 1 else 0))
    (IncrEventCount ip' k' b d)"
proof -
  have ok: "counters_ok d" using assms by (simp add: since_strike_def)
  have con: "db_consumed (IncrEventCount ip' k' b d) = db_consumed d" by (simp add: IncrEventCount_def)
  let ?e = "if incr_matches ip k (CIncr ip' k' b) then 1 else 0 :: int"
  have le: "event_sum (unmap ip) k s (IncrEventCount ip' k' b d) \<le> event_sum (unmap ip) k s d + ?e" for s
    by (simp add: event_sum_incr [OF ok])
  have lift: "\<forall>s. event_sum (unmap ip) k s (IncrEventCount ip' k' b d) \<le> f s + ?e"
    if "\<forall>s. event_sum (unmap ip) k s d \<le> f s" for f
    using that le by (meson add_right_mono order_trans)
  from assms show ?thesis
    using lift [of "\<lambda>s. n + old s"] lift [of "\<lambda>s. n"] counters_ok_incr [OF ok, of ip' k' b]
    unfolding since_strike_def con add.assoc add.commute [of _ "?e"] by blast
qed

lemma since_strike_prune:
  assumes "since_strike ip ws k old c t n d" and "\<And>s. t < s \<Longrightarrow> old s = 0" and "0 \<le> n" and "\<And>s. 0 \<le> old s"
    and "\<And>a b. a \<le> b \<Longrightarrow> old b \<le> old a"
  shows "since_strike ip ws k old c t n (snd (PruneEventCounts before d))"
proof -
  let ?d = "snd (PruneEventCounts before d)"
  have ok: "counters_ok d" using assms by (simp add: since_strike_def)
  have con: "gm_get (db_consumed ?d) (ip, ws, k) =
      (case gm_get (db_consumed d) (ip, ws, k) of None \<Rightarrow> None | Some (m, tm) \<Rightarrow> if tm < before then None else Some (m, tm))"
    using gm_get_filter [of "db_consumed d" "\<lambda>k v. case v of (n, tm) \<Rightarrow> \<not> tm < before" "(ip, ws, k)"] ok
    by (auto simp: PruneEventCounts_def counters_ok_def Let_def split: option.splits)
  have less: "event_sum ip k s ?d \<le> event_sum ip k s d" for s
    unfolding event_sum_prune by (rule event_sum_antimono [OF ok]) simp
  show ?thesis
  proof (cases "gm_get (db_consumed d) (ip, ws, k) = None \<and> (\<forall>s. event_sum ip k s d \<le> n)")
    case True
    then have "\<forall>s. event_sum ip k s ?d \<le> n" using less order_trans by blast
    then show ?thesis using True counters_ok_prune [OF ok] by (simp add: since_strike_def con)
  next
    case False
    then have wm: "gm_get (db_consumed d) (ip, ws, k) = (if c = 0 then None else Some (c, t))"
      and le: "\<And>s. event_sum ip k s d \<le> n + old s" using assms(1) by (auto simp: since_strike_def)
    show ?thesis
    proof (cases "c \<noteq> 0 \<and> t < before")
      case True
      have "event_sum ip k s ?d \<le> n" for s
      proof -
        have "t < max s before" using True by auto
        from assms(2) [OF this] le [of "max s before"] show ?thesis by (simp add: event_sum_prune)
      qed
      then show ?thesis using True wm counters_ok_prune [OF ok] by (auto simp: since_strike_def con)
    next
      case False
      then have "gm_get (db_consumed ?d) (ip, ws, k) = (if c = 0 then None else Some (c, t))"
        using wm by (auto simp: con)
      moreover have "\<forall>s. event_sum ip k s ?d \<le> n + old s" using less le order_trans by blast
      ultimately show ?thesis using counters_ok_prune [OF ok] by (simp add: since_strike_def)
    qed
  qed
qed

lemma since_strike_run:
  assumes "since_strike (unmap ip) ws k old c t n d" and "\<And>s. t < s \<Longrightarrow> old s = 0" and "0 \<le> n"
    and "\<And>s. 0 \<le> old s" and "\<And>a b. a \<le> b \<Longrightarrow> old b \<le> old a"
  shows "since_strike (unmap ip) ws k old c t (n + increments ip k ops) (foldl count_step d ops)"
  using assms(1,3)
proof (induction ops arbitrary: d n)
  case Nil
  then show ?case by (simp add: increments_def)
next
  case (Cons p ops)
  let ?m = "n + (if incr_matches ip k p then 1 else 0)"
  have "since_strike (unmap ip) ws k old c t ?m (count_step d p)"
  proof (cases p)
    case (CIncr ip' k' b)
    then show ?thesis using since_strike_incr [OF Cons.prems(1), of ip' k' b] by simp
  next
    case (CPrune b)
    then show ?thesis using since_strike_prune [OF Cons.prems(1) assms(2) Cons.prems(2) assms(4,5)] by simp
  qed
  from Cons.IH [OF this] Cons.prems(2)
  show ?case by (auto simp: increments_def algebra_simps)
qed

lemma gm_get_map_val: "gm_get (map (\<lambda>(k, n). (k, f k n)) m) k = map_option (f k) (gm_get m k)"
  by (induction m) auto

lemma gm_val_long_counts:
  "gm_val (long_counts totals consumed) k =
     (case gm_get totals k of None \<Rightarrow> 0
      | Some n \<Rightarrow> let c = gm_val consumed k in if c > 0 then max 0 (n - c) else n)"
proof -
  have "gm_get (long_counts totals consumed) k =
      map_option (\<lambda>n. let c = gm_val consumed k in if c > 0 then (if n - c < 0 then 0 else n - c) else n) (gm_get totals k)"
    unfolding long_counts_def by (rule gm_get_map_val)
  then show ?thesis
    by (cases "gm_get totals k") (simp_all add: gm_val_def [of "long_counts totals consumed"] Let_def max_def)
qed

text \<open>
  C33 (safety).  A strike consumes the long-window evidence it was decided on: after
  \<open>ConsumeEventCounts\<close> at \<open>now\<close>, whatever increments and prunes follow, the count of a kind
  that \<open>evaluateLongRules\<close> uses at any later instant is at most the number of increments of
  that address and kind made since the strike.  The hypotheses are that no bucket lies in the
  future of the strike and that the rule windows differ by whole seconds.
\<close>

theorem strike_consumes_long_evidence:
  assumes "counters_ok d"
    and "\<forall>((i, k, b), n) \<in> set (db_events d). b \<le> HourBucket now"
    and "distinct (map (\<lambda>(w, _). window_secs w) windows)"
    and "(w, kinds) \<in> set windows" and "k \<in> set kinds" and "now \<le> now'"
  shows "gm_val (long_window_counts ip kinds w now' (foldl count_step (ConsumeEventCounts ip windows now d) ops)) k
    \<le> increments ip k ops"
proof -
  let ?d1 = "ConsumeEventCounts ip windows now d" and ?s = "HourBucket (now' - w)"
  let ?d2 = "foldl count_step ?d1 ops" and ?n = "increments ip k ops"
  let ?old = "\<lambda>s. event_sum (unmap ip) k s d"
  let ?c = "?old (HourBucket (now - w))"
  have future: "?old s = 0" if "time_unix now < s" for s
    by (rule event_sum_future [OF assms(2)]) (use that HourBucket_le [of now] in linarith)
  have "since_strike (unmap ip) (window_secs w) k ?old ?c (time_unix now) 0 ?d1"
    using ConsumeEventCounts_get [OF assms(3-5), of ip now d] counters_ok_ConsumeEventCounts [OF assms(1)]
    by (simp add: since_strike_def Let_def event_sum_def event_rows_def ConsumeEventCounts_events)
  from since_strike_run [OF this future order_refl event_sum_nonneg [OF assms(1)] event_sum_antimono [OF assms(1)]]
  have run: "since_strike (unmap ip) (window_secs w) k ?old ?c (time_unix now) ?n ?d2" by simp
  have c: "gm_val (ConsumedEventCounts ip w now' ?d2) k =
      (case gm_get (db_consumed ?d2) (unmap ip, window_secs w, k) of None \<Rightarrow> 0
       | Some (n, tm) \<Rightarrow> if ?s \<le> tm then n else 0)"
    by (rule gm_val_ConsumedEventCounts) (use run in \<open>simp add: since_strike_def\<close>)
  have mono: "?old ?s \<le> ?c"
    by (rule event_sum_antimono [OF assms(1)]) (use assms(6) in \<open>simp add: HourBucket_mono\<close>)
  have n0: "0 \<le> ?n" by (simp add: increments_def)
  have "event_sum (unmap ip) k ?s ?d2 - gm_val (ConsumedEventCounts ip w now' ?d2) k \<le> ?n"
  proof (cases "gm_get (db_consumed ?d2) (unmap ip, window_secs w, k) = None \<and> (\<forall>s. event_sum (unmap ip) k s ?d2 \<le> ?n)")
    case True
    then show ?thesis by (simp add: c)
  next
    case False
    with run have "gm_get (db_consumed ?d2) (unmap ip, window_secs w, k) = (if ?c = 0 then None else Some (?c, time_unix now))"
      and "\<forall>s. event_sum (unmap ip) k s ?d2 \<le> ?n + ?old s" unfolding since_strike_def by blast+
    then have "gm_val (ConsumedEventCounts ip w now' ?d2) k = (if ?s \<le> time_unix now then ?c else 0)"
      and "event_sum (unmap ip) k ?s ?d2 \<le> ?n + ?old ?s" by (simp_all add: c)
    then show ?thesis using mono future [of ?s] by (cases "?s \<le> time_unix now") simp_all
  qed
  moreover have "gm_val (SumEventCounts ip kinds ?s ?d2) k = event_sum (unmap ip) k ?s ?d2"
    using assms(5) by (simp add: gm_val_SumEventCounts)
  ultimately show ?thesis
    using n0 unfolding long_window_counts_def gm_val_long_counts
    by (auto simp: gm_val_def [of "SumEventCounts ip kinds ?s ?d2"] Let_def split: option.splits)
qed

definition demo_counts :: db where
  "demo_counts = empty_db\<lparr>db_events := [((V4 1, ''ssh_fail'', 0), 5)]\<rparr>"

theorem strike_consumes_long_evidence_witness:
  "gm_val (long_window_counts (V4 1) [''ssh_fail''] (24 * Hour) Hour
      (foldl count_step (ConsumeEventCounts (V4 1) [(24 * Hour, [''ssh_fail''])] 0 demo_counts)
        [CIncr (V4 1) ''ssh_fail'' 3600])) ''ssh_fail''
    \<le> increments (V4 1) ''ssh_fail'' [CIncr (V4 1) ''ssh_fail'' 3600]"
  by (rule strike_consumes_long_evidence)
    (simp_all add: demo_counts_def empty_db_def counters_ok_def gm_ok_def HourBucket_eq duration_units)

end
