(* ===== verification/Retention.thy ===== *)
theory Retention
  imports Store
begin

text \<open>
  Retention pruning, \<open>internal/store/retention.go\<close>: the selection predicates, the batched
  delete loop, the prune run and its dry run.  Main results: the batched loop deletes exactly
  the selected rows although the selection is evaluated again for every batch, the dry run
  reports exactly what a run deletes, and no run ever deletes the newest strike of a banned
  address, an offender with history or a ban, or an audit row without the acknowledgement.
  \<open>ReclaimSpace\<close> (\<open>VACUUM\<close>) does not change any row and is not modelled.
\<close>

section \<open>Policy and selection\<close>

record retention_policy =
  rp_strikes :: duration
  rp_audit :: duration
  rp_ai_usage :: duration
  rp_audit_prune_acknowledged :: bool

record prune_stat =
  ps_table :: string
  ps_window :: duration
  ps_count :: int

definition retentionBatchSize :: nat where "retentionBatchSize = 500"

text \<open>\<open>now.Add(-window).UTC().Format(time.RFC3339)\<close>: the text of the instant cut to whole seconds.\<close>

definition cutoffRFC3339 :: "time \<Rightarrow> duration \<Rightarrow> time" where
  "cutoffRFC3339 now window = unix_time (time_unix (now - window))"

definition strikePruneWhere :: "time \<Rightarrow> (addr, ban_row) gomap \<Rightarrow> strike_row list \<Rightarrow> strike_row \<Rightarrow> bool" where
  "strikePruneWhere cutoff bans rows s \<longleftrightarrow>
     text_less (sr_recorded_at s) cutoff
     \<and> \<not> (gm_get bans (sr_ip s) \<noteq> None \<and> Some (sr_id s) = map_option sr_id (max_strike (sr_ip s) rows))"

definition offenderPruneWhere :: "(addr, ban_row) gomap \<Rightarrow> strike_row list \<Rightarrow> addr \<Rightarrow> bool" where
  "offenderPruneWhere bans rows ip \<longleftrightarrow> (\<forall>s \<in> set rows. sr_ip s \<noteq> ip) \<and> gm_get bans ip = None"

section \<open>The batched delete\<close>

text \<open>\<open>DELETE ... WHERE id IN (SELECT ... LIMIT n)\<close>: at most \<open>n\<close> of the selected rows.\<close>

fun del_first :: "nat \<Rightarrow> ('a \<Rightarrow> bool) \<Rightarrow> 'a list \<Rightarrow> 'a list" where
  "del_first 0 P xs = xs"
| "del_first (Suc n) P [] = []"
| "del_first (Suc n) P (x # xs) = (if P x then del_first n P xs else x # del_first (Suc n) P xs)"

lemma length_del_first: "length (del_first n P xs) = length xs - min n (length (filter P xs))"
proof (induction n P xs rule: del_first.induct)
  case (3 n P x xs)
  have "Suc n \<le> length (filter P xs) \<Longrightarrow> Suc n \<le> length xs"
    using length_filter_le [of P xs] by (rule order_trans [rotated])
  with 3 show ?case by (auto simp: min_def Suc_diff_le Suc_diff_Suc)
qed simp_all

text \<open>
  The loop: the selection \<open>sel\<close> sees the table of the moment, \<open>alive i\<close> is the context check
  before batch \<open>i\<close>.  The result is the number of deleted rows, whether the context ended the
  loop, and the table.
\<close>

function deleteBatched ::
  "(nat \<Rightarrow> bool) \<Rightarrow> ('a list \<Rightarrow> 'a \<Rightarrow> bool) \<Rightarrow> nat \<Rightarrow> int \<Rightarrow> 'a list \<Rightarrow> int \<times> bool \<times> 'a list" where
  "deleteBatched alive sel i acc rows =
     (if \<not> alive i then (acc, True, rows)
      else
        let rows' = del_first retentionBatchSize (sel rows) rows;
            n = length rows - length rows'
        in if n < retentionBatchSize then (acc + int n, False, rows')
           else deleteBatched alive sel (Suc i) (acc + int n) rows')"
  by pat_completeness auto
termination
  by (relation "measure (\<lambda>(alive, sel, i, acc, rows). length rows)")
    (auto simp: length_del_first retentionBatchSize_def)

declare deleteBatched.simps [simp del]

section \<open>Runs\<close>

definition stat :: "string \<Rightarrow> duration \<Rightarrow> int \<Rightarrow> prune_stat" where
  "stat table window n = \<lparr>ps_table = table, ps_window = window, ps_count = n\<rparr>"

definition CountPruneCandidates :: "retention_policy \<Rightarrow> time \<Rightarrow> db \<Rightarrow> prune_stat list" where
  "CountPruneCandidates pol now d =
     (let cs = cutoffRFC3339 now (rp_strikes pol);
          old = strikePruneWhere cs (db_bans d) (db_strikes d);
          ca = cutoffRFC3339 now (rp_audit pol); cu = cutoffRFC3339 now (rp_ai_usage pol)
      in (if rp_strikes pol = 0 then []
          else [stat ''strikes'' (rp_strikes pol) (int (length (filter old (db_strikes d)))),
                stat ''offenders'' (rp_strikes pol)
                  (int (length (filter (\<lambda>(ip, r). \<not> (\<exists>s \<in> set (db_strikes d). sr_ip s = ip \<and> \<not> old s)
                     \<and> gm_get (db_bans d) ip = None) (db_offenders d))))])
         @ (if rp_audit pol = 0 then []
            else [stat ''audit_log'' (rp_audit pol)
                    (int (length (filter (\<lambda>r. text_less (au_recorded_at r) ca) (db_audit d))))])
         @ (if rp_ai_usage pol = 0 then []
            else [stat ''ai_usage'' (rp_ai_usage pol)
                    (int (length (filter (\<lambda>r. text_less (ur_called_at r) cu) (db_usage d))))]))"

text \<open>
  The table stages of \<open>PruneRetention\<close>.  Each returns the statistics of the tables it
  finished and whether the context ended the run.
\<close>

definition prune_strikes ::
  "(string \<Rightarrow> nat \<Rightarrow> bool) \<Rightarrow> retention_policy \<Rightarrow> time \<Rightarrow> db \<Rightarrow> prune_stat list \<times> bool \<times> db" where
  "prune_strikes alive pol now d =
     (if \<not> rp_strikes pol > 0 then ([], False, d)
      else
        let w = rp_strikes pol; cutoff = cutoffRFC3339 now w;
            (n, stop, rows) = deleteBatched (alive ''strikes'') (strikePruneWhere cutoff (db_bans d)) 0 0 (db_strikes d);
            d1 = d\<lparr>db_strikes := rows\<rparr>
        in if stop then ([], True, d1)
           else
             let (m, stop, offs) = deleteBatched (alive ''offenders'')
                   (\<lambda>_ (ip, r). offenderPruneWhere (db_bans d1) (db_strikes d1) ip) 0 0 (db_offenders d1);
                 d2 = d1\<lparr>db_offenders := offs\<rparr>
             in if stop then ([stat ''strikes'' w n], True, d2)
                else ([stat ''strikes'' w n, stat ''offenders'' w m], False, d2))"

definition prune_audit ::
  "(string \<Rightarrow> nat \<Rightarrow> bool) \<Rightarrow> retention_policy \<Rightarrow> time \<Rightarrow> db \<Rightarrow> prune_stat list \<times> bool \<times> bool \<times> db" where
  "prune_audit alive pol now d =
     (if \<not> rp_audit pol > 0 then ([], False, False, d)
      else if \<not> rp_audit_prune_acknowledged pol then ([], True, False, d)
      else
        let w = rp_audit pol; cutoff = cutoffRFC3339 now w;
            (n, stop, rows) = deleteBatched (alive ''audit_log'') (\<lambda>_ r. text_less (au_recorded_at r) cutoff) 0 0 (db_audit d);
            d1 = d\<lparr>db_audit := rows\<rparr>
        in if stop then ([], False, True, d1) else ([stat ''audit_log'' w n], False, False, d1))"

definition prune_usage ::
  "(string \<Rightarrow> nat \<Rightarrow> bool) \<Rightarrow> retention_policy \<Rightarrow> time \<Rightarrow> db \<Rightarrow> prune_stat list \<times> bool \<times> db" where
  "prune_usage alive pol now d =
     (if \<not> rp_ai_usage pol > 0 then ([], False, d)
      else
        let w = rp_ai_usage pol; cutoff = cutoffRFC3339 now w;
            (n, stop, rows) = deleteBatched (alive ''ai_usage'') (\<lambda>_ r. text_less (ur_called_at r) cutoff) 0 0 (db_usage d);
            d1 = d\<lparr>db_usage := rows\<rparr>
        in if stop then ([], True, d1) else ([stat ''ai_usage'' w n], False, d1))"

text \<open>The result: statistics, \<open>auditSkipped\<close>, whether the context ended the run, the tables.\<close>

definition PruneRetention ::
  "(string \<Rightarrow> nat \<Rightarrow> bool) \<Rightarrow> retention_policy \<Rightarrow> time \<Rightarrow> db \<Rightarrow> prune_stat list \<times> bool \<times> bool \<times> db" where
  "PruneRetention alive pol now d =
     (let (st1, stop1, d1) = prune_strikes alive pol now d
      in if stop1 then (st1, False, True, d1)
         else
           let (st2, skipped, stop2, d2) = prune_audit alive pol now d1
           in if stop2 then (st1, False, True, d2)
              else
                let (st3, stop3, d3) = prune_usage alive pol now d2
                in if stop3 then (st1 @ st2, skipped, True, d3) else (st1 @ st2 @ st3, skipped, False, d3))"

section \<open>What the batched delete does\<close>

lemma del_first_subset: "set (del_first n P xs) \<subseteq> set xs"
  by (induction n P xs rule: del_first.induct) auto

lemma del_first_keeps: "filter (\<lambda>x. \<not> P x) (del_first n P xs) = filter (\<lambda>x. \<not> P x) xs"
  by (induction n P xs rule: del_first.induct) auto

lemma del_first_all: "length (filter P xs) < n \<Longrightarrow> del_first n P xs = filter (\<lambda>x. \<not> P x) xs"
proof (induction n P xs rule: del_first.induct)
  case (3 n P x xs)
  then show ?case by (cases "P x") auto
qed auto

text \<open>A row is lost only if it was selected.\<close>

lemma del_first_mem: "x \<in> set xs \<Longrightarrow> x \<notin> set (del_first n P xs) \<Longrightarrow> P x"
  by (induction n P xs rule: del_first.induct) (auto split: if_splits)

lemma del_first_filter_len:
  "length (filter P (del_first n P xs)) = length (filter P xs) - min n (length (filter P xs))"
  by (induction n P xs rule: del_first.induct) auto

text \<open>
  A selection is stable on a table when deleting selected rows changes it for no remaining
  row; then the loop deletes exactly the rows selected at the start.
\<close>

definition stable :: "('a list \<Rightarrow> 'a \<Rightarrow> bool) \<Rightarrow> ('a \<Rightarrow> bool) \<Rightarrow> 'a list \<Rightarrow> bool" where
  "stable sel P rows \<longleftrightarrow> (\<forall>rows'. filter (\<lambda>x. \<not> P x) rows' = filter (\<lambda>x. \<not> P x) rows \<and> set rows' \<subseteq> set rows
     \<longrightarrow> (\<forall>x \<in> set rows'. sel rows' x = P x))"

lemma del_first_cong: "(\<And>x. x \<in> set xs \<Longrightarrow> P x = Q x) \<Longrightarrow> del_first n P xs = del_first n Q xs"
  by (induction n P xs rule: del_first.induct) auto

lemma deleteBatched_all:
  assumes "stable sel P rows" and "\<And>i. alive i"
  shows "deleteBatched alive sel i acc rows =
    (acc + int (length (filter P rows)), False, filter (\<lambda>x. \<not> P x) rows)"
  using assms(1)
proof (induction "length rows" arbitrary: rows acc i rule: less_induct)
  case less
  let ?rows = "del_first retentionBatchSize P rows"
  have eq: "del_first retentionBatchSize (sel rows) rows = ?rows"
    by (rule del_first_cong) (use less.prems in \<open>auto simp: stable_def\<close>)
  let ?n = "length rows - length ?rows"
  have n: "?n = min retentionBatchSize (length (filter P rows))"
    using min.coboundedI2 [OF length_filter_le [of P rows], of retentionBatchSize] by (simp add: length_del_first)
  show ?case
  proof (cases "?n < retentionBatchSize")
    case True
    then have "length (filter P rows) < retentionBatchSize" using n by simp
    then show ?thesis
      using True n by (subst deleteBatched.simps) (simp add: assms(2) eq Let_def del_first_all)
  next
    case False
    have "length ?rows < length rows" using False by (auto simp: retentionBatchSize_def)
    moreover have "stable sel P ?rows"
      using less.prems del_first_keeps [of P retentionBatchSize rows] del_first_subset [of retentionBatchSize P rows]
      unfolding stable_def by (metis (no_types, lifting) subset_trans)
    ultimately have "deleteBatched alive sel (Suc i) (acc + int ?n) ?rows =
        (acc + int ?n + int (length (filter P ?rows)), False, filter (\<lambda>x. \<not> P x) ?rows)"
      by (rule less.hyps)
    moreover have "int ?n + int (length (filter P ?rows)) = int (length (filter P rows))"
      using n by (simp add: del_first_filter_len)
    ultimately show ?thesis
      using False by (subst deleteBatched.simps) (simp add: assms(2) eq Let_def del_first_keeps)
  qed
qed

lemma stable_const: "stable (\<lambda>_. P) P rows"
  by (simp add: stable_def)

text \<open>
  Whatever the context does, the loop only loses rows that were selected at some batch; so
  what no selection ever takes survives.
\<close>

lemma deleteBatched_invariant:
  assumes "Q rows" and "\<And>xs. Q xs \<Longrightarrow> Q (del_first retentionBatchSize (sel xs) xs)"
  shows "Q (snd (snd (deleteBatched alive sel i acc rows)))"
  using assms
proof (induction alive sel i acc rows rule: deleteBatched.induct)
  case (1 alive sel i acc rows)
  let ?rows = "del_first retentionBatchSize (sel rows) rows"
  have Q: "Q ?rows" by (rule "1.prems"(2) [OF "1.prems"(1)])
  show ?case
  proof (cases "alive i \<and> \<not> length rows - length ?rows < retentionBatchSize")
    case True
    then show ?thesis
      using "1.IH" [OF _ refl refl _ Q "1.prems"(2)] by (subst deleteBatched.simps) (simp add: Let_def)
  next
    case False
    then show ?thesis using Q "1.prems"(1) by (subst deleteBatched.simps) (auto simp: Let_def)
  qed
qed

section \<open>The strike selection\<close>

lemma newest_fold:
  "sr_id (foldl (\<lambda>m x. if sr_id m < sr_id x then x else m) r rs) = Max (insert (sr_id r) (sr_id ` set rs))"
proof (induction rs arbitrary: r)
  case (Cons x rs)
  have "Max (insert (sr_id r) (insert (sr_id x) (sr_id ` set rs)))
      = Max (insert (max (sr_id r) (sr_id x)) (sr_id ` set rs))"
    by (cases "rs = []") (auto simp: max.assoc)
  then show ?case using Cons.IH by (auto simp: max_def)
qed simp

lemma newest_id:
  "map_option sr_id (max_strike ip rows) =
     (if \<exists>r \<in> set rows. sr_ip r = ip then Some (Max (sr_id ` {r \<in> set rows. sr_ip r = ip})) else None)"
proof (cases "filter (\<lambda>r. sr_ip r = ip) rows")
  case Nil
  then show ?thesis by (auto simp: max_strike_def filter_empty_conv)
next
  case (Cons r rs)
  have "{r \<in> set rows. sr_ip r = ip} = set (r # rs)" unfolding Cons [symmetric] by auto
  then show ?thesis by (auto simp: max_strike_def Cons newest_fold)
qed

text \<open>
  Seen from a table with fewer rows, a row still selected was selected in the full table:
  the newest row of an address is the newest of any table that still holds it.
\<close>

lemma strikePruneWhere_mono:
  assumes "strikePruneWhere c bans rows' x" and "set rows' \<subseteq> set rows" and "x \<in> set rows'"
  shows "strikePruneWhere c bans rows x"
proof -
  have "Some (sr_id x) = map_option sr_id (max_strike (sr_ip x) rows')"
    if "Some (sr_id x) = map_option sr_id (max_strike (sr_ip x) rows)"
  proof -
    let ?A = "sr_id ` {r \<in> set rows. sr_ip r = sr_ip x}" and ?B = "sr_id ` {r \<in> set rows'. sr_ip r = sr_ip x}"
    have top: "sr_id x = Max ?A" using that by (simp add: newest_id split: if_splits)
    have sub: "?B \<subseteq> ?A" and mem: "sr_id x \<in> ?B" using assms(2,3) by auto
    have "y \<le> sr_id x" if "y \<in> ?B" for y unfolding top by (rule Max_ge) (use that sub in auto)
    with mem have "Max ?B = sr_id x" by (intro Max_eqI) auto
    then show ?thesis using assms(3) by (auto simp: newest_id)
  qed
  then show ?thesis using assms(1) by (auto simp: strikePruneWhere_def)
qed

lemma stable_strikes: "stable (strikePruneWhere c bans) (strikePruneWhere c bans rows) rows"
  unfolding stable_def
proof (intro allI impI ballI)
  fix rows' x
  assume a: "filter (\<lambda>x. \<not> strikePruneWhere c bans rows x) rows' =
      filter (\<lambda>x. \<not> strikePruneWhere c bans rows x) rows \<and> set rows' \<subseteq> set rows" and x: "x \<in> set rows'"
  show "strikePruneWhere c bans rows' x = strikePruneWhere c bans rows x"
  proof
    assume "strikePruneWhere c bans rows' x"
    then show "strikePruneWhere c bans rows x" using a x by (auto intro: strikePruneWhere_mono)
  next
    assume P: "strikePruneWhere c bans rows x"
    show "strikePruneWhere c bans rows' x"
    proof (rule ccontr)
      assume "\<not> strikePruneWhere c bans rows' x"
      with P have ban: "gm_get bans (sr_ip x) \<noteq> None"
        and top': "Some (sr_id x) = map_option sr_id (max_strike (sr_ip x) rows')"
        by (auto simp: strikePruneWhere_def)
      let ?A = "sr_id ` {r \<in> set rows. sr_ip r = sr_ip x}" and ?B = "sr_id ` {r \<in> set rows'. sr_ip r = sr_ip x}"
      have "Max ?A \<in> ?A" using a x by (intro Max_in) auto
      then obtain m where m: "m \<in> set rows" "sr_ip m = sr_ip x" "sr_id m = Max ?A" by auto
      then have "\<not> strikePruneWhere c bans rows m"
        using ban by (auto simp: strikePruneWhere_def newest_id)
      then have "m \<in> set (filter (\<lambda>x. \<not> strikePruneWhere c bans rows x) rows')" using a m(1) by simp
      then have "sr_id m \<in> ?B" using m(2) by auto
      then have "sr_id m \<le> Max ?B" by (intro Max_ge) auto
      moreover have "Max ?B = sr_id x" using top' x by (auto simp: newest_id split: if_splits)
      moreover have "sr_id x \<le> Max ?A" using a x by (intro Max_ge) auto
      ultimately have "sr_id x = Max ?A" using m(3) by simp
      then have "\<not> strikePruneWhere c bans rows x"
        using ban a x by (auto simp: strikePruneWhere_def newest_id)
      then show False using P by simp
    qed
  qed
qed

section \<open>The dry run\<close>

text \<open>
  The tables an uninterrupted run is meant to leave: every selected row gone, every other row
  in place, and an unacknowledged audit log whole.
\<close>

definition kept_strikes :: "retention_policy \<Rightarrow> time \<Rightarrow> db \<Rightarrow> strike_row list" where
  "kept_strikes pol now d =
     filter (\<lambda>s. \<not> strikePruneWhere (cutoffRFC3339 now (rp_strikes pol)) (db_bans d) (db_strikes d) s) (db_strikes d)"

definition prune_offender :: "retention_policy \<Rightarrow> time \<Rightarrow> db \<Rightarrow> addr \<Rightarrow> bool" where
  "prune_offender pol now d ip \<longleftrightarrow> offenderPruneWhere (db_bans d) (kept_strikes pol now d) ip"

definition kept_audit :: "retention_policy \<Rightarrow> time \<Rightarrow> db \<Rightarrow> audit_row list" where
  "kept_audit pol now d = filter (\<lambda>r. \<not> text_less (au_recorded_at r) (cutoffRFC3339 now (rp_audit pol))) (db_audit d)"

definition kept_usage :: "retention_policy \<Rightarrow> time \<Rightarrow> db \<Rightarrow> usage_row list" where
  "kept_usage pol now d = filter (\<lambda>r. \<not> text_less (ur_called_at r) (cutoffRFC3339 now (rp_ai_usage pol))) (db_usage d)"

definition pruned_db :: "retention_policy \<Rightarrow> time \<Rightarrow> db \<Rightarrow> db" where
  "pruned_db pol now d = d\<lparr>
     db_strikes := if rp_strikes pol = 0 then db_strikes d else kept_strikes pol now d,
     db_offenders := if rp_strikes pol = 0 then db_offenders d
       else filter (\<lambda>(ip, r). \<not> prune_offender pol now d ip) (db_offenders d),
     db_audit := if rp_audit pol = 0 \<or> \<not> rp_audit_prune_acknowledged pol then db_audit d else kept_audit pol now d,
     db_usage := if rp_ai_usage pol = 0 then db_usage d else kept_usage pol now d\<rparr>"

text \<open>What the run reports: the dry run's counts, less the audit log when it is not acknowledged.\<close>

definition reported :: "retention_policy \<Rightarrow> time \<Rightarrow> db \<Rightarrow> prune_stat list" where
  "reported pol now d =
     filter (\<lambda>s. ps_table s = ''audit_log'' \<longrightarrow> rp_audit_prune_acknowledged pol) (CountPruneCandidates pol now d)"

definition rows_in :: "string \<Rightarrow> db \<Rightarrow> int" where
  "rows_in table d =
     (if table = ''strikes'' then int (length (db_strikes d))
      else if table = ''offenders'' then int (length (db_offenders d))
      else if table = ''audit_log'' then int (length (db_audit d))
      else if table = ''ai_usage'' then int (length (db_usage d)) else 0)"

lemma prune_offender_counted:
  "prune_offender pol now d ip \<longleftrightarrow>
     \<not> (\<exists>s \<in> set (db_strikes d). sr_ip s = ip
         \<and> \<not> strikePruneWhere (cutoffRFC3339 now (rp_strikes pol)) (db_bans d) (db_strikes d) s)
     \<and> gm_get (db_bans d) ip = None"
  by (auto simp: prune_offender_def kept_strikes_def offenderPruneWhere_def)

lemma length_split: "int (length (filter P xs)) = int (length xs) - int (length (filter (\<lambda>x. \<not> P x) xs))"
  using sum_length_filter_compl [of P xs] by linarith

lemma prune_strikes_all:
  assumes "0 < rp_strikes pol" and "\<And>t i. alive t i"
  shows "prune_strikes alive pol now d =
    ([stat ''strikes'' (rp_strikes pol)
        (int (length (filter (strikePruneWhere (cutoffRFC3339 now (rp_strikes pol)) (db_bans d) (db_strikes d)) (db_strikes d)))),
      stat ''offenders'' (rp_strikes pol) (int (length (filter (\<lambda>(ip, r). prune_offender pol now d ip) (db_offenders d))))],
     False, d\<lparr>db_strikes := kept_strikes pol now d,
       db_offenders := filter (\<lambda>(ip, r). \<not> prune_offender pol now d ip) (db_offenders d)\<rparr>)"
proof -
  have neg: "(\<lambda>x. \<not> (case x of (ip, r) \<Rightarrow> Q ip)) = (\<lambda>(ip, r). \<not> Q ip)" for Q :: "addr \<Rightarrow> bool" by auto
  show ?thesis
    using assms(1)
    by (simp add: prune_strikes_def Let_def deleteBatched_all [OF stable_strikes assms(2)]
        deleteBatched_all [OF stable_const assms(2)] prune_offender_def kept_strikes_def neg)
qed

lemma prune_audit_all:
  assumes "0 < rp_audit pol" and "rp_audit_prune_acknowledged pol" and "\<And>t i. alive t i"
  shows "prune_audit alive pol now d =
    ([stat ''audit_log'' (rp_audit pol)
        (int (length (filter (\<lambda>r. text_less (au_recorded_at r) (cutoffRFC3339 now (rp_audit pol))) (db_audit d))))],
     False, False, d\<lparr>db_audit := kept_audit pol now d\<rparr>)"
  using assms(1,2) by (simp add: prune_audit_def Let_def deleteBatched_all [OF stable_const assms(3)] kept_audit_def)

lemma prune_usage_all:
  assumes "0 < rp_ai_usage pol" and "\<And>t i. alive t i"
  shows "prune_usage alive pol now d =
    ([stat ''ai_usage'' (rp_ai_usage pol)
        (int (length (filter (\<lambda>r. text_less (ur_called_at r) (cutoffRFC3339 now (rp_ai_usage pol))) (db_usage d))))],
     False, d\<lparr>db_usage := kept_usage pol now d\<rparr>)"
  using assms(1) by (simp add: prune_usage_def Let_def deleteBatched_all [OF stable_const assms(2)] kept_usage_def)

lemma PruneRetention_all:
  assumes "0 \<le> rp_strikes pol" "0 \<le> rp_audit pol" "0 \<le> rp_ai_usage pol" and alive: "\<And>t i. alive t i"
  shows "PruneRetention alive pol now d =
    (reported pol now d, rp_audit pol \<noteq> 0 \<and> \<not> rp_audit_prune_acknowledged pol, False, pruned_db pol now d)"
proof -
  let ?s = "rp_strikes pol = 0" and ?u = "rp_ai_usage pol = 0" and ?a = "rp_audit pol = 0"
  obtain st1 d1 where 1: "prune_strikes alive pol now d = (st1, False, d1)"
    and st1: "st1 = (if ?s then []
       else [stat ''strikes'' (rp_strikes pol)
        (int (length (filter (strikePruneWhere (cutoffRFC3339 now (rp_strikes pol)) (db_bans d) (db_strikes d)) (db_strikes d)))),
      stat ''offenders'' (rp_strikes pol) (int (length (filter (\<lambda>(ip, r). prune_offender pol now d ip) (db_offenders d))))])"
    and d1: "d1 = (if ?s then d else d\<lparr>db_strikes := kept_strikes pol now d,
       db_offenders := filter (\<lambda>(ip, r). \<not> prune_offender pol now d ip) (db_offenders d)\<rparr>)"
    using prune_strikes_all [of pol alive now d, OF _ alive] assms(1) by (cases ?s) (auto simp: prune_strikes_def)
  have d1': "db_audit d1 = db_audit d" "db_usage d1 = db_usage d" by (simp_all add: d1)
  obtain st2 d2 where 2: "prune_audit alive pol now d1 = (st2, \<not> ?a \<and> \<not> rp_audit_prune_acknowledged pol, False, d2)"
    and st2: "st2 = (if ?a \<or> \<not> rp_audit_prune_acknowledged pol then []
      else [stat ''audit_log'' (rp_audit pol)
        (int (length (filter (\<lambda>r. text_less (au_recorded_at r) (cutoffRFC3339 now (rp_audit pol))) (db_audit d))))])"
    and d2: "d2 = (if ?a \<or> \<not> rp_audit_prune_acknowledged pol then d1 else d1\<lparr>db_audit := kept_audit pol now d\<rparr>)"
    using prune_audit_all [of pol alive now d1, OF _ _ alive] assms(2) d1'
    by (cases "?a \<or> \<not> rp_audit_prune_acknowledged pol") (auto simp: prune_audit_def kept_audit_def)
  have d2': "db_usage d2 = db_usage d" by (simp add: d2 d1')
  obtain st3 d3 where 3: "prune_usage alive pol now d2 = (st3, False, d3)"
    and st3: "st3 = (if ?u then []
      else [stat ''ai_usage'' (rp_ai_usage pol)
        (int (length (filter (\<lambda>r. text_less (ur_called_at r) (cutoffRFC3339 now (rp_ai_usage pol))) (db_usage d))))])"
    and d3: "d3 = (if ?u then d2 else d2\<lparr>db_usage := kept_usage pol now d\<rparr>)"
    using prune_usage_all [of pol alive now d2, OF _ alive] assms(3) d2'
    by (cases ?u) (auto simp: prune_usage_def kept_usage_def)
  have db: "d3 = pruned_db pol now d" by (simp add: d3 d2 d1 pruned_db_def)
  have st: "st1 @ st2 @ st3 = reported pol now d"
    by (simp add: st1 st2 st3 reported_def CountPruneCandidates_def Let_def stat_def prune_offender_counted)
  show ?thesis by (simp add: PruneRetention_def 1 2 3 db flip: st)
qed

lemma reported_cases:
  assumes "s \<in> set (reported pol now d)"
  obtains (strikes) "rp_strikes pol \<noteq> 0" "s = stat ''strikes'' (rp_strikes pol) (int (length
      (filter (strikePruneWhere (cutoffRFC3339 now (rp_strikes pol)) (db_bans d) (db_strikes d)) (db_strikes d))))"
  | (offenders) "rp_strikes pol \<noteq> 0" "s = stat ''offenders'' (rp_strikes pol) (int (length
      (filter (\<lambda>(ip, r). prune_offender pol now d ip) (db_offenders d))))"
  | (audit) "rp_audit pol \<noteq> 0" "rp_audit_prune_acknowledged pol" "s = stat ''audit_log'' (rp_audit pol) (int (length
      (filter (\<lambda>r. text_less (au_recorded_at r) (cutoffRFC3339 now (rp_audit pol))) (db_audit d))))"
  | (usage) "rp_ai_usage pol \<noteq> 0" "s = stat ''ai_usage'' (rp_ai_usage pol) (int (length
      (filter (\<lambda>r. text_less (ur_called_at r) (cutoffRFC3339 now (rp_ai_usage pol))) (db_usage d))))"
  using assms unfolding prune_offender_counted
  by (simp add: reported_def CountPruneCandidates_def Let_def split: if_splits) (auto simp: stat_def)

lemma reported_lost:
  assumes "s \<in> set (reported pol now d)"
  shows "ps_count s = rows_in (ps_table s) d - rows_in (ps_table s) (pruned_db pol now d)"
  using assms
proof (cases rule: reported_cases)
  case strikes
  then show ?thesis
    using length_split [of "strikePruneWhere (cutoffRFC3339 now (rp_strikes pol)) (db_bans d) (db_strikes d)" "db_strikes d"]
    by (simp add: stat_def rows_in_def pruned_db_def kept_strikes_def)
next
  case offenders
  have neg: "(\<lambda>x. \<not> (case x of (ip, r) \<Rightarrow> prune_offender pol now d ip)) = (\<lambda>(ip, r). \<not> prune_offender pol now d ip)" by auto
  show ?thesis
    using offenders length_split [of "\<lambda>(ip, r). prune_offender pol now d ip" "db_offenders d"] unfolding neg
    by (simp add: stat_def rows_in_def pruned_db_def)
next
  case audit
  then show ?thesis
    using length_split [of "\<lambda>r. text_less (au_recorded_at r) (cutoffRFC3339 now (rp_audit pol))" "db_audit d"]
    by (simp add: stat_def rows_in_def pruned_db_def kept_audit_def)
next
  case usage
  then show ?thesis
    using length_split [of "\<lambda>r. text_less (ur_called_at r) (cutoffRFC3339 now (rp_ai_usage pol))" "db_usage d"]
    by (simp add: stat_def rows_in_def pruned_db_def kept_usage_def)
qed

text \<open>
  C34 (equivalence).  The dry run is exact.  When no context interrupts it, \<open>PruneRetention\<close>
  reports for each table the count that \<open>CountPruneCandidates\<close> announced on the same database,
  each of those tables has lost just that number of rows, and what is left is each table without
  the rows the selection names and the rest of the database unchanged, although the run deletes in
  batches and evaluates the selection again for every batch.  The one announced count a run does
  not follow is that of an audit log whose pruning is not acknowledged: the run then leaves the
  log alone, reports nothing for it and says that it was skipped.
\<close>

theorem retention_dry_run_exact:
  assumes "0 \<le> rp_strikes pol" "0 \<le> rp_audit pol" "0 \<le> rp_ai_usage pol" and "\<And>t i. alive t i"
  shows "\<exists>d'. PruneRetention alive pol now d =
      (filter (\<lambda>s. ps_table s = ''audit_log'' \<longrightarrow> rp_audit_prune_acknowledged pol) (CountPruneCandidates pol now d),
       rp_audit pol \<noteq> 0 \<and> \<not> rp_audit_prune_acknowledged pol, False, d')
    \<and> (\<forall>s \<in> set (CountPruneCandidates pol now d). (ps_table s = ''audit_log'' \<longrightarrow> rp_audit_prune_acknowledged pol) \<longrightarrow>
         ps_count s = rows_in (ps_table s) d - rows_in (ps_table s) d')
    \<and> (\<not> rp_audit_prune_acknowledged pol \<longrightarrow> db_audit d' = db_audit d)
    \<and> d' = pruned_db pol now d"
  using PruneRetention_all [OF assms] reported_lost [of _ pol now d]
  by (auto simp: reported_def pruned_db_def)

section \<open>What a run may delete\<close>

lemma subseq_del_first: "subseq (del_first n P xs) xs"
  by (induction n P xs rule: del_first.induct) auto

lemma ids_ok_subseq: "ids_ok (map f xs) n \<Longrightarrow> subseq ys xs \<Longrightarrow> ids_ok (map f ys) n"
proof -
  assume ok: "ids_ok (map f xs) n" and sub: "subseq ys xs"
  have "sorted_wrt (<) (map f ys)"
    by (rule sorted_wrt_subseq [OF subseq_map [OF sub]]) (use ok in \<open>simp add: ids_ok_def\<close>)
  moreover have "set (map f ys) \<subseteq> set (map f xs)" by (rule subseq_set [OF subseq_map [OF sub]])
  ultimately show ?thesis using ok by (auto simp: ids_ok_def)
qed

lemma gm_ok_subseq: "gm_ok m \<Longrightarrow> subseq m' m \<Longrightarrow> gm_ok m'"
  unfolding gm_ok_def by (meson distinct_subseq subseq_map)

text \<open>The loop on a selection that only shrinks: what is lost was selected at the start.\<close>

lemma deleteBatched_loses:
  assumes "\<And>xs x. set xs \<subseteq> set rows \<Longrightarrow> x \<in> set xs \<Longrightarrow> sel xs x \<Longrightarrow> P x"
  shows "subseq (snd (snd (deleteBatched alive sel i acc rows))) rows
    \<and> (\<forall>x \<in> set rows. x \<notin> set (snd (snd (deleteBatched alive sel i acc rows))) \<longrightarrow> P x)"
proof (rule deleteBatched_invariant [where Q = "\<lambda>xs. subseq xs rows \<and> (\<forall>x \<in> set rows. x \<notin> set xs \<longrightarrow> P x)"])
  fix xs
  assume Q: "subseq xs rows \<and> (\<forall>x \<in> set rows. x \<notin> set xs \<longrightarrow> P x)"
  then have sub: "set xs \<subseteq> set rows" by (meson subseq_set)
  show "subseq (del_first retentionBatchSize (sel xs) xs) rows
      \<and> (\<forall>x \<in> set rows. x \<notin> set (del_first retentionBatchSize (sel xs) xs) \<longrightarrow> P x)"
    using Q subseq_del_first [of retentionBatchSize "sel xs" xs] assms [OF sub] del_first_mem [of _ xs retentionBatchSize "sel xs"]
    by (meson subseq_order.trans)
qed simp

lemma prune_strikes_effect:
  fixes d d' :: db
  assumes "prune_strikes alive pol now d = (st, stop, d')"
  shows "d' = d\<lparr>db_strikes := db_strikes d', db_offenders := db_offenders d'\<rparr>"
    and "subseq (db_strikes d') (db_strikes d)" and "subseq (db_offenders d') (db_offenders d)"
    and "\<forall>s \<in> set (db_strikes d). s \<notin> set (db_strikes d') \<longrightarrow>
      0 < rp_strikes pol \<and> strikePruneWhere (cutoffRFC3339 now (rp_strikes pol)) (db_bans d) (db_strikes d) s"
    and "\<forall>(ip, r) \<in> set (db_offenders d). (ip, r) \<notin> set (db_offenders d') \<longrightarrow>
      offenderPruneWhere (db_bans d) (db_strikes d') ip"
proof -
  let ?c = "cutoffRFC3339 now (rp_strikes pol)"
  obtain n stop1 rows where 1: "deleteBatched (alive ''strikes'') (strikePruneWhere ?c (db_bans d)) 0 0 (db_strikes d)
      = (n, stop1, rows)" by (metis prod_cases3)
  obtain m stop2 offs where 2: "deleteBatched (alive ''offenders'') (\<lambda>_ (ip, r). offenderPruneWhere (db_bans d) rows ip)
      0 0 (db_offenders d) = (m, stop2, offs)" by (metis prod_cases3)
  have rows: "subseq rows (db_strikes d)"
      "\<forall>s \<in> set (db_strikes d). s \<notin> set rows \<longrightarrow> strikePruneWhere ?c (db_bans d) (db_strikes d) s"
    using deleteBatched_loses [of "db_strikes d" "strikePruneWhere ?c (db_bans d)"
        "strikePruneWhere ?c (db_bans d) (db_strikes d)" "alive ''strikes''" 0 0] strikePruneWhere_mono 1
    by auto
  have offs: "subseq offs (db_offenders d)"
      "\<forall>x \<in> set (db_offenders d). x \<notin> set offs \<longrightarrow> (case x of (ip, r) \<Rightarrow> offenderPruneWhere (db_bans d) rows ip)"
    using deleteBatched_loses [of "db_offenders d" "\<lambda>_ (ip, r). offenderPruneWhere (db_bans d) rows ip"
        "\<lambda>(ip, r). offenderPruneWhere (db_bans d) rows ip" "alive ''offenders''" 0 0] 2
    by auto
  have d': "d' = (if \<not> rp_strikes pol > 0 then d else if stop1 then d\<lparr>db_strikes := rows\<rparr>
      else d\<lparr>db_strikes := rows, db_offenders := offs\<rparr>)"
    using assms 1 2 by (auto simp: prune_strikes_def Let_def split: if_splits)
  show "d' = d\<lparr>db_strikes := db_strikes d', db_offenders := db_offenders d'\<rparr>" by (simp add: d')
  show "subseq (db_strikes d') (db_strikes d)" "subseq (db_offenders d') (db_offenders d)"
    using rows offs by (simp_all add: d')
  show "\<forall>s \<in> set (db_strikes d). s \<notin> set (db_strikes d') \<longrightarrow>
      0 < rp_strikes pol \<and> strikePruneWhere ?c (db_bans d) (db_strikes d) s"
    using rows(2) by (auto simp: d' split: if_splits)
  show "\<forall>(ip, r) \<in> set (db_offenders d). (ip, r) \<notin> set (db_offenders d') \<longrightarrow>
      offenderPruneWhere (db_bans d) (db_strikes d') ip"
    using offs(2) by (auto simp: d' split: if_splits)
qed

lemma prune_audit_effect:
  assumes "prune_audit alive pol now d = (st, sk, stop, d')"
  shows "d' = d\<lparr>db_audit := db_audit d'\<rparr>" and "subseq (db_audit d') (db_audit d)"
    and "\<forall>r \<in> set (db_audit d). r \<notin> set (db_audit d') \<longrightarrow>
      0 < rp_audit pol \<and> rp_audit_prune_acknowledged pol \<and> text_less (au_recorded_at r) (cutoffRFC3339 now (rp_audit pol))"
proof -
  let ?P = "\<lambda>r. text_less (au_recorded_at r) (cutoffRFC3339 now (rp_audit pol))"
  obtain n stop1 rows where 1: "deleteBatched (alive ''audit_log'') (\<lambda>_. ?P) 0 0 (db_audit d) = (n, stop1, rows)"
    by (metis prod_cases3)
  have rows: "subseq rows (db_audit d)" "\<forall>r \<in> set (db_audit d). r \<notin> set rows \<longrightarrow> ?P r"
    using deleteBatched_loses [of "db_audit d" "\<lambda>_. ?P" ?P "alive ''audit_log''" 0 0] 1 by auto
  have d': "d' = (if 0 < rp_audit pol \<and> rp_audit_prune_acknowledged pol then d\<lparr>db_audit := rows\<rparr> else d)"
    using assms 1 by (auto simp: prune_audit_def Let_def split: if_splits)
  show "d' = d\<lparr>db_audit := db_audit d'\<rparr>" by (simp add: d')
  show "subseq (db_audit d') (db_audit d)" using rows by (simp add: d')
  show "\<forall>r \<in> set (db_audit d). r \<notin> set (db_audit d') \<longrightarrow>
      0 < rp_audit pol \<and> rp_audit_prune_acknowledged pol \<and> ?P r"
    using rows(2) by (auto simp: d' split: if_splits)
qed

lemma prune_usage_effect:
  "prune_usage alive pol now d = (st, stop, d') \<Longrightarrow> d' = d\<lparr>db_usage := db_usage d'\<rparr>"
  by (auto simp: prune_usage_def Let_def split: if_splits prod.splits)

lemma PruneRetention_effect:
  fixes d d' :: db
  assumes "PruneRetention alive pol now d = (stats, skipped, stopped, d')"
  obtains st1 stop1 d1 st2 stop2 sk2 d2 where "prune_strikes alive pol now d = (st1, stop1, d1)"
    and "prune_audit alive pol now d1 = (st2, sk2, stop2, d2)"
    and "d' = d1 \<or> d' = d2\<lparr>db_usage := db_usage d'\<rparr>"
proof -
  obtain st1 stop1 d1 where 1: "prune_strikes alive pol now d = (st1, stop1, d1)" by (metis prod_cases3)
  obtain st2 sk2 stop2 d2 where 2: "prune_audit alive pol now d1 = (st2, sk2, stop2, d2)" by (metis prod_cases4)
  obtain st3 stop3 d3 where 3: "prune_usage alive pol now d2 = (st3, stop3, d3)" by (metis prod_cases3)
  have "d' = d1 \<or> d' = d2\<lparr>db_usage := db_usage d'\<rparr>"
    using assms prune_usage_effect [OF 3] by (auto simp: PruneRetention_def 1 2 3 Let_def split: if_splits)
  with that [OF 1 2] show ?thesis by blast
qed

lemma gm_get_subseq:
  assumes "gm_ok m" and "subseq m' m" and "\<And>v. gm_get m k = Some v \<Longrightarrow> (k, v) \<in> set m'"
  shows "gm_get m' k = gm_get m k"
proof (cases "gm_get m k")
  case None
  then have "k \<notin> fst ` set m'" using subseq_set [OF assms(2)] by (force simp: map_of_eq_None_iff)
  then have "gm_get m' k = None" by (simp only: map_of_eq_None_iff not_False_eq_True)
  with None show ?thesis by simp
next
  case (Some v)
  then show ?thesis using gm_in_set_get [OF gm_ok_subseq [OF assms(1,2)]] assms(3) by simp
qed

lemma strike_rows_subseq: "subseq (db_strikes d') (db_strikes d) \<Longrightarrow> strike_rows ip d' \<le> strike_rows ip d"
  unfolding strike_rows_def using list_emb_length [OF subseq_filter] by blast

lemma offender_kept:
  assumes "db_ok d" and "prune_strikes alive pol now d = (st, stop, d')"
    and "gm_get (db_bans d) ip \<noteq> None \<or> (\<exists>s \<in> set (db_strikes d'). sr_ip s = ip)"
  shows "gm_get (db_offenders d') ip = gm_get (db_offenders d) ip"
proof (rule gm_get_subseq [OF db_okD(2) [OF assms(1)] prune_strikes_effect(3) [OF assms(2)]])
  fix r
  assume "gm_get (db_offenders d) ip = Some r"
  then have "(ip, r) \<in> set (db_offenders d)" by (rule gm_get_in_set)
  moreover have "\<not> offenderPruneWhere (db_bans d) (db_strikes d') ip"
    using assms(3) by (auto simp: offenderPruneWhere_def)
  ultimately show "(ip, r) \<in> set (db_offenders d')" using prune_strikes_effect(5) [OF assms(2)] by blast
qed

lemma db_ok_prune_strikes:
  assumes "db_ok d" and "prune_strikes alive pol now d = (st, stop, d')"
  shows "db_ok d'"
proof -
  note eff = prune_strikes_effect [OF assms(2)]
  have frame: "db_bans d' = db_bans d" "db_allow d' = db_allow d" "db_state d' = db_state d"
    "db_audit d' = db_audit d" "db_audit_seq d' = db_audit_seq d" "db_strike_seq d' = db_strike_seq d"
    "db_events d' = db_events d" "db_consumed d' = db_consumed d"
    by (subst eff(1), simp)+
  show ?thesis
  proof (rule db_okI)
    fix ip
    show "int (strike_rows ip d') \<le> GetStrikeCount ip d'"
    proof (cases "\<exists>s \<in> set (db_strikes d'). sr_ip s = ip")
      case True
      then have "GetStrikeCount ip d' = GetStrikeCount ip d"
        using offender_kept [OF assms] by (simp add: GetStrikeCount_def)
      then show ?thesis using db_okD(7) [OF assms(1), of ip] strike_rows_subseq [OF eff(2), of ip] by simp
    next
      case False
      then have "strike_rows ip d' = 0" by (auto simp: strike_rows_def filter_empty_conv)
      moreover have "0 \<le> GetStrikeCount ip d'"
      proof (cases "gm_get (db_offenders d') ip")
        case (Some r)
        then have "(ip, r) \<in> set (db_offenders d)" using subseq_set [OF eff(3)] by (auto dest: gm_get_in_set)
        then have "GetStrikeCount ip d = of_total_strikes r"
          using gm_in_set_get [OF db_okD(2) [OF assms(1)]] by (simp add: GetStrikeCount_def)
        then show ?thesis using db_okD(7) [OF assms(1), of ip] Some by (simp add: GetStrikeCount_def)
      qed (simp add: GetStrikeCount_def)
      ultimately show ?thesis by simp
    qed
  qed (use assms(1) eff(2,3) frame in
      \<open>auto simp: db_ok_def counters_ok_def intro: ids_ok_subseq gm_ok_subseq\<close>)
qed

lemma db_ok_PruneRetention [ezy_inv]:
  assumes "db_ok d" and "PruneRetention alive pol now d = (stats, skipped, stopped, d')"
  shows "db_ok d'"
proof -
  obtain st1 stop1 d1 st2 stop2 sk2 d2 where 1: "prune_strikes alive pol now d = (st1, stop1, d1)"
    and 2: "prune_audit alive pol now d1 = (st2, sk2, stop2, d2)"
    and d': "d' = d1 \<or> d' = d2\<lparr>db_usage := db_usage d'\<rparr>"
    using PruneRetention_effect [OF assms(2)] by metis
  have ok1: "db_ok d1" by (rule db_ok_prune_strikes [OF assms(1) 1])
  have "db_ok (d1\<lparr>db_audit := db_audit d2\<rparr>)"
    using ok1 ids_ok_subseq [OF db_okD(6) [OF ok1] prune_audit_effect(2) [OF 2]]
    by (auto simp: db_ok_def strike_rows_def GetStrikeCount_def counters_ok_def)
  then have "db_ok d2" using prune_audit_effect(1) [OF 2] by simp
  then show ?thesis using d' ok1 db_ok_usage [of d2 "db_usage d'"] by auto
qed

text \<open>A pruned strike of a banned address leaves a newer one behind.\<close>

lemma newer_kept:
  assumes P: "strikePruneWhere c bans rows s" and s: "s \<in> set rows" and ban: "gm_get bans (sr_ip s) \<noteq> None"
    and kept: "\<forall>x \<in> set rows. x \<notin> set rows' \<longrightarrow> Q \<and> strikePruneWhere c bans rows x"
  shows "\<exists>s' \<in> set rows'. sr_ip s' = sr_ip s \<and> sr_id s < sr_id s'"
proof -
  let ?A = "sr_id ` {r \<in> set rows. sr_ip r = sr_ip s}"
  have "Max ?A \<in> ?A" using s by (intro Max_in) auto
  then obtain m where m: "m \<in> set rows" "sr_ip m = sr_ip s" "sr_id m = Max ?A" by auto
  have "\<not> strikePruneWhere c bans rows m"
    using m ban by (auto simp: strikePruneWhere_def newest_id)
  then have "m \<in> set rows'" using kept m(1) by blast
  moreover have "sr_id s \<le> Max ?A" using s by (intro Max_ge) auto
  moreover have "sr_id s \<noteq> Max ?A"
  proof -
    have "\<exists>r \<in> set rows. sr_ip r = sr_ip s" using s by blast
    then show ?thesis using P ban by (auto simp: strikePruneWhere_def newest_id)
  qed
  ultimately show ?thesis using m by (intro bexI [of _ m]) auto
qed

lemma cutoff_le: "cutoffRFC3339 now w \<le> now - w"
  by (simp add: cutoffRFC3339_def unix_time_of_time_unix_le)

text \<open>
  C35 (safety).  Whatever the configuration, and whenever the context interrupts the run, a
  retention run leaves bans, allowlist, daemon state and counters alone; a strike it deletes
  is older than the window (up to the one second of the text comparison), and when its address
  has a ban a newer strike of the address remains (so only the newest strike of a banned address
  is protected, the older ones go); the offender row of an address that has a ban or a
  remaining strike, hence its escalation count, survives; and audit rows are deleted only
  with the acknowledgement, and only aged ones.
\<close>

theorem retention_protects:
  assumes "db_ok d" and "PruneRetention alive pol now d = (stats, skipped, stopped, d')"
  shows "db_bans d' = db_bans d \<and> db_allow d' = db_allow d \<and> db_state d' = db_state d
      \<and> db_events d' = db_events d \<and> db_consumed d' = db_consumed d
    \<and> (\<forall>s \<in> set (db_strikes d). s \<notin> set (db_strikes d') \<longrightarrow>
        sr_recorded_at s < now - rp_strikes pol + Second
        \<and> (gm_get (db_bans d) (sr_ip s) \<noteq> None \<longrightarrow>
             (\<exists>s' \<in> set (db_strikes d'). sr_ip s' = sr_ip s \<and> sr_id s < sr_id s')))
    \<and> (gm_get (db_bans d) ip \<noteq> None \<or> (\<exists>s \<in> set (db_strikes d'). sr_ip s = ip)
        \<longrightarrow> GetStrikeCount ip d' = GetStrikeCount ip d)
    \<and> (\<forall>r \<in> set (db_audit d). r \<notin> set (db_audit d') \<longrightarrow>
        rp_audit_prune_acknowledged pol \<and> au_recorded_at r < now - rp_audit pol + Second)"
proof -
  obtain st1 stop1 d1 st2 stop2 sk2 d2 where 1: "prune_strikes alive pol now d = (st1, stop1, d1)"
    and 2: "prune_audit alive pol now d1 = (st2, sk2, stop2, d2)"
    and d': "d' = d1 \<or> d' = d2\<lparr>db_usage := db_usage d'\<rparr>"
    using PruneRetention_effect [OF assms(2)] by metis
  note eff = prune_strikes_effect [OF 1]
  have f1: "db_bans d1 = db_bans d" "db_allow d1 = db_allow d" "db_state d1 = db_state d"
    "db_events d1 = db_events d" "db_consumed d1 = db_consumed d" "db_audit d1 = db_audit d"
    by (subst eff(1), simp)+
  have f2: "db_bans d2 = db_bans d1" "db_allow d2 = db_allow d1" "db_state d2 = db_state d1"
    "db_events d2 = db_events d1" "db_consumed d2 = db_consumed d1" "db_strikes d2 = db_strikes d1"
    "db_offenders d2 = db_offenders d1"
    by (subst prune_audit_effect(1) [OF 2], simp)+
  have f: "db_bans d' = db_bans d1" "db_allow d' = db_allow d1" "db_state d' = db_state d1"
    "db_events d' = db_events d1" "db_consumed d' = db_consumed d1" "db_strikes d' = db_strikes d1"
    "db_offenders d' = db_offenders d1" "db_audit d' = db_audit d1 \<or> db_audit d' = db_audit d2"
    using d' f2 by (metis (no_types, lifting) db.select_convs db.surjective db.update_convs(9))+
  have old: "t < now - w + Second" if "text_less t (cutoffRFC3339 now w)" for t w
    using text_less_imp [OF that] cutoff_le [of now w] by linarith
  have strikes: "sr_recorded_at s < now - rp_strikes pol + Second
      \<and> (gm_get (db_bans d) (sr_ip s) \<noteq> None \<longrightarrow>
           (\<exists>s' \<in> set (db_strikes d1). sr_ip s' = sr_ip s \<and> sr_id s < sr_id s'))"
    if s: "s \<in> set (db_strikes d)" "s \<notin> set (db_strikes d1)" for s
  proof -
    have P: "strikePruneWhere (cutoffRFC3339 now (rp_strikes pol)) (db_bans d) (db_strikes d) s"
      using eff(4) s by blast
    then show ?thesis using newer_kept [OF P s(1) _ eff(4)] old by (auto simp: strikePruneWhere_def)
  qed
  have audit: "rp_audit_prune_acknowledged pol \<and> au_recorded_at r < now - rp_audit pol + Second"
    if "r \<in> set (db_audit d)" "r \<notin> set (db_audit d')" for r
    using that f(8) f1(6) prune_audit_effect(3) [OF 2] old by auto
  have count: "GetStrikeCount ip d' = GetStrikeCount ip d"
    if "gm_get (db_bans d) ip \<noteq> None \<or> (\<exists>s \<in> set (db_strikes d'). sr_ip s = ip)"
    using offender_kept [OF assms(1) 1, of ip] that f(6,7) by (simp add: GetStrikeCount_def)
  show ?thesis using f f1 strikes audit count by simp
qed

section \<open>Witnesses\<close>

definition demo_retention :: retention_policy where
  "demo_retention = \<lparr>rp_strikes = 24 * Hour, rp_audit = 0, rp_ai_usage = Hour, rp_audit_prune_acknowledged = False\<rparr>"

definition demo_aged :: db where
  "demo_aged = RecordStrike 0 0 (zero_action\<lparr>ac_ip := V4 1, ac_op := ''ban''\<rparr>) empty_db"

theorem retention_dry_run_exact_witness:
  "\<exists>d'. PruneRetention (\<lambda>_ _. True) (demo_retention\<lparr>rp_audit := Hour\<rparr>) (100 * Hour) demo_aged =
     (filter (\<lambda>s. ps_table s \<noteq> ''audit_log'')
        (CountPruneCandidates (demo_retention\<lparr>rp_audit := Hour\<rparr>) (100 * Hour) demo_aged), True, False, d')
     \<and> db_audit d' = db_audit demo_aged"
proof -
  let ?p = "demo_retention\<lparr>rp_audit := Hour\<rparr>"
  have "0 \<le> rp_strikes ?p" "0 \<le> rp_audit ?p" "0 \<le> rp_ai_usage ?p" "\<not> rp_audit_prune_acknowledged ?p" "rp_audit ?p \<noteq> 0"
    by (simp_all add: demo_retention_def duration_units)
  then show ?thesis using retention_dry_run_exact [of ?p "\<lambda>_ _. True" "100 * Hour" demo_aged] by auto
qed

theorem retention_protects_witness:
  "GetStrikeCount (V4 1) (snd (snd (snd (PruneRetention (\<lambda>_ _. True) demo_retention (100 * Hour) demo_aged))))
     = GetStrikeCount (V4 1) demo_aged"
proof -
  obtain st sk stop d' where run: "PruneRetention (\<lambda>_ _. True) demo_retention (100 * Hour) demo_aged = (st, sk, stop, d')"
    by (metis prod_cases4)
  have ban: "gm_get (db_bans demo_aged) (V4 1) \<noteq> None"
    by (simp add: demo_aged_def db_bans_RecordStrike)
  have "db_ok demo_aged" unfolding demo_aged_def by (intro ezy_inv)
  from retention_protects [OF this run, of "V4 1"] ban show ?thesis by (simp add: run)
qed

end
