(* ===== verification/StoreSteps.thy ===== *)
theory StoreSteps
  imports EventCounts Retention
begin

text \<open>
  The store as a state machine: every operation of \<open>internal/store\<close> is a step, and a run is
  any interleaving of them.  The results: the table invariant holds in every reachable state
  (\<open>store_invariant\<close>), an audit row is never altered and its id never reused, and nothing but
  an acknowledged retention run removes one (\<open>audit_log_immutable\<close>), and the
  \<open>ban_ineffective\<close> diagnostic fires once per ban until the ban is replaced or was quiet for
  the re-arm period (\<open>ineffective_fires_once\<close>).
\<close>

datatype db_op =
    OStrike time time action
  | OSuppressed time addr bool
  | OIneffective addr
  | OBump time addr
  | OExpireBans time
  | OUnban time addr
  | OManualBan time time addr duration string bool
  | OAudit time action
  | OAuditOp time string pfx duration string
  | OAuditSystem time string string
  | OAddAllow time pfx "time option" string
  | ORemoveAllow pfx
  | OExpireAllows time
  | OUnbanCovered time pfx string
  | OUnbanAll time string
  | OUsage time string usage string
  | OSetState time string string
  | ODeleteState string
  | OIncr addr string int
  | OPruneCounts int
  | OConsume addr "(duration, string list) gomap" time
  | ORetention "string \<Rightarrow> nat \<Rightarrow> bool" retention_policy time

fun db_apply :: "db \<Rightarrow> db_op \<Rightarrow> db" where
  "db_apply d (OStrike t t2 a) = RecordStrike t t2 a d"
| "db_apply d (OSuppressed t ip ag) = snd (RecordSuppressed t ip ag d)"
| "db_apply d (OIneffective ip) = snd (MarkBanIneffective ip d)"
| "db_apply d (OBump t ip) = BumpLastSeen t ip d"
| "db_apply d (OExpireBans t) = snd (ExpireBans t d)"
| "db_apply d (OUnban t ip) = Unban t ip d"
| "db_apply d (OManualBan t t2 ip ttl reason dry) =
     (case RecordManualBan t t2 ip ttl reason dry d of Inl e \<Rightarrow> d | Inr d' \<Rightarrow> d')"
| "db_apply d (OAudit t a) = Audit t a d"
| "db_apply d (OAuditOp t opn p ttl reason) = AuditOp t opn p ttl reason d"
| "db_apply d (OAuditSystem t opn reason) = AuditSystem t opn reason d"
| "db_apply d (OAddAllow t p e reason) = AddAllow t p e reason d"
| "db_apply d (ORemoveAllow p) = snd (RemoveAllow p d)"
| "db_apply d (OExpireAllows t) = snd (ExpireAllows t d)"
| "db_apply d (OUnbanCovered t p reason) = snd (UnbanCovered t p reason d)"
| "db_apply d (OUnbanAll t reason) = snd (UnbanAll t reason d)"
| "db_apply d (OUsage t prov u ip) = RecordUsage t prov u ip d"
| "db_apply d (OSetState t k v) = SetState t k v d"
| "db_apply d (ODeleteState k) = DeleteState k d"
| "db_apply d (OIncr ip kind b) = IncrEventCount ip kind b d"
| "db_apply d (OPruneCounts b) = snd (PruneEventCounts b d)"
| "db_apply d (OConsume ip windows t) = ConsumeEventCounts ip windows t d"
| "db_apply d (ORetention alive pol t) = (case PruneRetention alive pol t d of (_, _, _, d') \<Rightarrow> d')"

definition db_run :: "db \<Rightarrow> db_op list \<Rightarrow> db" where
  "db_run d ops = foldl db_apply d ops"

inductive db_reach :: "db \<Rightarrow> bool" where
  db_start: "db_reach empty_db"
| db_next: "db_reach d \<Longrightarrow> db_reach (db_apply d p)"

inductive_cases db_reachE: "db_reach d"

section \<open>The table invariant\<close>

lemma db_ok_apply: "db_ok d \<Longrightarrow> db_ok (db_apply d p)"
  by (cases p) (auto intro: ezy_inv split: sum.split prod.split)

text \<open>
  C28 (invariant).  In every state the store can reach, keys are unique, row ids increase
  below their sequence, no suppression counter is negative or exceeds the total, and an
  address never has more strike rows than its escalation count, so the count never forgets a
  recorded strike.
\<close>

theorem store_invariant:
  assumes "db_reach d"
  shows "db_ok d \<and> int (strike_rows ip d) \<le> GetStrikeCount ip d"
proof -
  have "db_ok d" using assms by (induction rule: db_reach.induct) (auto intro: db_ok_empty db_ok_apply)
  then show ?thesis using db_okD(7) by blast
qed

lemma db_ok_run: "db_ok d \<Longrightarrow> db_ok (db_run d ops)"
  unfolding db_run_def by (rule foldl_invariant) (auto intro: db_ok_apply)

section \<open>The audit log\<close>

text \<open>
  What every step preserves: a row present before is present unless an acknowledged
  retention run dropped it, and a new row has a fresh id.
\<close>

definition audit_grows :: "bool \<Rightarrow> db \<Rightarrow> db \<Rightarrow> bool" where
  "audit_grows prune d d' \<longleftrightarrow> (\<exists>kept new. db_audit d' = kept @ new \<and> subseq kept (db_audit d)
     \<and> (\<not> prune \<longrightarrow> kept = db_audit d) \<and> (\<forall>r \<in> set new. db_audit_seq d < au_id r)
     \<and> db_audit_seq d \<le> db_audit_seq d')"

lemma audit_grows_refl [intro]:
  "db_audit d' = db_audit d \<Longrightarrow> db_audit_seq d' = db_audit_seq d \<Longrightarrow> audit_grows b d d'"
  unfolding audit_grows_def by (intro exI [of _ "db_audit d"] exI [of _ "[]"]) simp

lemma audit_grows_trans:
  assumes "audit_grows b d1 d2" and "audit_grows b d2 d3"
  shows "audit_grows b d1 d3"
proof -
  obtain k1 n1 where 1: "db_audit d2 = k1 @ n1" "subseq k1 (db_audit d1)" "\<not> b \<longrightarrow> k1 = db_audit d1"
    "\<forall>r \<in> set n1. db_audit_seq d1 < au_id r" "db_audit_seq d1 \<le> db_audit_seq d2"
    using assms(1) by (auto simp: audit_grows_def)
  obtain k2 n2 where 2: "db_audit d3 = k2 @ n2" "subseq k2 (db_audit d2)" "\<not> b \<longrightarrow> k2 = db_audit d2"
    "\<forall>r \<in> set n2. db_audit_seq d2 < au_id r" "db_audit_seq d2 \<le> db_audit_seq d3"
    using assms(2) by (auto simp: audit_grows_def)
  obtain x y where xy: "k2 = x @ y" "subseq x k1" "subseq y n1"
    using 1(1) 2(2) by (auto simp: subseq_append_iff)
  show ?thesis
  proof (cases b)
    case True
    then show ?thesis unfolding audit_grows_def
      using 1 2 xy subseq_order.trans [OF xy(2) 1(2)] subseq_set [OF xy(3)]
      by (intro exI [of _ x] exI [of _ "y @ n2"]) (auto dest: order_trans)
  next
    case False
    then show ?thesis unfolding audit_grows_def
      using 1 2 by (intro exI [of _ "db_audit d1"] exI [of _ "n1 @ n2"]) (auto dest: order_trans)
  qed
qed

lemma audit_grows_insert: "audit_grows b d (insert_audit now opn sub ttl n reason d)"
  unfolding audit_grows_def
  by (intro exI [of _ "db_audit d"] exI [of _ "drop (length (db_audit d)) (db_audit (insert_audit now opn sub ttl n reason d))"])
    (auto simp: insert_audit_def)

lemma audit_grows_then_insert:
  "db_audit d' = db_audit d \<Longrightarrow> db_audit_seq d' = db_audit_seq d \<Longrightarrow>
     audit_grows b d (insert_audit now opn sub ttl n reason d')"
  by (rule audit_grows_trans [OF audit_grows_refl audit_grows_insert])

lemma audit_grows_foldl:
  assumes "\<And>d x. audit_grows b d (f d x)"
  shows "audit_grows b d (foldl f d xs)"
proof (induction xs rule: rev_induct)
  case (snoc x xs)
  then show ?case using audit_grows_trans assms by fastforce
qed auto

lemma audit_grows_then: "audit_grows b d d1 \<Longrightarrow> db_audit d2 = db_audit d1 \<Longrightarrow> db_audit_seq d2 = db_audit_seq d1 \<Longrightarrow> audit_grows b d d2"
  by (rule audit_grows_trans [OF _ audit_grows_refl])

fun op_prunes :: "db_op \<Rightarrow> bool" where
  "op_prunes (ORetention alive pol t) = rp_audit_prune_acknowledged pol"
| "op_prunes _ = False"

lemma audit_grows_retention:
  assumes "PruneRetention alive pol now d = (st, sk, stop, d')"
  shows "audit_grows (rp_audit_prune_acknowledged pol) d d'"
proof -
  obtain st1 stop1 d1 st2 stop2 sk2 d2 where 1: "prune_strikes alive pol now d = (st1, stop1, d1)"
    and 2: "prune_audit alive pol now d1 = (st2, sk2, stop2, d2)"
    and d': "d' = d1 \<or> d' = d2\<lparr>db_usage := db_usage d'\<rparr>"
    using PruneRetention_effect [OF assms] by metis
  have a1: "db_audit d1 = db_audit d" "db_audit_seq d1 = db_audit_seq d"
    by (subst prune_strikes_effect(1) [OF 1], simp)+
  have s2: "db_audit_seq d2 = db_audit_seq d1" by (subst prune_audit_effect(1) [OF 2], simp)
  have "audit_grows (rp_audit_prune_acknowledged pol) d1 d2"
    unfolding audit_grows_def using prune_audit_effect(2) [OF 2] s2 2
    by (intro exI [of _ "db_audit d2"] exI [of _ "[]"]) (auto simp: prune_audit_def split: if_splits)
  then have "audit_grows (rp_audit_prune_acknowledged pol) d d2"
    using audit_grows_trans audit_grows_refl a1 by blast
  moreover have "db_audit d' = db_audit d2 \<and> db_audit_seq d' = db_audit_seq d2 \<or> d' = d1"
    using d' by (metis (no_types, lifting) db.select_convs(5,6) db.surjective db.update_convs(9))
  ultimately show ?thesis using a1 audit_grows_then by blast
qed

lemma audit_grows_apply: "audit_grows (op_prunes p) d (db_apply d p)"
proof (cases p)
  case (OStrike t t2 a)
  then show ?thesis
    by (auto simp: RecordStrike_def Let_def upsert_offender_def insert_strike_def intro!: audit_grows_then_insert)
next
  case (OExpireBans t)
  have "audit_grows False d (foldl (audit_expired t) d xs)" for xs
    by (rule audit_grows_foldl) (auto simp: audit_expired_def case_prod_unfold intro: audit_grows_insert)
  then have "audit_grows False d (snd (ExpireBans t d))"
    unfolding ExpireBans_def Let_def snd_conv by (rule audit_grows_then) simp_all
  then show ?thesis using OExpireBans by simp
next
  case (OManualBan t t2 ip ttl reason dry)
  then show ?thesis by (auto simp: RecordManualBan_def Let_def intro!: audit_grows_then_insert)
next
  case (OExpireAllows t)
  have "audit_grows False d (foldl (audit_allow_expired t) d xs)" for xs
    by (rule audit_grows_foldl) (auto simp: audit_allow_expired_def case_prod_unfold intro: audit_grows_insert)
  then have "audit_grows False d (snd (ExpireAllows t d))"
    unfolding ExpireAllows_def Let_def snd_conv by (rule audit_grows_then) simp_all
  then show ?thesis using OExpireAllows by simp
next
  case (OUnbanCovered t q reason)
  have "audit_grows False d (foldl (unban_one t reason) d xs)" for xs
    by (rule audit_grows_foldl) (auto simp: unban_one_def intro!: audit_grows_then_insert)
  then show ?thesis using OUnbanCovered by (auto simp: UnbanCovered_def Let_def)
next
  case (OConsume ip windows t)
  then show ?thesis using ConsumeEventCounts_only_consumed [of ip windows t d] by auto
next
  case (ORetention alive pol t)
  then show ?thesis by (cases "PruneRetention alive pol t d") (auto intro: audit_grows_retention)
qed (auto simp: RecordSuppressed_def MarkBanIneffective_def BumpLastSeen_def upsert_offender_def Unban_def Audit_def
    AuditOp_def AuditSystem_def AddAllow_def RemoveAllow_def RecordUsage_def SetState_def DeleteState_def
    UnbanAll_def IncrEventCount_def PruneEventCounts_def Let_def
    intro!: audit_grows_then_insert audit_grows_insert split: option.splits)

lemma audit_grows_mono: "audit_grows b d d' \<Longrightarrow> (b \<longrightarrow> c) \<Longrightarrow> audit_grows c d d'"
  unfolding audit_grows_def by blast

lemma audit_grows_run: "audit_grows (\<exists>p \<in> set ops. op_prunes p) d (db_run d ops)"
proof (induction ops rule: rev_induct)
  case Nil
  then show ?case by (auto simp: db_run_def)
next
  case (snoc p ops)
  have "audit_grows (\<exists>p \<in> set (ops @ [p]). op_prunes p) d (db_run d ops)"
    by (rule audit_grows_mono [OF snoc]) auto
  moreover have "audit_grows (\<exists>p \<in> set (ops @ [p]). op_prunes p) (db_run d ops) (db_apply (db_run d ops) p)"
    by (rule audit_grows_mono [OF audit_grows_apply]) auto
  ultimately show ?case by (auto simp: db_run_def intro: audit_grows_trans)
qed

text \<open>
  C29 (invariant).  The audit log is immutable: whatever operations run, a row of the log with
  the id of an earlier row is that row unchanged, so an id never names two entries; and as
  long as no acknowledged retention run is among them, the log only grows at its end.
\<close>

theorem audit_log_immutable:
  assumes "db_ok d" and "r \<in> set (db_audit d)"
  shows "(\<forall>r' \<in> set (db_audit (db_run d ops)). au_id r' = au_id r \<longrightarrow> r' = r)
    \<and> ((\<forall>p \<in> set ops. \<not> op_prunes p) \<longrightarrow> prefix (db_audit d) (db_audit (db_run d ops)))"
proof -
  obtain kept new where run: "db_audit (db_run d ops) = kept @ new" "subseq kept (db_audit d)"
    "\<not> (\<exists>p \<in> set ops. op_prunes p) \<longrightarrow> kept = db_audit d" "\<forall>r \<in> set new. db_audit_seq d < au_id r"
    using audit_grows_run [of ops d] by (auto simp: audit_grows_def)
  have ids: "sorted_wrt (<) (map au_id (db_audit d))" "\<forall>i \<in> set (map au_id (db_audit d)). i \<le> db_audit_seq d"
    using db_okD(6) [OF assms(1)] by (simp_all add: ids_ok_def)
  have inj: "inj_on au_id (set (db_audit d))"
    using ids(1) by (simp add: strict_sorted_iff distinct_map)
  have "r' = r" if r': "r' \<in> set (db_audit (db_run d ops))" "au_id r' = au_id r" for r'
  proof -
    have "r' \<notin> set new" using run(4) ids(2) assms(2) r'(2) by force
    then have "r' \<in> set (db_audit d)" using r'(1) run(1) subseq_set [OF run(2)] by auto
    then show ?thesis using inj assms(2) r'(2) by (auto dest: inj_onD)
  qed
  then show ?thesis using run(1,3) by (auto simp: prefix_def)
qed

section \<open>The diagnostic fires once\<close>

text \<open>The steps that make a ban a new case for the diagnostic.\<close>

fun renews :: "addr \<Rightarrow> db \<Rightarrow> db_op \<Rightarrow> bool" where
  "renews ip d (OStrike t t2 a) = (ac_ip a = ip)"
| "renews ip d (OManualBan t t2 ip' ttl reason dry) = (ip' = ip)"
| "renews ip d (OSuppressed t ip' ag) =
     (ip' = ip \<and> (case gm_get (db_bans d) ip of None \<Rightarrow> False
        | Some r \<Rightarrow> (case br_last_suppressed_at r of None \<Rightarrow> True
                     | Some l \<Rightarrow> text_less l (t - IneffectiveRearmAfter))))"
| "renews ip d _ = False"

fun renewed :: "addr \<Rightarrow> db \<Rightarrow> db_op list \<Rightarrow> bool" where
  "renewed ip d [] = False"
| "renewed ip d (p # ops) = (renews ip d p \<or> renewed ip (db_apply d p) ops)"

definition flagged :: "addr \<Rightarrow> db \<Rightarrow> bool" where
  "flagged ip d \<longleftrightarrow> (\<forall>r. gm_get (db_bans d) ip = Some r \<longrightarrow> br_ineffective_fired r)"

lemma flagged_cong: "flagged ip d \<Longrightarrow> gm_get (db_bans d') ip = gm_get (db_bans d) ip \<or> gm_get (db_bans d') ip = None \<Longrightarrow> flagged ip d'"
  by (auto simp: flagged_def)

lemma flagged_apply:
  assumes "db_ok d" and "flagged ip d" and "\<not> renews ip d p"
  shows "flagged ip (db_apply d p)"
proof (cases p)
  case (OStrike t t2 a)
  then show ?thesis using assms(2,3) by (simp add: flagged_def db_bans_RecordStrike)
next
  case (OSuppressed t ip' ag)
  show ?thesis
  proof (cases "ip' = ip")
    case True
    show ?thesis
    proof (cases "gm_get (db_bans d) ip")
      case (Some r)
      then have "rearm_row t r = r"
        using OSuppressed True assms(3) by (auto simp: rearm_row_def split: option.splits)
      then show ?thesis
        using OSuppressed True assms(2) Some by (simp add: flagged_def RecordSuppressed_def Let_def count_suppressed_def)
    qed (use OSuppressed True assms(2) in \<open>simp add: flagged_def RecordSuppressed_def\<close>)
  next
    case False
    then show ?thesis
      using OSuppressed assms(2) by (auto simp: flagged_def RecordSuppressed_def Let_def split: option.splits)
  qed
next
  case (OIneffective ip')
  then show ?thesis
    using assms(2) by (auto simp: flagged_def MarkBanIneffective_def Let_def split: option.splits)
next
  case (OExpireBans t)
  have "gm_ok (db_bans d)" using db_okD(1) [OF assms(1)] by (simp add: bans_ok_def)
  then show ?thesis
    using OExpireBans assms(2) gm_get_filter [of "db_bans d" "\<lambda>ip r. \<not> ban_expired t r" ip]
    by (auto simp: flagged_def db_bans_ExpireBans split: option.splits if_splits)
next
  case (OManualBan t t2 ip' ttl reason dry)
  then show ?thesis using assms(2,3) by (auto simp: flagged_def RecordManualBan_def Let_def split: sum.splits if_splits)
next
  case (OExpireAllows t)
  have "db_bans (snd (ExpireAllows t d)) = db_bans d"
    by (simp add: ExpireAllows_def Let_def audit_allow_expired_frame)
  then show ?thesis using OExpireAllows assms(2) by (simp add: flagged_def)
next
  case (OUnbanCovered t q reason)
  have "gm_get (db_bans (snd (UnbanCovered t q reason d))) ip = gm_get (db_bans d) ip
      \<or> gm_get (db_bans (snd (UnbanCovered t q reason d))) ip = None"
    using unban_fold [of t reason d "filter (\<lambda>ip. addr_is_valid ip \<and> prefix_contains q ip) (gm_keys (db_bans d))"]
    by (simp add: UnbanCovered_def Let_def)
  then show ?thesis using OUnbanCovered assms(2) flagged_cong by simp
next
  case (OConsume ip' windows t)
  then show ?thesis using assms(2) ConsumeEventCounts_only_consumed [of ip' windows t d] by (auto simp: flagged_def)
next
  case (ORetention alive pol t)
  obtain st sk stop d' where r: "PruneRetention alive pol t d = (st, sk, stop, d')" by (metis prod_cases4)
  obtain st1 stop1 d1 st2 stop2 sk2 d2 where 1: "prune_strikes alive pol t d = (st1, stop1, d1)"
    and 2: "prune_audit alive pol t d1 = (st2, sk2, stop2, d2)"
    and d': "d' = d1 \<or> d' = d2\<lparr>db_usage := db_usage d'\<rparr>"
    using PruneRetention_effect [OF r] by metis
  have "db_bans d1 = db_bans d" by (subst prune_strikes_effect(1) [OF 1]) simp
  moreover have "db_bans d2 = db_bans d1" by (subst prune_audit_effect(1) [OF 2]) simp
  ultimately have "db_bans d' = db_bans d" using d' by (metis db.select_convs(1) db.surjective db.update_convs(9))
  then show ?thesis using ORetention r assms(2) by (simp add: flagged_def)
qed (use assms(2) in \<open>auto simp: flagged_def BumpLastSeen_def upsert_offender_def Unban_def Audit_def AuditOp_def
    AuditSystem_def AddAllow_def RemoveAllow_def RecordUsage_def SetState_def DeleteState_def IncrEventCount_def
    UnbanAll_def PruneEventCounts_def Let_def\<close>)

lemma flagged_run:
  assumes "db_ok d" and "flagged ip d" and "\<not> renewed ip d ops"
  shows "flagged ip (db_run d ops)"
  using assms
proof (induction ops arbitrary: d)
  case (Cons p ops)
  then show ?case using flagged_apply [of d ip p] db_ok_apply [of d p] by (simp add: db_run_def)
qed (simp add: db_run_def)

text \<open>
  Once \<open>MarkBanIneffective\<close> has returned true for an address, it returns false
  after any further operations, unless one of them recorded a new strike or manual ban for
  the address, or a suppressed event that came after the re-arm period of quiet: the
  diagnostic fires once per case, across concurrent callers and restarts.
\<close>

theorem ineffective_fires_once:
  assumes "db_ok d" and "MarkBanIneffective ip d = (True, d1)" and "\<not> renewed ip d1 ops"
  shows "\<not> fst (MarkBanIneffective ip (db_run d1 ops)) \<and> HadIneffectiveBan ip d1 = (gm_get (db_offenders d) ip \<noteq> None)"
proof -
  have "db_ok d1" using db_ok_MarkBanIneffective [OF assms(1), of ip] assms(2) by simp
  moreover have "flagged ip d1"
    using assms(2) by (auto simp: flagged_def MarkBanIneffective_def Let_def split: option.splits if_splits)
  ultimately have "flagged ip (db_run d1 ops)" using flagged_run assms(3) by blast
  moreover have "HadIneffectiveBan ip d1 = (gm_get (db_offenders d) ip \<noteq> None)"
    using assms(2) by (auto simp: HadIneffectiveBan_def MarkBanIneffective_def Let_def split: option.splits if_splits)
  ultimately show ?thesis by (auto simp: MarkBanIneffective_def flagged_def split: option.split)
qed

section \<open>Witnesses\<close>

theorem store_invariant_witness:
  "int (strike_rows (V4 0x0A000001) demo_db) \<le> GetStrikeCount (V4 0x0A000001) demo_db"
proof -
  have "db_reach (db_apply empty_db (OStrike 0 0 demo_ban))" by (intro db_reach.intros)
  then have "db_reach demo_db" by (simp add: demo_db_def)
  from store_invariant [OF this] show ?thesis by blast
qed

theorem audit_log_immutable_witness:
  "prefix (db_audit demo_db) (db_audit (db_run demo_db [OUnban Minute (V4 0x0A000001), OExpireBans (2 * Hour)]))"
proof -
  have "db_audit demo_db \<noteq> []" by (simp add: demo_db_def RecordStrike_def Let_def insert_audit_def)
  then have "hd (db_audit demo_db) \<in> set (db_audit demo_db)" by simp
  from audit_log_immutable [OF demo_db_ok this, of "[OUnban Minute (V4 0x0A000001), OExpireBans (2 * Hour)]"]
  show ?thesis by simp
qed

theorem ineffective_fires_once_witness:
  "fst (MarkBanIneffective (V4 0x0A000001) demo_db)
   \<and> \<not> fst (MarkBanIneffective (V4 0x0A000001)
        (db_run (snd (MarkBanIneffective (V4 0x0A000001) demo_db)) [OBump Minute (V4 0x0A000001), OUnban Minute (V4 7)]))"
proof -
  have m: "fst (MarkBanIneffective (V4 0x0A000001) demo_db)"
    by (simp add: MarkBanIneffective_def demo_db_ban fresh_ban_def Let_def)
  then have "MarkBanIneffective (V4 0x0A000001) demo_db = (True, snd (MarkBanIneffective (V4 0x0A000001) demo_db))"
    by (metis prod.collapse)
  from ineffective_fires_once [OF demo_db_ok this, of "[OBump Minute (V4 0x0A000001), OUnban Minute (V4 7)]"] m
  show ?thesis by simp
qed

end
