(* ===== verification/Gate.thy ===== *)
theory Gate
  imports Sdk NetipText
begin

text \<open>
  The enforcement gate and the fan-out behind it: \<open>internal/enforce/gate.go\<close> and
  \<open>multi.go\<close>.

  \<^item> An enforcer (\<open>sdk.Enforcer\<close> with its optional facets \<open>AllowlistSyncer\<close> and
    \<open>SyncRepairReporter\<close>) is a record of operations over its own state \<open>'e\<close>; an operation
    returns its error, if any, and the next state.  \<open>MultiEnforcer\<close> is such a record over the
    list of its children's states, and \<open>Gate\<close> wraps one.
  \<^item> The SSH-peer probe of the gate is a function of what it reads (\<open>'w\<close>: the kernel's
    connection table), \<open>None\<close> when no probe is installed; an operation reads it once.
  \<^item> The contract of an enforcer is the locale \<open>enforcer_contract\<close>: which addresses it drops,
    and that no operation makes it drop an address that no given target covers.  The facts
    about the gate are proved once in it.
\<close>

section \<open>The enforcer interface\<close>

datatype enf_error =
    ErrGateRefused string string
  | ErrEnforcer string
  | ErrThrottled string
  | ErrJoined "(string \<times> enf_error) list"

type_synonym 'e enf_op = "'e \<Rightarrow> enf_error option \<times> 'e"

record 'e allow_syncer =
  as_allow :: "pfx \<Rightarrow> 'e enf_op"
  as_unallow :: "pfx \<Rightarrow> 'e enf_op"
  as_sync :: "pfx list \<Rightarrow> 'e enf_op"

record 'e enforcer =
  en_name :: string
  en_ban :: "target \<Rightarrow> 'e enf_op"
  en_unban :: "target \<Rightarrow> 'e enf_op"
  en_sync :: "target list \<Rightarrow> 'e enf_op"
  en_allow :: "'e allow_syncer option"
  en_repairs :: "('e \<Rightarrow> int \<times> int \<times> bool) option"

section \<open>The fan-out\<close>

text \<open>Every child is called, in order, whatever the others return; the errors are joined.\<close>

fun multi_each :: "('e enforcer \<Rightarrow> 'e enf_op) \<Rightarrow> 'e enforcer list \<Rightarrow> 'e list \<Rightarrow> (string \<times> enf_error) list \<times> 'e list" where
  "multi_each f (c # cs) (s # ss) =
     (let (r, s') = f c s; (errs, ss') = multi_each f cs ss
      in ((case r of None \<Rightarrow> errs | Some e \<Rightarrow> (en_name c, e) # errs), s' # ss'))"
| "multi_each f _ ss = ([], ss)"

definition join_errors :: "(string \<times> enf_error) list \<times> 'e list \<Rightarrow> enf_error option \<times> 'e list" where
  "join_errors = (\<lambda>(errs, ss). (if errs = [] then None else Some (ErrJoined errs), ss))"

definition Multi_Name :: "'e enforcer list \<Rightarrow> string" where
  "Multi_Name cs = str_join ''+'' (map en_name cs)"

definition Multi_Ban :: "'e enforcer list \<Rightarrow> target \<Rightarrow> 'e list enf_op" where
  "Multi_Ban cs t ss = join_errors (multi_each (\<lambda>c. en_ban c t) cs ss)"

definition Multi_Unban :: "'e enforcer list \<Rightarrow> target \<Rightarrow> 'e list enf_op" where
  "Multi_Unban cs t ss = join_errors (multi_each (\<lambda>c. en_unban c t) cs ss)"

definition Multi_Sync :: "'e enforcer list \<Rightarrow> target list \<Rightarrow> 'e list enf_op" where
  "Multi_Sync cs want ss = join_errors (multi_each (\<lambda>c. en_sync c want) cs ss)"

text \<open>A child without the allowlist facet is skipped.\<close>

definition with_facet :: "('e allow_syncer \<Rightarrow> 'e enf_op) \<Rightarrow> 'e enforcer \<Rightarrow> 'e enf_op" where
  "with_facet f c s = (case en_allow c of None \<Rightarrow> (None, s) | Some a \<Rightarrow> f a s)"

definition Multi_Allow :: "'e enforcer list \<Rightarrow> pfx \<Rightarrow> 'e list enf_op" where
  "Multi_Allow cs p ss = join_errors (multi_each (with_facet (\<lambda>a. as_allow a p)) cs ss)"

definition Multi_Unallow :: "'e enforcer list \<Rightarrow> pfx \<Rightarrow> 'e list enf_op" where
  "Multi_Unallow cs p ss = join_errors (multi_each (with_facet (\<lambda>a. as_unallow a p)) cs ss)"

definition Multi_SyncAllowlist :: "'e enforcer list \<Rightarrow> pfx list \<Rightarrow> 'e list enf_op" where
  "Multi_SyncAllowlist cs want ss = join_errors (multi_each (with_facet (\<lambda>a. as_sync a want)) cs ss)"

fun Multi_LastSyncRepairs :: "'e enforcer list \<Rightarrow> 'e list \<Rightarrow> int \<times> int \<times> bool" where
  "Multi_LastSyncRepairs (c # cs) (s # ss) =
     (case en_repairs c of
        None \<Rightarrow> Multi_LastSyncRepairs cs ss
      | Some r \<Rightarrow>
          let (a, rm, first) = r s; (added, removed, firstSync) = Multi_LastSyncRepairs cs ss
          in (added + a, removed + rm, firstSync \<or> first))"
| "Multi_LastSyncRepairs _ _ = (0, 0, False)"

definition NewMulti :: "'e enforcer list \<Rightarrow> 'e list enforcer" where
  "NewMulti cs = \<lparr>en_name = Multi_Name cs, en_ban = Multi_Ban cs, en_unban = Multi_Unban cs, en_sync = Multi_Sync cs,
     en_allow = Some \<lparr>as_allow = Multi_Allow cs, as_unallow = Multi_Unallow cs, as_sync = Multi_SyncAllowlist cs\<rparr>,
     en_repairs = Some (Multi_LastSyncRepairs cs)\<rparr>"

section \<open>Spellings\<close>

definition normalizeGatePrefix :: "pfx \<Rightarrow> pfx" where
  "normalizeGatePrefix p =
     (if \<not> is4in6 (pfx_ip p) \<or> pfx_bits p < 96 then prefix_masked p
      else prefix_masked (prefix_from (unmap (pfx_ip p)) (pfx_bits p - 96)))"

definition normalizeForwardPrefix :: "pfx \<Rightarrow> pfx" where
  "normalizeForwardPrefix p = (if is4in6 (pfx_ip p) \<and> pfx_bits p \<ge> 96 then normalizeGatePrefix p else p)"

definition normalizeGateTarget :: "target \<Rightarrow> target" where
  "normalizeGateTarget t =
     (if addr_is_valid (tg_ip t) then t\<lparr>tg_ip := unmap (tg_ip t)\<rparr>
      else if prefix_is_valid (tg_prefix t) then t\<lparr>tg_prefix := normalizeForwardPrefix (tg_prefix t)\<rparr>
      else t)"

definition gatePrefix :: "target \<Rightarrow> pfx option" where
  "gatePrefix t =
     (if addr_is_valid (tg_ip t) then Some (prefix_from (unmap (tg_ip t)) (bit_len (unmap (tg_ip t))))
      else if prefix_is_valid (tg_prefix t) then Some (normalizeGatePrefix (tg_prefix t))
      else None)"

definition gateKey :: "target \<Rightarrow> string" where
  "gateKey t =
     (if addr_is_valid (tg_ip t) then addr_str (tg_ip t)
      else if prefix_is_valid (tg_prefix t) then pfx_str (tg_prefix t)
      else if tg_asn t \<noteq> 0 then ''AS'' @ int_str (tg_asn t)
      else tg_country t)"

section \<open>The gate\<close>

record 'w gate =
  ga_allowlist :: "pfx list"
  ga_ssh_peers :: "('w \<Rightarrow> addr list) option"
  ga_extra :: "pfx list"

definition NewGate :: "pfx list \<Rightarrow> ('w \<Rightarrow> addr list) option \<Rightarrow> 'w gate" where
  "NewGate allowlist probe =
     \<lparr>ga_allowlist = map normalizeGatePrefix allowlist, ga_ssh_peers = probe, ga_extra = []\<rparr>"

definition SetExtraAllowlist :: "pfx list \<Rightarrow> 'w gate \<Rightarrow> 'w gate" where
  "SetExtraAllowlist ps g = g\<lparr>ga_extra := map normalizeGatePrefix ps\<rparr>"

definition SetSSHPeerProbe :: "('w \<Rightarrow> addr list) option \<Rightarrow> 'w gate \<Rightarrow> 'w gate" where
  "SetSSHPeerProbe probe g = g\<lparr>ga_ssh_peers := probe\<rparr>"

definition currentPeers :: "'w gate \<Rightarrow> 'w \<Rightarrow> addr list" where
  "currentPeers g w = (case ga_ssh_peers g of None \<Rightarrow> [] | Some probe \<Rightarrow> probe w)"

text \<open>The reason when the target is refused.\<close>

definition refuse :: "'w gate \<Rightarrow> addr list \<Rightarrow> target \<Rightarrow> string option" where
  "refuse g peers t =
     (case gatePrefix t of
        None \<Rightarrow> None
      | Some p \<Rightarrow>
          if list_ex (\<lambda>a. prefix_overlaps a p) (ga_allowlist g) then Some ''allowlisted''
          else if list_ex (\<lambda>a. prefix_overlaps a p) (ga_extra g) then Some ''allowlisted (runtime)''
          else if list_ex (\<lambda>a. prefix_contains p (unmap a)) peers then Some ''active SSH peer''
          else None)"

definition Gate_Ban :: "'e enforcer \<Rightarrow> 'w gate \<Rightarrow> 'w \<Rightarrow> target \<Rightarrow> 'e enf_op" where
  "Gate_Ban inner g w t s =
     (case refuse g (currentPeers g w) t of
        Some reason \<Rightarrow> (Some (ErrGateRefused (gateKey t) reason), s)
      | None \<Rightarrow> en_ban inner (normalizeGateTarget t) s)"

definition Gate_Unban :: "'e enforcer \<Rightarrow> target \<Rightarrow> 'e enf_op" where
  "Gate_Unban inner t s = en_unban inner (normalizeGateTarget t) s"

definition Gate_Sync :: "'e enforcer \<Rightarrow> 'w gate \<Rightarrow> 'w \<Rightarrow> target list \<Rightarrow> 'e enf_op" where
  "Gate_Sync inner g w want s =
     (let peers = currentPeers g w
      in en_sync inner (map normalizeGateTarget (filter (\<lambda>t. refuse g peers t = None) want)) s)"

definition Gate_Allow :: "'e enforcer \<Rightarrow> pfx \<Rightarrow> 'e enf_op" where
  "Gate_Allow inner p s = with_facet (\<lambda>a. as_allow a (normalizeForwardPrefix p)) inner s"

definition Gate_Unallow :: "'e enforcer \<Rightarrow> pfx \<Rightarrow> 'e enf_op" where
  "Gate_Unallow inner p s = with_facet (\<lambda>a. as_unallow a (normalizeForwardPrefix p)) inner s"

definition Gate_SyncAllowlist :: "'e enforcer \<Rightarrow> pfx list \<Rightarrow> 'e enf_op" where
  "Gate_SyncAllowlist inner want s = with_facet (\<lambda>a. as_sync a (map normalizeForwardPrefix want)) inner s"

definition Gate_LastSyncRepairs :: "'e enforcer \<Rightarrow> 'e \<Rightarrow> int \<times> int \<times> bool" where
  "Gate_LastSyncRepairs inner s = (case en_repairs inner of None \<Rightarrow> (0, 0, False) | Some r \<Rightarrow> r s)"

text \<open>\<open>Gate\<close> is an enforcer again; \<open>w\<close> is what its probe reads during the call.\<close>

definition gate_enforcer :: "'e enforcer \<Rightarrow> 'w gate \<Rightarrow> 'w \<Rightarrow> 'e enforcer" where
  "gate_enforcer inner g w = \<lparr>en_name = en_name inner, en_ban = Gate_Ban inner g w, en_unban = Gate_Unban inner,
     en_sync = Gate_Sync inner g w,
     en_allow = Some \<lparr>as_allow = Gate_Allow inner, as_unallow = Gate_Unallow inner, as_sync = Gate_SyncAllowlist inner\<rparr>,
     en_repairs = Some (Gate_LastSyncRepairs inner)\<rparr>"

section \<open>What a target covers\<close>

text \<open>
  The addresses a target covers, in the canonical spelling a packet has on the wire; and the
  addresses an allowlist entry protects.
\<close>

definition target_covers :: "target \<Rightarrow> addr \<Rightarrow> bool" where
  "target_covers t x \<longleftrightarrow> (case gatePrefix t of None \<Rightarrow> False | Some p \<Rightarrow> prefix_contains p x)"

definition gate_protects :: "'w gate \<Rightarrow> 'w \<Rightarrow> addr \<Rightarrow> bool" where
  "gate_protects g w x \<longleftrightarrow> (\<exists>p \<in> set (ga_allowlist g) \<union> set (ga_extra g). prefix_contains p x)
     \<or> x \<in> unmap ` set (currentPeers g w)"

definition gate_wf :: "'w gate \<Rightarrow> bool" where
  "gate_wf g \<longleftrightarrow> (\<forall>p \<in> set (ga_allowlist g) \<union> set (ga_extra g). prefix_wf p)"

lemma normalizeGatePrefix_wf [simp]: "prefix_wf (normalizeGatePrefix p)"
  by (simp add: normalizeGatePrefix_def)

lemma gatePrefix_wf: "gatePrefix t = Some p \<Longrightarrow> prefix_wf p"
  by (auto simp: gatePrefix_def split: if_splits)

lemma gate_wf_new [simp]: "gate_wf (NewGate ps probe)"
  by (simp add: gate_wf_def NewGate_def)

lemma gate_wf_extra [simp]: "gate_wf g \<Longrightarrow> gate_wf (SetExtraAllowlist ps g)"
  by (auto simp: gate_wf_def SetExtraAllowlist_def)

lemma gate_wf_probe [simp]: "gate_wf (SetSSHPeerProbe p g) = gate_wf g"
  by (simp add: gate_wf_def SetSSHPeerProbe_def)

lemma prefix_contains_valid: "prefix_contains p x \<Longrightarrow> x \<noteq> NoAddr \<and> addr_zone x = []"
  by (auto simp: prefix_contains_iff)

text \<open>A target that is not refused covers no protected address.\<close>

lemma not_refused:
  assumes "refuse g (currentPeers g w) t = None" and "gate_wf g" and "target_covers t x"
  shows "\<not> gate_protects g w x"
proof -
  obtain p where p: "gatePrefix t = Some p" "prefix_contains p x"
    using assms(3) by (auto simp: target_covers_def split: option.splits)
  have no: "\<not> list_ex (\<lambda>a. prefix_overlaps a p) (ga_allowlist g)" "\<not> list_ex (\<lambda>a. prefix_overlaps a p) (ga_extra g)"
    "\<not> list_ex (\<lambda>a. prefix_contains p (unmap a)) (currentPeers g w)"
    using assms(1) p(1) by (auto simp: refuse_def split: if_splits)
  have "\<not> prefix_contains q x" if "q \<in> set (ga_allowlist g) \<union> set (ga_extra g)" for q
  proof
    assume "prefix_contains q x"
    then have "prefix_overlaps q p"
      using prefix_overlaps_iff [of q p] gatePrefix_wf [OF p(1)] assms(2) that p(2) unfolding gate_wf_def by blast
    then show False using no that by (auto simp: list_ex_iff)
  qed
  moreover have "x \<notin> unmap ` set (currentPeers g w)" using no(3) p(2) by (auto simp: list_ex_iff)
  ultimately show ?thesis by (auto simp: gate_protects_def)
qed

lemma gatePrefix_normal: "prefix_wf (tg_prefix t) \<Longrightarrow> target_covers (normalizeGateTarget t) x = target_covers t x"
proof (cases "addr_is_valid (tg_ip t)")
  case True
  then show ?thesis by (simp add: target_covers_def gatePrefix_def normalizeGateTarget_def)
next
  case ip: False
  assume wf: "prefix_wf (tg_prefix t)"
  show ?thesis
  proof (cases "prefix_is_valid (tg_prefix t) \<and> is4in6 (pfx_ip (tg_prefix t)) \<and> 96 \<le> pfx_bits (tg_prefix t)")
    case False
    then show ?thesis using ip
      by (auto simp: target_covers_def gatePrefix_def normalizeGateTarget_def normalizeForwardPrefix_def)
  next
    case True
    let ?q = "prefix_from (unmap (pfx_ip (tg_prefix t))) (pfx_bits (tg_prefix t) - 96)"
    have n: "normalizeForwardPrefix (tg_prefix t) = prefix_masked ?q" "normalizeGatePrefix (tg_prefix t) = prefix_masked ?q"
      using True by (simp_all add: normalizeForwardPrefix_def normalizeGatePrefix_def)
    obtain v where v: "unmap (pfx_ip (tg_prefix t)) = V4 v" using True is4in6_unmap_V4 by blast
    have b: "0 \<le> pfx_bits (tg_prefix t) - 96" "pfx_bits (tg_prefix t) - 96 \<le> 32"
      using wf True by (auto simp: prefix_wf_def elim: is4in6.elims)
    then have m: "prefix_is_valid (prefix_masked ?q)" "\<not> is4in6 (pfx_ip (prefix_masked ?q))"
      by (auto simp: v prefix_masked_def prefix_is_valid_def prefix_from_def)
    have "prefix_contains (prefix_masked (prefix_masked ?q)) x = prefix_contains (prefix_masked ?q) x"
      by (rule prefix_masked_contains) simp
    then show ?thesis
      using ip True m n by (simp add: target_covers_def gatePrefix_def normalizeGateTarget_def normalizeGatePrefix_def)
  qed
qed

section \<open>The gate is exact\<close>

lemma refused_iff:
  assumes "gate_wf g"
  shows "refuse g (currentPeers g w) t \<noteq> None \<longleftrightarrow> (\<exists>x. target_covers t x \<and> gate_protects g w x)"
proof
  assume r: "refuse g (currentPeers g w) t \<noteq> None"
  then obtain p where p: "gatePrefix t = Some p" by (auto simp: refuse_def split: option.splits)
  have "(\<exists>q \<in> set (ga_allowlist g) \<union> set (ga_extra g). prefix_overlaps q p)
      \<or> (\<exists>a \<in> set (currentPeers g w). prefix_contains p (unmap a))"
    using r p by (auto simp: refuse_def list_ex_iff split: if_splits)
  then show "\<exists>x. target_covers t x \<and> gate_protects g w x"
  proof (elim disjE bexE)
    fix q assume q: "q \<in> set (ga_allowlist g) \<union> set (ga_extra g)" "prefix_overlaps q p"
    then obtain x where "prefix_contains q x" "prefix_contains p x"
      using prefix_overlaps_iff [of q p] gatePrefix_wf [OF p] assms unfolding gate_wf_def by blast
    then show ?thesis using p q(1) by (auto simp: target_covers_def gate_protects_def)
  next
    fix a assume "a \<in> set (currentPeers g w)" "prefix_contains p (unmap a)"
    then show ?thesis using p by (auto simp: target_covers_def gate_protects_def)
  qed
next
  assume "\<exists>x. target_covers t x \<and> gate_protects g w x"
  then show "refuse g (currentPeers g w) t \<noteq> None" using not_refused [OF _ assms] by blast
qed


section \<open>The fan-out reaches every child\<close>

lemma multi_each_all:
  "length cs = length ss \<Longrightarrow> snd (multi_each f cs ss) = map (\<lambda>(c, s). snd (f c s)) (zip cs ss)
     \<and> (fst (multi_each f cs ss) = [] \<longleftrightarrow> (\<forall>(c, s) \<in> set (zip cs ss). fst (f c s) = None))"
proof (induction cs arbitrary: ss)
  case (Cons c cs)
  then obtain s ss' where ss: "ss = s # ss'" "length cs = length ss'" by (cases ss) auto
  from Cons.IH [OF ss(2)] show ?case
    by (cases "fst (f c s)") (auto simp: ss Let_def split: prod.splits)
qed simp

section \<open>The contract of an enforcer\<close>

text \<open>
  \<open>drops s x\<close> says that a packet from \<open>x\<close> is dropped.  \<open>target_ok\<close> is what the daemon hands to an
  enforcer: a prefix as Go builds it, an address without zone, and a lifetime of at most 292 years,
  the whole seconds a \<open>time.Duration\<close> can hold.
\<close>

definition target_ok :: "target \<Rightarrow> bool" where
  "target_ok t \<longleftrightarrow> prefix_wf (tg_prefix t) \<and> addr_zone (tg_ip t) = [] \<and> tg_ttl t \<le> 9223372036 * Second"

lemma target_ok_normal: "target_ok t \<Longrightarrow> target_ok (normalizeGateTarget t)"
  by (cases "tg_ip t") (auto simp: target_ok_def normalizeGateTarget_def normalizeForwardPrefix_def)

lemma forwarded_unprotected:
  "gate_wf g \<Longrightarrow> target_ok t \<Longrightarrow> refuse g (currentPeers g w) t = None \<Longrightarrow>
     target_covers (normalizeGateTarget t) x \<Longrightarrow> \<not> gate_protects g w x"
  using not_refused [of g w t x] gatePrefix_normal [of t x] by (simp add: target_ok_def)

locale enforcer_contract =
  fixes e :: "'e enforcer"
    and inv :: "'e \<Rightarrow> bool"
    and drops :: "'e \<Rightarrow> addr \<Rightarrow> bool"
  assumes ban: "inv s \<Longrightarrow> target_ok t \<Longrightarrow> en_ban e t s = (r, s') \<Longrightarrow>
      inv s' \<and> (drops s' x \<longrightarrow> drops s x \<or> target_covers t x)"
    and unban: "inv s \<Longrightarrow> target_ok t \<Longrightarrow> en_unban e t s = (r, s') \<Longrightarrow> inv s' \<and> (drops s' x \<longrightarrow> drops s x)"
    and sync: "inv s \<Longrightarrow> \<forall>t \<in> set want. target_ok t \<Longrightarrow> en_sync e want s = (r, s') \<Longrightarrow>
      inv s' \<and> (drops s' x \<longrightarrow> drops s x \<or> (\<exists>t \<in> set want. target_covers t x))"

text \<open>An enforcer converges when a reconcile that succeeds leaves no drop that was not wanted.\<close>

locale converging_enforcer = enforcer_contract +
  assumes converges: "inv s \<Longrightarrow> \<forall>t \<in> set want. target_ok t \<Longrightarrow> en_sync e want s = (None, s') \<Longrightarrow>
      drops s' x \<Longrightarrow> \<exists>t \<in> set want. target_covers t x"

datatype gate_op = GBan target | GUnban target | GSync "target list"

fun gate_op_ok :: "gate_op \<Rightarrow> bool" where
  "gate_op_ok (GBan t) = target_ok t"
| "gate_op_ok (GUnban t) = target_ok t"
| "gate_op_ok (GSync ts) = list_all target_ok ts"

fun gate_apply :: "'e enforcer \<Rightarrow> 'w gate \<Rightarrow> 'w \<Rightarrow> gate_op \<Rightarrow> 'e enf_op" where
  "gate_apply inner g w (GBan t) s = Gate_Ban inner g w t s"
| "gate_apply inner g w (GUnban t) s = Gate_Unban inner t s"
| "gate_apply inner g w (GSync ts) s = Gate_Sync inner g w ts s"

context enforcer_contract begin

text \<open>No operation through the gate makes the enforcer drop a protected address.\<close>

lemma gate_step:
  assumes "inv s" and "gate_wf g" and "gate_op_ok op" and "gate_apply e g w op s = (r, s')"
  shows "inv s'" and "gate_protects g w x \<Longrightarrow> drops s' x \<Longrightarrow> drops s x"
proof -
  have "inv s' \<and> (gate_protects g w x \<longrightarrow> drops s' x \<longrightarrow> drops s x)"
  proof (cases op)
    case (GBan t)
    show ?thesis
    proof (cases "refuse g (currentPeers g w) t")
      case None
      then have "en_ban e (normalizeGateTarget t) s = (r, s')" using assms(4) GBan by (simp add: Gate_Ban_def)
      from ban [OF assms(1) target_ok_normal this] show ?thesis
        using not_refused [OF None assms(2)] gatePrefix_normal [of t] assms(3) GBan by (auto simp: target_ok_def)
    next
      case (Some reason)
      then show ?thesis using assms(1,4) GBan by (simp add: Gate_Ban_def)
    qed
  next
    case (GUnban t)
    then show ?thesis using unban [OF assms(1) target_ok_normal] assms(3,4) by (simp add: Gate_Unban_def)
  next
    case (GSync ts)
    let ?f = "filter (\<lambda>t. refuse g (currentPeers g w) t = None) ts"
    have ok: "\<forall>t \<in> set (map normalizeGateTarget ?f). target_ok t"
      using assms(3) GSync target_ok_normal by (auto simp: list_all_iff)
    have "en_sync e (map normalizeGateTarget ?f) s = (r, s')" using assms(4) GSync by (simp add: Gate_Sync_def Let_def)
    note sy = sync [OF assms(1) ok this, of x]
    have "\<not> gate_protects g w x" if "t \<in> set (map normalizeGateTarget ?f)" "target_covers t x" for t
      using that forwarded_unprotected [OF assms(2)] assms(3) GSync by (auto simp: list_all_iff)
    then show ?thesis using sy by blast
  qed
  then show "inv s'" and "gate_protects g w x \<Longrightarrow> drops s' x \<Longrightarrow> drops s x" by blast+
qed

end

context converging_enforcer begin

text \<open>A reconcile that succeeds lifts the drop of every protected address.\<close>

lemma gate_sync_heals:
  assumes "inv s" and "gate_wf g" and "\<forall>t \<in> set want. target_ok t" and "Gate_Sync e g w want s = (None, s')"
    and "gate_protects g w x"
  shows "\<not> drops s' x"
proof -
  let ?f = "filter (\<lambda>t. refuse g (currentPeers g w) t = None) want"
  have ok: "\<forall>t \<in> set (map normalizeGateTarget ?f). target_ok t"
    using assms(3) target_ok_normal by auto
  have "en_sync e (map normalizeGateTarget ?f) s = (None, s')" using assms(4) by (simp add: Gate_Sync_def Let_def)
  note sy = converges [OF assms(1) ok this]
  have "\<not> gate_protects g w x" if "t \<in> set (map normalizeGateTarget ?f)" "target_covers t x" for t
    using that forwarded_unprotected [OF assms(2)] assms(3) by auto
  then show ?thesis using sy assms(5) by blast
qed

end

section \<open>Witness\<close>

definition demo_gate :: "unit gate" where
  "demo_gate = NewGate [Pfx (V4 0x0A000000) 8] None"

definition demo_inner :: "unit list enforcer" where "demo_inner = NewMulti []"

definition demo_target :: target where
  "demo_target = zero_target\<lparr>tg_ip := V4 0x0A000001\<rparr>"

lemma demo_gate_covers: "target_covers demo_target (V4 0x0A000001) \<and> gate_protects demo_gate () (V4 0x0A000001)"
  by (simp add: target_covers_def gatePrefix_def demo_target_def addr_is_valid_def prefix_from_def gate_protects_def
      demo_gate_def NewGate_def normalizeGatePrefix_def prefix_masked_def zero_target_def)


end
