(* ===== verification/GoText.thy ===== *)
theory GoText
  imports Prelude "HOL-Library.Word"
begin

text \<open>
  More of Go's text library: cutting and searching strings, \<open>time.ParseDuration\<close>, and 64-bit
  wrap-around of \<open>time.Duration\<close> arithmetic.  A fraction in a duration is scaled exactly and
  truncated to a nanosecond (Go goes through \<open>float64\<close> here).
\<close>

section \<open>Strings\<close>

definition trim_prefix :: "string \<Rightarrow> string \<Rightarrow> string" where
  "trim_prefix p s = (if str_has_prefix s p then drop (length p) s else s)"

definition str_has_suffix :: "string \<Rightarrow> string \<Rightarrow> bool" where
  "str_has_suffix s p \<longleftrightarrow> str_has_prefix (rev s) (rev p)"

definition trim_suffix :: "string \<Rightarrow> string \<Rightarrow> string" where
  "trim_suffix p s = (if str_has_suffix s p then take (length s - length p) s else s)"

text \<open>\<open>strings.Index\<close>: the position of the first occurrence.\<close>

fun str_index :: "string \<Rightarrow> string \<Rightarrow> nat option" where
  "str_index [] sub = (if sub = [] then Some 0 else None)"
| "str_index (c # s) sub = (if str_has_prefix (c # s) sub then Some 0 else map_option Suc (str_index s sub))"

text \<open>\<open>strings.Cut\<close> at a one-byte separator; \<open>None\<close> when it does not occur.\<close>

definition str_cut :: "char \<Rightarrow> string \<Rightarrow> (string \<times> string) option" where
  "str_cut c s = (if c \<in> set s then Some (before_byte c s, drop (Suc (length (before_byte c s))) s) else None)"

lemma str_cut_append: "c \<notin> set a \<Longrightarrow> str_cut c (a @ c # b) = Some (a, b)"
proof -
  assume "c \<notin> set a"
  then have "before_byte c (a @ c # b) = a"
    unfolding before_byte_def by (subst takeWhile_append2) auto
  then show ?thesis by (simp add: str_cut_def)
qed

lemma str_split_no_sep: "c \<notin> set s \<Longrightarrow> str_split c s = [s]"
  by (induction s) auto

lemma str_split_append: "c \<notin> set a \<Longrightarrow> str_split c (a @ c # b) = a # str_split c b"
  by (induction a) auto

lemma trim_space_id:
  assumes "s = [] \<or> \<not> is_space (hd s) \<and> \<not> is_space (last s)"
  shows "trim_space s = s"
proof (cases "s = []")
  case False
  then have h: "dropWhile is_space s = s" using assms by (cases s) auto
  have "dropWhile is_space (rev s) = rev s" using assms False by (cases "rev s") (auto simp: last_rev [symmetric] hd_rev)
  then show ?thesis by (simp add: trim_space_def h)
qed (simp add: trim_space_def)

lemma str_fields_Nil [simp]: "str_fields [] = []"
  by (simp add: str_fields.simps)

lemma str_fields_space: "is_space c \<Longrightarrow> str_fields (c # s) = str_fields s"
  by (subst (1 2) str_fields.simps) simp

lemma dropWhile_word: "\<forall>c \<in> set w. \<not> is_space c \<Longrightarrow> w \<noteq> [] \<Longrightarrow> dropWhile is_space (w @ s) = w @ s"
  by (cases w) auto

text \<open>A word followed by a space or the end is one field.\<close>

lemma str_fields_word:
  assumes "w \<noteq> []" and "\<forall>c \<in> set w. \<not> is_space c" and "s = [] \<or> is_space (hd s)"
  shows "str_fields (w @ s) = w # str_fields s"
proof -
  obtain c t where w: "w = c # t" using assms(1) by (cases w) auto
  have c: "\<not> is_space c" and t: "\<forall>x \<in> set t. \<not> is_space x" using assms(2) w by auto
  have ts: "takeWhile (\<lambda>x. \<not> is_space x) (t @ s) = t"
    using t assms(3) by (cases s) (auto simp: takeWhile_append)
  have ds: "dropWhile (\<lambda>x. \<not> is_space x) (t @ s) = s"
    using t assms(3) by (cases s) (auto simp: dropWhile_append)
  show ?thesis by (subst str_fields.simps) (simp add: w c ts ds)
qed

section \<open>Durations as text\<close>

definition dur_unit :: "string \<Rightarrow> nat option" where
  "dur_unit u =
     (if u = ''ns'' then Some 1
      else if u = ''us'' \<or> u = [CHR 0xC2, CHR 0xB5, CHR ''s''] \<or> u = [CHR 0xCE, CHR 0xBC, CHR ''s''] then Some 1000
      else if u = ''ms'' then Some 1000000
      else if u = ''s'' then Some 1000000000
      else if u = ''m'' then Some 60000000000
      else if u = ''h'' then Some 3600000000000
      else None)"

definition is_num :: "char \<Rightarrow> bool" where
  "is_num c \<longleftrightarrow> is_digit c \<or> c = CHR ''.''"

definition dur_frac :: "string \<Rightarrow> string \<times> string" where
  "dur_frac r0 = (case r0 of [] \<Rightarrow> ([], []) | c # t \<Rightarrow>
     if c = CHR ''.'' then (takeWhile is_digit t, dropWhile is_digit t) else ([], r0))"

text \<open>One component: whole part, fraction, unit; the value in nanoseconds and the rest.\<close>

definition dur_component :: "string \<Rightarrow> (nat \<times> string) option" where
  "dur_component s =
     (let whole = takeWhile is_digit s; r0 = dropWhile is_digit s;
          (frac, r1) = dur_frac r0;
          u = takeWhile (\<lambda>c. \<not> is_num c) r1; rest = dropWhile (\<lambda>c. \<not> is_num c) r1;
          v = digits_val whole
      in if whole = [] \<and> frac = [] \<or> u = [] \<or> v > 2 ^ 63 then None
         else (case dur_unit u of
                 None \<Rightarrow> None
               | Some un \<Rightarrow>
                   if v > 2 ^ 63 div un then None
                   else let x = v * un + digits_val frac * un div 10 ^ length frac
                        in if x > 2 ^ 63 then None else Some (x, rest)))"

lemma dur_component_shorter:
  assumes "dur_component s = Some (x, rest)"
  shows "length rest < length s"
proof -
  let ?r0 = "dropWhile is_digit s"
  obtain frac r1 where fr: "dur_frac ?r0 = (frac, r1)" by fastforce
  have "length (snd (dur_frac r)) \<le> length r" for r
    using length_dropWhile_le [of is_digit "tl r"] by (cases r) (auto simp: dur_frac_def)
  from this [of ?r0] have "length r1 \<le> length ?r0" by (simp add: fr)
  moreover have "length ?r0 \<le> length s" by (rule length_dropWhile_le)
  moreover have "takeWhile (\<lambda>c. \<not> is_num c) r1 \<noteq> []" "rest = dropWhile (\<lambda>c. \<not> is_num c) r1"
    using assms fr by (auto simp: dur_component_def Let_def split: if_splits option.splits)
  then have "length rest < length r1"
    using arg_cong [OF takeWhile_dropWhile_id [of "\<lambda>c. \<not> is_num c" r1], of length]
    by (cases "takeWhile (\<lambda>c. \<not> is_num c) r1") auto
  ultimately show ?thesis by linarith
qed

function dur_components :: "string \<Rightarrow> nat \<Rightarrow> nat option" where
  "dur_components s acc =
     (if s = [] then Some acc
      else if \<not> is_num (hd s) then None
      else (case dur_component s of
              None \<Rightarrow> None
            | Some (x, rest) \<Rightarrow> if acc + x > 2 ^ 63 then None else dur_components rest (acc + x)))"
  by pat_completeness auto
termination
  by (relation "measure (\<lambda>(s, _). length s)") (auto dest: dur_component_shorter)

declare dur_components.simps [simp del]

definition ParseDuration :: "string \<Rightarrow> duration option" where
  "ParseDuration s0 =
     (let (neg, s) = (case s0 of [] \<Rightarrow> (False, []) | c # t \<Rightarrow>
             if c = CHR ''-'' then (True, t) else if c = CHR ''+'' then (False, t) else (False, s0))
      in if s = ''0'' then Some 0
         else if s = [] then None
         else (case dur_components s 0 of
                 None \<Rightarrow> None
               | Some d \<Rightarrow> if neg then Some (- int d) else if d > 2 ^ 63 - 1 then None else Some (int d)))"

section \<open>64-bit wrap-around\<close>

definition wrap64 :: "int \<Rightarrow> int" where
  "wrap64 i = sint (word_of_int i :: 64 word)"

lemma wrap64_id: "- (2 ^ 63) \<le> i \<Longrightarrow> i < 2 ^ 63 \<Longrightarrow> wrap64 i = i"
proof -
  assume "- (2 ^ 63) \<le> i" "i < 2 ^ 63"
  then have "signed_take_bit 63 i = i" by (intro signed_take_bit_int_eq_self) simp_all
  moreover have "sint (word_of_int i :: 64 word) = signed_take_bit 63 i" by (transfer, simp)
  ultimately show ?thesis by (simp only: wrap64_def)
qed

section \<open>Whole seconds\<close>

lemma digit_is_num [simp]: "is_digit c \<Longrightarrow> is_num c"
  by (simp add: is_num_def)

lemma ParseDuration_seconds:
  assumes "n \<le> 9223372036"
  shows "ParseDuration (nat_str n @ ''s'') = Some (int n * Second)"
proof -
  have dig: "\<forall>c \<in> set (nat_str n). is_digit c" by (rule nat_str_digits)
  have hd: "is_digit (hd (nat_str n))" using dig by (cases "nat_str n") auto
  have s: "\<not> is_digit (CHR ''s'')" "\<not> is_num (CHR ''s'')" by (simp_all add: is_digit_def is_num_def)
  have sc: "takeWhile is_digit (nat_str n @ ''s'') = nat_str n" "dropWhile is_digit (nat_str n @ ''s'') = ''s''"
    using dig s by (simp_all add: takeWhile_append dropWhile_append)
  have u: "takeWhile (\<lambda>c. \<not> is_num c) ''s'' = ''s''" "dropWhile (\<lambda>c. \<not> is_num c) ''s'' = []" using s by simp_all
  have "dur_component (nat_str n @ ''s'') = Some (n * 1000000000, [])"
  proof -
    have f: "dur_frac ''s'' = ([], ''s'')" by (simp add: dur_frac_def)
    have ok: "\<not> n > 2 ^ 63" "\<not> n > 2 ^ 63 div 1000000000" "\<not> n * 1000000000 > 2 ^ 63" using assms by simp_all
    have un: "dur_unit ''s'' = Some 1000000000" by (simp add: dur_unit_def)
    have z: "digits_val [] = 0" by (simp add: digits_val_def)
    show ?thesis unfolding dur_component_def Let_def sc f prod.case u un option.case digits_val_nat_str z
      using ok by simp
  qed
  then have "dur_components (nat_str n @ ''s'') 0 = Some (n * 1000000000)"
  proof -
    have ne: "nat_str n @ ''s'' \<noteq> []" and h: "\<not> \<not> is_num (hd (nat_str n @ ''s''))"
      using hd by (cases "nat_str n"; simp)+
    have le: "\<not> 0 + n * 1000000000 > 2 ^ 63" using assms by simp
    show ?thesis if c: "dur_component (nat_str n @ ''s'') = Some (n * 1000000000, [])"
      using le by (subst dur_components.simps) (simp only: if_not_P [OF ne] if_not_P [OF h] c option.case prod.case if_not_P
          dur_components.simps [of "[]"] if_True add_0 if_False simp_thms)
  qed
  note comps = this
  obtain c t where ct: "nat_str n = c # t" by (cases "nat_str n") auto
  have "c \<noteq> CHR ''-''" "c \<noteq> CHR ''+''" using hd ct by (auto simp: is_digit_def)
  then have sp: "(case nat_str n @ ''s'' of [] \<Rightarrow> (False, []) | c # t \<Rightarrow>
      if c = CHR ''-'' then (True, t) else if c = CHR ''+'' then (False, t) else (False, nat_str n @ ''s'')) = (False, nat_str n @ ''s'')"
    by (simp add: ct)
  have nz: "nat_str n @ ''s'' \<noteq> ''0''" "nat_str n @ ''s'' \<noteq> []" by (auto simp: ct)
  have le: "\<not> n * 1000000000 > 2 ^ 63 - 1" using assms by simp
  show ?thesis
    unfolding ParseDuration_def sp prod.case Let_def if_not_P [OF nz(1)] if_not_P [OF nz(2)] comps option.case if_False if_not_P [OF le]
    by (simp add: Second_def)
qed

lemma ParseDuration_seconds_big:
  assumes "n > 9223372036"
  shows "ParseDuration (nat_str n @ ''s'') = None"
proof -
  have dig: "\<forall>c \<in> set (nat_str n). is_digit c" by (rule nat_str_digits)
  have hd: "is_digit (hd (nat_str n))" using dig by (cases "nat_str n") auto
  have s: "\<not> is_digit (CHR ''s'')" "\<not> is_num (CHR ''s'')" by (simp_all add: is_digit_def is_num_def)
  have sc: "takeWhile is_digit (nat_str n @ ''s'') = nat_str n" "dropWhile is_digit (nat_str n @ ''s'') = ''s''"
    using dig s by (simp_all add: takeWhile_append dropWhile_append)
  have u: "takeWhile (\<lambda>c. \<not> is_num c) ''s'' = ''s''" "dropWhile (\<lambda>c. \<not> is_num c) ''s'' = []" using s by simp_all
  have f: "dur_frac ''s'' = ([], ''s'')" by (simp add: dur_frac_def)
  have un: "dur_unit ''s'' = Some 1000000000" by (simp add: dur_unit_def)
  have big: "n > 2 ^ 63 div 1000000000" using assms by simp
  have none: "dur_component (nat_str n @ ''s'') = None"
    unfolding dur_component_def Let_def sc f prod.case u un option.case digits_val_nat_str if_P [OF big] by simp
  have ne: "nat_str n @ ''s'' \<noteq> []" and h: "\<not> \<not> is_num (hd (nat_str n @ ''s''))"
    using hd by (cases "nat_str n"; simp)+
  have comps: "dur_components (nat_str n @ ''s'') 0 = None"
    by (subst dur_components.simps) (simp only: if_not_P [OF ne] if_not_P [OF h] none option.case)
  obtain c t where ct: "nat_str n = c # t" by (cases "nat_str n") auto
  have "c \<noteq> CHR ''-''" "c \<noteq> CHR ''+''" using hd ct by (auto simp: is_digit_def)
  then have sp: "(case nat_str n @ ''s'' of [] \<Rightarrow> (False, []) | c # t \<Rightarrow>
      if c = CHR ''-'' then (True, t) else if c = CHR ''+'' then (False, t) else (False, nat_str n @ ''s'')) = (False, nat_str n @ ''s'')"
    by (simp add: ct)
  have nz: "nat_str n @ ''s'' \<noteq> ''0''" by (auto simp: ct)
  show ?thesis
    unfolding ParseDuration_def sp prod.case Let_def if_not_P [OF nz] if_not_P [OF ne] comps option.case ..
qed

end
