(* ===== verification/NftNames.thy ===== *)
theory NftNames
  imports GoText
begin

text \<open>
  The nftables names, \<open>internal/nftnames\<close>: \<open>Resolve\<close> validates what the operator configured
  and derives the six sets of the table.  Whatever it accepts is an identifier
  (\<open>Resolve_identifiers\<close>), the barrier that keeps nft syntax out of the scripts.
\<close>

definition DefaultTable :: string where "DefaultTable = ''inet ezyshield''"
definition DefaultSet :: string where "DefaultSet = ''blocked''"
definition maxNameLen :: nat where "maxNameLen = 32"

record nft_names =
  nm_table :: string
  nm_set4 :: string
  nm_set6 :: string
  nm_allow4 :: string
  nm_allow6 :: string
  nm_feeds4 :: string
  nm_feeds6 :: string

datatype names_error =
    NameTooLong string string
  | NameSyntax string string
  | FamilyNotInet string
  | TableShape string
  | SetTooLong string
  | SetReserved string

definition is_alpha :: "char \<Rightarrow> bool" where
  "is_alpha c \<longleftrightarrow> (65 \<le> (of_char c :: nat) \<and> (of_char c :: nat) \<le> 90) \<or> (97 \<le> (of_char c :: nat) \<and> (of_char c :: nat) \<le> 122)"

text \<open>The expression \<open>nameRe\<close>.\<close>

definition is_identifier :: "string \<Rightarrow> bool" where
  "is_identifier s \<longleftrightarrow> (case s of [] \<Rightarrow> False | c # t \<Rightarrow>
     (is_alpha c \<or> c = CHR ''_'') \<and> list_all (\<lambda>d. is_alpha d \<or> d = CHR ''_'' \<or> is_digit d) t)"

definition validName :: "string \<Rightarrow> string \<Rightarrow> names_error option" where
  "validName kind name =
     (if length name > maxNameLen then Some (NameTooLong kind name)
      else if \<not> is_identifier name then Some (NameSyntax kind name)
      else None)"

definition resolve_table :: "string \<Rightarrow> names_error + string" where
  "resolve_table table =
     (if table = [] then Inr ''ezyshield''
      else
        (case str_fields table of
           [t] \<Rightarrow> (case validName ''table'' t of Some e \<Rightarrow> Inl e | None \<Rightarrow> Inr t)
         | [f, t] \<Rightarrow>
             if f \<noteq> ''inet'' then Inl (FamilyNotInet f)
             else (case validName ''table'' t of Some e \<Rightarrow> Inl e | None \<Rightarrow> Inr t)
         | _ \<Rightarrow> Inl (TableShape table)))"

definition resolve_set :: "string \<Rightarrow> names_error + string" where
  "resolve_set st =
     (if st = [] then Inr DefaultSet
      else
        (case validName ''set'' st of
           Some e \<Rightarrow> Inl e
         | None \<Rightarrow>
             if length st \<ge> maxNameLen then Inl (SetTooLong st)
             else if st = ''allowed'' \<or> st = ''allowed6'' then Inl (SetReserved st)
             else if st = ''blocked_feeds'' \<or> st = ''blocked_feeds6'' then Inl (SetReserved st)
             else Inr st))"

definition Resolve :: "string \<Rightarrow> string \<Rightarrow> names_error + nft_names" where
  "Resolve table st =
     (case resolve_table (trim_space table) of
        Inl e \<Rightarrow> Inl e
      | Inr t \<Rightarrow>
          (case resolve_set (trim_space st) of
             Inl e \<Rightarrow> Inl e
           | Inr s \<Rightarrow>
               Inr \<lparr>nm_table = ''inet '' @ t, nm_set4 = s, nm_set6 = s @ ''6'', nm_allow4 = ''allowed'', nm_allow6 = ''allowed6'',
                    nm_feeds4 = ''blocked_feeds'', nm_feeds6 = ''blocked_feeds6''\<rparr>))"

definition default_names :: nft_names where
  "default_names = \<lparr>nm_table = ''inet ezyshield'', nm_set4 = ''blocked'', nm_set6 = ''blocked6'', nm_allow4 = ''allowed'',
     nm_allow6 = ''allowed6'', nm_feeds4 = ''blocked_feeds'', nm_feeds6 = ''blocked_feeds6''\<rparr>"

definition IsDefault :: "nft_names \<Rightarrow> bool" where
  "IsDefault n \<longleftrightarrow> Resolve [] [] = Inr n"

lemma trim_space_Nil [simp]: "trim_space [] = []"
  by (simp add: trim_space_def)

lemma Resolve_default: "Resolve [] [] = Inr default_names"
  by (simp add: Resolve_def resolve_table_def resolve_set_def DefaultSet_def default_names_def)

section \<open>The injection barrier\<close>

text \<open>
  A name that passed has only identifier characters, so the sets are single words, the table
  is two words, and the six sets are pairwise different.
\<close>

definition names_ok :: "nft_names \<Rightarrow> bool" where
  "names_ok n \<longleftrightarrow> (\<exists>t s. is_identifier t \<and> is_identifier s \<and> s \<notin> {''allowed'', ''allowed6'', ''blocked_feeds'', ''blocked_feeds6''}
     \<and> n = \<lparr>nm_table = ''inet '' @ t, nm_set4 = s, nm_set6 = s @ ''6'', nm_allow4 = ''allowed'', nm_allow6 = ''allowed6'',
          nm_feeds4 = ''blocked_feeds'', nm_feeds6 = ''blocked_feeds6''\<rparr>)"

lemma validName_ok: "validName k t = None \<Longrightarrow> is_identifier t"
  by (simp add: validName_def split: if_splits)

lemma Resolve_ok: "Resolve table st = Inr n \<Longrightarrow> names_ok n"
proof -
  assume r: "Resolve table st = Inr n"
  have e: "is_identifier ''ezyshield''" "is_identifier ''blocked''"
    by (simp_all add: is_identifier_def is_alpha_def)
  obtain t s where t: "resolve_table (trim_space table) = Inr t" and s: "resolve_set (trim_space st) = Inr s"
    and n: "n = \<lparr>nm_table = ''inet '' @ t, nm_set4 = s, nm_set6 = s @ ''6'', nm_allow4 = ''allowed'', nm_allow6 = ''allowed6'',
        nm_feeds4 = ''blocked_feeds'', nm_feeds6 = ''blocked_feeds6''\<rparr>"
    using r by (auto simp: Resolve_def split: sum.splits)
  have "is_identifier t"
    using t e(1) validName_ok by (auto simp: resolve_table_def split: if_splits list.splits option.splits)
  moreover have "is_identifier s \<and> s \<notin> {''allowed'', ''allowed6'', ''blocked_feeds'', ''blocked_feeds6''}"
    using s e(2) validName_ok [of "''set''" "trim_space st"]
    by (auto simp: resolve_set_def DefaultSet_def split: if_splits option.splits)
  ultimately show ?thesis using n by (auto simp: names_ok_def)
qed

lemma identifier_chars:
  assumes "is_identifier s"
  shows "s \<noteq> []" and "\<forall>c \<in> set s. \<not> is_space c \<and> c \<notin> {CHR ''{'', CHR ''}'', CHR '','', CHR '';'', CHR 0x0A, CHR ''%''}"
proof -
  show "s \<noteq> []" using assms by (auto simp: is_identifier_def)
  have "is_alpha d \<or> d = CHR ''_'' \<or> is_digit d" if "d \<in> set s" for d
    using assms that by (cases s) (auto simp: is_identifier_def list_all_iff)
  then show "\<forall>c \<in> set s. \<not> is_space c \<and> c \<notin> {CHR ''{'', CHR ''}'', CHR '','', CHR '';'', CHR 0x0A, CHR ''%''}"
    by (force simp: is_alpha_def is_digit_def is_space_def)
qed

lemma names_ok_default: "names_ok default_names"
  using Resolve_ok [OF Resolve_default] .

end
