(* ===== verification/NetipV6.thy ===== *)
theory NetipV6
  imports NetipText
begin

text \<open>
  The text of IPv6 addresses and of prefixes reads back as the value it was printed from
  (\<open>parse_addr_addr_str\<close>, \<open>parse_prefix_pfx_str\<close>), for addresses without a zone.  The enforcer
  client and the privileged helper exchange these texts and use them as keys of the kernel's
  sets, so what a key covers is decided by this round trip.
\<close>

section \<open>Hexadecimal groups\<close>

lemma hex_char_is_hex [simp]: "d < 16 \<Longrightarrow> is_hex (hex_char d)"
  by (auto simp: is_hex_def hex_char_def of_char_of)

lemma hex_char_val [simp]: "d < 16 \<Longrightarrow> hex_digit_val (hex_char d) = d"
  by (auto simp: hex_digit_val_def hex_char_def of_char_of is_digit_def digit_val_def digit_char_def)

lemma hex_str_all: "\<forall>c \<in> set (hex_str n). is_hex c"
proof (induction n rule: hex_str.induct)
  case (1 n)
  then show ?case by (subst hex_str.simps) auto
qed

lemma hex_str_nonempty [simp]: "hex_str n \<noteq> []"
  by (subst hex_str.simps) simp

lemma hex_val_hex_str [simp]: "hex_val (hex_str n) = n"
proof (induction n rule: hex_str.induct)
  case (1 n)
  then show ?case by (subst hex_str.simps) (auto simp: hex_val_def)
qed

lemma length_hex_str: "n < 16 ^ k \<Longrightarrow> 0 < k \<Longrightarrow> length (hex_str n) \<le> k"
proof (induction k arbitrary: n)
  case (Suc k)
  show ?case
  proof (cases "n < 16")
    case True
    then show ?thesis by (simp add: hex_str.simps)
  next
    case False
    then have "0 < k" using Suc.prems by (cases k) auto
    moreover have "n div 16 < 16 ^ k" using Suc.prems by (simp add: less_mult_imp_div_less mult.commute)
    ultimately show ?thesis using Suc.IH [of "n div 16"] False by (simp add: hex_str.simps [of n])
  qed
qed simp

lemma not_is_hex [simp]: "\<not> is_hex (CHR '':'')" "\<not> is_hex (CHR ''.'')" "\<not> is_hex (CHR ''%'')" "\<not> is_hex (CHR ''/'')"
  by (simp_all add: is_hex_def is_digit_def)

definition group_bytes :: "nat list \<Rightarrow> nat list" where
  "group_bytes gs = concat (map (\<lambda>g. [g div 256, g mod 256]) gs)"

lemma group_bytes_simps [simp]:
  "group_bytes [] = []" "group_bytes (g # gs) = g div 256 # g mod 256 # group_bytes gs"
  "group_bytes (gs @ hs) = group_bytes gs @ group_bytes hs"
  by (simp_all add: group_bytes_def)

lemma length_group_bytes [simp]: "length (group_bytes gs) = 2 * length gs"
  by (induction gs) auto

lemma group_scan:
  assumes "rest = [] \<or> \<not> is_hex (hd rest)"
  shows "takeWhile is_hex (hex_str g @ rest) = hex_str g" and "dropWhile is_hex (hex_str g @ rest) = rest"
  using hex_str_all [of g] assms by (cases rest; simp add: takeWhile_append dropWhile_append)+

lemma group_scan_Nil: "takeWhile is_hex (hex_str g) = hex_str g" "dropWhile is_hex (hex_str g) = []"
  using group_scan [of "[]" g] by (simp_all only: append_Nil2 simp_thms)

lemma length_group: "g < 65536 \<Longrightarrow> \<not> 4 < length (hex_str g)"
  using length_hex_str [of g 4] by simp

lemma group_last:
  "g < 65536 \<Longrightarrow> ipv6_groups (Suc n) (hex_str g) ip ell = Some (ip @ [g div 256, g mod 256], ell, [])"
  by (simp add: Let_def group_scan_Nil length_group)

lemma group_colon:
  "g < 65536 \<Longrightarrow> rest \<noteq> [] \<Longrightarrow> hd rest \<noteq> CHR '':'' \<Longrightarrow>
     ipv6_groups (Suc n) (hex_str g @ CHR '':'' # rest) ip ell = ipv6_groups n rest (ip @ [g div 256, g mod 256]) ell"
  by (cases rest) (simp_all add: Let_def group_scan length_group)

lemma group_ellipsis:
  "g < 65536 \<Longrightarrow>
     ipv6_groups (Suc n) (hex_str g @ CHR '':'' # CHR '':'' # rest) ip None =
       (if rest = [] then Some (ip @ [g div 256, g mod 256], Some (length ip + 2), [])
        else ipv6_groups n rest (ip @ [g div 256, g mod 256]) (Some (length ip + 2)))"
  by (simp add: Let_def group_scan length_group)

definition join6 :: "nat list \<Rightarrow> string" where
  "join6 gs = str_join '':'' (map hex_str gs)"

lemma join6_simps: "join6 [] = []" "join6 [g] = hex_str g" "gs \<noteq> [] \<Longrightarrow> join6 (g # gs) = hex_str g @ CHR '':'' # join6 gs"
  by (cases gs; simp add: join6_def)+

lemma hd_hex_str: "is_hex (hd (hex_str g @ rest))"
  using hex_str_all [of g] by (cases "hex_str g") auto

lemma join6_hd: "gs \<noteq> [] \<Longrightarrow> join6 gs @ rest \<noteq> [] \<and> is_hex (hd (join6 gs @ rest))"
  using hd_hex_str by (cases gs; cases "tl gs") (auto simp: join6_simps)

lemma hex_not_colon: "is_hex c \<Longrightarrow> c \<noteq> CHR '':''"
  by auto

lemma groups_plain:
  "gs \<noteq> [] \<Longrightarrow> \<forall>g \<in> set gs. g < 65536 \<Longrightarrow> length gs \<le> n \<Longrightarrow>
     ipv6_groups n (join6 gs) ip ell = Some (ip @ group_bytes gs, ell, [])"
proof (induction gs arbitrary: n ip)
  case (Cons g gs)
  obtain m where n: "n = Suc m" using Cons.prems by (cases n) auto
  show ?case
  proof (cases "gs = []")
    case True
    then show ?thesis using Cons.prems n by (simp add: join6_simps group_last del: ipv6_groups.simps)
  next
    case False
    then have "join6 gs \<noteq> []" "hd (join6 gs) \<noteq> CHR '':''" using join6_hd [of gs "[]"] by auto
    then show ?thesis
      using Cons.prems n False Cons.IH [OF False, of m] by (simp add: join6_simps group_colon del: ipv6_groups.simps)
  qed
qed simp

lemma groups_ellipsis:
  "hs \<noteq> [] \<Longrightarrow> \<forall>g \<in> set (hs @ ts). g < 65536 \<Longrightarrow> length (hs @ ts) \<le> n \<Longrightarrow>
     ipv6_groups n (join6 hs @ ''::'' @ join6 ts) ip None =
       Some (ip @ group_bytes hs @ group_bytes ts, Some (length ip + 2 * length hs), [])"
proof (induction hs arbitrary: n ip)
  case (Cons g hs)
  obtain m where n: "n = Suc m" using Cons.prems by (cases n) auto
  show ?case
  proof (cases "hs = []")
    case True
    then show ?thesis
      using Cons.prems n groups_plain [of ts m] join6_hd [of ts "[]"]
      by (cases "ts = []") (simp_all add: join6_simps group_ellipsis del: ipv6_groups.simps)
  next
    case False
    have nc: "join6 hs @ ''::'' @ join6 ts \<noteq> []" "hd (join6 hs @ ''::'' @ join6 ts) \<noteq> CHR '':''"
      using join6_hd [OF False, of "''::'' @ join6 ts"] by auto
    have "join6 (g # hs) @ ''::'' @ join6 ts = hex_str g @ CHR '':'' # (join6 hs @ ''::'' @ join6 ts)"
      using False by (simp add: join6_simps)
    then have "ipv6_groups n (join6 (g # hs) @ ''::'' @ join6 ts) ip None
        = ipv6_groups m (join6 hs @ ''::'' @ join6 ts) (ip @ [g div 256, g mod 256]) None"
      using group_colon [OF _ nc, of g m ip None] Cons.prems n by simp
    also have "\<dots> = Some ((ip @ [g div 256, g mod 256]) @ group_bytes hs @ group_bytes ts,
        Some (length (ip @ [g div 256, g mod 256]) + 2 * length hs), [])"
      using Cons.prems n by (intro Cons.IH [OF False]) auto
    finally show ?thesis by simp
  qed
qed simp

section \<open>The value of the groups\<close>

lemma bytes_word_of_nat: "bytes_word bs = (of_nat (foldl (\<lambda>n b. n * 256 + b) 0 bs) :: 'a::len word)"
proof -
  have "foldl (\<lambda>w b. w * 256 + of_nat b) (of_nat n) bs = (of_nat (foldl (\<lambda>n b. n * 256 + b) n bs) :: 'a word)" for n
  proof (induction bs arbitrary: n)
    case (Cons b bs)
    have "of_nat n * 256 + of_nat b = (of_nat (n * 256 + b) :: 'a word)" by simp
    then show ?case using Cons.IH [of "n * 256 + b"] by (simp only: foldl_Cons)
  qed simp
  from this [of 0] show ?thesis by (simp add: bytes_word_def)
qed

lemma foldl_group_bytes:
  "foldl (\<lambda>n b. n * 256 + b) n (group_bytes gs) = foldl (\<lambda>n g. n * 65536 + g) n gs" for n :: nat
proof (induction gs arbitrary: n)
  case (Cons g gs)
  have "(n * 256 + g div 256) * 256 + g mod 256 = n * 65536 + g"
    using div_mult_mod_eq [of g 256] by (simp add: algebra_simps)
  then show ?case using Cons.IH [of "n * 65536 + g"] by (simp only: group_bytes_simps foldl_Cons)
qed simp

text \<open>Positional notation: the base-\<open>b\<close> digits of a number below \<open>b ^ k\<close>, the highest first.\<close>

lemma digits_value:
  fixes b :: nat
  assumes "n < b ^ k" and "0 < b"
  shows "foldl (\<lambda>m g. m * b + g) 0 (map (\<lambda>i. n div b ^ (k - Suc i) mod b) [0..<k]) = n"
  using assms(1)
proof (induction k arbitrary: n)
  case (Suc k)
  have lt: "n div b < b ^ k" using Suc.prems assms(2) by (simp add: less_mult_imp_div_less mult.commute)
  have "map (\<lambda>i. n div b ^ (Suc k - Suc i) mod b) [0..<Suc k]
      = map (\<lambda>i. n div b div b ^ (k - Suc i) mod b) [0..<k] @ [n mod b]"
  proof -
    have "n div b ^ (k - i) mod b = n div b div b ^ (k - Suc i) mod b" if "i < k" for i
    proof -
      have "k - i = Suc (k - Suc i)" using that by simp
      then show ?thesis by (simp add: div_mult2_eq)
    qed
    then have "map (\<lambda>i. n div b ^ (Suc k - Suc i) mod b) [0..<k] = map (\<lambda>i. n div b div b ^ (k - Suc i) mod b) [0..<k]"
      by (intro map_cong [OF refl]) simp
    then show ?thesis by simp
  qed
  then have "foldl (\<lambda>m g. m * b + g) 0 (map (\<lambda>i. n div b ^ (Suc k - Suc i) mod b) [0..<Suc k])
      = foldl (\<lambda>m g. m * b + g) 0 (map (\<lambda>i. n div b div b ^ (k - Suc i) mod b) [0..<k]) * b + n mod b"
    by (simp only: foldl_append foldl_Cons foldl_Nil)
  also have "\<dots> = n" by (simp only: Suc.IH [OF lt] div_mult_mod_eq)
  finally show ?case .
qed simp

lemma v6_groups_nat: "v6_groups w = map (\<lambda>i. unat w div 65536 ^ (8 - Suc i) mod 65536) [0..<8]"
proof -
  have "nat (uint w div 65536 ^ k mod 65536) = unat w div 65536 ^ k mod 65536" for k :: nat
  proof -
    have "uint w = int (unat w)" by simp
    then have "uint w div 65536 ^ k mod 65536 = int (unat w div 65536 ^ k mod 65536)"
      by (simp only: of_nat_mod of_nat_div of_nat_power of_nat_numeral)
    then show ?thesis by (simp only: nat_int)
  qed
  then have "(\<lambda>i. nat (uint w div 65536 ^ (7 - i) mod 65536)) = (\<lambda>i. unat w div 65536 ^ (8 - Suc i) mod 65536)"
    by (simp only: diff_Suc_eq_diff_pred) simp
  then show ?thesis by (simp only: v6_groups_def)
qed

lemma length_v6_groups [simp]: "length (v6_groups w) = 8"
  by (simp add: v6_groups_def)

lemma v6_groups_bound: "\<forall>g \<in> set (v6_groups w). g < 65536"
  by (simp add: v6_groups_nat)

lemma bytes_word_groups: "bytes_word (group_bytes (v6_groups w)) = w"
proof -
  have "unat w < 65536 ^ 8" using unsigned_less [of w] by simp
  from digits_value [OF this] show ?thesis
    by (simp only: bytes_word_of_nat foldl_group_bytes v6_groups_nat) simp
qed

section \<open>The longest run of zeros\<close>

definition run_ok :: "nat list \<Rightarrow> nat \<times> nat \<Rightarrow> bool" where
  "run_ok gs = (\<lambda>(s, l). l = 0 \<or> 2 \<le> l \<and> s + l \<le> length gs \<and> take l (drop s gs) = replicate l 0)"

lemma run_ok_zero: "length gs = 8 \<Longrightarrow> run_ok gs (zero_run gs)"
proof -
  assume len: "length gs = 8"
  have at: "run_ok gs (i, length (takeWhile (\<lambda>g. g = 0) (drop i gs)))"
    if "2 \<le> length (takeWhile (\<lambda>g. g = 0) (drop i gs))" for i
  proof -
    let ?t = "takeWhile (\<lambda>g. g = 0) (drop i gs)"
    have "length ?t \<le> length (drop i gs)" by (rule length_takeWhile_le)
    moreover have "take (length ?t) (drop i gs) = ?t" by (metis takeWhile_eq_take)
    moreover have "?t = replicate (length ?t) 0"
      by (rule replicate_eqI [THEN sym, symmetric]) (auto dest: set_takeWhileD)
    ultimately show ?thesis using that by (auto simp: run_ok_def)
  qed
  have "run_ok gs (foldl (\<lambda>(s, l) i. let n = length (takeWhile (\<lambda>g. g = 0) (drop i gs)) in
       if 2 \<le> n \<and> l < n then (i, n) else (s, l)) sl is)" if "run_ok gs sl" for sl "is"
    using that
  proof (induction "is" arbitrary: sl)
    case (Cons i "is")
    obtain s l where sl: "sl = (s, l)" by fastforce
    let ?n = "length (takeWhile (\<lambda>g. g = 0) (drop i gs))"
    have "run_ok gs (if 2 \<le> ?n \<and> l < ?n then (i, ?n) else (s, l))" using Cons.prems at [of i] sl by simp
    from Cons.IH [OF this] show ?case unfolding sl foldl_Cons prod.case Let_def .
  qed simp
  then show ?thesis by (simp add: zero_run_def run_ok_def)
qed

section \<open>Printed IPv6 addresses\<close>

lemma join6_no: "c \<in> set (join6 gs) \<Longrightarrow> is_hex c \<or> c = CHR '':''"
proof (induction gs rule: induct_list012)
  case (3 x y zs)
  then show ?case using hex_str_all [of x] by (auto simp: join6_simps)
qed (auto simp: join6_simps hex_str_all)

lemma v6_str_join: "v6_str w =
   (let gs = v6_groups w; (s, l) = zero_run gs in
      if l = 0 then join6 gs else join6 (take s gs) @ ''::'' @ join6 (drop (s + l) gs))"
  unfolding v6_str_def join6_def ..

lemma v6_str_chars: "c \<in> set (v6_str w) \<Longrightarrow> is_hex c \<or> c = CHR '':''"
  by (auto simp: v6_str_join Let_def split: prod.splits if_splits dest: join6_no)

lemma join6_Cons: "\<exists>t. join6 (g # gs) = hex_str g @ t"
  by (cases gs) (auto simp: join6_simps)

lemma ipv6_groups_str:
  assumes "\<forall>g \<in> set gs. g < 65536" and "length gs = 8"
  shows "ipv6_groups 8 (join6 gs) [] None = Some (group_bytes gs, None, [])"
  using groups_plain [of gs 8 "[]" None] assms by (cases gs) auto

text \<open>The compressed form: the two halves around the ellipsis.\<close>

lemma parse_ipv6_compressed:
  assumes gs: "gs = hs @ replicate l 0 @ ts" and len: "length gs = 8" and l: "2 \<le> l"
    and b: "\<forall>g \<in> set gs. g < 65536"
  shows "parse_ipv6 (join6 hs @ ''::'' @ join6 ts) = Some (V6 (bytes_word (group_bytes gs)) [])"
proof -
  let ?s = "join6 hs @ ''::'' @ join6 ts"
  have nz: "CHR ''%'' \<notin> set ?s" using join6_no [of "CHR ''%''" hs] join6_no [of "CHR ''%''" ts] by auto
  then have before: "before_byte (CHR ''%'') ?s = ?s" unfolding before_byte_def by (subst takeWhile_eq_all_conv) auto
  have z: "group_bytes (replicate k 0) = replicate (2 * k) 0" for k by (induction k) auto
  have z16: "bytes_word (replicate k 0) = (0 :: 128 word)" for k by (induction k) (simp_all add: bytes_word_def)
  have total: "2 * length hs + 2 * l + 2 * length ts = 16" using gs len by simp
  have exp: "ipv6_expand (group_bytes hs @ group_bytes ts, Some (2 * length hs), []) = Some (group_bytes gs)"
    using total l by (simp add: ipv6_expand_def gs z)
  show ?thesis
  proof (cases "hs = []")
    case True
    show ?thesis
    proof (cases "ts = []")
      case empty: True
      then have "gs = replicate 8 0" using gs True len by simp
      then have "bytes_word (group_bytes gs) = (0 :: 128 word)" by (simp only: z z16)
      moreover have "parse_ipv6 ''::'' = Some (V6 0 [])" by (simp add: parse_ipv6_def before_byte_def)
      ultimately show ?thesis using True empty by (simp add: join6_simps)
    next
      case False
      then have ne: "join6 ts \<noteq> []" using join6_hd [of ts "[]"] by simp
      have "ipv6_groups 8 (join6 ts) [] (Some 0) = Some (group_bytes ts, Some 0, [])"
        using groups_plain [OF False, of 8 "[]" "Some 0"] b gs total l by auto
      then have g: "ipv6_groups 8 (join6 ts) [] (Some 0) = Some (group_bytes hs @ group_bytes ts, Some (2 * length hs), [])"
        using True by simp
      have s: "?s = ''::'' @ join6 ts" using True by (simp add: join6_simps)
      have p: "str_has_prefix ?s ''::''" "drop 2 ?s = join6 ts" "?s \<noteq> ''::''" "CHR ''%'' \<notin> set ?s"
        using ne nz unfolding s by (simp_all add: str_has_prefix_def)
      show ?thesis unfolding parse_ipv6_def Let_def before p(2) if_P [OF p(1)] if_not_P [OF p(3)] prod.case g
        using exp p(4) by simp
    qed
  next
    case False
    have "is_hex (hd ?s)" "?s \<noteq> []" using join6_hd [OF False, of "''::'' @ join6 ts"] by auto
    then have np: "\<not> str_has_prefix ?s ''::''" "?s \<noteq> ''::''"
      by (cases ?s; auto simp: str_has_prefix_def)+
    have g: "ipv6_groups 8 ?s [] None = Some (group_bytes hs @ group_bytes ts, Some (2 * length hs), [])"
      using groups_ellipsis [OF False, of ts 8 "[]"] b gs total by auto
    show ?thesis unfolding parse_ipv6_def Let_def before if_not_P [OF np(1)] if_not_P [OF np(2)] prod.case g
      using exp nz by simp
  qed
qed

lemma parse_ipv6_v6_str: "parse_ipv6 (v6_str w) = Some (V6 w [])"
proof -
  let ?gs = "v6_groups w"
  obtain s l where run: "zero_run ?gs = (s, l)" by fastforce
  show ?thesis
  proof (cases "l = 0")
    case False
    have ok: "2 \<le> l" "s + l \<le> 8" "take l (drop s ?gs) = replicate l 0"
      using run_ok_zero [of ?gs] False by (auto simp: run run_ok_def)
    have "?gs = take s ?gs @ take l (drop s ?gs) @ drop l (drop s ?gs)" by (simp only: append_take_drop_id)
    then have split: "?gs = take s ?gs @ replicate l 0 @ drop (s + l) ?gs" using ok(3) by (simp add: add.commute)
    have "v6_str w = join6 (take s ?gs) @ ''::'' @ join6 (drop (s + l) ?gs)"
      using False by (simp add: v6_str_join run Let_def)
    then show ?thesis
      using parse_ipv6_compressed [OF split _ ok(1) v6_groups_bound] by (simp add: bytes_word_groups)
  next
    case True
    have s: "v6_str w = join6 ?gs" using True by (simp add: v6_str_join run)
    have nz: "CHR ''%'' \<notin> set (join6 ?gs)" using join6_no [of "CHR ''%''" ?gs] by auto
    then have before: "before_byte (CHR ''%'') (join6 ?gs) = join6 ?gs"
      unfolding before_byte_def by (subst takeWhile_eq_all_conv) auto
    obtain g gs where gs: "?gs = g # gs" "gs \<noteq> []" using length_v6_groups [of w]
      by (cases ?gs; cases "tl ?gs") auto
    have "is_hex (hd (join6 ?gs))" "join6 ?gs \<noteq> []" using join6_hd [of ?gs "[]"] gs by auto
    then have np: "\<not> str_has_prefix (join6 ?gs) ''::''" "join6 ?gs \<noteq> ''::''"
      by (cases "join6 ?gs"; auto simp: str_has_prefix_def)+
    have "ipv6_expand (group_bytes ?gs, None, []) = Some (group_bytes ?gs)" by (simp add: ipv6_expand_def)
    then show ?thesis
      unfolding s parse_ipv6_def Let_def before if_not_P [OF np(1)] if_not_P [OF np(2)] prod.case
      using nz ipv6_groups_str [OF v6_groups_bound length_v6_groups, of w] by (simp add: bytes_word_groups)
  qed
qed

lemma dropWhile_first_special:
  assumes "\<forall>c \<in> set s. is_hex c \<or> c = CHR '':''" and "CHR '':'' \<in> set s"
  shows "\<exists>t. dropWhile (\<lambda>c. c \<notin> {CHR ''.'', CHR '':'', CHR ''%''}) (s @ u) = CHR '':'' # t"
  using assms by (induction s) auto

lemma join6_colon: "2 \<le> length gs \<Longrightarrow> CHR '':'' \<in> set (join6 gs)"
  by (cases gs; cases "tl gs") (auto simp: join6_simps)

lemma v6_str_colon: "CHR '':'' \<in> set (v6_str w)"
  by (cases "zero_run (v6_groups w)") (simp add: v6_str_join Let_def join6_colon)

text \<open>The mapped form \<open>::ffff:a.b.c.d\<close>.\<close>

lemma mapped_bytes:
  assumes "drop_bit 32 w = (0xffff :: 128 word)"
  shows "bytes_word (replicate 10 0 @ [255, 255] @ ipv4_bytes (ucast w)) = w"
proof -
  let ?v = "ucast w :: 32 word"
  have v: "foldl (\<lambda>w b. w * 256 + of_nat b) (0xffff :: 128 word) (ipv4_bytes ?v) = 0xffff * 2 ^ 32 + ucast ?v"
  proof -
    obtain a b c d where bs: "ipv4_bytes ?v = [a, b, c, d]" by (simp add: ipv4_bytes_def)
    have "((a * 256 + b) * 256 + c) * 256 + d = unat ?v"
    proof -
      let ?n = "unat ?v"
      have "?n = ?n div 256 * 256 + ?n mod 256" by simp
      also have "?n div 256 = ?n div 256 div 256 * 256 + ?n div 256 mod 256" by simp
      also have "?n div 256 div 256 = ?n div 256 div 256 div 256 * 256 + ?n div 256 div 256 mod 256" by simp
      finally show ?thesis using bs by (simp add: ipv4_bytes_def div_mult2_eq [symmetric])
    qed
    then have "of_nat (((a * 256 + b) * 256 + c) * 256 + d) = (of_nat (unat ?v) :: 128 word)" by simp
    moreover have "(of_nat (unat ?v) :: 128 word) = ucast ?v" by simp
    ultimately show ?thesis unfolding bs by (simp add: algebra_simps)
  qed
  have z: "foldl (\<lambda>w b. w * 256 + of_nat b) (0 :: 128 word) (replicate k 0) = 0" for k by (induction k) auto
  have "bytes_word (replicate 10 0 @ [255, 255] @ ipv4_bytes ?v) = 0xffff * 2 ^ 32 + (ucast ?v :: 128 word)"
    unfolding bytes_word_def foldl_append z using v by simp
  also have "\<dots> = push_bit 32 0xffff + take_bit 32 w"
  proof -
    have "(ucast ?v :: 128 word) = take_bit 32 w" by (rule bit_word_eqI) (auto simp: bit_simps)
    then show ?thesis by (simp add: push_bit_eq_mult)
  qed
  also have "\<dots> = w" using assms bits_ident [of 32 w] by simp
  finally show ?thesis .
qed

lemma ipv4_str_chars: "c \<in> set (ipv4_str w) \<Longrightarrow> is_digit c \<or> c = CHR ''.''"
proof -
  obtain a b c' d' where bs: "ipv4_bytes w = [a, b, c', d']" by (simp add: ipv4_bytes_def)
  assume "c \<in> set (ipv4_str w)"
  then show ?thesis using nat_str_digits by (auto simp: ipv4_str_def bs)
qed

lemma ipv4_str_head: "\<exists>n t. n < 256 \<and> ipv4_str w = nat_str n @ CHR ''.'' # t"
proof -
  obtain a b c d where bs: "ipv4_bytes w = [a, b, c, d]" by (simp add: ipv4_bytes_def)
  then have "a < 256" using ipv4_bytes_bounds [of w] by simp
  then show ?thesis by (auto simp: ipv4_str_def bs)
qed

lemma nat_str_hex: "\<forall>c \<in> set (nat_str n). is_hex c"
  using nat_str_digits [of n] by (auto simp: is_hex_def)

lemma parse_mapped_str:
  assumes "drop_bit 32 w = (0xffff :: 128 word)"
  shows "parse_addr (''::ffff:'' @ ipv4_str (ucast w)) = Some (V6 w [])"
proof -
  let ?v = "ipv4_str (ucast w)"
  obtain n t where n: "n < 256" "?v = nat_str n @ CHR ''.'' # t" using ipv4_str_head by blast
  have sc: "takeWhile is_hex ?v = nat_str n" "dropWhile is_hex ?v = CHR ''.'' # t"
    using nat_str_hex [of n] unfolding n(2) by (simp_all add: takeWhile_append dropWhile_append)
  have len: "\<not> 4 < length (nat_str n)" using n(1) by (simp add: nat_str_small)
  have tail: "ipv6_groups 7 ?v [255, 255] (Some 0) = Some ([255, 255] @ ipv4_bytes (ucast w), Some 0, [])"
  proof -
    have 7: "7 = Suc 6" by simp
    have ne: "nat_str n \<noteq> []" by simp
    show ?thesis unfolding 7 ipv6_groups.simps Let_def sc if_not_P [OF len] if_not_P [OF ne] list.case
      using ipv4_fields_str [of "ucast w"] by simp
  qed
  have "hd ?v \<noteq> CHR '':''" "?v \<noteq> []"
    using nat_str_hex [of n] n(2) by (cases "nat_str n"; auto)+
  moreover have "char_of (102 :: nat) = CHR ''f''" by (subst char_of_eq_iff) simp
  then have "hex_str 65535 = ''ffff''" by (simp add: hex_str.simps hex_char_def)
  ultimately have g: "ipv6_groups 8 (''ffff:'' @ ?v) [] (Some 0) = Some ([255, 255] @ ipv4_bytes (ucast w), Some 0, [])"
    using group_colon [of 65535 ?v 7 "[]" "Some 0"] tail by simp
  have nz: "CHR ''%'' \<notin> set (''::ffff:'' @ ?v)" using ipv4_str_chars [of "CHR ''%''" "ucast w"] by auto
  then have before: "before_byte (CHR ''%'') (''::ffff:'' @ ?v) = ''::ffff:'' @ ?v"
    unfolding before_byte_def by (subst takeWhile_eq_all_conv) auto
  have p: "str_has_prefix (''::ffff:'' @ ?v) ''::''" "drop 2 (''::ffff:'' @ ?v) = ''ffff:'' @ ?v" "''::ffff:'' @ ?v \<noteq> ''::''"
    by (simp_all add: str_has_prefix_def)
  have "length (ipv4_bytes (ucast w)) = 4" by (simp add: ipv4_bytes_def)
  then have e: "ipv6_expand ([255, 255] @ ipv4_bytes (ucast w), Some 0, []) = Some (replicate 10 0 @ [255, 255] @ ipv4_bytes (ucast w))"
    by (simp add: ipv6_expand_def)
  have "parse_ipv6 (''::ffff:'' @ ?v) = Some (V6 w [])"
    unfolding parse_ipv6_def Let_def before if_P [OF p(1)] if_not_P [OF p(3)] prod.case p(2) g
    using nz e mapped_bytes [OF assms] by simp
  moreover have "dropWhile (\<lambda>c. c \<notin> {CHR ''.'', CHR '':'', CHR ''%''}) (''::ffff:'' @ ?v) = ''::ffff:'' @ ?v" by simp
  ultimately show ?thesis unfolding parse_addr_def by simp
qed

section \<open>Round trips\<close>

theorem parse_addr_addr_str: "a \<noteq> NoAddr \<Longrightarrow> addr_zone a = [] \<Longrightarrow> parse_addr (addr_str a) = Some a"
proof (cases a)
  case (V4 w)
  then show ?thesis by (simp add: parse_addr_ipv4_str)
next
  case (V6 w z)
  assume "addr_zone a = []"
  then have z: "z = []" using V6 by simp
  show ?thesis
  proof (cases "drop_bit 32 w = 0xffff")
    case True
    then show ?thesis using V6 z parse_mapped_str by simp
  next
    case False
    obtain t where "dropWhile (\<lambda>c. c \<notin> {CHR ''.'', CHR '':'', CHR ''%''}) (v6_str w @ []) = CHR '':'' # t"
      using dropWhile_first_special [OF _ v6_str_colon, of w "[]"] v6_str_chars by blast
    then show ?thesis using V6 z False parse_ipv6_v6_str [of w] by (simp add: parse_addr_def)
  qed
qed simp

lemma addr_str_no_slash: "addr_zone a = [] \<Longrightarrow> CHR ''/'' \<notin> set (addr_str a)"
proof (cases a)
  case (V4 w)
  then show ?thesis using ipv4_str_chars [of "CHR ''/''" w] by auto
next
  case (V6 w z)
  assume "addr_zone a = []"
  then show ?thesis
    using V6 ipv4_str_chars [of "CHR ''/''" "ucast w"] v6_str_chars [of "CHR ''/''" w] by auto
qed simp

theorem parse_prefix_pfx_str:
  assumes "prefix_wf p" and "prefix_is_valid p"
  shows "parse_prefix (pfx_str p) = Some p"
proof -
  obtain ip b where p: "p = Pfx ip b" by (cases p)
  have wf: "addr_zone ip = []" "ip \<noteq> NoAddr" "0 \<le> b" "b \<le> bit_len ip"
    using assms by (auto simp: p prefix_wf_def prefix_is_valid_def)
  have t: "pfx_str p = addr_str ip @ CHR ''/'' # nat_str (nat b)"
    using assms(2) wf(3) by (simp add: p pfx_str_def int_str_def)
  have "CHR ''/'' \<notin> set (nat_str (nat b))" using nat_str_digits [of "nat b"] by auto
  then have "split_last (CHR ''/'') (pfx_str p) = Some (addr_str ip, nat_str (nat b))"
    by (simp add: t split_last_append)
  moreover have "parse_bits (nat_str (nat b)) (bit_len ip) = Some b" using parse_bits_nat_str [of "nat b"] wf by simp
  moreover have "prefix_from ip b = p" using wf by (cases ip) (simp_all add: prefix_from_def p)
  ultimately show ?thesis by (simp add: parse_prefix_def parse_addr_addr_str wf)
qed

end
