(* ===== verification/Helper.thy ===== *)
theory Helper
  imports NftNames NetipV6
begin

text \<open>
  The privileged enforcer helper, \<open>internal/enforcerd\<close> (\<open>server.go\<close>, \<open>nft.go\<close>, \<open>automerge.go\<close>,
  \<open>socket_kill.go\<close>), with the wire types of \<open>internal/enforce/protocol.go\<close> and \<open>canon.go\<close>.

  \<^item> What the helper executes is a record \<open>nft_ops\<close> over the state \<open>'k\<close> of the host: the nft
    runner (one script, one transaction), \<open>nft list set\<close>, and the \<open>ss\<close> runner.
  \<^item> The state of the helper is the cache of the blocked set, the active names and the pin.  A
    request is one step: \<open>mutateMu\<close> makes the kernel write and the cache write one unit.
  \<^item> Error texts of responses are constructors; the texts of nft, which the helper searches for
    known signals, are text.  A deadline is \<open>None\<close> when the element is permanent.
\<close>

section \<open>The wire\<close>

record feed_element =
  fe_ip :: string
  fe_ttl :: int

record request =
  rq_verb :: string
  rq_ip :: string
  rq_ttl :: int
  rq_table :: string
  rq_set :: string
  rq_elements :: "feed_element list"

datatype helper_error =
    UnknownVerb string
  | TooManyElements nat
  | InvalidIP string
  | FeedTTL string
  | NftError string
  | ProbeFailed helper_error
  | BadNames names_error
  | NamesPinned string string
  | InspectSet string helper_error
  | AbsorbFailed string helper_error
  | CoveredByInterval
  | ElementAbsent

record response =
  rs_ok :: bool
  rs_error :: "helper_error option"
  rs_code :: string
  rs_ips :: "string list"
  rs_features :: "string list"

definition MaxFeedElements :: nat where "MaxFeedElements = 100000"
definition FeatureCustomNames :: string where "FeatureCustomNames = ''custom_names''"
definition FeatureFeedsSync :: string where "FeatureFeedsSync = ''feeds_sync''"
definition CodeAlreadyAbsent :: string where "CodeAlreadyAbsent = ''already_absent''"
definition CodeCoveredByInterval :: string where "CodeCoveredByInterval = ''covered''"

definition resp_ok :: response where
  "resp_ok = \<lparr>rs_ok = True, rs_error = None, rs_code = [], rs_ips = [], rs_features = []\<rparr>"

definition resp_err :: "helper_error \<Rightarrow> response" where
  "resp_err e = resp_ok\<lparr>rs_ok := False, rs_error := Some e\<rparr>"

definition validVerbs :: "string list" where
  "validVerbs = [''add'', ''del'', ''flush'', ''list'', ''ping'', ''caps'', ''allow_add'', ''allow_del'', ''allow_list'',
     ''allow_flush'', ''feeds_sync'', ''netcheck'']"

section \<open>Keys\<close>

definition CanonicalIPKey :: "string \<Rightarrow> string" where
  "CanonicalIPKey s =
     (case parse_addr s of
        Some a \<Rightarrow> addr_str (unmap a)
      | None \<Rightarrow>
          (case parse_prefix s of
             Some p \<Rightarrow> if prefix_is_single_ip p then addr_str (unmap (pfx_ip p)) else pfx_str (prefix_masked p)
           | None \<Rightarrow> s))"

definition validateIP :: "string \<Rightarrow> bool" where
  "validateIP ip \<longleftrightarrow> ip \<noteq> [] \<and> (parse_addr ip \<noteq> None \<or> parse_prefix ip \<noteq> None)"

definition setForIPIn :: "string \<Rightarrow> string \<Rightarrow> string \<Rightarrow> helper_error + string" where
  "setForIPIn ip set4 set6 =
     (case parse_addr ip of
        Some a \<Rightarrow> Inr (if addr_is4 a \<or> is4in6 a then set4 else set6)
      | None \<Rightarrow>
          (case parse_prefix ip of
             Some p \<Rightarrow> Inr (if addr_is4 (pfx_ip p) \<or> is4in6 (pfx_ip p) then set4 else set6)
           | None \<Rightarrow> Inl (InvalidIP ip)))"

definition setForIP :: "nft_names \<Rightarrow> string \<Rightarrow> helper_error + string" where
  "setForIP n ip = setForIPIn ip (nm_set4 n) (nm_set6 n)"

definition allowSetForIP :: "nft_names \<Rightarrow> string \<Rightarrow> helper_error + string" where
  "allowSetForIP n ip = setForIPIn ip (nm_allow4 n) (nm_allow6 n)"

section \<open>Scripts\<close>

datatype list_result = ListOut string | ListExit string | ListFail string

record 'k nft_ops =
  nx_run :: "string \<Rightarrow> 'k \<Rightarrow> string option \<times> 'k"
  nx_list :: "string \<Rightarrow> string \<Rightarrow> string \<Rightarrow> 'k \<Rightarrow> list_result"
  nx_ss :: "string list \<Rightarrow> 'k \<Rightarrow> 'k"

definition nftAbsentSignals :: "string list" where
  "nftAbsentSignals = [''not found in set'', ''element does not exist'', ''No such file or directory'']"

definition nftOverlapSignals :: "string list" where
  "nftOverlapSignals = [''interval overlaps with an existing one'', ''conflicting intervals specified'']"

definition isNftAbsentErr :: "string \<Rightarrow> bool" where
  "isNftAbsentErr msg = list_ex (str_contains msg) nftAbsentSignals"

definition isNftOverlapErr :: "string \<Rightarrow> bool" where
  "isNftOverlapErr msg = list_ex (str_contains msg) nftOverlapSignals"

definition lines_of :: "string list \<Rightarrow> string" where
  "lines_of ls = concat (map (\<lambda>l. l @ [CHR 0x0A]) ls)"

definition blockedSetDecl :: "nft_names \<Rightarrow> string \<Rightarrow> string \<Rightarrow> string" where
  "blockedSetDecl n st family = ''add set '' @ nm_table n @ '' '' @ st @ '' { type '' @ family @ '' ; flags interval,timeout ; }''"

definition rule_line :: "nft_names \<Rightarrow> string \<Rightarrow> string \<Rightarrow> string \<Rightarrow> string \<Rightarrow> string" where
  "rule_line n chain fam st verdict = ''add rule '' @ nm_table n @ '' '' @ chain @ '' '' @ fam @ '' saddr @'' @ st @ '' '' @ verdict"

definition chain_lines :: "nft_names \<Rightarrow> string \<Rightarrow> string \<Rightarrow> (string \<times> string \<times> string) list \<Rightarrow> string list" where
  "chain_lines n chain prio rules =
     (''add chain '' @ nm_table n @ '' '' @ chain @ '' { type filter hook '' @ chain @ '' priority '' @ prio @ '' ; policy accept ; }'')
     # (''flush chain '' @ nm_table n @ '' '' @ chain)
     # map (\<lambda>(fam, st, verdict). rule_line n chain fam st verdict) rules"

definition both :: "string \<Rightarrow> string \<Rightarrow> string \<Rightarrow> (string \<times> string \<times> string) list" where
  "both s4 s6 verdict = [(''ip'', s4, verdict), (''ip6'', s6, verdict)]"

text \<open>The layout: allow rules first in every chain, then the drops of bans and feeds.\<close>

definition initTableScript :: "nft_names \<Rightarrow> string" where
  "initTableScript n =
     (let allow = both (nm_allow4 n) (nm_allow6 n) ''accept'';
          blocked = both (nm_set4 n) (nm_set6 n) ''drop'';
          feeds = both (nm_feeds4 n) (nm_feeds6 n) ''drop''
      in lines_of
        ([''add table '' @ nm_table n, blockedSetDecl n (nm_set4 n) ''ipv4_addr'', blockedSetDecl n (nm_set6 n) ''ipv6_addr'',
          ''add set '' @ nm_table n @ '' '' @ nm_allow4 n @ '' { type ipv4_addr ; flags interval ; auto-merge ; }'',
          ''add set '' @ nm_table n @ '' '' @ nm_allow6 n @ '' { type ipv6_addr ; flags interval ; auto-merge ; }'',
          ''add set '' @ nm_table n @ '' '' @ nm_feeds4 n @ '' { type ipv4_addr ; flags interval,timeout ; auto-merge ; }'',
          ''add set '' @ nm_table n @ '' '' @ nm_feeds6 n @ '' { type ipv6_addr ; flags interval,timeout ; auto-merge ; }'']
         @ chain_lines n ''prerouting'' ''raw''
             (allow @ both (nm_set4 n) (nm_set6 n) ''notrack'' @ blocked @ both (nm_feeds4 n) (nm_feeds6 n) ''notrack'' @ feeds)
         @ chain_lines n ''input'' ''filter'' (allow @ blocked @ feeds)
         @ chain_lines n ''forward'' ''filter'' (allow @ blocked @ feeds)))"

definition initTable :: "'k nft_ops \<Rightarrow> nft_names \<Rightarrow> 'k \<Rightarrow> string option \<times> 'k" where
  "initTable ops n k = nx_run ops (initTableScript n) k"

definition run_err :: "string option \<times> 'k \<Rightarrow> helper_error option \<times> 'k" where
  "run_err = (\<lambda>(r, k). (map_option NftError r, k))"

definition element_script :: "string \<Rightarrow> nft_names \<Rightarrow> string \<Rightarrow> string \<Rightarrow> string" where
  "element_script verb n st entry = verb @ '' element '' @ nm_table n @ '' '' @ st @ '' { '' @ entry @ '' }\<newline>''"

definition timed_entry :: "string \<Rightarrow> int \<Rightarrow> string" where
  "timed_entry ip ttl = (if ttl > 0 then ip @ '' timeout '' @ int_str ttl @ ''s'' else ip)"

definition nftAdd :: "'k nft_ops \<Rightarrow> nft_names \<Rightarrow> string \<Rightarrow> int \<Rightarrow> 'k \<Rightarrow> helper_error option \<times> 'k" where
  "nftAdd ops n ip ttl k =
     (case setForIP n ip of
        Inl e \<Rightarrow> (Some e, k)
      | Inr st \<Rightarrow> run_err (nx_run ops (element_script ''add'' n st (timed_entry ip ttl)) k))"

definition del_err :: "string option \<times> 'k \<Rightarrow> helper_error option \<times> 'k" where
  "del_err = (\<lambda>(r, k). case r of None \<Rightarrow> (None, k)
     | Some msg \<Rightarrow> (Some (if isNftAbsentErr msg then ElementAbsent else NftError msg), k))"

definition nftDel :: "'k nft_ops \<Rightarrow> nft_names \<Rightarrow> string \<Rightarrow> 'k \<Rightarrow> helper_error option \<times> 'k" where
  "nftDel ops n ip k =
     (case setForIP n ip of
        Inl e \<Rightarrow> (Some e, k)
      | Inr st \<Rightarrow> del_err (nx_run ops (element_script ''delete'' n st ip) k))"

definition flush_script :: "nft_names \<Rightarrow> string \<Rightarrow> string \<Rightarrow> string" where
  "flush_script n s4 s6 = lines_of [''flush set '' @ nm_table n @ '' '' @ s4, ''flush set '' @ nm_table n @ '' '' @ s6]"

definition nftFlush :: "'k nft_ops \<Rightarrow> nft_names \<Rightarrow> 'k \<Rightarrow> helper_error option \<times> 'k" where
  "nftFlush ops n k = run_err (nx_run ops (flush_script n (nm_set4 n) (nm_set6 n)) k)"

definition nftAddAllow :: "'k nft_ops \<Rightarrow> nft_names \<Rightarrow> string \<Rightarrow> 'k \<Rightarrow> helper_error option \<times> 'k" where
  "nftAddAllow ops n ip k =
     (case allowSetForIP n ip of
        Inl e \<Rightarrow> (Some e, k)
      | Inr st \<Rightarrow> run_err (nx_run ops (element_script ''add'' n st ip) k))"

definition nftDelAllow :: "'k nft_ops \<Rightarrow> nft_names \<Rightarrow> string \<Rightarrow> 'k \<Rightarrow> helper_error option \<times> 'k" where
  "nftDelAllow ops n ip k =
     (case allowSetForIP n ip of
        Inl e \<Rightarrow> (Some e, k)
      | Inr st \<Rightarrow> del_err (nx_run ops (element_script ''delete'' n st ip) k))"

definition nftFlushAllow :: "'k nft_ops \<Rightarrow> nft_names \<Rightarrow> 'k \<Rightarrow> helper_error option \<times> 'k" where
  "nftFlushAllow ops n k = run_err (nx_run ops (flush_script n (nm_allow4 n) (nm_allow6 n)) k)"

section \<open>Feeds\<close>

fun feed_entries :: "feed_element list \<Rightarrow> helper_error + (string list \<times> string list)" where
  "feed_entries [] = Inr ([], [])"
| "feed_entries (e # es) =
     (case setForIPIn (fe_ip e) ''4'' ''6'' of
        Inl err \<Rightarrow> Inl err
      | Inr st \<Rightarrow>
          (case feed_entries es of
             Inl err \<Rightarrow> Inl err
           | Inr (v4, v6) \<Rightarrow>
               let entry = fe_ip e @ '' timeout '' @ int_str (fe_ttl e) @ ''s''
               in Inr (if st = ''4'' then (entry # v4, v6) else (v4, entry # v6))))"

function write_chunks :: "nft_names \<Rightarrow> string \<Rightarrow> string list \<Rightarrow> string" where
  "write_chunks n st entries =
     (if entries = [] then []
      else element_script ''add'' n st (str_join '', '' (take 512 entries)) @ write_chunks n st (drop 512 entries))"
  by pat_completeness auto
termination by (relation "measure (\<lambda>(_, _, es). length es)") auto

declare write_chunks.simps [simp del]

definition nftFeedsSync :: "'k nft_ops \<Rightarrow> nft_names \<Rightarrow> feed_element list \<Rightarrow> 'k \<Rightarrow> helper_error option \<times> 'k" where
  "nftFeedsSync ops n elems k =
     (case feed_entries elems of
        Inl e \<Rightarrow> (Some e, k)
      | Inr (v4, v6) \<Rightarrow>
          run_err (nx_run ops (flush_script n (nm_feeds4 n) (nm_feeds6 n)
             @ write_chunks n (nm_feeds4 n) v4 @ write_chunks n (nm_feeds6 n) v6) k))"

section \<open>Listing\<close>

text \<open>nft's durations have days; otherwise they are Go's.\<close>

definition parseNftDuration :: "string \<Rightarrow> duration option" where
  "parseNftDuration s =
     (case str_cut (CHR ''d'') s of
        None \<Rightarrow> ParseDuration s
      | Some (ds, rest) \<Rightarrow>
          if ds = [] \<or> \<not> list_all is_digit ds \<or> digits_val ds > 4294967295 then None
          else
            let days = wrap64 (int (digits_val ds) * 24 * Hour)
            in if rest = [] then Some days
               else map_option (\<lambda>d. wrap64 (days + d)) (ParseDuration rest))"

fun annotation :: "string \<Rightarrow> string list \<Rightarrow> duration option" where
  "annotation key (k # v # rest) =
     (if k = key then Some (case parseNftDuration v of None \<Rightarrow> Second | Some d \<Rightarrow> d)
      else annotation key (v # rest))"
| "annotation key _ = None"

definition elemTTL :: "string list \<Rightarrow> duration" where
  "elemTTL annotations =
     (case annotation ''expires'' annotations of
        Some d \<Rightarrow> d
      | None \<Rightarrow> (case annotation ''timeout'' annotations of Some d \<Rightarrow> d | None \<Rightarrow> 0))"

type_synonym set_elem = "string \<times> duration"

fun parse_tokens :: "string list \<Rightarrow> set_elem list \<times> string list" where
  "parse_tokens [] = ([], [])"
| "parse_tokens (part # parts) =
     (let (els, skipped) = parse_tokens parts in
      case str_fields (trim_space part) of
        [] \<Rightarrow> (els, skipped)
      | tok # rest \<Rightarrow>
          (if parse_addr tok \<noteq> None then ((tok, elemTTL rest) # els, skipped)
           else (case parse_prefix tok of
                   Some p \<Rightarrow> ((pfx_str p, elemTTL rest) # els, skipped)
                 | None \<Rightarrow> (els, tok # skipped))))"

definition parseSetElementsDetail :: "string \<Rightarrow> set_elem list \<times> string list" where
  "parseSetElementsDetail out =
     (case str_index out ''elements = {'' of
        None \<Rightarrow> ([], [])
      | Some i \<Rightarrow>
          let s = drop (i + length ''elements = {'') out
          in (case str_index s ''}'' of
                None \<Rightarrow> ([], [])
              | Some e \<Rightarrow> parse_tokens (str_split (CHR '','') (take e s))))"

definition parseSetElements :: "string \<Rightarrow> set_elem list" where
  "parseSetElements out = fst (parseSetElementsDetail out)"

definition table_words :: "nft_names \<Rightarrow> string \<times> string" where
  "table_words n = (case str_cut (CHR '' '') (nm_table n) of None \<Rightarrow> (nm_table n, []) | Some ft \<Rightarrow> ft)"

definition listSet :: "'k nft_ops \<Rightarrow> nft_names \<Rightarrow> string \<Rightarrow> 'k \<Rightarrow> helper_error + set_elem list" where
  "listSet ops n st k =
     (case nx_list ops (fst (table_words n)) (snd (table_words n)) st k of
        ListExit err \<Rightarrow> if isNftAbsentErr err then Inr [] else Inl (NftError err)
      | ListFail err \<Rightarrow> Inl (NftError err)
      | ListOut out \<Rightarrow> Inr (parseSetElements out))"

definition nftList :: "'k nft_ops \<Rightarrow> nft_names \<Rightarrow> 'k \<Rightarrow> helper_error + set_elem list" where
  "nftList ops n k =
     (case listSet ops n (nm_set4 n) k of
        Inl e \<Rightarrow> Inl e
      | Inr els4 \<Rightarrow> (case listSet ops n (nm_set6 n) k of Inl e \<Rightarrow> Inl e | Inr els6 \<Rightarrow> Inr (els4 @ els6)))"

definition nftListAllow :: "'k nft_ops \<Rightarrow> nft_names \<Rightarrow> 'k \<Rightarrow> helper_error + string list" where
  "nftListAllow ops n k =
     (case listSet ops n (nm_allow4 n) k of
        Inl e \<Rightarrow> Inl e
      | Inr els4 \<Rightarrow> (case listSet ops n (nm_allow6 n) k of Inl e \<Rightarrow> Inl e | Inr els6 \<Rightarrow> Inr (map fst (els4 @ els6))))"

definition setHasAutoMerge :: "'k nft_ops \<Rightarrow> nft_names \<Rightarrow> string \<Rightarrow> 'k \<Rightarrow> helper_error + bool" where
  "setHasAutoMerge ops n st k =
     (case nx_list ops (fst (table_words n)) (snd (table_words n)) st k of
        ListExit err \<Rightarrow> if isNftAbsentErr err then Inr False else Inl (NftError err)
      | ListFail err \<Rightarrow> Inl (NftError err)
      | ListOut out \<Rightarrow> Inr (list_ex (\<lambda>line. trim_space line = ''auto-merge'') (str_split (CHR 0x0A) out)))"

section \<open>The server\<close>

record server =
  sv_blocked :: "(string, time option) gomap"
  sv_names :: nft_names
  sv_pinned :: bool

definition NewServer :: server where
  "NewServer = \<lparr>sv_blocked = [], sv_names = default_names, sv_pinned = False\<rparr>"

definition deadline :: "time \<Rightarrow> duration \<Rightarrow> time option" where
  "deadline now ttl = (if ttl \<le> 0 then None else Some (now + ttl))"

definition ceil_seconds :: "duration \<Rightarrow> int" where
  "ceil_seconds d = - ((- d) div Second)"

definition migrateAutoMergeScript :: "nft_names \<Rightarrow> string \<Rightarrow> set_elem list \<Rightarrow> string" where
  "migrateAutoMergeScript n st els =
     lines_of [''flush chain '' @ nm_table n @ '' prerouting'', ''flush chain '' @ nm_table n @ '' input'',
       ''flush chain '' @ nm_table n @ '' forward'', ''delete set '' @ nm_table n @ '' '' @ st]
     @ initTableScript n
     @ concat (map (\<lambda>(ip, ttl). element_script ''add'' n st (timed_entry ip (if ttl > 0 then ceil_seconds ttl else 0))) els)"

definition elem_addr :: "string \<Rightarrow> addr option" where
  "elem_addr ip = (case parse_addr ip of Some a \<Rightarrow> Some a | None \<Rightarrow> map_option pfx_ip (parse_prefix ip))"

definition elemsOfFamily :: "set_elem list \<Rightarrow> bool \<Rightarrow> set_elem list" where
  "elemsOfFamily els v4 = filter (\<lambda>(ip, ttl). case elem_addr ip of None \<Rightarrow> False | Some a \<Rightarrow> addr_is4 a = v4) els"

definition migrate_set :: "'k nft_ops \<Rightarrow> nft_names \<Rightarrow> string \<Rightarrow> 'k \<Rightarrow> helper_error option \<times> 'k" where
  "migrate_set ops n st k =
     (case setHasAutoMerge ops n st k of
        Inl e \<Rightarrow> (Some (InspectSet st e), k)
      | Inr False \<Rightarrow> (None, k)
      | Inr True \<Rightarrow>
          (case nftList ops n k of
             Inl e \<Rightarrow> (Some (InspectSet st e), k)
           | Inr els \<Rightarrow>
               run_err (nx_run ops (migrateAutoMergeScript n st (elemsOfFamily els (st = nm_set4 n))) k)))"

definition migrateAutoMerge :: "'k nft_ops \<Rightarrow> nft_names \<Rightarrow> 'k \<Rightarrow> helper_error option \<times> 'k" where
  "migrateAutoMerge ops n k =
     (case migrate_set ops n (nm_set4 n) k of
        (Some e, k1) \<Rightarrow> (Some e, k1)
      | (None, k1) \<Rightarrow> migrate_set ops n (nm_set6 n) k1)"

definition load_blocked :: "time \<Rightarrow> set_elem list \<Rightarrow> (string, time option) gomap \<Rightarrow> (string, time option) gomap" where
  "load_blocked now els m = foldl (\<lambda>m (ip, ttl). gm_set ip (deadline now ttl) m) m els"

definition Init :: "'k nft_ops \<Rightarrow> time \<Rightarrow> server \<Rightarrow> 'k \<Rightarrow> helper_error option \<times> server \<times> 'k" where
  "Init ops now sv k =
     (case run_err (initTable ops (sv_names sv) k) of
        (Some e, k1) \<Rightarrow> (Some e, sv, k1)
      | (None, k1) \<Rightarrow>
          (case migrateAutoMerge ops (sv_names sv) k1 of
             (Some e, k2) \<Rightarrow> (Some e, sv, k2)
           | (None, k2) \<Rightarrow>
               (case nftList ops (sv_names sv) k2 of
                  Inl e \<Rightarrow> (Some e, sv, k2)
                | Inr els \<Rightarrow> (None, sv\<lparr>sv_blocked := load_blocked now els (sv_blocked sv)\<rparr>, k2))))"

section \<open>Names on the wire\<close>

definition switchNames :: "'k nft_ops \<Rightarrow> time \<Rightarrow> nft_names \<Rightarrow> server \<Rightarrow> 'k \<Rightarrow> helper_error option \<times> server \<times> 'k" where
  "switchNames ops now want sv k =
     (case run_err (initTable ops want k) of
        (Some e, k1) \<Rightarrow> (Some e, sv, k1)
      | (None, k1) \<Rightarrow>
          (case migrateAutoMerge ops want k1 of
             (Some e, k2) \<Rightarrow> (Some e, sv, k2)
           | (None, k2) \<Rightarrow>
               (case nftList ops want k2 of
                  Inl e \<Rightarrow> (Some e, sv, k2)
                | Inr els \<Rightarrow>
                    (None, \<lparr>sv_blocked = load_blocked now els [], sv_names = want, sv_pinned = True\<rparr>,
                     (if IsDefault (sv_names sv)
                      then snd (nx_run ops (''delete table '' @ nm_table (sv_names sv) @ [CHR 0x0A]) k2) else k2)))))"

definition resolveNames ::
  "'k nft_ops \<Rightarrow> time \<Rightarrow> request \<Rightarrow> server \<Rightarrow> 'k \<Rightarrow> (helper_error + nft_names) \<times> server \<times> 'k" where
  "resolveNames ops now req sv k =
     (case Resolve (rq_table req) (rq_set req) of
        Inl e \<Rightarrow> (Inl (BadNames e), sv, k)
      | Inr want \<Rightarrow>
          if want = sv_names sv then (Inr want, sv\<lparr>sv_pinned := True\<rparr>, k)
          else if sv_pinned sv then (Inl (NamesPinned (nm_table (sv_names sv)) (nm_set4 (sv_names sv))), sv, k)
          else (case switchNames ops now want sv k of
                  (Some e, sv1, k1) \<Rightarrow> (Inl e, sv1, k1)
                | (None, sv1, k1) \<Rightarrow> (Inr want, sv1, k1)))"

section \<open>Sessions\<close>

definition ssFilterValue :: "addr \<Rightarrow> string" where
  "ssFilterValue a0 =
     (let a = unmap a0 in case a of V6 w z \<Rightarrow> addr_str (V6 w []) @ ''/128'' | _ \<Rightarrow> addr_str a)"

definition killSocketsForIP :: "'k nft_ops \<Rightarrow> string \<Rightarrow> 'k \<Rightarrow> 'k" where
  "killSocketsForIP ops ip k =
     (case parse_addr ip of None \<Rightarrow> k | Some a \<Rightarrow> nx_ss ops [''-K'', ''dst'', ssFilterValue a] k)"

section \<open>Mutations\<close>

definition narrower :: "pfx \<Rightarrow> string \<Rightarrow> bool" where
  "narrower p key =
     ((case parse_addr key of None \<Rightarrow> False | Some a \<Rightarrow> prefix_contains p a)
      \<or> (case parse_prefix key of None \<Rightarrow> False | Some q \<Rightarrow> prefix_overlaps p q \<and> pfx_bits p \<le> pfx_bits q))"

fun absorb :: "'k nft_ops \<Rightarrow> nft_names \<Rightarrow> string list \<Rightarrow> server \<Rightarrow> 'k \<Rightarrow> helper_error option \<times> server \<times> 'k" where
  "absorb ops n [] sv k = (None, sv, k)"
| "absorb ops n (key # keys) sv k =
     (case nftDel ops n key k of
        (r, k1) \<Rightarrow>
          if r \<noteq> None \<and> r \<noteq> Some ElementAbsent then (Some (AbsorbFailed key (the r)), sv, k1)
          else absorb ops n keys (sv\<lparr>sv_blocked := gm_del key (sv_blocked sv)\<rparr>) k1)"

definition addOverlapping :: "'k nft_ops \<Rightarrow> nft_names \<Rightarrow> string \<Rightarrow> int \<Rightarrow> server \<Rightarrow> 'k \<Rightarrow> helper_error option \<times> server \<times> 'k" where
  "addOverlapping ops n ip ttl sv k =
     (if parse_addr ip \<noteq> None then (Some CoveredByInterval, sv, k)
      else
        let p = (case parse_prefix ip of None \<Rightarrow> no_prefix | Some p \<Rightarrow> p);
            contained = filter (narrower p) (gm_keys (sv_blocked sv))
        in (case absorb ops n contained sv k of
              (Some e, sv1, k1) \<Rightarrow> (Some e, sv1, k1)
            | (None, sv1, k1) \<Rightarrow> (case nftAdd ops n ip ttl k1 of (r, k2) \<Rightarrow> (r, sv1, k2))))"

definition is_overlap :: "helper_error option \<Rightarrow> bool" where
  "is_overlap r = (case r of Some (NftError msg) \<Rightarrow> isNftOverlapErr msg | _ \<Rightarrow> False)"

definition restore_ttl :: "time \<Rightarrow> time option \<Rightarrow> int" where
  "restore_ttl now old =
     (case old of None \<Rightarrow> 0
      | Some t \<Rightarrow> let rem = t - now in quot (if rem < Second then Second else rem) Second)"

text \<open>The watchdog of an interrupted replace.\<close>

definition rollback ::
  "'k nft_ops \<Rightarrow> time \<Rightarrow> nft_names \<Rightarrow> string \<Rightarrow> time option option \<Rightarrow> server \<Rightarrow> 'k \<Rightarrow> server \<times> 'k" where
  "rollback ops now n ip old sv k =
     (case old of
        None \<Rightarrow> (sv, k)
      | Some dl \<Rightarrow>
          (case nftAdd ops n ip (restore_ttl now dl) k of
             (Some e, k1) \<Rightarrow> (sv\<lparr>sv_blocked := gm_del ip (sv_blocked sv)\<rparr>, k1)
           | (None, k1) \<Rightarrow> (sv, k1)))"

text \<open>Delete an element the cache knows; \<open>Inl\<close> is the answer when that fails.\<close>

definition add_delete_old ::
  "'k nft_ops \<Rightarrow> nft_names \<Rightarrow> string \<Rightarrow> server \<Rightarrow> 'k \<Rightarrow> (helper_error + unit) \<times> 'k" where
  "add_delete_old ops n ip sv k =
     (case gm_get (sv_blocked sv) ip of
        None \<Rightarrow> (Inr (), k)
      | Some dl \<Rightarrow>
          (case nftDel ops n ip k of
             (r, k1) \<Rightarrow> (if r \<noteq> None \<and> r \<noteq> Some ElementAbsent then Inl (the r) else Inr (), k1)))"

definition add_new :: "'k nft_ops \<Rightarrow> nft_names \<Rightarrow> string \<Rightarrow> int \<Rightarrow> server \<Rightarrow> 'k \<Rightarrow> helper_error option \<times> server \<times> 'k" where
  "add_new ops n ip ttl sv k =
     (case nftAdd ops n ip ttl k of
        (r, k1) \<Rightarrow> if is_overlap r then addOverlapping ops n ip ttl sv k1 else (r, sv, k1))"

definition add_commit :: "time \<Rightarrow> string \<Rightarrow> int \<Rightarrow> bool \<Rightarrow> server \<Rightarrow> server" where
  "add_commit now ip ttl covered sv =
     sv\<lparr>sv_blocked := (if covered then gm_del ip (sv_blocked sv)
        else gm_set ip (deadline now (wrap64 (ttl * Second))) (sv_blocked sv))\<rparr>"

definition kill_after_add :: "'k nft_ops \<Rightarrow> string \<Rightarrow> 'k \<Rightarrow> 'k" where
  "kill_after_add ops ip k = (if parse_addr ip \<noteq> None then killSocketsForIP ops ip k else k)"

definition dispatch_add ::
  "'k nft_ops \<Rightarrow> time \<Rightarrow> nft_names \<Rightarrow> request \<Rightarrow> server \<Rightarrow> 'k \<Rightarrow> response \<times> server \<times> 'k" where
  "dispatch_add ops now n req sv k =
     (if \<not> validateIP (rq_ip req) then (resp_err (InvalidIP (rq_ip req)), sv, k)
      else
        let ip = CanonicalIPKey (rq_ip req) in
        (case add_delete_old ops n ip sv k of
           (Inl e, k1) \<Rightarrow> (resp_err e, sv, k1)
         | (Inr u, k1) \<Rightarrow>
             (case add_new ops n ip (rq_ttl req) sv k1 of
                (r, sv2, k2) \<Rightarrow>
                  if r = None \<or> r = Some CoveredByInterval then
                    let covered = (r \<noteq> None)
                    in (resp_ok\<lparr>rs_code := (if covered then CodeCoveredByInterval else [])\<rparr>,
                        add_commit now ip (rq_ttl req) covered sv2, kill_after_add ops ip k2)
                  else
                    (case rollback ops now n ip (gm_get (sv_blocked sv) ip) sv2 k2 of
                       (sv3, k3) \<Rightarrow> (resp_err (the r), sv3, k3)))))"

definition dispatch_del ::
  "'k nft_ops \<Rightarrow> nft_names \<Rightarrow> request \<Rightarrow> server \<Rightarrow> 'k \<Rightarrow> response \<times> server \<times> 'k" where
  "dispatch_del ops n req sv k =
     (if \<not> validateIP (rq_ip req) then (resp_err (InvalidIP (rq_ip req)), sv, k)
      else
        let ip = CanonicalIPKey (rq_ip req);
            gone = sv\<lparr>sv_blocked := gm_del ip (sv_blocked sv)\<rparr>
        in (case nftDel ops n ip k of
              (None, k1) \<Rightarrow> (resp_ok, gone, k1)
            | (Some e, k1) \<Rightarrow>
                if e = ElementAbsent then (resp_ok\<lparr>rs_code := CodeAlreadyAbsent\<rparr>, gone, k1)
                else (resp_err e, sv, k1)))"

definition stale :: "time \<Rightarrow> time option \<Rightarrow> bool" where
  "stale now dl = (case dl of None \<Rightarrow> False | Some t \<Rightarrow> now > t)"

definition dispatch_list :: "time \<Rightarrow> server \<Rightarrow> response \<times> server" where
  "dispatch_list now sv =
     (let live = filter (\<lambda>(ip, dl). \<not> stale now dl) (sv_blocked sv)
      in (resp_ok\<lparr>rs_ips := map fst live\<rparr>, sv\<lparr>sv_blocked := live\<rparr>))"

definition feed_check :: "feed_element list \<Rightarrow> helper_error option" where
  "feed_check es =
     (if length es > MaxFeedElements then Some (TooManyElements (length es))
      else case dropWhile (\<lambda>e. validateIP (fe_ip e) \<and> fe_ttl e > 0) es of
             [] \<Rightarrow> None
           | e # _ \<Rightarrow> Some (if \<not> validateIP (fe_ip e) then InvalidIP (fe_ip e) else FeedTTL (fe_ip e)))"

definition of_run :: "helper_error option \<times> 'k \<Rightarrow> server \<Rightarrow> response \<times> server \<times> 'k" where
  "of_run = (\<lambda>(r, k) sv. (case r of None \<Rightarrow> resp_ok | Some e \<Rightarrow> resp_err e, sv, k))"

definition dispatch_allow ::
  "'k nft_ops \<Rightarrow> nft_names \<Rightarrow> request \<Rightarrow> server \<Rightarrow> 'k \<Rightarrow> response \<times> server \<times> 'k" where
  "dispatch_allow ops n req sv k =
     (if rq_verb req = ''allow_add'' then
        (if \<not> validateIP (rq_ip req) then (resp_err (InvalidIP (rq_ip req)), sv, k)
         else of_run (nftAddAllow ops n (CanonicalIPKey (rq_ip req)) k) sv)
      else if rq_verb req = ''allow_del'' then
        (if \<not> validateIP (rq_ip req) then (resp_err (InvalidIP (rq_ip req)), sv, k)
         else (case nftDelAllow ops n (CanonicalIPKey (rq_ip req)) k of
                 (Some e, k1) \<Rightarrow>
                   (if e = ElementAbsent then (resp_ok\<lparr>rs_code := CodeAlreadyAbsent\<rparr>, sv, k1) else (resp_err e, sv, k1))
               | (None, k1) \<Rightarrow> (resp_ok, sv, k1)))
      else if rq_verb req = ''allow_list'' then
        ((case nftListAllow ops n k of Inl e \<Rightarrow> resp_err e | Inr ips \<Rightarrow> resp_ok\<lparr>rs_ips := ips\<rparr>), sv, k)
      else of_run (nftFlushAllow ops n k) sv)"

definition dispatch_verb ::
  "'k nft_ops \<Rightarrow> time \<Rightarrow> nft_names \<Rightarrow> request \<Rightarrow> server \<Rightarrow> 'k \<Rightarrow> response \<times> server \<times> 'k" where
  "dispatch_verb ops now n req sv k =
     (if rq_verb req = ''ping'' then (resp_ok, sv, k)
      else if rq_verb req = ''caps'' then (resp_ok\<lparr>rs_features := [FeatureCustomNames, FeatureFeedsSync]\<rparr>, sv, k)
      else if rq_verb req = ''feeds_sync'' then
        (case feed_check (rq_elements req) of
           Some e \<Rightarrow> (resp_err e, sv, k)
         | None \<Rightarrow> of_run (nftFeedsSync ops n (rq_elements req) k) sv)
      else if rq_verb req = ''netcheck'' then
        ((case nftList ops n k of Inl e \<Rightarrow> resp_err (ProbeFailed e) | Inr els \<Rightarrow> resp_ok), sv, k)
      else if rq_verb req = ''list'' then (case dispatch_list now sv of (r, sv1) \<Rightarrow> (r, sv1, k))
      else if rq_verb req = ''flush'' then
        (case nftFlush ops n k of
           (Some e, k1) \<Rightarrow> (resp_err e, sv, k1)
         | (None, k1) \<Rightarrow> (resp_ok, sv\<lparr>sv_blocked := []\<rparr>, k1))
      else if rq_verb req = ''add'' then dispatch_add ops now n req sv k
      else if rq_verb req = ''del'' then dispatch_del ops n req sv k
      else dispatch_allow ops n req sv k)"

definition dispatch :: "'k nft_ops \<Rightarrow> time \<Rightarrow> request \<Rightarrow> server \<Rightarrow> 'k \<Rightarrow> response \<times> server \<times> 'k" where
  "dispatch ops now req sv k =
     (if rq_verb req \<notin> set validVerbs then (resp_err (UnknownVerb (rq_verb req)), sv, k)
      else if rq_verb req = ''ping'' \<or> rq_verb req = ''caps'' then dispatch_verb ops now (sv_names sv) req sv k
      else (case resolveNames ops now req sv k of
              (Inl e, sv1, k1) \<Rightarrow> (resp_err e, sv1, k1)
            | (Inr n, sv1, k1) \<Rightarrow> dispatch_verb ops now n req sv1 k1))"

end
