(* ===== verification/NftClient.thy ===== *)
theory NftClient
  imports Gate Helper "HOL-Library.Log_Nat"
begin

text \<open>
  The daemon's side of the privilege boundary, \<open>internal/enforce/nftables.go\<close>.

  \<^item> The socket is a \<open>transport\<close>: what the client reads back for a request, over the state \<open>'w\<close>
    of the other end; \<open>None\<close> is a failed dial, write or decode.
  \<^item> The client's own state is the record \<open>client\<close>, with \<open>sync.Once\<close> as the flag \<open>nc_caps_done\<close>.
  \<^item> Go iterates the maps of \<open>Sync\<close> in any order: the orders are the arguments \<open>ow\<close> and \<open>oc\<close>.
  \<^item> \<open>ttlSeconds\<close> computes with \<open>float64\<close> as Go does; a float is an integer multiple of \<open>2 ^ -90\<close>.
\<close>

section \<open>Seconds\<close>

text \<open>The float nearest to \<open>p / q\<close>, ties to even, for \<open>0 \<le> p\<close> and \<open>0 < q\<close>; 53 bits of precision.\<close>

definition round_even :: "int \<Rightarrow> int \<Rightarrow> int" where
  "round_even p q =
     (let d = p div q; r = p mod q in
      if 2 * r < q \<or> (2 * r = q \<and> even d) then d else d + 1)"

definition float_unit :: int where "float_unit = 2 ^ 90"

definition float_div :: "int \<Rightarrow> int \<Rightarrow> int" where
  "float_div p q =
     (let n = p * float_unit div q; sh = bitlen n - 53 in
      if sh \<le> 0 then n else round_even (p * float_unit) (q * 2 ^ nat sh) * 2 ^ nat sh)"

text \<open>\<open>Duration.Seconds\<close> and \<open>math.Ceil\<close>.\<close>

definition float_seconds :: "duration \<Rightarrow> int" where
  "float_seconds d = float_div (d div Second * float_unit + float_div (d mod Second) Second) float_unit"

definition ttlSeconds :: "duration \<Rightarrow> int" where
  "ttlSeconds ttl =
     (if ttl = 0 then 0
      else if ttl < 0 then 1
      else let secs = - ((- float_seconds ttl) div float_unit) in if secs < 1 then 1 else secs)"

section \<open>Targets\<close>

definition targetKey :: "target \<Rightarrow> string option" where
  "targetKey t =
     (if addr_is_valid (tg_ip t) then Some (CanonicalIPKey (addr_str (tg_ip t)))
      else if prefix_is_valid (tg_prefix t) then Some (CanonicalIPKey (pfx_str (tg_prefix t)))
      else None)"

definition targetAddr :: "target \<Rightarrow> addr option" where
  "targetAddr t =
     (if addr_is_valid (tg_ip t) then Some (tg_ip t)
      else if prefix_is_valid (tg_prefix t) then Some (pfx_ip (tg_prefix t))
      else None)"

definition targetOverlapsAllowlist :: "target \<Rightarrow> pfx list \<Rightarrow> bool" where
  "targetOverlapsAllowlist t allow =
     (if prefix_is_valid (tg_prefix t) then list_ex (prefix_overlaps (tg_prefix t)) allow
      else if addr_is_valid (tg_ip t) then list_ex (\<lambda>p. prefix_contains p (tg_ip t)) allow
      else False)"

section \<open>The client\<close>

datatype client_error =
    InitNames names_error
  | NoHelper
  | CapsRefused "helper_error option"
  | CapsMissing "string list"
  | HelperRefused string "helper_error option"
  | RefusedAllowlisted string
  | UnsupportedTarget
  | During string string client_error
  | HelperTooOld client_error

record client =
  nc_allowlist :: "pfx list"
  nc_table :: string
  nc_set :: string
  nc_caps_done :: bool
  nc_caps_err :: "client_error option"
  nc_init_err :: "client_error option"
  nc_added :: nat
  nc_removed :: nat
  nc_first_done :: bool
  nc_was_first :: bool

type_synonym 'w transport = "request \<Rightarrow> 'w \<Rightarrow> response option \<times> 'w"

definition WithNames :: "string \<Rightarrow> string \<Rightarrow> client \<Rightarrow> client" where
  "WithNames table st c =
     (case Resolve table st of
        Inl e \<Rightarrow> c\<lparr>nc_init_err := Some (InitNames e)\<rparr>
      | Inr n \<Rightarrow> if IsDefault n then c else c\<lparr>nc_table := table, nc_set := st\<rparr>)"

definition client_new :: "pfx list \<Rightarrow> (client \<Rightarrow> client) list \<Rightarrow> client" where
  "client_new allowlist opts = foldl (\<lambda>c f. f c)
     \<lparr>nc_allowlist = allowlist, nc_table = [], nc_set = [], nc_caps_done = False, nc_caps_err = None, nc_init_err = None,
      nc_added = 0, nc_removed = 0, nc_first_done = False, nc_was_first = False\<rparr> opts"

definition LastSyncRepairs :: "client \<Rightarrow> int \<times> int \<times> bool" where
  "LastSyncRepairs c = (int (nc_added c), int (nc_removed c), nc_was_first c)"

definition empty_request :: request where
  "empty_request = \<lparr>rq_verb = [], rq_ip = [], rq_ttl = 0, rq_table = [], rq_set = [], rq_elements = []\<rparr>"

definition caps_verdict :: "response \<Rightarrow> client_error option" where
  "caps_verdict resp =
     (if \<not> rs_ok resp then Some (CapsRefused (rs_error resp))
      else if FeatureCustomNames \<in> set (rs_features resp) then None
      else Some (CapsMissing (rs_features resp)))"

definition ensureCustomNamesSupported :: "'w transport \<Rightarrow> client \<times> 'w \<Rightarrow> client_error option \<times> client \<times> 'w" where
  "ensureCustomNamesSupported tr = (\<lambda>(c, w).
     (if nc_table c = [] \<and> nc_set c = [] then (None, c, w)
      else if nc_caps_done c then (nc_caps_err c, c, w)
      else (case tr (empty_request\<lparr>rq_verb := ''caps''\<rparr>) w of
              (None, w1) \<Rightarrow> (nc_caps_err c, c\<lparr>nc_caps_done := True\<rparr>, w1)
            | (Some resp, w1) \<Rightarrow>
                (let err = (case caps_verdict resp of None \<Rightarrow> nc_caps_err c | e \<Rightarrow> e)
                 in (err, c\<lparr>nc_caps_done := True, nc_caps_err := err\<rparr>, w1)))))"

definition rpcResp :: "'w transport \<Rightarrow> request \<Rightarrow> client \<times> 'w \<Rightarrow> (client_error + response) \<times> client \<times> 'w" where
  "rpcResp tr req = (\<lambda>(c, w).
     (case nc_init_err c of
        Some e \<Rightarrow> (Inl e, c, w)
      | None \<Rightarrow>
          (case ensureCustomNamesSupported tr (c, w) of
             (Some e, c1, w1) \<Rightarrow> (Inl e, c1, w1)
           | (None, c1, w1) \<Rightarrow>
               (case tr (req\<lparr>rq_table := nc_table c, rq_set := nc_set c\<rparr>) w1 of
                  (None, w2) \<Rightarrow> (Inl NoHelper, c1, w2)
                | (Some resp, w2) \<Rightarrow>
                    (if rs_ok resp then Inr resp else Inl (HelperRefused (rq_verb req) (rs_error resp)), c1, w2)))))"

definition rpc :: "'w transport \<Rightarrow> request \<Rightarrow> client \<times> 'w \<Rightarrow> client_error option \<times> client \<times> 'w" where
  "rpc tr req s = (case rpcResp tr req s of (Inl e, s1) \<Rightarrow> (Some e, s1) | (Inr resp, s1) \<Rightarrow> (None, s1))"

definition add_request :: "string \<Rightarrow> target \<Rightarrow> request" where
  "add_request k t = empty_request\<lparr>rq_verb := ''add'', rq_ip := k, rq_ttl := ttlSeconds (tg_ttl t)\<rparr>"

definition del_request :: "string \<Rightarrow> request" where
  "del_request k = empty_request\<lparr>rq_verb := ''del'', rq_ip := k\<rparr>"

definition client_Ban :: "'w transport \<Rightarrow> target \<Rightarrow> client \<times> 'w \<Rightarrow> client_error option \<times> client \<times> 'w" where
  "client_Ban tr t s =
     (if targetOverlapsAllowlist t (nc_allowlist (fst s))
      then (Some (RefusedAllowlisted (case targetKey t of None \<Rightarrow> [] | Some k \<Rightarrow> k)), s)
      else (case targetKey t of
              None \<Rightarrow> (Some UnsupportedTarget, s)
            | Some k \<Rightarrow> rpc tr (add_request k t) s))"

definition client_Unban :: "'w transport \<Rightarrow> target \<Rightarrow> client \<times> 'w \<Rightarrow> client_error option \<times> client \<times> 'w" where
  "client_Unban tr t s = (case targetKey t of None \<Rightarrow> (Some UnsupportedTarget, s) | Some k \<Rightarrow> rpc tr (del_request k) s)"

definition listVerb :: "'w transport \<Rightarrow> string \<Rightarrow> client \<times> 'w \<Rightarrow> (client_error + string list) \<times> client \<times> 'w" where
  "listVerb tr verb s =
     (case rpcResp tr (empty_request\<lparr>rq_verb := verb\<rparr>) s of
        (Inl e, s1) \<Rightarrow> (Inl e, s1) | (Inr resp, s1) \<Rightarrow> (Inr (rs_ips resp), s1))"

definition listIPs :: "'w transport \<Rightarrow> client \<times> 'w \<Rightarrow> (client_error + string list) \<times> client \<times> 'w" where
  "listIPs tr s = listVerb tr ''list'' s"

section \<open>Sync\<close>

definition currentSet :: "string list \<Rightarrow> string list" where
  "currentSet ips = remdups (map CanonicalIPKey ips)"

definition wantSet :: "pfx list \<Rightarrow> target list \<Rightarrow> (string, target) gomap" where
  "wantSet allow want = foldl (\<lambda>m t.
     if targetOverlapsAllowlist t allow then m
     else (case targetKey t of None \<Rightarrow> m | Some k \<Rightarrow> gm_set k t m)) [] want"

text \<open>The add pass: how many were added, and which were answered as covered.\<close>

fun sync_adds ::
  "'w transport \<Rightarrow> string list \<Rightarrow> (string \<times> target) list \<Rightarrow> client \<times> 'w
     \<Rightarrow> (client_error + nat \<times> (string \<times> target) list) \<times> client \<times> 'w" where
  "sync_adds tr cur [] s = (Inr (0, []), s)"
| "sync_adds tr cur ((k, t) # xs) s =
     (if k \<in> set cur then sync_adds tr cur xs s
      else (case rpcResp tr (add_request k t) s of
              (Inl e, s1) \<Rightarrow> (Inl (During ''add'' k e), s1)
            | (Inr resp, s1) \<Rightarrow>
                (case sync_adds tr cur xs s1 of
                   (Inl e, s2) \<Rightarrow> (Inl e, s2)
                 | (Inr (m, cov), s2) \<Rightarrow>
                     (Inr (if rs_code resp = CodeCoveredByInterval then (m, (k, t) # cov) else (Suc m, cov)), s2))))"

text \<open>The remove pass, over the stale keys.\<close>

fun sync_dels :: "'w transport \<Rightarrow> (string, target) gomap \<Rightarrow> string list \<Rightarrow> client \<times> 'w \<Rightarrow> (client_error + nat) \<times> client \<times> 'w" where
  "sync_dels tr want [] s = (Inr 0, s)"
| "sync_dels tr want (k # ks) s =
     (if gm_get want k \<noteq> None then sync_dels tr want ks s
      else (case rpcResp tr (del_request k) s of
              (Inl e, s1) \<Rightarrow> (Inl (During ''del'' k e), s1)
            | (Inr resp, s1) \<Rightarrow>
                (case sync_dels tr want ks s1 of
                   (Inl e, s2) \<Rightarrow> (Inl e, s2)
                 | (Inr m, s2) \<Rightarrow> (Inr (if rs_code resp = CodeAlreadyAbsent then m else Suc m), s2))))"

text \<open>One retry of the covered adds.\<close>

fun sync_retry :: "'w transport \<Rightarrow> (string \<times> target) list \<Rightarrow> client \<times> 'w \<Rightarrow> (client_error + nat) \<times> client \<times> 'w" where
  "sync_retry tr [] s = (Inr 0, s)"
| "sync_retry tr ((k, t) # xs) s =
     (case rpcResp tr (add_request k t) s of
        (Inl e, s1) \<Rightarrow> (Inl (During ''add after stale-interval removal'' k e), s1)
      | (Inr resp, s1) \<Rightarrow>
          (case sync_retry tr xs s1 of
             (Inl e, s2) \<Rightarrow> (Inl e, s2)
           | (Inr m, s2) \<Rightarrow> (Inr (if rs_code resp = CodeCoveredByInterval then m else Suc m), s2)))"

definition sync_account :: "nat \<Rightarrow> nat \<Rightarrow> client \<Rightarrow> client" where
  "sync_account added removed c =
     c\<lparr>nc_first_done := True, nc_was_first := \<not> nc_first_done c, nc_added := added, nc_removed := removed\<rparr>"

definition client_Sync ::
  "'w transport \<Rightarrow> ((string \<times> target) list \<Rightarrow> (string \<times> target) list) \<Rightarrow> (string list \<Rightarrow> string list) \<Rightarrow> target list
     \<Rightarrow> client \<times> 'w \<Rightarrow> client_error option \<times> client \<times> 'w" where
  "client_Sync tr ow oc want s =
     (case listIPs tr s of
        (Inl e, s1) \<Rightarrow> (Some (During ''list'' [] e), s1)
      | (Inr ips, s1) \<Rightarrow>
          (let cur = currentSet ips; ws = wantSet (nc_allowlist (fst s1)) want in
           case sync_adds tr cur (ow ws) s1 of
             (Inl e, s2) \<Rightarrow> (Some e, s2)
           | (Inr (added, cov), s2) \<Rightarrow>
               (case sync_dels tr ws (oc cur) s2 of
                  (Inl e, s3) \<Rightarrow> (Some e, s3)
                | (Inr removed, s3) \<Rightarrow>
                    (case (if removed > 0 then sync_retry tr cov s3 else (Inr 0, s3)) of
                       (Inl e, s4) \<Rightarrow> (Some e, s4)
                     | (Inr again, s4) \<Rightarrow> (None, sync_account (added + again) removed (fst s4), snd s4)))))"

section \<open>The allowlist and the feeds\<close>

definition client_Allow :: "'w transport \<Rightarrow> pfx \<Rightarrow> client \<times> 'w \<Rightarrow> client_error option \<times> client \<times> 'w" where
  "client_Allow tr p s = rpc tr (empty_request\<lparr>rq_verb := ''allow_add'', rq_ip := CanonicalIPKey (pfx_str p)\<rparr>) s"

definition client_Unallow :: "'w transport \<Rightarrow> pfx \<Rightarrow> client \<times> 'w \<Rightarrow> client_error option \<times> client \<times> 'w" where
  "client_Unallow tr p s = rpc tr (empty_request\<lparr>rq_verb := ''allow_del'', rq_ip := CanonicalIPKey (pfx_str p)\<rparr>) s"

text \<open>One request for every key that is not among the excepted ones; the first failure ends the pass.\<close>

fun allow_pass :: "'w transport \<Rightarrow> string \<Rightarrow> string list \<Rightarrow> string list \<Rightarrow> client \<times> 'w \<Rightarrow> client_error option \<times> client \<times> 'w" where
  "allow_pass tr verb except [] s = (None, s)"
| "allow_pass tr verb except (k # ks) s =
     (if k \<in> set except then allow_pass tr verb except ks s
      else (case rpc tr (empty_request\<lparr>rq_verb := verb, rq_ip := k\<rparr>) s of
              (Some e, s1) \<Rightarrow> (Some (During verb k e), s1)
            | (None, s1) \<Rightarrow> allow_pass tr verb except ks s1))"

definition client_SyncAllowlist ::
  "'w transport \<Rightarrow> (string list \<Rightarrow> string list) \<Rightarrow> (string list \<Rightarrow> string list) \<Rightarrow> pfx list \<Rightarrow> client \<times> 'w \<Rightarrow> client_error option \<times> client \<times> 'w" where
  "client_SyncAllowlist tr ow oc want s =
     (case listVerb tr ''allow_list'' s of
        (Inl e, s1) \<Rightarrow> (Some (During ''allow_list'' [] e), s1)
      | (Inr ips, s1) \<Rightarrow>
          (let cur = currentSet ips; ws = remdups (map (\<lambda>p. CanonicalIPKey (pfx_str p)) want) in
           case allow_pass tr ''allow_add'' cur (ow ws) s1 of
             (Some e, s2) \<Rightarrow> (Some e, s2)
           | (None, s2) \<Rightarrow> allow_pass tr ''allow_del'' ws (oc cur) s2))"

definition client_SyncFeeds :: "'w transport \<Rightarrow> feed_element list \<Rightarrow> client \<times> 'w \<Rightarrow> client_error option \<times> client \<times> 'w" where
  "client_SyncFeeds tr elems s =
     (case rpc tr (empty_request\<lparr>rq_verb := ''feeds_sync'', rq_elements := take MaxFeedElements elems\<rparr>) s of
        (None, s1) \<Rightarrow> (None, s1)
      | (Some e, s1) \<Rightarrow>
          (Some (case e of HelperRefused v (Some (UnknownVerb u)) \<Rightarrow> HelperTooOld e | _ \<Rightarrow> During ''feeds_sync'' [] e), s1))"

section \<open>The client as an enforcer\<close>

text \<open>The text of an error is abbreviated to the operation that failed.\<close>

definition enf_result :: "string \<Rightarrow> client_error option \<times> client \<times> 'w \<Rightarrow> enf_error option \<times> client \<times> 'w" where
  "enf_result op = (\<lambda>(r, s). (map_option (\<lambda>_. ErrEnforcer op) r, s))"

definition nft_enforcer ::
  "'w transport \<Rightarrow> ((string \<times> target) list \<Rightarrow> (string \<times> target) list) \<Rightarrow> (string list \<Rightarrow> string list) \<Rightarrow> (client \<times> 'w) enforcer" where
  "nft_enforcer tr ow oc =
     \<lparr>en_name = ''nftables'', en_ban = (\<lambda>t s. enf_result ''Ban'' (client_Ban tr t s)),
      en_unban = (\<lambda>t s. enf_result ''Unban'' (client_Unban tr t s)),
      en_sync = (\<lambda>ts s. enf_result ''Sync'' (client_Sync tr ow oc ts s)),
      en_allow = Some \<lparr>as_allow = (\<lambda>p s. enf_result ''Allow'' (client_Allow tr p s)),
        as_unallow = (\<lambda>p s. enf_result ''Unallow'' (client_Unallow tr p s)),
        as_sync = (\<lambda>ps s. enf_result ''SyncAllowlist'' (client_SyncAllowlist tr oc oc ps s))\<rparr>,
      en_repairs = Some (\<lambda>s. LastSyncRepairs (fst s))\<rparr>"

end
