(* ===== verification/NftKernel.thy ===== *)
theory NftKernel
  imports NftNames NetipV6
begin

text \<open>
  The kernel side of nftables as the repository's own stand-in models it,
  \<open>internal/enforcerd/nfttest/kernel.go\<close>: sets of elements with timeouts, scripts applied
  atomically line by line, overlapping intervals refused where a set has no auto-merge.  Scripts
  are text here as there, so the rendering of the helper and the parsing of the kernel meet in
  the proofs.  An expiry is \<open>None\<close> when the element is permanent.  A statement whose fields are
  missing makes the Go code panic; it is an error here.
\<close>

record kset =
  ks_family :: string
  ks_auto_merge :: bool
  ks_elems :: "(string, time option) gomap"

type_synonym ksets = "(string, kset) gomap"

definition expired :: "time \<Rightarrow> time option \<Rightarrow> bool" where
  "expired now e = (case e of None \<Rightarrow> False | Some t \<Rightarrow> \<not> t > now)"

definition gc_set :: "time \<Rightarrow> kset \<Rightarrow> kset" where
  "gc_set now s = s\<lparr>ks_elems := filter (\<lambda>(el, e). \<not> expired now e) (ks_elems s)\<rparr>"

definition gcLocked :: "time \<Rightarrow> ksets \<Rightarrow> ksets" where
  "gcLocked now k = map (\<lambda>(n, s). (n, gc_set now s)) k"

definition Elements :: "time \<Rightarrow> string \<Rightarrow> ksets \<Rightarrow> string list" where
  "Elements now name k = (case gm_get (gcLocked now k) name of None \<Rightarrow> [] | Some s \<Rightarrow> gm_keys (ks_elems s))"

definition Expiry :: "time \<Rightarrow> string \<Rightarrow> string \<Rightarrow> ksets \<Rightarrow> time option option" where
  "Expiry now name el k = (case gm_get (gcLocked now k) name of None \<Rightarrow> None | Some s \<Rightarrow> gm_get (ks_elems s) el)"

definition Seed :: "time \<Rightarrow> string \<Rightarrow> string \<Rightarrow> duration \<Rightarrow> ksets \<Rightarrow> ksets" where
  "Seed now name el ttl k =
     (let s = (case gm_get k name of Some s \<Rightarrow> s
               | None \<Rightarrow> \<lparr>ks_family = (if CHR '':'' \<in> set el then ''ipv6_addr'' else ''ipv4_addr''), ks_auto_merge = False, ks_elems = []\<rparr>)
      in gm_set name (s\<lparr>ks_elems := gm_set el (if ttl > 0 then Some (now + ttl) else None) (ks_elems s)\<rparr>) k)"

definition MarkAutoMerge :: "string \<Rightarrow> ksets \<Rightarrow> ksets" where
  "MarkAutoMerge name k = (case gm_get k name of None \<Rightarrow> k | Some s \<Rightarrow> gm_set name (s\<lparr>ks_auto_merge := True\<rparr>) k)"

section \<open>Statements\<close>

definition msg_no_file :: string where
  "msg_no_file = ''nft -f: exit status 1\<newline>Error: No such file or directory''"

definition msg_absent :: string where
  "msg_absent = ''nft -f: exit status 1\<newline>Error: element does not exist''"

definition msg_overlap :: string where
  "msg_overlap = ''nft -f: exit status 1\<newline>Error: interval overlaps with an existing one''"

definition msg_panic :: string where
  "msg_panic = ''panic: index out of range''"

definition toPrefix :: "string \<Rightarrow> pfx" where
  "toPrefix key =
     (case parse_prefix key of
        Some p \<Rightarrow> prefix_masked p
      | None \<Rightarrow> (case parse_addr key of Some a \<Rightarrow> prefix_from a (bit_len a) | None \<Rightarrow> no_prefix))"

text \<open>The scan stops at the same key (a refresh) or at the first overlap.\<close>

fun overlaps_scan :: "(string \<times> time option) list \<Rightarrow> string \<Rightarrow> bool" where
  "overlaps_scan [] key = False"
| "overlaps_scan ((el, e) # els) key =
     (if el = key then False
      else if prefix_overlaps (toPrefix key) (toPrefix el) then True
      else overlaps_scan els key)"

definition overlaps :: "kset \<Rightarrow> string \<Rightarrow> string option" where
  "overlaps s key = (if overlaps_scan (ks_elems s) key then Some msg_overlap else None)"

text \<open>One element of an element list; an empty part is skipped (\<open>None\<close>).\<close>

definition parse_part :: "string \<Rightarrow> string + (string \<times> duration) option" where
  "parse_part part =
     (case str_fields part of
        [] \<Rightarrow> Inr None
      | [k, w, d] \<Rightarrow>
          if w = ''timeout'' then (case ParseDuration d of None \<Rightarrow> Inl ''nfttest: bad timeout'' | Some t \<Rightarrow> Inr (Some (k, t)))
          else Inr (Some (k, 0))
      | k # _ \<Rightarrow> Inr (Some (k, 0)))"

fun parse_parts :: "string list \<Rightarrow> string + (string \<times> duration) list" where
  "parse_parts [] = Inr []"
| "parse_parts (p # ps) =
     (case parse_part p of
        Inl e \<Rightarrow> Inl e
      | Inr o1 \<Rightarrow>
          (case parse_parts ps of
             Inl e \<Rightarrow> Inl e
           | Inr rest \<Rightarrow> Inr (case o1 of None \<Rightarrow> rest | Some el \<Rightarrow> el # rest)))"

definition parseElements :: "string \<Rightarrow> string + (string \<times> (string \<times> duration) list)" where
  "parseElements rest =
     (case str_cut (CHR ''{'') rest of
        None \<Rightarrow> Inl ''nfttest: malformed element line''
      | Some (head, body) \<Rightarrow>
          (case str_fields head of
             [_, _, name] \<Rightarrow>
               (case parse_parts (str_split (CHR '','') (trim_space (trim_suffix ''}'' (trim_space body)))) of
                  Inl e \<Rightarrow> Inl e
                | Inr els \<Rightarrow> Inr (name, els))
           | _ \<Rightarrow> Inl ''nfttest: malformed element head''))"

fun add_elements :: "time \<Rightarrow> (string \<times> duration) list \<Rightarrow> kset \<Rightarrow> string + kset" where
  "add_elements now [] s = Inr s"
| "add_elements now ((key, ttl) # els) s =
     (case (if ks_auto_merge s then None else overlaps s key) of
        Some e \<Rightarrow> Inl e
      | None \<Rightarrow> add_elements now els
          (s\<lparr>ks_elems := gm_set key (if ttl > 0 then Some (now + ttl) else None) (ks_elems s)\<rparr>))"

fun delete_elements :: "(string \<times> duration) list \<Rightarrow> kset option \<Rightarrow> string + kset option" where
  "delete_elements [] s = Inr s"
| "delete_elements ((key, ttl) # els) None = Inl msg_absent"
| "delete_elements ((key, ttl) # els) (Some s) =
     (if gm_get (ks_elems s) key = None then Inl msg_absent
      else delete_elements els (Some (s\<lparr>ks_elems := gm_del key (ks_elems s)\<rparr>)))"

definition applyLine :: "time \<Rightarrow> string \<Rightarrow> ksets \<Rightarrow> string + ksets" where
  "applyLine now line k =
     (if str_has_prefix line ''add set '' then
        (let f = str_fields line in
         if length f \<le> 4 then Inl msg_panic
         else if gm_get k (f ! 4) \<noteq> None then Inr k
         else Inr (gm_set (f ! 4)
           \<lparr>ks_family = (if str_contains line ''ipv6_addr'' then ''ipv6_addr'' else ''ipv4_addr''),
            ks_auto_merge = str_contains line ''auto-merge'', ks_elems = []\<rparr> k))
      else if str_has_prefix line ''delete set '' then Inr (gm_del (last (str_fields line)) k)
      else if str_has_prefix line ''flush set '' then
        (case gm_get k (last (str_fields line)) of
           None \<Rightarrow> Inr k
         | Some s \<Rightarrow> Inr (gm_set (last (str_fields line)) (s\<lparr>ks_elems := []\<rparr>) k))
      else if str_has_prefix line ''add element '' then
        (case parseElements (trim_prefix ''add element '' line) of
           Inl e \<Rightarrow> Inl e
         | Inr (name, els) \<Rightarrow>
             (case gm_get k name of
                None \<Rightarrow> Inl msg_no_file
              | Some s \<Rightarrow> (case add_elements now els s of Inl e \<Rightarrow> Inl e | Inr s' \<Rightarrow> Inr (gm_set name s' k))))
      else if str_has_prefix line ''delete element '' then
        (case parseElements (trim_prefix ''delete element '' line) of
           Inl e \<Rightarrow> Inl e
         | Inr (name, els) \<Rightarrow>
             (case delete_elements els (gm_get k name) of
                Inl e \<Rightarrow> Inl e
              | Inr None \<Rightarrow> Inr k
              | Inr (Some s) \<Rightarrow> Inr (gm_set name s k)))
      else Inr k)"

text \<open>The lines of a script, blank ones skipped; the first failing one aborts with no effect.\<close>

fun apply_lines :: "time \<Rightarrow> string list \<Rightarrow> ksets \<Rightarrow> string + ksets" where
  "apply_lines now [] k = Inr k"
| "apply_lines now (l # ls) k =
     (let line = trim_space l in
      if line = [] then apply_lines now ls k
      else (case applyLine now line k of Inl e \<Rightarrow> Inl e | Inr k' \<Rightarrow> apply_lines now ls k'))"

definition Apply :: "time \<Rightarrow> string \<Rightarrow> ksets \<Rightarrow> string option \<times> ksets" where
  "Apply now script k =
     (let k0 = gcLocked now k in
      case apply_lines now (str_split (CHR 0x0A) script) k0 of
        Inl e \<Rightarrow> (Some e, k0)
      | Inr k' \<Rightarrow> (None, k'))"

section \<open>Listing\<close>

definition round_second :: "duration \<Rightarrow> duration" where
  "round_second d = (if d < 0 then - (((- d) + Second div 2) div Second * Second) else (d + Second div 2) div Second * Second)"

definition list_elem :: "time \<Rightarrow> string \<times> time option \<Rightarrow> string" where
  "list_elem now = (\<lambda>(el, e). case e of
     None \<Rightarrow> el
   | Some t \<Rightarrow> el @ '' timeout '' @ dur_str (round_second (t - now)) @ '' expires '' @ dur_str (round_second (t - now)))"

definition tabs :: "nat \<Rightarrow> string" where
  "tabs n = replicate n (CHR 0x09)"

text \<open>\<open>order\<close> sorts the elements (\<open>sort.Strings\<close>).\<close>

definition ListSetOutput ::
  "((string \<times> time option) list \<Rightarrow> (string \<times> time option) list) \<Rightarrow> time \<Rightarrow> string \<Rightarrow> string \<Rightarrow> string \<Rightarrow> ksets \<Rightarrow> string option" where
  "ListSetOutput order now family table name k =
     (case gm_get (gcLocked now k) name of
        None \<Rightarrow> None
      | Some s \<Rightarrow> Some (''table '' @ family @ '' '' @ table @ '' {\<newline>'' @ tabs 1 @ ''set '' @ name @ '' {\<newline>'' @ tabs 2 @ ''type ''
          @ ks_family s @ ''\<newline>'' @ tabs 2 @ ''flags interval,timeout\<newline>''
          @ (if ks_auto_merge s then tabs 2 @ ''auto-merge\<newline>'' else [])
          @ (if ks_elems s = [] then []
             else tabs 2 @ ''elements = { '' @ str_join ('',\<newline>'' @ tabs 3 @ ''     '') (map (list_elem now) (order (ks_elems s)))
               @ '' }\<newline>'')
          @ tabs 1 @ ''}\<newline>}\<newline>''))"

end
