(* ===== verification/HelperKernel.thy ===== *)
theory HelperKernel
  imports Helper NftKernel
begin

text \<open>
  The helper on the kernel: \<open>kernel_ops\<close> runs its scripts on the sets of theory \<open>NftKernel\<close>,
  under a schedule of failing \<open>nft\<close> processes (a script that fails this way has no effect).
  The element scripts of the helper, which are text, are shown to do exactly what they mean
  for every key without syntax characters (\<open>Apply_add\<close>, \<open>Apply_del\<close>), and every key the helper
  derives from a validated input has none as long as the input has no IPv6 zone
  (\<open>canonical_key_text\<close>).
\<close>

section \<open>The host\<close>

record khost =
  kh_faults :: "bool list"
  kh_sets :: ksets
  kh_killed :: "string list list"

definition msg_exec :: string where
  "msg_exec = ''nft -f: signal: killed''"

definition host_run :: "time \<Rightarrow> string \<Rightarrow> khost \<Rightarrow> string option \<times> khost" where
  "host_run now script h =
     (if kh_faults h \<noteq> [] \<and> hd (kh_faults h) then (Some msg_exec, h\<lparr>kh_faults := tl (kh_faults h)\<rparr>)
      else (case Apply now script (kh_sets h) of (r, k) \<Rightarrow> (r, h\<lparr>kh_faults := tl (kh_faults h), kh_sets := k\<rparr>)))"

definition kernel_ops :: "((string \<times> time option) list \<Rightarrow> (string \<times> time option) list) \<Rightarrow> time \<Rightarrow> khost nft_ops" where
  "kernel_ops order now = \<lparr>nx_run = host_run now,
     nx_list = (\<lambda>family table name h. case ListSetOutput order now family table name (kh_sets h) of
        None \<Rightarrow> ListFail ''nfttest: set does not exist'' | Some out \<Rightarrow> ListOut out),
     nx_ss = (\<lambda>args h. h\<lparr>kh_killed := kh_killed h @ [args]\<rparr>)\<rparr>"

section \<open>Keys without syntax\<close>

definition key_text :: "string \<Rightarrow> bool" where
  "key_text s \<longleftrightarrow> s \<noteq> [] \<and> (\<forall>c \<in> set s. \<not> is_space c \<and> c \<notin> {CHR ''{'', CHR ''}'', CHR '',''})"

lemma not_space [simp]: "\<not> is_space (CHR ''{'')" "\<not> is_space (CHR ''}'')" "\<not> is_space (CHR ''a'')" "\<not> is_space (CHR ''d'')"
    "\<not> is_space (CHR ''t'')" "\<not> is_space (CHR ''s'')" "is_space (CHR '' '')" "is_space (CHR 0x0A)"
  by (simp_all add: is_space_def)

lemma digit_not_space: "is_digit c \<Longrightarrow> \<not> is_space c \<and> c \<notin> {CHR ''{'', CHR ''}'', CHR '','', CHR 0x0A}"
  by (auto simp: is_digit_def is_space_def)

lemma is_hex_code: "is_hex c \<Longrightarrow> 48 \<le> (of_char c :: nat) \<and> (of_char c :: nat) \<le> 102"
  by (auto simp: is_hex_def is_digit_def)

lemma hex_not_space: "is_hex c \<Longrightarrow> \<not> is_space c \<and> c \<notin> {CHR ''{'', CHR ''}'', CHR '','', CHR 0x0A}"
  using is_hex_code [of c] by (auto simp: is_space_def)

lemma dropWhile_spaces: "is_space c \<Longrightarrow> dropWhile is_space (c # s) = dropWhile is_space s"
  by simp

lemma trim_space_pad:
  assumes "s \<noteq> []" and "\<not> is_space (hd s)" and "\<not> is_space (last s)"
  shows "trim_space (CHR '' '' # s @ '' '') = s" and "trim_space (CHR '' '' # s) = s" and "trim_space (s @ '' '') = s"
proof -
  have id: "trim_space s = s" using assms by (intro trim_space_id) simp
  have h: "dropWhile is_space (s @ t) = s @ t" for t using assms by (cases s) auto
  have r: "dropWhile is_space (rev s @ t) = rev s @ t" for t
    using assms by (cases "rev s") (auto simp: hd_rev [symmetric])
  show "trim_space (CHR '' '' # s @ '' '') = s" "trim_space (CHR '' '' # s) = s" "trim_space (s @ '' '') = s"
    using h [of "[]"] h [of "'' ''"] r [of "[]"] by (simp_all add: trim_space_def)
qed

section \<open>Element scripts\<close>

definition entry_text :: "string \<Rightarrow> bool" where
  "entry_text e \<longleftrightarrow> e \<noteq> [] \<and> \<not> is_space (hd e) \<and> \<not> is_space (last e) \<and> CHR '','' \<notin> set e \<and> CHR 0x0A \<notin> set e
     \<and> last e \<noteq> CHR ''}''"

definition set_word :: "string \<Rightarrow> bool" where
  "set_word s \<longleftrightarrow> s \<noteq> [] \<and> (\<forall>c \<in> set s. \<not> is_space c \<and> c \<noteq> CHR ''{'')"

lemma set_word_identifier: "is_identifier s \<Longrightarrow> set_word s"
  using identifier_chars by (auto simp: set_word_def)

lemma set_word_append: "set_word s \<Longrightarrow> set_word (s @ ''6'')"
  by (auto simp: set_word_def is_space_def)

lemma names_ok_words:
  assumes "names_ok n"
  shows "\<exists>t. nm_table n = ''inet '' @ t \<and> set_word t" and "set_word (nm_set4 n)" and "set_word (nm_set6 n)"
    and "set_word (nm_allow4 n)" and "set_word (nm_allow6 n)"
proof -
  obtain t s where ts: "is_identifier t" "is_identifier s"
    "n = \<lparr>nm_table = ''inet '' @ t, nm_set4 = s, nm_set6 = s @ ''6'', nm_allow4 = ''allowed'', nm_allow6 = ''allowed6'',
        nm_feeds4 = ''blocked_feeds'', nm_feeds6 = ''blocked_feeds6''\<rparr>"
    using assms by (auto simp: names_ok_def)
  show "\<exists>t. nm_table n = ''inet '' @ t \<and> set_word t" "set_word (nm_set4 n)" "set_word (nm_set6 n)"
    "set_word (nm_allow4 n)" "set_word (nm_allow6 n)"
    using ts set_word_identifier set_word_append by (simp_all) (simp_all add: set_word_def is_space_def)
qed

lemma parseElements_script:
  assumes "set_word t" and "set_word st" and "entry_text e"
  shows "parseElements (''inet '' @ t @ '' '' @ st @ '' { '' @ e @ '' }'') =
    (case parse_part e of Inl err \<Rightarrow> Inl err | Inr None \<Rightarrow> Inr (st, []) | Inr (Some el) \<Rightarrow> Inr (st, [el]))"
proof -
  let ?head = "''inet '' @ t @ '' '' @ st @ '' ''"
  have nb: "CHR ''{'' \<notin> set ?head" using assms by (auto simp: set_word_def)
  have cut: "str_cut (CHR ''{'') (''inet '' @ t @ '' '' @ st @ '' { '' @ e @ '' }'') = Some (?head, CHR '' '' # e @ '' }'')"
    using str_cut_append [OF nb, of "CHR '' '' # e @ '' }''"] by simp
  have head: "str_fields ?head = [''inet'', t, st]"
  proof -
    have w1: "str_fields ?head = ''inet'' # str_fields ('' '' @ t @ '' '' @ st @ '' '')"
      using str_fields_word [of "''inet''" "'' '' @ t @ '' '' @ st @ '' ''"] by (simp add: is_space_def)
    have w2: "str_fields (t @ '' '' @ st @ '' '') = t # str_fields ('' '' @ st @ '' '')"
      using assms(1) by (intro str_fields_word) (auto simp: set_word_def)
    have w3: "str_fields (st @ '' '') = st # str_fields '' ''"
      using assms(2) by (intro str_fields_word) (auto simp: set_word_def)
    show ?thesis using w1 w2 w3 by (simp add: str_fields_space)
  qed
  have e: "e \<noteq> []" "\<not> is_space (hd e)" "\<not> is_space (last e)" "CHR '','' \<notin> set e" using assms(3) by (auto simp: entry_text_def)
  have t1: "trim_space (CHR '' '' # e @ '' }'') = e @ '' }''"
    using trim_space_pad(2) [of "e @ '' }''"] e by simp
  have t2: "trim_suffix ''}'' (e @ '' }'') = e @ '' ''"
    by (simp add: trim_suffix_def str_has_suffix_def str_has_prefix_def)
  have t3: "trim_space (e @ '' '') = e" using trim_space_pad(3) e by simp
  show ?thesis
    unfolding parseElements_def cut option.case prod.case head list.case t1 t2 t3 str_split_no_sep [OF e(4)]
    by (cases "parse_part e") (auto split: option.split)
qed

lemma timed_entry_fields:
  assumes "key_text ip" and "ttl > 0"
  shows "str_fields (timed_entry ip ttl) = [ip, ''timeout'', nat_str (nat ttl) @ ''s'']"
proof -
  let ?d = "nat_str (nat ttl) @ ''s''"
  have ip: "ip \<noteq> []" "\<forall>c \<in> set ip. \<not> is_space c" using assms(1) by (auto simp: key_text_def)
  have dw: "\<forall>c \<in> set ?d. \<not> is_space c" using nat_str_digits [of "nat ttl"] digit_not_space by auto
  have w1: "str_fields (ip @ '' timeout '' @ ?d) = ip # str_fields ('' timeout '' @ ?d)"
    by (rule str_fields_word [OF ip(1,2)]) simp
  have w2: "str_fields (''timeout'' @ '' '' @ ?d) = ''timeout'' # str_fields ('' '' @ ?d)"
    by (rule str_fields_word) (simp_all add: is_space_def)
  have w3: "str_fields ?d = [?d]" using str_fields_word [OF _ dw, of "[]"] by simp
  show ?thesis using assms(2) w1 w2 w3 by (simp add: timed_entry_def int_str_def str_fields_space)
qed

lemma timed_entry_text: "key_text ip \<Longrightarrow> entry_text (timed_entry ip ttl)"
proof -
  assume k: "key_text ip"
  have ip: "ip \<noteq> []" "CHR '','' \<notin> set ip" using k by (auto simp: key_text_def)
  then have "hd ip \<in> set ip" "last ip \<in> set ip" by simp_all
  then have "\<not> is_space (hd ip)" "\<not> is_space (last ip)" "last ip \<noteq> CHR ''}''" "CHR 0x0A \<notin> set ip"
    using k not_space(8) unfolding key_text_def by blast+
  then show ?thesis
    using ip nat_str_digits [of "nat ttl"] digit_not_space by (auto simp: timed_entry_def entry_text_def int_str_def)
qed

lemma parse_part_key:
  assumes "key_text ip"
  shows "parse_part (timed_entry ip ttl) =
    (if ttl > 9223372036 then Inl ''nfttest: bad timeout'' else Inr (Some (ip, if ttl > 0 then ttl * Second else 0)))"
proof (cases "ttl > 0")
  case False
  have "ip \<noteq> []" "\<forall>c \<in> set ip. \<not> is_space c" using assms by (auto simp: key_text_def)
  then show ?thesis using False str_fields_word [of ip "[]"] by (simp add: timed_entry_def parse_part_def)
next
  case True
  note f = timed_entry_fields [OF assms True]
  show ?thesis
  proof (cases "ttl > 9223372036")
    case big: True
    then have "ParseDuration (nat_str (nat ttl) @ ''s'') = None" by (intro ParseDuration_seconds_big) simp
    then show ?thesis using big f by (simp add: parse_part_def)
  next
    case False
    then have "ParseDuration (nat_str (nat ttl) @ ''s'') = Some (ttl * Second)"
      using ParseDuration_seconds [of "nat ttl"] True by simp
    then show ?thesis using False True f by (simp add: parse_part_def)
  qed
qed

text \<open>The script of one element is one statement; the kernel reads back the set and the element.\<close>

lemma element_script_line:
  assumes "nm_table n = ''inet '' @ t" and "set_word t" and "set_word st" and "entry_text e"
    and "verb = ''add'' \<or> verb = ''delete''"
  shows "apply_lines now (str_split (CHR 0x0A) (element_script verb n st e)) k =
    applyLine now (verb @ '' element inet '' @ t @ '' '' @ st @ '' { '' @ e @ '' }'') k"
proof -
  let ?line = "verb @ '' element inet '' @ t @ '' '' @ st @ '' { '' @ e @ '' }''"
  have sw: "set_word s \<Longrightarrow> CHR 0x0A \<notin> set s" for s
    unfolding set_word_def using not_space(8) by blast
  have nl: "CHR 0x0A \<notin> set ?line"
    using sw [OF assms(2)] sw [OF assms(3)] assms(4,5) by (auto simp: entry_text_def)
  have "element_script verb n st e = ?line @ CHR 0x0A # []" by (simp add: element_script_def assms(1))
  then have s: "str_split (CHR 0x0A) (element_script verb n st e) = [?line, []]"
    using str_split_append [OF nl, of "[]"] by simp
  have "trim_space ?line = ?line" using assms(5) by (intro trim_space_id) auto
  moreover have "?line \<noteq> []" using assms(5) by auto
  ultimately show ?thesis by (simp add: s trim_space_def Let_def split: sum.split)
qed

lemma applyLine_add:
  "applyLine now (''add element '' @ s) k =
    (case parseElements s of Inl e \<Rightarrow> Inl e
     | Inr (name, els) \<Rightarrow> (case gm_get k name of None \<Rightarrow> Inl msg_no_file
         | Some st \<Rightarrow> (case add_elements now els st of Inl e \<Rightarrow> Inl e | Inr s' \<Rightarrow> Inr (gm_set name s' k))))"
  by (simp add: applyLine_def str_has_prefix_def trim_prefix_def)

lemma applyLine_delete:
  "applyLine now (''delete element '' @ s) k =
    (case parseElements s of Inl e \<Rightarrow> Inl e
     | Inr (name, els) \<Rightarrow> (case delete_elements els (gm_get k name) of Inl e \<Rightarrow> Inl e
         | Inr None \<Rightarrow> Inr k | Inr (Some s') \<Rightarrow> Inr (gm_set name s' k)))"
  by (simp add: applyLine_def str_has_prefix_def trim_prefix_def)

lemma Apply_add:
  assumes "names_ok n" and "set_word st" and "key_text ip"
  shows "Apply now (element_script ''add'' n st (timed_entry ip ttl)) k =
    (if ttl > 9223372036 then (Some ''nfttest: bad timeout'', gcLocked now k)
     else case gm_get (gcLocked now k) st of
       None \<Rightarrow> (Some msg_no_file, gcLocked now k)
     | Some s \<Rightarrow> (case add_elements now [(ip, if ttl > 0 then ttl * Second else 0)] s of
         Inl e \<Rightarrow> (Some e, gcLocked now k) | Inr s' \<Rightarrow> (None, gm_set st s' (gcLocked now k))))"
proof -
  obtain t where t: "nm_table n = ''inet '' @ t" "set_word t" using names_ok_words(1) [OF assms(1)] by blast
  note p = parse_part_key [OF assms(3)] and e = timed_entry_text [OF assms(3)]
  have "apply_lines now (str_split (CHR 0x0A) (element_script ''add'' n st (timed_entry ip ttl))) (gcLocked now k)
      = applyLine now (''add element '' @ ''inet '' @ t @ '' '' @ st @ '' { '' @ timed_entry ip ttl @ '' }'') (gcLocked now k)"
    using element_script_line [OF t assms(2) e] by simp
  then show ?thesis
    unfolding Apply_def Let_def applyLine_add parseElements_script [OF t(2) assms(2) e] p
    by (auto split: option.split sum.split)
qed

lemma timed_entry_0: "timed_entry ip 0 = ip"
  by (simp add: timed_entry_def)

lemma Apply_del:
  assumes "names_ok n" and "set_word st" and "key_text ip"
  shows "Apply now (element_script ''delete'' n st ip) k =
    (case gm_get (gcLocked now k) st of
       None \<Rightarrow> (Some msg_absent, gcLocked now k)
     | Some s \<Rightarrow> if gm_get (ks_elems s) ip = None then (Some msg_absent, gcLocked now k)
         else (None, gm_set st (s\<lparr>ks_elems := gm_del ip (ks_elems s)\<rparr>) (gcLocked now k)))"
proof -
  obtain t where t: "nm_table n = ''inet '' @ t" "set_word t" using names_ok_words(1) [OF assms(1)] by blast
  have p: "parse_part ip = Inr (Some (ip, 0))" "entry_text ip"
    using parse_part_key [OF assms(3), of 0] timed_entry_text [OF assms(3), of 0] by (simp_all add: timed_entry_0)
  have "apply_lines now (str_split (CHR 0x0A) (element_script ''delete'' n st ip)) (gcLocked now k)
      = applyLine now (''delete element '' @ ''inet '' @ t @ '' '' @ st @ '' { '' @ ip @ '' }'') (gcLocked now k)"
    using element_script_line [OF t assms(2) p(2), of "''delete''"] by simp
  then show ?thesis
    unfolding Apply_def Let_def applyLine_delete parseElements_script [OF t(2) assms(2) p(2)] p(1)
    by (auto split: option.split sum.split)
qed

end
