(* ===== verification/HelperInv.thy ===== *)
theory HelperInv
  imports HelperKernel
begin

text \<open>
  The invariant of the helper on the kernel: the cache holds no ghost.  Every element the
  cache reports is in the kernel with a lifetime at most one second shorter, whatever
  requests, time and failing \<open>nft\<close> processes came before.  (One instant of a request stands
  for its readings of the clock, \<open>nowFn\<close> and \<open>time.Until\<close>.)
\<close>

section \<open>Canonical keys\<close>

definition canon_key :: "string \<Rightarrow> bool" where
  "canon_key k \<longleftrightarrow>
     (\<exists>a. a \<noteq> NoAddr \<and> addr_zone a = [] \<and> \<not> is4in6 a \<and> k = addr_str a)
     \<or> (\<exists>p. prefix_wf p \<and> prefix_is_valid p \<and> prefix_masked p = p \<and> \<not> prefix_is_single_ip p \<and> k = pfx_str p)"

lemma ipv4_fields_chars: "ipv4_fields s v dl acc = Some r \<Longrightarrow> \<forall>c \<in> set s. is_digit c \<or> c = CHR ''.''"
  by (induction s v dl acc rule: ipv4_fields.induct) (auto simp: Let_def split: if_splits)

lemma ipv6_groups_chars:
  "ipv6_groups n s ip ell = Some (ip', ell', []) \<Longrightarrow> \<forall>c \<in> set s. is_hex c \<or> c = CHR '':'' \<or> c = CHR ''.''"
proof (induction n s ip ell rule: ipv6_groups.induct)
  case (2 n s ip ell)
  let ?h = "takeWhile is_hex s" and ?r = "dropWhile is_hex s"
  let ?ip = "ip @ [hex_val ?h div 256, hex_val ?h mod 256]"
  have s: "set s = set ?h \<union> set ?r" by (metis set_append takeWhile_dropWhile_id)
  have h: "\<forall>c \<in> set ?h. is_hex c" by (auto dest: set_takeWhileD)
  have lens: "\<not> length ?h > 4" "?h \<noteq> []" using "2.prems" by (auto simp: Let_def split: if_splits)
  have r: "\<forall>c \<in> set ?r. is_hex c \<or> c = CHR '':'' \<or> c = CHR ''.''"
  proof (cases ?r)
    case (Cons c r1)
    show ?thesis
    proof (cases "c = CHR ''.''")
      case True
      then obtain f where "ipv4_fields s 0 0 [] = Some f"
        using "2.prems" Cons lens by (auto simp: Let_def split: if_splits)
      then have "\<forall>c \<in> set s. is_digit c \<or> c = CHR ''.''" by (rule ipv4_fields_chars)
      then show ?thesis using s by (auto simp: is_hex_def)
    next
      case dot: False
      then have col: "c = CHR '':''" using "2.prems" Cons lens by (auto simp: Let_def split: if_splits)
      obtain c1 r2 where r1: "r1 = c1 # r2" using "2.prems" Cons lens dot by (cases r1) (auto simp: Let_def split: if_splits)
      show ?thesis
      proof (cases "c1 = CHR '':''")
        case True
        show ?thesis
        proof (cases "r2 = []")
          case True
          then show ?thesis using Cons col r1 \<open>c1 = CHR '':''\<close> by simp
        next
          case False
          have "ipv6_groups n r2 ?ip (Some (length ?ip)) = Some (ip', ell', [])"
            using "2.prems" Cons lens dot col r1 True False by (auto simp: Let_def split: if_splits)
          from "2.IH"(1) [OF refl refl refl refl lens(1,2) Cons dot _ r1 True _ False this]
          have "\<forall>c \<in> set r2. is_hex c \<or> c = CHR '':'' \<or> c = CHR ''.''"
            using "2.prems" Cons lens dot col r1 True False by (auto simp: Let_def split: if_splits)
          then show ?thesis using Cons col r1 True by auto
        qed
      next
        case False
        have g: "ipv6_groups n r1 ?ip ell = Some (ip', ell', [])"
          using "2.prems" Cons lens dot col r1 False by (auto simp: Let_def split: if_splits)
        have "\<forall>c \<in> set r1. is_hex c \<or> c = CHR '':'' \<or> c = CHR ''.''"
          using "2.IH"(2) [OF refl refl refl refl lens(1,2) Cons dot _ r1 False g] col by simp
        then show ?thesis using Cons col by auto
      qed
    qed
  next
    case Nil
    show ?thesis unfolding Nil by simp
  qed
  then show ?case using s h by auto
qed simp

lemma parse_addr_chars:
  assumes "parse_addr s = Some a" and "CHR ''%'' \<notin> set s"
  shows "\<forall>c \<in> set s. is_hex c \<or> c = CHR '':'' \<or> c = CHR ''.''" and "addr_zone a = []" and "a \<noteq> NoAddr" and "s \<noteq> []"
proof -
  have "(\<forall>c \<in> set s. is_hex c \<or> c = CHR '':'' \<or> c = CHR ''.'') \<and> addr_zone a = [] \<and> a \<noteq> NoAddr \<and> s \<noteq> []"
  proof (cases "parse_ipv4 s = Some a")
    case True
    then obtain f where "ipv4_fields s 0 0 [] = Some f" "a = V4 (bytes_word f)" by (auto simp: parse_ipv4_def)
    then show ?thesis using ipv4_fields_chars [of s 0 0 "[]" f] by (auto simp: is_hex_def)
  next
    case False
    then have v6: "parse_ipv6 s = Some a" using assms(1) by (auto simp: parse_addr_def split: list.splits if_splits)
    have b: "before_byte (CHR ''%'') s = s" unfolding before_byte_def using assms(2) by (subst takeWhile_eq_all_conv) auto
    show ?thesis
    proof (cases "s = ''::''")
      case True
      then show ?thesis using v6 b by (auto simp: parse_ipv6_def)
    next
      case ne: False
      let ?eb = "if str_has_prefix s ''::'' then (Some (0 :: nat), drop 2 s) else (None, s)"
      obtain ell body where eb: "?eb = (ell, body)" by fastforce
      obtain r where r: "ipv6_groups 8 body [] ell = Some r" "ipv6_expand r \<noteq> None"
        and a: "\<exists>w. a = V6 w []"
        using v6 ne eb assms(2) by (auto simp: parse_ipv6_def b Let_def split: option.splits prod.splits)
      obtain ip' ell' where "r = (ip', ell', [])" using r(2) by (cases r) (auto simp: ipv6_expand_def split: if_splits)
      then have body: "\<forall>c \<in> set body. is_hex c \<or> c = CHR '':'' \<or> c = CHR ''.''" using ipv6_groups_chars r(1) by blast
      have nb: "body \<noteq> []" using r(1) proof -
        have e: "(8 :: nat) = Suc 7" by simp
        have "ipv6_groups 8 [] [] ell = None" unfolding e by (simp only: ipv6_groups.simps) simp
        then show ?thesis using r(1) by (cases body) simp_all
      qed
      have "s = body \<or> s = CHR '':'' # CHR '':'' # body"
      proof (cases "str_has_prefix s ''::''")
        case True
        then have "take 2 s = ''::''" by (simp add: str_has_prefix_def numeral_2_eq_2)
        moreover have "body = drop 2 s" using eb True by simp
        ultimately show ?thesis by (metis append_Cons append_Nil append_take_drop_id)
      next
        case False
        then show ?thesis using eb by simp
      qed
      then show ?thesis using body a nb by (elim disjE exE) simp_all
    qed
  qed
  then show "\<forall>c \<in> set s. is_hex c \<or> c = CHR '':'' \<or> c = CHR ''.''" "addr_zone a = []" "a \<noteq> NoAddr" "s \<noteq> []" by blast+
qed

lemma split_last_parts: "split_last c s = Some (a, b) \<Longrightarrow> s = a @ c # b"
proof -
  assume "split_last c s = Some (a, b)"
  then have c: "c \<in> set (rev s)" and ab: "a = rev (tl (dropWhile (\<lambda>x. x \<noteq> c) (rev s)))" "b = rev (takeWhile (\<lambda>x. x \<noteq> c) (rev s))"
    by (auto simp: split_last_def split: if_splits)
  obtain t where t: "dropWhile (\<lambda>x. x \<noteq> c) (rev s) = c # t"
  proof (cases "dropWhile (\<lambda>x. x \<noteq> c) (rev s)")
    case Nil
    then show ?thesis using c unfolding dropWhile_eq_Nil_conv by blast
  next
    case (Cons x t)
    then have "\<not> x \<noteq> c" using hd_dropWhile [of "\<lambda>x. x \<noteq> c" "rev s"] by simp
    then show ?thesis using Cons that by simp
  qed
  have "rev s = takeWhile (\<lambda>x. x \<noteq> c) (rev s) @ c # t" using t by (metis takeWhile_dropWhile_id)
  then have "s = rev (takeWhile (\<lambda>x. x \<noteq> c) (rev s) @ c # t)" by (metis rev_rev_ident)
  then show ?thesis using ab t by simp
qed

lemma parse_prefix_chars:
  assumes "parse_prefix s = Some p" and "CHR ''%'' \<notin> set s"
  shows "\<forall>c \<in> set s. is_hex c \<or> c \<in> {CHR '':'', CHR ''.'', CHR ''/''}" and "s \<noteq> []"
proof -
  obtain a b ip where s: "split_last (CHR ''/'') s = Some (a, b)" "parse_addr a = Some ip" "parse_bits b (bit_len ip) \<noteq> None"
    using assms(1) by (auto simp: parse_prefix_def split: option.splits prod.splits if_splits)
  have eq: "s = a @ CHR ''/'' # b" by (rule split_last_parts [OF s(1)])
  have "\<forall>c \<in> set b. is_digit c" using s(3) by (auto simp: parse_bits_def list_all_iff split: if_splits)
  moreover have "\<forall>c \<in> set a. is_hex c \<or> c = CHR '':'' \<or> c = CHR ''.''"
    using parse_addr_chars(1) [OF s(2)] assms(2) eq by simp
  ultimately show "\<forall>c \<in> set s. is_hex c \<or> c \<in> {CHR '':'', CHR ''.'', CHR ''/''}" "s \<noteq> []"
    using eq by (auto simp: is_hex_def)
qed

lemma hexlike_key_text: "s \<noteq> [] \<Longrightarrow> \<forall>c \<in> set s. is_hex c \<or> c \<in> {CHR '':'', CHR ''.'', CHR ''/''} \<Longrightarrow> key_text s"
proof -
  assume s: "s \<noteq> []" "\<forall>c \<in> set s. is_hex c \<or> c \<in> {CHR '':'', CHR ''.'', CHR ''/''}"
  have "\<not> is_space c \<and> c \<notin> {CHR ''{'', CHR ''}'', CHR '',''}" if "is_hex c \<or> c \<in> {CHR '':'', CHR ''.'', CHR ''/''}" for c
    using that hex_not_space [of c] by (auto simp: is_space_def)
  then show ?thesis using s by (auto simp: key_text_def)
qed

lemma parse_addr_slash: "CHR ''/'' \<in> set s \<Longrightarrow> CHR ''%'' \<notin> set s \<Longrightarrow> parse_addr s = None"
  using parse_addr_chars(1) [of s] by (cases "parse_addr s") auto

lemma addr_str_chars:
  "addr_zone a = [] \<Longrightarrow> a \<noteq> NoAddr \<Longrightarrow> c \<in> set (addr_str a) \<Longrightarrow> is_hex c \<or> c \<in> {CHR '':'', CHR ''.''}"
  using ipv4_str_chars v6_str_chars by (cases a) (auto simp: is_hex_def is_digit_def split: if_splits)

lemma addr_str_no_zone: "addr_zone a = [] \<Longrightarrow> a \<noteq> NoAddr \<Longrightarrow> CHR ''%'' \<notin> set (addr_str a)"
  using addr_str_chars [of a "CHR ''%''"] by auto

lemma pfx_str_shape:
  assumes "prefix_wf p" and "prefix_is_valid p"
  shows "pfx_str p = addr_str (pfx_ip p) @ CHR ''/'' # nat_str (nat (pfx_bits p))"
    and "addr_zone (pfx_ip p) = []" and "pfx_ip p \<noteq> NoAddr" and "CHR ''%'' \<notin> set (pfx_str p)"
    and "\<forall>c \<in> set (pfx_str p). is_hex c \<or> c \<in> {CHR '':'', CHR ''.'', CHR ''/''}"
proof -
  show s: "pfx_str p = addr_str (pfx_ip p) @ CHR ''/'' # nat_str (nat (pfx_bits p))"
    using assms by (simp add: pfx_str_def int_str_def prefix_is_valid_def)
  show z: "addr_zone (pfx_ip p) = []" "pfx_ip p \<noteq> NoAddr" using assms by (auto simp: prefix_wf_def prefix_is_valid_def)
  have "\<forall>c \<in> set (nat_str (nat (pfx_bits p))). is_hex c" by (rule nat_str_hex)
  then show "\<forall>c \<in> set (pfx_str p). is_hex c \<or> c \<in> {CHR '':'', CHR ''.'', CHR ''/''}"
    using addr_str_chars [OF z] s by auto
  then show "CHR ''%'' \<notin> set (pfx_str p)" by auto
qed

lemma canon_key_text: "canon_key k \<Longrightarrow> key_text k"
  unfolding canon_key_def
proof (elim disjE exE conjE)
  fix a assume "a \<noteq> NoAddr" "addr_zone a = []" "k = addr_str a"
  then show ?thesis
    using addr_str_chars [of a] parse_addr_chars(4) [OF parse_addr_addr_str addr_str_no_zone] hexlike_key_text [of k] by auto
next
  fix p assume "prefix_wf p" "prefix_is_valid p" "k = pfx_str p"
  then show ?thesis using pfx_str_shape [of p] hexlike_key_text [of k] by auto
qed

text \<open>What a canonical key denotes: its address, or its prefix.\<close>

lemma canon_key_cases:
  assumes "canon_key k"
  obtains (addr) a where "a \<noteq> NoAddr" "addr_zone a = []" "\<not> is4in6 a" "k = addr_str a" "parse_addr k = Some a"
      "toPrefix k = prefix_from a (bit_len a)"
  | (pref) p where "prefix_wf p" "prefix_is_valid p" "prefix_masked p = p" "\<not> prefix_is_single_ip p" "k = pfx_str p" "parse_addr k = None"
      "parse_prefix k = Some p" "toPrefix k = p"
  using assms unfolding canon_key_def
proof (elim disjE exE conjE)
  fix a assume a: "a \<noteq> NoAddr" "addr_zone a = []" "\<not> is4in6 a" "k = addr_str a"
  have "parse_prefix k = None" using addr_str_no_slash [OF a(2)] a(4) by (simp add: parse_prefix_def split_last_def)
  then show thesis using addr a parse_addr_addr_str [OF a(1,2)] by (simp add: toPrefix_def)
next
  fix p assume p: "prefix_wf p" "prefix_is_valid p" "prefix_masked p = p" "\<not> prefix_is_single_ip p" "k = pfx_str p"
  have "parse_addr k = None" using pfx_str_shape [OF p(1,2)] p(5) by (intro parse_addr_slash) auto
  then show thesis using pref p parse_prefix_pfx_str [OF p(1,2)] by (simp add: toPrefix_def)
qed

lemma prefix_masked_idem [simp]: "prefix_wf p \<Longrightarrow> prefix_masked (prefix_masked p) = prefix_masked p"
proof (cases p)
  case (Pfx ip b)
  assume "prefix_wf p"
  then show ?thesis using Pfx
    by (cases ip) (auto simp: prefix_masked_def prefix_wf_def prefix_from_def no_prefix_def)
qed

lemma prefix_masked_valid: "prefix_wf p \<Longrightarrow> prefix_is_valid p \<Longrightarrow> prefix_is_valid (prefix_masked p)"
  by (cases p; cases "pfx_ip p") (auto simp: prefix_masked_def prefix_wf_def prefix_is_valid_def prefix_from_def)

lemma addr_zone_unmap: "addr_zone a = [] \<Longrightarrow> addr_zone (unmap a) = []"
  by (cases a) auto

lemma unmap_not_none: "a \<noteq> NoAddr \<Longrightarrow> unmap a \<noteq> NoAddr"
  by (cases a) auto

lemma prefix_masked_single: "prefix_is_valid p \<Longrightarrow> prefix_wf p \<Longrightarrow> prefix_is_single_ip (prefix_masked p) = prefix_is_single_ip p"
  by (cases p; cases "pfx_ip p") (auto simp: prefix_is_single_ip_def prefix_masked_def prefix_wf_def prefix_is_valid_def prefix_from_def)

text \<open>The helper's key of a validated input without a zone is canonical.\<close>

lemma canonical_key_text:
  assumes "validateIP s" and "CHR ''%'' \<notin> set s"
  shows "canon_key (CanonicalIPKey s)"
proof (cases "parse_addr s")
  case (Some a)
  note ch = parse_addr_chars [OF Some assms(2)]
  then show ?thesis
    unfolding canon_key_def CanonicalIPKey_def using Some addr_zone_unmap unmap_not_none unmap_not4in6
    by (intro disjI1 exI [of _ "unmap a"]) simp
next
  case None
  then obtain p where p: "parse_prefix s = Some p" using assms(1) by (auto simp: validateIP_def)
  note wf = parse_prefix_wf [OF p]
  show ?thesis
  proof (cases "prefix_is_single_ip p")
    case True
    have "addr_zone (pfx_ip p) = []" "pfx_ip p \<noteq> NoAddr" using wf by (auto simp: prefix_wf_def prefix_is_valid_def)
    then show ?thesis
      unfolding canon_key_def CanonicalIPKey_def using None p True addr_zone_unmap unmap_not_none unmap_not4in6
      by (intro disjI1 exI [of _ "unmap (pfx_ip p)"]) simp
  next
    case False
    then show ?thesis
      unfolding canon_key_def CanonicalIPKey_def using None p wf prefix_masked_valid prefix_masked_single False
      by (intro disjI2 exI [of _ "prefix_masked p"]) simp
  qed
qed

lemma setForIP_canon: "canon_key k \<Longrightarrow> \<exists>st \<in> {nm_set4 n, nm_set6 n}. setForIP n k = Inr st"
  by (elim canon_key_cases) (auto simp: setForIP_def setForIPIn_def)

section \<open>The blocked sets of the kernel\<close>

text \<open>
  A blocked set exists, has no auto-merge, holds canonical keys of its family only, and no two
  of its elements overlap.
\<close>

definition set_ok :: "nft_names \<Rightarrow> string \<Rightarrow> kset \<Rightarrow> bool" where
  "set_ok n st s \<longleftrightarrow> ks_family s \<in> {''ipv4_addr'', ''ipv6_addr''} \<and> \<not> ks_auto_merge s \<and> gm_ok (ks_elems s)
     \<and> (\<forall>key \<in> set (gm_keys (ks_elems s)). canon_key key \<and> setForIP n key = Inr st)
     \<and> (\<forall>k1 \<in> set (gm_keys (ks_elems s)). \<forall>k2 \<in> set (gm_keys (ks_elems s)).
          k1 \<noteq> k2 \<longrightarrow> \<not> prefix_overlaps (toPrefix k1) (toPrefix k2))"

definition blocked_ok :: "nft_names \<Rightarrow> ksets \<Rightarrow> bool" where
  "blocked_ok n k \<longleftrightarrow> (\<forall>st \<in> {nm_set4 n, nm_set6 n}. \<exists>s. gm_get k st = Some s \<and> set_ok n st s)"

text \<open>The expiry of a live element of the blocked sets.\<close>

definition host_elem :: "time \<Rightarrow> nft_names \<Rightarrow> ksets \<Rightarrow> string \<Rightarrow> time option option" where
  "host_elem now n k key = (case setForIP n key of Inl e \<Rightarrow> None | Inr st \<Rightarrow> Expiry now st key k)"

lemma gm_get_gc: "gm_get (gcLocked now k) st = map_option (gc_set now) (gm_get k st)"
  by (induction k) (auto simp: gcLocked_def)

lemma gc_elems:
  "gm_ok (ks_elems s) \<Longrightarrow> gm_get (ks_elems (gc_set now s)) key =
     (case gm_get (ks_elems s) key of None \<Rightarrow> None | Some e \<Rightarrow> if expired now e then None else Some e)"
  by (simp add: gc_set_def gm_get_filter split: option.split)

lemma set_ok_subset:
  "set_ok n st s \<Longrightarrow> gm_ok els \<Longrightarrow> set (gm_keys els) \<subseteq> set (gm_keys (ks_elems s)) \<Longrightarrow>
     set_ok n st (s\<lparr>ks_elems := els\<rparr>)"
proof -
  assume a: "set_ok n st s" "gm_ok els" "set (gm_keys els) \<subseteq> set (gm_keys (ks_elems s))"
  have e: "ks_elems (s\<lparr>ks_elems := els\<rparr>) = els" "ks_auto_merge (s\<lparr>ks_elems := els\<rparr>) = ks_auto_merge s"
    "ks_family (s\<lparr>ks_elems := els\<rparr>) = ks_family s" by simp_all
  show ?thesis using a unfolding set_ok_def e by blast
qed

lemma set_ok_overlap:
  "set_ok n st s \<Longrightarrow> k1 \<in> set (gm_keys (ks_elems s)) \<Longrightarrow> k2 \<in> set (gm_keys (ks_elems s)) \<Longrightarrow> k1 \<noteq> k2 \<Longrightarrow>
     \<not> prefix_overlaps (toPrefix k1) (toPrefix k2)"
  unfolding set_ok_def by (elim conjE) (drule (1) bspec, drule (1) bspec, simp)

lemma set_ok_gc [simp]: "set_ok n st s \<Longrightarrow> set_ok n st (gc_set now s)"
  unfolding gc_set_def by (rule set_ok_subset) (auto simp: set_ok_def)

lemma blocked_ok_gc [simp]: "blocked_ok n k \<Longrightarrow> blocked_ok n (gcLocked now k)"
  by (fastforce simp: blocked_ok_def gm_get_gc)

lemma expired_mono: "now \<le> now' \<Longrightarrow> expired now e \<Longrightarrow> expired now' e"
  by (cases e) (auto simp: expired_def)

lemma Expiry_eq:
  assumes "blocked_ok n k" and "st \<in> {nm_set4 n, nm_set6 n}"
  shows "Expiry now st key k =
    (case gm_get k st of None \<Rightarrow> None | Some s \<Rightarrow>
      (case gm_get (ks_elems s) key of None \<Rightarrow> None | Some e \<Rightarrow> if expired now e then None else Some e))"
proof -
  obtain s where s: "gm_get k st = Some s" "set_ok n st s" using assms by (auto simp: blocked_ok_def)
  then show ?thesis by (simp add: Expiry_def gm_get_gc gc_elems set_ok_def)
qed

lemma host_elem_gc [simp]: "blocked_ok n k \<Longrightarrow> host_elem now n (gcLocked now k) key = host_elem now n k key"
proof (cases "setForIP n key")
  case (Inr st)
  assume ok: "blocked_ok n k"
  have "Expiry now st key (gcLocked now k) = Expiry now st key k"
    by (cases "gm_get k st") (simp_all add: Expiry_def gm_get_gc gc_set_def)
  then show ?thesis by (simp add: host_elem_def Inr)
qed (simp add: host_elem_def)

lemma host_elem_later:
  assumes "blocked_ok n k" and "now \<le> now'" and "canon_key key"
  shows "host_elem now' n k key =
    (case host_elem now n k key of None \<Rightarrow> None | Some e \<Rightarrow> if expired now' e then None else Some e)"
proof -
  obtain st where st: "setForIP n key = Inr st" "st \<in> {nm_set4 n, nm_set6 n}" using setForIP_canon [OF assms(3)] by blast
  then show ?thesis
    using Expiry_eq [OF assms(1) st(2)] expired_mono [OF assms(2)]
    by (auto simp: host_elem_def split: option.splits if_splits)
qed

section \<open>One element\<close>

lemma overlaps_scan_iff:
  "distinct (map fst els) \<Longrightarrow> overlaps_scan els key \<Longrightarrow>
     \<exists>el \<in> set (map fst els). el \<noteq> key \<and> prefix_overlaps (toPrefix key) (toPrefix el)"
  by (induction els key rule: overlaps_scan.induct) (auto split: if_splits)

lemma overlaps_scan_none:
  "\<not> overlaps_scan els key \<Longrightarrow> key \<notin> set (map fst els) \<Longrightarrow> el \<in> set (map fst els) \<Longrightarrow>
     \<not> prefix_overlaps (toPrefix key) (toPrefix el)"
  by (induction els key rule: overlaps_scan.induct) (auto split: if_splits)

lemma overlaps_scan_member:
  assumes "\<forall>k1 \<in> set (map fst els). \<forall>k2 \<in> set (map fst els). k1 \<noteq> k2 \<longrightarrow> \<not> prefix_overlaps (toPrefix k1) (toPrefix k2)"
    and "key \<in> set (map fst els)"
  shows "\<not> overlaps_scan els key"
proof -
  have "\<not> overlaps_scan es key" if "set es \<subseteq> set els" for es
    using that assms by (induction es key rule: overlaps_scan.induct) force+
  then show ?thesis by blast
qed

lemma set4_neq_set6: "names_ok n \<Longrightarrow> nm_set4 n \<noteq> nm_set6 n"
  by (auto simp: names_ok_def)

text \<open>The scripts of one element, as what they do to the live elements.\<close>

lemma Apply_add_host:
  assumes n: "names_ok n" and key: "canon_key key" and ok: "blocked_ok n k" and st: "setForIP n key = Inr st"
    and run: "Apply now (element_script ''add'' n st (timed_entry key ttl)) k = (r, k')"
  shows "blocked_ok n k'" and
    "(r = None \<and> ttl \<le> 9223372036 \<and> (\<forall>key'. host_elem now n k' key' = (if key' = key then Some (deadline now (ttl * Second)) else host_elem now n k key')))
     \<or> (r = Some msg_overlap \<and> (\<forall>key'. host_elem now n k' key' = host_elem now n k key') \<and> ttl \<le> 9223372036
        \<and> (\<exists>el. el \<noteq> key \<and> host_elem now n k el \<noteq> None \<and> setForIP n el = Inr st \<and> canon_key el
             \<and> prefix_overlaps (toPrefix key) (toPrefix el)) \<and> host_elem now n k key = None)
     \<or> (r = Some ''nfttest: bad timeout'' \<and> (\<forall>key'. host_elem now n k' key' = host_elem now n k key') \<and> ttl > 9223372036)"
proof -
  have stn: "st \<in> {nm_set4 n, nm_set6 n}" using setForIP_canon [OF key, of n] st by auto
  have word: "set_word st" using names_ok_words(2,3) [OF n] stn by auto
  let ?k0 = "gcLocked now k"
  have ok0: "blocked_ok n ?k0" using ok by simp
  then obtain s where s: "gm_get ?k0 st = Some s" "set_ok n st s" using stn unfolding blocked_ok_def by blast
  have live: "\<not> expired now e" if "gm_get (ks_elems s) el = Some e" for el e
  proof -
    obtain s0 where "gm_get k st = Some s0" "s = gc_set now s0" "set_ok n st s0"
      using s ok stn unfolding blocked_ok_def by (auto simp: gm_get_gc)
    then show ?thesis using that by (auto simp: gc_elems set_ok_def split: option.splits if_splits)
  qed
  have H0: "host_elem now n ?k0 key' = host_elem now n k key'" for key' using ok by simp
  have mem: "host_elem now n k el = gm_get (ks_elems s) el" if "setForIP n el = Inr st" for el
    using Expiry_eq [OF ok0 stn, of now el] H0 [of el] that s(1) live by (auto simp: host_elem_def split: option.splits)
  let ?ttl = "if ttl > 0 then ttl * Second else 0"
  let ?exp = "if ?ttl > 0 then Some (now + ?ttl) else None"
  have exp: "?exp = deadline now (ttl * Second)" "\<not> expired now (deadline now (ttl * Second))"
    by (auto simp: deadline_def expired_def Second_def)
  have run': "(r, k') = (if ttl > 9223372036 then (Some ''nfttest: bad timeout'', ?k0)
      else if overlaps_scan (ks_elems s) key then (Some msg_overlap, ?k0)
      else (None, gm_set st (s\<lparr>ks_elems := gm_set key ?exp (ks_elems s)\<rparr>) ?k0))"
    using run s unfolding Apply_add [OF n word canon_key_text [OF key]] by (auto simp: set_ok_def overlaps_def split: if_splits)
  have dist: "distinct (map fst (ks_elems s))" using s(2) by (simp add: set_ok_def gm_ok_def)
  have "blocked_ok n k' \<and> ((r = None \<and> ttl \<le> 9223372036 \<and> (\<forall>key'. host_elem now n k' key' = (if key' = key then Some (deadline now (ttl * Second)) else host_elem now n k key')))
     \<or> (r = Some msg_overlap \<and> (\<forall>key'. host_elem now n k' key' = host_elem now n k key') \<and> ttl \<le> 9223372036
        \<and> (\<exists>el. el \<noteq> key \<and> host_elem now n k el \<noteq> None \<and> setForIP n el = Inr st \<and> canon_key el
             \<and> prefix_overlaps (toPrefix key) (toPrefix el)) \<and> host_elem now n k key = None)
     \<or> (r = Some ''nfttest: bad timeout'' \<and> (\<forall>key'. host_elem now n k' key' = host_elem now n k key') \<and> ttl > 9223372036))"
  proof (cases "ttl > 9223372036")
    case True
    then show ?thesis using run' ok0 H0 by simp
  next
    case small: False
    show ?thesis
    proof (cases "overlaps_scan (ks_elems s) key")
      case True
      then have e: "r = Some msg_overlap" "k' = ?k0" using run' small by simp_all
      obtain el where el: "el \<in> set (gm_keys (ks_elems s))" "el \<noteq> key" "prefix_overlaps (toPrefix key) (toPrefix el)"
        using overlaps_scan_iff [OF dist True] by blast
      then have "setForIP n el = Inr st" "canon_key el" using s(2) by (auto simp: set_ok_def)
      moreover have "gm_get (ks_elems s) el \<noteq> None" using el(1) by (auto simp: map_of_eq_None_iff)
      moreover have "key \<notin> set (gm_keys (ks_elems s))"
        using overlaps_scan_member [of "ks_elems s" key] s(2) True unfolding set_ok_def by blast
      then have "gm_get (ks_elems s) key = None" by (simp add: map_of_eq_None_iff)
      ultimately have "(\<exists>el. el \<noteq> key \<and> host_elem now n k el \<noteq> None \<and> setForIP n el = Inr st \<and> canon_key el
             \<and> prefix_overlaps (toPrefix key) (toPrefix el)) \<and> host_elem now n k key = None"
        using el mem st by metis
      then show ?thesis using e ok0 H0 small by simp
    next
      case False
      let ?s = "s\<lparr>ks_elems := gm_set key ?exp (ks_elems s)\<rparr>"
      have e: "r = None" "k' = gm_set st ?s ?k0" using run' small False by simp_all
      have keys: "set (gm_keys (ks_elems ?s)) = insert key (set (gm_keys (ks_elems s)))"
      proof -
        have "ks_elems ?s = gm_set key ?exp (ks_elems s)" by simp
        then show ?thesis by (simp only: gm_keys_set)
      qed
      have sym: "prefix_overlaps p q = prefix_overlaps q p" if "prefix_wf p" "prefix_wf q" for p q
        using prefix_overlaps_iff that by blast
      have wf: "prefix_wf (toPrefix el)" if "canon_key el" for el
        using that by (elim canon_key_cases) auto
      have nov: "\<not> prefix_overlaps (toPrefix key) (toPrefix el) \<and> \<not> prefix_overlaps (toPrefix el) (toPrefix key)"
        if "el \<in> set (gm_keys (ks_elems s))" "el \<noteq> key" for el
      proof -
        have "\<not> prefix_overlaps (toPrefix key) (toPrefix el)"
        proof (cases "key \<in> set (gm_keys (ks_elems s))")
          case True
          show ?thesis by (rule set_ok_overlap [OF s(2) True that(1) that(2) [symmetric]])
        next
          case notin: False
          then show ?thesis using overlaps_scan_none [OF False notin that(1)] by blast
        qed
        moreover have "canon_key el" using s(2) that by (auto simp: set_ok_def)
        ultimately show ?thesis using sym [OF wf [OF key] wf] by blast
      qed
      have "set_ok n st ?s" using s(2) keys key st nov unfolding set_ok_def by auto
      then have okk: "blocked_ok n k'" using ok0 e unfolding blocked_ok_def by auto
      have "host_elem now n k' key' = (if key' = key then Some (deadline now (ttl * Second)) else host_elem now n k key')" for key'
      proof (cases "setForIP n key' = Inr st")
        case True
        have "host_elem now n k' key' = (case gm_get (ks_elems ?s) key' of None \<Rightarrow> None | Some e \<Rightarrow> if expired now e then None else Some e)"
          using Expiry_eq [OF okk stn, of now key'] True e by (simp add: host_elem_def)
        then show ?thesis using mem [OF True] live exp by (auto split: option.splits)
      next
        case False
        then have "host_elem now n k' key' = host_elem now n ?k0 key'"
          by (auto simp: host_elem_def Expiry_def gm_get_gc e split: sum.split)
        then show ?thesis using H0 False st by auto
      qed
      then show ?thesis using okk e small by simp
    qed
  qed
  then show "blocked_ok n k'" and
    "(r = None \<and> ttl \<le> 9223372036 \<and> (\<forall>key'. host_elem now n k' key' = (if key' = key then Some (deadline now (ttl * Second)) else host_elem now n k key')))
     \<or> (r = Some msg_overlap \<and> (\<forall>key'. host_elem now n k' key' = host_elem now n k key') \<and> ttl \<le> 9223372036
        \<and> (\<exists>el. el \<noteq> key \<and> host_elem now n k el \<noteq> None \<and> setForIP n el = Inr st \<and> canon_key el
             \<and> prefix_overlaps (toPrefix key) (toPrefix el)) \<and> host_elem now n k key = None)
     \<or> (r = Some ''nfttest: bad timeout'' \<and> (\<forall>key'. host_elem now n k' key' = host_elem now n k key') \<and> ttl > 9223372036)"
    by blast+
qed

lemma Apply_del_host:
  assumes n: "names_ok n" and key: "canon_key key" and ok: "blocked_ok n k" and st: "setForIP n key = Inr st"
    and run: "Apply now (element_script ''delete'' n st key) k = (r, k')"
  shows "blocked_ok n k'" and "\<forall>key'. host_elem now n k' key' = (if key' = key then None else host_elem now n k key')"
    and "r = None \<and> host_elem now n k key \<noteq> None \<or> r = Some msg_absent \<and> host_elem now n k key = None"
proof -
  have stn: "st \<in> {nm_set4 n, nm_set6 n}" using setForIP_canon [OF key, of n] st by auto
  have word: "set_word st" using names_ok_words(2,3) [OF n] stn by auto
  let ?k0 = "gcLocked now k"
  have ok0: "blocked_ok n ?k0" using ok by simp
  then obtain s where s: "gm_get ?k0 st = Some s" "set_ok n st s" using stn unfolding blocked_ok_def by blast
  have live: "\<not> expired now e" if "gm_get (ks_elems s) el = Some e" for el e
  proof -
    obtain s0 where "gm_get k st = Some s0" "s = gc_set now s0" "set_ok n st s0"
      using s ok stn unfolding blocked_ok_def by (auto simp: gm_get_gc)
    then show ?thesis using that by (auto simp: gc_elems set_ok_def split: option.splits if_splits)
  qed
  have H0: "host_elem now n ?k0 key' = host_elem now n k key'" for key' using ok by simp
  have mem: "host_elem now n k el = gm_get (ks_elems s) el" if "setForIP n el = Inr st" for el
    using Expiry_eq [OF ok0 stn, of now el] H0 [of el] that s(1) live by (auto simp: host_elem_def split: option.splits)
  let ?s = "s\<lparr>ks_elems := gm_del key (ks_elems s)\<rparr>"
  have run': "(r, k') = (if gm_get (ks_elems s) key = None then (Some msg_absent, ?k0) else (None, gm_set st ?s ?k0))"
    using run s unfolding Apply_del [OF n word canon_key_text [OF key]] by auto
  have "blocked_ok n k' \<and> (\<forall>key'. host_elem now n k' key' = (if key' = key then None else host_elem now n k key'))
    \<and> (r = None \<and> host_elem now n k key \<noteq> None \<or> r = Some msg_absent \<and> host_elem now n k key = None)"
  proof (cases "gm_get (ks_elems s) key")
    case None
    then show ?thesis using run' ok0 H0 mem [OF st] by auto
  next
    case (Some e)
    then have e: "r = None" "k' = gm_set st ?s ?k0" using run' by simp_all
    have "set (gm_keys (gm_del key (ks_elems s))) \<subseteq> set (gm_keys (ks_elems s))"
      unfolding gm_keys_del by blast
    then have "set_ok n st ?s" using s(2) by (intro set_ok_subset) (simp_all add: set_ok_def)
    then have okk: "blocked_ok n k'" using ok0 e unfolding blocked_ok_def by auto
    have "host_elem now n k' key' = (if key' = key then None else host_elem now n k key')" for key'
    proof (cases "setForIP n key' = Inr st")
      case True
      have "host_elem now n k' key' = (case gm_get (ks_elems ?s) key' of None \<Rightarrow> None | Some e \<Rightarrow> if expired now e then None else Some e)"
        using Expiry_eq [OF okk stn, of now key'] True e by (simp add: host_elem_def)
      then show ?thesis using mem [OF True] live by (auto split: option.splits)
    next
      case False
      then have "host_elem now n k' key' = host_elem now n ?k0 key'"
        by (auto simp: host_elem_def Expiry_def gm_get_gc e split: sum.split)
      then show ?thesis using H0 False st by auto
    qed
    then show ?thesis using okk e mem [OF st] Some by simp
  qed
  then show "blocked_ok n k'" and "\<forall>key'. host_elem now n k' key' = (if key' = key then None else host_elem now n k key')"
    and "r = None \<and> host_elem now n k key \<noteq> None \<or> r = Some msg_absent \<and> host_elem now n k key = None"
    by blast+
qed

section \<open>The runner on the host\<close>

lemma signals:
  "isNftAbsentErr msg_absent" "\<not> isNftAbsentErr msg_exec" "isNftOverlapErr msg_overlap" "\<not> isNftOverlapErr msg_exec"
  "\<not> isNftOverlapErr ''nfttest: bad timeout''"
  by (simp_all add: isNftAbsentErr_def nftAbsentSignals_def isNftOverlapErr_def nftOverlapSignals_def msg_absent_def
      msg_exec_def msg_overlap_def str_has_prefix_def)

abbreviation elem_at :: "time \<Rightarrow> nft_names \<Rightarrow> khost \<Rightarrow> string \<Rightarrow> time option option" where
  "elem_at now n h key \<equiv> host_elem now n (kh_sets h) key"

abbreviation host_ok :: "nft_names \<Rightarrow> khost \<Rightarrow> bool" where
  "host_ok n h \<equiv> blocked_ok n (kh_sets h)"

lemma nftAdd_host:
  assumes "names_ok n" and "canon_key key" and "host_ok n h" and "nftAdd (kernel_ops ord now) n key ttl h = (r, h')"
  shows "host_ok n h'" and
    "(r = None \<and> ttl \<le> 9223372036 \<and> (\<forall>x. elem_at now n h' x = (if x = key then Some (deadline now (ttl * Second)) else elem_at now n h x)))
     \<or> (r = Some (NftError msg_overlap) \<and> (\<forall>x. elem_at now n h' x = elem_at now n h x) \<and> elem_at now n h key = None
        \<and> (\<exists>el. el \<noteq> key \<and> elem_at now n h el \<noteq> None \<and> setForIP n el = setForIP n key \<and> canon_key el \<and> prefix_overlaps (toPrefix key) (toPrefix el)))
     \<or> (\<exists>msg. r = Some (NftError msg) \<and> \<not> isNftOverlapErr msg \<and> (\<forall>x. elem_at now n h' x = elem_at now n h x)
        \<and> (kh_faults h = [] \<longrightarrow> ttl > 9223372036))"
    and "kh_faults h = [] \<Longrightarrow> kh_faults h' = []"
proof -
  obtain st where st: "setForIP n key = Inr st" using setForIP_canon [OF assms(2)] by blast
  have run: "(r, h') = run_err (host_run now (element_script ''add'' n st (timed_entry key ttl)) h)"
    using assms(4) by (simp add: nftAdd_def st kernel_ops_def)
  show "kh_faults h = [] \<Longrightarrow> kh_faults h' = []" using run by (auto simp: run_err_def host_run_def split: prod.splits)
  have "host_ok n h' \<and> ((r = None \<and> ttl \<le> 9223372036 \<and> (\<forall>x. elem_at now n h' x = (if x = key then Some (deadline now (ttl * Second)) else elem_at now n h x)))
     \<or> (r = Some (NftError msg_overlap) \<and> (\<forall>x. elem_at now n h' x = elem_at now n h x) \<and> elem_at now n h key = None
        \<and> (\<exists>el. el \<noteq> key \<and> elem_at now n h el \<noteq> None \<and> setForIP n el = setForIP n key \<and> canon_key el \<and> prefix_overlaps (toPrefix key) (toPrefix el)))
     \<or> (\<exists>msg. r = Some (NftError msg) \<and> \<not> isNftOverlapErr msg \<and> (\<forall>x. elem_at now n h' x = elem_at now n h x)
        \<and> (kh_faults h = [] \<longrightarrow> ttl > 9223372036)))"
  proof (cases "kh_faults h \<noteq> [] \<and> hd (kh_faults h)")
    case True
    then have "r = Some (NftError msg_exec)" "kh_sets h' = kh_sets h" using run by (auto simp: run_err_def host_run_def)
    then show ?thesis using assms(3) True signals(4) by auto
  next
    case False
    obtain e k' where e: "Apply now (element_script ''add'' n st (timed_entry key ttl)) (kh_sets h) = (e, k')" by fastforce
    then have h': "r = map_option NftError e" "kh_sets h' = k'" using run False by (auto simp: run_err_def host_run_def)
    from Apply_add_host [OF assms(1-3) st e] show ?thesis unfolding h' using signals(5) st by (elim disjE) auto
  qed
  then show "host_ok n h'" and
    "(r = None \<and> ttl \<le> 9223372036 \<and> (\<forall>x. elem_at now n h' x = (if x = key then Some (deadline now (ttl * Second)) else elem_at now n h x)))
     \<or> (r = Some (NftError msg_overlap) \<and> (\<forall>x. elem_at now n h' x = elem_at now n h x) \<and> elem_at now n h key = None
        \<and> (\<exists>el. el \<noteq> key \<and> elem_at now n h el \<noteq> None \<and> setForIP n el = setForIP n key \<and> canon_key el \<and> prefix_overlaps (toPrefix key) (toPrefix el)))
     \<or> (\<exists>msg. r = Some (NftError msg) \<and> \<not> isNftOverlapErr msg \<and> (\<forall>x. elem_at now n h' x = elem_at now n h x)
        \<and> (kh_faults h = [] \<longrightarrow> ttl > 9223372036))"
    by blast+
qed

lemma nftDel_host:
  assumes "names_ok n" and "canon_key key" and "host_ok n h" and "nftDel (kernel_ops ord now) n key h = (r, h')"
  shows "host_ok n h'" and
    "((r = None \<and> elem_at now n h key \<noteq> None \<or> r = Some ElementAbsent \<and> elem_at now n h key = None)
        \<and> (\<forall>x. elem_at now n h' x = (if x = key then None else elem_at now n h x)))
     \<or> (\<exists>msg. r = Some (NftError msg) \<and> (\<forall>x. elem_at now n h' x = elem_at now n h x) \<and> kh_faults h \<noteq> [])"
    and "kh_faults h = [] \<Longrightarrow> kh_faults h' = []"
proof -
  obtain st where st: "setForIP n key = Inr st" using setForIP_canon [OF assms(2)] by blast
  have run: "(r, h') = del_err (host_run now (element_script ''delete'' n st key) h)"
    using assms(4) by (simp add: nftDel_def st kernel_ops_def)
  show "kh_faults h = [] \<Longrightarrow> kh_faults h' = []"
    using run by (auto simp: del_err_def host_run_def split: prod.splits option.splits)
  have "host_ok n h' \<and> (((r = None \<and> elem_at now n h key \<noteq> None \<or> r = Some ElementAbsent \<and> elem_at now n h key = None)
        \<and> (\<forall>x. elem_at now n h' x = (if x = key then None else elem_at now n h x)))
     \<or> (\<exists>msg. r = Some (NftError msg) \<and> (\<forall>x. elem_at now n h' x = elem_at now n h x) \<and> kh_faults h \<noteq> []))"
  proof (cases "kh_faults h \<noteq> [] \<and> hd (kh_faults h)")
    case True
    then have "r = Some (NftError msg_exec)" "kh_sets h' = kh_sets h"
      using run signals(2) by (auto simp: del_err_def host_run_def)
    then show ?thesis using assms(3) True by auto
  next
    case False
    obtain e k' where e: "Apply now (element_script ''delete'' n st key) (kh_sets h) = (e, k')" by fastforce
    then have "kh_sets h' = k'" "r = (case e of None \<Rightarrow> None | Some msg \<Rightarrow> Some (if isNftAbsentErr msg then ElementAbsent else NftError msg))"
      using run False by (auto simp: del_err_def host_run_def split: option.splits)
    with Apply_del_host [OF assms(1-3) st e] show ?thesis using signals(1) by auto
  qed
  then show "host_ok n h'" and
    "((r = None \<and> elem_at now n h key \<noteq> None \<or> r = Some ElementAbsent \<and> elem_at now n h key = None)
        \<and> (\<forall>x. elem_at now n h' x = (if x = key then None else elem_at now n h x)))
     \<or> (\<exists>msg. r = Some (NftError msg) \<and> (\<forall>x. elem_at now n h' x = elem_at now n h x) \<and> kh_faults h \<noteq> [])"
    by blast+
qed

section \<open>Live elements\<close>

lemma canonical_fixed: "canon_key k \<Longrightarrow> CanonicalIPKey k = k"
  by (elim canon_key_cases) (auto simp: CanonicalIPKey_def unmap_id)

lemma live_elem:
  assumes "host_ok n h" and "elem_at now n h x \<noteq> None"
  shows "canon_key x" and "\<exists>st s. setForIP n x = Inr st \<and> gm_get (kh_sets h) st = Some s \<and> set_ok n st s \<and> x \<in> set (gm_keys (ks_elems s))"
proof -
  obtain st where st: "setForIP n x = Inr st" "Expiry now st x (kh_sets h) \<noteq> None"
    using assms(2) by (auto simp: host_elem_def split: sum.splits)
  then have "st \<in> {nm_set4 n, nm_set6 n}" by (auto simp: setForIP_def setForIPIn_def split: option.splits if_splits)
  then obtain s where s: "gm_get (kh_sets h) st = Some s" "set_ok n st s" using assms(1) unfolding blocked_ok_def by blast
  obtain e where "gm_get (ks_elems s) x = Some e"
    using st(2) s Expiry_eq [OF assms(1), of st now x] \<open>st \<in> {nm_set4 n, nm_set6 n}\<close> by (auto split: option.splits)
  then have "x \<in> set (gm_keys (ks_elems s))" by (force dest: gm_get_in_set)
  then show "canon_key x" "\<exists>st s. setForIP n x = Inr st \<and> gm_get (kh_sets h) st = Some s \<and> set_ok n st s \<and> x \<in> set (gm_keys (ks_elems s))"
    using st s unfolding set_ok_def by blast+
qed

lemma live_disjoint:
  assumes "host_ok n h" and "elem_at now n h x \<noteq> None" and "elem_at now n h y \<noteq> None" and "setForIP n x = setForIP n y" and "x \<noteq> y"
  shows "\<not> prefix_overlaps (toPrefix x) (toPrefix y)"
proof -
  obtain st s where x: "setForIP n x = Inr st" "gm_get (kh_sets h) st = Some s" "set_ok n st s" "x \<in> set (gm_keys (ks_elems s))"
    using live_elem(2) [OF assms(1,2)] by blast
  obtain st' s' where y: "setForIP n y = Inr st'" "gm_get (kh_sets h) st' = Some s'" "y \<in> set (gm_keys (ks_elems s'))"
    using live_elem(2) [OF assms(1,3)] by blast
  have "st' = st" "s' = s" using x y assms(4) by auto
  then show ?thesis using x(3,4) y(3) assms(5) unfolding set_ok_def by blast
qed

lemma nftAdd_again:
  assumes "names_ok n" and "canon_key key" and "host_ok n h" and "nftAdd (kernel_ops ord now) n key t1 h = (r, h1)" and "r \<noteq> None"
    and "kh_faults h = []" and "t1 \<le> 9223372036"
  shows "fst (nftAdd (kernel_ops ord now) n key t2 h1) \<noteq> None" and "r = Some (NftError msg_overlap)"
proof -
  note a = nftAdd_host [OF assms(1-4)]
  obtain r2 h2 where two: "nftAdd (kernel_ops ord now) n key t2 h1 = (r2, h2)" by fastforce
  note b = nftAdd_host [OF assms(1,2) a(1) two]
  have r: "r = Some (NftError msg_overlap)" and same: "\<forall>x. elem_at now n h1 x = elem_at now n h x"
    and ex: "\<exists>el. el \<noteq> key \<and> elem_at now n h el \<noteq> None \<and> setForIP n el = setForIP n key \<and> prefix_overlaps (toPrefix key) (toPrefix el)"
    using a(2) assms(5-7) by auto
  show "r = Some (NftError msg_overlap)" by (rule r)
  obtain el where el: "el \<noteq> key" "elem_at now n h el \<noteq> None" "setForIP n el = setForIP n key" "prefix_overlaps (toPrefix key) (toPrefix el)"
    using ex by blast
  have "r2 \<noteq> None"
  proof
    assume "r2 = None"
    then have h2: "\<forall>x. elem_at now n h2 x = (if x = key then Some (deadline now (t2 * Second)) else elem_at now n h1 x)" using b(2) by auto
    have live: "elem_at now n h2 key \<noteq> None" "elem_at now n h2 el \<noteq> None" using h2 same el(1,2) by simp_all
    from live_disjoint [OF b(1) live] el(1,3,4) show False by auto
  qed
  then show "fst (nftAdd (kernel_ops ord now) n key t2 h1) \<noteq> None" using two by simp
qed

section \<open>No ghosts\<close>

text \<open>What the cache claims of one key against what the kernel has.\<close>

definition backed :: "time \<Rightarrow> time option \<Rightarrow> time option option \<Rightarrow> bool" where
  "backed now dl e \<longleftrightarrow>
     (case dl of None \<Rightarrow> e = Some None
      | Some t \<Rightarrow> t \<ge> now + Second \<longrightarrow> e = Some None \<or> (\<exists>x. e = Some (Some x) \<and> t - Second < x))"

definition no_ghosts :: "time \<Rightarrow> nft_names \<Rightarrow> (string, time option) gomap \<Rightarrow> khost \<Rightarrow> bool" where
  "no_ghosts now n m h \<longleftrightarrow> (\<forall>key dl. gm_get m key = Some dl \<longrightarrow> backed now dl (elem_at now n h key))"

definition no_ghosts_but :: "string \<Rightarrow> time \<Rightarrow> nft_names \<Rightarrow> (string, time option) gomap \<Rightarrow> khost \<Rightarrow> bool" where
  "no_ghosts_but x now n m h \<longleftrightarrow> (\<forall>key dl. key \<noteq> x \<longrightarrow> gm_get m key = Some dl \<longrightarrow> backed now dl (elem_at now n h key))"

definition cache_ok :: "(string, time option) gomap \<Rightarrow> bool" where
  "cache_ok m \<longleftrightarrow> gm_ok m \<and> (\<forall>key \<in> set (gm_keys m). canon_key key)"

definition helper_ok :: "time \<Rightarrow> nft_names \<Rightarrow> server \<Rightarrow> khost \<Rightarrow> bool" where
  "helper_ok now n sv h \<longleftrightarrow> names_ok n \<and> sv_names sv = n \<and> sv_pinned sv \<and> host_ok n h \<and> cache_ok (sv_blocked sv)
     \<and> no_ghosts now n (sv_blocked sv) h"

lemma backed_later:
  assumes "backed now dl (elem_at now n h key)" and "now \<le> now'" and "host_ok n h" and "canon_key key"
  shows "backed now' dl (elem_at now' n h key)"
  using assms(1,2) host_elem_later [OF assms(3,2,4)]
  by (auto simp: backed_def expired_def split: option.splits)

lemma cache_ok_del: "cache_ok m \<Longrightarrow> cache_ok (gm_del k m)"
proof -
  assume "cache_ok m"
  moreover have "set (gm_keys (gm_del k m)) \<subseteq> set (gm_keys m)" unfolding gm_keys_del by blast
  ultimately show ?thesis unfolding cache_ok_def by (intro conjI gm_ok_del) blast+
qed

lemma cache_ok_set: "cache_ok m \<Longrightarrow> canon_key k \<Longrightarrow> cache_ok (gm_set k v m)"
  unfolding cache_ok_def gm_keys_set by auto

lemma cache_ok_canon: "cache_ok m \<Longrightarrow> gm_get m k = Some v \<Longrightarrow> canon_key k"
  unfolding cache_ok_def by (force dest: gm_get_in_set)

lemma helper_ok_later: "helper_ok now n sv h \<Longrightarrow> now \<le> now' \<Longrightarrow> helper_ok now' n sv h"
  unfolding helper_ok_def no_ghosts_def using backed_later cache_ok_canon by blast

lemma no_ghosts_split:
  "no_ghosts now n m h \<longleftrightarrow> no_ghosts_but x now n m h \<and> (\<forall>dl. gm_get m x = Some dl \<longrightarrow> backed now dl (elem_at now n h x))"
  by (auto simp: no_ghosts_def no_ghosts_but_def)

lemma no_ghosts_but_cong:
  "no_ghosts_but x now n m h \<Longrightarrow> (\<And>y. y \<noteq> x \<Longrightarrow> elem_at now n h' y = elem_at now n h y) \<Longrightarrow> no_ghosts_but x now n m h'"
  by (simp add: no_ghosts_but_def)

lemma no_ghosts_but_del: "no_ghosts_but x now n m h \<Longrightarrow> no_ghosts_but x now n (gm_del k m) h"
  by (auto simp: no_ghosts_but_def)

end
