(* ===== verification/HelperSteps.thy ===== *)
theory HelperSteps
  imports HelperInv
begin

text \<open>
  Every request of the helper preserves its invariant \<open>helper_ok\<close>, whatever \<open>nft\<close> process fails
  in between; a run of the helper is an inductive relation of requests and passing time.
\<close>

section \<open>The add path\<close>

abbreviation ops_at :: "((string \<times> time option) list \<Rightarrow> (string \<times> time option) list) \<Rightarrow> time \<Rightarrow> khost nft_ops" where
  "ops_at ord now \<equiv> kernel_ops ord now"

text \<open>The state between the steps of one \<open>add\<close>: only the key itself may be unbacked.\<close>

definition mid_ok :: "string \<Rightarrow> time \<Rightarrow> nft_names \<Rightarrow> server \<Rightarrow> khost \<Rightarrow> bool" where
  "mid_ok x now n sv h \<longleftrightarrow> names_ok n \<and> sv_names sv = n \<and> sv_pinned sv \<and> host_ok n h \<and> cache_ok (sv_blocked sv)
     \<and> no_ghosts_but x now n (sv_blocked sv) h"

lemma helper_mid: "helper_ok now n sv h \<Longrightarrow> mid_ok x now n sv h"
  unfolding helper_ok_def mid_ok_def using no_ghosts_split [of now n "sv_blocked sv" h x] by blast

lemma mid_helper:
  "mid_ok x now n sv h \<Longrightarrow> \<forall>dl. gm_get (sv_blocked sv) x = Some dl \<longrightarrow> backed now dl (elem_at now n h x) \<Longrightarrow> helper_ok now n sv h"
  unfolding helper_ok_def mid_ok_def using no_ghosts_split [of now n "sv_blocked sv" h x] by blast

lemma mid_del: "mid_ok x now n sv h \<Longrightarrow> mid_ok x now n (sv\<lparr>sv_blocked := gm_del k (sv_blocked sv)\<rparr>) h"
  by (simp add: mid_ok_def no_ghosts_but_del cache_ok_del)

lemma mid_host:
  "mid_ok x now n sv h \<Longrightarrow> host_ok n h' \<Longrightarrow> (\<And>y. y \<noteq> x \<Longrightarrow> elem_at now n h' y = elem_at now n h y) \<Longrightarrow> mid_ok x now n sv h'"
  unfolding mid_ok_def using no_ghosts_but_cong by blast

lemma nftDel_mid:
  assumes "mid_ok x now n sv h" and "canon_key key" and "nftDel (ops_at ord now) n key h = (r, h')"
  shows "mid_ok x now n (sv\<lparr>sv_blocked := gm_del key (sv_blocked sv)\<rparr>) h'"
    and "r \<noteq> None \<Longrightarrow> r \<noteq> Some ElementAbsent \<Longrightarrow> mid_ok x now n sv h'"
    and "x = key \<Longrightarrow> mid_ok x now n sv h'"
proof -
  have n: "names_ok n" "host_ok n h" using assms(1) by (auto simp: mid_ok_def)
  note d = nftDel_host [OF n(1) assms(2) n(2) assms(3)]
  let ?sv = "sv\<lparr>sv_blocked := gm_del key (sv_blocked sv)\<rparr>"
  have same: "elem_at now n h' y = elem_at now n h y" if "y \<noteq> key" for y using d(2) that by auto
  show "x = key \<Longrightarrow> mid_ok x now n sv h'" using mid_host [OF assms(1) d(1)] same by blast
  show "r \<noteq> None \<Longrightarrow> r \<noteq> Some ElementAbsent \<Longrightarrow> mid_ok x now n sv h'"
    using d(2) by (intro mid_host [OF assms(1) d(1)]) auto
  have "backed now dl (elem_at now n h' y)" if "y \<noteq> x" "gm_get (gm_del key (sv_blocked sv)) y = Some dl" for y dl
    using that same assms(1) by (auto simp: mid_ok_def no_ghosts_but_def split: if_splits)
  then show "mid_ok x now n ?sv h'"
    using assms(1) d(1) by (simp add: mid_ok_def no_ghosts_but_def cache_ok_del)
qed

lemma absorb_mid:
  assumes "mid_ok x now n sv h" and "\<forall>k \<in> set keys. canon_key k" and "absorb (ops_at ord now) n keys sv h = (r, sv', h')"
  shows "mid_ok x now n sv' h'" and "r \<noteq> Some CoveredByInterval"
    and "gm_get (sv_blocked sv') x = None \<or> gm_get (sv_blocked sv') x = gm_get (sv_blocked sv) x"
proof -
  have "mid_ok x now n sv' h' \<and> r \<noteq> Some CoveredByInterval
      \<and> (gm_get (sv_blocked sv') x = None \<or> gm_get (sv_blocked sv') x = gm_get (sv_blocked sv) x)"
    using assms
  proof (induction keys arbitrary: sv h)
    case (Cons key keys)
    obtain r1 h1 where d: "nftDel (ops_at ord now) n key h = (r1, h1)" by fastforce
    note m = nftDel_mid [OF Cons.prems(1) _ d]
    show ?case
    proof (cases "r1 \<noteq> None \<and> r1 \<noteq> Some ElementAbsent")
      case True
      then show ?thesis using Cons.prems d m(2) by auto
    next
      case False
      then have "absorb (ops_at ord now) n keys (sv\<lparr>sv_blocked := gm_del key (sv_blocked sv)\<rparr>) h1 = (r, sv', h')"
        using Cons.prems(3) d by (simp split: if_splits)
      from Cons.IH [OF m(1) _ this] Cons.prems(2) show ?thesis by (auto split: if_splits)
    qed
  qed simp
  then show "mid_ok x now n sv' h'" "r \<noteq> Some CoveredByInterval"
    "gm_get (sv_blocked sv') x = None \<or> gm_get (sv_blocked sv') x = gm_get (sv_blocked sv) x" by blast+
qed

text \<open>Adding the key itself never disturbs another one.\<close>

lemma nftAdd_mid:
  assumes "mid_ok x now n sv h" and "canon_key x" and "nftAdd (ops_at ord now) n x ttl h = (r, h')"
  shows "mid_ok x now n sv h'" and "r = None \<Longrightarrow> ttl \<le> 9223372036 \<and> elem_at now n h' x = Some (deadline now (ttl * Second))"
    and "r \<noteq> Some CoveredByInterval"
proof -
  have n: "names_ok n" "host_ok n h" using assms(1) by (auto simp: mid_ok_def)
  note a = nftAdd_host [OF n(1) assms(2) n(2) assms(3)]
  show "mid_ok x now n sv h'" using a(2) by (intro mid_host [OF assms(1) a(1)]) auto
  show "r = None \<Longrightarrow> ttl \<le> 9223372036 \<and> elem_at now n h' x = Some (deadline now (ttl * Second))" "r \<noteq> Some CoveredByInterval"
    using a(2) by auto
qed

lemma addOverlapping_mid:
  assumes "mid_ok x now n sv h" and "canon_key x" and "addOverlapping (ops_at ord now) n x ttl sv h = (r, sv', h')"
  shows "mid_ok x now n sv' h'" and "r = None \<Longrightarrow> ttl \<le> 9223372036 \<and> elem_at now n h' x = Some (deadline now (ttl * Second))"
    and "gm_get (sv_blocked sv') x = None \<or> gm_get (sv_blocked sv') x = gm_get (sv_blocked sv) x"
proof -
  have "mid_ok x now n sv' h' \<and> (r = None \<longrightarrow> ttl \<le> 9223372036 \<and> elem_at now n h' x = Some (deadline now (ttl * Second)))
      \<and> (gm_get (sv_blocked sv') x = None \<or> gm_get (sv_blocked sv') x = gm_get (sv_blocked sv) x)"
  proof (cases "parse_addr x")
    case Some
    then show ?thesis using assms by (auto simp: addOverlapping_def)
  next
    case None
    let ?p = "case parse_prefix x of None \<Rightarrow> no_prefix | Some p \<Rightarrow> p"
    let ?c = "filter (narrower ?p) (gm_keys (sv_blocked sv))"
    obtain r1 sv1 h1 where ab: "absorb (ops_at ord now) n ?c sv h = (r1, sv1, h1)" by (metis prod_cases3)
    have "\<forall>k \<in> set ?c. canon_key k" using assms(1) by (auto simp: mid_ok_def cache_ok_def)
    note m = absorb_mid [OF assms(1) this ab]
    show ?thesis
    proof (cases r1)
      case (Some e)
      then have "sv' = sv1" "h' = h1" "r = Some e" using assms(3) None ab by (simp_all add: addOverlapping_def Let_def)
      then show ?thesis using m by simp
    next
      case ok: None
      obtain r2 h2 where ad: "nftAdd (ops_at ord now) n x ttl h1 = (r2, h2)" by fastforce
      have "r = r2" "sv' = sv1" "h' = h2" using assms(3) None ab ok ad by (simp_all add: addOverlapping_def Let_def)
      then show ?thesis using nftAdd_mid [OF m(1) assms(2) ad] m(3) by simp
    qed
  qed
  then show "mid_ok x now n sv' h'" "r = None \<Longrightarrow> ttl \<le> 9223372036 \<and> elem_at now n h' x = Some (deadline now (ttl * Second))"
    "gm_get (sv_blocked sv') x = None \<or> gm_get (sv_blocked sv') x = gm_get (sv_blocked sv) x" by blast+
qed

lemma add_new_mid:
  assumes "mid_ok x now n sv h" and "canon_key x" and "add_new (ops_at ord now) n x ttl sv h = (r, sv', h')"
  shows "mid_ok x now n sv' h'" and "r = None \<Longrightarrow> ttl \<le> 9223372036 \<and> elem_at now n h' x = Some (deadline now (ttl * Second))"
    and "gm_get (sv_blocked sv') x = None \<or> gm_get (sv_blocked sv') x = gm_get (sv_blocked sv) x"
proof -
  obtain r1 h1 where ad: "nftAdd (ops_at ord now) n x ttl h = (r1, h1)" by fastforce
  note a = nftAdd_mid [OF assms(1,2) ad]
  have "mid_ok x now n sv' h' \<and> (r = None \<longrightarrow> ttl \<le> 9223372036 \<and> elem_at now n h' x = Some (deadline now (ttl * Second)))
      \<and> (gm_get (sv_blocked sv') x = None \<or> gm_get (sv_blocked sv') x = gm_get (sv_blocked sv) x)"
  proof (cases "is_overlap r1")
    case True
    then have "addOverlapping (ops_at ord now) n x ttl sv h1 = (r, sv', h')" using assms(3) ad by (simp add: add_new_def)
    from addOverlapping_mid [OF a(1) assms(2) this] show ?thesis by blast
  next
    case False
    then show ?thesis using assms(3) ad a by (simp add: add_new_def)
  qed
  then show "mid_ok x now n sv' h'" "r = None \<Longrightarrow> ttl \<le> 9223372036 \<and> elem_at now n h' x = Some (deadline now (ttl * Second))"
    "gm_get (sv_blocked sv') x = None \<or> gm_get (sv_blocked sv') x = gm_get (sv_blocked sv) x" by blast+
qed

lemma backed_commit: "backed now (deadline now (wrap64 (ttl * Second))) (Some (deadline now (ttl * Second)))" if "ttl \<le> 9223372036"
proof (cases "ttl > 0")
  case True
  then have "wrap64 (ttl * Second) = ttl * Second" using that by (intro wrap64_id) (simp_all add: Second_def)
  then show ?thesis using True by (simp add: backed_def deadline_def Second_def)
next
  case False
  then have "deadline now (ttl * Second) = None" by (simp add: deadline_def Second_def)
  then show ?thesis by (simp add: backed_def split: option.split)
qed

lemma backed_restore: "backed now dl (Some (deadline now (restore_ttl now dl * Second)))"
proof (cases dl)
  case None
  then show ?thesis by (simp add: backed_def restore_ttl_def deadline_def)
next
  case (Some t)
  have "t - Second < now + restore_ttl now dl * Second \<and> 0 < restore_ttl now dl" if "t \<ge> now + Second"
  proof -
    have r: "restore_ttl now dl = (t - now) div Second"
      using that Some by (simp add: restore_ttl_def Let_def quot_nonneg Second_def)
    have "(t - now) div Second * Second + (t - now) mod Second = t - now" by (rule div_mult_mod_eq)
    moreover have "(t - now) mod Second < Second" by (simp add: Second_def)
    moreover have "0 < (t - now) div Second" using that by (simp add: Second_def pos_imp_zdiv_pos_iff)
    ultimately show ?thesis unfolding r by linarith
  qed
  then show ?thesis using Some by (auto simp: backed_def deadline_def Second_def)
qed

lemma kill_host [simp]:
  "kh_sets (kill_after_add (ops_at ord now) ip h) = kh_sets h" "kh_faults (kill_after_add (ops_at ord now) ip h) = kh_faults h"
  by (auto simp: kill_after_add_def killSocketsForIP_def kernel_ops_def split: option.split)

lemma rollback_ok:
  assumes "mid_ok x now n sv h" and "canon_key x" and "rollback (ops_at ord now) now n x old sv h = (sv', h')"
    and "gm_get (sv_blocked sv) x = None \<or> gm_get (sv_blocked sv) x = old"
  shows "helper_ok now n sv' h'"
proof (cases old)
  case None
  then show ?thesis using assms by (auto simp: rollback_def intro: mid_helper)
next
  case (Some dl)
  obtain r h1 where ad: "nftAdd (ops_at ord now) n x (restore_ttl now dl) h = (r, h1)" by fastforce
  note a = nftAdd_mid [OF assms(1,2) ad]
  show ?thesis
  proof (cases r)
    case None
    then have e: "sv' = sv" "h' = h1" using assms(3) Some ad by (simp_all add: rollback_def)
    have "\<forall>d. gm_get (sv_blocked sv) x = Some d \<longrightarrow> backed now d (elem_at now n h1 x)"
      using a(2) [OF None] assms(4) Some backed_restore by auto
    then show ?thesis using mid_helper [OF a(1)] e by blast
  next
    case (Some e)
    then have "sv' = sv\<lparr>sv_blocked := gm_del x (sv_blocked sv)\<rparr>" "h' = h1"
      using assms(3) \<open>old = Some dl\<close> ad by (simp_all add: rollback_def)
    then show ?thesis using mid_helper [OF mid_del [OF a(1)]] by simp
  qed
qed

lemma dispatch_add_ok:
  assumes "helper_ok now n sv h" and "CHR ''%'' \<notin> set (rq_ip req)"
    and "dispatch_add (ops_at ord now) now n req sv h = (resp, sv', h')"
  shows "helper_ok now n sv' h'"
proof (cases "validateIP (rq_ip req)")
  case False
  then show ?thesis using assms by (simp add: dispatch_add_def)
next
  case True
  let ?x = "CanonicalIPKey (rq_ip req)"
  have x: "canon_key ?x" by (rule canonical_key_text [OF True assms(2)])
  note m0 = helper_mid [OF assms(1), of ?x]
  obtain r1 h1 where ad: "add_delete_old (ops_at ord now) n ?x sv h = (r1, h1)" by fastforce
  have m1: "mid_ok ?x now n sv h1" and e1: "r1 = Inl e \<Longrightarrow> helper_ok now n sv h1" for e
  proof -
    have "mid_ok ?x now n sv h1 \<and> (\<forall>e. r1 = Inl e \<longrightarrow> helper_ok now n sv h1)"
    proof (cases "gm_get (sv_blocked sv) ?x")
      case None
      then show ?thesis using ad m0 by (auto simp: add_delete_old_def)
    next
      case (Some dl)
      obtain r h2 where d: "nftDel (ops_at ord now) n ?x h = (r, h2)" by fastforce
      have h2: "h1 = h2" using ad Some d by (simp add: add_delete_old_def)
      have n: "names_ok n" "host_ok n h" using assms(1) by (auto simp: helper_ok_def)
      note dh = nftDel_host [OF n(1) x n(2) d]
      have "helper_ok now n sv h2" if "r \<noteq> None" "r \<noteq> Some ElementAbsent"
        using dh that assms(1) unfolding helper_ok_def no_ghosts_def by auto
      moreover have "\<forall>e. r1 = Inl e \<longrightarrow> r \<noteq> None \<and> r \<noteq> Some ElementAbsent"
        using ad Some d by (auto simp: add_delete_old_def split: if_splits)
      ultimately show ?thesis using h2 nftDel_mid(3) [OF m0 x d] by auto
    qed
    then show "mid_ok ?x now n sv h1" "r1 = Inl e \<Longrightarrow> helper_ok now n sv h1" by blast+
  qed
  show ?thesis
  proof (cases r1)
    case (Inl e)
    then show ?thesis using e1 assms(3) True ad by (simp add: dispatch_add_def Let_def)
  next
    case (Inr u)
    obtain r sv2 h2 where nw: "add_new (ops_at ord now) n ?x (rq_ttl req) sv h1 = (r, sv2, h2)" by (metis prod_cases3)
    note m2 = add_new_mid [OF m1 x nw]
    have run: "dispatch_add (ops_at ord now) now n req sv h =
        (if r = None \<or> r = Some CoveredByInterval then
           (resp_ok\<lparr>rs_code := (if r \<noteq> None then CodeCoveredByInterval else [])\<rparr>,
            add_commit now ?x (rq_ttl req) (r \<noteq> None) sv2, kill_after_add (ops_at ord now) ?x h2)
         else (case rollback (ops_at ord now) now n ?x (gm_get (sv_blocked sv) ?x) sv2 h2 of
             (sv3, h3) \<Rightarrow> (resp_err (the r), sv3, h3)))"
      using True ad Inr nw by (simp add: dispatch_add_def Let_def)
    show ?thesis
    proof (cases "r = None \<or> r = Some CoveredByInterval")
      case True
      then have e: "sv' = add_commit now ?x (rq_ttl req) (r \<noteq> None) sv2" "kh_sets h' = kh_sets h2"
        using assms(3) run by auto
      show ?thesis
      proof (cases "r = None")
        case r: True
        note k = m2(2) [OF r]
        have b: "backed now (deadline now (wrap64 (rq_ttl req * Second))) (elem_at now n h' ?x)"
          using backed_commit k e(2) by simp
        show ?thesis
          using m2(1) b e x r unfolding helper_ok_def mid_ok_def no_ghosts_def no_ghosts_but_def add_commit_def
          by (simp add: cache_ok_set)
      next
        case r: False
        then show ?thesis
          using m2(1) e unfolding helper_ok_def mid_ok_def no_ghosts_def no_ghosts_but_def add_commit_def
          by (simp add: cache_ok_del)
      qed
    next
      case False
      then have "rollback (ops_at ord now) now n ?x (gm_get (sv_blocked sv) ?x) sv2 h2 = (sv', h')"
        using assms(3) run by (auto split: prod.splits)
      from rollback_ok [OF m2(1) x this m2(3)] show ?thesis .
    qed
  qed
qed

lemma dispatch_del_ok:
  assumes "helper_ok now n sv h" and "CHR ''%'' \<notin> set (rq_ip req)"
    and "dispatch_del (ops_at ord now) n req sv h = (resp, sv', h')"
  shows "helper_ok now n sv' h'"
proof (cases "validateIP (rq_ip req)")
  case False
  then show ?thesis using assms by (simp add: dispatch_del_def)
next
  case True
  let ?x = "CanonicalIPKey (rq_ip req)"
  have x: "canon_key ?x" by (rule canonical_key_text [OF True assms(2)])
  note m0 = helper_mid [OF assms(1), of ?x]
  obtain r h1 where d: "nftDel (ops_at ord now) n ?x h = (r, h1)" by fastforce
  note m = nftDel_mid [OF m0 x d]
  have gone: "helper_ok now n (sv\<lparr>sv_blocked := gm_del ?x (sv_blocked sv)\<rparr>) h1"
    by (rule mid_helper [OF m(1)]) simp
  have n: "names_ok n" "host_ok n h" using assms(1) by (auto simp: helper_ok_def)
  note dh = nftDel_host [OF n(1) x n(2) d]
  have fail: "helper_ok now n sv h1" if "r \<noteq> None" "r \<noteq> Some ElementAbsent"
    using dh that assms(1) unfolding helper_ok_def no_ghosts_def by auto
  show ?thesis
    using assms(3) True d gone fail by (auto simp: dispatch_del_def Let_def split: option.splits if_splits)
qed

section \<open>Scripts that leave the blocked sets alone\<close>

definition same_sets :: "string set \<Rightarrow> ksets \<Rightarrow> ksets \<Rightarrow> bool" where
  "same_sets S k k' \<longleftrightarrow> (\<forall>st \<in> S. gm_get k' st = gm_get k st)"

lemma same_sets_refl [simp]: "same_sets S k k"
  by (simp add: same_sets_def)

lemma same_sets_trans: "same_sets S k k1 \<Longrightarrow> same_sets S k1 k2 \<Longrightarrow> same_sets S k k2"
  by (simp add: same_sets_def)

definition quiet_line :: "string set \<Rightarrow> time \<Rightarrow> string \<Rightarrow> bool" where
  "quiet_line S now l \<longleftrightarrow> CHR 0x0A \<notin> set l
     \<and> (\<forall>k k'. trim_space l \<noteq> [] \<longrightarrow> applyLine now (trim_space l) k = Inr k' \<longrightarrow> same_sets S k k')"

lemma str_split_lines: "\<forall>l \<in> set ls. CHR 0x0A \<notin> set l \<Longrightarrow> str_split (CHR 0x0A) (lines_of ls) = ls @ [[]]"
  by (induction ls) (auto simp: lines_of_def str_split_append)

lemma apply_quiet:
  "\<forall>l \<in> set ls. quiet_line S now l \<Longrightarrow> apply_lines now (ls @ [[]]) k = Inr k' \<Longrightarrow> same_sets S k k'"
proof (induction ls arbitrary: k)
  case Nil
  then show ?case by (simp add: trim_space_def)
next
  case (Cons l ls)
  show ?case
  proof (cases "trim_space l = []")
    case True
    then show ?thesis using Cons by simp
  next
    case False
    then obtain k1 where k1: "applyLine now (trim_space l) k = Inr k1" "apply_lines now (ls @ [[]]) k1 = Inr k'"
      using Cons.prems(2) by (auto simp: Let_def split: sum.splits)
    then have "same_sets S k k1" using Cons.prems(1) False by (auto simp: quiet_line_def)
    moreover have "same_sets S k1 k'" using Cons.IH [OF _ k1(2)] Cons.prems(1) by simp
    ultimately show ?thesis by (rule same_sets_trans)
  qed
qed

lemma Apply_quiet:
  assumes "\<forall>l \<in> set ls. quiet_line S now l"
  shows "same_sets S (gcLocked now k) (snd (Apply now (lines_of ls) k))"
proof -
  have "\<forall>l \<in> set ls. CHR 0x0A \<notin> set l" using assms by (simp add: quiet_line_def)
  then show ?thesis
    using apply_quiet [OF assms] by (auto simp: Apply_def Let_def str_split_lines split: sum.split)
qed

lemma host_frame:
  assumes "blocked_ok n k" and "same_sets {nm_set4 n, nm_set6 n} (gcLocked now k) k'"
  shows "blocked_ok n k' \<and> host_elem now n k' x = host_elem now n k x"
proof -
  have ok: "blocked_ok n (gcLocked now k)" using assms(1) by simp
  have eq: "gm_get k' st = gm_get (gcLocked now k) st" if "st \<in> {nm_set4 n, nm_set6 n}" for st
    using assms(2) that by (auto simp: same_sets_def)
  have "blocked_ok n k'" using ok eq unfolding blocked_ok_def by auto
  moreover have "host_elem now n k' x = host_elem now n (gcLocked now k) x"
  proof (cases "setForIP n x")
    case (Inr st)
    then have "st \<in> {nm_set4 n, nm_set6 n}" by (auto simp: setForIP_def setForIPIn_def split: option.splits)
    then show ?thesis using eq Inr by (simp add: host_elem_def Expiry_def gm_get_gc)
  qed (simp add: host_elem_def)
  ultimately show ?thesis using assms(1) by simp
qed

lemma run_quiet:
  assumes "helper_ok now n sv h" and "\<forall>l \<in> set ls. quiet_line {nm_set4 n, nm_set6 n} now l"
    and "host_run now (lines_of ls) h = (r, h')"
  shows "helper_ok now n sv h'"
proof (cases "kh_faults h \<noteq> [] \<and> hd (kh_faults h)")
  case True
  then show ?thesis using assms(1,3) by (auto simp: host_run_def helper_ok_def no_ghosts_def)
next
  case False
  then have h': "kh_sets h' = snd (Apply now (lines_of ls) (kh_sets h))"
    using assms(3) by (auto simp: host_run_def split: prod.splits)
  have "host_ok n h" using assms(1) by (simp add: helper_ok_def)
  from host_frame [OF this Apply_quiet [OF assms(2)]] show ?thesis
    using assms(1) unfolding helper_ok_def no_ghosts_def h' by simp
qed

text \<open>Lines that name another set.\<close>

lemma parseElements_name:
  assumes "set_word t" and "set_word st" and "parseElements (''inet '' @ t @ '' '' @ st @ '' {'' @ body) = Inr (name, els)"
  shows "name = st"
proof -
  let ?head = "''inet '' @ t @ '' '' @ st @ '' ''"
  have nb: "CHR ''{'' \<notin> set ?head" using assms by (auto simp: set_word_def)
  have cut: "str_cut (CHR ''{'') (''inet '' @ t @ '' '' @ st @ '' {'' @ body) = Some (?head, body)"
    using str_cut_append [OF nb, of body] by simp
  have head: "str_fields ?head = [''inet'', t, st]"
  proof -
    have w1: "str_fields ?head = ''inet'' # str_fields ('' '' @ t @ '' '' @ st @ '' '')"
      using str_fields_word [of "''inet''" "'' '' @ t @ '' '' @ st @ '' ''"] by (simp add: is_space_def)
    have w2: "str_fields (t @ '' '' @ st @ '' '') = t # str_fields ('' '' @ st @ '' '')"
      using assms(1) by (intro str_fields_word) (auto simp: set_word_def)
    have w3: "str_fields (st @ '' '') = st # str_fields '' ''"
      using assms(2) by (intro str_fields_word) (auto simp: set_word_def)
    show ?thesis using w1 w2 w3 by (simp add: str_fields_space)
  qed
  show ?thesis using assms(3) unfolding parseElements_def cut option.case prod.case head by (auto split: sum.splits)
qed

definition elem_line :: "string \<Rightarrow> string \<Rightarrow> string \<Rightarrow> string \<Rightarrow> string" where
  "elem_line verb t st body = verb @ '' element inet '' @ t @ '' '' @ st @ '' { '' @ body @ '' }''"

lemma element_script_lines: "nm_table n = ''inet '' @ t \<Longrightarrow> element_script verb n st body = lines_of [elem_line verb t st body]"
  by (simp add: element_script_def elem_line_def lines_of_def)

lemma word_no_newline: "set_word s \<Longrightarrow> CHR 0x0A \<notin> set s"
  unfolding set_word_def using not_space(8) by blast

lemma elem_line_quiet:
  assumes "set_word t" and "set_word st" and "st \<notin> S" and "CHR 0x0A \<notin> set body" and "verb = ''add'' \<or> verb = ''delete''"
  shows "quiet_line S now (elem_line verb t st body)"
proof -
  let ?l = "elem_line verb t st body"
  have nl: "CHR 0x0A \<notin> set ?l"
    using word_no_newline [OF assms(1)] word_no_newline [OF assms(2)] assms(4,5) by (auto simp: elem_line_def)
  have tr: "trim_space ?l = ?l" using assms(5) by (intro trim_space_id) (auto simp: elem_line_def)
  have "same_sets S k k'" if run: "applyLine now ?l k = Inr k'" for k k'
  proof -
    let ?s = "''inet '' @ t @ '' '' @ st @ '' {'' @ ('' '' @ body @ '' }'')"
    have l: "?l = verb @ '' element '' @ ?s" by (simp add: elem_line_def)
    note name = parseElements_name [OF assms(1,2), of "'' '' @ body @ '' }''"]
    show ?thesis
    proof (cases "verb = ''add''")
      case True
      then have "applyLine now (''add element '' @ ?s) k = Inr k'" using run l by simp
      then show ?thesis using assms(3) name unfolding applyLine_add
        by (auto simp: same_sets_def split: sum.splits option.splits)
    next
      case False
      then have "applyLine now (''delete element '' @ ?s) k = Inr k'" using run l assms(5) by simp
      then show ?thesis using assms(3) name unfolding applyLine_delete
        by (auto simp: same_sets_def split: sum.splits option.splits)
    qed
  qed
  then show ?thesis using nl tr by (simp add: quiet_line_def)
qed

definition flush_line :: "string \<Rightarrow> string \<Rightarrow> string" where
  "flush_line t st = ''flush set inet '' @ t @ '' '' @ st"

lemma flush_line_apply:
  assumes "set_word t" and "set_word st"
  shows "trim_space (flush_line t st) = flush_line t st" and "CHR 0x0A \<notin> set (flush_line t st)" and
    "applyLine now (flush_line t st) k = (case gm_get k st of None \<Rightarrow> Inr k | Some s \<Rightarrow> Inr (gm_set st (s\<lparr>ks_elems := []\<rparr>) k))"
proof -
  have ns: "\<not> is_space (last st)" "st \<noteq> []" using assms(2) by (auto simp: set_word_def)
  then show "trim_space (flush_line t st) = flush_line t st"
    by (intro trim_space_id) (auto simp: flush_line_def is_space_def)
  show "CHR 0x0A \<notin> set (flush_line t st)"
    using word_no_newline [OF assms(1)] word_no_newline [OF assms(2)] by (auto simp: flush_line_def)
  have "str_fields (flush_line t st) = [''flush'', ''set'', ''inet'', t, st]"
  proof -
    have w1: "str_fields (flush_line t st) = ''flush'' # str_fields (''set'' @ '' inet '' @ t @ '' '' @ st)"
      using str_fields_word [of "''flush''" "'' set inet '' @ t @ '' '' @ st"]
      by (simp add: flush_line_def str_fields_space is_space_def)
    have w2: "str_fields (''set'' @ '' inet '' @ t @ '' '' @ st) = ''set'' # str_fields (''inet'' @ '' '' @ t @ '' '' @ st)"
      using str_fields_word [of "''set''" "'' inet '' @ t @ '' '' @ st"] by (simp add: str_fields_space is_space_def)
    have w3: "str_fields (''inet'' @ '' '' @ t @ '' '' @ st) = ''inet'' # str_fields (t @ '' '' @ st)"
      using str_fields_word [of "''inet''" "'' '' @ t @ '' '' @ st"] by (simp add: str_fields_space is_space_def)
    have w4: "str_fields (t @ '' '' @ st) = t # str_fields st"
      using str_fields_word [of t "'' '' @ st"] assms(1) by (simp add: set_word_def str_fields_space)
    have w5: "str_fields st = [st]" using str_fields_word [of st "[]"] assms(2) by (simp add: set_word_def)
    show ?thesis unfolding w1 w2 w3 w4 w5 ..
  qed
  note fields = this
  have pa: "\<not> str_has_prefix (flush_line t st) ''add set ''" "\<not> str_has_prefix (flush_line t st) ''delete set ''"
    "str_has_prefix (flush_line t st) ''flush set ''"
    by (simp_all add: flush_line_def str_has_prefix_def)
  show "applyLine now (flush_line t st) k = (case gm_get k st of None \<Rightarrow> Inr k | Some s \<Rightarrow> Inr (gm_set st (s\<lparr>ks_elems := []\<rparr>) k))"
    unfolding applyLine_def fields Let_def by (simp add: pa split: option.split)
qed

lemma flush_line_quiet: "set_word t \<Longrightarrow> set_word st \<Longrightarrow> st \<notin> S \<Longrightarrow> quiet_line S now (flush_line t st)"
  using flush_line_apply [of t st] by (auto simp: quiet_line_def same_sets_def split: option.splits)

lemma flush_script_lines:
  "nm_table n = ''inet '' @ t \<Longrightarrow> flush_script n s4 s6 = lines_of [flush_line t s4, flush_line t s6]"
  by (simp add: flush_script_def flush_line_def)

text \<open>The sets of the allowlist and of the feeds are other sets than the blocked ones.\<close>

lemma other_sets:
  assumes "names_ok n" and "st \<in> {nm_allow4 n, nm_allow6 n, nm_feeds4 n, nm_feeds6 n}"
  shows "st \<notin> {nm_set4 n, nm_set6 n}" and "set_word st"
proof -
  obtain t s where ts: "is_identifier s" "s \<notin> {''allowed'', ''allowed6'', ''blocked_feeds'', ''blocked_feeds6''}"
    "n = \<lparr>nm_table = ''inet '' @ t, nm_set4 = s, nm_set6 = s @ ''6'', nm_allow4 = ''allowed'', nm_allow6 = ''allowed6'',
        nm_feeds4 = ''blocked_feeds'', nm_feeds6 = ''blocked_feeds6''\<rparr>"
    using assms(1) by (auto simp: names_ok_def)
  have "s @ ''6'' \<noteq> ''allowed''" "s @ ''6'' \<noteq> ''blocked_feeds''"
    using arg_cong [of "s @ ''6''" "''allowed''" last] arg_cong [of "s @ ''6''" "''blocked_feeds''" last] by auto
  moreover have "s @ ''6'' = ''allowed6'' \<longleftrightarrow> s = ''allowed''" "s @ ''6'' = ''blocked_feeds6'' \<longleftrightarrow> s = ''blocked_feeds''"
    using append_same_eq [of s "''6''" "''allowed''"] append_same_eq [of s "''6''" "''blocked_feeds''"] by simp_all
  ultimately show "st \<notin> {nm_set4 n, nm_set6 n}" using assms(2) ts(2) unfolding ts(3) by auto
  show "set_word st" using assms(2) unfolding ts(3) by (auto simp: set_word_def is_space_def)
qed

end
