(* ===== verification/HelperRun.thy ===== *)
theory HelperRun
  imports HelperSteps
begin

text \<open>
  The steps of the helper.  \<open>Init\<close> on a host without a table leaves six empty sets, and every request
  with settled names and zone-free addresses keeps \<open>helper_ok\<close>, whichever \<open>nft\<close> processes fail
  (\<open>dispatch_ok\<close>).  The runs built from these steps are in theory \<open>HelperRestart\<close>.
\<close>

section \<open>The first start\<close>

definition fresh_sets :: ksets where
  "fresh_sets = map (\<lambda>(st, fam, m). (st, \<lparr>ks_family = fam, ks_auto_merge = m, ks_elems = []\<rparr>))
     [(''blocked'', ''ipv4_addr'', False), (''blocked6'', ''ipv6_addr'', False), (''allowed'', ''ipv4_addr'', True),
      (''allowed6'', ''ipv6_addr'', True), (''blocked_feeds'', ''ipv4_addr'', True), (''blocked_feeds6'', ''ipv6_addr'', True)]"

definition decl_lines :: "nft_names \<Rightarrow> string list" where
  "decl_lines n =
     [''add table '' @ nm_table n, blockedSetDecl n (nm_set4 n) ''ipv4_addr'', blockedSetDecl n (nm_set6 n) ''ipv6_addr'',
      ''add set '' @ nm_table n @ '' '' @ nm_allow4 n @ '' { type ipv4_addr ; flags interval ; auto-merge ; }'',
      ''add set '' @ nm_table n @ '' '' @ nm_allow6 n @ '' { type ipv6_addr ; flags interval ; auto-merge ; }'',
      ''add set '' @ nm_table n @ '' '' @ nm_feeds4 n @ '' { type ipv4_addr ; flags interval,timeout ; auto-merge ; }'',
      ''add set '' @ nm_table n @ '' '' @ nm_feeds6 n @ '' { type ipv6_addr ; flags interval,timeout ; auto-merge ; }'']"

lemma decl_lines_apply: "apply_lines now (decl_lines default_names) [] = Inr fresh_sets"
  by code_simp

definition chain_part :: "nft_names \<Rightarrow> string list" where
  "chain_part n =
     (let allow = both (nm_allow4 n) (nm_allow6 n) ''accept'';
          blocked = both (nm_set4 n) (nm_set6 n) ''drop'';
          feeds = both (nm_feeds4 n) (nm_feeds6 n) ''drop''
      in chain_lines n ''prerouting'' ''raw''
             (allow @ both (nm_set4 n) (nm_set6 n) ''notrack'' @ blocked @ both (nm_feeds4 n) (nm_feeds6 n) ''notrack'' @ feeds)
         @ chain_lines n ''input'' ''filter'' (allow @ blocked @ feeds)
         @ chain_lines n ''forward'' ''filter'' (allow @ blocked @ feeds))"

lemma init_script_parts: "initTableScript n = lines_of (decl_lines n @ chain_part n)"
  by (simp add: initTableScript_def decl_lines_def chain_part_def Let_def)

lemma apply_lines_append:
  "apply_lines now (xs @ ys) k = (case apply_lines now xs k of Inl e \<Rightarrow> Inl e | Inr k' \<Rightarrow> apply_lines now ys k')"
  by (induction xs arbitrary: k) (auto simp: Let_def split: sum.split)

text \<open>Lines about chains and rules do not touch the sets.\<close>

definition chain_line :: "string \<Rightarrow> bool" where
  "chain_line l \<longleftrightarrow> (\<exists>s. l = ''add chain '' @ s \<or> l = ''flush chain '' @ s \<or> l = ''add rule '' @ s) \<and> CHR 0x0A \<notin> set l
     \<and> \<not> is_space (last l)"

lemma chain_line_apply: "chain_line l \<Longrightarrow> applyLine now (trim_space l) k = Inr k"
proof -
  assume l: "chain_line l"
  have "\<not> is_space (CHR ''f'')" by (simp add: is_space_def)
  with l have "trim_space l = l" by (intro trim_space_id) (auto simp: chain_line_def)
  then show ?thesis using l unfolding chain_line_def applyLine_def by (elim conjE exE disjE) (simp_all add: str_has_prefix_def)
qed

lemma chain_lines_apply: "\<forall>l \<in> set ls. chain_line l \<Longrightarrow> apply_lines now (ls @ [[]]) k = Inr k"
proof (induction ls)
  case (Cons l ls)
  then show ?case using chain_line_apply [of l now k] by (simp add: Let_def)
qed simp

lemma chain_part_default: "list_all chain_line (chain_part default_names)"
proof -
  have "\<forall>l \<in> set (chain_part default_names). \<not> is_space (last l) \<and> CHR 0x0A \<notin> set l"
    by code_simp
  moreover have "\<forall>l \<in> set (chain_part default_names). \<exists>s. l = ''add chain '' @ s \<or> l = ''flush chain '' @ s \<or> l = ''add rule '' @ s"
    by (auto simp: chain_part_def Let_def chain_lines_def rule_line_def both_def)
  ultimately show ?thesis by (simp add: chain_line_def list_all_iff)
qed

lemma decl_no_newline: "\<forall>l \<in> set (decl_lines default_names). CHR 0x0A \<notin> set l"
  by code_simp

lemma init_script_fresh: "Apply now (initTableScript default_names) [] = (None, fresh_sets)"
proof -
  let ?ls = "decl_lines default_names @ chain_part default_names"
  have nl: "\<forall>l \<in> set ?ls. CHR 0x0A \<notin> set l"
    using decl_no_newline chain_part_default by (auto simp: list_all_iff chain_line_def)
  have "apply_lines now (?ls @ [[]]) [] = Inr fresh_sets"
    using chain_lines_apply [of "chain_part default_names" now fresh_sets] chain_part_default
    by (simp add: apply_lines_append decl_lines_apply list_all_iff)
  moreover have "gcLocked now [] = []" by (simp add: gcLocked_def)
  ultimately show ?thesis by (simp add: Apply_def Let_def init_script_parts str_split_lines [OF nl] del: append_assoc)
qed

definition fresh_host :: "bool list \<Rightarrow> khost" where
  "fresh_host faults = \<lparr>kh_faults = faults, kh_sets = [], kh_killed = []\<rparr>"

lemma gc_fresh [simp]: "gcLocked now fresh_sets = fresh_sets"
  by (simp add: gcLocked_def fresh_sets_def gc_set_def)

lemma list_fresh:
  assumes "st \<in> {''blocked'', ''blocked6''}"
  shows "\<exists>out. ListSetOutput order now ''inet'' ''ezyshield'' st fresh_sets = Some out \<and> parseSetElements out = []
     \<and> \<not> list_ex (\<lambda>line. trim_space line = ''auto-merge'') (str_split (CHR 0x0A) out)"
proof -
  let ?s = "\<lambda>fam. \<lparr>ks_family = fam, ks_auto_merge = False, ks_elems = []\<rparr>"
  let ?out = "\<lambda>fam. ''table inet ezyshield {\<newline>'' @ tabs 1 @ ''set '' @ st @ '' {\<newline>'' @ tabs 2 @ ''type ''
          @ fam @ ''\<newline>'' @ tabs 2 @ ''flags interval,timeout\<newline>'' @ tabs 1 @ ''}\<newline>}\<newline>''"
  have g: "st = ''blocked'' \<and> gm_get fresh_sets st = Some (?s ''ipv4_addr'') \<or> st = ''blocked6'' \<and> gm_get fresh_sets st = Some (?s ''ipv6_addr'')"
    using assms by (auto simp: fresh_sets_def)
  have a: "parseSetElements (''table inet ezyshield {\<newline>'' @ tabs 1 @ ''set '' @ ''blocked'' @ '' {\<newline>'' @ tabs 2 @ ''type ''
          @ ''ipv4_addr'' @ ''\<newline>'' @ tabs 2 @ ''flags interval,timeout\<newline>'' @ tabs 1 @ ''}\<newline>}\<newline>'') = []"
    "parseSetElements (''table inet ezyshield {\<newline>'' @ tabs 1 @ ''set '' @ ''blocked6'' @ '' {\<newline>'' @ tabs 2 @ ''type ''
          @ ''ipv6_addr'' @ ''\<newline>'' @ tabs 2 @ ''flags interval,timeout\<newline>'' @ tabs 1 @ ''}\<newline>}\<newline>'') = []"
    by code_simp+
  have b: "\<not> list_ex (\<lambda>line. trim_space line = ''auto-merge'') (str_split (CHR 0x0A)
      (''table inet ezyshield {\<newline>'' @ tabs 1 @ ''set '' @ ''blocked'' @ '' {\<newline>'' @ tabs 2 @ ''type ''
          @ ''ipv4_addr'' @ ''\<newline>'' @ tabs 2 @ ''flags interval,timeout\<newline>'' @ tabs 1 @ ''}\<newline>}\<newline>''))"
    "\<not> list_ex (\<lambda>line. trim_space line = ''auto-merge'') (str_split (CHR 0x0A)
      (''table inet ezyshield {\<newline>'' @ tabs 1 @ ''set '' @ ''blocked6'' @ '' {\<newline>'' @ tabs 2 @ ''type ''
          @ ''ipv6_addr'' @ ''\<newline>'' @ tabs 2 @ ''flags interval,timeout\<newline>'' @ tabs 1 @ ''}\<newline>}\<newline>''))"
    by code_simp+
  show ?thesis using g a b by (auto simp: ListSetOutput_def)
qed


abbreviation pinned_ok :: "time \<Rightarrow> server \<Rightarrow> khost \<Rightarrow> bool" where
  "pinned_ok now sv h \<equiv> helper_ok now (sv_names sv) (sv\<lparr>sv_pinned := True\<rparr>) h"

lemma fresh_ok: "kh_sets h = fresh_sets \<Longrightarrow> pinned_ok now NewServer h"
proof -
  assume h: "kh_sets h = fresh_sets"
  have "set_ok default_names st \<lparr>ks_family = fam, ks_auto_merge = False, ks_elems = []\<rparr>"
    if "fam \<in> {''ipv4_addr'', ''ipv6_addr''}" for st fam
    using that by (simp add: set_ok_def)
  then have "blocked_ok default_names fresh_sets"
    by (auto simp: blocked_ok_def default_names_def fresh_sets_def)
  then show ?thesis
    using names_ok_default h by (simp add: helper_ok_def NewServer_def cache_ok_def no_ghosts_def)
qed

lemma Init_fresh:
  shows "Init (kernel_ops ord now) now NewServer (fresh_host faults) =
    (if faults \<noteq> [] \<and> hd faults then (Some (NftError msg_exec), NewServer, fresh_host (tl faults))
     else (None, NewServer, \<lparr>kh_faults = tl faults, kh_sets = fresh_sets, kh_killed = []\<rparr>))"
proof -
  let ?ops = "kernel_ops ord now" and ?h = "\<lparr>kh_faults = tl faults, kh_sets = fresh_sets, kh_killed = []\<rparr>"
  have tw: "table_words default_names = (''inet'', ''ezyshield'')" by code_simp
  have names: "nm_set4 default_names = ''blocked''" "nm_set6 default_names = ''blocked6''" by (simp_all add: default_names_def)
  obtain o4 where o4: "ListSetOutput ord now ''inet'' ''ezyshield'' ''blocked'' fresh_sets = Some o4" "parseSetElements o4 = []"
      "\<not> list_ex (\<lambda>line. trim_space line = ''auto-merge'') (str_split (CHR 0x0A) o4)"
    using list_fresh [of "''blocked''" ord now] by auto
  obtain o6 where o6: "ListSetOutput ord now ''inet'' ''ezyshield'' ''blocked6'' fresh_sets = Some o6" "parseSetElements o6 = []"
      "\<not> list_ex (\<lambda>line. trim_space line = ''auto-merge'') (str_split (CHR 0x0A) o6)"
    using list_fresh [of "''blocked6''" ord now] by auto
  have "setHasAutoMerge ?ops default_names (nm_set4 default_names) ?h = Inr False"
    "setHasAutoMerge ?ops default_names (nm_set6 default_names) ?h = Inr False"
    using o4 o6 unfolding setHasAutoMerge_def tw names kernel_ops_def by simp_all
  then have m: "migrateAutoMerge ?ops default_names ?h = (None, ?h)"
    by (simp add: migrateAutoMerge_def migrate_set_def)
  have l: "nftList ?ops default_names ?h = Inr []"
    using o4 o6 unfolding nftList_def listSet_def tw names kernel_ops_def by simp
  have run: "nx_run ?ops (initTableScript default_names) (fresh_host faults) =
      (if faults \<noteq> [] \<and> hd faults then (Some msg_exec, fresh_host (tl faults)) else (None, ?h))"
    using init_script_fresh by (simp add: kernel_ops_def host_run_def fresh_host_def)
  have n: "sv_names NewServer = default_names" "sv_blocked NewServer = []" "NewServer\<lparr>sv_blocked := []\<rparr> = NewServer"
    by (simp_all add: NewServer_def)
  show ?thesis
    by (cases "faults \<noteq> [] \<and> hd faults")
      (simp_all only: Init_def initTable_def n run run_err_def m l load_blocked_def if_True if_False simp_thms prod.case option.case
        sum.case option.map foldl_Nil)
qed

section \<open>The other verbs\<close>

lemma names_ok_table: "names_ok n \<Longrightarrow> \<exists>t. nm_table n = ''inet '' @ t \<and> set_word t"
  by (rule names_ok_words(1))

lemma element_run:
  assumes "helper_ok now n sv h" and "st \<in> {nm_allow4 n, nm_allow6 n, nm_feeds4 n, nm_feeds6 n}" and "CHR 0x0A \<notin> set body"
    and "verb = ''add'' \<or> verb = ''delete''" and "host_run now (element_script verb n st body) h = (r, h')"
  shows "helper_ok now n sv h'"
proof -
  have n: "names_ok n" using assms(1) by (simp add: helper_ok_def)
  obtain t where t: "nm_table n = ''inet '' @ t" "set_word t" using names_ok_table [OF n] by blast
  note o = other_sets [OF n assms(2)]
  have "quiet_line {nm_set4 n, nm_set6 n} now (elem_line verb t st body)"
    by (rule elem_line_quiet [OF t(2) o(2,1) assms(3,4)])
  then show ?thesis
    using run_quiet [OF assms(1), of "[elem_line verb t st body]"] assms(5) element_script_lines [OF t(1)] by simp
qed

lemma flush_run:
  assumes "helper_ok now n sv h" and "s4 \<in> {nm_allow4 n, nm_allow6 n, nm_feeds4 n, nm_feeds6 n}"
    and "s6 \<in> {nm_allow4 n, nm_allow6 n, nm_feeds4 n, nm_feeds6 n}" and "nm_table n = ''inet '' @ t" and "set_word t"
  shows "quiet_line {nm_set4 n, nm_set6 n} now (flush_line t s4)" and "quiet_line {nm_set4 n, nm_set6 n} now (flush_line t s6)"
    and "flush_script n s4 s6 = lines_of [flush_line t s4, flush_line t s6]"
proof -
  have n: "names_ok n" using assms(1) by (simp add: helper_ok_def)
  show "quiet_line {nm_set4 n, nm_set6 n} now (flush_line t s4)"
    by (rule flush_line_quiet [OF assms(5) other_sets(2,1) [OF n assms(2)]])
  show "quiet_line {nm_set4 n, nm_set6 n} now (flush_line t s6)"
    by (rule flush_line_quiet [OF assms(5) other_sets(2,1) [OF n assms(3)]])
  show "flush_script n s4 s6 = lines_of [flush_line t s4, flush_line t s6]" using flush_script_lines assms(4) .
qed

lemma str_join_no_newline: "CHR 0x0A \<notin> set sep \<Longrightarrow> \<forall>e \<in> set es. CHR 0x0A \<notin> set e \<Longrightarrow> CHR 0x0A \<notin> set (str_join sep es)"
proof (induction sep es rule: str_join.induct)
  case (3 sep p q es)
  then have "CHR 0x0A \<notin> set (str_join sep (q # es))" "CHR 0x0A \<notin> set p" by simp_all
  then show ?case using "3.prems"(1) by (simp only: str_join.simps set_append Un_iff) blast
qed simp_all

lemma lines_of_append: "lines_of xs @ lines_of ys = lines_of (xs @ ys)"
  by (simp add: lines_of_def)

lemma write_chunks_quiet:
  assumes "nm_table n = ''inet '' @ t" and "set_word t" and "set_word st" and "st \<notin> S" and "\<forall>e \<in> set es. CHR 0x0A \<notin> set e"
  shows "\<exists>ls. write_chunks n st es = lines_of ls \<and> (\<forall>l \<in> set ls. quiet_line S now l)"
  using assms
proof (induction n st es rule: write_chunks.induct)
  case (1 n st es)
  show ?case
  proof (cases "es = []")
    case True
    then show ?thesis by (intro exI [of _ "[]"]) (simp add: write_chunks.simps lines_of_def)
  next
    case False
    have "\<forall>e \<in> set (drop 512 es). CHR 0x0A \<notin> set e" "\<forall>e \<in> set (take 512 es). CHR 0x0A \<notin> set e"
      using "1.prems"(5) set_drop_subset [of 512 es] set_take_subset [of 512 es] by blast+
    then obtain ls where ls: "write_chunks n st (drop 512 es) = lines_of ls" "\<forall>l \<in> set ls. quiet_line S now l"
      and nl: "CHR 0x0A \<notin> set (str_join '', '' (take 512 es))"
      using "1.IH" [OF False "1.prems"(1-4)] str_join_no_newline [of "'', ''" "take 512 es"] by auto
    let ?l = "elem_line ''add'' t st (str_join '', '' (take 512 es))"
    have "quiet_line S now ?l" by (rule elem_line_quiet [OF "1.prems"(2-4) nl]) simp
    moreover have "write_chunks n st es = lines_of (?l # ls)"
      using False ls(1) element_script_lines [OF "1.prems"(1), of "''add''" st] lines_of_append [of "[?l]" ls]
      by (subst write_chunks.simps) simp
    ultimately show ?thesis using ls(2) by (intro exI [of _ "?l # ls"]) simp
  qed
qed

lemma valid_no_newline:
  assumes "validateIP s" and "CHR ''%'' \<notin> set s"
  shows "CHR 0x0A \<notin> set s"
proof -
  have "\<forall>c \<in> set s. is_hex c \<or> c \<in> {CHR '':'', CHR ''.'', CHR ''/''}"
    using assms parse_addr_chars(1) parse_prefix_chars(1) unfolding validateIP_def by blast
  moreover have "\<not> is_hex (CHR 0x0A)" by (simp add: is_hex_def is_digit_def)
  ultimately show ?thesis by auto
qed

lemma int_str_no_newline: "CHR 0x0A \<notin> set (int_str i)"
proof -
  have "\<forall>c \<in> set (nat_str m). is_hex c" for m by (rule nat_str_hex)
  moreover have "\<not> is_hex (CHR 0x0A)" by (simp add: is_hex_def is_digit_def)
  ultimately show ?thesis by (auto simp: int_str_def)
qed

lemma parse_nothing: "parse_addr [] = None" "parse_prefix [] = None"
  by (simp_all add: parse_addr_def parse_prefix_def split_last_def)

lemma feed_entries_no_newline:
  assumes "feed_entries es = Inr (v4, v6)" and "\<forall>e \<in> set es. CHR ''%'' \<notin> set (fe_ip e)"
  shows "\<forall>e \<in> set v4 \<union> set v6. CHR 0x0A \<notin> set e"
  using assms
proof (induction es arbitrary: v4 v6)
  case (Cons e es)
  obtain st w4 w6 where c: "setForIPIn (fe_ip e) ''4'' ''6'' = Inr st" "feed_entries es = Inr (w4, w6)"
    using Cons.prems(1) by (auto split: sum.splits)
  have v: "validateIP (fe_ip e)"
    by (cases "parse_addr (fe_ip e)"; cases "parse_prefix (fe_ip e)"; cases "fe_ip e = []")
      (use c(1) parse_nothing in \<open>auto simp: validateIP_def setForIPIn_def\<close>)
  have "CHR 0x0A \<notin> set (fe_ip e @ '' timeout '' @ int_str (fe_ttl e) @ ''s'')"
    using valid_no_newline [OF v] Cons.prems(2) int_str_no_newline by auto
  then show ?case using Cons.IH [OF c(2)] Cons.prems c by (auto simp: Let_def split: if_splits)
qed simp


lemma feeds_sync_ok:
  assumes "helper_ok now n sv h" and "\<forall>e \<in> set es. CHR ''%'' \<notin> set (fe_ip e)"
    and "nftFeedsSync (kernel_ops ord now) n es h = (r, h')"
  shows "helper_ok now n sv h'"
proof (cases "feed_entries es")
  case (Inl e)
  then show ?thesis using assms by (simp add: nftFeedsSync_def)
next
  case (Inr v)
  obtain v4 v6 where v: "v = (v4, v6)" by fastforce
  have n: "names_ok n" using assms(1) by (simp add: helper_ok_def)
  obtain t where t: "nm_table n = ''inet '' @ t" "set_word t" using names_ok_table [OF n] by blast
  let ?S = "{nm_set4 n, nm_set6 n}"
  have nl: "\<forall>e \<in> set v4. CHR 0x0A \<notin> set e" "\<forall>e \<in> set v6. CHR 0x0A \<notin> set e"
    using feed_entries_no_newline [of es v4 v6] Inr v assms(2) by auto
  have w4: "set_word (nm_feeds4 n)" "nm_feeds4 n \<notin> ?S" and w6: "set_word (nm_feeds6 n)" "nm_feeds6 n \<notin> ?S"
    using other_sets [OF n, of "nm_feeds4 n"] other_sets [OF n, of "nm_feeds6 n"] by auto
  obtain l4 where l4: "write_chunks n (nm_feeds4 n) v4 = lines_of l4" "\<forall>l \<in> set l4. quiet_line ?S now l"
    using write_chunks_quiet [OF t w4 nl(1)] by blast
  obtain l6 where l6: "write_chunks n (nm_feeds6 n) v6 = lines_of l6" "\<forall>l \<in> set l6. quiet_line ?S now l"
    using write_chunks_quiet [OF t w6 nl(2)] by blast
  note f = flush_run [OF assms(1), of "nm_feeds4 n" "nm_feeds6 n" t]
  let ?ls = "[flush_line t (nm_feeds4 n), flush_line t (nm_feeds6 n)] @ l4 @ l6"
  have q: "\<forall>l \<in> set ?ls. quiet_line ?S now l" using f t l4(2) l6(2) by auto
  obtain r1 h1 where run: "host_run now (lines_of ?ls) h = (r1, h1)" by fastforce
  have "flush_script n (nm_feeds4 n) (nm_feeds6 n) @ lines_of l4 @ lines_of l6 = lines_of ?ls"
    using f(3) t by (simp add: lines_of_append)
  then have "h' = h1" using assms(3) Inr v l4(1) l6(1) run by (simp add: nftFeedsSync_def kernel_ops_def run_err_def)
  then show ?thesis using run_quiet [OF assms(1) q run] by simp
qed

lemma allow_key_no_newline: "validateIP s \<Longrightarrow> CHR ''%'' \<notin> set s \<Longrightarrow> CHR 0x0A \<notin> set (CanonicalIPKey s)"
  using canon_key_text [OF canonical_key_text] not_space(8) unfolding key_text_def by blast

lemma allow_elem_ok:
  assumes "helper_ok now n sv h" and "validateIP s" and "CHR ''%'' \<notin> set s"
  shows "nftAddAllow (kernel_ops ord now) n (CanonicalIPKey s) h = (r, h') \<Longrightarrow> helper_ok now n sv h'"
    and "nftDelAllow (kernel_ops ord now) n (CanonicalIPKey s) h = (r, h') \<Longrightarrow> helper_ok now n sv h'"
proof -
  let ?x = "CanonicalIPKey s"
  note nl = allow_key_no_newline [OF assms(2,3)]
  have st: "st \<in> {nm_allow4 n, nm_allow6 n, nm_feeds4 n, nm_feeds6 n}" if "allowSetForIP n ?x = Inr st" for st
    using that by (auto simp: allowSetForIP_def setForIPIn_def split: option.splits if_splits)
  show "helper_ok now n sv h'" if "nftAddAllow (kernel_ops ord now) n ?x h = (r, h')"
    using that element_run [OF assms(1) st nl, of _ "''add''"] assms(1)
    by (auto simp: nftAddAllow_def kernel_ops_def run_err_def split: sum.splits prod.splits)
  show "helper_ok now n sv h'" if "nftDelAllow (kernel_ops ord now) n ?x h = (r, h')"
    using that element_run [OF assms(1) st nl, of _ "''delete''"] assms(1)
    by (auto simp: nftDelAllow_def kernel_ops_def del_err_def split: sum.splits prod.splits option.splits)
qed

lemma flush_allow_ok:
  assumes "helper_ok now n sv h" and "nftFlushAllow (kernel_ops ord now) n h = (r, h')"
  shows "helper_ok now n sv h'"
proof -
  have n: "names_ok n" using assms(1) by (simp add: helper_ok_def)
  obtain t where t: "nm_table n = ''inet '' @ t" "set_word t" using names_ok_table [OF n] by blast
  note f = flush_run [OF assms(1) _ _ t, of "nm_allow4 n" "nm_allow6 n"]
  obtain r1 where "host_run now (lines_of [flush_line t (nm_allow4 n), flush_line t (nm_allow6 n)]) h = (r1, h')"
    using assms(2) f(3) by (auto simp: nftFlushAllow_def kernel_ops_def run_err_def split: prod.splits)
  then show ?thesis using run_quiet [OF assms(1), of "[flush_line t (nm_allow4 n), flush_line t (nm_allow6 n)]"] f by simp
qed

text \<open>The flush of the bans: when it succeeds the cache is emptied with the sets.\<close>

lemma flush_ban_ok:
  assumes "helper_ok now n sv h" and "nftFlush (kernel_ops ord now) n h = (r, h')"
  shows "r \<noteq> None \<Longrightarrow> helper_ok now n sv h'" and "r = None \<Longrightarrow> helper_ok now n (sv\<lparr>sv_blocked := []\<rparr>) h'"
proof -
  have n: "names_ok n" "host_ok n h" using assms(1) by (auto simp: helper_ok_def)
  obtain t where t: "nm_table n = ''inet '' @ t" "set_word t" using names_ok_table [OF n(1)] by blast
  let ?l4 = "flush_line t (nm_set4 n)" and ?l6 = "flush_line t (nm_set6 n)"
  note f4 = flush_line_apply [OF t(2) names_ok_words(2) [OF n(1)]] and f6 = flush_line_apply [OF t(2) names_ok_words(3) [OF n(1)]]
  have ne: "?l4 \<noteq> []" "?l6 \<noteq> []" by (simp_all add: flush_line_def)
  let ?k = "gcLocked now (kh_sets h)"
  have ok: "blocked_ok n ?k" using n(2) by simp
  obtain s4 s6 where s: "gm_get ?k (nm_set4 n) = Some s4" "gm_get ?k (nm_set6 n) = Some s6" "set_ok n (nm_set4 n) s4" "set_ok n (nm_set6 n) s6"
    using ok unfolding blocked_ok_def by blast
  note neq = set4_neq_set6 [OF n(1)]
  let ?k2 = "gm_set (nm_set6 n) (s6\<lparr>ks_elems := []\<rparr>) (gm_set (nm_set4 n) (s4\<lparr>ks_elems := []\<rparr>) ?k)"
  have ap: "Apply now (lines_of [?l4, ?l6]) (kh_sets h) = (None, ?k2)"
  proof -
    have "str_split (CHR 0x0A) (lines_of [?l4, ?l6]) = [?l4, ?l6] @ [[]]" using f4(2) f6(2) by (intro str_split_lines) auto
    then show ?thesis using f4(1,3) f6(1,3) ne s neq by (simp add: Apply_def Let_def)
  qed
  have ok2: "blocked_ok n ?k2"
    using s(3,4) neq by (auto simp: blocked_ok_def set_ok_def)
  have scr: "flush_script n (nm_set4 n) (nm_set6 n) = lines_of [?l4, ?l6]" using flush_script_lines t(1) .
  show "r \<noteq> None \<Longrightarrow> helper_ok now n sv h'"
    using assms ap scr unfolding helper_ok_def no_ghosts_def
    by (auto simp: nftFlush_def kernel_ops_def run_err_def host_run_def split: if_splits prod.splits)
  show "r = None \<Longrightarrow> helper_ok now n (sv\<lparr>sv_blocked := []\<rparr>) h'"
    using assms ap scr ok2 unfolding helper_ok_def no_ghosts_def cache_ok_def
    by (auto simp: nftFlush_def kernel_ops_def run_err_def host_run_def split: if_splits prod.splits)
qed

section \<open>Requests\<close>

definition zone_free :: "request \<Rightarrow> bool" where
  "zone_free req \<longleftrightarrow> CHR ''%'' \<notin> set (rq_ip req) \<and> (\<forall>e \<in> set (rq_elements req). CHR ''%'' \<notin> set (fe_ip e))"

text \<open>The names of a request do not switch the table: they are the active ones, or pinned already.\<close>

definition names_settled :: "request \<Rightarrow> server \<Rightarrow> bool" where
  "names_settled req sv \<longleftrightarrow> sv_pinned sv \<or> (\<forall>want. Resolve (rq_table req) (rq_set req) = Inr want \<longrightarrow> want = sv_names sv)"

lemma settled_resolve:
  assumes "names_settled req sv" and "resolveNames ops now req sv h = (Inr n, sv1, h1)"
  shows "n = sv_names sv" and "sv1 = sv\<lparr>sv_pinned := True\<rparr>" and "h1 = h"
  using assms by (auto simp: names_settled_def resolveNames_def split: sum.splits if_splits)

lemma settled_refused:
  assumes "names_settled req sv" and "resolveNames ops now req sv h = (Inl e, sv1, h1)"
  shows "sv1 = sv" and "h1 = h"
  using assms by (auto simp: names_settled_def resolveNames_def split: sum.splits if_splits)

lemma dispatch_allow_ok:
  assumes "helper_ok now n sv h" and "zone_free req" and "dispatch_allow (kernel_ops ord now) n req sv h = (resp, sv', h')"
  shows "helper_ok now n sv' h'"
proof -
  have z: "CHR ''%'' \<notin> set (rq_ip req)" using assms(2) by (simp add: zone_free_def)
  show ?thesis
    using assms(1,3) allow_elem_ok(1) [OF assms(1) _ z, of ord] allow_elem_ok(2) [OF assms(1) _ z, of ord] flush_allow_ok [OF assms(1), of ord]
    unfolding dispatch_allow_def of_run_def by (auto split: if_splits prod.splits option.splits)
qed

lemma dispatch_list_ok:
  assumes "helper_ok now n sv h" and "dispatch_list now sv = (resp, sv')"
  shows "helper_ok now n sv' h"
proof -
  let ?live = "filter (\<lambda>(ip, dl). \<not> stale now dl) (sv_blocked sv)"
  have sv': "sv' = sv\<lparr>sv_blocked := ?live\<rparr>" using assms(2) by (simp add: dispatch_list_def Let_def)
  have ok: "gm_ok (sv_blocked sv)" "\<forall>key \<in> set (gm_keys (sv_blocked sv)). canon_key key"
    using assms(1) by (auto simp: helper_ok_def cache_ok_def)
  have "gm_get (sv_blocked sv) key = Some dl" if "gm_get ?live key = Some dl" for key dl
    using that gm_get_filter [OF ok(1), of "\<lambda>ip dl. \<not> stale now dl" key] by (auto split: option.splits if_splits)
  moreover have "cache_ok ?live" using ok by (auto simp: cache_ok_def)
  ultimately show ?thesis using assms(1) unfolding helper_ok_def no_ghosts_def sv' by simp
qed

lemma dispatch_verb_ok:
  assumes "helper_ok now n sv h" and "zone_free req" and "dispatch_verb (kernel_ops ord now) now n req sv h = (resp, sv', h')"
  shows "helper_ok now n sv' h'"
proof -
  have z: "CHR ''%'' \<notin> set (rq_ip req)" "\<forall>e \<in> set (rq_elements req). CHR ''%'' \<notin> set (fe_ip e)"
    using assms(2) by (auto simp: zone_free_def)
  note fb = flush_ban_ok [OF assms(1), of ord]
  consider "rq_verb req \<in> {''ping'', ''caps'', ''netcheck''}" | "rq_verb req = ''feeds_sync''" | "rq_verb req = ''list''"
    | "rq_verb req = ''flush''" | "rq_verb req = ''add''" | "rq_verb req = ''del''"
    | "rq_verb req \<notin> {''ping'', ''caps'', ''netcheck'', ''feeds_sync'', ''list'', ''flush'', ''add'', ''del''}" by blast
  then show ?thesis
  proof cases
    case 1
    then show ?thesis using assms(1,3) by (auto simp: dispatch_verb_def)
  next
    case 2
    then show ?thesis using assms(1,3) feeds_sync_ok [OF assms(1) z(2), of ord]
      by (auto simp: dispatch_verb_def of_run_def split: option.splits prod.splits)
  next
    case 3
    then show ?thesis using assms(3) dispatch_list_ok [OF assms(1)] by (auto simp: dispatch_verb_def split: prod.splits)
  next
    case 4
    then show ?thesis using assms(3) fb by (auto simp: dispatch_verb_def split: prod.splits option.splits)
  next
    case 5
    then have "dispatch_add (kernel_ops ord now) now n req sv h = (resp, sv', h')" using assms(3) by (simp add: dispatch_verb_def)
    then show ?thesis by (rule dispatch_add_ok [OF assms(1) z(1)])
  next
    case 6
    then have "dispatch_del (kernel_ops ord now) n req sv h = (resp, sv', h')" using assms(3) by (simp add: dispatch_verb_def)
    then show ?thesis by (rule dispatch_del_ok [OF assms(1) z(1)])
  next
    case 7
    then have "dispatch_allow (kernel_ops ord now) n req sv h = (resp, sv', h')" using assms(3) by (simp add: dispatch_verb_def)
    then show ?thesis by (rule dispatch_allow_ok [OF assms(1,2)])
  qed
qed

lemma helper_ok_names: "helper_ok now n sv h \<Longrightarrow> sv_names sv = n \<and> sv_pinned sv"
  by (simp add: helper_ok_def)

text \<open>A request with settled names is refused, or its verb runs on the active names.\<close>

lemma dispatch_settled:
  assumes "names_settled req sv" and "dispatch ops now req sv h = (resp, sv', h')"
  obtains (refused) "sv' = sv" "h' = h" "\<not> rs_ok resp"
  | (query) "sv' = sv" "h' = h" "rq_verb req = ''ping'' \<or> rq_verb req = ''caps''"
  | (verb) "dispatch_verb ops now (sv_names sv) req (sv\<lparr>sv_pinned := True\<rparr>) h = (resp, sv', h')"
proof (cases "rq_verb req \<in> set validVerbs")
  case False
  then show ?thesis using refused assms(2) by (auto simp: dispatch_def resp_err_def)
next
  case valid: True
  show ?thesis
  proof (cases "rq_verb req = ''ping'' \<or> rq_verb req = ''caps''")
    case True
    then show ?thesis using query valid assms(2) by (auto simp: dispatch_def dispatch_verb_def split: if_splits)
  next
    case False
    obtain r sv1 h1 where res: "resolveNames ops now req sv h = (r, sv1, h1)" by (metis prod_cases3)
    show ?thesis
    proof (cases r)
      case (Inl e)
      note s = settled_refused [OF assms(1) res [unfolded Inl]]
      then show ?thesis using refused False valid res Inl assms(2) by (auto simp: dispatch_def resp_err_def)
    next
      case (Inr n)
      note s = settled_resolve [OF assms(1) res [unfolded Inr]]
      then show ?thesis using verb False valid res Inr assms(2) by (simp add: dispatch_def)
    qed
  qed
qed

lemma dispatch_ok:
  assumes "pinned_ok now sv h" and "zone_free req" and "names_settled req sv"
    and "dispatch (kernel_ops ord now) now req sv h = (resp, sv', h')"
  shows "pinned_ok now sv' h'" and "sv_names sv' = sv_names sv"
proof -
  have "pinned_ok now sv' h' \<and> sv_names sv' = sv_names sv"
    using assms(3,4)
  proof (cases rule: dispatch_settled)
    case verb
    from dispatch_verb_ok [OF assms(1,2) this] have "helper_ok now (sv_names sv) sv' h'" .
    moreover from helper_ok_names [OF this] have "sv_names sv' = sv_names sv" "sv'\<lparr>sv_pinned := True\<rparr> = sv'" by auto
    ultimately show ?thesis by simp
  qed (use assms(1) in simp_all)
  then show "pinned_ok now sv' h'" "sv_names sv' = sv_names sv" by blast+
qed

section \<open>A request, worked out\<close>

definition demo_order :: "(string \<times> time option) list \<Rightarrow> (string \<times> time option) list" where
  "demo_order els = els"

definition demo_request :: request where
  "demo_request = \<lparr>rq_verb = ''add'', rq_ip = ''10.0.0.1'', rq_ttl = 0, rq_table = [], rq_set = [], rq_elements = []\<rparr>"

definition demo_after :: "response \<times> server \<times> khost" where
  "demo_after = dispatch (kernel_ops demo_order 0) 0 demo_request NewServer \<lparr>kh_faults = [], kh_sets = fresh_sets, kh_killed = []\<rparr>"

lemma demo_addr:
  "parse_addr ''10.0.0.1'' = Some (V4 0x0A000001)" "addr_str (V4 0x0A000001) = ''10.0.0.1''"
  "CanonicalIPKey ''10.0.0.1'' = ''10.0.0.1''" "validateIP ''10.0.0.1''"
proof -
  have b: "ipv4_bytes 0x0A000001 = [10, 0, 0, 1]" by (simp add: ipv4_bytes_def)
  have c: "str_join ''.'' (map nat_str [10, 0, 0, 1]) = ''10.0.0.1''" by code_simp
  show p: "parse_addr ''10.0.0.1'' = Some (V4 0x0A000001)" by code_simp
  show a: "addr_str (V4 0x0A000001) = ''10.0.0.1''" by (simp only: addr_str.simps ipv4_str_def b c)
  show "CanonicalIPKey ''10.0.0.1'' = ''10.0.0.1''" using a by (simp add: CanonicalIPKey_def p)
  show "validateIP ''10.0.0.1''" by (simp add: validateIP_def p)
qed

definition demo_kernel :: ksets where
  "demo_kernel = gm_set ''blocked'' \<lparr>ks_family = ''ipv4_addr'', ks_auto_merge = False, ks_elems = [(''10.0.0.1'', None)]\<rparr> fresh_sets"

lemma demo_add: "nftAdd (kernel_ops demo_order 0) default_names ''10.0.0.1'' 0 \<lparr>kh_faults = [], kh_sets = fresh_sets, kh_killed = []\<rparr>
   = (None, \<lparr>kh_faults = [], kh_sets = demo_kernel, kh_killed = []\<rparr>)"
proof -
  have st: "setForIP default_names ''10.0.0.1'' = Inr ''blocked''" by code_simp
  have scr: "element_script ''add'' default_names ''blocked'' (timed_entry ''10.0.0.1'' 0) = lines_of [''add element inet ezyshield blocked { 10.0.0.1 }'']"
    by (simp add: element_script_def default_names_def timed_entry_def lines_of_def)
  have nl: "\<forall>l \<in> set [''add element inet ezyshield blocked { 10.0.0.1 }'']. CHR 0x0A \<notin> set l" by simp
  have tr: "trim_space ''add element inet ezyshield blocked { 10.0.0.1 }'' = ''add element inet ezyshield blocked { 10.0.0.1 }''" by code_simp
  have ap: "applyLine 0 (''add element inet ezyshield blocked { 10.0.0.1 }'') fresh_sets = Inr demo_kernel"
    unfolding demo_kernel_def by code_simp
  have "Apply 0 (lines_of [''add element inet ezyshield blocked { 10.0.0.1 }'']) fresh_sets = (None, demo_kernel)"
    unfolding Apply_def Let_def str_split_lines [OF nl] gc_fresh append_Cons append_Nil apply_lines.simps tr ap
    by simp
  then show ?thesis unfolding nftAdd_def st sum.case scr by (simp add: kernel_ops_def host_run_def run_err_def)
qed

definition demo_kill :: "string list" where
  "demo_kill = [''-K'', ''dst'', ssFilterValue (the (parse_addr ''10.0.0.1''))]"

lemma demo_dispatch:
  assumes "sv_names sv = default_names" and "sv_blocked sv = []"
  shows "dispatch (kernel_ops demo_order 0) 0 demo_request sv \<lparr>kh_faults = [], kh_sets = fresh_sets, kh_killed = []\<rparr>
    = (resp_ok, sv\<lparr>sv_blocked := [(''10.0.0.1'', None)], sv_pinned := True\<rparr>,
       \<lparr>kh_faults = [], kh_sets = demo_kernel, kh_killed = [demo_kill]\<rparr>)"
proof -
  note c = demo_addr(3,4)
  have p: "parse_addr ''10.0.0.1'' \<noteq> None" by (simp only: demo_addr(1) option.distinct not_False_eq_True)
  then have k: "killSocketsForIP (kernel_ops demo_order 0) ''10.0.0.1'' h = h\<lparr>kh_killed := kh_killed h @ [demo_kill]\<rparr>" for h
    by (auto simp: killSocketsForIP_def kernel_ops_def demo_kill_def)
  have r: "rq_verb demo_request = ''add''" "rq_ip demo_request = ''10.0.0.1''" "rq_ttl demo_request = 0"
    "Resolve (rq_table demo_request) (rq_set demo_request) = Inr default_names"
    by (simp_all add: demo_request_def Resolve_default)
  show ?thesis
    unfolding dispatch_def resolveNames_def r assms dispatch_verb_def dispatch_add_def
    using c p assms demo_add by (simp add: r validVerbs_def Let_def add_delete_old_def add_new_def is_overlap_def add_commit_def
        kill_after_add_def k deadline_def wrap64_id resp_ok_def)
qed

end
