(* ===== verification/HelperMirror.thy ===== *)
theory HelperMirror
  imports HelperRun
begin

text \<open>
  The other direction of the helper's bookkeeping.

  \<^item> Whatever fails, a request adds no live element but its own key (\<open>dispatch_add_live\<close>,
    \<open>dispatch_del_live\<close>), and an add that is answered with success leaves its key blocked, by its
    own element or by a broader one (\<open>dispatch_add_success\<close>).
  \<^item> When no \<open>nft\<close> process fails, the cache knows every live element of the kernel, with a
    deadline that is not earlier (\<open>mirrored\<close>): a reconcile that reads the cache sees all there is.
\<close>

section \<open>Live elements under requests\<close>

definition live :: "time \<Rightarrow> nft_names \<Rightarrow> khost \<Rightarrow> string set" where
  "live now n h = {key. elem_at now n h key \<noteq> None}"

lemma nftAdd_live:
  assumes "names_ok n" and "canon_key x" and "host_ok n h" and "nftAdd (kernel_ops ord now) n x ttl h = (r, h')"
  shows "live now n h' \<subseteq> insert x (live now n h)" and "host_ok n h'"
  using nftAdd_host [OF assms] by (auto simp: live_def)

lemma nftDel_live:
  assumes "names_ok n" and "canon_key x" and "host_ok n h" and "nftDel (kernel_ops ord now) n x h = (r, h')"
  shows "live now n h' \<subseteq> live now n h" and "host_ok n h'"
proof -
  note d = nftDel_host [OF assms]
  show "host_ok n h'" by (rule d(1))
  have "elem_at now n h' y = None \<or> elem_at now n h' y = elem_at now n h y" for y using d(2) by (cases "y = x") auto
  then show "live now n h' \<subseteq> live now n h" unfolding live_def by (auto, metis option.distinct(1))
qed

lemma absorb_live:
  assumes "names_ok n" and "host_ok n h" and "\<forall>k \<in> set keys. canon_key k" and "absorb (kernel_ops ord now) n keys sv h = (r, sv', h')"
  shows "live now n h' \<subseteq> live now n h" and "host_ok n h'"
proof -
  have "live now n h' \<subseteq> live now n h \<and> host_ok n h'"
    using assms
  proof (induction keys arbitrary: sv h)
    case (Cons key keys)
    obtain r1 h1 where d: "nftDel (kernel_ops ord now) n key h = (r1, h1)" by fastforce
    have "canon_key key" using Cons.prems(3) by simp
    note l = nftDel_live [OF Cons.prems(1) this Cons.prems(2) d]
    show ?case
    proof (cases "r1 \<noteq> None \<and> r1 \<noteq> Some ElementAbsent")
      case True
      then show ?thesis using Cons.prems(4) d l by auto
    next
      case False
      then have "absorb (kernel_ops ord now) n keys (sv\<lparr>sv_blocked := gm_del key (sv_blocked sv)\<rparr>) h1 = (r, sv', h')"
        using Cons.prems(4) d by (simp split: if_splits)
      from Cons.IH [OF Cons.prems(1) l(2) _ this] Cons.prems(3) l(1) show ?thesis by auto
    qed
  qed simp
  then show "live now n h' \<subseteq> live now n h" "host_ok n h'" by blast+
qed

lemma absorb_not_covered: "absorb ops n keys sv h = (r, sv', h') \<Longrightarrow> r \<noteq> Some CoveredByInterval"
  by (induction keys arbitrary: sv h) (auto split: if_splits prod.splits)

lemma addOverlapping_live:
  assumes "names_ok n" and "canon_key x" and "host_ok n h" and "cache_ok (sv_blocked sv)"
    and "addOverlapping (kernel_ops ord now) n x ttl sv h = (r, sv', h')"
  shows "live now n h' \<subseteq> insert x (live now n h)" and "host_ok n h'"
proof -
  have "live now n h' \<subseteq> insert x (live now n h) \<and> host_ok n h'"
  proof (cases "parse_addr x")
    case Some
    then show ?thesis using assms(3,5) by (auto simp: addOverlapping_def)
  next
    case None
    let ?p = "case parse_prefix x of None \<Rightarrow> no_prefix | Some p \<Rightarrow> p"
    let ?c = "filter (narrower ?p) (gm_keys (sv_blocked sv))"
    obtain r1 sv1 h1 where ab: "absorb (kernel_ops ord now) n ?c sv h = (r1, sv1, h1)" by (metis prod_cases3)
    have "\<forall>k \<in> set ?c. canon_key k" using assms(4) by (auto simp: cache_ok_def)
    note l = absorb_live [OF assms(1,3) this ab]
    obtain r2 h2 where ad: "nftAdd (kernel_ops ord now) n x ttl h1 = (r2, h2)" by fastforce
    note a = nftAdd_live [OF assms(1,2) l(2) ad]
    show ?thesis using assms(5) None ab ad l a by (cases r1) (auto simp: addOverlapping_def Let_def)
  qed
  then show "live now n h' \<subseteq> insert x (live now n h)" "host_ok n h'" by blast+
qed

lemma add_new_live:
  assumes "names_ok n" and "canon_key x" and "host_ok n h" and "cache_ok (sv_blocked sv)"
    and "add_new (kernel_ops ord now) n x ttl sv h = (r, sv', h')"
  shows "live now n h' \<subseteq> insert x (live now n h)" and "host_ok n h'"
proof -
  obtain r1 h1 where ad: "nftAdd (kernel_ops ord now) n x ttl h = (r1, h1)" by fastforce
  note a = nftAdd_live [OF assms(1-3) ad]
  have "live now n h' \<subseteq> insert x (live now n h) \<and> host_ok n h'"
  proof (cases "is_overlap r1")
    case True
    then have "addOverlapping (kernel_ops ord now) n x ttl sv h1 = (r, sv', h')" using assms(5) ad by (simp add: add_new_def)
    from addOverlapping_live [OF assms(1,2) a(2) assms(4) this] a(1) show ?thesis by blast
  next
    case False
    then show ?thesis using assms(5) ad a by (simp add: add_new_def)
  qed
  then show "live now n h' \<subseteq> insert x (live now n h)" "host_ok n h'" by blast+
qed

lemma add_delete_old_live:
  assumes "names_ok n" and "canon_key x" and "host_ok n h" and "add_delete_old (kernel_ops ord now) n x sv h = (r, h')"
  shows "live now n h' \<subseteq> live now n h" and "host_ok n h'"
proof -
  have "live now n h' \<subseteq> live now n h \<and> host_ok n h'"
  proof (cases "gm_get (sv_blocked sv) x")
    case (Some dl)
    obtain r1 h1 where d: "nftDel (kernel_ops ord now) n x h = (r1, h1)" by fastforce
    from nftDel_live [OF assms(1-3) d] show ?thesis using assms(4) Some d by (simp add: add_delete_old_def)
  qed (use assms(3,4) in \<open>auto simp: add_delete_old_def\<close>)
  then show "live now n h' \<subseteq> live now n h" "host_ok n h'" by blast+
qed

lemma rollback_live:
  assumes "names_ok n" and "canon_key x" and "host_ok n h" and "rollback (kernel_ops ord now) now n x old sv h = (sv', h')"
  shows "live now n h' \<subseteq> insert x (live now n h)"
proof (cases old)
  case (Some dl)
  obtain r1 h1 where d: "nftAdd (kernel_ops ord now) n x (restore_ttl now dl) h = (r1, h1)" by fastforce
  from nftAdd_live [OF assms(1-3) d] show ?thesis using assms(4) Some d by (auto simp: rollback_def split: option.splits)
qed (use assms(4) in \<open>auto simp: rollback_def\<close>)

text \<open>The four outcomes of an add.\<close>

lemma dispatch_add_cases:
  assumes "validateIP (rq_ip req)" and "dispatch_add ops now n req sv h = (resp, sv', h')" and "x = CanonicalIPKey (rq_ip req)"
  obtains (undeleted) e h1 where "add_delete_old ops n x sv h = (Inl e, h1)" "resp = resp_err e" "sv' = sv" "h' = h1"
  | (served) r sv2 h1 h2 where "add_delete_old ops n x sv h = (Inr (), h1)" "add_new ops n x (rq_ttl req) sv h1 = (r, sv2, h2)"
      "r = None \<or> r = Some CoveredByInterval" "resp = resp_ok\<lparr>rs_code := (if r = None then [] else CodeCoveredByInterval)\<rparr>"
      "sv' = add_commit now x (rq_ttl req) (r \<noteq> None) sv2" "h' = kill_after_add ops x h2"
  | (failed) e sv2 h1 h2 where "add_delete_old ops n x sv h = (Inr (), h1)" "add_new ops n x (rq_ttl req) sv h1 = (Some e, sv2, h2)"
      "e \<noteq> CoveredByInterval" "resp = resp_err e" "rollback ops now n x (gm_get (sv_blocked sv) x) sv2 h2 = (sv', h')"
proof -
  obtain r1 h1 where ad: "add_delete_old ops n x sv h = (r1, h1)" by fastforce
  show thesis
  proof (cases r1)
    case (Inl e)
    then show thesis using undeleted assms ad by (auto simp: dispatch_add_def Let_def)
  next
    case (Inr u)
    obtain r sv2 h2 where nw: "add_new ops n x (rq_ttl req) sv h1 = (r, sv2, h2)" by (metis prod_cases3)
    show thesis
    proof (cases "r = None \<or> r = Some CoveredByInterval")
      case True
      then show thesis using assms ad Inr nw by (intro served [of h1 r sv2 h2]) (auto simp: dispatch_add_def Let_def)
    next
      case False
      then obtain e where e: "r = Some e" "e \<noteq> CoveredByInterval" by auto
      then show thesis using assms ad Inr nw
        by (intro failed [of h1 e sv2 h2]) (auto simp: dispatch_add_def Let_def split: prod.splits)
    qed
  qed
qed

lemma invalid_add: "\<not> validateIP (rq_ip req) \<Longrightarrow> dispatch_add ops now n req sv h = (resp_err (InvalidIP (rq_ip req)), sv, h)"
  by (simp add: dispatch_add_def)

lemma live_kill [simp]: "live now n (kill_after_add (kernel_ops ord now) x h) = live now n h"
  by (simp add: live_def)


lemma dispatch_add_live:
  assumes "helper_ok now n sv h" and "CHR ''%'' \<notin> set (rq_ip req)"
    and "dispatch_add (kernel_ops ord now) now n req sv h = (resp, sv', h')"
  shows "live now n h' \<subseteq> insert (CanonicalIPKey (rq_ip req)) (live now n h)"
proof (cases "validateIP (rq_ip req)")
  case True
  let ?x = "CanonicalIPKey (rq_ip req)"
  have n: "names_ok n" "host_ok n h" "cache_ok (sv_blocked sv)" using assms(1) by (auto simp: helper_ok_def)
  have x: "canon_key ?x" by (rule canonical_key_text [OF True assms(2)])
  from True assms(3) refl [of ?x] show ?thesis
  proof (cases rule: dispatch_add_cases)
    case (undeleted e h1)
    then show ?thesis using add_delete_old_live [OF n(1) x n(2) undeleted(1)] by auto
  next
    case (served r sv2 h1 h2)
    note d = add_delete_old_live [OF n(1) x n(2) served(1)]
    show ?thesis using add_new_live [OF n(1) x d(2) n(3) served(2)] d(1) unfolding served(6) live_kill by blast
  next
    case (failed e sv2 h1 h2)
    note d = add_delete_old_live [OF n(1) x n(2) failed(1)]
    note a = add_new_live [OF n(1) x d(2) n(3) failed(2)]
    show ?thesis using rollback_live [OF n(1) x a(2) failed(5)] a(1) d(1) by blast
  qed
qed (use assms(3) in \<open>auto simp: invalid_add\<close>)

lemma dispatch_del_live:
  assumes "helper_ok now n sv h" and "CHR ''%'' \<notin> set (rq_ip req)"
    and "dispatch_del (kernel_ops ord now) n req sv h = (resp, sv', h')"
  shows "live now n h' \<subseteq> live now n h"
    and "rs_ok resp \<Longrightarrow> live now n h' \<subseteq> live now n h - {CanonicalIPKey (rq_ip req)}"
proof -
  have "live now n h' \<subseteq> live now n h \<and> (rs_ok resp \<longrightarrow> live now n h' \<subseteq> live now n h - {CanonicalIPKey (rq_ip req)})"
  proof (cases "validateIP (rq_ip req)")
    case True
    let ?x = "CanonicalIPKey (rq_ip req)"
    have n: "names_ok n" "host_ok n h" using assms(1) by (auto simp: helper_ok_def)
    have x: "canon_key ?x" by (rule canonical_key_text [OF True assms(2)])
    obtain r h1 where d: "nftDel (kernel_ops ord now) n ?x h = (r, h1)" by fastforce
    have h': "h' = h1" using assms(3) True d by (auto simp: dispatch_del_def Let_def split: option.splits if_splits)
    have ok: "r = None \<or> r = Some ElementAbsent" if "rs_ok resp"
      using that assms(3) True d by (auto simp: dispatch_del_def Let_def resp_err_def split: option.splits if_splits)
    have "elem_at now n h' ?x = None" if "rs_ok resp"
      using ok [OF that] nftDel_host(2) [OF n(1) x n(2) d] h' by auto
    then show ?thesis using nftDel_live(1) [OF n(1) x n(2) d] h' by (auto simp: live_def)
  qed (use assms(3) in \<open>auto simp: dispatch_del_def resp_err_def\<close>)
  then show "live now n h' \<subseteq> live now n h" "rs_ok resp \<Longrightarrow> live now n h' \<subseteq> live now n h - {CanonicalIPKey (rq_ip req)}" by blast+
qed

text \<open>An add that succeeds leaves the key enforced.\<close>

lemma live_deadline: "elem_at now n h x = Some (deadline now d) \<Longrightarrow> x \<in> live now n h"
  by (simp add: live_def)

lemma add_new_success:
  assumes "names_ok n" and "canon_key x" and "host_ok n h" and "cache_ok (sv_blocked sv)"
    and "add_new (kernel_ops ord now) n x ttl sv h = (r, sv', h')" and "r = None \<or> r = Some CoveredByInterval"
  shows "\<exists>el \<in> live now n h'. el = x \<or> (parse_addr x \<noteq> None \<and> prefix_overlaps (toPrefix x) (toPrefix el))"
proof -
  obtain r1 h1 where ad: "nftAdd (kernel_ops ord now) n x ttl h = (r1, h1)" by fastforce
  note a = nftAdd_host [OF assms(1-3) ad]
  show ?thesis
  proof (cases "is_overlap r1")
    case False
    then have e: "r = r1" "h' = h1" using assms(5) ad by (simp_all add: add_new_def)
    then have "r1 = None" using assms(6) a(2) by auto
    then show ?thesis using a(2) e by (intro bexI [of _ x]) (auto simp: live_def)
  next
    case True
    then have ov: "addOverlapping (kernel_ops ord now) n x ttl sv h1 = (r, sv', h')" using assms(5) ad by (simp add: add_new_def)
    show ?thesis
    proof (cases "parse_addr x")
      case (Some y)
      then have h': "h' = h1" using ov by (simp add: addOverlapping_def)
      have nn: "r1 \<noteq> None" and no: "\<not> (\<exists>msg. r1 = Some (NftError msg) \<and> \<not> isNftOverlapErr msg)"
        using True by (auto simp: is_overlap_def split: option.splits helper_error.splits)
      then obtain el where "elem_at now n h el \<noteq> None" "prefix_overlaps (toPrefix x) (toPrefix el)"
          "\<forall>x. elem_at now n h1 x = elem_at now n h x" using a(2) by blast
      then show ?thesis using Some h' by (intro bexI [of _ el]) (auto simp: live_def)
    next
      case None
      let ?p = "case parse_prefix x of None \<Rightarrow> no_prefix | Some p \<Rightarrow> p"
      let ?c = "filter (narrower ?p) (gm_keys (sv_blocked sv))"
      obtain r2 sv2 h2 where ab: "absorb (kernel_ops ord now) n ?c sv h1 = (r2, sv2, h2)" by (metis prod_cases3)
      have c: "\<forall>k \<in> set ?c. canon_key k" using assms(4) by (auto simp: cache_ok_def)
      note l = absorb_live [OF assms(1) a(1) c ab]
      obtain r3 h3 where ad3: "nftAdd (kernel_ops ord now) n x ttl h2 = (r3, h3)" by fastforce
      note b = nftAdd_host [OF assms(1,2) l(2) ad3]
      have r2: "r2 = None"
      proof (rule ccontr)
        assume "r2 \<noteq> None"
        then have "r = r2" using ov None ab by (auto simp: addOverlapping_def Let_def split: option.splits)
        moreover have "r2 \<noteq> Some CoveredByInterval" by (rule absorb_not_covered [OF ab])
        ultimately show False using assms(6) \<open>r2 \<noteq> None\<close> by auto
      qed
      then have e: "r = r3" "h' = h3" using ov None ab ad3 by (simp_all add: addOverlapping_def Let_def)
      then have "r3 = None" using assms(6) b(2) by auto
      then show ?thesis using b(2) e by (intro bexI [of _ x]) (auto simp: live_def)
    qed
  qed
qed

lemma dispatch_add_success:
  assumes "helper_ok now n sv h" and "CHR ''%'' \<notin> set (rq_ip req)"
    and "dispatch_add (kernel_ops ord now) now n req sv h = (resp, sv', h')" and "rs_ok resp"
  shows "\<exists>el \<in> live now n h'. el = CanonicalIPKey (rq_ip req)
    \<or> (parse_addr (CanonicalIPKey (rq_ip req)) \<noteq> None \<and> prefix_overlaps (toPrefix (CanonicalIPKey (rq_ip req))) (toPrefix el))"
proof (cases "validateIP (rq_ip req)")
  case True
  let ?x = "CanonicalIPKey (rq_ip req)"
  have n: "names_ok n" "host_ok n h" "cache_ok (sv_blocked sv)" using assms(1) by (auto simp: helper_ok_def)
  have x: "canon_key ?x" by (rule canonical_key_text [OF True assms(2)])
  from True assms(3) refl [of ?x] show ?thesis
  proof (cases rule: dispatch_add_cases)
    case (served r sv2 h1 h2)
    note d = add_delete_old_live [OF n(1) x n(2) served(1)]
    show ?thesis using add_new_success [OF n(1) x d(2) n(3) served(2,3)] unfolding served(6) live_kill .
  qed (use assms(4) in \<open>simp_all add: resp_err_def\<close>)
qed (use assms(3,4) in \<open>auto simp: invalid_add resp_err_def\<close>)


section \<open>The mirror\<close>

text \<open>The kernel's expiry is not later than the cache's deadline.\<close>

definition within :: "time option \<Rightarrow> time option \<Rightarrow> bool" where
  "within e dl \<longleftrightarrow> (case dl of None \<Rightarrow> True | Some d \<Rightarrow> (case e of None \<Rightarrow> False | Some t \<Rightarrow> t \<le> d))"

definition mirrored_but :: "string set \<Rightarrow> time \<Rightarrow> nft_names \<Rightarrow> (string, time option) gomap \<Rightarrow> khost \<Rightarrow> bool" where
  "mirrored_but X now n m h \<longleftrightarrow>
     (\<forall>key e. key \<notin> X \<longrightarrow> elem_at now n h key = Some e \<longrightarrow> (\<exists>dl. gm_get m key = Some dl \<and> within e dl))"

abbreviation mirrored :: "time \<Rightarrow> nft_names \<Rightarrow> (string, time option) gomap \<Rightarrow> khost \<Rightarrow> bool" where
  "mirrored \<equiv> mirrored_but {}"

definition synced :: "time \<Rightarrow> nft_names \<Rightarrow> server \<Rightarrow> khost \<Rightarrow> bool" where
  "synced now n sv h \<longleftrightarrow> helper_ok now n sv h \<and> kh_faults h = [] \<and> mirrored now n (sv_blocked sv) h"

lemma mirrored_later:
  assumes "mirrored now n m h" and "host_ok n h" and "now \<le> now'"
  shows "mirrored now' n m h"
proof -
  have "elem_at now n h key = Some e" if "elem_at now' n h key = Some e" for key e
    using host_elem_later [OF assms(2,3) live_elem(1) [OF assms(2)], of now' key] that
    by (auto split: option.splits if_splits)
  then show ?thesis using assms(1) unfolding mirrored_but_def by blast
qed

lemma synced_later: "synced now n sv h \<Longrightarrow> now \<le> now' \<Longrightarrow> synced now' n sv h"
  unfolding synced_def using helper_ok_later mirrored_later by (auto simp: helper_ok_def)

lemma nftDel_mirrored:
  assumes "names_ok n" and "canon_key x" and "host_ok n h" and "kh_faults h = []" and "mirrored_but X now n m h"
    and "nftDel (kernel_ops ord now) n x h = (r, h')"
  shows "kh_faults h' = []" and "mirrored_but X now n m h'" and "mirrored_but X now n (gm_del x m) h'"
    and "r = None \<or> r = Some ElementAbsent" and "elem_at now n h' x = None"
proof -
  note d = nftDel_host [OF assms(1-3,6)]
  have e: "\<forall>y. elem_at now n h' y = (if y = x then None else elem_at now n h y)" using d(2) assms(4) by auto
  show "kh_faults h' = []" by (rule d(3) [OF assms(4)])
  show "r = None \<or> r = Some ElementAbsent" using d(2) assms(4) by auto
  show "elem_at now n h' x = None" using e by simp
  show "mirrored_but X now n m h'" "mirrored_but X now n (gm_del x m) h'"
    using assms(5) e by (auto simp: mirrored_but_def split: if_splits)
qed

lemma absorb_mirrored:
  assumes "names_ok n" and "host_ok n h" and "kh_faults h = []" and "\<forall>k \<in> set keys. canon_key k"
    and "mirrored_but X now n (sv_blocked sv) h" and "absorb (kernel_ops ord now) n keys sv h = (r, sv', h')"
  shows "kh_faults h' = []" and "mirrored_but X now n (sv_blocked sv') h'" and "r = None"
proof -
  have "kh_faults h' = [] \<and> mirrored_but X now n (sv_blocked sv') h' \<and> r = None"
    using assms
  proof (induction keys arbitrary: sv h)
    case (Cons key keys)
    obtain r1 h1 where d: "nftDel (kernel_ops ord now) n key h = (r1, h1)" by fastforce
    have key: "canon_key key" using Cons.prems(4) by simp
    note m = nftDel_mirrored [OF Cons.prems(1) key Cons.prems(2,3,5) d]
    have "absorb (kernel_ops ord now) n keys (sv\<lparr>sv_blocked := gm_del key (sv_blocked sv)\<rparr>) h1 = (r, sv', h')"
      using Cons.prems(6) d m(4) by (auto split: if_splits)
    from Cons.IH [OF Cons.prems(1) nftDel_live(2) [OF Cons.prems(1) key Cons.prems(2) d] m(1) _ _ this] Cons.prems(4) m(3)
    show ?case by simp
  qed simp
  then show "kh_faults h' = []" "mirrored_but X now n (sv_blocked sv') h'" "r = None" by blast+
qed

lemma nftAdd_mirrored:
  assumes "names_ok n" and "canon_key x" and "host_ok n h" and "kh_faults h = []" and "mirrored now n m h"
    and "nftAdd (kernel_ops ord now) n x ttl h = (r, h')"
  shows "kh_faults h' = []" and "mirrored_but {x} now n m h'" and "r \<noteq> None \<Longrightarrow> mirrored now n m h'"
    and "r = None \<Longrightarrow> ttl \<le> 9223372036 \<and> elem_at now n h' x = Some (deadline now (ttl * Second))"
    and "r \<noteq> None \<Longrightarrow> \<forall>y. elem_at now n h' y = elem_at now n h y"
proof -
  note a = nftAdd_host [OF assms(1-3,6)]
  show "kh_faults h' = []" by (rule a(3) [OF assms(4)])
  show "r = None \<Longrightarrow> ttl \<le> 9223372036 \<and> elem_at now n h' x = Some (deadline now (ttl * Second))" using a(2) by auto
  show same: "r \<noteq> None \<Longrightarrow> \<forall>y. elem_at now n h' y = elem_at now n h y" using a(2) by auto
  show "mirrored_but {x} now n m h'" using a(2) assms(5) by (auto simp: mirrored_but_def)
  show "r \<noteq> None \<Longrightarrow> mirrored now n m h'" using same assms(5) by (simp add: mirrored_but_def)
qed

text \<open>What \<open>add_new\<close> leaves: on success all but the key itself; on failure a host on which no add of the key succeeds.\<close>

lemma add_new_mirrored:
  assumes "names_ok n" and "canon_key x" and "host_ok n h" and "kh_faults h = []" and "cache_ok (sv_blocked sv)"
    and "mirrored now n (sv_blocked sv) h" and "ttl \<le> 9223372036"
    and "add_new (kernel_ops ord now) n x ttl sv h = (r, sv', h')"
  shows "kh_faults h' = []" and "host_ok n h'" and "mirrored_but {x} now n (sv_blocked sv') h'"
    and "r = None \<Longrightarrow> elem_at now n h' x = Some (deadline now (ttl * Second))"
    and "r \<noteq> None \<Longrightarrow> mirrored now n (sv_blocked sv') h' \<and> elem_at now n h' x = None"
    and "r \<noteq> None \<Longrightarrow> r \<noteq> Some CoveredByInterval \<Longrightarrow> fst (nftAdd (kernel_ops ord now) n x t2 h') \<noteq> None"
proof -
  obtain r1 h1 where ad: "nftAdd (kernel_ops ord now) n x ttl h = (r1, h1)" by fastforce
  note a = nftAdd_mirrored [OF assms(1-4,6) ad] and aok = nftAdd_live(2) [OF assms(1-3) ad] and ah = nftAdd_host(2) [OF assms(1-3) ad]
  note again = nftAdd_again [OF assms(1-3) ad _ assms(4,7)]
  have "kh_faults h' = [] \<and> host_ok n h' \<and> mirrored_but {x} now n (sv_blocked sv') h'
    \<and> (r = None \<longrightarrow> elem_at now n h' x = Some (deadline now (ttl * Second)))
    \<and> (r \<noteq> None \<longrightarrow> mirrored now n (sv_blocked sv') h' \<and> elem_at now n h' x = None)
    \<and> (r \<noteq> None \<longrightarrow> r \<noteq> Some CoveredByInterval \<longrightarrow> fst (nftAdd (kernel_ops ord now) n x t2 h') \<noteq> None)"
  proof (cases "r1 = None")
    case True
    then have "r = None" "sv' = sv" "h' = h1" using assms(8) ad by (simp_all add: add_new_def is_overlap_def)
    then show ?thesis using a aok True by simp
  next
    case False
    have r1: "r1 = Some (NftError msg_overlap)" using again(2) False by blast
    have gone: "elem_at now n h1 x = None" using ah r1 signals(3) by auto
    have ov: "addOverlapping (kernel_ops ord now) n x ttl sv h1 = (r, sv', h')"
      using assms(8) ad r1 signals(3) by (simp add: add_new_def is_overlap_def)
    show ?thesis
    proof (cases "parse_addr x")
      case (Some y)
      then have "r = Some CoveredByInterval" "sv' = sv" "h' = h1" using ov by (simp_all add: addOverlapping_def)
      then show ?thesis using a False aok gone by simp
    next
      case None
      let ?p = "case parse_prefix x of None \<Rightarrow> no_prefix | Some p \<Rightarrow> p"
      let ?c = "filter (narrower ?p) (gm_keys (sv_blocked sv))"
      obtain r2 sv2 h2 where ab: "absorb (kernel_ops ord now) n ?c sv h1 = (r2, sv2, h2)" by (metis prod_cases3)
      have c: "\<forall>k \<in> set ?c. canon_key k" using assms(5) by (auto simp: cache_ok_def)
      note m = absorb_mirrored [OF assms(1) aok a(1) c a(3) [OF False] ab] and l = absorb_live [OF assms(1) aok c ab]
      obtain r3 h3 where ad3: "nftAdd (kernel_ops ord now) n x ttl h2 = (r3, h3)" by fastforce
      note b = nftAdd_mirrored [OF assms(1,2) l(2) m(1,2) ad3] and bok = nftAdd_live(2) [OF assms(1,2) l(2) ad3]
      note again3 = nftAdd_again(1) [OF assms(1,2) l(2) ad3 _ m(1) assms(7)]
      have e: "r = r3" "sv' = sv2" "h' = h3" using ov None ab ad3 m(3) by (simp_all add: addOverlapping_def Let_def)
      have "elem_at now n h2 x = None" using l(1) gone by (auto simp: live_def)
      then show ?thesis using b bok e again3 by auto
    qed
  qed
  then show "kh_faults h' = []" "host_ok n h'" "mirrored_but {x} now n (sv_blocked sv') h'"
    "r = None \<Longrightarrow> elem_at now n h' x = Some (deadline now (ttl * Second))"
    "r \<noteq> None \<Longrightarrow> mirrored now n (sv_blocked sv') h' \<and> elem_at now n h' x = None"
    "r \<noteq> None \<Longrightarrow> r \<noteq> Some CoveredByInterval \<Longrightarrow> fst (nftAdd (kernel_ops ord now) n x t2 h') \<noteq> None" by blast+
qed

text \<open>The three verbs of a reconcile keep cache and kernel in step.\<close>

lemma within_commit: "0 \<le> ttl \<Longrightarrow> ttl \<le> 9223372036 \<Longrightarrow> within (deadline now (ttl * Second)) (deadline now (wrap64 (ttl * Second)))"
proof -
  assume t: "0 \<le> ttl" "ttl \<le> 9223372036"
  then have "wrap64 (ttl * Second) = ttl * Second" by (intro wrap64_id) (simp_all add: Second_def)
  then show ?thesis by (simp add: within_def split: option.split)
qed

lemma dispatch_add_synced:
  assumes "synced now n sv h" and "CHR ''%'' \<notin> set (rq_ip req)" and "0 \<le> rq_ttl req" and "rq_ttl req \<le> 9223372036"
    and "dispatch_add (kernel_ops ord now) now n req sv h = (resp, sv', h')"
  shows "synced now n sv' h'"
proof (cases "validateIP (rq_ip req)")
  case True
  let ?x = "CanonicalIPKey (rq_ip req)"
  have ok: "helper_ok now n sv h" and f: "kh_faults h = []" and m: "mirrored now n (sv_blocked sv) h"
    using assms(1) by (auto simp: synced_def)
  have n: "names_ok n" "host_ok n h" "cache_ok (sv_blocked sv)" using ok by (auto simp: helper_ok_def)
  have x: "canon_key ?x" by (rule canonical_key_text [OF True assms(2)])
  note keep = dispatch_add_ok [OF ok assms(2,5)]
  have old: "kh_faults h1 = [] \<and> host_ok n h1 \<and> mirrored now n (sv_blocked sv) h1"
    if "add_delete_old (kernel_ops ord now) n ?x sv h = (r, h1)" for r h1
  proof (cases "gm_get (sv_blocked sv) ?x")
    case (Some dl)
    obtain r1 h2 where d: "nftDel (kernel_ops ord now) n ?x h = (r1, h2)" by fastforce
    then have "h1 = h2" using that Some by (simp add: add_delete_old_def)
    then show ?thesis using nftDel_mirrored [OF n(1) x n(2) f m d] nftDel_live(2) [OF n(1) x n(2) d] by simp
  qed (use that f m n in \<open>simp add: add_delete_old_def\<close>)
  have "kh_faults h' = [] \<and> mirrored now n (sv_blocked sv') h'"
    using True assms(5) refl [of ?x]
  proof (cases rule: dispatch_add_cases)
    case (undeleted e h1)
    then show ?thesis using old by blast
  next
    case (served r sv2 h1 h2)
    have o: "kh_faults h1 = []" "host_ok n h1" "mirrored now n (sv_blocked sv) h1" using old [OF served(1)] by blast+
    note a = add_new_mirrored [OF n(1) x o(2,1) n(3) o(3) assms(4) served(2)]
    show ?thesis
    proof (cases "r = None")
      case r: True
      then show ?thesis
        using a(1,3) a(4) [OF r] within_commit [OF assms(3,4), of now]
        unfolding served(5,6) add_commit_def mirrored_but_def by simp
    next
      case r: False
      then show ?thesis
        using a(1) a(5) [OF r] unfolding served(5,6) add_commit_def mirrored_but_def by auto
    qed
  next
    case (failed e sv2 h1 h2)
    have o: "kh_faults h1 = []" "host_ok n h1" "mirrored now n (sv_blocked sv) h1" using old [OF failed(1)] by blast+
    note a = add_new_mirrored [OF n(1) x o(2,1) n(3) o(3) assms(4) failed(2)]
    have m2: "mirrored now n (sv_blocked sv2) h2" "elem_at now n h2 ?x = None" using a(5) by auto
    show ?thesis
    proof (cases "gm_get (sv_blocked sv) ?x")
      case None
      then show ?thesis using failed(5) m2(1) a(1) by (simp add: rollback_def)
    next
      case (Some dl)
      obtain r3 h3 where ad: "nftAdd (kernel_ops ord now) n ?x (restore_ttl now dl) h2 = (r3, h3)" by fastforce
      have r3: "r3 \<noteq> None" using a(6) [of "restore_ttl now dl"] failed(3) ad by simp
      note b = nftAdd_mirrored [OF n(1) x a(2,1) m2(1) ad]
      have e: "sv' = sv2\<lparr>sv_blocked := gm_del ?x (sv_blocked sv2)\<rparr>" "h' = h3"
        using failed(5) Some ad r3 by (auto simp: rollback_def split: option.splits)
      have "elem_at now n h3 ?x = None" using b(5) [OF r3] m2(2) by simp
      then show ?thesis using b(1) b(3) [OF r3] e by (auto simp: mirrored_but_def)
    qed
  qed
  then show ?thesis using keep by (simp add: synced_def)
qed (use assms in \<open>auto simp: invalid_add\<close>)

lemma dispatch_del_synced:
  assumes "synced now n sv h" and "CHR ''%'' \<notin> set (rq_ip req)"
    and "dispatch_del (kernel_ops ord now) n req sv h = (resp, sv', h')"
  shows "synced now n sv' h'"
proof (cases "validateIP (rq_ip req)")
  case True
  let ?x = "CanonicalIPKey (rq_ip req)"
  have ok: "helper_ok now n sv h" and f: "kh_faults h = []" and m: "mirrored now n (sv_blocked sv) h"
    using assms(1) by (auto simp: synced_def)
  have n: "names_ok n" "host_ok n h" using ok by (auto simp: helper_ok_def)
  have x: "canon_key ?x" by (rule canonical_key_text [OF True assms(2)])
  obtain r h1 where d: "nftDel (kernel_ops ord now) n ?x h = (r, h1)" by fastforce
  note a = nftDel_mirrored [OF n(1) x n(2) f m d]
  have "sv' = sv\<lparr>sv_blocked := gm_del ?x (sv_blocked sv)\<rparr>" "h' = h1"
    using assms(3) True d a(4) by (auto simp: dispatch_del_def Let_def)
  then show ?thesis using dispatch_del_ok [OF ok assms(2,3)] a(1,3) by (simp add: synced_def)
qed (use assms in \<open>auto simp: dispatch_del_def\<close>)

lemma dispatch_list_synced:
  assumes "synced now n sv h" and "dispatch_list now sv = (resp, sv')"
  shows "synced now n sv' h" and "live now n h \<subseteq> set (rs_ips resp)"
proof -
  let ?keep = "filter (\<lambda>(ip, dl). \<not> stale now dl) (sv_blocked sv)"
  have ok: "helper_ok now n sv h" and m: "mirrored now n (sv_blocked sv) h" using assms(1) by (auto simp: synced_def)
  have e: "sv' = sv\<lparr>sv_blocked := ?keep\<rparr>" "rs_ips resp = gm_keys ?keep"
    using assms(2) by (auto simp: dispatch_list_def Let_def)
  have gm: "gm_ok (sv_blocked sv)" using ok by (simp add: helper_ok_def cache_ok_def)
  have kept: "gm_get ?keep key = Some dl" if a: "elem_at now n h key = Some t" and b: "gm_get (sv_blocked sv) key = Some dl" and c: "within t dl" for key t dl
  proof -
    have "\<not> stale now dl"
    proof (cases dl)
      case (Some d)
      then obtain u where u: "t = Some u" "u \<le> d" using c by (auto simp: within_def split: option.splits)
      have "now < u"
        using a u(1) ok host_elem_later [of n "kh_sets h" now now key] live_elem(1) [of n h now key]
        by (auto simp: helper_ok_def expired_def split: if_splits)
      then show ?thesis using u(2) Some by (simp add: stale_def)
    qed (simp add: stale_def)
    then show ?thesis using gm_get_filter [OF gm, of "\<lambda>ip dl. \<not> stale now dl" key] b by simp
  qed
  have m': "mirrored now n ?keep h" using m kept unfolding mirrored_but_def by blast
  then show "synced now n sv' h"
    using dispatch_list_ok [OF ok assms(2)] assms(1) e(1) by (simp add: synced_def)
  show "live now n h \<subseteq> set (rs_ips resp)"
  proof
    fix key assume "key \<in> live now n h"
    then obtain t where "elem_at now n h key = Some t" by (auto simp: live_def)
    then obtain dl where "gm_get ?keep key = Some dl" using m' unfolding mirrored_but_def by blast
    then show "key \<in> set (rs_ips resp)" unfolding e(2) by (force dest: gm_get_in_set)
  qed
qed

end
