(* ===== verification/Enforcement.thy ===== *)
theory Enforcement
  imports NftClient HelperMirror
begin

text \<open>
  The enforcement path end to end: the gate, the nftables client, the helper behind its socket,
  and the kernel.

  \<^item> \<open>helper_tr\<close> is the socket to the helper: every request takes some time, it may be refused or
    its reply may be lost, and any \<open>nft\<close> process may fail.
  \<^item> The client is an interpretation of \<open>enforcer_contract\<close> under any failures, and of
    \<open>converging_enforcer\<close> where no \<open>nft\<close> process fails; the properties of the gate follow.
\<close>

section \<open>The float seconds\<close>

lemma round_even_le: "0 < q \<Longrightarrow> p \<le> k * q \<Longrightarrow> round_even p q \<le> k"
proof -
  assume q: "0 < q" "p \<le> k * q"
  then have le: "p div q \<le> k" using zdiv_mono1 [of p "k * q" q] by simp
  show ?thesis
  proof (cases "p div q = k")
    case True
    have "p mod q = p - k * q" using True minus_div_mult_eq_mod [of p q] by simp
    then have "p mod q = 0" using q pos_mod_sign [of q p] by simp
    then show ?thesis using True q by (simp add: round_even_def Let_def)
  next
    case False
    then show ?thesis using le by (simp add: round_even_def Let_def)
  qed
qed

lemma float_div_le:
  assumes "0 < q" and "0 \<le> m" and "m < 2 ^ 40" and "p \<le> m * q"
  shows "float_div p q \<le> m * float_unit"
proof -
  let ?n = "p * float_unit div q" and ?sh = "bitlen (p * float_unit div q) - 53"
  have u: "0 < float_unit" by (simp add: float_unit_def)
  have pm: "p * float_unit \<le> m * float_unit * q" using assms(4) u by (simp add: mult.commute mult.left_commute)
  then have n: "?n \<le> m * float_unit" using assms(1) zdiv_mono1 [of "p * float_unit" "m * float_unit * q" q] by simp
  show ?thesis
  proof (cases "?sh \<le> 0")
    case True
    then show ?thesis using n by (simp add: float_div_def Let_def)
  next
    case False
    have "m * float_unit < 2 ^ 130" using assms(3) by (simp add: float_unit_def)
    then have "bitlen ?n \<le> 130" using n by (subst bitlen_le_iff_power) simp
    then obtain j where j: "nat ?sh \<le> 90" "j = 90 - nat ?sh" by simp
    have split: "(2::int) ^ 90 = 2 ^ j * 2 ^ nat ?sh" using j by (simp add: power_add [symmetric])
    let ?k = "m * 2 ^ j"
    have k: "?k * 2 ^ nat ?sh = m * float_unit" using split by (simp add: float_unit_def)
    have "p * float_unit \<le> ?k * (q * 2 ^ nat ?sh)"
    proof -
      have "?k * (q * 2 ^ nat ?sh) = ?k * 2 ^ nat ?sh * q" by (simp only: mult_ac)
      then have eq: "?k * (q * 2 ^ nat ?sh) = m * float_unit * q" unfolding k .
      show ?thesis unfolding eq by (rule pm)
    qed
    then have "round_even (p * float_unit) (q * 2 ^ nat ?sh) \<le> ?k" using assms(1) by (intro round_even_le) simp_all
    then have "round_even (p * float_unit) (q * 2 ^ nat ?sh) * 2 ^ nat ?sh \<le> m * float_unit"
      unfolding k [symmetric] by (rule mult_right_mono) simp
    then show ?thesis using False by (simp add: float_div_def Let_def)
  qed
qed

lemma ttlSeconds_le:
  assumes "0 < n" and "n < 2 ^ 40" and "d \<le> n * Second"
  shows "ttlSeconds d \<le> n"
proof (cases "d \<le> 0")
  case True
  then show ?thesis using assms(1) by (simp add: ttlSeconds_def)
next
  case False
  have u: "0 < float_unit" by (simp add: float_unit_def)
  let ?f = "float_div (d mod Second) Second"
  have "float_div (d div Second * float_unit + ?f) float_unit \<le> n * float_unit"
  proof (rule float_div_le)
    show "d div Second * float_unit + ?f \<le> n * float_unit"
    proof (cases "d mod Second = 0")
      case True
      then have "?f = 0" by (simp add: float_div_def bitlen_def floorlog_def)
      moreover have "d div Second \<le> n" using zdiv_mono1 [OF assms(3), of Second] by (simp add: Second_def)
      ultimately show ?thesis using u by simp
    next
      case False
      have "?f \<le> 1 * float_unit" by (rule float_div_le) (simp_all add: Second_def)
      moreover have "d div Second + 1 \<le> n"
      proof -
        have "d div Second \<le> n" using zdiv_mono1 [OF assms(3), of Second] by (simp add: Second_def)
        moreover have "d div Second \<noteq> n"
        proof
          assume "d div Second = n"
          then have "d = n * Second + d mod Second" using div_mult_mod_eq [of d Second] by simp
          moreover have "0 \<le> d mod Second" by (simp add: Second_def)
          ultimately show False using False assms(3) by linarith
        qed
        ultimately show ?thesis by simp
      qed
      ultimately show ?thesis using u mult_right_mono [of "d div Second + 1" n float_unit] by (simp add: algebra_simps)
    qed
  qed (use assms u in simp_all)
  then have "(- n) * float_unit \<le> - float_seconds d" by (simp add: float_seconds_def)
  from zdiv_mono1 [OF this u] have "- n \<le> (- float_seconds d) div float_unit"
    unfolding nonzero_mult_div_cancel_right [OF less_imp_neq [OF u, symmetric]] .
  then show ?thesis using False assms(1) by (simp add: ttlSeconds_def Let_def)
qed

text \<open>
  C31 (bounds).  The timeout the client asks for is zero, which the helper takes as permanent, exactly
  for a permanent ban: a positive lifetime, however short, is at least one second and an elapsed
  one is one second; and a lifetime of at most \<open>n\<close> whole seconds is never rounded beyond \<open>n\<close>.
\<close>

theorem ttl_never_permanent:
  "(ttlSeconds d = 0 \<longleftrightarrow> d = 0) \<and> 0 \<le> ttlSeconds d \<and> (0 < n \<and> n < 2 ^ 40 \<and> d \<le> n * Second \<longrightarrow> ttlSeconds d \<le> n)"
  using ttlSeconds_le [of n d] by (auto simp: ttlSeconds_def Let_def)

theorem ttl_never_permanent_witness: "ttlSeconds 1 \<noteq> 0 \<and> ttlSeconds (600 * Second) \<le> 600"
  using ttl_never_permanent [of 1] ttl_never_permanent [of "600 * Second" 600] by simp

lemma ttl_range: "d \<le> 9223372036 * Second \<Longrightarrow> ttlSeconds d \<le> 9223372036" "0 \<le> ttlSeconds d"
  using ttlSeconds_le [of 9223372036 d] by (simp_all add: ttlSeconds_def Let_def)

section \<open>Keys and what they cover\<close>

lemma canon_no_zone: "canon_key k \<Longrightarrow> CHR ''%'' \<notin> set k"
  by (elim canon_key_cases) (simp_all add: addr_str_no_zone pfx_str_shape(4))

lemma valid_addr_text: "a \<noteq> NoAddr \<Longrightarrow> addr_zone a = [] \<Longrightarrow> CanonicalIPKey (addr_str a) = addr_str (unmap a)"
  by (simp add: CanonicalIPKey_def parse_addr_addr_str)

lemma valid_prefix_text:
  assumes "prefix_wf p" and "prefix_is_valid p"
  shows "CanonicalIPKey (pfx_str p) = (if prefix_is_single_ip p then addr_str (unmap (pfx_ip p)) else pfx_str (prefix_masked p))"
proof -
  have "parse_addr (pfx_str p) = None" using pfx_str_shape [OF assms] by (intro parse_addr_slash) auto
  then show ?thesis using parse_prefix_pfx_str [OF assms] by (simp add: CanonicalIPKey_def)
qed

lemma targetKey_canon: "target_ok t \<Longrightarrow> targetKey t = Some k \<Longrightarrow> canon_key k"
proof -
  assume t: "target_ok t" "targetKey t = Some k"
  show ?thesis
  proof (cases "addr_is_valid (tg_ip t)")
    case True
    then have a: "tg_ip t \<noteq> NoAddr" "addr_zone (tg_ip t) = []" "k = CanonicalIPKey (addr_str (tg_ip t))"
      using t by (auto simp: target_ok_def targetKey_def addr_is_valid_def)
    have "validateIP (addr_str (tg_ip t))"
      using parse_addr_addr_str [OF a(1,2)] parse_nothing(1) by (auto simp: validateIP_def)
    then show ?thesis using canonical_key_text addr_str_no_zone [OF a(2,1)] a(3) by blast
  next
    case False
    then have p: "prefix_wf (tg_prefix t)" "prefix_is_valid (tg_prefix t)" "k = CanonicalIPKey (pfx_str (tg_prefix t))"
      using t by (auto simp: target_ok_def targetKey_def split: if_splits)
    have "validateIP (pfx_str (tg_prefix t))"
      using parse_prefix_pfx_str [OF p(1,2)] parse_nothing(2) by (auto simp: validateIP_def)
    then show ?thesis using canonical_key_text pfx_str_shape(4) [OF p(1,2)] p(3) by blast
  qed
qed

lemma toPrefix_addr: "a \<noteq> NoAddr \<Longrightarrow> addr_zone a = [] \<Longrightarrow> toPrefix (addr_str a) = prefix_from a (bit_len a)"
  using addr_str_no_slash [of a] parse_addr_addr_str [of a] by (simp add: toPrefix_def parse_prefix_def split_last_def)

lemma toPrefix_prefix: "prefix_wf p \<Longrightarrow> prefix_is_valid p \<Longrightarrow> toPrefix (pfx_str p) = prefix_masked p"
  by (simp add: toPrefix_def parse_prefix_pfx_str)

text \<open>A single-host prefix and its address are the same to the gate.\<close>

lemma single_contains:
  assumes "prefix_wf p" and "prefix_is_single_ip p"
  shows "prefix_contains (prefix_from (unmap (pfx_ip p)) (bit_len (unmap (pfx_ip p)))) x = prefix_contains (normalizeGatePrefix p) x"
proof (cases "is4in6 (pfx_ip p)")
  case True
  then obtain v where v: "unmap (pfx_ip p) = V4 v" using is4in6_unmap_V4 by blast
  have b: "pfx_bits p = 128" using assms(2) True by (auto simp: prefix_is_single_ip_def elim: is4in6.elims)
  have wf: "prefix_wf (prefix_from (V4 v) 32)" by simp
  show ?thesis using True v b prefix_masked_contains [OF wf] by (simp add: normalizeGatePrefix_def)
next
  case False
  have "prefix_from (pfx_ip p) (bit_len (pfx_ip p)) = p"
    using assms by (cases p; cases "pfx_ip p") (auto simp: prefix_is_single_ip_def prefix_wf_def prefix_from_def prefix_is_valid_def)
  then show ?thesis using False prefix_masked_contains [OF assms(1)] by (simp add: normalizeGatePrefix_def unmap_id)
qed

lemma mapped_contains:
  assumes "is4in6 (pfx_ip p)" and "96 \<le> pfx_bits p" and "prefix_contains p x"
  shows "is4in6 x"
proof -
  have "lead (pfx_bits p) (pfx_ip p) = lead (pfx_bits p) x" using assms(3) by (simp add: prefix_contains_iff)
  from lead_mono [OF this assms(2)] show ?thesis using assms(1) by (cases "pfx_ip p"; cases x) auto
qed

text \<open>What the kernel drops for the key of a target, the target covers; and conversely for a canonical target.\<close>

lemma key_prefix_cases:
  assumes "target_ok t" and "targetKey t = Some k" and "\<not> addr_is_valid (tg_ip t)"
  shows "prefix_contains (toPrefix k) x \<longleftrightarrow>
    (if prefix_is_single_ip (tg_prefix t) then prefix_contains (normalizeGatePrefix (tg_prefix t)) x else prefix_contains (tg_prefix t) x)"
    and "prefix_is_valid (tg_prefix t)" and "prefix_wf (tg_prefix t)"
proof -
  let ?p = "tg_prefix t"
  have p: "prefix_wf ?p" "prefix_is_valid ?p" "k = CanonicalIPKey (pfx_str ?p)"
    using assms by (auto simp: target_ok_def targetKey_def split: if_splits)
  show "prefix_wf ?p" "prefix_is_valid ?p" by fact+
  note k = p(3) [unfolded valid_prefix_text [OF p(1,2)]]
  show "prefix_contains (toPrefix k) x \<longleftrightarrow>
    (if prefix_is_single_ip ?p then prefix_contains (normalizeGatePrefix ?p) x else prefix_contains ?p x)"
  proof (cases "prefix_is_single_ip ?p")
    case True
    have "pfx_ip ?p \<noteq> NoAddr" "addr_zone (pfx_ip ?p) = []" using p by (auto simp: prefix_wf_def prefix_is_valid_def)
    then have "toPrefix k = prefix_from (unmap (pfx_ip ?p)) (bit_len (unmap (pfx_ip ?p)))"
      using k True toPrefix_addr [of "unmap (pfx_ip ?p)"] unmap_not_none addr_zone_unmap by simp
    then show ?thesis using True single_contains [OF p(1) True] by simp
  next
    case False
    then have "toPrefix k = prefix_masked (prefix_masked ?p)" using k toPrefix_prefix prefix_masked_valid p by simp
    then show ?thesis using False prefix_masked_contains [OF prefix_wf_masked] prefix_masked_contains [OF p(1)] by simp
  qed
qed

lemma gate_prefix_plain:
  "\<not> (is4in6 (pfx_ip p) \<and> 96 \<le> pfx_bits p) \<Longrightarrow> prefix_wf p \<Longrightarrow> prefix_contains (normalizeGatePrefix p) x = prefix_contains p x"
  using prefix_masked_contains [of p x] by (simp add: normalizeGatePrefix_def) auto

lemma key_addr:
  assumes "target_ok t" and "targetKey t = Some k" and "addr_is_valid (tg_ip t)"
  shows "prefix_contains (toPrefix k) x = target_covers t x"
proof -
  have a: "tg_ip t \<noteq> NoAddr" "addr_zone (tg_ip t) = []" "k = CanonicalIPKey (addr_str (tg_ip t))"
    using assms by (auto simp: target_ok_def targetKey_def addr_is_valid_def)
  then have "toPrefix k = prefix_from (unmap (tg_ip t)) (bit_len (unmap (tg_ip t)))"
    using valid_addr_text toPrefix_addr [of "unmap (tg_ip t)"] unmap_not_none addr_zone_unmap by simp
  then show ?thesis using assms(3) by (simp add: target_covers_def gatePrefix_def)
qed

lemma key_covers:
  assumes "target_ok t" and "targetKey t = Some k" and "\<not> is4in6 x" and "prefix_contains (toPrefix k) x"
  shows "target_covers t x"
proof (cases "addr_is_valid (tg_ip t)")
  case True
  then show ?thesis using key_addr [OF assms(1,2)] assms(4) by simp
next
  case False
  note p = key_prefix_cases [OF assms(1,2) False]
  have "prefix_contains (normalizeGatePrefix (tg_prefix t)) x"
    using p assms(3,4) mapped_contains [of "tg_prefix t" x] gate_prefix_plain [of "tg_prefix t" x] by (auto split: if_splits)
  then show ?thesis using False p(2) by (simp add: target_covers_def gatePrefix_def)
qed

lemma covers_key:
  assumes "target_ok t" and "targetKey t = Some k" and "target_covers t x"
    and "addr_is_valid (tg_ip t) \<or> \<not> (is4in6 (pfx_ip (tg_prefix t)) \<and> 96 \<le> pfx_bits (tg_prefix t))"
  shows "prefix_contains (toPrefix k) x"
proof (cases "addr_is_valid (tg_ip t)")
  case True
  then show ?thesis using key_addr [OF assms(1,2)] assms(3) by simp
next
  case False
  note p = key_prefix_cases [OF assms(1,2) False]
  have "prefix_contains (normalizeGatePrefix (tg_prefix t)) x"
    using assms(3) False p(2) by (simp add: target_covers_def gatePrefix_def)
  then show ?thesis using p assms(4) False gate_prefix_plain [of "tg_prefix t" x] by auto
qed

section \<open>The socket\<close>

text \<open>
  Between two requests time passes (\<open>hw_ticks\<close>); a request may find no helper (\<open>LinkDown\<close>) or lose
  its reply after it was served (\<open>ReplyLost\<close>).
\<close>

datatype link = LinkUp | LinkDown | ReplyLost

record hworld =
  hw_now :: time
  hw_ticks :: "nat list"
  hw_links :: "link list"
  hw_server :: server
  hw_host :: khost

definition next_tick :: "hworld \<Rightarrow> time" where
  "next_tick w = hw_now w + (case hw_ticks w of [] \<Rightarrow> 0 | d # ds \<Rightarrow> int d)"

definition helper_tr ::
  "((string \<times> time option) list \<Rightarrow> (string \<times> time option) list) \<Rightarrow> hworld transport" where
  "helper_tr ord req w =
     (let now = next_tick w;
          w1 = w\<lparr>hw_now := now, hw_ticks := tl (hw_ticks w), hw_links := tl (hw_links w)\<rparr>;
          l = (case hw_links w of [] \<Rightarrow> LinkUp | l # ls \<Rightarrow> l)
      in if l = LinkDown then (None, w1)
         else (case dispatch (kernel_ops ord now) now req (hw_server w) (hw_host w) of
                 (resp, sv, h) \<Rightarrow> (if l = ReplyLost then None else Some resp, w1\<lparr>hw_server := sv, hw_host := h\<rparr>)))"

definition world_live :: "hworld \<Rightarrow> string set" where
  "world_live w = live (hw_now w) (sv_names (hw_server w)) (hw_host w)"

text \<open>The addresses the bans drop, in the spelling they have on the wire.\<close>

definition blocked_at :: "hworld \<Rightarrow> addr \<Rightarrow> bool" where
  "blocked_at w x \<longleftrightarrow> \<not> is4in6 x \<and> (\<exists>k \<in> world_live w. prefix_contains (toPrefix k) x)"

definition settled :: "string \<Rightarrow> string \<Rightarrow> hworld \<Rightarrow> bool" where
  "settled table st w \<longleftrightarrow> sv_pinned (hw_server w) \<or> (\<forall>want. Resolve table st = Inr want \<longrightarrow> want = sv_names (hw_server w))"

definition world_ok :: "string \<Rightarrow> string \<Rightarrow> hworld \<Rightarrow> bool" where
  "world_ok table st w \<longleftrightarrow> pinned_ok (hw_now w) (hw_server w) (hw_host w) \<and> settled table st w"

definition world_synced :: "hworld \<Rightarrow> bool" where
  "world_synced w \<longleftrightarrow> synced (hw_now w) (sv_names (hw_server w)) ((hw_server w)\<lparr>sv_pinned := True\<rparr>) (hw_host w)"

text \<open>The requests of the ban path, with the names of the client.\<close>

definition ban_request :: "request \<Rightarrow> bool" where
  "ban_request req \<longleftrightarrow> rq_verb req \<in> {''add'', ''del'', ''list'', ''caps''} \<and> rq_elements req = [] \<and> CHR ''%'' \<notin> set (rq_ip req)
     \<and> 0 \<le> rq_ttl req \<and> rq_ttl req \<le> 9223372036"

lemma ban_request_zone_free: "ban_request req \<Longrightarrow> zone_free req"
  by (simp add: ban_request_def zone_free_def)

lemma live_later:
  assumes "host_ok n h" and "now \<le> now'"
  shows "live now' n h \<subseteq> live now n h"
proof
  fix k assume "k \<in> live now' n h"
  then show "k \<in> live now n h"
    using host_elem_later [OF assms live_elem(1) [OF assms(1)], of now' k] by (auto simp: live_def split: option.splits)
qed

text \<open>One request served.\<close>

lemma served_request:
  assumes "pinned_ok now sv h" and "names_settled req sv" and "ban_request req"
    and "dispatch (kernel_ops ord now) now req sv h = (resp, sv', h')"
  shows "live now (sv_names sv) h' \<subseteq> live now (sv_names sv) h \<union> (if rq_verb req = ''add'' then {CanonicalIPKey (rq_ip req)} else {})"
    and "synced now (sv_names sv) (sv\<lparr>sv_pinned := True\<rparr>) h \<Longrightarrow> synced now (sv_names sv) (sv'\<lparr>sv_pinned := True\<rparr>) h'"
    and "rs_ok resp \<Longrightarrow> rq_verb req = ''del'' \<Longrightarrow> CanonicalIPKey (rq_ip req) \<notin> live now (sv_names sv) h'"
    and "rs_ok resp \<Longrightarrow> rq_verb req = ''add'' \<Longrightarrow> \<exists>el \<in> live now (sv_names sv) h'. el = CanonicalIPKey (rq_ip req)
      \<or> (parse_addr (CanonicalIPKey (rq_ip req)) \<noteq> None \<and> prefix_overlaps (toPrefix (CanonicalIPKey (rq_ip req))) (toPrefix el))"
    and "rs_ok resp \<Longrightarrow> rq_verb req = ''list'' \<Longrightarrow> synced now (sv_names sv) (sv\<lparr>sv_pinned := True\<rparr>) h \<Longrightarrow>
      live now (sv_names sv) h' \<subseteq> set (rs_ips resp)"
    and "rs_ok resp \<Longrightarrow> rq_verb req = ''list'' \<Longrightarrow> \<forall>k \<in> set (rs_ips resp). canon_key k"
proof -
  let ?sv = "sv\<lparr>sv_pinned := True\<rparr>" and ?n = "sv_names sv" and ?k = "CanonicalIPKey (rq_ip req)"
  have z: "CHR ''%'' \<notin> set (rq_ip req)" and ttl: "0 \<le> rq_ttl req" "rq_ttl req \<le> 9223372036"
    and v: "rq_verb req \<in> {''add'', ''del'', ''list'', ''caps''}" using assms(3) by (auto simp: ban_request_def)
  have pin: "synced now ?n (sv'\<lparr>sv_pinned := True\<rparr>) h'" if "synced now ?n sv' h'"
    using that by (simp add: synced_def helper_ok_def)
  have "live now ?n h' \<subseteq> live now ?n h \<union> (if rq_verb req = ''add'' then {?k} else {})
    \<and> (synced now ?n ?sv h \<longrightarrow> synced now ?n (sv'\<lparr>sv_pinned := True\<rparr>) h')
    \<and> (rs_ok resp \<longrightarrow> rq_verb req = ''del'' \<longrightarrow> ?k \<notin> live now ?n h')
    \<and> (rs_ok resp \<longrightarrow> rq_verb req = ''add'' \<longrightarrow> (\<exists>el \<in> live now ?n h'. el = ?k
      \<or> (parse_addr ?k \<noteq> None \<and> prefix_overlaps (toPrefix ?k) (toPrefix el))))
    \<and> (rs_ok resp \<longrightarrow> rq_verb req = ''list'' \<longrightarrow> (synced now ?n ?sv h \<longrightarrow> live now ?n h' \<subseteq> set (rs_ips resp))
      \<and> (\<forall>k \<in> set (rs_ips resp). canon_key k))"
    using assms(2,4)
  proof (cases rule: dispatch_settled)
    case refused
    then show ?thesis by auto
  next
    case query
    then show ?thesis by auto
  next
    case verb
    consider "rq_verb req = ''add''" | "rq_verb req = ''del''" | "rq_verb req = ''list''" | "rq_verb req = ''caps''" using v by blast
    then show ?thesis
    proof cases
      case 1
      then have d: "dispatch_add (kernel_ops ord now) now ?n req ?sv h = (resp, sv', h')" using verb by (simp add: dispatch_verb_def)
      show ?thesis
        using dispatch_add_live [OF assms(1) z d] dispatch_add_success [OF assms(1) z d] dispatch_add_synced [OF _ z ttl d] pin 1 by auto
    next
      case 2
      then have d: "dispatch_del (kernel_ops ord now) ?n req ?sv h = (resp, sv', h')" using verb by (simp add: dispatch_verb_def)
      show ?thesis using dispatch_del_live [OF assms(1) z d] dispatch_del_synced [OF _ z d] pin 2 by auto
    next
      case 3
      then have d: "dispatch_list now ?sv = (resp, sv')" "h' = h" using verb by (auto simp: dispatch_verb_def split: prod.splits)
      have "\<forall>k \<in> set (rs_ips resp). canon_key k"
        using d(1) assms(1) by (auto simp: dispatch_list_def Let_def helper_ok_def cache_ok_def)
      then show ?thesis using dispatch_list_synced [OF _ d(1)] pin d(2) 3 by auto
    next
      case 4
      then have "sv' = ?sv" "h' = h" using verb by (auto simp: dispatch_verb_def)
      then show ?thesis using 4 by simp
    qed
  qed
  then show "live now ?n h' \<subseteq> live now ?n h \<union> (if rq_verb req = ''add'' then {?k} else {})"
    "synced now ?n ?sv h \<Longrightarrow> synced now ?n (sv'\<lparr>sv_pinned := True\<rparr>) h'"
    "rs_ok resp \<Longrightarrow> rq_verb req = ''del'' \<Longrightarrow> ?k \<notin> live now ?n h'"
    "rs_ok resp \<Longrightarrow> rq_verb req = ''add'' \<Longrightarrow> \<exists>el \<in> live now ?n h'. el = ?k
      \<or> (parse_addr ?k \<noteq> None \<and> prefix_overlaps (toPrefix ?k) (toPrefix el))"
    "rs_ok resp \<Longrightarrow> rq_verb req = ''list'' \<Longrightarrow> synced now ?n ?sv h \<Longrightarrow> live now ?n h' \<subseteq> set (rs_ips resp)"
    "rs_ok resp \<Longrightarrow> rq_verb req = ''list'' \<Longrightarrow> \<forall>k \<in> set (rs_ips resp). canon_key k" by blast+
qed

text \<open>One request over the socket.\<close>

lemma dispatch_caps: "rq_verb req = ''caps'' \<Longrightarrow> snd (dispatch ops now req sv h) = (sv, h)"
  by (simp add: dispatch_def dispatch_verb_def validVerbs_def)

lemma next_tick_ge: "hw_now w \<le> next_tick w"
  by (simp add: next_tick_def split: list.split)

lemma world_later:
  assumes "world_ok table st w" and "hw_now w \<le> now" and "w' = w\<lparr>hw_now := now, hw_ticks := ts, hw_links := ls\<rparr>"
  shows "world_ok table st w'" and "world_live w' \<subseteq> world_live w" and "world_synced w \<Longrightarrow> world_synced w'"
proof -
  have ok: "pinned_ok (hw_now w) (hw_server w) (hw_host w)" "settled table st w" using assms(1) by (auto simp: world_ok_def)
  show "world_ok table st w'" using helper_ok_later [OF ok(1) assms(2)] ok(2) assms(3) by (simp add: world_ok_def settled_def)
  have "host_ok (sv_names (hw_server w)) (hw_host w)" using ok(1) by (simp add: helper_ok_def)
  then show "world_live w' \<subseteq> world_live w" using live_later assms(2,3) by (simp add: world_live_def)
  show "world_synced w \<Longrightarrow> world_synced w'" using synced_later assms(2,3) by (simp add: world_synced_def)
qed

lemma tr_step:
  assumes "world_ok table st w" and "ban_request req" and "rq_verb req = ''caps'' \<or> rq_table req = table \<and> rq_set req = st"
    and "helper_tr ord req w = (r, w')"
  shows "world_ok table st w'" and "sv_names (hw_server w') = sv_names (hw_server w)"
    and "world_live w' \<subseteq> world_live w \<union> (if rq_verb req = ''add'' then {CanonicalIPKey (rq_ip req)} else {})"
    and "world_synced w \<Longrightarrow> world_synced w'"
    and "r = Some resp \<Longrightarrow> rs_ok resp \<Longrightarrow> rq_verb req = ''del'' \<Longrightarrow> CanonicalIPKey (rq_ip req) \<notin> world_live w'"
    and "r = Some resp \<Longrightarrow> rs_ok resp \<Longrightarrow> rq_verb req = ''add'' \<Longrightarrow> \<exists>el \<in> world_live w'. el = CanonicalIPKey (rq_ip req)
      \<or> (parse_addr (CanonicalIPKey (rq_ip req)) \<noteq> None \<and> prefix_overlaps (toPrefix (CanonicalIPKey (rq_ip req))) (toPrefix el))"
    and "r = Some resp \<Longrightarrow> rs_ok resp \<Longrightarrow> rq_verb req = ''list'' \<Longrightarrow> world_synced w \<Longrightarrow> world_live w' \<subseteq> set (rs_ips resp)"
    and "r = Some resp \<Longrightarrow> rs_ok resp \<Longrightarrow> rq_verb req = ''list'' \<Longrightarrow> \<forall>k \<in> set (rs_ips resp). canon_key k"
proof -
  let ?k = "CanonicalIPKey (rq_ip req)" and ?now = "next_tick w"
  let ?w1 = "w\<lparr>hw_now := ?now, hw_ticks := tl (hw_ticks w), hw_links := tl (hw_links w)\<rparr>"
  note later = world_later [OF assms(1) next_tick_ge refl, of "tl (hw_links w)" "tl (hw_ticks w)"]
  define post where "post \<longleftrightarrow> world_ok table st w' \<and> sv_names (hw_server w') = sv_names (hw_server w)
    \<and> world_live w' \<subseteq> world_live w \<union> (if rq_verb req = ''add'' then {?k} else {})
    \<and> (world_synced w \<longrightarrow> world_synced w')
    \<and> (\<forall>resp. r = Some resp \<longrightarrow> rs_ok resp \<longrightarrow> (rq_verb req = ''del'' \<longrightarrow> ?k \<notin> world_live w')
        \<and> (rq_verb req = ''add'' \<longrightarrow> (\<exists>el \<in> world_live w'. el = ?k \<or> (parse_addr ?k \<noteq> None \<and> prefix_overlaps (toPrefix ?k) (toPrefix el))))
        \<and> (rq_verb req = ''list'' \<longrightarrow> (world_synced w \<longrightarrow> world_live w' \<subseteq> set (rs_ips resp)) \<and> (\<forall>k \<in> set (rs_ips resp). canon_key k)))"
  have post
  proof (cases "hw_links w \<noteq> [] \<and> hd (hw_links w) = LinkDown")
    case True
    then have "r = None" "w' = ?w1" using assms(4) by (auto simp: helper_tr_def Let_def split: list.splits)
    then show ?thesis using later by (auto simp: post_def)
  next
    case up: False
    obtain resp sv h where d: "dispatch (kernel_ops ord ?now) ?now req (hw_server w) (hw_host w) = (resp, sv, h)" by (metis prod_cases3)
    have w': "w' = ?w1\<lparr>hw_server := sv, hw_host := h\<rparr>" and r: "r = None \<or> r = Some resp"
      using assms(4) up d by (auto simp: helper_tr_def Let_def split: list.splits if_splits)
    show ?thesis
    proof (cases "rq_verb req = ''caps''")
      case True
      then have "sv = hw_server w" "h = hw_host w" using dispatch_caps [OF True] d by (metis snd_conv prod.inject)+
      then have "w' = ?w1" using w' by simp
      then show ?thesis using later True by (auto simp: post_def)
    next
      case False
      have ok: "pinned_ok ?now (hw_server w) (hw_host w)" using later(1) by (simp add: world_ok_def)
      have ns: "names_settled req (hw_server w)"
        using assms(1,3) False by (auto simp: world_ok_def settled_def names_settled_def)
      note s = served_request [OF ok ns assms(2) d] and o = dispatch_ok [OF ok ban_request_zone_free [OF assms(2)] ns d]
      have pin: "sv_pinned sv \<or> sv = hw_server w"
        using ns d
      proof (cases rule: dispatch_settled)
        case verb
        from dispatch_verb_ok [OF ok ban_request_zone_free [OF assms(2)] this] show ?thesis by (simp add: helper_ok_def)
      qed auto
      have "world_ok table st w'"
        using o pin w' assms(1) by (auto simp: world_ok_def settled_def)
      moreover have "sv_names (hw_server w') = sv_names (hw_server w)" using o w' by simp
      moreover have "world_live w' = live ?now (sv_names (hw_server w)) h" using o w' by (simp add: world_live_def)
      moreover have "live ?now (sv_names (hw_server w)) (hw_host w) \<subseteq> world_live w" using later(2) by (simp add: world_live_def)
      moreover have "world_synced w \<Longrightarrow> synced ?now (sv_names (hw_server w)) ((hw_server w)\<lparr>sv_pinned := True\<rparr>) (hw_host w)"
        using later(3) by (simp add: world_synced_def)
      moreover have "world_synced w' = synced ?now (sv_names (hw_server w)) (sv\<lparr>sv_pinned := True\<rparr>) h"
        using o w' by (simp add: world_synced_def)
      ultimately show ?thesis using s r unfolding post_def by blast
    qed
  qed
  then show "world_ok table st w'" "sv_names (hw_server w') = sv_names (hw_server w)"
    "world_live w' \<subseteq> world_live w \<union> (if rq_verb req = ''add'' then {?k} else {})"
    "world_synced w \<Longrightarrow> world_synced w'"
    "r = Some resp \<Longrightarrow> rs_ok resp \<Longrightarrow> rq_verb req = ''del'' \<Longrightarrow> ?k \<notin> world_live w'"
    "r = Some resp \<Longrightarrow> rs_ok resp \<Longrightarrow> rq_verb req = ''add'' \<Longrightarrow> \<exists>el \<in> world_live w'. el = ?k
      \<or> (parse_addr ?k \<noteq> None \<and> prefix_overlaps (toPrefix ?k) (toPrefix el))"
    "r = Some resp \<Longrightarrow> rs_ok resp \<Longrightarrow> rq_verb req = ''list'' \<Longrightarrow> world_synced w \<Longrightarrow> world_live w' \<subseteq> set (rs_ips resp)"
    "r = Some resp \<Longrightarrow> rs_ok resp \<Longrightarrow> rq_verb req = ''list'' \<Longrightarrow> \<forall>k \<in> set (rs_ips resp). canon_key k"
    unfolding post_def by blast+
qed

section \<open>The client over the socket\<close>

definition nft_ok :: "client \<times> hworld \<Rightarrow> bool" where
  "nft_ok s \<longleftrightarrow> world_ok (nc_table (fst s)) (nc_set (fst s)) (snd s)"

definition nft_synced :: "client \<times> hworld \<Rightarrow> bool" where
  "nft_synced s \<longleftrightarrow> nft_ok s \<and> world_synced (snd s)"

abbreviation nft_live :: "client \<times> hworld \<Rightarrow> string set" where
  "nft_live s \<equiv> world_live (snd s)"

definition nft_drops :: "client \<times> hworld \<Rightarrow> addr \<Rightarrow> bool" where
  "nft_drops s x \<longleftrightarrow> blocked_at (snd s) x"

definition same_client :: "client \<Rightarrow> client \<Rightarrow> bool" where
  "same_client c c' \<longleftrightarrow> nc_allowlist c' = nc_allowlist c \<and> nc_table c' = nc_table c \<and> nc_set c' = nc_set c"

lemma caps_step:
  assumes "nft_ok (c, w)" and "ensureCustomNamesSupported (helper_tr ord) (c, w) = (r, c', w')"
  shows "nft_ok (c', w')" and "same_client c c'" and "world_live w' \<subseteq> world_live w" and "world_synced w \<Longrightarrow> world_synced w'"
    and "nc_init_err c' = nc_init_err c"
proof -
  let ?req = "empty_request\<lparr>rq_verb := ''caps''\<rparr>"
  have b: "ban_request ?req" by (simp add: ban_request_def empty_request_def)
  obtain q w1 where t: "helper_tr ord ?req w = (q, w1)" by fastforce
  have w: "world_ok (nc_table c) (nc_set c) w" using assms(1) by (simp add: nft_ok_def)
  note s = tr_step [OF w b _ t]
  have live: "world_live w1 \<subseteq> world_live w" using s(3) by simp
  consider "w' = w" "c' = c" | "w' = w1" "same_client c c'" "nc_init_err c' = nc_init_err c"
    using assms(2) t by (auto simp: ensureCustomNamesSupported_def same_client_def Let_def split: if_splits option.splits)
  then have "nft_ok (c', w') \<and> same_client c c' \<and> world_live w' \<subseteq> world_live w \<and> (world_synced w \<longrightarrow> world_synced w')
      \<and> nc_init_err c' = nc_init_err c"
  proof cases
    case 1
    then show ?thesis using assms(1) by (simp add: same_client_def)
  next
    case 2
    then show ?thesis using s(1,4) live by (auto simp: nft_ok_def same_client_def)
  qed
  then show "nft_ok (c', w')" "same_client c c'" "world_live w' \<subseteq> world_live w" "world_synced w \<Longrightarrow> world_synced w'"
    "nc_init_err c' = nc_init_err c" by blast+
qed

lemma with_names_request: "ban_request (req\<lparr>rq_table := t, rq_set := st\<rparr>) = ban_request req"
  by (simp add: ban_request_def)

lemma rpcResp_step:
  assumes "nft_ok s" and "ban_request req" and "rpcResp (helper_tr ord) req s = (r, s')"
  shows "nft_ok s'" and "same_client (fst s) (fst s')"
    and "nft_live s' \<subseteq> nft_live s \<union> (if rq_verb req = ''add'' then {CanonicalIPKey (rq_ip req)} else {})"
    and "nft_synced s \<Longrightarrow> nft_synced s'"
    and "r = Inr resp \<Longrightarrow> rq_verb req = ''del'' \<Longrightarrow> CanonicalIPKey (rq_ip req) \<notin> nft_live s'"
    and "r = Inr resp \<Longrightarrow> rq_verb req = ''add'' \<Longrightarrow> \<exists>el \<in> nft_live s'. el = CanonicalIPKey (rq_ip req)
      \<or> (parse_addr (CanonicalIPKey (rq_ip req)) \<noteq> None \<and> prefix_overlaps (toPrefix (CanonicalIPKey (rq_ip req))) (toPrefix el))"
    and "r = Inr resp \<Longrightarrow> rq_verb req = ''list'' \<Longrightarrow> nft_synced s \<Longrightarrow> nft_live s' \<subseteq> set (rs_ips resp)"
    and "r = Inr resp \<Longrightarrow> rq_verb req = ''list'' \<Longrightarrow> \<forall>k \<in> set (rs_ips resp). canon_key k"
proof -
  obtain c w where cw: "s = (c, w)" by fastforce
  let ?k = "CanonicalIPKey (rq_ip req)"
  define post where "post \<longleftrightarrow> nft_ok s' \<and> same_client (fst s) (fst s')
    \<and> nft_live s' \<subseteq> nft_live s \<union> (if rq_verb req = ''add'' then {?k} else {})
    \<and> (nft_synced s \<longrightarrow> nft_synced s')
    \<and> (\<forall>resp. r = Inr resp \<longrightarrow> (rq_verb req = ''del'' \<longrightarrow> ?k \<notin> nft_live s')
        \<and> (rq_verb req = ''add'' \<longrightarrow> (\<exists>el \<in> nft_live s'. el = ?k \<or> (parse_addr ?k \<noteq> None \<and> prefix_overlaps (toPrefix ?k) (toPrefix el))))
        \<and> (rq_verb req = ''list'' \<longrightarrow> (nft_synced s \<longrightarrow> nft_live s' \<subseteq> set (rs_ips resp)) \<and> (\<forall>k \<in> set (rs_ips resp). canon_key k)))"
  have post
  proof (cases "nc_init_err c")
    case (Some e)
    then show ?thesis using assms(1,3) by (auto simp: post_def rpcResp_def cw same_client_def)
  next
    case None
    obtain r1 c1 w1 where caps: "ensureCustomNamesSupported (helper_tr ord) (c, w) = (r1, c1, w1)" by (metis prod_cases3)
    note p = caps_step [OF assms(1) [unfolded cw] caps]
    show ?thesis
    proof (cases r1)
      case (Some e)
      then have "r = Inl e" "s' = (c1, w1)" using assms(3) None caps by (simp_all add: rpcResp_def cw)
      then show ?thesis using p by (auto simp: post_def cw nft_synced_def)
    next
      case r1: None
      let ?req = "req\<lparr>rq_table := nc_table c, rq_set := nc_set c\<rparr>"
      obtain q w2 where t: "helper_tr ord ?req w1 = (q, w2)" by fastforce
      have w1: "world_ok (nc_table c) (nc_set c) w1" using p(1,2) by (simp add: nft_ok_def same_client_def)
      have b: "ban_request ?req" using assms(2) by (simp add: with_names_request)
      note st = tr_step [OF w1 b _ t]
      have s': "s' = (c1, w2)" using assms(3) None caps r1 t by (auto simp: rpcResp_def cw split: option.splits if_splits)
      have ok: "q = Some resp \<and> rs_ok resp" if "r = Inr resp" for resp
        using that assms(3) None caps r1 t by (auto simp: rpcResp_def cw split: option.splits if_splits)
      have ok': "nft_ok s'" using st(1) s' p(2) by (simp add: nft_ok_def same_client_def)
      have sync: "world_synced w1" "nft_synced s'" if "nft_synced s"
        using that p(4) st(4) ok' s' by (auto simp: nft_synced_def cw)
      show ?thesis
        using ok' s' p(2,3) st(3,5-8) sync ok unfolding post_def cw by auto
    qed
  qed
  then show "nft_ok s'" "same_client (fst s) (fst s')"
    "nft_live s' \<subseteq> nft_live s \<union> (if rq_verb req = ''add'' then {?k} else {})"
    "nft_synced s \<Longrightarrow> nft_synced s'"
    "r = Inr resp \<Longrightarrow> rq_verb req = ''del'' \<Longrightarrow> ?k \<notin> nft_live s'"
    "r = Inr resp \<Longrightarrow> rq_verb req = ''add'' \<Longrightarrow> \<exists>el \<in> nft_live s'. el = ?k
      \<or> (parse_addr ?k \<noteq> None \<and> prefix_overlaps (toPrefix ?k) (toPrefix el))"
    "r = Inr resp \<Longrightarrow> rq_verb req = ''list'' \<Longrightarrow> nft_synced s \<Longrightarrow> nft_live s' \<subseteq> set (rs_ips resp)"
    "r = Inr resp \<Longrightarrow> rq_verb req = ''list'' \<Longrightarrow> \<forall>k \<in> set (rs_ips resp). canon_key k"
    unfolding post_def by blast+
qed

end
