(* ===== verification/GatedRuns.thy ===== *)
theory GatedRuns
  imports Enforcement
begin

text \<open>
  The contract of the nftables client, and what the gate makes of it: runs of bans, lifts and
  reconciles through the gate never drop a protected address, a reconcile heals, and a ban that
  succeeds is enforced.
\<close>

section \<open>One ban, one lift\<close>

lemma add_ban_request: "target_ok t \<Longrightarrow> canon_key k \<Longrightarrow> ban_request (add_request k t)"
  using ttl_range [of "tg_ttl t"] canon_no_zone [of k]
  by (simp add: ban_request_def add_request_def empty_request_def target_ok_def)

lemma del_ban_request: "canon_key k \<Longrightarrow> ban_request (del_request k)"
  using canon_no_zone [of k] by (simp add: ban_request_def del_request_def empty_request_def)

lemma list_ban_request: "ban_request (empty_request\<lparr>rq_verb := ''list''\<rparr>)"
  by (simp add: ban_request_def empty_request_def)

lemma request_fields [simp]:
  "rq_verb (add_request k t) = ''add''" "rq_ip (add_request k t) = k" "rq_verb (del_request k) = ''del''" "rq_ip (del_request k) = k"
  by (simp_all add: add_request_def del_request_def)

lemma same_client_trans: "same_client a b \<Longrightarrow> same_client b c \<Longrightarrow> same_client a c"
  by (simp add: same_client_def)

lemma same_client_refl [simp]: "same_client c c"
  by (simp add: same_client_def)

text \<open>What a request of the ban path may change: the state stays good, and nothing becomes live but \<open>K\<close>.\<close>

definition moves :: "string set \<Rightarrow> client \<times> hworld \<Rightarrow> client \<times> hworld \<Rightarrow> bool" where
  "moves K s s' \<longleftrightarrow> nft_ok s' \<and> same_client (fst s) (fst s') \<and> nft_live s' \<subseteq> nft_live s \<union> K \<and> (nft_synced s \<longrightarrow> nft_synced s')"

lemma moves_refl: "nft_ok s \<Longrightarrow> moves K s s"
  by (simp add: moves_def)

lemma moves_trans: "moves K s s1 \<Longrightarrow> moves K s1 s2 \<Longrightarrow> moves K s s2"
  unfolding moves_def using same_client_trans by blast

lemma moves_mono: "moves K s s' \<Longrightarrow> K \<subseteq> L \<Longrightarrow> moves L s s'"
  unfolding moves_def by blast

lemma moves_ok: "moves K s s' \<Longrightarrow> nft_ok s'"
  by (simp add: moves_def)

lemma add_moves:
  assumes "nft_ok s" and "target_ok t" and "canon_key k" and "rpcResp (helper_tr ord) (add_request k t) s = (r, s')"
  shows "moves {k} s s'"
  using rpcResp_step(1-4) [OF assms(1) add_ban_request [OF assms(2,3)] assms(4)] canonical_fixed [OF assms(3)]
  by (simp add: moves_def)

lemma del_moves:
  assumes "nft_ok s" and "canon_key k" and "rpcResp (helper_tr ord) (del_request k) s = (r, s')"
  shows "moves {} s s'" and "r = Inr resp \<Longrightarrow> k \<notin> nft_live s'"
  using rpcResp_step(1-5) [OF assms(1) del_ban_request [OF assms(2)] assms(3)] canonical_fixed [OF assms(2)]
  by (simp_all add: moves_def)

lemma list_moves:
  assumes "nft_ok s" and "listIPs (helper_tr ord) s = (r, s')"
  shows "moves {} s s'" and "r = Inr ips \<Longrightarrow> \<forall>k \<in> set ips. canon_key k" and "r = Inr ips \<Longrightarrow> nft_synced s \<Longrightarrow> nft_live s' \<subseteq> set ips"
proof -
  obtain q s1 where q: "rpcResp (helper_tr ord) (empty_request\<lparr>rq_verb := ''list''\<rparr>) s = (q, s1)" by (metis surj_pair)
  have e: "s' = s1" "r = (case q of Inl e \<Rightarrow> Inl e | Inr resp \<Rightarrow> Inr (rs_ips resp))"
    using assms(2) q by (auto simp: listIPs_def listVerb_def split: sum.splits)
  note st = rpcResp_step [OF assms(1) list_ban_request q]
  show "moves {} s s'" using st(1-4) e by (simp add: moves_def)
  show "r = Inr ips \<Longrightarrow> \<forall>k \<in> set ips. canon_key k" using st(8) e(2) by (cases q) auto
  show "r = Inr ips \<Longrightarrow> nft_synced s \<Longrightarrow> nft_live s' \<subseteq> set ips" using st(7) e by (cases q) auto
qed

lemma rpc_moves:
  assumes "rpc tr req s = (r, s')"
  obtains q where "rpcResp tr req s = (q, s')" "r = None \<longleftrightarrow> (\<exists>resp. q = Inr resp)"
  using assms by (auto simp: rpc_def split: prod.splits sum.splits)

lemma client_Ban_moves:
  assumes "nft_ok s" and "target_ok t" and "client_Ban (helper_tr ord) t s = (r, s')"
  shows "moves {k. targetKey t = Some k} s s'"
proof (cases "targetOverlapsAllowlist t (nc_allowlist (fst s)) \<or> targetKey t = None")
  case True
  then have "s' = s" using assms(3) by (auto simp: client_Ban_def split: if_splits option.splits)
  then show ?thesis using moves_refl [OF assms(1)] by simp
next
  case False
  then obtain k where k: "targetKey t = Some k" "rpc (helper_tr ord) (add_request k t) s = (r, s')"
    using assms(3) by (auto simp: client_Ban_def split: if_splits)
  obtain q where "rpcResp (helper_tr ord) (add_request k t) s = (q, s')" using rpc_moves [OF k(2)] by blast
  from add_moves [OF assms(1,2) targetKey_canon [OF assms(2) k(1)] this] show ?thesis using k(1) by simp
qed

lemma client_Unban_moves:
  assumes "nft_ok s" and "target_ok t" and "client_Unban (helper_tr ord) t s = (r, s')"
  shows "moves {} s s'"
proof (cases "targetKey t")
  case None
  then show ?thesis using assms moves_refl by (simp add: client_Unban_def)
next
  case (Some k)
  then have "rpc (helper_tr ord) (del_request k) s = (r, s')" using assms(3) by (simp add: client_Unban_def)
  then obtain q where "rpcResp (helper_tr ord) (del_request k) s = (q, s')" using rpc_moves by blast
  from del_moves(1) [OF assms(1) targetKey_canon [OF assms(2) Some] this] show ?thesis .
qed

section \<open>The reconcile\<close>

definition good_wants :: "(string \<times> target) list \<Rightarrow> bool" where
  "good_wants xs \<longleftrightarrow> (\<forall>(k, t) \<in> set xs. target_ok t \<and> targetKey t = Some k)"

lemma good_wants_Cons [simp]: "good_wants ((k, t) # xs) \<longleftrightarrow> target_ok t \<and> targetKey t = Some k \<and> good_wants xs"
  by (simp add: good_wants_def)

lemma sync_adds_moves:
  assumes "nft_ok s" and "good_wants xs" and "sync_adds (helper_tr ord) cur xs s = (r, s')"
  shows "moves (fst ` set xs) s s' \<and> (\<forall>m cov. r = Inr (m, cov) \<longrightarrow> set cov \<subseteq> set xs)"
  using assms
proof (induction "helper_tr ord" cur xs s arbitrary: r rule: sync_adds.induct)
  case (1 cur s)
  then show ?case using moves_refl by auto
next
  case (2 cur k t xs s)
  show ?case
  proof (cases "k \<in> set cur")
    case True
    then have "moves (fst ` set xs) s s' \<and> (\<forall>m cov. r = Inr (m, cov) \<longrightarrow> set cov \<subseteq> set xs)"
      using 2 by simp
    then show ?thesis using moves_mono [of "fst ` set xs" s s' "fst ` set ((k, t) # xs)"] by auto
  next
    case False
    obtain q s1 where q: "rpcResp (helper_tr ord) (add_request k t) s = (q, s1)" by (metis surj_pair)
    have k: "canon_key k" using "2.prems"(2) targetKey_canon by auto
    have m1: "moves (fst ` set ((k, t) # xs)) s s1"
      using add_moves [OF "2.prems"(1) _ k q] "2.prems"(2) moves_mono by fastforce
    show ?thesis
    proof (cases q)
      case (Inl e)
      then show ?thesis using "2.prems"(3) False q m1 by auto
    next
      case (Inr resp)
      obtain r2 s2 where r2: "sync_adds (helper_tr ord) cur xs s1 = (r2, s2)" by (metis surj_pair)
      have s2: "s' = s2" using "2.prems"(3) False q Inr r2 by (auto split: sum.splits)
      have ih: "moves (fst ` set xs) s1 s2 \<and> (\<forall>m cov. r2 = Inr (m, cov) \<longrightarrow> set cov \<subseteq> set xs)"
        using "2.hyps"(2) [OF False q [symmetric] Inr moves_ok [OF m1]] "2.prems"(2) r2 s2 by simp
      have sub: "fst ` set xs \<subseteq> fst ` set ((k, t) # xs)" by auto
      have "moves (fst ` set ((k, t) # xs)) s s'"
        unfolding s2 by (rule moves_trans [OF m1 moves_mono [OF ih [THEN conjunct1] sub]])
      moreover have "\<forall>m cov. r = Inr (m, cov) \<longrightarrow> set cov \<subseteq> set ((k, t) # xs)"
        using "2.prems"(3) False q Inr r2 ih by (auto split: sum.splits if_splits)
      ultimately show ?thesis by blast
    qed
  qed
qed

lemma sync_dels_moves:
  assumes "nft_ok s" and "\<forall>k \<in> set ks. canon_key k" and "sync_dels (helper_tr ord) want ks s = (r, s')"
  shows "moves {} s s' \<and> (\<forall>m. r = Inr m \<longrightarrow> nft_live s' \<inter> {k \<in> set ks. gm_get want k = None} = {})"
  using assms
proof (induction ks arbitrary: s r s')
  case Nil
  then show ?case using moves_refl by auto
next
  case (Cons k ks)
  show ?case
  proof (cases "gm_get want k \<noteq> None")
    case True
    then have "sync_dels (helper_tr ord) want ks s = (r, s')" using Cons.prems(3) by simp
    from Cons.IH [OF Cons.prems(1) _ this] Cons.prems(2) True show ?thesis by auto
  next
    case False
    obtain q s1 where q: "rpcResp (helper_tr ord) (del_request k) s = (q, s1)" by (metis surj_pair)
    have k: "canon_key k" using Cons.prems(2) by simp
    note d = del_moves [OF Cons.prems(1) k q]
    show ?thesis
    proof (cases q)
      case (Inl e)
      then show ?thesis using Cons.prems(3) False q d(1) by auto
    next
      case (Inr resp)
      obtain r2 s2 where r2: "sync_dels (helper_tr ord) want ks s1 = (r2, s2)" by (metis surj_pair)
      have s2: "s' = s2" and r: "\<And>m. r = Inr m \<Longrightarrow> \<exists>m2. r2 = Inr m2"
        using Cons.prems(3) False q Inr r2 by (auto split: sum.splits)
      have ih: "moves {} s1 s2 \<and> (\<forall>m. r2 = Inr m \<longrightarrow> nft_live s2 \<inter> {k \<in> set ks. gm_get want k = None} = {})"
        using Cons.IH [OF moves_ok [OF d(1)] _ r2] Cons.prems(2) by simp
      have "k \<notin> nft_live s2" using d(2) [OF Inr] ih by (auto simp: moves_def)
      then show ?thesis using moves_trans [OF d(1)] ih r s2 by auto
    qed
  qed
qed

lemma sync_retry_moves:
  assumes "nft_ok s" and "good_wants xs" and "sync_retry (helper_tr ord) xs s = (r, s')"
  shows "moves (fst ` set xs) s s'"
  using assms
proof (induction xs arbitrary: s r s')
  case Nil
  then show ?case using moves_refl by auto
next
  case (Cons x xs)
  obtain k t where x: "x = (k, t)" by fastforce
  obtain q s1 where q: "rpcResp (helper_tr ord) (add_request k t) s = (q, s1)" by (metis surj_pair)
  have k: "canon_key k" "target_ok t" using Cons.prems(2) targetKey_canon x by auto
  have m1: "moves (fst ` set (x # xs)) s s1"
    using add_moves [OF Cons.prems(1) k(2,1) q] moves_mono [of "{k}" s s1 "fst ` set (x # xs)"] x by simp
  show ?case
  proof (cases q)
    case (Inl e)
    then show ?thesis using Cons.prems(3) q m1 x by simp
  next
    case (Inr resp)
    obtain r2 s2 where r2: "sync_retry (helper_tr ord) xs s1 = (r2, s2)" by (metis surj_pair)
    have s2: "s' = s2" using Cons.prems(3) q Inr r2 x by (auto split: sum.splits)
    have ih: "moves (fst ` set xs) s1 s2" using Cons.IH [OF moves_ok [OF m1] _ r2] Cons.prems(2) x by simp
    have sub: "fst ` set xs \<subseteq> fst ` set (x # xs)" by auto
    show ?thesis unfolding s2 by (rule moves_trans [OF m1 moves_mono [OF ih sub]])
  qed
qed

lemma wantSet_good:
  assumes "\<forall>t \<in> set want. target_ok t"
  shows "good_wants (wantSet allow want)" and "gm_get (wantSet allow want) k = Some t \<Longrightarrow> t \<in> set want"
    and "gm_get (wantSet allow want) k \<noteq> None \<Longrightarrow> \<exists>t \<in> set want. targetKey t = Some k"
proof -
  let ?f = "\<lambda>m t. if targetOverlapsAllowlist t allow then m else (case targetKey t of None \<Rightarrow> m | Some k \<Rightarrow> gm_set k t m)"
  let ?P = "\<lambda>m :: (string, target) gomap. \<forall>(k, t) \<in> set m. t \<in> set want \<and> targetKey t = Some k"
  have step: "?P (foldl ?f m ts)" if "?P m" "set ts \<subseteq> set want" for m ts
    using that
  proof (induction ts arbitrary: m)
    case (Cons t ts)
    have "?P (?f m t)" using Cons.prems by (auto split: option.splits dest!: gm_set_in)
    then show ?case using Cons.IH Cons.prems(2) by simp
  qed simp
  then have P: "?P (wantSet allow want)" unfolding wantSet_def by (intro step) simp_all
  then show "good_wants (wantSet allow want)" using assms by (auto simp: good_wants_def)
  show "gm_get (wantSet allow want) k = Some t \<Longrightarrow> t \<in> set want" using P gm_get_in_set by fastforce
  show "gm_get (wantSet allow want) k \<noteq> None \<Longrightarrow> \<exists>t \<in> set want. targetKey t = Some k" using P gm_get_in_set by fastforce
qed

text \<open>Go's map order: any arrangement of the entries.\<close>

definition orders_ok :: "((string \<times> target) list \<Rightarrow> (string \<times> target) list) \<Rightarrow> (string list \<Rightarrow> string list) \<Rightarrow> bool" where
  "orders_ok ow oc \<longleftrightarrow> (\<forall>xs. mset (ow xs) = mset xs) \<and> (\<forall>ks. mset (oc ks) = mset ks)"

lemma orders_set: "orders_ok ow oc \<Longrightarrow> set (ow xs) = set xs" "orders_ok ow oc \<Longrightarrow> set (oc ks) = set ks"
  by (metis orders_ok_def set_mset_mset)+

lemma good_wants_set: "set xs \<subseteq> set ys \<Longrightarrow> good_wants ys \<Longrightarrow> good_wants xs"
  by (auto simp: good_wants_def)

lemma currentSet_canon: "\<forall>k \<in> set ips. canon_key k \<Longrightarrow> set (currentSet ips) = set ips"
  using canonical_fixed by (force simp: currentSet_def image_iff)

lemma account_moves: "moves K s s' \<Longrightarrow> moves K s (sync_account a r (fst s'), snd s')"
  by (auto simp: moves_def nft_ok_def nft_synced_def same_client_def sync_account_def)

lemma client_Sync_moves:
  assumes "orders_ok ow oc" and "nft_ok s" and "\<forall>t \<in> set want. target_ok t"
    and "client_Sync (helper_tr ord) ow oc want s = (r, s')"
  shows "moves {k. \<exists>t \<in> set want. targetKey t = Some k} s s'"
    and "r = None \<Longrightarrow> nft_synced s \<Longrightarrow> nft_live s' \<subseteq> {k. \<exists>t \<in> set want. targetKey t = Some k}"
proof -
  let ?tr = "helper_tr ord" and ?K = "{k. \<exists>t \<in> set want. targetKey t = Some k}"
  define post where "post \<longleftrightarrow> moves ?K s s' \<and> (r = None \<longrightarrow> nft_synced s \<longrightarrow> nft_live s' \<subseteq> ?K)"
  obtain r1 s1 where r1: "listIPs ?tr s = (r1, s1)" by (metis surj_pair)
  note m1 = list_moves [OF assms(2) r1]
  have k1: "moves ?K s s1" using moves_mono [OF m1(1)] by blast
  have post
  proof (cases r1)
    case (Inl e)
    then show ?thesis using assms(4) r1 k1 by (auto simp: client_Sync_def post_def)
  next
    case (Inr ips)
    let ?cur = "currentSet ips" and ?ws = "wantSet (nc_allowlist (fst s1)) want"
    have cur: "set ?cur = set ips" using currentSet_canon m1(2) [OF Inr] .
    note good = wantSet_good(1) [OF assms(3), of "nc_allowlist (fst s1)"]
    have gow: "good_wants (ow ?ws)" using good orders_set(1) [OF assms(1)] good_wants_set by blast
    have keys: "fst ` set xs \<subseteq> ?K" if "set xs \<subseteq> set ?ws" for xs
      using that wantSet_good(1) [OF assms(3), of "nc_allowlist (fst s1)"] wantSet_good(3) [OF assms(3), of "nc_allowlist (fst s1)"]
      by (force simp: weak_map_of_SomeI)
    obtain r2 s2 where r2: "sync_adds ?tr ?cur (ow ?ws) s1 = (r2, s2)" by (metis surj_pair)
    note m2 = sync_adds_moves [OF moves_ok [OF k1] gow r2]
    have k2: "moves ?K s1 s2" using moves_mono m2 keys [of "ow ?ws"] orders_set(1) [OF assms(1)] by blast
    note k12 = moves_trans [OF k1 k2]
    show ?thesis
    proof (cases r2)
      case (Inl e)
      then show ?thesis using assms(4) r1 Inr r2 k12 by (auto simp: client_Sync_def post_def Let_def)
    next
      case (Inr ac)
      obtain added cov where ac: "ac = (added, cov)" by fastforce
      obtain r3 s3 where r3: "sync_dels ?tr ?ws (oc ?cur) s2 = (r3, s3)" by (metis surj_pair)
      have oc: "set (oc ?cur) = set ips" using orders_set(2) [OF assms(1)] cur by simp
      have "\<forall>k \<in> set (oc ?cur). canon_key k" using oc m1(2) [OF \<open>r1 = Inr ips\<close>] by simp
      note m3 = sync_dels_moves [OF moves_ok [OF k12] this r3]
      have k3: "moves ?K s2 s3" using moves_mono [OF m3 [THEN conjunct1]] by blast
      note k123 = moves_trans [OF k12 k3]
      have done3: "nft_live s3 \<subseteq> ?K" if "r3 = Inr removed" "nft_synced s" for removed
      proof
        fix k assume k: "k \<in> nft_live s3"
        show "k \<in> ?K"
        proof (cases "k \<in> nft_live s1")
          case True
          then have "k \<in> set (oc ?cur)" using m1(3) [OF \<open>r1 = Inr ips\<close> that(2)] oc by blast
          then have "gm_get ?ws k \<noteq> None" using m3 that(1) k by auto
          then show ?thesis using wantSet_good(3) [OF assms(3)] by blast
        next
          case False
          then show ?thesis using k k2 m3 by (auto simp: moves_def)
        qed
      qed
      show ?thesis
      proof (cases r3)
        case (Inl e)
        then show ?thesis using assms(4) r1 \<open>r1 = Inr ips\<close> r2 \<open>r2 = Inr ac\<close> ac r3 k123
          by (auto simp: client_Sync_def post_def Let_def)
      next
        case r3': (Inr removed)
        obtain r4 s4 where r4: "(if removed > 0 then sync_retry ?tr cov s3 else (Inr 0, s3)) = (r4, s4)" by (metis surj_pair)
        have k4: "moves ?K s3 s4"
        proof (cases "removed > 0")
          case True
          have cs: "set cov \<subseteq> set ?ws" using m2 Inr ac orders_set(1) [OF assms(1)] by auto
          from sync_retry_moves [OF moves_ok [OF k123] good_wants_set [OF cs good]] r4 True
          have "moves (fst ` set cov) s3 s4" by simp
          then show ?thesis using moves_mono keys [OF cs] by blast
        next
          case False
          then show ?thesis using r4 moves_refl [OF moves_ok [OF k123]] by simp
        qed
        have sy: "client_Sync ?tr ow oc want s = (case r4 of Inl e \<Rightarrow> (Some e, s4)
            | Inr again \<Rightarrow> (None, sync_account (added + again) removed (fst s4), snd s4))"
          using r1 \<open>r1 = Inr ips\<close> r2 Inr ac r3 r3' r4 by (simp add: client_Sync_def Let_def split: sum.split)
        note all = moves_trans [OF k123 k4]
        show ?thesis
        proof (cases r4)
          case r4': (Inl e)
          then show ?thesis using assms(4) sy all by (auto simp: post_def)
        next
          case r4': (Inr again)
          have s': "s' = (sync_account (added + again) removed (fst s4), snd s4)" using assms(4) sy r4' by simp
          have "nft_live s' \<subseteq> ?K" if "nft_synced s"
            using done3 [OF r3' that] k4 s' by (auto simp: moves_def)
          then show ?thesis using account_moves [OF all] s' by (simp add: post_def)
        qed
      qed
    qed
  qed
  then show "moves ?K s s'" "r = None \<Longrightarrow> nft_synced s \<Longrightarrow> nft_live s' \<subseteq> ?K" unfolding post_def by blast+
qed

section \<open>The contract\<close>

lemma moves_drops:
  "moves K s s' \<Longrightarrow> nft_drops s' x \<Longrightarrow> nft_drops s x \<or> (\<exists>k \<in> K. \<not> is4in6 x \<and> prefix_contains (toPrefix k) x)"
  unfolding moves_def nft_drops_def blocked_at_def by blast

lemma enf_result_split: "enf_result op res = (r, s') \<Longrightarrow> \<exists>e. res = (e, s') \<and> (r = None \<longleftrightarrow> e = None)"
  by (cases res) (auto simp: enf_result_def)

lemma nft_enforcer_ops [simp]:
  "en_ban (nft_enforcer tr ow oc) t s = enf_result ''Ban'' (client_Ban tr t s)"
  "en_unban (nft_enforcer tr ow oc) t s = enf_result ''Unban'' (client_Unban tr t s)"
  "en_sync (nft_enforcer tr ow oc) ts s = enf_result ''Sync'' (client_Sync tr ow oc ts s)"
  by (simp_all add: nft_enforcer_def)

lemma nft_ban_law:
  assumes "nft_ok s" and "target_ok t" and "en_ban (nft_enforcer (helper_tr ord) ow oc) t s = (r, s')"
  shows "nft_ok s'" and "nft_synced s \<Longrightarrow> nft_synced s'" and "nft_drops s' x \<Longrightarrow> nft_drops s x \<or> target_covers t x"
proof -
  obtain e where "client_Ban (helper_tr ord) t s = (e, s')" using enf_result_split [OF assms(3) [unfolded nft_enforcer_ops]] by blast
  note m = client_Ban_moves [OF assms(1,2) this]
  show "nft_ok s'" "nft_synced s \<Longrightarrow> nft_synced s'" using m by (auto simp: moves_def)
  show "nft_drops s' x \<Longrightarrow> nft_drops s x \<or> target_covers t x" using moves_drops [OF m] key_covers [OF assms(2)] by blast
qed

lemma nft_unban_law:
  assumes "nft_ok s" and "target_ok t" and "en_unban (nft_enforcer (helper_tr ord) ow oc) t s = (r, s')"
  shows "nft_ok s'" and "nft_synced s \<Longrightarrow> nft_synced s'" and "nft_drops s' x \<Longrightarrow> nft_drops s x"
proof -
  obtain e where "client_Unban (helper_tr ord) t s = (e, s')" using enf_result_split [OF assms(3) [unfolded nft_enforcer_ops]] by blast
  note m = client_Unban_moves [OF assms(1,2) this]
  show "nft_ok s'" "nft_synced s \<Longrightarrow> nft_synced s'" using m by (auto simp: moves_def)
  show "nft_drops s' x \<Longrightarrow> nft_drops s x" using moves_drops [OF m] by blast
qed

lemma nft_sync_law:
  assumes "orders_ok ow oc" and "nft_ok s" and "\<forall>t \<in> set want. target_ok t"
    and "en_sync (nft_enforcer (helper_tr ord) ow oc) want s = (r, s')"
  shows "nft_ok s'" and "nft_synced s \<Longrightarrow> nft_synced s'"
    and "nft_drops s' x \<Longrightarrow> nft_drops s x \<or> (\<exists>t \<in> set want. target_covers t x)"
    and "r = None \<Longrightarrow> nft_synced s \<Longrightarrow> nft_drops s' x \<Longrightarrow> \<exists>t \<in> set want. target_covers t x"
proof -
  obtain e where e: "client_Sync (helper_tr ord) ow oc want s = (e, s')" "r = None \<longleftrightarrow> e = None"
    using enf_result_split [OF assms(4) [unfolded nft_enforcer_ops]] by blast
  note m = client_Sync_moves [OF assms(1-3) e(1)]
  have cov: "\<exists>t \<in> set want. target_covers t x" if "targetKey t = Some k" "t \<in> set want" "\<not> is4in6 x" "prefix_contains (toPrefix k) x" for t k
    using key_covers that assms(3) by blast
  show "nft_ok s'" "nft_synced s \<Longrightarrow> nft_synced s'" using m(1) by (auto simp: moves_def)
  show "nft_drops s' x \<Longrightarrow> nft_drops s x \<or> (\<exists>t \<in> set want. target_covers t x)" using moves_drops [OF m(1)] cov by blast
  show "r = None \<Longrightarrow> nft_synced s \<Longrightarrow> nft_drops s' x \<Longrightarrow> \<exists>t \<in> set want. target_covers t x"
    using m(2) e(2) cov unfolding nft_drops_def blocked_at_def by blast
qed

interpretation nft: enforcer_contract "nft_enforcer (helper_tr ord) ow oc" "\<lambda>s. orders_ok ow oc \<and> nft_ok s" nft_drops
  for ord ow oc
proof unfold_locales
  fix s s' :: "client \<times> hworld" and t :: target and x :: addr and want :: "target list" and r :: "enf_error option"
  let ?e = "nft_enforcer (helper_tr ord) ow oc" and ?inv = "\<lambda>s. orders_ok ow oc \<and> nft_ok s"
  show "?inv s' \<and> (nft_drops s' x \<longrightarrow> nft_drops s x \<or> target_covers t x)"
    if "?inv s" "target_ok t" "en_ban ?e t s = (r, s')"
    using that nft_ban_law(1,2) [OF _ that(2,3)] nft_ban_law(3) [OF _ that(2,3), of x] by simp
  show "?inv s' \<and> (nft_drops s' x \<longrightarrow> nft_drops s x)" if "?inv s" "target_ok t" "en_unban ?e t s = (r, s')"
    using that nft_unban_law(1,2) [OF _ that(2,3)] nft_unban_law(3) [OF _ that(2,3), of x] by simp
  show "?inv s' \<and> (nft_drops s' x \<longrightarrow> nft_drops s x \<or> (\<exists>t \<in> set want. target_covers t x))"
    if "?inv s" "\<forall>t \<in> set want. target_ok t" "en_sync ?e want s = (r, s')"
    using that nft_sync_law(1,2) [OF _ _ that(2,3)] nft_sync_law(3) [OF _ _ that(2,3), of x] by simp
qed

lemma synced_ok: "nft_synced s \<Longrightarrow> nft_ok s"
  by (simp add: nft_synced_def)

interpretation nft_conv: converging_enforcer "nft_enforcer (helper_tr ord) ow oc" "\<lambda>s. orders_ok ow oc \<and> nft_synced s" nft_drops
  for ord ow oc
proof unfold_locales
  fix s s' :: "client \<times> hworld" and t :: target and x :: addr and want :: "target list" and r :: "enf_error option"
  let ?e = "nft_enforcer (helper_tr ord) ow oc" and ?inv = "\<lambda>s. orders_ok ow oc \<and> nft_synced s"
  show "?inv s' \<and> (nft_drops s' x \<longrightarrow> nft_drops s x \<or> target_covers t x)"
    if "?inv s" "target_ok t" "en_ban ?e t s = (r, s')"
    using that nft_ban_law(1,2) [OF _ that(2,3)] nft_ban_law(3) [OF _ that(2,3), of x] synced_ok [of s] by simp
  show "?inv s' \<and> (nft_drops s' x \<longrightarrow> nft_drops s x)" if "?inv s" "target_ok t" "en_unban ?e t s = (r, s')"
    using that nft_unban_law(1,2) [OF _ that(2,3)] nft_unban_law(3) [OF _ that(2,3), of x] synced_ok [of s] by simp
  show "?inv s' \<and> (nft_drops s' x \<longrightarrow> nft_drops s x \<or> (\<exists>t \<in> set want. target_covers t x))"
    if "?inv s" "\<forall>t \<in> set want. target_ok t" "en_sync ?e want s = (r, s')"
    using that nft_sync_law(1,2) [OF _ _ that(2,3)] nft_sync_law(3) [OF _ _ that(2,3), of x] synced_ok [of s] by simp
  show "\<exists>t \<in> set want. target_covers t x"
    if "?inv s" "\<forall>t \<in> set want. target_ok t" "en_sync ?e want s = (None, s')" "nft_drops s' x"
    using that nft_sync_law(4) [OF _ _ that(2,3), of x] synced_ok [of s] by simp
qed

section \<open>Runs through the gate\<close>

text \<open>The first state: the helper initialised the table on a host without one, and a client with default names.\<close>

definition first_world :: "time \<Rightarrow> bool list \<Rightarrow> hworld" where
  "first_world now faults = \<lparr>hw_now = now, hw_ticks = [], hw_links = [], hw_server = NewServer,
     hw_host = \<lparr>kh_faults = faults, kh_sets = fresh_sets, kh_killed = []\<rparr>\<rparr>"

text \<open>
  In a run time passes and the link fails as it may (\<open>gr_env\<close>); an operation meets whatever SSH
  peers the probe sees then (\<open>peers\<close>) and any map orders.
\<close>

inductive gated_run ::
  "((string \<times> time option) list \<Rightarrow> (string \<times> time option) list) \<Rightarrow> 'p gate \<Rightarrow> client \<times> hworld \<Rightarrow> bool"
  for ord :: "(string \<times> time option) list \<Rightarrow> (string \<times> time option) list" and g :: "'p gate" where
  gr_start: "gated_run ord g (client_new allow [], first_world now faults)"
| gr_env: "gated_run ord g (c, w) \<Longrightarrow> hw_now w \<le> now \<Longrightarrow> gated_run ord g (c, w\<lparr>hw_now := now, hw_ticks := ts, hw_links := ls\<rparr>)"
| gr_op: "gated_run ord g s \<Longrightarrow> gate_op_ok op \<Longrightarrow> orders_ok ow oc \<Longrightarrow>
    gate_apply (nft_enforcer (helper_tr ord) ow oc) g peers op s = (r, s') \<Longrightarrow> gated_run ord g s'"

lemma first_ok: "nft_ok (client_new allow [], first_world now faults)" "\<not> nft_drops (client_new allow [], first_world now faults) x"
proof -
  let ?w = "first_world now faults"
  have "pinned_ok now NewServer (hw_host ?w)" by (rule fresh_ok) (simp add: first_world_def)
  then show "nft_ok (client_new allow [], ?w)"
    by (simp add: nft_ok_def world_ok_def settled_def first_world_def client_new_def Resolve_default NewServer_def)
  have "elem_at now default_names (hw_host ?w) k = None" for k
  proof (cases "setForIP default_names k")
    case (Inr st)
    have "\<forall>(st, s) \<in> set fresh_sets. ks_elems s = []" by (simp add: fresh_sets_def)
    then have "gm_get fresh_sets st = Some s \<Longrightarrow> ks_elems s = []" for s by (auto dest!: gm_get_in_set)
    then show ?thesis using Inr by (auto simp: host_elem_def Expiry_def first_world_def split: option.split)
  qed (simp add: host_elem_def)
  then show "\<not> nft_drops (client_new allow [], ?w) x"
    by (simp add: nft_drops_def blocked_at_def world_live_def live_def first_world_def NewServer_def)
qed

lemma env_step:
  assumes "nft_ok (c, w)" and "hw_now w \<le> now" and "w' = w\<lparr>hw_now := now, hw_ticks := ts, hw_links := ls\<rparr>"
  shows "nft_ok (c, w')" and "nft_drops (c, w') x \<Longrightarrow> nft_drops (c, w) x"
  using world_later [OF assms(1) [unfolded nft_ok_def fst_conv snd_conv] assms(2,3)]
  by (auto simp: nft_ok_def nft_drops_def blocked_at_def)

text \<open>
  C1 (safety).  The allowlist always wins at the firewall: along every run of bans, lifts and
  reconciles through the gate, with time passing, replies lost, the helper unreachable and \<open>nft\<close>
  processes failing in any way, the kernel's blocked sets never hold an element that covers an
  address of the gate's allowlist.
\<close>

theorem allowlist_never_blocked:
  assumes "gated_run ord g s" and "gate_wf g" and "p \<in> set (ga_allowlist g) \<union> set (ga_extra g)" and "prefix_contains p x"
  shows "\<not> blocked_at (snd s) x"
proof -
  have prot: "gate_protects g w x" for w using assms(3,4) by (auto simp: gate_protects_def)
  from assms(1) have "nft_ok s \<and> \<not> nft_drops s x"
  proof (induction rule: gated_run.induct)
    case (gr_start allow now faults)
    then show ?case using first_ok by blast
  next
    case (gr_env c w now ts ls)
    then show ?case using env_step [OF _ gr_env.hyps(2) refl] by blast
  next
    case (gr_op s op ow oc peers r s')
    from gr_op.IH gr_op.hyps(3) have "orders_ok ow oc \<and> nft_ok s" by simp
    from nft.gate_step(1) [OF this assms(2) gr_op.hyps(2,4)] nft.gate_step(2) [OF this assms(2) gr_op.hyps(2,4) prot]
    show ?case using gr_op.IH by blast
  qed
  then show ?thesis by (simp add: nft_drops_def)
qed

text \<open>
  C10 (refinement).  A reconcile converges: from a state in which the helper's cache mirrors the sets of
  bans of the kernel and no \<open>nft\<close> process fails (\<open>nft_synced\<close>; an element the cache does not know is
  never deleted), when \<open>Sync\<close> through the gate returns without error, whatever the map orders, the sets
  of bans cover only what the wanted targets cover and nothing that the gate protects at that moment,
  the SSH peers included; a block the store does not know is gone, a CIDR ban placed by hand among
  them.  The feed sets are no part of a reconcile.
\<close>

theorem reconcile_converges:
  assumes "orders_ok ow oc" and "nft_synced s" and "gate_wf g" and "\<forall>t \<in> set want. target_ok t"
    and "Gate_Sync (nft_enforcer (helper_tr ord) ow oc) g peers want s = (None, s')" and "blocked_at (snd s') x"
  shows "(\<exists>t \<in> set want. target_covers t x) \<and> \<not> gate_protects g peers x"
proof -
  let ?f = "filter (\<lambda>t. refuse g (currentPeers g peers) t = None) want"
  have d: "nft_drops s' x" using assms(6) by (simp add: nft_drops_def)
  have inv: "orders_ok ow oc \<and> nft_synced s" using assms(1,2) by simp
  have "\<not> gate_protects g peers x" using nft_conv.gate_sync_heals [OF inv assms(3-5)] d by blast
  moreover have "en_sync (nft_enforcer (helper_tr ord) ow oc) (map normalizeGateTarget ?f) s = (None, s')"
    using assms(5) by (simp add: Gate_Sync_def Let_def)
  moreover have "\<forall>t \<in> set (map normalizeGateTarget ?f). target_ok t" using assms(4) target_ok_normal by auto
  ultimately have "\<exists>t \<in> set (map normalizeGateTarget ?f). target_covers t x" using nft_conv.converges [OF inv _ _ d] by blast
  then have "\<exists>t \<in> set want. target_covers t x" using gatePrefix_normal assms(4) by (auto simp: target_ok_def)
  with \<open>\<not> gate_protects g peers x\<close> show ?thesis by blast
qed

section \<open>A ban that succeeds is enforced\<close>

lemma toPrefix_wf [simp]: "prefix_wf (toPrefix k)"
  by (simp add: toPrefix_def split: option.split)

lemma normalized_plain:
  "addr_is_valid (tg_ip (normalizeGateTarget t))
     \<or> \<not> (is4in6 (pfx_ip (tg_prefix (normalizeGateTarget t))) \<and> 96 \<le> pfx_bits (tg_prefix (normalizeGateTarget t)))"
proof (cases "addr_is_valid (tg_ip t)")
  case True
  then show ?thesis by (simp add: normalizeGateTarget_def)
next
  case False
  have "\<not> is4in6 (pfx_ip (prefix_masked (prefix_from (unmap (pfx_ip p)) b)))" if m: "is4in6 (pfx_ip p)" for p b
  proof -
    obtain v where "unmap (pfx_ip p) = V4 v" using is4in6_unmap_V4 [OF m] by blast
    then show ?thesis by (simp add: prefix_from_def prefix_masked_def no_prefix_def)
  qed
  then show ?thesis using False
    by (auto simp: normalizeGateTarget_def normalizeForwardPrefix_def normalizeGatePrefix_def prefix_is_valid_def)
qed

lemma add_covers:
  assumes "canon_key k" and "el = k \<or> (parse_addr k \<noteq> None \<and> prefix_overlaps (toPrefix k) (toPrefix el))"
    and "prefix_contains (toPrefix k) x"
  shows "prefix_contains (toPrefix el) x"
proof (cases "el = k")
  case False
  then have ov: "parse_addr k \<noteq> None" "prefix_overlaps (toPrefix k) (toPrefix el)" using assms(2) by auto
  from assms(1) obtain a where a: "toPrefix k = prefix_from a (bit_len a)" using ov(1) by (cases rule: canon_key_cases) auto
  obtain y where y: "prefix_contains (toPrefix k) y" "prefix_contains (toPrefix el) y"
    using prefix_overlaps_iff [OF toPrefix_wf toPrefix_wf] ov(2) by blast
  then show ?thesis using assms(3) unfolding a host_prefix_contains by simp
qed (use assms(3) in simp)

text \<open>
  C11 (functional).  A ban is in force when it is acknowledged: after \<open>Ban\<close> through the gate returned
  no error, every address of the target, in the spelling of the wire, is covered by an element of
  the kernel's blocked sets, its own or a broader one, whatever failed on the way.
\<close>

theorem ban_enforced:
  assumes "nft_ok s" and "target_ok t" and "Gate_Ban (nft_enforcer (helper_tr ord) ow oc) g peers t s = (None, s')"
    and "target_covers t x" and "\<not> is4in6 x"
  shows "blocked_at (snd s') x"
proof -
  let ?t = "normalizeGateTarget t"
  have ok: "target_ok ?t" by (rule target_ok_normal [OF assms(2)])
  have "en_ban (nft_enforcer (helper_tr ord) ow oc) ?t s = (None, s')"
    using assms(3) by (simp add: Gate_Ban_def split: option.splits)
  from enf_result_split [OF this [unfolded nft_enforcer_ops]] have ban: "client_Ban (helper_tr ord) ?t s = (None, s')" by simp
  then obtain k where k: "targetKey ?t = Some k" "rpc (helper_tr ord) (add_request k ?t) s = (None, s')"
    by (auto simp: client_Ban_def split: if_splits option.splits)
  have ck: "canon_key k" by (rule targetKey_canon [OF ok k(1)])
  obtain resp where resp: "rpcResp (helper_tr ord) (add_request k ?t) s = (Inr resp, s')" using rpc_moves [OF k(2)] by auto
  from rpcResp_step(6) [OF assms(1) add_ban_request [OF ok ck] resp refl]
  obtain el where el: "el \<in> nft_live s'" "el = k \<or> (parse_addr k \<noteq> None \<and> prefix_overlaps (toPrefix k) (toPrefix el))"
    using canonical_fixed [OF ck] by auto
  have "target_covers ?t x" using assms(2,4) gatePrefix_normal by (simp add: target_ok_def)
  then have "prefix_contains (toPrefix k) x" using covers_key [OF ok k(1)] normalized_plain by blast
  from add_covers [OF ck el(2) this] el(1) assms(5) show ?thesis by (auto simp: blocked_at_def)
qed

section \<open>Witnesses\<close>

definition open_gate :: "unit gate" where "open_gate = NewGate [] None"

definition demo_ban :: target where "demo_ban = zero_target\<lparr>tg_ip := V4 0x0A000001\<rparr>"

definition demo_client :: client where "demo_client = client_new [] []"

definition keep_order :: "'a list \<Rightarrow> 'a list" where "keep_order xs = xs"

abbreviation demo_enforcer :: "(client \<times> hworld) enforcer" where
  "demo_enforcer \<equiv> nft_enforcer (helper_tr demo_order) keep_order keep_order"

lemma demo_orders: "orders_ok keep_order keep_order"
  by (simp add: orders_ok_def keep_order_def)

lemma demo_ban_ok: "target_ok demo_ban" and demo_ban_covers: "target_covers demo_ban (V4 0x0A000001)"
  by (simp_all add: target_ok_def demo_ban_def zero_target_def target_covers_def gatePrefix_def addr_is_valid_def
      prefix_from_def Second_def)

definition demo_blocked :: "server \<Rightarrow> hworld" where
  "demo_blocked sv = (first_world 0 [])\<lparr>hw_server := sv\<lparr>sv_blocked := [(''10.0.0.1'', None)], sv_pinned := True\<rparr>,
     hw_host := \<lparr>kh_faults = [], kh_sets = demo_kernel, kh_killed = [demo_kill]\<rparr>\<rparr>"

lemma demo_key: "targetKey demo_ban = Some ''10.0.0.1''"
proof -
  have "addr_is_valid (tg_ip demo_ban)" "tg_ip demo_ban = V4 0x0A000001" by (simp_all add: demo_ban_def addr_is_valid_def)
  then show ?thesis unfolding targetKey_def by (simp only: if_True demo_addr)
qed

lemma demo_add_request: "(add_request ''10.0.0.1'' demo_ban)\<lparr>rq_table := [], rq_set := []\<rparr> = demo_request"
  by (simp add: add_request_def empty_request_def demo_request_def demo_ban_def zero_target_def ttlSeconds_def)

lemma demo_rpc:
  assumes "sv_names sv = default_names" and "sv_blocked sv = []"
  shows "rpcResp (helper_tr demo_order) (add_request ''10.0.0.1'' demo_ban) (demo_client, (first_world 0 [])\<lparr>hw_server := sv\<rparr>)
    = (Inr resp_ok, demo_client, demo_blocked sv)"
proof -
  have c: "nc_init_err demo_client = None" "nc_table demo_client = []" "nc_set demo_client = []"
    by (simp_all add: demo_client_def client_new_def)
  have "helper_tr demo_order demo_request ((first_world 0 [])\<lparr>hw_server := sv\<rparr>) = (Some resp_ok, demo_blocked sv)"
    using demo_dispatch [OF assms] by (simp add: helper_tr_def Let_def next_tick_def first_world_def demo_blocked_def)
  then show ?thesis
    unfolding rpcResp_def ensureCustomNamesSupported_def using c by (simp add: demo_add_request) (simp add: resp_ok_def)
qed

lemma demo_first: "(first_world 0 [])\<lparr>hw_server := NewServer\<rparr> = first_world 0 []"
  by (simp add: first_world_def)

lemma new_server: "sv_names NewServer = default_names" "sv_blocked NewServer = []"
  by (simp_all add: NewServer_def)

lemma open_gate_forwards: "refuse open_gate (currentPeers open_gate ()) demo_ban = None" "normalizeGateTarget demo_ban = demo_ban"
  by (simp_all add: refuse_def open_gate_def NewGate_def currentPeers_def normalizeGateTarget_def demo_ban_def zero_target_def
      gatePrefix_def addr_is_valid_def)

theorem ban_enforced_witness: "blocked_at (demo_blocked NewServer) (V4 0x0A000001)"
proof -
  have "client_Ban (helper_tr demo_order) demo_ban (demo_client, first_world 0 []) = (None, demo_client, demo_blocked NewServer)"
    using demo_rpc [OF new_server] unfolding demo_first
    by (simp add: client_Ban_def demo_key rpc_def targetOverlapsAllowlist_def demo_client_def client_new_def)
  then have "Gate_Ban demo_enforcer open_gate () demo_ban (demo_client, first_world 0 []) = (None, demo_client, demo_blocked NewServer)"
    by (simp add: Gate_Ban_def open_gate_forwards enf_result_def)
  from ban_enforced [OF _ demo_ban_ok this demo_ban_covers] first_ok(1) [of "[]" 0 "[]"] show ?thesis
    by (simp add: demo_client_def)
qed

theorem allowlist_never_blocked_witness:
  "\<not> blocked_at (snd (snd (Gate_Ban demo_enforcer demo_gate () demo_ban (demo_client, first_world 0 [])))) (V4 0x0A000001)"
proof -
  obtain r s' where e: "Gate_Ban demo_enforcer demo_gate () demo_ban (demo_client, first_world 0 []) = (r, s')"
    by (metis surj_pair)
  have start: "gated_run demo_order demo_gate (demo_client, first_world 0 [])"
    unfolding demo_client_def by (rule gated_run.gr_start)
  have "gated_run demo_order demo_gate s'"
    by (rule gated_run.gr_op [OF start _ demo_orders, of "GBan demo_ban" "()" r]) (simp_all add: demo_ban_ok e)
  then have "gated_run demo_order demo_gate (snd (Gate_Ban demo_enforcer demo_gate () demo_ban (demo_client, first_world 0 [])))"
    unfolding e snd_conv .
  moreover have "gate_wf demo_gate" by (simp add: demo_gate_def)
  moreover have "prefix_masked (Pfx (V4 0x0A000000) 8) \<in> set (ga_allowlist demo_gate) \<union> set (ga_extra demo_gate)"
    by (simp add: demo_gate_def NewGate_def normalizeGatePrefix_def)
  moreover have "prefix_contains (prefix_masked (Pfx (V4 0x0A000000) 8)) (V4 0x0A000001)"
    by (simp add: prefix_masked_def prefix_from_def)
  ultimately show ?thesis by (rule allowlist_never_blocked)
qed

lemma demo_synced: "nft_synced (demo_client, first_world 0 [])"
proof -
  have ok: "nft_ok (demo_client, first_world 0 [])" unfolding demo_client_def by (rule first_ok)
  have "mirrored 0 default_names [] (hw_host (first_world 0 []))"
  proof -
    have "\<forall>(st, s) \<in> set fresh_sets. ks_elems s = []" by (simp add: fresh_sets_def)
    then have "gm_get fresh_sets st = Some s \<Longrightarrow> ks_elems s = []" for st s by (auto dest!: gm_get_in_set)
    then have "elem_at 0 default_names (hw_host (first_world 0 [])) k = None" for k
      by (auto simp: host_elem_def Expiry_def first_world_def split: option.split sum.split)
    then show ?thesis by (simp add: mirrored_but_def)
  qed
  then show ?thesis using ok
    by (simp add: nft_synced_def world_synced_def synced_def nft_ok_def world_ok_def first_world_def NewServer_def)
qed

lemma demo_list:
  "listIPs (helper_tr demo_order) (demo_client, first_world 0 [])
    = (Inr [], demo_client, (first_world 0 [])\<lparr>hw_server := NewServer\<lparr>sv_pinned := True\<rparr>\<rparr>)"
proof -
  let ?req = "empty_request\<lparr>rq_verb := ''list'', rq_table := [], rq_set := []\<rparr>"
  have c: "nc_init_err demo_client = None" "nc_table demo_client = []" "nc_set demo_client = []"
    by (simp_all add: demo_client_def client_new_def)
  have "dispatch (kernel_ops demo_order 0) 0 ?req NewServer (hw_host (first_world 0 []))
      = (resp_ok, NewServer\<lparr>sv_pinned := True\<rparr>, hw_host (first_world 0 []))"
    by (simp add: dispatch_def validVerbs_def resolveNames_def Resolve_default NewServer_def dispatch_verb_def dispatch_list_def
        resp_ok_def)
  then have "helper_tr demo_order ?req (first_world 0 []) = (Some resp_ok, (first_world 0 [])\<lparr>hw_server := NewServer\<lparr>sv_pinned := True\<rparr>\<rparr>)"
    by (simp add: helper_tr_def Let_def next_tick_def first_world_def)
  then show ?thesis
    unfolding listIPs_def listVerb_def rpcResp_def ensureCustomNamesSupported_def using c by simp (simp add: resp_ok_def)
qed

definition demo_after_sync :: "client \<times> hworld" where
  "demo_after_sync = (sync_account 1 0 demo_client, demo_blocked (NewServer\<lparr>sv_pinned := True\<rparr>))"

lemma demo_gate_sync: "Gate_Sync demo_enforcer open_gate () [demo_ban] (demo_client, first_world 0 []) = (None, demo_after_sync)"
proof -
  let ?sv = "NewServer\<lparr>sv_pinned := True\<rparr>"
  have sv: "sv_names ?sv = default_names" "sv_blocked ?sv = []" by (simp_all add: NewServer_def)
  have w: "wantSet (nc_allowlist demo_client) [demo_ban] = [(''10.0.0.1'', demo_ban)]"
    by (simp add: wantSet_def targetOverlapsAllowlist_def demo_client_def client_new_def demo_key)
  have "client_Sync (helper_tr demo_order) keep_order keep_order [demo_ban] (demo_client, first_world 0 []) = (None, demo_after_sync)"
    unfolding client_Sync_def demo_list using w demo_rpc [OF sv]
    by (simp add: Let_def currentSet_def keep_order_def resp_ok_def CodeCoveredByInterval_def demo_after_sync_def)
  then show ?thesis by (simp add: Gate_Sync_def Let_def open_gate_forwards enf_result_def)
qed

lemma demo_sync_blocked: "blocked_at (snd demo_after_sync) (V4 0x0A000001)"
proof -
  let ?sv = "NewServer\<lparr>sv_pinned := True\<rparr>"
  have sv: "sv_names ?sv = default_names" "sv_blocked ?sv = []" by (simp_all add: NewServer_def)
  have "setForIP default_names ''10.0.0.1'' = Inr ''blocked''" by code_simp
  then have "elem_at 0 default_names (hw_host (demo_blocked ?sv)) ''10.0.0.1'' = Some None"
    by (simp add: host_elem_def Expiry_def demo_blocked_def demo_kernel_def fresh_sets_def gcLocked_def gc_set_def expired_def)
  moreover have "toPrefix ''10.0.0.1'' = prefix_from (V4 0x0A000001) 32"
  proof -
    have "toPrefix (addr_str (V4 0x0A000001)) = prefix_from (V4 0x0A000001) 32" using toPrefix_addr [of "V4 0x0A000001"] by simp
    then show ?thesis unfolding demo_addr(2) .
  qed
  ultimately show ?thesis
    using host_prefix_contains [of "V4 0x0A000001" "V4 0x0A000001"]
    by (auto simp: demo_after_sync_def blocked_at_def world_live_def live_def demo_blocked_def first_world_def sv new_server
        intro!: exI [of _ "''10.0.0.1''"])
qed

theorem reconcile_converges_witness:
  "(\<exists>t \<in> set [demo_ban]. target_covers t (V4 0x0A000001)) \<and> \<not> gate_protects open_gate () (V4 0x0A000001)"
proof -
  have "gate_wf open_gate" "\<forall>t \<in> set [demo_ban]. target_ok t" by (simp_all add: open_gate_def demo_ban_ok)
  then show ?thesis using reconcile_converges [OF demo_orders demo_synced _ _ demo_gate_sync demo_sync_blocked] by blast
qed

end
