(* ===== verification/HelperRestart.thy ===== *)
theory HelperRestart
  imports HelperRun
begin

text \<open>
  The helper over restarts.  A new process starts with an empty cache and loads the sets of bans from
  \<open>nft list\<close>: the listing of an element names its key and, when it has a timeout, the time it has left
  (\<open>expires\<close>).  The theory proves that this text is read back for what it says, so a restart reaches
  \<open>helper_ok\<close> again, and concludes over all runs of requests, waiting time and restarts that the cache
  \<open>list\<close> answers from never claims a block the kernel does not have (\<open>helper_no_ghosts\<close>).
\<close>

section \<open>Durations in a listing\<close>

lemma dur_component_unit:
  assumes "dur_unit [u] = Some un" and "\<not> is_num u" and "r = [] \<or> is_digit (hd r)"
    and "dur_component (nat_str v @ u # r) = Some (x, rest)"
  shows "x = v * un" and "rest = r"
proof -
  have dig: "\<forall>c \<in> set (nat_str v). is_digit c" by (rule nat_str_digits)
  have u: "\<not> is_digit u" "u \<noteq> CHR ''.''" using assms(2) by (auto simp: is_num_def)
  have w: "takeWhile is_digit (nat_str v @ u # r) = nat_str v" "dropWhile is_digit (nat_str v @ u # r) = u # r"
    using dig u by (simp_all add: takeWhile_append dropWhile_append)
  have f: "dur_frac (u # r) = ([], u # r)" using u by (simp add: dur_frac_def)
  have t: "takeWhile (\<lambda>c. \<not> is_num c) (u # r) = [u]" "dropWhile (\<lambda>c. \<not> is_num c) (u # r) = r"
    using assms(2,3) by (cases r; simp)+
  have z: "digits_val [] = 0" by (simp add: digits_val_def)
  show "x = v * un" "rest = r"
    using assms(4) unfolding dur_component_def Let_def w f prod.case t assms(1) option.case digits_val_nat_str z
    by (auto split: if_splits)
qed

lemma dur_components_unit:
  assumes "dur_unit [u] = Some un" and "\<not> is_num u" and "r = [] \<or> is_digit (hd r)"
    and "dur_components (nat_str v @ u # r) acc = Some d"
  shows "dur_components r (acc + v * un) = Some d"
proof -
  let ?s = "nat_str v @ u # r"
  have "?s \<noteq> []" by simp
  then obtain x rest where c: "dur_component ?s = Some (x, rest)" and d: "dur_components rest (acc + x) = Some d"
    using assms(4) by (subst (asm) dur_components.simps) (auto split: if_splits option.splits)
  note p = dur_component_unit [OF assms(1-3) c]
  show ?thesis using d unfolding p .
qed

lemma fmt_frac_zero: "fmt_frac 9 0 = []"
  by code_simp

lemma dur_str_whole:
  assumes "1 \<le> n"
  shows "dur_str (int n * Second) =
    (if n div 3600 > 0 then nat_str (n div 3600) @ ''h'' else [])
    @ (if n div 60 > 0 then nat_str (n div 60 mod 60) @ ''m'' else []) @ nat_str (n mod 60) @ ''s''"
proof -
  have u: "nat \<bar>int n * Second\<bar> = n * 1000000000" by (simp add: Second_def nat_mult_distrib abs_mult)
  have "\<not> n * 1000000000 < 1000000000" "\<not> int n * Second < 0" using assms by (simp_all add: Second_def)
  moreover have "n * 1000000000 div 1000000000 = n" "n * 1000000000 mod 1000000000 = 0" by simp_all
  moreover have "n div 60 div 60 = n div 3600" by (simp add: div_mult2_eq [symmetric])
  ultimately show ?thesis unfolding dur_str_def Let_def u by (simp only: if_False fmt_frac_zero append_Nil)
qed

lemma digit_head: "is_digit (hd (nat_str v @ s))"
  using nat_str_digits [of v] by (cases "nat_str v") auto

text \<open>Reading a printed number of whole seconds gives it back, or fails when it exceeds a \<open>Duration\<close>.\<close>

lemma ParseDuration_dur_str:
  assumes "1 \<le> n" and "ParseDuration (dur_str (int n * Second)) = Some x"
  shows "x = int n * Second"
proof -
  let ?h = "n div 3600" and ?m = "n div 60"
  let ?S = "nat_str (n mod 60) @ ''s''" let ?M = "(if ?m > 0 then nat_str (?m mod 60) @ ''m'' else []) @ ?S"
  let ?D = "(if ?h > 0 then nat_str ?h @ ''h'' else []) @ ?M"
  have D: "dur_str (int n * Second) = ?D" by (rule dur_str_whole [OF assms(1)])
  have units: "dur_unit ''h'' = Some 3600000000000" "dur_unit ''m'' = Some 60000000000" "dur_unit ''s'' = Some 1000000000"
    "\<not> is_num (CHR ''h'')" "\<not> is_num (CHR ''m'')" "\<not> is_num (CHR ''s'')"
    by (simp_all add: dur_unit_def is_num_def is_digit_def)
  have hS: "is_digit (hd ?S)" by (rule digit_head)
  have hM: "is_digit (hd ?M)" using digit_head by simp
  have hD: "is_digit (hd ?D)" using digit_head by simp
  have ne: "?D \<noteq> []" "?D \<noteq> ''0''" using last_snoc [of "nat_str (n mod 60)" "CHR ''s''"] by (auto split: if_splits)
  obtain c t where ct: "?D = c # t" using ne by (cases ?D) auto
  then have "is_digit c" using hD by simp
  then have sp: "(case ?D of [] \<Rightarrow> (False, []) | c # t \<Rightarrow>
      if c = CHR ''-'' then (True, t) else if c = CHR ''+'' then (False, t) else (False, ?D)) = (False, ?D)"
    unfolding ct by (auto simp: is_digit_def)
  obtain d where d: "dur_components ?D 0 = Some d" and x: "x = int d"
    using assms(2) unfolding D ParseDuration_def sp Let_def prod.case using ne by (auto split: option.splits if_splits)
  have 1: "dur_components ?M (?h * 3600000000000) = Some d"
    using d dur_components_unit [OF units(1,4), of ?M ?h 0 d] hM by (cases "?h > 0") auto
  have 2: "dur_components ?S (?h * 3600000000000 + (if ?m > 0 then ?m mod 60 else 0) * 60000000000) = Some d"
    using 1 dur_components_unit [OF units(2,5), of ?S "?m mod 60" "?h * 3600000000000" d] hS by (cases "?m > 0") auto
  have 3: "dur_components [] (?h * 3600000000000 + (if ?m > 0 then ?m mod 60 else 0) * 60000000000 + n mod 60 * 1000000000) = Some d"
    using 2 dur_components_unit [OF units(3,6), of "[]" "n mod 60"] by auto
  then have "d = (?h * 3600 + (if ?m > 0 then ?m mod 60 else 0) * 60 + n mod 60) * 1000000000"
    by (subst (asm) dur_components.simps) (simp add: algebra_simps)
  moreover have "?h * 3600 + (if ?m > 0 then ?m mod 60 else 0) * 60 + n mod 60 = n"
  proof -
    have "?h = ?m div 60" by (simp add: div_mult2_eq [symmetric])
    then have "?h * 60 + ?m mod 60 = ?m" by simp
    moreover have "?m * 60 + n mod 60 = n" by simp
    ultimately have "?h * 3600 + ?m mod 60 * 60 + n mod 60 = n" by linarith
    moreover have "(if ?m > 0 then ?m mod 60 else 0) = ?m mod 60" by (cases "?m = 0") simp_all
    ultimately show ?thesis by (simp only:)
  qed
  ultimately show ?thesis using x by (simp add: Second_def)
qed

lemma dur_str_chars:
  assumes "1 \<le> n"
  shows "\<forall>c \<in> set (dur_str (int n * Second)). is_digit c \<or> c \<in> {CHR ''h'', CHR ''m'', CHR ''s''}" and "dur_str (int n * Second) \<noteq> []"
  using nat_str_digits unfolding dur_str_whole [OF assms] by (auto split: if_splits)

section \<open>One element of a listing\<close>

lemma canon_chars:
  assumes "canon_key k"
  shows "\<forall>c \<in> set k. is_hex c \<or> c \<in> {CHR '':'', CHR ''.'', CHR ''/''}"
  using assms unfolding canon_key_def
proof (elim disjE exE conjE)
  fix a assume "a \<noteq> NoAddr" "addr_zone a = []" "k = addr_str a"
  then show ?thesis using addr_str_chars [of a] by auto
next
  fix p assume "prefix_wf p" "prefix_is_valid p" "k = pfx_str p"
  then show ?thesis using pfx_str_shape(5) [of p] by simp
qed

text \<open>The texts that a listing separates: no space at the ends, none of the separators inside.\<close>

definition listed :: "string \<Rightarrow> bool" where
  "listed s \<longleftrightarrow> s \<noteq> [] \<and> \<not> is_space (hd s) \<and> \<not> is_space (last s)
     \<and> (\<forall>c \<in> set s. c \<notin> {CHR '','', CHR ''}'', CHR ''-'', CHR ''=''})"

text \<open>
  The listing prints whole seconds, so an element in its last half second is printed as \<open>expires 0s\<close>;
  every other element has time left that can be read back.
\<close>

definition readable_expiry :: "time \<Rightarrow> time option \<Rightarrow> bool" where
  "readable_expiry now e \<longleftrightarrow> (case e of None \<Rightarrow> True | Some t \<Rightarrow> Second div 2 \<le> t - now)"

lemma round_second_whole:
  assumes "Second div 2 \<le> d"
  obtains n where "1 \<le> n" "round_second d = int n * Second" "int n * Second \<le> d + Second div 2"
proof
  let ?q = "(d + Second div 2) div Second"
  have d: "\<not> d < 0" using assms by (simp add: Second_def)
  have q: "1 \<le> ?q" using assms by (simp add: Second_def)
  show "1 \<le> nat ?q" using q by simp
  show "round_second d = int (nat ?q) * Second" using d q by (simp add: round_second_def)
  show "int (nat ?q) * Second \<le> d + Second div 2" using q div_mult_mod_eq [of "d + Second div 2" Second]
    by (simp add: Second_def)
qed

lemma dur_word:
  assumes "1 \<le> n"
  shows "\<forall>c \<in> set (dur_str (int n * Second)). \<not> is_space c \<and> c \<notin> {CHR '','', CHR ''}'', CHR ''-'', CHR ''='', CHR ''d'', CHR ''e''}"
  using dur_str_chars(1) [OF assms] by (auto simp: is_digit_def is_space_def)

lemma key_word:
  assumes "canon_key k"
  shows "k \<noteq> []" and "\<forall>c \<in> set k. \<not> is_space c \<and> c \<notin> {CHR '','', CHR ''}'', CHR ''-'', CHR ''=''}"
proof -
  show "k \<noteq> []" using canon_key_text [OF assms] by (simp add: key_text_def)
  show "\<forall>c \<in> set k. \<not> is_space c \<and> c \<notin> {CHR '','', CHR ''}'', CHR ''-'', CHR ''=''}"
  proof
    fix c assume c: "c \<in> set k"
    have "\<not> is_space c \<and> c \<notin> {CHR ''{'', CHR ''}'', CHR '',''}" using canon_key_text [OF assms] c by (simp add: key_text_def)
    moreover have "c \<noteq> CHR ''-'' \<and> c \<noteq> CHR ''=''"
    proof -
      have "\<not> is_hex (CHR ''-'')" "\<not> is_hex (CHR ''='')" by (simp_all add: is_hex_def is_digit_def)
      then show ?thesis using canon_chars [OF assms] c by auto
    qed
    ultimately show "\<not> is_space c \<and> c \<notin> {CHR '','', CHR ''}'', CHR ''-'', CHR ''=''}" by simp
  qed
qed

lemma list_elem_listed:
  assumes "canon_key el" and "readable_expiry now e"
  shows "listed (list_elem now (el, e))"
proof (cases e)
  case None
  then show ?thesis using key_word [OF assms(1)] by (simp add: listed_def list_elem_def)
next
  case (Some t)
  then have "Second div 2 \<le> t - now" using assms(2) by (simp add: readable_expiry_def)
  then obtain n where n: "1 \<le> n" "round_second (t - now) = int n * Second" by (rule round_second_whole)
  let ?D = "dur_str (int n * Second)"
  have D: "?D \<noteq> []" "\<forall>c \<in> set ?D. \<not> is_space c \<and> c \<notin> {CHR '','', CHR ''}'', CHR ''-'', CHR ''=''}"
    using dur_str_chars(2) [OF n(1)] dur_word [OF n(1)] by auto
  have "list_elem now (el, e) = el @ '' timeout '' @ ?D @ '' expires '' @ ?D" by (simp add: list_elem_def Some n(2))
  then show ?thesis using key_word [OF assms(1)] D by (simp add: listed_def last_append) auto
qed

text \<open>What the parser makes of it: the key, and a lifetime that backs the deadline it is cached with.\<close>

lemma list_elem_parts:
  assumes "canon_key el" and "readable_expiry now e"
  obtains rest where "str_fields (list_elem now (el, e)) = el # rest" "backed now (deadline now (elemTTL rest)) (Some e)"
proof (cases e)
  case None
  have "str_fields (list_elem now (el, e)) = [el]"
    using str_fields_word [of el "[]"] key_word [OF assms(1)] by (simp add: list_elem_def None)
  moreover have "backed now (deadline now (elemTTL [])) (Some e)" by (simp add: elemTTL_def deadline_def backed_def None)
  ultimately show thesis by (rule that)
next
  case (Some t)
  then have half: "Second div 2 \<le> t - now" using assms(2) by (simp add: readable_expiry_def)
  obtain n where n: "1 \<le> n" "round_second (t - now) = int n * Second" "int n * Second \<le> t - now + Second div 2"
    using round_second_whole [OF half] .
  let ?D = "dur_str (int n * Second)"
  have D: "?D \<noteq> []" "\<forall>c \<in> set ?D. \<not> is_space c" using dur_str_chars(2) [OF n(1)] dur_word [OF n(1)] by auto
  have w: "\<forall>c \<in> set ''timeout''. \<not> is_space c" "\<forall>c \<in> set ''expires''. \<not> is_space c" by (simp_all add: is_space_def)
  have word: "str_fields (v @ CHR '' '' # s) = v # str_fields s" if "v \<noteq> []" "\<forall>c \<in> set v. \<not> is_space c" for v s
    using str_fields_word [OF that, of "CHR '' '' # s"] by (simp add: str_fields_space)
  have "list_elem now (el, e) = el @ CHR '' '' # ''timeout'' @ CHR '' '' # ?D @ CHR '' '' # ''expires'' @ CHR '' '' # ?D"
    by (simp add: list_elem_def Some n(2))
  moreover have "str_fields \<dots> = [el, ''timeout'', ?D, ''expires'', ?D]"
    using key_word [OF assms(1)] D w str_fields_word [of ?D "[]"] word [of el] word [of ?D] word [of "''timeout''"] word [of "''expires''"]
    by (simp only: list.distinct simp_thms) simp
  ultimately have f: "str_fields (list_elem now (el, e)) = el # [''timeout'', ?D, ''expires'', ?D]" by simp
  have "CHR ''e'' \<in> set ''expires''" by simp
  then have ne: "?D \<noteq> ''expires''" "CHR ''d'' \<notin> set ?D" using dur_word [OF n(1)] by (metis insertCI)+
  then have "parseNftDuration ?D = ParseDuration ?D" by (simp add: parseNftDuration_def str_cut_def)
  then have ttl: "elemTTL [''timeout'', ?D, ''expires'', ?D] = (case ParseDuration ?D of None \<Rightarrow> Second | Some d \<Rightarrow> d)"
    using ne(1) by (simp add: elemTTL_def)
  have "elemTTL [''timeout'', ?D, ''expires'', ?D] \<in> {Second, int n * Second}"
    unfolding ttl using ParseDuration_dur_str [OF n(1)] by (auto split: option.split)
  then have "backed now (deadline now (elemTTL [''timeout'', ?D, ''expires'', ?D])) (Some e)"
    using n half by (auto simp: deadline_def backed_def Some Second_def)
  with f show thesis by (rule that)
qed

section \<open>A whole listing\<close>

lemma trim_padded:
  assumes "listed x" and "\<forall>c \<in> set pre. is_space c" and "\<forall>c \<in> set post. is_space c"
  shows "trim_space (pre @ x @ post) = x"
proof -
  have x: "x \<noteq> []" "\<not> is_space (hd x)" "\<not> is_space (last x)" using assms(1) by (simp_all add: listed_def)
  have h: "dropWhile is_space (x @ s) = x @ s" for s using x by (cases x) auto
  have r: "dropWhile is_space (rev x) = rev x" using x by (cases "rev x") (auto simp: hd_rev [symmetric])
  have "dropWhile is_space (pre @ x @ post) = x @ post" using assms(2) h by (simp add: dropWhile_append1 dropWhile_append)
  moreover have "dropWhile is_space (rev post @ rev x) = rev x" using assms(3) r by (simp add: dropWhile_append)
  ultimately show ?thesis by (simp add: trim_space_def)
qed

lemma split_listed:
  assumes "xs \<noteq> []" and "\<forall>x \<in> set xs. listed x" and "\<forall>c \<in> set ws. is_space c" and "\<forall>c \<in> set pre. is_space c" and "\<forall>c \<in> set post. is_space c"
  shows "map trim_space (str_split (CHR '','') (pre @ str_join (CHR '','' # ws) xs @ post)) = xs"
  using assms(1,2,4)
proof (induction xs arbitrary: pre)
  case (Cons x xs)
  have sp: "CHR '','' \<notin> set s" if "\<forall>c \<in> set s. is_space c" for s
  proof -
    have "\<not> is_space (CHR '','')" by (simp add: is_space_def)
    then show ?thesis using that by blast
  qed
  have x: "listed x" "CHR '','' \<notin> set x" using Cons.prems(2) by (auto simp: listed_def)
  show ?case
  proof (cases xs)
    case Nil
    have "CHR '','' \<notin> set (pre @ x @ post)" using x(2) sp Cons.prems(3) assms(5) by simp
    then show ?thesis using trim_padded [OF x(1) Cons.prems(3) assms(5)] by (simp add: Nil str_split_no_sep)
  next
    case (Cons y ys)
    have split: "str_split (CHR '','') ((pre @ x) @ CHR '','' # ws @ str_join (CHR '','' # ws) xs @ post)
        = (pre @ x) # str_split (CHR '','') (ws @ str_join (CHR '','' # ws) xs @ post)"
      by (rule str_split_append) (use x(2) sp Cons.prems(3) in simp)
    have "map trim_space (str_split (CHR '','') (ws @ str_join (CHR '','' # ws) xs @ post)) = xs"
      by (rule Cons.IH) (use Cons Cons.prems assms(3) in auto)
    then show ?thesis using split trim_padded [OF x(1) Cons.prems(3), of "[]"] by (simp add: Cons)
  qed
qed simp

lemma parse_listed:
  assumes "map trim_space parts = map (list_elem now) els" and "\<forall>(el, e) \<in> set els. canon_key el \<and> readable_expiry now e"
    and "(ip, ttl) \<in> set (fst (parse_tokens parts))"
  shows "\<exists>e. (ip, e) \<in> set els \<and> backed now (deadline now ttl) (Some e)"
  using assms
proof (induction parts arbitrary: els)
  case (Cons part parts)
  then obtain x xs where els: "els = x # xs" "trim_space part = list_elem now x" "map trim_space parts = map (list_elem now) xs"
    by (cases els) auto
  obtain el e where x: "x = (el, e)" by fastforce
  have ok: "canon_key el" "readable_expiry now e" using Cons.prems(2) els x by auto
  obtain rest where f: "str_fields (trim_space part) = el # rest" "backed now (deadline now (elemTTL rest)) (Some e)"
    using list_elem_parts [OF ok] els(2) x by metis
  have "fst (parse_tokens (part # parts)) = (el, elemTTL rest) # fst (parse_tokens parts)"
    using ok(1) by (cases rule: canon_key_cases) (simp_all add: f(1) Let_def case_prod_beta)
  then consider "ip = el" "ttl = elemTTL rest" | "(ip, ttl) \<in> set (fst (parse_tokens parts))" using Cons.prems(3) by auto
  then show ?case
  proof cases
    case 1
    then show ?thesis using els x f(2) by auto
  next
    case 2
    then show ?thesis using Cons.IH [OF els(3) _ 2] Cons.prems(2) els x by auto
  qed
qed simp

text \<open>The first occurrence of a text, found by a character that occurs neither before it nor earlier in it.\<close>

lemma str_index_marker:
  assumes "c \<notin> set a"
  shows "c \<notin> set pre \<Longrightarrow> str_index (pre @ (a @ c # b) @ post) (a @ c # b) = Some (length pre)"
proof (induction pre)
  case Nil
  have "str_has_prefix ((a @ c # b) @ post) (a @ c # b)" by (simp add: str_has_prefix_def)
  then show ?case by (cases "(a @ c # b) @ post") simp_all
next
  case (Cons p pre)
  have "\<not> str_has_prefix ((p # pre) @ (a @ c # b) @ post) (a @ c # b)"
  proof
    assume "str_has_prefix ((p # pre) @ (a @ c # b) @ post) (a @ c # b)"
    then obtain zs where "(p # pre) @ (a @ c # b) @ post = (a @ c # b) @ zs"
      unfolding str_has_prefix_def by (metis append_take_drop_id)
    then have zs: "((p # pre) @ a) @ c # b @ post = a @ c # b @ zs" by simp
    have tw: "c \<notin> set xs \<Longrightarrow> takeWhile (\<lambda>x. x \<noteq> c) (xs @ c # ys) = xs" for xs ys by (subst takeWhile_append2) auto
    have "(p # pre) @ a = a" using arg_cong [OF zs, of "takeWhile (\<lambda>x. x \<noteq> c)"] tw [of "(p # pre) @ a"] tw [of a] Cons.prems assms
      by (simp only: set_append Un_iff simp_thms)
    then show False using append_self_conv2 [of "p # pre" a] by simp
  qed
  then show ?case using Cons by simp
qed

lemma str_index_absent: "c \<in> set sub \<Longrightarrow> c \<notin> set s \<Longrightarrow> str_index s sub = None"
proof (induction s)
  case (Cons x s)
  have "\<not> str_has_prefix (x # s) sub" using Cons.prems by (auto simp: str_has_prefix_def) (metis in_set_takeD set_ConsD)
  then show ?case using Cons by simp
qed auto

section \<open>Init on a host with bans\<close>

definition list_head :: "string \<Rightarrow> string \<Rightarrow> string" where
  "list_head st fam = ''table inet ezyshield {\<newline>'' @ tabs 1 @ ''set '' @ st @ '' {\<newline>'' @ tabs 2 @ ''type '' @ fam @ ''\<newline>''
     @ tabs 2 @ ''flags interval,timeout\<newline>''"

lemma list_head_chars:
  assumes "st \<in> {''blocked'', ''blocked6''}" and "fam \<in> {''ipv4_addr'', ''ipv6_addr''}"
  shows "CHR ''='' \<notin> set (list_head st fam)" and "CHR ''-'' \<notin> set (list_head st fam)"
  using assms by (auto simp: list_head_def tabs_def)

lemma str_join_chars: "c \<in> set (str_join sep xs) \<Longrightarrow> c \<in> set sep \<or> (\<exists>x \<in> set xs. c \<in> set x)"
  by (induction sep xs rule: str_join.induct) auto

lemma no_auto_merge:
  assumes "CHR ''-'' \<notin> set out"
  shows "\<not> list_ex (\<lambda>line. trim_space line = ''auto-merge'') (str_split (CHR 0x0A) out)"
proof -
  have sub: "set line \<subseteq> set out" if "line \<in> set (str_split (CHR 0x0A) out)" for line
  proof -
    have "\<forall>line \<in> set (str_split c out). set line \<subseteq> set out" for c
      by (induction out) (fastforce split: if_splits list.splits)+
    then show ?thesis using that by blast
  qed
  have "set (trim_space line) \<subseteq> set line" for line
    unfolding trim_space_def by (auto dest!: set_dropWhileD)
  moreover have "CHR ''-'' \<in> set ''auto-merge''" by simp
  ultimately show ?thesis using sub assms unfolding list_ex_iff by (metis subsetD)
qed

lemma list_output:
  assumes "gm_get (gcLocked now k) st = Some s" and "\<not> ks_auto_merge s"
  shows "ListSetOutput ord now ''inet'' ''ezyshield'' st k = Some (list_head st (ks_family s)
    @ (if ks_elems s = [] then [] else tabs 2 @ ''elements = { ''
        @ str_join (CHR '','' # ''\<newline>'' @ tabs 3 @ ''     '') (map (list_elem now) (ord (ks_elems s))) @ '' }\<newline>'')
    @ tabs 1 @ ''}\<newline>}\<newline>'')"
  using assms by (simp add: ListSetOutput_def list_head_def)

lemma parse_output:
  assumes "st \<in> {''blocked'', ''blocked6''}" and "fam \<in> {''ipv4_addr'', ''ipv6_addr''}"
    and "els \<noteq> []" and "\<forall>(el, e) \<in> set els. canon_key el \<and> readable_expiry now e"
    and "(ip, ttl) \<in> set (parseSetElements (list_head st fam @ (tabs 2 @ ''elements = { ''
        @ str_join (CHR '','' # ''\<newline>'' @ tabs 3 @ ''     '') (map (list_elem now) els) @ '' }\<newline>'') @ rest))"
  shows "\<exists>e. (ip, e) \<in> set els \<and> backed now (deadline now ttl) (Some e)"
proof -
  let ?ws = "''\<newline>'' @ tabs 3 @ ''     ''"
  let ?body = "'' '' @ str_join (CHR '','' # ?ws) (map (list_elem now) els) @ '' ''"
  have ls: "\<forall>x \<in> set (map (list_elem now) els). listed x" using list_elem_listed assms(4) by auto
  have ws: "\<forall>c \<in> set ?ws. is_space c" by (simp add: tabs_def is_space_def)
  have nb: "CHR ''}'' \<notin> set ?body"
  proof
    assume "CHR ''}'' \<in> set ?body"
    then consider "CHR ''}'' \<in> set (CHR '','' # ?ws)" | x where "x \<in> set (map (list_elem now) els)" "CHR ''}'' \<in> set x"
      using str_join_chars [of "CHR ''}''" "CHR '','' # ?ws" "map (list_elem now) els"] by auto
    then show False
    proof cases
      case 1
      then show False by (simp add: tabs_def)
    next
      case 2
      then show False using ls by (auto simp: listed_def)
    qed
  qed
  have "CHR ''='' \<notin> set (list_head st fam @ tabs 2)" using list_head_chars [OF assms(1,2)] by (simp add: tabs_def)
  from str_index_marker [of "CHR ''=''" "''elements ''", OF _ this, of "'' {''" "?body @ ''}\<newline>'' @ rest"]
  have i: "str_index ((list_head st fam @ tabs 2) @ ''elements = {'' @ ?body @ ''}\<newline>'' @ rest) ''elements = {''
      = Some (length (list_head st fam @ tabs 2))" by simp
  from str_index_marker [of "CHR ''}''" "[]", OF _ nb, of "[]" "''\<newline>'' @ rest"]
  have j: "str_index (?body @ ''}\<newline>'' @ rest) ''}'' = Some (length ?body)" by simp
  have spell: "list_head st fam @ (tabs 2 @ ''elements = { '' @ str_join (CHR '','' # ?ws) (map (list_elem now) els) @ '' }\<newline>'') @ rest
      = (list_head st fam @ tabs 2) @ ''elements = {'' @ ?body @ ''}\<newline>'' @ rest" by simp
  have "drop (length (list_head st fam @ tabs 2) + length ''elements = {'')
      ((list_head st fam @ tabs 2) @ ''elements = {'' @ ?body @ ''}\<newline>'' @ rest) = ?body @ ''}\<newline>'' @ rest" by simp
  then have "parseSetElements ((list_head st fam @ tabs 2) @ ''elements = {'' @ ?body @ ''}\<newline>'' @ rest)
      = fst (parse_tokens (str_split (CHR '','') ?body))"
    unfolding parseSetElements_def parseSetElementsDetail_def i option.case Let_def by (simp only: j option.case) simp
  then have "(ip, ttl) \<in> set (fst (parse_tokens (str_split (CHR '','') ?body)))" using assms(5) unfolding spell by simp
  moreover have "map trim_space (str_split (CHR '','') ?body) = map (list_elem now) els"
    using split_listed [of "map (list_elem now) els" ?ws "'' ''" "'' ''"] ls ws assms(3) by simp
  ultimately show ?thesis using parse_listed [OF _ assms(4)] by blast
qed

lemma parse_output_empty:
  assumes "st \<in> {''blocked'', ''blocked6''}" and "fam \<in> {''ipv4_addr'', ''ipv6_addr''}"
  shows "parseSetElements (list_head st fam @ tabs 1 @ ''}\<newline>}\<newline>'') = []"
proof -
  have "CHR ''='' \<notin> set (list_head st fam @ tabs 1 @ ''}\<newline>}\<newline>'')" using list_head_chars [OF assms] by (simp add: tabs_def)
  then have "str_index (list_head st fam @ tabs 1 @ ''}\<newline>}\<newline>'') ''elements = {'' = None" by (intro str_index_absent [of "CHR ''=''"]) simp_all
  then show ?thesis by (simp add: parseSetElements_def parseSetElementsDetail_def)
qed

text \<open>Every element that the listing of a set of bans yields is in the kernel, with the lifetime it is cached with.\<close>

definition readable_host :: "time \<Rightarrow> ksets \<Rightarrow> bool" where
  "readable_host now k \<longleftrightarrow> (\<forall>key e. host_elem now default_names k key = Some e \<longrightarrow> readable_expiry now e)"

lemma set_listing:
  assumes "blocked_ok default_names k" and "st \<in> {''blocked'', ''blocked6''}" and "readable_host now k" and "\<forall>els. set (ord els) = set els"
  obtains out where "ListSetOutput ord now ''inet'' ''ezyshield'' st k = Some out" "CHR ''-'' \<notin> set out"
    "\<forall>(ip, ttl) \<in> set (parseSetElements out). canon_key ip \<and> backed now (deadline now ttl) (host_elem now default_names k ip)"
proof -
  have "st \<in> {nm_set4 default_names, nm_set6 default_names}" using assms(2) by (simp add: default_names_def)
  then obtain s0 where s0: "gm_get k st = Some s0" "set_ok default_names st s0" using assms(1) by (auto simp: blocked_ok_def)
  define s where "s = gc_set now s0"
  have s: "gm_get (gcLocked now k) st = Some s" "set_ok default_names st s" using s0 by (simp_all add: gm_get_gc s_def)
  let ?els = "ord (ks_elems s)"
  have elem: "canon_key el \<and> host_elem now default_names k el = Some e" if "(el, e) \<in> set ?els" for el e
  proof -
    have m: "(el, e) \<in> set (ks_elems s)" using that assms(4) by simp
    then have "canon_key el" "setForIP default_names el = Inr st" using s(2) by (force simp: set_ok_def)+
    moreover have "gm_get (ks_elems s) el = Some e" using gm_in_set_get [OF _ m] s(2) by (simp add: set_ok_def)
    ultimately show ?thesis using s(1) by (simp add: host_elem_def Expiry_def)
  qed
  have ok: "\<forall>(el, e) \<in> set ?els. canon_key el \<and> readable_expiry now e"
    using elem assms(3) unfolding readable_host_def by blast
  have fam: "ks_family s \<in> {''ipv4_addr'', ''ipv6_addr''}" "\<not> ks_auto_merge s" using s(2) by (simp_all add: set_ok_def)
  note hd = list_head_chars(2) [OF assms(2) fam(1)]
  show thesis
  proof (cases "ks_elems s = []")
    case True
    show thesis
      by (rule that [OF list_output [OF s(1) fam(2), unfolded if_P [OF True], unfolded append_Nil]])
        (use hd parse_output_empty [OF assms(2) fam(1)] in \<open>simp_all add: tabs_def\<close>)
  next
    case False
    then have ne: "?els \<noteq> []" using assms(4) by (metis set_empty)
    let ?ws = "''\<newline>'' @ tabs 3 @ ''     ''"
    have "CHR ''-'' \<notin> set (str_join (CHR '','' # ?ws) (map (list_elem now) ?els))"
    proof
      assume "CHR ''-'' \<in> set (str_join (CHR '','' # ?ws) (map (list_elem now) ?els))"
      then obtain x where "x \<in> set ?els" "CHR ''-'' \<in> set (list_elem now x)"
        using str_join_chars [of "CHR ''-''" "CHR '','' # ?ws" "map (list_elem now) ?els"] by (auto simp: tabs_def)
      moreover obtain el e where "x = (el, e)" by fastforce
      ultimately show False using list_elem_listed [of el now e] ok by (auto simp: listed_def)
    qed
    then show thesis
      using that [OF list_output [OF s(1) fam(2), unfolded if_not_P [OF False]]] hd
        parse_output [OF assms(2) fam(1) ne ok] elem by (fastforce simp: tabs_def)
  qed
qed

lemma load_blocked_mem:
  "gm_get (load_blocked now els m) key = Some dl \<Longrightarrow> gm_get m key = Some dl \<or> (\<exists>ttl. (key, ttl) \<in> set els \<and> dl = deadline now ttl)"
proof (induction els arbitrary: m)
  case (Cons x els)
  obtain ip ttl where x: "x = (ip, ttl)" by fastforce
  have "load_blocked now (x # els) m = load_blocked now els (gm_set ip (deadline now ttl) m)" by (simp add: load_blocked_def x)
  then have "gm_get (load_blocked now els (gm_set ip (deadline now ttl) m)) key = Some dl" using Cons.prems by (simp only:)
  from Cons.IH [OF this] show ?case by (cases "key = ip") (auto simp: x)
qed (simp add: load_blocked_def)

lemma load_blocked_ok: "\<forall>(ip, ttl) \<in> set els. canon_key ip \<Longrightarrow> cache_ok m \<Longrightarrow> cache_ok (load_blocked now els m)"
proof (induction els arbitrary: m)
  case (Cons x els)
  obtain ip ttl where x: "x = (ip, ttl)" by fastforce
  have "load_blocked now (x # els) m = load_blocked now els (gm_set ip (deadline now ttl) m)" by (simp add: load_blocked_def x)
  with Cons cache_ok_set show ?case by (auto simp: x)
qed (simp add: load_blocked_def)

text \<open>The init script leaves the sets of bans of a host that has them as they are.\<close>

lemma decl_fields:
  "map str_fields (decl_lines default_names) = [[''add'', ''table'', ''inet'', ''ezyshield''],
     [''add'', ''set'', ''inet'', ''ezyshield'', ''blocked'', ''{'', ''type'', ''ipv4_addr'', '';'', ''flags'', ''interval,timeout'', '';'', ''}''],
     [''add'', ''set'', ''inet'', ''ezyshield'', ''blocked6'', ''{'', ''type'', ''ipv6_addr'', '';'', ''flags'', ''interval,timeout'', '';'', ''}''],
     [''add'', ''set'', ''inet'', ''ezyshield'', ''allowed'', ''{'', ''type'', ''ipv4_addr'', '';'', ''flags'', ''interval'', '';'', ''auto-merge'', '';'', ''}''],
     [''add'', ''set'', ''inet'', ''ezyshield'', ''allowed6'', ''{'', ''type'', ''ipv6_addr'', '';'', ''flags'', ''interval'', '';'', ''auto-merge'', '';'', ''}''],
     [''add'', ''set'', ''inet'', ''ezyshield'', ''blocked_feeds'', ''{'', ''type'', ''ipv4_addr'', '';'', ''flags'', ''interval,timeout'', '';'', ''auto-merge'', '';'', ''}''],
     [''add'', ''set'', ''inet'', ''ezyshield'', ''blocked_feeds6'', ''{'', ''type'', ''ipv6_addr'', '';'', ''flags'', ''interval,timeout'', '';'', ''auto-merge'', '';'', ''}'']]"
  by code_simp

lemma decl_trim: "\<forall>l \<in> set (decl_lines default_names). trim_space l = l"
  by code_simp

lemma add_set_line:
  assumes "str_has_prefix l ''add set ''" and "str_fields l = a # b # c # d # name # rest" and "applyLine now l k = Inr k'"
    and "gm_get k name \<noteq> None \<or> name \<notin> S"
  shows "same_sets S k k'"
  using assms by (auto simp: applyLine_def Let_def same_sets_def split: if_splits)

lemma decl_line_keeps:
  assumes "l \<in> set (decl_lines default_names)" and "\<forall>st \<in> {''blocked'', ''blocked6''}. gm_get k st \<noteq> None"
    and "applyLine now l k = Inr k'"
  shows "same_sets {''blocked'', ''blocked6''} k k'"
proof -
  let ?ls = "decl_lines default_names"
  have len: "length ?ls = 7" by (simp add: decl_lines_def)
  then obtain i where i: "i < 7" "l = ?ls ! i" using assms(1) by (metis in_set_conv_nth)
  have f: "str_fields l = map str_fields ?ls ! i" using i len by simp
  have head: "?ls ! 0 = ''add table inet ezyshield''" by (simp add: decl_lines_def default_names_def)
  have sets: "str_has_prefix (?ls ! j) ''add set ''" if "j \<in> {1, 2, 3, 4, 5, 6}" for j
    using that by (auto simp: decl_lines_def default_names_def blockedSetDecl_def str_has_prefix_def)
  consider "i = 0" | "i = 1" | "i = 2" | "i = 3" | "i = 4" | "i = 5" | "i = 6" using i(1) by linarith
  then show ?thesis
  proof cases
    case 1
    then show ?thesis using assms(3) i head by (simp add: applyLine_def str_has_prefix_def)
  qed (use assms(2,3) i sets add_set_line [OF _ _ assms(3)] f [unfolded decl_fields] in \<open>simp_all\<close>)
qed

lemma keeping_lines:
  assumes "\<forall>l \<in> set ls. \<forall>k k'. (\<forall>st \<in> S. gm_get k st \<noteq> None) \<longrightarrow> applyLine now (trim_space l) k = Inr k' \<longrightarrow> same_sets S k k'"
  shows "\<forall>st \<in> S. gm_get k st \<noteq> None \<Longrightarrow> apply_lines now ls k = Inr k' \<Longrightarrow> same_sets S k k'"
  using assms
proof (induction ls arbitrary: k)
  case (Cons l ls)
  show ?case
  proof (cases "trim_space l = []")
    case True
    then show ?thesis using Cons by simp
  next
    case False
    then obtain k1 where k1: "applyLine now (trim_space l) k = Inr k1" "apply_lines now ls k1 = Inr k'"
      using Cons.prems(2) by (auto simp: Let_def split: sum.splits)
    have s: "same_sets S k k1" using Cons.prems(1,3) k1(1) by simp
    then have "\<forall>st \<in> S. gm_get k1 st \<noteq> None" using Cons.prems(1) by (simp add: same_sets_def)
    from Cons.IH [OF this k1(2)] Cons.prems(3) show ?thesis using same_sets_trans [OF s] by simp
  qed
qed simp

lemma init_script_keeps:
  assumes "\<forall>st \<in> {''blocked'', ''blocked6''}. gm_get k st \<noteq> None" and "Apply now (initTableScript default_names) k = (None, k')"
  shows "same_sets {''blocked'', ''blocked6''} (gcLocked now k) k'"
proof -
  let ?d = "decl_lines default_names" and ?c = "chain_part default_names"
  have nl: "\<forall>l \<in> set (?d @ ?c). CHR 0x0A \<notin> set l"
    using decl_no_newline chain_part_default by (auto simp: list_all_iff chain_line_def)
  have "apply_lines now ((?d @ ?c) @ [[]]) (gcLocked now k) = Inr k'"
    using assms(2) unfolding Apply_def Let_def init_script_parts str_split_lines [OF nl] by (auto split: sum.splits)
  then obtain k1 where k1: "apply_lines now ?d (gcLocked now k) = Inr k1" "apply_lines now (?c @ [[]]) k1 = Inr k'"
    by (auto simp: apply_lines_append split: sum.splits)
  have "k' = k1" using k1(2) chain_lines_apply [of ?c now k1] chain_part_default by (simp add: list_all_iff)
  moreover have "\<forall>st \<in> {''blocked'', ''blocked6''}. gm_get (gcLocked now k) st \<noteq> None" using assms(1) by (simp add: gm_get_gc)
  from keeping_lines [OF _ this k1(1)] have "same_sets {''blocked'', ''blocked6''} (gcLocked now k) k1"
    using decl_line_keeps decl_trim by simp
  ultimately show ?thesis by simp
qed

text \<open>A restart whose init script runs loads a cache without ghosts.\<close>

lemma Init_loads:
  assumes "host_ok default_names h" and "readable_host now (kh_sets h)" and "\<forall>els. set (ord els) = set els"
    and h1: "host_run now (initTableScript default_names) h = (None, h1)"
  shows "\<exists>sv. Init (kernel_ops ord now) now NewServer h = (None, sv, h1) \<and> pinned_ok now sv h1 \<and> sv_names sv = default_names"
proof -
  let ?ops = "kernel_ops ord now"
  have tw: "table_words default_names = (''inet'', ''ezyshield'')" by code_simp
  have names: "nm_set4 default_names = ''blocked''" "nm_set6 default_names = ''blocked6''" by (simp_all add: default_names_def)
  have new: "sv_names NewServer = default_names" "sv_blocked NewServer = []" by (simp_all add: NewServer_def)
  have ap: "Apply now (initTableScript default_names) (kh_sets h) = (None, kh_sets h1)"
    using h1 by (auto simp: host_run_def split: if_splits prod.splits)
  have ex: "\<forall>st \<in> {''blocked'', ''blocked6''}. gm_get (kh_sets h) st \<noteq> None"
    using assms(1) unfolding blocked_ok_def names by auto
  have same: "same_sets {nm_set4 default_names, nm_set6 default_names} (gcLocked now (kh_sets h)) (kh_sets h1)"
    using init_script_keeps [OF ex ap] names by simp
  have fr: "blocked_ok default_names (kh_sets h1)" "host_elem now default_names (kh_sets h1) x = host_elem now default_names (kh_sets h) x" for x
    using host_frame [OF assms(1) same] by blast+
  have rd: "readable_host now (kh_sets h1)" using assms(2) fr(2) by (simp add: readable_host_def)
  let ?good = "\<lambda>out. \<forall>(ip, ttl) \<in> set (parseSetElements out). canon_key ip
    \<and> backed now (deadline now ttl) (host_elem now default_names (kh_sets h1) ip)"
  obtain o4 where o4: "ListSetOutput ord now ''inet'' ''ezyshield'' ''blocked'' (kh_sets h1) = Some o4" "CHR ''-'' \<notin> set o4" "?good o4"
    using set_listing [OF fr(1) _ rd assms(3), of "''blocked''"] by auto
  obtain o6 where o6: "ListSetOutput ord now ''inet'' ''ezyshield'' ''blocked6'' (kh_sets h1) = Some o6" "CHR ''-'' \<notin> set o6" "?good o6"
    using set_listing [OF fr(1) _ rd assms(3), of "''blocked6''"] by auto
  let ?els = "parseSetElements o4 @ parseSetElements o6"
  have "setHasAutoMerge ?ops default_names (nm_set4 default_names) h1 = Inr False"
    "setHasAutoMerge ?ops default_names (nm_set6 default_names) h1 = Inr False"
    using o4(1) o6(1) no_auto_merge [OF o4(2)] no_auto_merge [OF o6(2)] unfolding setHasAutoMerge_def tw names kernel_ops_def by simp_all
  then have m: "migrateAutoMerge ?ops default_names h1 = (None, h1)" by (simp add: migrateAutoMerge_def migrate_set_def)
  have l: "nftList ?ops default_names h1 = Inr ?els"
    using o4(1) o6(1) unfolding nftList_def listSet_def tw names kernel_ops_def by simp
  have run: "nx_run ?ops (initTableScript default_names) h = (None, h1)" using h1 by (simp add: kernel_ops_def)
  have "Init ?ops now NewServer h = (None, NewServer\<lparr>sv_blocked := load_blocked now ?els []\<rparr>, h1)"
    unfolding Init_def initTable_def new run run_err_def by (simp add: m l)
  moreover have "no_ghosts now default_names (load_blocked now ?els []) h1"
    unfolding no_ghosts_def using load_blocked_mem [of now ?els "[]"] o4(3) o6(3) by fastforce
  moreover have "cache_ok (load_blocked now ?els [])" by (rule load_blocked_ok) (use o4(3) o6(3) in \<open>auto simp: cache_ok_def\<close>)
  ultimately show ?thesis using names_ok_default fr(1) by (intro exI conjI) (auto simp: helper_ok_def NewServer_def)
qed

lemma Init_restart:
  assumes "host_ok default_names h" and "readable_host now (kh_sets h)" and "\<forall>els. set (ord els) = set els"
    and "Init (kernel_ops ord now) now NewServer h = (None, sv, h')"
  shows "pinned_ok now sv h'" and "sv_names sv = default_names"
proof -
  obtain r h1 where h1: "host_run now (initTableScript default_names) h = (r, h1)" by fastforce
  then have "r = None" using assms(4) by (auto simp: Init_def initTable_def NewServer_def run_err_def kernel_ops_def split: option.splits)
  from Init_loads [OF assms(1-3) h1 [unfolded this]] show "pinned_ok now sv h'" "sv_names sv = default_names"
    using assms(4) by auto
qed

section \<open>Reachable states\<close>

text \<open>
  \<open>start\<close> is the first start, \<open>restart\<close> a new process on the host the last one left, with its cache
  gone.  The order of a listing is whatever \<open>ord\<close> makes of the elements.
\<close>

inductive helper_run ::
  "((string \<times> time option) list \<Rightarrow> (string \<times> time option) list) \<Rightarrow> time \<Rightarrow> server \<Rightarrow> khost \<Rightarrow> bool"
  for ord where
  start: "Init (kernel_ops ord now) now NewServer (fresh_host faults) = (None, sv, h) \<Longrightarrow> helper_run ord now sv h"
| wait: "helper_run ord now sv h \<Longrightarrow> now \<le> now' \<Longrightarrow> helper_run ord now' sv h"
| restart: "helper_run ord now sv h \<Longrightarrow> readable_host now (kh_sets h) \<Longrightarrow>
    Init (kernel_ops ord now) now NewServer h = (None, sv', h') \<Longrightarrow> helper_run ord now sv' h'"
| request: "helper_run ord now sv h \<Longrightarrow> zone_free req \<Longrightarrow> names_settled req sv \<Longrightarrow>
    dispatch (kernel_ops ord now) now req sv h = (resp, sv', h') \<Longrightarrow> helper_run ord now sv' h'"

lemma helper_run_ok:
  assumes "helper_run ord now sv h" and "\<forall>els. set (ord els) = set els"
  shows "pinned_ok now sv h \<and> sv_names sv = default_names"
  using assms(1)
proof (induction rule: helper_run.induct)
  case (start now faults sv h)
  then have "sv = NewServer" "kh_sets h = fresh_sets" by (auto simp: Init_fresh split: if_splits)
  then show ?case using fresh_ok by (simp add: NewServer_def)
next
  case (wait now sv h now')
  then show ?case using helper_ok_later by blast
next
  case (restart now sv h sv' h')
  then have "host_ok default_names h" by (auto simp: helper_ok_def)
  from Init_restart [OF this restart.hyps(2) assms(2) restart.hyps(3)] show ?case by simp
next
  case (request now sv h req resp sv' h')
  then show ?case using dispatch_ok by metis
qed

text \<open>
  C15 (invariant).  The cache of the helper has no ghosts.  Take any run of requests, waiting time and
  restarts of the process from the first start on a host without a table, whichever \<open>nft\<close> processes
  fail, where the addresses of the requests carry no IPv6 zone (\<open>zone_free\<close>) and their names do not
  move the helper to another table (\<open>names_settled\<close>), and where a restart finds no timed element in its
  last half second (\<open>readable_host\<close>: the listing rounds to seconds).  Then an element the cache keeps
  without a deadline is in the kernel without a timeout, and one with a deadline at least a second
  away is in the kernel, permanently or for no less than the deadline minus one second, also for the
  elements a restarted helper learned from the \<open>expires\<close> of the listing.  Whatever \<open>list\<close> answers to
  the daemon is therefore really blocked.
\<close>

theorem helper_no_ghosts:
  assumes "helper_run ord now sv h" and "\<forall>els. set (ord els) = set els" and "gm_get (sv_blocked sv) key = Some dl"
  shows "case dl of
      None \<Rightarrow> host_elem now default_names (kh_sets h) key = Some None
    | Some t \<Rightarrow> now + Second \<le> t \<longrightarrow>
        (case host_elem now default_names (kh_sets h) key of
           None \<Rightarrow> False | Some None \<Rightarrow> True | Some (Some x) \<Rightarrow> t - Second < x)"
proof -
  have "no_ghosts now default_names (sv_blocked sv) h"
    using helper_run_ok [OF assms(1,2)] by (auto simp: helper_ok_def)
  then have "backed now dl (host_elem now default_names (kh_sets h) key)" using assms(3) by (simp add: no_ghosts_def)
  then show ?thesis by (auto simp: backed_def split: option.splits)
qed

lemma demo_run: "helper_run demo_order 0 (fst (snd demo_after)) (snd (snd demo_after))"
proof -
  let ?h = "\<lparr>kh_faults = [], kh_sets = fresh_sets, kh_killed = []\<rparr>"
  have "helper_run demo_order 0 NewServer ?h"
    by (rule helper_run.start [of demo_order 0 "[False]"]) (simp add: Init_fresh)
  moreover have "zone_free demo_request" by (simp add: zone_free_def demo_request_def)
  moreover have "names_settled demo_request NewServer"
    by (simp add: names_settled_def demo_request_def NewServer_def Resolve_default)
  ultimately show ?thesis by (rule helper_run.request) (simp add: demo_after_def prod_eq_iff)
qed

lemma demo_cached: "gm_get (sv_blocked (fst (snd demo_after))) ''10.0.0.1'' = Some None"
  unfolding demo_after_def by (subst demo_dispatch) (simp_all add: NewServer_def)

text \<open>The helper dies after the ban and starts again on the same host.\<close>

lemma demo_host: "snd (snd demo_after) = \<lparr>kh_faults = [], kh_sets = demo_kernel, kh_killed = [demo_kill]\<rparr>"
  unfolding demo_after_def by (subst demo_dispatch) (simp_all add: NewServer_def)

lemma demo_decl: "apply_lines 0 (decl_lines default_names) demo_kernel = Inr demo_kernel"
  by code_simp

lemma demo_init: "host_run 0 (initTableScript default_names) (snd (snd demo_after)) = (None, snd (snd demo_after))"
proof -
  let ?ls = "decl_lines default_names @ chain_part default_names"
  have nl: "\<forall>l \<in> set ?ls. CHR 0x0A \<notin> set l"
    using decl_no_newline chain_part_default by (auto simp: list_all_iff chain_line_def)
  have gc: "gcLocked 0 demo_kernel = demo_kernel" by code_simp
  have "apply_lines 0 (?ls @ [[]]) demo_kernel = Inr demo_kernel"
    using chain_lines_apply [of "chain_part default_names" 0 demo_kernel] chain_part_default
    by (simp add: apply_lines_append demo_decl list_all_iff)
  then have "Apply 0 (initTableScript default_names) demo_kernel = (None, demo_kernel)"
    by (simp add: Apply_def Let_def init_script_parts str_split_lines [OF nl] gc del: append_assoc)
  then show ?thesis by (simp add: demo_host host_run_def)
qed

lemma demo_restarted: "\<exists>sv. Init (kernel_ops demo_order 0) 0 NewServer (snd (snd demo_after)) = (None, sv, snd (snd demo_after))
    \<and> helper_run demo_order 0 sv (snd (snd demo_after))"
proof -
  have ord: "\<forall>els. set (demo_order els) = set els" by (simp add: demo_order_def)
  have ok: "host_ok default_names (snd (snd demo_after))" using helper_run_ok [OF demo_run ord] by (auto simp: helper_ok_def)
  have rd: "readable_host 0 (kh_sets (snd (snd demo_after)))"
  proof -
    have "e = None" if "host_elem 0 default_names demo_kernel key = Some e" for key e
      using that by (auto simp: host_elem_def Expiry_def demo_kernel_def fresh_sets_def gcLocked_def gc_set_def expired_def
          split: sum.splits option.splits if_splits)
    moreover have "readable_expiry 0 None" by (simp add: readable_expiry_def)
    ultimately show ?thesis unfolding readable_host_def demo_host khost.select_convs by blast
  qed
  show ?thesis using Init_loads [OF ok rd ord demo_init] helper_run.restart [OF demo_run rd] by blast
qed

theorem helper_no_ghosts_witness:
  "host_elem 0 default_names (kh_sets (snd (snd demo_after))) ''10.0.0.1'' = Some None
   \<and> (\<exists>sv. Init (kernel_ops demo_order 0) 0 NewServer (snd (snd demo_after)) = (None, sv, snd (snd demo_after))
       \<and> helper_run demo_order 0 sv (snd (snd demo_after)))"
  using helper_no_ghosts [OF demo_run _ demo_cached] demo_restarted by (simp add: demo_order_def)

end
