(* ===== verification/Recheck.thy ===== *)
theory Recheck
  imports Decision
begin

text \<open>
  The deferred re-checks of \<open>internal/daemon/sshrecheck.go\<close>: the queue that arms one deferred
  re-evaluation per address after an anti-lockout refusal (and, as a second instance, one
  enforcement retry per address after a refusal of the gate), and the verdict it carries.

  \<^item> \<open>due\<close> ranges over a map; the order of the popped items is the argument \<open>order\<close>, the keys in
    the order the loop visits them.
  \<^item> The consumer is a parameter of the runs below: which popped addresses it finds still
    guarded.  What the daemon does with an item is in theory \<open>Daemon\<close>.
\<close>

section \<open>The queue\<close>

definition sshRecheckMaxAttempts :: int where "sshRecheckMaxAttempts = 15"
definition sshRecheckMaxPending :: nat where "sshRecheckMaxPending = 1024"
definition defaultSSHRecheckDelay :: duration where "defaultSSHRecheckDelay = 2 * SSHPeerCacheTTL"

record recheck_item =
  ri_ip :: addr
  ri_attempts :: int
  ri_ai_verdict :: "verdict option"

record recheck_entry =
  re_due :: time
  re_attempts :: int
  re_ai_verdict :: "verdict option"

type_synonym recheck_queue = "(addr, recheck_entry) gomap"

definition recheck_entry_of :: "time \<Rightarrow> int \<Rightarrow> verdict option \<Rightarrow> recheck_entry" where
  "recheck_entry_of t n v = \<lparr>re_due = t, re_attempts = n, re_ai_verdict = v\<rparr>"

text \<open>An event-driven refusal: deadline pushed back, budget reset, the newest verdict wins.\<close>

definition recheck_schedule :: "addr \<Rightarrow> time \<Rightarrow> verdict option \<Rightarrow> recheck_queue \<Rightarrow> bool \<times> recheck_queue" where
  "recheck_schedule ip t v q =
     (if gm_get q ip \<noteq> None then (True, gm_set ip (recheck_entry_of t 0 v) q)
      else if length q \<ge> sshRecheckMaxPending then (False, q)
      else (True, gm_set ip (recheck_entry_of t 0 v) q))"

text \<open>A refused re-check: \<open>attempts\<close> is the budget already spent.\<close>

definition recheck_requeue ::
  "addr \<Rightarrow> int \<Rightarrow> time \<Rightarrow> verdict option \<Rightarrow> recheck_queue \<Rightarrow> bool \<times> recheck_queue" where
  "recheck_requeue ip attempts t v q =
     (if attempts \<ge> sshRecheckMaxAttempts then (False, q)
      else if gm_get q ip \<noteq> None then (True, q)
      else if length q \<ge> sshRecheckMaxPending then (False, q)
      else (True, gm_set ip (recheck_entry_of t attempts v) q))"

definition recheck_item_of :: "addr \<Rightarrow> recheck_entry \<Rightarrow> recheck_item" where
  "recheck_item_of ip e = \<lparr>ri_ip = ip, ri_attempts = re_attempts e, ri_ai_verdict = re_ai_verdict e\<rparr>"

fun recheck_pop :: "time \<Rightarrow> addr list \<Rightarrow> recheck_queue \<Rightarrow> recheck_item list \<times> recheck_queue" where
  "recheck_pop now [] q = ([], q)"
| "recheck_pop now (ip # order) q =
     (case gm_get q ip of
        None \<Rightarrow> recheck_pop now order q
      | Some e \<Rightarrow>
          if \<not> re_due e > now
          then (case recheck_pop now order (gm_del ip q) of (items, q') \<Rightarrow> (recheck_item_of ip e # items, q'))
          else recheck_pop now order q)"

section \<open>The carried verdict\<close>

text \<open>
  \<open>elevatedAIVerdict\<close>: one pass that keeps the best verdict of an AI source at or above the
  threshold and the highest score of the others.
\<close>

definition is_ai :: "verdict \<Rightarrow> bool" where
  "is_ai v \<longleftrightarrow> str_has_prefix (vd_source v) ''ai:''"

definition elevated_step :: "int \<Rightarrow> int \<times> verdict option \<Rightarrow> verdict \<Rightarrow> int \<times> verdict option" where
  "elevated_step ban acc v =
     (if is_ai v then
        (fst acc, if vd_score v \<ge> ban \<and> (case snd acc of None \<Rightarrow> True | Some b \<Rightarrow> vd_score v > vd_score b)
                  then Some v else snd acc)
      else (if vd_score v > fst acc then vd_score v else fst acc, snd acc))"

definition elevatedAIVerdict :: "verdict list \<Rightarrow> int \<Rightarrow> verdict option" where
  "elevatedAIVerdict vs ban =
     (case foldl (elevated_step ban) (0, None) vs of
        (high, best) \<Rightarrow> if high \<ge> ban then None else best)"

lemma elevated_scan:
  "foldl (elevated_step ban) acc vs = (high, best) \<Longrightarrow>
     fst acc \<le> high \<and> (\<forall>v \<in> set vs. \<not> is_ai v \<longrightarrow> vd_score v \<le> high)
     \<and> (best = snd acc \<or> (\<exists>v \<in> set vs. best = Some v \<and> is_ai v \<and> ban \<le> vd_score v))"
proof (induction vs arbitrary: acc)
  case (Cons v vs)
  have "foldl (elevated_step ban) (elevated_step ban acc v) vs = (high, best)" using Cons.prems by simp
  from Cons.IH [OF this] show ?case by (auto simp: elevated_step_def split: if_splits)
qed simp

text \<open>A carried verdict is an AI verdict of the list that alone reached the ban threshold.\<close>

lemma elevatedAIVerdict_sound:
  assumes "elevatedAIVerdict vs ban = Some v"
  shows "v \<in> set vs \<and> is_ai v \<and> ban \<le> vd_score v \<and> (\<forall>w \<in> set vs. \<not> is_ai w \<longrightarrow> vd_score w < ban)"
proof -
  obtain high best where f: "foldl (elevated_step ban) (0, None) vs = (high, best)" by (metis surj_pair)
  then have "high < ban" "best = Some v" using assms by (auto simp: elevatedAIVerdict_def split: if_splits)
  then show ?thesis using elevated_scan [OF f] by auto
qed

section \<open>Invariant\<close>

definition recheck_ok :: "recheck_queue \<Rightarrow> bool" where
  "recheck_ok q \<longleftrightarrow> gm_ok q \<and> length q \<le> sshRecheckMaxPending
     \<and> (\<forall>(ip, e) \<in> set q. 0 \<le> re_attempts e \<and> re_attempts e < sshRecheckMaxAttempts)"

lemma recheck_ok_Nil [intro]: "recheck_ok []"
  by (simp add: recheck_ok_def)

lemma recheck_ok_set:
  assumes "recheck_ok q" and "gm_get q ip \<noteq> None \<or> length q < sshRecheckMaxPending"
    and "0 \<le> re_attempts e" and "re_attempts e < sshRecheckMaxAttempts"
  shows "recheck_ok (gm_set ip e q)"
proof -
  have "length (gm_set ip e q) \<le> sshRecheckMaxPending"
    using assms(1,2) by (auto simp: length_gm_set recheck_ok_def map_of_eq_None_iff)
  moreover have "\<forall>(k, x) \<in> set (gm_set ip e q). 0 \<le> re_attempts x \<and> re_attempts x < sshRecheckMaxAttempts"
    using assms(1,3,4) by (fastforce simp: recheck_ok_def dest: gm_set_in)
  ultimately show ?thesis using assms(1) by (simp add: recheck_ok_def)
qed

lemma recheck_ok_schedule [ezy_inv]: "recheck_ok q \<Longrightarrow> recheck_ok (snd (recheck_schedule ip t v q))"
  unfolding recheck_schedule_def
  by (auto intro!: recheck_ok_set simp: recheck_entry_of_def sshRecheckMaxAttempts_def)

lemma recheck_ok_requeue [ezy_inv]:
  "recheck_ok q \<Longrightarrow> 0 \<le> n \<Longrightarrow> recheck_ok (snd (recheck_requeue ip n t v q))"
  unfolding recheck_requeue_def by (auto intro!: recheck_ok_set simp: recheck_entry_of_def)

lemma recheck_ok_del: "recheck_ok q \<Longrightarrow> recheck_ok (gm_del ip q)"
  using length_delete_le [of ip q] by (fastforce simp: recheck_ok_def dest!: gm_del_in)

lemma recheck_pop_skip:
  "\<not> (\<exists>e. gm_get q ip = Some e \<and> re_due e \<le> now) \<Longrightarrow> recheck_pop now (ip # order) q = recheck_pop now order q"
  by (auto split: option.split)

lemma recheck_pop_take:
  "gm_get q ip = Some e \<Longrightarrow> re_due e \<le> now \<Longrightarrow>
     recheck_pop now (ip # order) q
       = (recheck_item_of ip e # fst (recheck_pop now order (gm_del ip q)), snd (recheck_pop now order (gm_del ip q)))"
  by (simp split: prod.split)

lemma recheck_pop_induct:
  assumes "\<And>q. P [] q"
    and "\<And>ip order q. \<not> (\<exists>e. gm_get q ip = Some e \<and> re_due e \<le> now) \<Longrightarrow> P order q \<Longrightarrow> P (ip # order) q"
    and "\<And>ip e order q. gm_get q ip = Some e \<Longrightarrow> re_due e \<le> now \<Longrightarrow> P order (gm_del ip q) \<Longrightarrow> P (ip # order) q"
  shows "P order q"
  by (induction order arbitrary: q) (use assms in blast)+

lemma recheck_ok_pop [ezy_inv]: "recheck_ok q \<Longrightarrow> recheck_ok (snd (recheck_pop now order q))"
proof (induction order q rule: recheck_pop_induct [where now = now])
  case (2 ip order q)
  then show ?case using recheck_pop_skip [OF 2(1)] by simp
next
  case (3 ip e order q)
  then show ?case using recheck_pop_take [OF 3(1,2)] recheck_ok_del by simp
qed simp

text \<open>What is popped was armed and due, and is no longer armed.\<close>

definition popped :: "time \<Rightarrow> recheck_queue \<Rightarrow> recheck_item list \<Rightarrow> recheck_queue \<Rightarrow> bool" where
  "popped now q items q' \<longleftrightarrow>
     (\<forall>it \<in> set items. \<exists>e. gm_get q (ri_ip it) = Some e \<and> it = recheck_item_of (ri_ip it) e \<and> re_due e \<le> now)
     \<and> (\<forall>ip. gm_get q' ip = (if ip \<in> ri_ip ` set items then None else gm_get q ip)) \<and> distinct (map ri_ip items)"

lemma poppedE:
  assumes "popped now q items q'" and "it \<in> set items"
  obtains e where "gm_get q (ri_ip it) = Some e" "it = recheck_item_of (ri_ip it) e" "re_due e \<le> now"
    "gm_get q' (ri_ip it) = None"
  using assms unfolding popped_def by auto

lemma popped_take:
  assumes "popped now (gm_del ip q) items q'" and "gm_get q ip = Some e" and "re_due e \<le> now"
  shows "popped now q (recheck_item_of ip e # items) q'"
proof -
  have other: "ri_ip it \<noteq> ip \<and> (\<exists>e. gm_get q (ri_ip it) = Some e \<and> it = recheck_item_of (ri_ip it) e \<and> re_due e \<le> now)"
    if "it \<in> set items" for it using assms(1) that by (fastforce simp: popped_def split: if_splits)
  moreover have "ri_ip (recheck_item_of ip e) = ip" by (simp add: recheck_item_of_def)
  ultimately show ?thesis using assms by (auto simp: popped_def)
qed

lemma recheck_pop_popped: "popped now q (fst (recheck_pop now order q)) (snd (recheck_pop now order q))"
proof (induction order q rule: recheck_pop_induct [where now = now])
  case (2 ip order q)
  then show ?case using recheck_pop_skip [OF 2(1)] by simp
next
  case (3 ip e order q)
  then show ?case using recheck_pop_take [OF 3(1,2)] popped_take by simp
qed (simp add: popped_def)

lemma recheck_pop_spec: "recheck_pop now order q = (items, q') \<Longrightarrow> popped now q items q'"
  using recheck_pop_popped [of now q order] by simp

section \<open>The retry budget\<close>

text \<open>
  One tick of the loop: pop what is due, and re-arm with one more attempt each address the
  consumer finds still guarded.  \<open>later\<close> is the clock reading plus the delay at the re-arming.
\<close>

definition recheck_again :: "(addr \<Rightarrow> bool) \<Rightarrow> time \<Rightarrow> recheck_queue \<Rightarrow> recheck_item \<Rightarrow> recheck_queue" where
  "recheck_again guarded later q it =
     (if guarded (ri_ip it) then snd (recheck_requeue (ri_ip it) (ri_attempts it + 1) later (ri_ai_verdict it) q) else q)"

definition recheck_tick ::
  "addr list \<Rightarrow> time \<Rightarrow> time \<Rightarrow> (addr \<Rightarrow> bool) \<Rightarrow> recheck_queue \<Rightarrow> recheck_item list \<times> recheck_queue" where
  "recheck_tick order now later guarded q =
     (case recheck_pop now order q of (items, q1) \<Rightarrow> (items, foldl (recheck_again guarded later) q1 items))"

text \<open>How often one address is popped by a sequence of ticks.\<close>

fun recheck_pops :: "addr \<Rightarrow> (addr list \<times> time \<times> time \<times> (addr \<Rightarrow> bool)) list \<Rightarrow> recheck_queue \<Rightarrow> int" where
  "recheck_pops ip [] q = 0"
| "recheck_pops ip ((order, now, later, guarded) # ticks) q =
     (case recheck_tick order now later guarded q of
        (items, q') \<Rightarrow> (if ip \<in> ri_ip ` set items then 1 else 0) + recheck_pops ip ticks q')"

definition recheck_left :: "addr \<Rightarrow> recheck_queue \<Rightarrow> int" where
  "recheck_left ip q = (case gm_get q ip of None \<Rightarrow> 0 | Some e \<Rightarrow> sshRecheckMaxAttempts - re_attempts e)"

lemma recheck_left_bounds:
  assumes "recheck_ok q"
  shows "0 \<le> recheck_left ip q" and "recheck_left ip q \<le> sshRecheckMaxAttempts"
proof -
  have "0 \<le> recheck_left ip q \<and> recheck_left ip q \<le> sshRecheckMaxAttempts"
  proof (cases "gm_get q ip")
    case None
    then show ?thesis by (simp add: recheck_left_def sshRecheckMaxAttempts_def)
  next
    case (Some e)
    then have "0 \<le> re_attempts e \<and> re_attempts e < sshRecheckMaxAttempts"
      using assms gm_get_in_set [OF Some] by (auto simp: recheck_ok_def)
    then show ?thesis using Some by (simp add: recheck_left_def)
  qed
  then show "0 \<le> recheck_left ip q" "recheck_left ip q \<le> sshRecheckMaxAttempts" by simp_all
qed

lemma recheck_again_other:
  "ri_ip it \<noteq> ip \<Longrightarrow> gm_get (recheck_again guarded later q it) ip = gm_get q ip"
  by (auto simp: recheck_again_def recheck_requeue_def)

lemma recheck_again_others:
  "ip \<notin> ri_ip ` set items \<Longrightarrow> gm_get (foldl (recheck_again guarded later) q items) ip = gm_get q ip"
  by (induction items arbitrary: q) (auto simp: recheck_again_other)

lemma recheck_again_self:
  assumes "gm_get q (ri_ip it) = None"
  shows "recheck_left (ri_ip it) (recheck_again guarded later q it) \<le> max 0 (sshRecheckMaxAttempts - (ri_attempts it + 1))"
  using assms by (auto simp: recheck_again_def recheck_requeue_def recheck_left_def recheck_entry_of_def)

lemma recheck_tick_left:
  assumes "recheck_ok q" and "recheck_tick order now later guarded q = (items, q')"
  shows "recheck_left ip q' \<le> recheck_left ip q - (if ip \<in> ri_ip ` set items then 1 else 0)"
proof -
  obtain q1 where p: "recheck_pop now order q = (items, q1)" and q': "q' = foldl (recheck_again guarded later) q1 items"
    using assms(2) by (auto simp: recheck_tick_def split: prod.splits)
  note spec = recheck_pop_spec [OF p]
  show ?thesis
  proof (cases "ip \<in> ri_ip ` set items")
    case False
    then show ?thesis unfolding q' recheck_left_def recheck_again_others [OF False] using spec by (simp add: popped_def)
  next
    case True
    then obtain it where it: "it \<in> set items" "ri_ip it = ip" by blast
    then obtain xs ys where split: "items = xs @ it # ys" by (meson split_list)
    have notin: "ip \<notin> ri_ip ` set xs" "ip \<notin> ri_ip ` set ys" using spec it(2) unfolding split popped_def by auto
    let ?q2 = "foldl (recheck_again guarded later) q1 xs"
    have none: "gm_get ?q2 (ri_ip it) = None"
      unfolding recheck_again_others [OF notin(1) [folded it(2)]] using spec it(1) by (simp add: popped_def)
    obtain e where e: "gm_get q ip = Some e" "it = recheck_item_of ip e" using spec it unfolding popped_def by blast
    have bound: "0 \<le> re_attempts e" "re_attempts e < sshRecheckMaxAttempts"
      using assms(1) gm_get_in_set [OF e(1)] by (auto simp: recheck_ok_def)
    have left: "recheck_left ip q' = recheck_left ip (recheck_again guarded later ?q2 it)"
      unfolding q' split recheck_left_def by (simp add: recheck_again_others [OF notin(2)])
    have "recheck_left ip q' \<le> max 0 (sshRecheckMaxAttempts - (ri_attempts it + 1))"
      unfolding left using recheck_again_self [OF none, of guarded later] it(2) by simp
    then show ?thesis using True e bound by (simp add: recheck_left_def recheck_item_of_def)
  qed
qed

lemma recheck_ok_tick:
  assumes "recheck_ok q" and "recheck_tick order now later guarded q = (items, q')"
  shows "recheck_ok q'"
proof -
  obtain q1 where p: "recheck_pop now order q = (items, q1)" and q': "q' = foldl (recheck_again guarded later) q1 items"
    using assms(2) by (auto simp: recheck_tick_def split: prod.splits)
  have nn: "0 \<le> ri_attempts it + 1" if i: "it \<in> set items" for it
  proof -
    obtain e where e: "gm_get q (ri_ip it) = Some e" "it = recheck_item_of (ri_ip it) e"
      by (rule poppedE [OF recheck_pop_spec [OF p] i])
    have "0 \<le> re_attempts e" using assms(1) gm_get_in_set [OF e(1)] by (auto simp: recheck_ok_def)
    moreover have "ri_attempts it = re_attempts e" by (subst e(2)) (simp add: recheck_item_of_def)
    ultimately show ?thesis by simp
  qed
  have "recheck_ok q1" using recheck_ok_pop [OF assms(1), of now order] p by simp
  then show ?thesis unfolding q'
    by (rule foldl_invariant) (auto simp: recheck_again_def intro: recheck_ok_requeue nn)
qed

lemma recheck_pops_left: "recheck_ok q \<Longrightarrow> recheck_pops ip ticks q \<le> recheck_left ip q"
proof (induction ticks arbitrary: q)
  case Nil
  then show ?case using recheck_left_bounds(1) by (simp del: recheck_pops.simps(2))
next
  case (Cons tick ticks)
  obtain order now later guarded where tick: "tick = (order, now, later, guarded)" by (cases tick) auto
  obtain items q' where t: "recheck_tick order now later guarded q = (items, q')" by (metis surj_pair)
  from Cons.IH [OF recheck_ok_tick [OF Cons.prems t]] recheck_tick_left [OF Cons.prems t, of ip] t
  show ?case by (simp add: tick)
qed

text \<open>
  C36 (bounds).  The retry budget of a deferred re-check is finite: from any well-formed queue,
  however many ticks run and however long the peer stays guarded, one address is popped at most
  15 times until a fresh refusal arms it again, and the queue never holds more than 1024 entries.
\<close>

theorem recheck_budget_bounded:
  assumes "recheck_ok q"
  shows "recheck_pops ip ticks q \<le> sshRecheckMaxAttempts
    \<and> length (snd (recheck_tick order now later guarded q)) \<le> sshRecheckMaxPending
    \<and> length (snd (recheck_schedule ip t v q)) \<le> sshRecheckMaxPending"
proof (intro conjI)
  show "recheck_pops ip ticks q \<le> sshRecheckMaxAttempts"
    using recheck_pops_left [OF assms, of ip ticks] recheck_left_bounds(2) [OF assms, of ip] by simp
  show "length (snd (recheck_tick order now later guarded q)) \<le> sshRecheckMaxPending"
    using recheck_ok_tick [OF assms prod.collapse [symmetric], of order now later guarded] unfolding recheck_ok_def by blast
  show "length (snd (recheck_schedule ip t v q)) \<le> sshRecheckMaxPending"
    using recheck_ok_schedule [OF assms] by (simp add: recheck_ok_def)
qed

theorem recheck_budget_bounded_witness:
  "recheck_pops (V4 1) (replicate 20 ([V4 1], 0, 0, \<lambda>_. True)) (snd (recheck_schedule (V4 1) 0 None [])) \<le> 15"
  using recheck_budget_bounded [OF recheck_ok_schedule [OF recheck_ok_Nil], of "V4 1"]
  by (simp add: sshRecheckMaxAttempts_def)

end
