(* ===== verification/AiLayer.thy ===== *)
theory AiLayer
  imports DecisionProps Recheck Rules
begin

text \<open>
  The second layer of analysis, \<open>internal/ai\<close>, as far as it is logic: the verdict cache
  (\<open>cache.go\<close>), the daily budget (\<open>budget.go\<close>), the binding of verdicts to the analysed batch and the
  code fence (\<open>verdict.go\<close>), the provider chain (\<open>chain.go\<close>), the retry policy (\<open>retry.go\<close>) and the
  cleaner in front of the asynchronous worker (\<open>cleaner.go\<close>, \<open>behavior.go\<close>).

  \<^item> A provider is a function from the batch and the budget hint to its outcome; HTTP and JSON
    are not modelled.
  \<^item> The key of the cache is the behaviour itself, the printed window and the sorted kinds; the
    digest the code takes of its JSON text is taken to be injective.
  \<^item> Token counts are unbounded integers.  Tracking of printable runes in \<open>cleanBehaviorValue\<close> is
    the argument \<open>clean\<close>.
\<close>

section \<open>The cache\<close>

definition AllowlistClampSourceSuffix :: string where "AllowlistClampSourceSuffix = ''+allowlist-clamp''"

definition IsAllowlistClamped :: "verdict \<Rightarrow> bool" where
  "IsAllowlistClamped v \<longleftrightarrow> str_has_prefix (rev (vd_source v)) (rev AllowlistClampSourceSuffix)"

type_synonym behavior_key = "string \<times> (string \<times> int) list"

record cache_entry =
  ca_verdicts :: "verdict list"
  ca_expires_at :: time

record ai_cache =
  cc_entries :: "(behavior_key, cache_entry) gomap"
  cc_ttl :: duration

definition NewCache :: "duration \<Rightarrow> ai_cache" where
  "NewCache ttl = \<lparr>cc_entries = [], cc_ttl = ttl\<rparr>"

definition behaviorKey :: "aggregate \<Rightarrow> behavior_key" where
  "behaviorKey agg = (dur_str (ag_window agg), sort_key fst (ag_kinds agg))"

definition Cache_Get :: "time \<Rightarrow> aggregate \<Rightarrow> ai_cache \<Rightarrow> verdict list option \<times> ai_cache" where
  "Cache_Get now agg c =
     (if cc_ttl c = 0 then (None, c)
      else (case gm_get (cc_entries c) (behaviorKey agg) of
              None \<Rightarrow> (None, c)
            | Some e \<Rightarrow>
                if now > ca_expires_at e then (None, c\<lparr>cc_entries := gm_del (behaviorKey agg) (cc_entries c)\<rparr>)
                else (Some (map (\<lambda>v. v\<lparr>vd_ip := ag_ip agg\<rparr>) (ca_verdicts e)), c)))"

definition Cache_Set :: "time \<Rightarrow> aggregate \<Rightarrow> verdict list \<Rightarrow> ai_cache \<Rightarrow> ai_cache" where
  "Cache_Set now agg vs c =
     (if cc_ttl c = 0 then c
      else (let stored = filter (\<lambda>v. \<not> IsAllowlistClamped v) vs
            in if stored = [] then c
               else c\<lparr>cc_entries := gm_set (behaviorKey agg) \<lparr>ca_verdicts = stored, ca_expires_at = now + cc_ttl c\<rparr> (cc_entries c)\<rparr>))"

definition Cache_Evict :: "time \<Rightarrow> ai_cache \<Rightarrow> ai_cache" where
  "Cache_Evict now c = c\<lparr>cc_entries := filter (\<lambda>(k, e). \<not> now > ca_expires_at e) (cc_entries c)\<rparr>"

text \<open>No entry is empty or holds a clamped verdict, so a clamp is never replayed on another address.\<close>

definition cache_clean :: "ai_cache \<Rightarrow> bool" where
  "cache_clean c \<longleftrightarrow> gm_ok (cc_entries c)
     \<and> (\<forall>(k, e) \<in> set (cc_entries c). ca_verdicts e \<noteq> [] \<and> (\<forall>v \<in> set (ca_verdicts e). \<not> IsAllowlistClamped v))"

lemma cache_clean_new [simp]: "cache_clean (NewCache ttl)"
  by (simp add: cache_clean_def NewCache_def)

lemma cache_clean_set [ezy_inv]: "cache_clean c \<Longrightarrow> cache_clean (Cache_Set now agg vs c)"
  by (fastforce simp: cache_clean_def Cache_Set_def Let_def dest!: gm_set_in)

lemma cache_clean_get [ezy_inv]: "cache_clean c \<Longrightarrow> cache_clean (snd (Cache_Get now agg c))"
  by (fastforce simp: cache_clean_def Cache_Get_def split: option.split dest!: gm_del_in)

lemma cache_clean_evict [ezy_inv]: "cache_clean c \<Longrightarrow> cache_clean (Cache_Evict now c)"
  by (auto simp: cache_clean_def Cache_Evict_def)

lemma Cache_Get_target: "fst (Cache_Get now agg c) = Some vs \<Longrightarrow> v \<in> set vs \<Longrightarrow> vd_ip v = ag_ip agg"
  by (auto simp: Cache_Get_def split: if_splits option.splits)

lemma Cache_Get_unclamped:
  "cache_clean c \<Longrightarrow> fst (Cache_Get now agg c) = Some vs \<Longrightarrow> v \<in> set vs \<Longrightarrow> \<not> IsAllowlistClamped v"
  by (fastforce simp: cache_clean_def Cache_Get_def IsAllowlistClamped_def split: if_splits option.splits dest!: gm_get_in_set)

section \<open>Binding verdicts to what was analysed\<close>

text \<open>\<open>boundToBatch\<close>: a later aggregate of the same address overwrites the canonical spelling.\<close>

definition observed_map :: "aggregate list \<Rightarrow> (addr, addr) gomap" where
  "observed_map batch = foldl (\<lambda>m a. gm_set (unmap (ag_ip a)) (ag_ip a) m) [] batch"

definition boundToBatch :: "verdict list \<Rightarrow> aggregate list \<Rightarrow> verdict list" where
  "boundToBatch vs batch =
     List.map_filter (\<lambda>v. map_option (\<lambda>ip. v\<lparr>vd_ip := ip\<rparr>) (gm_get (observed_map batch) (unmap (vd_ip v)))) vs"

text \<open>The daemon repeats the check for the one address it asked about.\<close>

definition bindVerdictsToIP :: "verdict list \<Rightarrow> addr \<Rightarrow> verdict list" where
  "bindVerdictsToIP vs ip = map (\<lambda>v. v\<lparr>vd_ip := ip\<rparr>) (filter (\<lambda>v. unmap (vd_ip v) = unmap ip) vs)"

lemma bindVerdictsToIP_bound: "v \<in> set (bindVerdictsToIP vs ip) \<Longrightarrow> vd_ip v = ip"
  by (auto simp: bindVerdictsToIP_def)

definition highestScore :: "verdict list \<Rightarrow> int" where
  "highestScore vs = foldl (\<lambda>high v. if vd_score v > high then vd_score v else high) 0 vs"

text \<open>\<open>stripCodeFence\<close>: the code trims \<open>' '\<close>, tab, CR and LF on the right.\<close>

definition trim_right_blank :: "string \<Rightarrow> string" where
  "trim_right_blank s = rev (dropWhile (\<lambda>c. c \<in> {CHR '' '', CHR 0x09, CHR 0x0D, CHR 0x0A}) (rev s))"

definition fence :: string where "fence = [CHR 0x60, CHR 0x60, CHR 0x60]"

definition stripCodeFence :: "string \<Rightarrow> string" where
  "stripCodeFence s =
     (if \<not> str_has_prefix s fence then s
      else (case dropWhile (\<lambda>c. c \<noteq> CHR 0x0A) s of
              [] \<Rightarrow> s
            | nl # rest \<Rightarrow>
                let body = trim_right_blank rest
                in if str_has_prefix (rev body) (rev fence) then trim_right_blank (take (length body - 3) body) else body))"

section \<open>The budget\<close>

record token_budget =
  tb_remaining :: int
  tb_daily_limit :: int

record ai_budget =
  bg_provider :: string
  bg_daily :: int
  bg_notified_day :: "int option"

definition NewBudget :: "string \<Rightarrow> int \<Rightarrow> ai_budget" where
  "NewBudget provider daily = \<lparr>bg_provider = provider, bg_daily = daily, bg_notified_day = None\<rparr>"

definition Budget_Current :: "time \<Rightarrow> ai_budget \<Rightarrow> fstore \<Rightarrow> (store_error + token_budget) \<times> fstore" where
  "Budget_Current now b s =
     (if bg_daily b = 0 then (Inr \<lparr>tb_remaining = 0, tb_daily_limit = 0\<rparr>, s)
      else (case faulty (\<lambda>d. (TodayUsage now (bg_provider b) d, d)) s of
              (Inl e, s1) \<Rightarrow> (Inl e, s1)
            | (Inr used, s1) \<Rightarrow>
                let remaining = bg_daily b - (us_input_tokens used + us_output_tokens used)
                in (Inr \<lparr>tb_remaining = (if remaining < 0 then 0 else remaining), tb_daily_limit = bg_daily b\<rparr>, s1)))"

definition Budget_Exceeded :: "time \<Rightarrow> ai_budget \<Rightarrow> fstore \<Rightarrow> (store_error + bool) \<times> fstore" where
  "Budget_Exceeded now b s =
     (case Budget_Current now b s of
        (Inl e, s1) \<Rightarrow> (Inl e, s1)
      | (Inr t, s1) \<Rightarrow> (Inr (tb_daily_limit t > 0 \<and> tb_remaining t = 0), s1))"

definition NoteExceededToday :: "time \<Rightarrow> ai_budget \<Rightarrow> bool \<times> ai_budget" where
  "NoteExceededToday now b =
     (if bg_notified_day b = Some (utc_day now) then (False, b) else (True, b\<lparr>bg_notified_day := Some (utc_day now)\<rparr>))"

definition Budget_Consume ::
  "time \<Rightarrow> usage \<Rightarrow> addr \<Rightarrow> ai_budget \<Rightarrow> fstore \<Rightarrow> (store_error + bool) \<times> ai_budget \<times> fstore" where
  "Budget_Consume now u ip b s =
     (let ipStr = (if addr_is_valid ip then addr_str (unmap ip) else [])
      in case faulty (\<lambda>d. ((), RecordUsage now (bg_provider b) u ipStr d)) s of
           (Inl e, s1) \<Rightarrow> (Inl e, b, s1)
         | (Inr r, s1) \<Rightarrow>
             if bg_daily b = 0 then (Inr False, b, s1)
             else (case Budget_Current now b s1 of
                     (Inl e, s2) \<Rightarrow> (Inl e, b, s2)
                   | (Inr t, s2) \<Rightarrow>
                       if tb_remaining t \<noteq> 0 then (Inr False, b, s2)
                       else (case NoteExceededToday now b of (first, b1) \<Rightarrow> (Inr first, b1, s2))))"

text \<open>The breach of a day is announced once, however many breaches follow on that day.\<close>

fun breach_notes :: "time list \<Rightarrow> ai_budget \<Rightarrow> bool list" where
  "breach_notes [] b = []"
| "breach_notes (t # ts) b = (case NoteExceededToday t b of (first, b1) \<Rightarrow> first # breach_notes ts b1)"

lemma breach_noted_once_per_day:
  "\<forall>t \<in> set ts. utc_day t = day \<Longrightarrow> length (filter id (breach_notes ts b)) = (if ts = [] \<or> bg_notified_day b = Some day then 0 else 1)"
proof (induction ts arbitrary: b)
  case (Cons t ts)
  show ?case
  proof (cases "bg_notified_day b = Some day")
    case True
    then show ?thesis using Cons by (simp add: NoteExceededToday_def)
  next
    case False
    then have "NoteExceededToday t b = (True, b\<lparr>bg_notified_day := Some day\<rparr>)" using Cons.prems by (simp add: NoteExceededToday_def)
    then show ?thesis using Cons.IH [of "b\<lparr>bg_notified_day := Some day\<rparr>"] Cons.prems False by simp
  qed
qed simp

text \<open>Once the budget is spent and recorded, every later question of the day is answered \<open>exceeded\<close>.\<close>

lemma exceeded_iff_spent:
  "bg_daily b > 0 \<Longrightarrow> Budget_Exceeded now b ([], d)
     = (Inr (bg_daily b \<le> us_input_tokens (TodayUsage now (bg_provider b) d) + us_output_tokens (TodayUsage now (bg_provider b) d)), ([], d))"
  by (auto simp: Budget_Exceeded_def Budget_Current_def faulty_def Let_def)

section \<open>Retries\<close>

definition aiMaxRetries :: nat where "aiMaxRetries = 3"
definition aiRetryAfterCap :: duration where "aiRetryAfterCap = 30 * Second"
definition aiBackoffBase :: duration where "aiBackoffBase = Second"

text \<open>A failed call: an explicit \<open>Retry-After\<close> when the error is a 429 that carried one.\<close>

record call_error =
  ke_retry_after :: "duration option"
  ke_canceled :: bool

text \<open>\<open>strconv.Atoi\<close> of a header of digits, with a sign; out of range is an error.\<close>

definition newRateLimitError :: "string \<Rightarrow> call_error" where
  "newRateLimitError header =
     (let digits = (case header of c # s \<Rightarrow> (if c \<in> {CHR ''+'', CHR ''-''} then s else header) | [] \<Rightarrow> []);
          secs = (if header \<noteq> [] \<and> hd header = CHR ''-'' then - int (digits_val digits) else int (digits_val digits))
      in \<lparr>ke_retry_after = (if digits \<noteq> [] \<and> list_all is_digit digits \<and> 0 \<le> secs \<and> secs < 2 ^ 63
                           then Some (((secs * Second + 2 ^ 63) mod 2 ^ 64) - 2 ^ 63) else None), ke_canceled = False\<rparr>)"

definition retryDelay :: "call_error \<Rightarrow> nat \<Rightarrow> duration" where
  "retryDelay e attempt =
     (case ke_retry_after e of
        Some after \<Rightarrow> min after aiRetryAfterCap
      | None \<Rightarrow>
          let d = ((aiBackoffBase * 2 ^ (min attempt 30) + 2 ^ 63) mod 2 ^ 64) - 2 ^ 63
          in if d \<le> 0 \<or> d > aiRetryAfterCap then aiRetryAfterCap else d)"

definition addUsage :: "usage \<Rightarrow> usage \<Rightarrow> usage" where
  "addUsage a b = \<lparr>us_input_tokens = us_input_tokens a + us_input_tokens b,
     us_output_tokens = us_output_tokens a + us_output_tokens b, us_cost_usd = us_cost_usd a + us_cost_usd b\<rparr>"

definition no_usage :: usage where
  "no_usage = \<lparr>us_input_tokens = 0, us_output_tokens = 0, us_cost_usd = 0\<rparr>"

type_synonym 'k ai_call = "'k \<Rightarrow> ((call_error + verdict list) \<times> usage) \<times> 'k"

text \<open>
  \<open>analyzeWithRetry\<close>: \<open>alive n\<close> says whether the context survives the pause after attempt \<open>n\<close>.  The
  result carries the pauses it made.
\<close>

function analyze_from ::
  "(nat \<Rightarrow> bool) \<Rightarrow> 'k ai_call \<Rightarrow> nat \<Rightarrow> usage \<Rightarrow> 'k \<Rightarrow> ((call_error + verdict list) \<times> usage \<times> duration list) \<times> 'k" where
  "analyze_from alive callOnce attempt tot k =
     (case callOnce k of
        ((Inr vs, u), k1) \<Rightarrow> ((Inr vs, addUsage tot u, []), k1)
      | ((Inl e, u), k1) \<Rightarrow>
          if attempt \<ge> aiMaxRetries then ((Inl e, addUsage tot u, []), k1)
          else if \<not> alive attempt then ((Inl \<lparr>ke_retry_after = None, ke_canceled = True\<rparr>, addUsage tot u, [retryDelay e attempt]), k1)
          else (case analyze_from alive callOnce (Suc attempt) (addUsage tot u) k1 of
                  ((r, tot2, delays), k2) \<Rightarrow> ((r, tot2, retryDelay e attempt # delays), k2)))"
  by pat_completeness auto
termination by (relation "measure (\<lambda>(alive, callOnce, attempt, tot, k). aiMaxRetries - attempt)") auto

declare analyze_from.simps [simp del]

definition analyzeWithRetry ::
  "(nat \<Rightarrow> bool) \<Rightarrow> 'k ai_call \<Rightarrow> 'k \<Rightarrow> ((call_error + verdict list) \<times> usage \<times> duration list) \<times> 'k" where
  "analyzeWithRetry alive callOnce k = analyze_from alive callOnce 0 no_usage k"

lemma retryDelay_bounds:
  "retryDelay e attempt \<le> aiRetryAfterCap" "ke_retry_after e = None \<Longrightarrow> 0 < retryDelay e attempt"
  by (auto simp: retryDelay_def aiRetryAfterCap_def Second_def Let_def split: option.split)

text \<open>
  A server can defeat the pause: a header beyond the range of a duration wraps to a negative one,
  and the next attempt follows at once.
\<close>

lemma retry_after_can_wrap: "retryDelay (newRateLimitError ''9223372037'') 0 < 0"
  by (simp add: newRateLimitError_def retryDelay_def is_digit_def digits_val_def digit_val_def Second_def
      aiRetryAfterCap_def min_def)

text \<open>At most four calls and three pauses, each at most the cap: detection is never stalled longer.\<close>

lemma analyze_from_bounds:
  "analyze_from alive callOnce attempt tot k = ((r, tot', delays), k') \<Longrightarrow>
     length delays \<le> aiMaxRetries - attempt \<and> (\<forall>d \<in> set delays. d \<le> aiRetryAfterCap)"
proof (induction alive callOnce attempt tot k arbitrary: r tot' delays k' rule: analyze_from.induct)
  case (1 alive callOnce attempt tot k)
  obtain o1 u k1 where c: "callOnce k = ((o1, u), k1)" by (metis surj_pair)
  show ?case
  proof (cases "(\<exists>vs. o1 = Inr vs) \<or> attempt \<ge> aiMaxRetries \<or> \<not> alive attempt")
    case True
    then show ?thesis using 1(2) c retryDelay_bounds(1)
      by (auto simp: analyze_from.simps [of alive callOnce attempt] split: sum.splits if_splits)
  next
    case False
    then obtain e where e: "o1 = Inl e" by (cases o1) auto
    obtain r2 t2 d2 k2 where rec: "analyze_from alive callOnce (Suc attempt) (addUsage tot u) k1 = ((r2, t2, d2), k2)"
      by (metis surj_pair)
    have out: "delays = retryDelay e attempt # d2"
      using 1(2) c e False rec by (simp add: analyze_from.simps [of alive callOnce attempt])
    have "length d2 \<le> aiMaxRetries - Suc attempt \<and> (\<forall>d \<in> set d2. d \<le> aiRetryAfterCap)"
      using 1(1) [OF c [symmetric] refl e _ _ rec] False by simp
    then show ?thesis using out False retryDelay_bounds(1) by auto
  qed
qed

section \<open>The chain of providers\<close>

record 'k chain_entry =
  ch_name :: string
  ch_analyze :: "aggregate list \<Rightarrow> token_budget \<Rightarrow> 'k ai_call"
  ch_budget :: "ai_budget option"

datatype 'k chain_result = ChainResult "call_error + verdict list" usage "'k chain_entry list" fstore 'k

text \<open>
  One pass over the entries.  \<open>rest\<close> collects the entries already visited, with their budgets as
  they are afterwards.
\<close>

fun chain_from ::
  "time \<Rightarrow> aggregate list \<Rightarrow> 'k chain_entry list \<Rightarrow> 'k chain_entry list \<Rightarrow> fstore \<Rightarrow> 'k \<Rightarrow> 'k chain_result" where
  "chain_from now batch visited [] s k = ChainResult (Inr []) no_usage (rev visited) s k"
| "chain_from now batch visited (c # cs) s k =
     (case (case ch_budget c of None \<Rightarrow> (Inr False, s) | Some b \<Rightarrow> Budget_Exceeded now b s) of
        (Inl e, s1) \<Rightarrow> chain_from now batch (c # visited) cs s1 k
      | (Inr True, s1) \<Rightarrow> chain_from now batch (c # visited) cs s1 k
      | (Inr False, s1) \<Rightarrow>
          (case (case ch_budget c of None \<Rightarrow> (Inr \<lparr>tb_remaining = 0, tb_daily_limit = 0\<rparr>, s1) | Some b \<Rightarrow> Budget_Current now b s1) of
             (hint, s2) \<Rightarrow>
               let budget = (case hint of Inl e \<Rightarrow> \<lparr>tb_remaining = 0, tb_daily_limit = 0\<rparr> | Inr t \<Rightarrow> t)
               in case ch_analyze c batch budget k of
                    ((Inl e, u), k1) \<Rightarrow>
                      if ke_canceled e then ChainResult (Inl e) no_usage (rev visited @ c # cs) s2 k1
                      else chain_from now batch (c # visited) cs s2 k1
                  | ((Inr vs, u), k1) \<Rightarrow>
                      (case ch_budget c of
                         None \<Rightarrow> ChainResult (Inr vs) u (rev visited @ c # cs) s2 k1
                       | Some b \<Rightarrow>
                           (case Budget_Consume now u (case batch of [] \<Rightarrow> NoAddr | a # as \<Rightarrow> ag_ip a) b s2 of
                              (r, b1, s3) \<Rightarrow> ChainResult (Inr vs) u (rev visited @ c\<lparr>ch_budget := Some b1\<rparr> # cs) s3 k1))))"

definition Chain_Analyze :: "time \<Rightarrow> aggregate list \<Rightarrow> 'k chain_entry list \<Rightarrow> fstore \<Rightarrow> 'k \<Rightarrow> 'k chain_result" where
  "Chain_Analyze now batch cs s k = chain_from now batch [] cs s k"

text \<open>The chain fails only by cancellation: any other failure degrades to no verdicts.\<close>

lemma chain_fails_only_canceled:
  "chain_from now batch visited cs s k = ChainResult r u cs' s' k' \<Longrightarrow> r = Inl e \<Longrightarrow> ke_canceled e"
proof (induction now batch visited cs s k arbitrary: r u cs' s' k' rule: chain_from.induct)
  case (2 now batch visited c cs s k)
  show ?case using "2.prems" "2.IH"
    by (auto simp: Let_def split: prod.splits sum.splits bool.splits option.splits if_splits)
qed simp

section \<open>The cleaner\<close>

definition staticAssetExts :: "string list" where
  "staticAssetExts = [''.css'', ''.js'', ''.mjs'', ''.map'', ''.png'', ''.jpg'', ''.jpeg'', ''.gif'', ''.webp'',
     ''.svg'', ''.ico'', ''.woff'', ''.woff2'', ''.ttf'', ''.eot'', ''.mp4'', ''.webm'', ''.avif'']"

definition stripQuery :: "string \<Rightarrow> string" where
  "stripQuery p = takeWhile (\<lambda>c. c \<noteq> CHR ''?'') p"

text \<open>\<open>path.Ext\<close>: from the last dot after the last slash.\<close>

definition path_ext :: "string \<Rightarrow> string" where
  "path_ext p = file_ext (rev (takeWhile (\<lambda>c. c \<noteq> CHR ''/'') (rev p)))"

definition field_of :: "event \<Rightarrow> string \<Rightarrow> string" where
  "field_of ev k = (case gm_get (ev_fields ev) k of None \<Rightarrow> [] | Some v \<Rightarrow> v)"

definition isStaticAssetEvent :: "event \<Rightarrow> bool" where
  "isStaticAssetEvent ev =
     (let p = field_of ev ''path''
      in if p = [] then False else map to_lower (path_ext (stripQuery p)) \<in> set staticAssetExts)"

definition statusClass :: "string \<Rightarrow> string" where
  "statusClass s =
     (if length s = 3 \<and> 49 \<le> (of_char (hd s) :: nat) \<and> (of_char (hd s) :: nat) \<le> 53 then [hd s] @ ''xx'' else ''other'')"

definition behaviorTopN :: nat where "behaviorTopN = 5"

definition topN :: "(string, int) gomap \<Rightarrow> nat \<Rightarrow> string list" where
  "topN counts n =
     map (\<lambda>(k, v). k @ '' (x'' @ int_str v @ '')'') (take n (sort_key (\<lambda>(k, v). - v) (sort_key fst counts)))"

definition count_field :: "(string \<Rightarrow> string) \<Rightarrow> string \<Rightarrow> event list \<Rightarrow> (string, int) gomap" where
  "count_field f k evs =
     foldl (\<lambda>m ev. if field_of ev k = [] then m else gm_add (f (field_of ev k)) 1 m) [] evs"

definition SummarizeBehavior :: "(string \<Rightarrow> string) \<Rightarrow> event list \<Rightarrow> behavior_summary option" where
  "SummarizeBehavior clean sample =
     (let paths = count_field (clean \<circ> stripQuery) ''path'' sample; methods = count_field clean ''method'' sample;
          statuses = count_field statusClass ''status'' sample; uas = count_field clean ''ua'' sample
      in if paths = [] \<and> methods = [] \<and> statuses = [] \<and> uas = [] then None
         else Some \<lparr>bs_top_paths = topN paths behaviorTopN, bs_methods = methods, bs_status_classes = statuses,
                bs_top_user_agents = topN uas behaviorTopN\<rparr>)"

definition clean_aggregate :: "(string \<Rightarrow> string) \<Rightarrow> aggregate \<Rightarrow> aggregate option" where
  "clean_aggregate clean agg =
     (let kept = filter (\<lambda>ev. \<not> isStaticAssetEvent ev) (ag_sample agg)
      in if ag_count agg = 0 \<and> kept = [] then None
         else Some (agg\<lparr>ag_sample := kept, ag_behavior := SummarizeBehavior clean kept\<rparr>))"

definition CleanAggregates :: "(string \<Rightarrow> string) \<Rightarrow> aggregate list \<Rightarrow> aggregate list \<times> nat \<times> nat \<times> nat" where
  "CleanAggregates clean batch =
     (List.map_filter (clean_aggregate clean) batch,
      sum_list (map (\<lambda>a. length (ag_sample a)) batch),
      sum_list (map (\<lambda>a. length (filter (\<lambda>ev. \<not> isStaticAssetEvent ev) (ag_sample a))) batch),
      length (filter (\<lambda>a. clean_aggregate clean a = None) batch))"

text \<open>What leaves the cleaner is about the same addresses and windows, without static assets.\<close>

lemma CleanAggregates_sound:
  "a \<in> set (fst (CleanAggregates clean batch)) \<Longrightarrow>
     (\<exists>b \<in> set batch. ag_ip a = ag_ip b \<and> ag_window a = ag_window b \<and> ag_kinds a = ag_kinds b \<and> ag_count a = ag_count b)
     \<and> (\<forall>ev \<in> set (ag_sample a). \<not> isStaticAssetEvent ev)"
  by (fastforce simp: CleanAggregates_def clean_aggregate_def map_filter_def Let_def split: if_splits)

lemma topN_bounded: "length (topN counts n) \<le> n"
  by (simp add: topN_def)

end
