(* ===== verification/AiQueue.thy ===== *)
theory AiQueue
  imports Sdk
begin

text \<open>
  The queue of the asynchronous analysis worker, \<open>internal/daemon/aiasync.go\<close>: bounded, dropping
  the oldest entry on overflow, one entry per address, with a cooldown per address.  The instant
  of a call is an argument; the wake-up channel is not modelled (the worker re-reads the queue).
\<close>

definition aiAsyncPerIPCooldown :: duration where "aiAsyncPerIPCooldown = Minute"
definition aiAsyncErrorBackoff :: duration where "aiAsyncErrorBackoff = 10 * Second"
definition defaultAIQueueCap :: int where "defaultAIQueueCap = 256"

record ai_item =
  ai_ip :: addr
  ai_rule_score :: int
  ai_queued_at :: time

record ai_queue =
  aq_items :: "ai_item list"
  aq_pending :: "addr list"
  aq_last_done :: "(addr, time) gomap"
  aq_cap :: int
  aq_dropped :: nat

definition newAIAsyncQueue :: "int \<Rightarrow> ai_queue" where
  "newAIAsyncQueue capacity =
     \<lparr>aq_items = [], aq_pending = [], aq_last_done = [],
      aq_cap = (if capacity \<le> 0 then defaultAIQueueCap else capacity), aq_dropped = 0\<rparr>"

definition pruneCooldowns :: "time \<Rightarrow> ai_queue \<Rightarrow> ai_queue" where
  "pruneCooldowns now q =
     (if length (aq_last_done q) < 1024 then q
      else q\<lparr>aq_last_done := filter (\<lambda>(ip, t). \<not> now - t \<ge> aiAsyncPerIPCooldown) (aq_last_done q)\<rparr>)"

definition drop_oldest :: "ai_queue \<Rightarrow> ai_queue" where
  "drop_oldest q =
     (if int (length (aq_items q)) \<ge> aq_cap q then
        (case aq_items q of
           [] \<Rightarrow> q
         | oldest # items \<Rightarrow>
             q\<lparr>aq_items := items, aq_pending := filter (\<lambda>ip. ip \<noteq> ai_ip oldest) (aq_pending q),
               aq_dropped := Suc (aq_dropped q)\<rparr>)
      else q)"

definition aq_push :: "time \<Rightarrow> ai_item \<Rightarrow> ai_queue \<Rightarrow> ai_queue" where
  "aq_push now item q =
     (if ai_ip item \<in> set (aq_pending q) then q
      else if (case gm_get (aq_last_done q) (ai_ip item) of None \<Rightarrow> False | Some t \<Rightarrow> now - t < aiAsyncPerIPCooldown) then q
      else
        let q1 = drop_oldest (pruneCooldowns now q)
        in q1\<lparr>aq_items := aq_items q1 @ [item], aq_pending := ai_ip item # aq_pending q1\<rparr>)"

definition aq_pop :: "ai_queue \<Rightarrow> ai_item option \<times> ai_queue" where
  "aq_pop q = (case aq_items q of [] \<Rightarrow> (None, q) | item # items \<Rightarrow> (Some item, q\<lparr>aq_items := items\<rparr>))"

definition aq_done :: "time \<Rightarrow> addr \<Rightarrow> bool \<Rightarrow> ai_queue \<Rightarrow> ai_queue" where
  "aq_done now ip answered q =
     q\<lparr>aq_pending := filter (\<lambda>x. x \<noteq> ip) (aq_pending q),
       aq_last_done := gm_set ip (if answered then now else now + (aiAsyncErrorBackoff - aiAsyncPerIPCooldown)) (aq_last_done q)\<rparr>"

section \<open>Invariant\<close>

text \<open>
  The pending addresses are the queued ones and the one in flight, each once; the queue keeps to
  its bound.
\<close>

definition aq_ok :: "addr option \<Rightarrow> ai_queue \<Rightarrow> bool" where
  "aq_ok flight q \<longleftrightarrow> 0 < aq_cap q \<and> int (length (aq_items q)) \<le> aq_cap q
     \<and> distinct (map ai_ip (aq_items q)) \<and> set (aq_pending q) = ai_ip ` set (aq_items q) \<union> set_option flight
     \<and> (\<forall>ip. flight = Some ip \<longrightarrow> ip \<notin> ai_ip ` set (aq_items q)) \<and> gm_ok (aq_last_done q)"

lemma aq_ok_new [simp]: "aq_ok None (newAIAsyncQueue n)"
  by (simp add: aq_ok_def newAIAsyncQueue_def defaultAIQueueCap_def)

lemma prune_fields [simp]:
  "aq_items (pruneCooldowns now q) = aq_items q" "aq_pending (pruneCooldowns now q) = aq_pending q"
  "aq_cap (pruneCooldowns now q) = aq_cap q"
  by (simp_all add: pruneCooldowns_def)

lemma insert_Diff_fresh: "a \<notin> S \<Longrightarrow> {x \<in> insert a S. x \<noteq> a} = S"
  by blast

lemma drop_oldest_ok:
  assumes "aq_ok flight q"
  shows "aq_ok flight (drop_oldest q) \<and> int (length (aq_items (drop_oldest q))) < aq_cap (drop_oldest q)
    \<and> set (aq_items (drop_oldest q)) \<subseteq> set (aq_items q) \<and> set (aq_pending (drop_oldest q)) \<subseteq> set (aq_pending q)"
proof (cases "int (length (aq_items q)) \<ge> aq_cap q")
  case False
  then show ?thesis using assms by (simp add: drop_oldest_def)
next
  case True
  then obtain x xs where x: "aq_items q = x # xs" using assms by (cases "aq_items q") (auto simp: aq_ok_def)
  have pend: "set (aq_pending q) = insert (ai_ip x) (ai_ip ` set xs \<union> set_option flight)"
    and fresh: "ai_ip x \<notin> ai_ip ` set xs \<union> set_option flight"
    using assms x by (auto simp: aq_ok_def)
  have "set (filter (\<lambda>ip. ip \<noteq> ai_ip x) (aq_pending q)) = ai_ip ` set xs \<union> set_option flight"
    unfolding set_filter pend by (rule insert_Diff_fresh [OF fresh])
  then show ?thesis using assms True x by (simp add: drop_oldest_def aq_ok_def) blast
qed

lemma aq_ok_prune: "aq_ok flight q \<Longrightarrow> aq_ok flight (pruneCooldowns now q)"
  by (simp add: aq_ok_def) (simp add: pruneCooldowns_def)

lemma aq_ok_push [ezy_inv]: "aq_ok flight q \<Longrightarrow> aq_ok flight (aq_push now item q)"
proof -
  assume ok: "aq_ok flight q"
  let ?q = "drop_oldest (pruneCooldowns now q)"
  note d = drop_oldest_ok [OF aq_ok_prune [OF ok, of now]]
  show ?thesis
  proof (cases "aq_push now item q = q")
    case False
    then have new: "ai_ip item \<notin> set (aq_pending q)" by (auto simp: aq_push_def)
    then have "ai_ip item \<notin> set (aq_pending ?q)" using d by auto
    then show ?thesis using d False new by (auto simp: aq_push_def aq_ok_def Let_def split: if_splits option.splits)
  qed (simp add: ok)
qed

lemma aq_ok_pop: "aq_ok None q \<Longrightarrow> aq_pop q = (r, q') \<Longrightarrow> aq_ok (map_option ai_ip r) q'"
  by (auto simp: aq_pop_def aq_ok_def split: list.splits)

lemma aq_ok_done: "aq_ok (Some ip) q \<Longrightarrow> aq_ok None (aq_done now ip answered q)"
  by (auto simp: aq_done_def aq_ok_def)

section \<open>Runs of one worker\<close>

text \<open>
  The pipeline pushes at any time; the one worker pops an episode and ends it before the next pop.
\<close>

inductive aq_run :: "int \<Rightarrow> time \<Rightarrow> addr option \<Rightarrow> ai_queue \<Rightarrow> bool" for capacity where
  aq_start: "aq_run capacity now None (newAIAsyncQueue capacity)"
| aq_pushed: "aq_run capacity now flight q \<Longrightarrow> now \<le> t \<Longrightarrow> aq_run capacity t flight (aq_push t item q)"
| aq_popped: "aq_run capacity now None q \<Longrightarrow> aq_pop q = (Some item, q') \<Longrightarrow> aq_run capacity now (Some (ai_ip item)) q'"
| aq_ended: "aq_run capacity now (Some ip) q \<Longrightarrow> now \<le> t \<Longrightarrow> aq_run capacity t None (aq_done t ip answered q)"

lemma aq_run_ok: "aq_run capacity now flight q \<Longrightarrow> aq_ok flight q"
  by (induction rule: aq_run.induct) (auto intro: aq_ok_push aq_ok_done dest: aq_ok_pop)

text \<open>While the mark of an address is fresh nothing queues it.\<close>

definition cooling :: "addr \<Rightarrow> time \<Rightarrow> ai_queue \<Rightarrow> bool" where
  "cooling ip m q \<longleftrightarrow> ip \<notin> set (aq_pending q) \<and> gm_ok (aq_last_done q) \<and> gm_get (aq_last_done q) ip = Some m"

lemma cooling_prune: "cooling ip m q \<Longrightarrow> t - m < aiAsyncPerIPCooldown \<Longrightarrow> cooling ip m (pruneCooldowns t q)"
  by (auto simp: cooling_def pruneCooldowns_def gm_get_filter)

lemma cooling_drop: "cooling ip m q \<Longrightarrow> cooling ip m (drop_oldest q)"
  by (auto simp: cooling_def drop_oldest_def split: list.split)

datatype aq_op = AqPush time ai_item | AqPop | AqDone time addr bool

fun aq_apply :: "ai_queue \<Rightarrow> aq_op \<Rightarrow> ai_queue" where
  "aq_apply q (AqPush t item) = aq_push t item q"
| "aq_apply q AqPop = snd (aq_pop q)"
| "aq_apply q (AqDone t ip answered) = aq_done t ip answered q"

text \<open>Operations before instant \<open>t\<close> that do not end an episode of \<open>ip\<close>.\<close>

fun aq_before :: "addr \<Rightarrow> time \<Rightarrow> aq_op \<Rightarrow> bool" where
  "aq_before ip t (AqPush t' item) = (t' < t)"
| "aq_before ip t AqPop = True"
| "aq_before ip t (AqDone t' ip' answered) = (ip' \<noteq> ip)"

lemma cooling_apply:
  assumes "cooling ip m q" and "aq_before ip (m + aiAsyncPerIPCooldown) p"
  shows "cooling ip m (aq_apply q p)"
proof (cases p)
  case (AqPush t item)
  then have t: "t - m < aiAsyncPerIPCooldown" using assms(2) by simp
  show ?thesis using assms(1) t cooling_drop [OF cooling_prune [OF assms(1) t]] unfolding AqPush
    by (auto simp: aq_push_def Let_def cooling_def split: option.splits if_splits)
next
  case AqPop
  then show ?thesis using assms by (auto simp: aq_pop_def cooling_def split: list.split)
next
  case (AqDone t ip' answered)
  then show ?thesis using assms by (auto simp: aq_done_def cooling_def)
qed

text \<open>
  C39 (safety).  The worker spends no tokens twice on one episode: in every reachable state the
  queue holds each address once and keeps to its capacity, an address in flight is not queued
  again, and after an episode ended no push before the cooldown of a minute, ten seconds after an
  unanswered call, queues the address, whatever happens to the others.
\<close>

theorem ai_episodes_spaced:
  assumes "aq_run capacity t (Some ip) q"
    and "\<forall>p \<in> set ps. aq_before ip (t + (if answered then aiAsyncPerIPCooldown else aiAsyncErrorBackoff)) p"
  shows "distinct (map ai_ip (aq_items q)) \<and> int (length (aq_items q)) \<le> aq_cap q \<and> ip \<notin> ai_ip ` set (aq_items q)
    \<and> ip \<notin> set (aq_pending (foldl aq_apply (aq_done t ip answered q) ps))"
proof -
  have ok: "aq_ok (Some ip) q" by (rule aq_run_ok [OF assms(1)])
  let ?m = "if answered then t else t + (aiAsyncErrorBackoff - aiAsyncPerIPCooldown)"
  have "cooling ip ?m (aq_done t ip answered q)" using ok by (simp add: cooling_def aq_done_def aq_ok_def)
  then have "cooling ip ?m (foldl aq_apply (aq_done t ip answered q) ps)"
  proof (rule foldl_invariant)
    fix q' p
    assume "p \<in> set ps" "cooling ip ?m q'"
    then show "cooling ip ?m (aq_apply q' p)"
      using assms(2) cooling_apply [of ip ?m q' p] by (cases answered) auto
  qed
  then show ?thesis using ok by (simp add: cooling_def aq_ok_def)
qed

definition demo_item :: ai_item where
  "demo_item = \<lparr>ai_ip = V4 1, ai_rule_score = 50, ai_queued_at = 0\<rparr>"

lemma demo_flight: "aq_run 2 0 (Some (V4 1)) (snd (aq_pop (aq_push 0 demo_item (newAIAsyncQueue 2))))"
  using aq_popped [OF aq_pushed [OF aq_start, of 0 0 2 demo_item], of demo_item]
  by (simp add: demo_item_def aq_push_def newAIAsyncQueue_def pruneCooldowns_def drop_oldest_def aq_pop_def)

theorem ai_episodes_spaced_witness:
  "V4 1 \<notin> set (aq_pending (aq_push (5 * Second) demo_item
     (aq_done 0 (V4 1) False (snd (aq_pop (aq_push 0 demo_item (newAIAsyncQueue 2)))))))"
  using ai_episodes_spaced [OF demo_flight, of "[AqPush (5 * Second) demo_item]" False]
  by (simp add: aiAsyncErrorBackoff_def Second_def)

end
