(* ===== verification/NotifyFold.thy ===== *)
theory NotifyFold
  imports Sdk NetipText
begin

text \<open>
  Folding of repeated notifications: \<open>internal/daemon/notifysuppress.go\<close> (the windows of the
  \<open>notify_only\<close> streams, one per address and rule) and the systemic window of
  \<open>internal/daemon/ineffective.go\<close>.  The instant of a call is an argument; ranging over the map
  of windows in \<open>flush\<close> visits the keys in the order of the argument \<open>order\<close>.
\<close>

section \<open>The windows of the streams\<close>

definition defaultNotifyOnlyWindow :: duration where "defaultNotifyOnlyWindow = Hour"

record suppress_window =
  sw_start :: time
  sw_suppressed :: int
  sw_last_action :: action

record suppressor =
  su_window :: duration
  su_seen :: "(string, suppress_window) gomap"

definition newNotifySuppressor :: "duration \<Rightarrow> suppressor" where
  "newNotifySuppressor w = \<lparr>su_window = (if w \<le> 0 then defaultNotifyOnlyWindow else w), su_seen = []\<rparr>"

text \<open>The first non-empty category, else the whole reason.\<close>

definition suppressKey :: "action \<Rightarrow> string" where
  "suppressKey a =
     (let rule = (case filter (\<lambda>v. vd_category v \<noteq> []) (ac_verdicts a) of [] \<Rightarrow> [] | v # _ \<Rightarrow> vd_category v)
      in addr_str (ac_ip a) @ ''|'' @ (if rule = [] then ac_reason a else rule))"

definition em_dash :: string where "em_dash = [CHR 0xE2, CHR 0x80, CHR 0x94]"

definition summaryLocked :: "duration \<Rightarrow> string \<Rightarrow> suppress_window \<Rightarrow> notification" where
  "summaryLocked window key w =
     (let a = sw_last_action w in
      \<lparr>nt_severity = ''info'',
       nt_title = ''[notify_only] '' @ addr_str (ac_ip a) @ '' '' @ em_dash @ '' '' @ int_str (sw_suppressed w) @ '' repeats suppressed'',
       nt_body = int_str (sw_suppressed w) @ '' further notify_only events for '' @ key @ '' were suppressed over ''
         @ dur_str window @ '' (last: '' @ ac_reason a @ ''). Audit log rows are complete '' @ em_dash
         @ '' only notifications were folded.'',
       nt_action = Some a\<rparr>)"

definition fresh_window :: "time \<Rightarrow> suppress_window" where
  "fresh_window now = \<lparr>sw_start = now, sw_suppressed = 0, sw_last_action = zero_action\<rparr>"

text \<open>
  \<open>admit_action\<close>: whether to notify now, and the window to summarise first, when one just closed with
  suppressed repeats.
\<close>

definition admit_window :: "time \<Rightarrow> action \<Rightarrow> suppressor \<Rightarrow> (bool \<times> suppress_window option) \<times> suppressor" where
  "admit_window now a s =
     (let key = suppressKey a in
      case gm_get (su_seen s) key of
        None \<Rightarrow> ((True, None), s\<lparr>su_seen := gm_set key (fresh_window now) (su_seen s)\<rparr>)
      | Some w \<Rightarrow>
          if now - sw_start w < su_window s
          then ((False, None),
                s\<lparr>su_seen := gm_set key (w\<lparr>sw_suppressed := sw_suppressed w + 1, sw_last_action := a\<rparr>) (su_seen s)\<rparr>)
          else ((True, if sw_suppressed w > 0 then Some w else None),
                s\<lparr>su_seen := gm_set key (fresh_window now) (su_seen s)\<rparr>))"

definition admit_action :: "time \<Rightarrow> action \<Rightarrow> suppressor \<Rightarrow> (bool \<times> notification option) \<times> suppressor" where
  "admit_action now a s =
     (case admit_window now a s of
        ((send, w), s') \<Rightarrow> ((send, map_option (summaryLocked (su_window s) (suppressKey a)) w), s'))"

definition window_closed :: "time \<Rightarrow> suppressor \<Rightarrow> suppress_window \<Rightarrow> bool" where
  "window_closed now s w \<longleftrightarrow> \<not> now - sw_start w < su_window s"

fun flush_windows :: "time \<Rightarrow> string list \<Rightarrow> suppressor \<Rightarrow> (string \<times> suppress_window) list \<times> suppressor" where
  "flush_windows now [] s = ([], s)"
| "flush_windows now (key # order) s =
     (case gm_get (su_seen s) key of
        None \<Rightarrow> flush_windows now order s
      | Some w \<Rightarrow>
          if \<not> window_closed now s w then flush_windows now order s
          else
            (let (out, s') = flush_windows now order (s\<lparr>su_seen := gm_del key (su_seen s)\<rparr>)
             in (if sw_suppressed w > 0 then (key, w) # out else out, s')))"

definition flush_summaries :: "time \<Rightarrow> string list \<Rightarrow> suppressor \<Rightarrow> notification list \<times> suppressor" where
  "flush_summaries now order s =
     (case flush_windows now order s of (out, s') \<Rightarrow> (map (\<lambda>(key, w). summaryLocked (su_window s) key w) out, s'))"

section \<open>Every repeat is accounted for\<close>

datatype fold_op = FAdmit time action | FFlush time "string list"

fun fold_time :: "fold_op \<Rightarrow> time" where
  "fold_time (FAdmit now a) = now"
| "fold_time (FFlush now order) = now"

text \<open>What a run puts out for one stream: the instants it notified, and the repeats it summarised.\<close>

fun fold_step :: "string \<Rightarrow> suppressor \<Rightarrow> fold_op \<Rightarrow> (time list \<times> int) \<times> suppressor" where
  "fold_step key s (FAdmit now a) =
     (case admit_window now a s of
        ((send, w), s') \<Rightarrow>
          (if suppressKey a = key
           then (if send then [now] else [], case w of None \<Rightarrow> 0 | Some x \<Rightarrow> sw_suppressed x) else ([], 0), s'))"
| "fold_step key s (FFlush now order) =
     (case flush_windows now order s of
        (out, s') \<Rightarrow> (([], sum_list (map (sw_suppressed \<circ> snd) (filter (\<lambda>(k, w). k = key) out))), s'))"

fun fold_run :: "string \<Rightarrow> fold_op list \<Rightarrow> suppressor \<Rightarrow> (time list \<times> int) \<times> suppressor" where
  "fold_run key [] s = (([], 0), s)"
| "fold_run key (p # ps) s =
     (case fold_step key s p of ((sent, folded), s1) \<Rightarrow>
        (case fold_run key ps s1 of ((sent2, folded2), s2) \<Rightarrow> ((sent @ sent2, folded + folded2), s2)))"

definition fold_admits :: "string \<Rightarrow> fold_op list \<Rightarrow> nat" where
  "fold_admits key ps = length (filter (\<lambda>p. case p of FAdmit now a \<Rightarrow> suppressKey a = key | FFlush now order \<Rightarrow> False) ps)"

definition pending_repeats :: "string \<Rightarrow> suppressor \<Rightarrow> int" where
  "pending_repeats key s = (case gm_get (su_seen s) key of None \<Rightarrow> 0 | Some w \<Rightarrow> sw_suppressed w)"

definition windows_ok :: "suppressor \<Rightarrow> bool" where
  "windows_ok s \<longleftrightarrow> 0 < su_window s \<and> (\<forall>key w. gm_get (su_seen s) key = Some w \<longrightarrow> 0 \<le> sw_suppressed w)"

lemma windows_ok_new [simp]: "windows_ok (newNotifySuppressor w)"
  by (simp add: windows_ok_def newNotifySuppressor_def defaultNotifyOnlyWindow_def duration_units)

lemma windows_ok_del: "windows_ok s \<Longrightarrow> windows_ok (s\<lparr>su_seen := gm_del key (su_seen s)\<rparr>)"
  by (simp add: windows_ok_def)

lemma windows_ok_set:
  "windows_ok s \<Longrightarrow> 0 \<le> sw_suppressed w \<Longrightarrow> windows_ok (s\<lparr>su_seen := gm_set key w (su_seen s)\<rparr>)"
  by (simp add: windows_ok_def)

lemma fresh_window_simps [simp]: "sw_suppressed (fresh_window now) = 0" "sw_start (fresh_window now) = now"
  by (simp_all add: fresh_window_def)

lemma admit_window_ok:
  assumes "windows_ok s" and "admit_window now a s = (r, s')"
  shows "windows_ok s'" and "su_window s' = su_window s"
    and "key \<noteq> suppressKey a \<Longrightarrow> gm_get (su_seen s') key = gm_get (su_seen s) key"
proof -
  have nn: "0 \<le> sw_suppressed w" if "gm_get (su_seen s) (suppressKey a) = Some w" for w
    using assms(1) that by (simp add: windows_ok_def)
  show "windows_ok s'" "su_window s' = su_window s"
    "key \<noteq> suppressKey a \<Longrightarrow> gm_get (su_seen s') key = gm_get (su_seen s) key"
    using assms nn by (auto simp: admit_window_def Let_def windows_ok_set split: option.splits if_splits)
qed

text \<open>What flushing may do to the window of one stream.\<close>

definition settles :: "time \<Rightarrow> string \<Rightarrow> suppressor \<Rightarrow> int \<Rightarrow> suppressor \<Rightarrow> bool" where
  "settles now key s folded s' \<longleftrightarrow> windows_ok s' \<and> su_window s' = su_window s
     \<and> folded = pending_repeats key s - pending_repeats key s'
     \<and> (gm_get (su_seen s') key = gm_get (su_seen s) key
        \<or> gm_get (su_seen s') key = None \<and> (\<forall>w. gm_get (su_seen s) key = Some w \<longrightarrow> window_closed now s w))"

lemma settles_refl: "windows_ok s \<Longrightarrow> settles now key s 0 s"
  by (simp add: settles_def)

lemma settles_del:
  assumes "settles now key (s\<lparr>su_seen := gm_del k (su_seen s)\<rparr>) folded s'" and "gm_get (su_seen s) k = Some w"
    and "window_closed now s w"
  shows "settles now key s ((if k = key then sw_suppressed w else 0) + folded) s'"
  using assms by (auto simp: settles_def pending_repeats_def window_closed_def)

definition folded_of :: "string \<Rightarrow> (string \<times> suppress_window) list \<Rightarrow> int" where
  "folded_of key out = sum_list (map (sw_suppressed \<circ> snd) (filter (\<lambda>(k, w). k = key) out))"

lemma folded_of_simps [simp]:
  "folded_of key [] = 0" "folded_of key ((k, w) # out) = (if k = key then sw_suppressed w else 0) + folded_of key out"
  by (simp_all add: folded_of_def)

lemma flush_settles:
  "windows_ok s \<Longrightarrow> settles now key s (folded_of key (fst (flush_windows now order s))) (snd (flush_windows now order s))"
proof (induction order arbitrary: s)
  case Nil
  then show ?case using settles_refl by simp
next
  case (Cons k order)
  show ?case
  proof (cases "\<exists>w. gm_get (su_seen s) k = Some w \<and> window_closed now s w")
    case False
    then have "flush_windows now (k # order) s = flush_windows now order s" by (auto split: option.split)
    then show ?thesis using Cons by simp
  next
    case True
    then obtain w where w: "gm_get (su_seen s) k = Some w" "window_closed now s w" by blast
    let ?s = "s\<lparr>su_seen := gm_del k (su_seen s)\<rparr>"
    have nn: "0 \<le> sw_suppressed w" using Cons.prems w(1) by (simp add: windows_ok_def)
    have "settles now key s ((if k = key then sw_suppressed w else 0) + folded_of key (fst (flush_windows now order ?s)))
        (snd (flush_windows now order ?s))"
      by (rule settles_del [OF Cons.IH [OF windows_ok_del [OF Cons.prems]] w])
    moreover have "sw_suppressed w = 0 \<Longrightarrow> (if k = key then sw_suppressed w else 0) = 0" by simp
    ultimately show ?thesis using w nn by (cases "sw_suppressed w = 0") (simp_all add: split_beta)
  qed
qed

text \<open>The state of one stream after the notifications \<open>sent\<close>: none is closer than a window to \<open>now\<close>.\<close>

definition spaced :: "string \<Rightarrow> time \<Rightarrow> time list \<Rightarrow> suppressor \<Rightarrow> bool" where
  "spaced key now sent s \<longleftrightarrow> windows_ok s \<and> sorted_wrt (\<lambda>t u. t + su_window s \<le> u) sent
     \<and> (sent \<noteq> [] \<longrightarrow> (case gm_get (su_seen s) key of
          Some w \<Rightarrow> sw_start w = last sent | None \<Rightarrow> last sent + su_window s \<le> now))"

lemma sorted_wrt_snoc_last:
  assumes "0 < d" and "sorted_wrt (\<lambda>t u. t + d \<le> u) ts" and "ts \<noteq> [] \<longrightarrow> last ts + d \<le> (u :: int)"
  shows "sorted_wrt (\<lambda>t u. t + d \<le> u) (ts @ [u])"
proof -
  have "t + d \<le> u" if t: "t \<in> set ts" for t
  proof -
    have ne: "ts \<noteq> []" using t by auto
    have "t \<in> set (butlast ts) \<or> t = last ts" using t ne by (metis append_butlast_last_id in_set_butlastD rotate1.simps(2) set_ConsD set_rotate1)
    moreover have "x + d \<le> last ts" if "x \<in> set (butlast ts)" for x
      using assms(2) ne that by (metis append_butlast_last_id list.set_intros(1) sorted_wrt_append)
    ultimately show ?thesis using assms(1,3) ne by fastforce
  qed
  then show ?thesis using assms(2) by (simp add: sorted_wrt_append)
qed

lemma spaced_step:
  assumes "spaced key now sent s" and "now \<le> fold_time p" and "fold_step key s p = ((new, folded), s')"
  shows "spaced key (fold_time p) (sent @ new) s'"
    and "int (fold_admits key [p]) = int (length new) + folded + (pending_repeats key s' - pending_repeats key s)"
proof -
  have ok: "windows_ok s" using assms(1) by (simp add: spaced_def)
  have both: "spaced key (fold_time p) (sent @ new) s'
      \<and> int (fold_admits key [p]) = int (length new) + folded + (pending_repeats key s' - pending_repeats key s)"
  proof (cases p)
    case (FFlush t order)
    obtain out s1 where fl: "flush_windows t order s = (out, s1)" by (metis surj_pair)
    have "settles t key s (folded_of key out) s1" using flush_settles [OF ok, of t key order] fl by simp
    moreover have "new = []" "folded = folded_of key out" "s' = s1"
      using assms(3) FFlush fl by (auto simp: folded_of_def)
    ultimately show ?thesis using assms(1,2) FFlush
      by (auto simp: settles_def spaced_def fold_admits_def window_closed_def split: option.splits)
  next
    case (FAdmit t a)
    obtain send w s1 where ad: "admit_window t a s = ((send, w), s1)" by (metis surj_pair)
    note step = admit_window_ok [OF ok ad]
    have s': "s' = s1" using assms(3) FAdmit ad by simp
    show ?thesis
    proof (cases "suppressKey a = key")
      case False
      then have "new = []" "folded = 0" "gm_get (su_seen s') key = gm_get (su_seen s) key"
        using assms(3) FAdmit ad step(3) [of key] s' by auto
      then show ?thesis using assms(1,2) FAdmit False step s'
        by (auto simp: spaced_def fold_admits_def pending_repeats_def split: option.splits)
    next
      case True
      have d: "0 < su_window s" using ok by (simp add: windows_ok_def)
      note snoc = sorted_wrt_snoc_last [OF d]
      have seq: "sorted_wrt (\<lambda>t u. t + su_window s \<le> u) sent" using assms(1) by (simp add: spaced_def)
      show ?thesis
      proof (cases "gm_get (su_seen s) key")
        case None
        then have "sent \<noteq> [] \<longrightarrow> last sent + su_window s \<le> t" using assms(1,2) FAdmit by (auto simp: spaced_def)
        from snoc [OF seq this] show ?thesis using None True assms(3) FAdmit step(1,2) s'
          by (auto simp: spaced_def fold_admits_def pending_repeats_def admit_window_def)
      next
        case (Some x)
        show ?thesis
        proof (cases "t - sw_start x < su_window s")
          case inside: True
          then show ?thesis using Some True assms(1,3) FAdmit step ad s'
            by (auto simp: spaced_def fold_admits_def pending_repeats_def admit_window_def)
        next
          case False
          then have "sent \<noteq> [] \<longrightarrow> last sent + su_window s \<le> t" using assms(1) Some by (auto simp: spaced_def)
          moreover have "0 \<le> sw_suppressed x" using ok Some by (simp add: windows_ok_def)
          ultimately show ?thesis using snoc [OF seq] Some False True assms(3) FAdmit step(1,2) s'
            by (auto simp: spaced_def fold_admits_def pending_repeats_def admit_window_def windows_ok_def split: if_splits)
        qed
      qed
    qed
  qed
  then show "spaced key (fold_time p) (sent @ new) s'"
    "int (fold_admits key [p]) = int (length new) + folded + (pending_repeats key s' - pending_repeats key s)" by blast+
qed

lemma fold_admits_Cons: "fold_admits key (p # ps) = fold_admits key [p] + fold_admits key ps"
  by (auto simp: fold_admits_def)

lemma spaced_run:
  assumes "spaced key now sent s" and "sorted (now # map fold_time ps)" and "fold_run key ps s = ((new, folded), s')"
  shows "sorted_wrt (\<lambda>t u. t + su_window s' \<le> u) (sent @ new)
    \<and> int (fold_admits key ps) = int (length new) + folded + (pending_repeats key s' - pending_repeats key s)"
  using assms
proof (induction ps arbitrary: now sent s new folded)
  case Nil
  then show ?case by (auto simp: spaced_def fold_admits_def)
next
  case (Cons p ps)
  obtain n1 f1 s1 where 1: "fold_step key s p = ((n1, f1), s1)" by (metis surj_pair)
  obtain n2 f2 s2 where 2: "fold_run key ps s1 = ((n2, f2), s2)" by (metis surj_pair)
  have out: "new = n1 @ n2" "folded = f1 + f2" "s' = s2" using Cons.prems(3) 1 2 by auto
  have le: "now \<le> fold_time p" "sorted (fold_time p # map fold_time ps)" using Cons.prems(2) by auto
  note st = spaced_step [OF Cons.prems(1) le(1) 1]
  from Cons.IH [OF st(1) le(2) 2 [folded out(3)]] st(2) show ?case
    unfolding out fold_admits_Cons [of key p ps] by simp
qed

text \<open>
  C37 (invariant).  Folding loses nothing and floods nobody: along any run of calls at increasing
  instants, every \<open>notify_only\<close> action of a stream was notified, counted in a summary that was
  sent, or is still pending in its window, and two notifications of one stream are at least a
  window apart.
\<close>

theorem notify_folding_conserves:
  assumes "sorted (map fold_time ps)" and "fold_run key ps (newNotifySuppressor w) = ((sent, folded), s')"
  shows "int (fold_admits key ps) = int (length sent) + folded + pending_repeats key s'
    \<and> sorted_wrt (\<lambda>t u. t + su_window s' \<le> u) sent"
proof -
  let ?t = "if ps = [] then 0 else fold_time (hd ps)"
  have "spaced key ?t [] (newNotifySuppressor w)" by (simp add: spaced_def)
  moreover have "sorted (?t # map fold_time ps)" using assms(1) by (cases ps) auto
  moreover have "pending_repeats key (newNotifySuppressor w) = 0" by (simp add: pending_repeats_def newNotifySuppressor_def)
  ultimately show ?thesis using spaced_run [OF _ _ assms(2)] by fastforce
qed

definition demo_notify :: action where
  "demo_notify = zero_action\<lparr>ac_ip := V4 1, ac_op := ''notify_only'', ac_reason := ''scan''\<rparr>"

theorem notify_folding_conserves_witness:
  "fst (fst (fold_run (suppressKey demo_notify) [FAdmit 0 demo_notify, FAdmit 5 demo_notify, FAdmit 20 demo_notify]
     (newNotifySuppressor 10))) = [0, 20]
   \<and> int (fold_admits (suppressKey demo_notify) [FAdmit 0 demo_notify, FAdmit 5 demo_notify, FAdmit 20 demo_notify]) = 3"
proof -
  let ?ps = "[FAdmit 0 demo_notify, FAdmit 5 demo_notify, FAdmit 20 demo_notify]"
  have run: "fold_run (suppressKey demo_notify) ?ps (newNotifySuppressor 10)
      = (([0, 20], 1), \<lparr>su_window = 10, su_seen = [(suppressKey demo_notify, fresh_window 20)]\<rparr>)"
    by (simp add: newNotifySuppressor_def admit_window_def)
  then show ?thesis using notify_folding_conserves [OF _ run] by (simp add: pending_repeats_def)
qed

section \<open>The systemic window of ineffective bans\<close>

definition defaultIneffNotifyWindow :: duration where "defaultIneffNotifyWindow = 15 * Minute"

record ineff_dedup =
  id_window :: duration
  id_window_start :: "time option"
  id_suppressed :: int

text \<open>The zero instant of \<open>windowStart\<close> is \<open>None\<close>.\<close>

definition shouldNotify :: "time \<Rightarrow> ineff_dedup \<Rightarrow> (bool \<times> int) \<times> ineff_dedup" where
  "shouldNotify now dd =
     (let w = (if id_window dd \<le> 0 then defaultIneffNotifyWindow else id_window dd)
      in if (case id_window_start dd of None \<Rightarrow> True | Some t \<Rightarrow> now - t \<ge> w)
         then ((True, id_suppressed dd), dd\<lparr>id_window_start := Some now, id_suppressed := 0\<rparr>)
         else ((False, id_suppressed dd + 1), dd\<lparr>id_suppressed := id_suppressed dd + 1\<rparr>))"

fun ineff_run :: "time list \<Rightarrow> ineff_dedup \<Rightarrow> (bool \<times> int) list \<times> ineff_dedup" where
  "ineff_run [] dd = ([], dd)"
| "ineff_run (t # ts) dd =
     (case shouldNotify t dd of (r, dd1) \<Rightarrow> (case ineff_run ts dd1 of (rs, dd2) \<Rightarrow> (r # rs, dd2)))"

text \<open>Every firing is an alert or is carried by the next one.\<close>

lemma ineff_run_conserves:
  "ineff_run ts dd = (rs, dd') \<Longrightarrow>
     int (length ts) + id_suppressed dd = sum_list (map (\<lambda>(send, n). if send then 1 + n else 0) rs) + id_suppressed dd'"
proof (induction ts arbitrary: dd rs)
  case (Cons t ts)
  obtain r dd1 where 1: "shouldNotify t dd = (r, dd1)" by (metis surj_pair)
  obtain rs1 where 2: "ineff_run ts dd1 = (rs1, dd')" "rs = r # rs1" using Cons.prems 1 by (auto split: prod.splits)
  from Cons.IH [OF 2(1)] 1 show ?case by (auto simp: 2(2) shouldNotify_def Let_def split: if_splits option.splits)
qed simp

end
