(* ===== verification/EnfHealth.thy ===== *)
theory EnfHealth
  imports Gate "HOL-Library.List_Lexorder" "HOL-Library.Char_ord"
begin

text \<open>
  What \<open>status\<close> claims: the enforcement state of \<open>internal/daemon/enfstate.go\<close> with the error
  classification \<open>IsThrottleOnly\<close> of \<open>internal/enforce/cloudflare.go\<close>, and the observation state
  of \<open>internal/daemon/collhealth.go\<close>.  A recorded result returns the transition to audit, if any;
  who audits, publishes and notifies it is in theory \<open>Daemon\<close>.
\<close>

section \<open>Classes of enforcement errors\<close>

text \<open>
  An error tree: \<open>ErrThrottled\<close> is any error that wraps \<open>ErrCFThrottled\<close>, \<open>ErrJoined\<close> the errors a
  \<open>MultiEnforcer\<close> joined, each wrapped with the name of its enforcer.
\<close>

fun IsThrottleOnly :: "enf_error \<Rightarrow> bool" and all_throttled :: "(string \<times> enf_error) list \<Rightarrow> bool" where
  "IsThrottleOnly (ErrGateRefused key reason) = False"
| "IsThrottleOnly (ErrEnforcer msg) = False"
| "IsThrottleOnly (ErrThrottled msg) = True"
| "IsThrottleOnly (ErrJoined es) = (es \<noteq> [] \<and> all_throttled es)"
| "all_throttled [] = True"
| "all_throttled ((name, e) # es) = (IsThrottleOnly e \<and> all_throttled es)"

text \<open>\<open>errors.Is(err, ErrGateRefused)\<close> searches the tree.\<close>

fun is_gate_refused :: "enf_error \<Rightarrow> bool" and any_gate_refused :: "(string \<times> enf_error) list \<Rightarrow> bool" where
  "is_gate_refused (ErrGateRefused key reason) = True"
| "is_gate_refused (ErrEnforcer msg) = False"
| "is_gate_refused (ErrThrottled msg) = False"
| "is_gate_refused (ErrJoined es) = any_gate_refused es"
| "any_gate_refused [] = False"
| "any_gate_refused ((name, e) # es) = (is_gate_refused e \<or> any_gate_refused es)"

fun enf_error_str :: "enf_error \<Rightarrow> string" and enf_error_strs :: "(string \<times> enf_error) list \<Rightarrow> string list" where
  "enf_error_str (ErrGateRefused key reason) =
     ''enforce/gate: refusing to ban '' @ key @ '' ('' @ reason @ ''): refused by allowlist/anti-lockout gate''"
| "enf_error_str (ErrEnforcer msg) = msg"
| "enf_error_str (ErrThrottled msg) = msg"
| "enf_error_str (ErrJoined es) = str_join [CHR 0x0A] (enf_error_strs es)"
| "enf_error_strs [] = []"
| "enf_error_strs ((name, e) # es) = (name @ '': '' @ enf_error_str e) # enf_error_strs es"

section \<open>The enforcement state\<close>

datatype enf_state = EnfActive | EnfDryRun | EnfDegraded | EnfDisabled

definition enfThrottleFlipStreak :: nat where "enfThrottleFlipStreak = 3"

record enf_health =
  eh_degraded :: bool
  eh_last_err :: string
  eh_throttle_streak :: nat

definition new_health :: enf_health where
  "new_health = \<lparr>eh_degraded = False, eh_last_err = [], eh_throttle_streak = 0\<rparr>"

text \<open>\<open>armed\<close> is \<open>None\<close> when no enforcer is configured.\<close>

definition enforcementState :: "bool option \<Rightarrow> enf_health \<Rightarrow> enf_state \<times> string" where
  "enforcementState armed h =
     (case armed of
        None \<Rightarrow> (EnfDisabled, [])
      | Some False \<Rightarrow> (EnfDryRun, [])
      | Some True \<Rightarrow> if eh_degraded h then (EnfDegraded, eh_last_err h) else (EnfActive, []))"

datatype enf_transition = ToDegraded string | ToActive

definition failure_text :: "string \<Rightarrow> string \<Rightarrow> enf_error \<Rightarrow> string" where
  "failure_text name opn e = name @ '' '' @ opn @ '': '' @ enf_error_str e"

definition note_result :: "string \<Rightarrow> string \<Rightarrow> enf_error option \<Rightarrow> enf_health \<Rightarrow> enf_health" where
  "note_result name opn r h =
     (case r of
        None \<Rightarrow> new_health
      | Some e \<Rightarrow>
          if is_gate_refused e then h
          else if IsThrottleOnly e then
            (let h1 = h\<lparr>eh_throttle_streak := eh_throttle_streak h + 1\<rparr>
             in if eh_degraded h \<or> eh_throttle_streak h1 \<ge> enfThrottleFlipStreak
                then h1\<lparr>eh_degraded := True, eh_last_err := failure_text name opn e\<rparr> else h1)
          else \<lparr>eh_degraded = True, eh_last_err = failure_text name opn e, eh_throttle_streak = 0\<rparr>)"

definition recordEnforceResult :: "string \<Rightarrow> string \<Rightarrow> enf_error option \<Rightarrow> enf_health \<Rightarrow> enf_transition option \<times> enf_health" where
  "recordEnforceResult name opn r h =
     (let h' = note_result name opn r h
      in (if eh_degraded h = eh_degraded h' then None
          else if eh_degraded h' then Some (ToDegraded (eh_last_err h')) else Some ToActive, h'))"

text \<open>
  The claim in terms of the history alone: since the last success the path failed for good, or it
  was throttled three times in a row.  The newest result comes first; a refusal of the gate is no
  result of the path.
\<close>

fun enf_class :: "enf_error option \<Rightarrow> nat" where
  "enf_class None = 0"
| "enf_class (Some e) = (if is_gate_refused e then 1 else if IsThrottleOnly e then 2 else 3)"

definition path_failing :: "enf_error option list \<Rightarrow> bool" where
  "path_failing hist =
     (let since = filter (\<lambda>c. c \<noteq> 1) (map enf_class (takeWhile (\<lambda>r. r \<noteq> None) hist))
      in 3 \<in> set since \<or> enfThrottleFlipStreak \<le> length since)"

fun enf_replay :: "(string \<times> string \<times> enf_error option) list \<Rightarrow> enf_health" where
  "enf_replay [] = new_health"
| "enf_replay ((name, opn, r) # hist) = note_result name opn r (enf_replay hist)"

definition since_ok :: "enf_error option list \<Rightarrow> nat list" where
  "since_ok hist = filter (\<lambda>c. c \<noteq> 1) (map enf_class (takeWhile (\<lambda>r. r \<noteq> None) hist))"

lemma since_ok_simps [simp]:
  "since_ok [] = []" "since_ok (None # hist) = []"
  "since_ok (Some e # hist) = (if is_gate_refused e then since_ok hist else (if IsThrottleOnly e then 2 else 3) # since_ok hist)"
  by (simp_all add: since_ok_def)

lemma path_failing_since: "path_failing hist \<longleftrightarrow> 3 \<in> set (since_ok hist) \<or> enfThrottleFlipStreak \<le> length (since_ok hist)"
  by (simp add: path_failing_def since_ok_def)

lemma enf_replay_spec:
  "eh_degraded (enf_replay hist) = path_failing (map (snd \<circ> snd) hist)
   \<and> (\<not> eh_degraded (enf_replay hist) \<longrightarrow> eh_throttle_streak (enf_replay hist) = length (since_ok (map (snd \<circ> snd) hist)))"
proof (induction hist)
  case Nil
  then show ?case by (simp add: path_failing_since enfThrottleFlipStreak_def new_health_def)
next
  case (Cons x hist)
  obtain name opn r where x: "x = (name, opn, r)" by (cases x) auto
  show ?case
  proof (cases r)
    case None
    then show ?thesis by (simp add: x note_result_def path_failing_since enfThrottleFlipStreak_def new_health_def)
  next
    case (Some e)
    then show ?thesis using Cons.IH by (auto simp: x note_result_def path_failing_since Let_def)
  qed
qed


lemma recordEnforceResult_refused:
  "is_gate_refused e \<Longrightarrow> recordEnforceResult name opn (Some e) h = (None, h)"
  by (simp add: recordEnforceResult_def note_result_def)

section \<open>The observation state\<close>

datatype coll_state = CollOK | CollDegraded | CollNone

record coll_entry =
  ce_failures :: int
  ce_last_err :: string
  ce_degraded :: bool

text \<open>
  The failure count comes from the supervisor; \<open>alert\<close> is the effective threshold.  The result is
  the audit reason when the collector becomes degraded.
\<close>

definition failure_reason :: "string \<Rightarrow> int \<Rightarrow> string \<Rightarrow> string" where
  "failure_reason name n detail =
     ''observation DEGRADED '' @ [CHR 0xE2, CHR 0x80, CHR 0x94] @ '' collector '' @ [CHR 0x22] @ name @ [CHR 0x22]
     @ '' is not reading ('' @ int_str n @ '' consecutive failures): '' @ detail"

definition recordCollectorFailure ::
  "int \<Rightarrow> string \<Rightarrow> int \<Rightarrow> string \<Rightarrow> (string, coll_entry) gomap \<Rightarrow> string option \<times> (string, coll_entry) gomap" where
  "recordCollectorFailure alert name failures err st =
     (let s = (case gm_get st name of None \<Rightarrow> \<lparr>ce_failures = 0, ce_last_err = [], ce_degraded = False\<rparr> | Some s \<Rightarrow> s);
          s' = \<lparr>ce_failures = failures, ce_last_err = err, ce_degraded = ce_degraded s \<or> failures \<ge> alert\<rparr>
      in (if \<not> ce_degraded s \<and> ce_degraded s' then Some (failure_reason name failures err) else None, gm_set name s' st))"

definition recordCollectorHealthy ::
  "string \<Rightarrow> (string, coll_entry) gomap \<Rightarrow> string option \<times> (string, coll_entry) gomap" where
  "recordCollectorHealthy name st =
     (case gm_get st name of
        None \<Rightarrow> (None, st)
      | Some s \<Rightarrow>
          (if ce_degraded s then Some (''collector '' @ name @ '' recovered '' @ [CHR 0xE2, CHR 0x80, CHR 0x94] @ '' reading again'')
           else None,
           gm_set name \<lparr>ce_failures = 0, ce_last_err = [], ce_degraded = False\<rparr> st))"

definition coll_line :: "string \<times> coll_entry \<Rightarrow> string" where
  "coll_line = (\<lambda>(name, s). name @ '' is not reading ('' @ int_str (ce_failures s) @ '' consecutive failures: '' @ ce_last_err s @ '')'')"

definition collectorsState :: "nat \<Rightarrow> (string, coll_entry) gomap \<Rightarrow> coll_state \<times> string" where
  "collectorsState configured st =
     (let failing = filter (\<lambda>(name, s). ce_degraded s) st
      in if failing \<noteq> [] then (CollDegraded, str_join ''; '' (sort (map coll_line failing)))
         else if configured = 0 then (CollNone, ''no collectors configured '' @ [CHR 0xE2, CHR 0x80, CHR 0x94] @ '' nothing is being observed'')
         else (CollOK, []))"

lemma coll_degraded_iff:
  "gm_ok st \<Longrightarrow> fst (collectorsState n st) = CollDegraded \<longleftrightarrow> (\<exists>name s. gm_get st name = Some s \<and> ce_degraded s)"
  by (fastforce simp: collectorsState_def Let_def filter_empty_conv dest: gm_get_in_set gm_in_set_get split: if_splits)

end
