(* ===== verification/FeedRep.thy ===== *)
theory FeedRep
  imports Sdk NetipText
begin

text \<open>
  The reputation feeds of \<open>internal/daemon/feeds.go\<close>: the in-memory lookup of observe-mode feeds,
  and the guard that filters every refresh.  What a refresh does to the daemon is in theory
  \<open>Daemon\<close>.
\<close>

definition feedReputationBoost :: int where "feedReputationBoost = 15"

record feed_reputation =
  fr_hosts :: "(addr, string) gomap"
  fr_wide :: "(pfx \<times> string) list"

definition newFeedReputation :: feed_reputation where
  "newFeedReputation = \<lparr>fr_hosts = [], fr_wide = []\<rparr>"

text \<open>\<open>set\<close> replaces the entries of one feed.\<close>

definition feed_put :: "string \<Rightarrow> feed_reputation \<Rightarrow> pfx \<Rightarrow> feed_reputation" where
  "feed_put feed r p =
     (if prefix_is_single_ip p then r\<lparr>fr_hosts := gm_set (pfx_ip p) feed (fr_hosts r)\<rparr>
      else r\<lparr>fr_wide := fr_wide r @ [(p, feed)]\<rparr>)"

definition feed_set :: "string \<Rightarrow> pfx list \<Rightarrow> feed_reputation \<Rightarrow> feed_reputation" where
  "feed_set feed ps r =
     foldl (feed_put feed) \<lparr>fr_hosts = filter (\<lambda>(a, f). f \<noteq> feed) (fr_hosts r), fr_wide = filter (\<lambda>(p, f). f \<noteq> feed) (fr_wide r)\<rparr> ps"

definition feed_lookup :: "addr \<Rightarrow> feed_reputation \<Rightarrow> string option" where
  "feed_lookup ip r =
     (case gm_get (fr_hosts r) (unmap ip) of
        Some f \<Rightarrow> Some f
      | None \<Rightarrow> (case filter (\<lambda>(p, f). prefix_contains p (unmap ip)) (fr_wide r) of [] \<Rightarrow> None | (p, f) # _ \<Rightarrow> Some f))"

text \<open>\<open>cdn\<close> is empty when the table is not available.\<close>

definition feedEntryGuarded :: "pfx list \<Rightarrow> pfx list \<Rightarrow> addr list \<Rightarrow> pfx list \<Rightarrow> pfx \<Rightarrow> bool" where
  "feedEntryGuarded static runtime peers cdn p \<longleftrightarrow>
     list_ex (\<lambda>a. prefix_overlaps a p) static \<or> list_ex (\<lambda>a. prefix_overlaps a p) runtime
     \<or> list_ex (\<lambda>peer. prefix_contains p (unmap peer)) peers \<or> list_ex (\<lambda>c. prefix_overlaps c p) cdn"

definition filterFeedEntries :: "pfx list \<Rightarrow> pfx list \<Rightarrow> addr list \<Rightarrow> pfx list \<Rightarrow> pfx list \<Rightarrow> pfx list \<times> nat" where
  "filterFeedEntries static runtime peers cdn ps =
     (filter (\<lambda>p. \<not> feedEntryGuarded static runtime peers cdn p) ps,
      length (filter (feedEntryGuarded static runtime peers cdn) ps))"

text \<open>No entry that passes the guard covers an address an allowlist, a peer or a CDN range holds.\<close>

lemma filterFeedEntries_guarded:
  assumes "p \<in> set (fst (filterFeedEntries static runtime peers cdn ps))" and "prefix_wf p" and "prefix_contains p x"
    and "\<forall>a \<in> set static \<union> set runtime \<union> set cdn. prefix_wf a"
  shows "\<forall>a \<in> set static \<union> set runtime \<union> set cdn. \<not> prefix_contains a x"
    and "x \<notin> unmap ` set peers"
proof -
  have g: "\<not> feedEntryGuarded static runtime peers cdn p" using assms(1) by (simp add: filterFeedEntries_def)
  show "\<forall>a \<in> set static \<union> set runtime \<union> set cdn. \<not> prefix_contains a x"
  proof
    fix a
    assume a: "a \<in> set static \<union> set runtime \<union> set cdn"
    then have "\<not> prefix_overlaps a p" using g by (auto simp: feedEntryGuarded_def list_ex_iff)
    then show "\<not> prefix_contains a x" using prefix_overlaps_iff [of a p] a assms(2-4) by blast
  qed
  show "x \<notin> unmap ` set peers" using g assms(3) by (auto simp: feedEntryGuarded_def list_ex_iff)
qed

lemma feed_put_lookup_hosts: "gm_get (fr_hosts (feed_put feed r p)) a
    = (if prefix_is_single_ip p \<and> a = pfx_ip p then Some feed else gm_get (fr_hosts r) a)"
  by (simp add: feed_put_def)

text \<open>A feed flags only what its last refresh named: no address outside the new entries is attributed to it.\<close>

lemma feed_set_attribution:
  assumes "feed_lookup ip (feed_set feed ps r) = Some feed" and "gm_ok (fr_hosts r)"
  shows "\<exists>p \<in> set ps. pfx_ip p = unmap ip \<or> prefix_contains p (unmap ip)"
proof -
  let ?P = "\<lambda>r. (\<forall>a. gm_get (fr_hosts r) a = Some feed \<longrightarrow> (\<exists>p \<in> set ps. pfx_ip p = a))
     \<and> (\<forall>(p, f) \<in> set (fr_wide r). f = feed \<longrightarrow> p \<in> set ps)"
  have "?P (feed_set feed ps r)"
    unfolding feed_set_def
  proof (rule foldl_invariant)
    show "?P \<lparr>fr_hosts = filter (\<lambda>(a, f). f \<noteq> feed) (fr_hosts r), fr_wide = filter (\<lambda>(p, f). f \<noteq> feed) (fr_wide r)\<rparr>"
      using assms(2) by (auto simp: gm_get_filter split: option.splits)
  qed (auto simp: feed_put_def)
  then show ?thesis using assms(1) unfolding feed_lookup_def
    by (fastforce split: option.splits list.splits dest: filter_eq_ConsD)
qed

end
