(* ===== verification/Daemon.thy ===== *)
theory Daemon
  imports EventCounts Aggregate Guards AiLayer AiQueue Recheck NotifyFold EnfHealth FeedRep
begin

text \<open>
  The daemon, \<open>internal/daemon/daemon.go\<close> with \<open>gatedban.go\<close>, \<open>sshrecheck.go\<close>, \<open>aiasync.go\<close>,
  \<open>ineffective.go\<close>, \<open>enfstate.go\<close> and \<open>feeds.go\<close>: the pipeline from a parsed event to the firewall,
  the deferred retries, the reconcile.  It calls every other component: the aggregator, the rule
  engine, the decision engine, the store, the gate.

  \<^item> The state is the record \<open>daemon\<close>; \<open>'e\<close> is the state of the inner enforcer behind the gate,
    \<open>'w\<close> what the gate's probe reads.  \<open>dm_gate = None\<close> says no enforcer is configured.
  \<^item> What a step reads from outside is the record \<open>ports\<close>: the inner enforcer, clocks, the
    kernel, GeoIP, the AI provider, the order in which a map is visited.  A handler reads its
    clocks several times; one instant stands for all readings of one step.
  \<^item> What a step tells the outside (notifications, stream events, detections) is appended to
    \<open>dm_out\<close>.  A failing notifier, log lines and metrics are not modelled; the event bus drops
    events of slow subscribers, which \<open>dm_out\<close> does not.
  \<^item> The store operations fail as the fault list in \<open>dm_store\<close> says.  \<open>enforceMu\<close> makes each
    store-and-firewall section atomic: sections are steps here.
\<close>

section \<open>State and surroundings\<close>

datatype out_msg =
    ONotify notification
  | OEvent string string int duration string string
  | ODetection verdict
  | OAction action

record ai_layer =
  ay_cache :: ai_cache
  ay_budget :: ai_budget
  ay_lo :: int
  ay_hi :: int
  ay_queue :: "ai_queue option"

record ('w, 'e) daemon =
  dm_engine :: engine
  dm_store :: fstore
  dm_agg :: aggregator
  dm_rules :: "spec list"
  dm_gate :: "'w gate option"
  dm_fw :: 'e
  dm_static :: "pfx list"
  dm_runtime :: "pfx list"
  dm_long_windows :: "(duration, string list) gomap"
  dm_long_kinds :: "string list"
  dm_long_field_kinds :: "string list"
  dm_recheck :: recheck_queue
  dm_gated :: recheck_queue
  dm_health :: enf_health
  dm_notify_sup :: "suppressor option"
  dm_ineff :: ineff_dedup
  dm_ai :: "ai_layer option"
  dm_feed_rep :: feed_reputation
  dm_out :: "out_msg list"

record ('w, 'e) ports =
  pt_inner :: "'e enforcer"
  pt_view :: 'w
  pt_clock :: time
  pt_wall :: time
  pt_decide :: decide_env
  pt_geo :: "(addr \<Rightarrow> enrichment) option"
  pt_notifier :: bool
  pt_analyze :: "aggregate list \<Rightarrow> token_budget \<Rightarrow> (string + verdict list) \<times> usage"
  pt_alive :: "duration \<Rightarrow> nat \<Rightarrow> bool"
  pt_agg_order :: "addr list"
  pt_long_order :: "(duration \<times> string list) list \<Rightarrow> (duration \<times> string list) list"

abbreviation dm_policy :: "('w, 'e) daemon \<Rightarrow> policy" where
  "dm_policy d \<equiv> dc_policy (dm_engine d)"

abbreviation dm_db :: "('w, 'e) daemon \<Rightarrow> db" where
  "dm_db d \<equiv> snd (dm_store d)"

text \<open>A store call of the daemon: the table operation, or the driver's failure.\<close>

definition with_store :: "(db \<Rightarrow> 'a \<times> db) \<Rightarrow> ('w, 'e) daemon \<Rightarrow> (store_error + 'a) \<times> ('w, 'e) daemon" where
  "with_store f d = (case faulty f (dm_store d) of (r, s) \<Rightarrow> (r, d\<lparr>dm_store := s\<rparr>))"

definition reads :: "(db \<Rightarrow> 'a) \<Rightarrow> db \<Rightarrow> 'a \<times> db" where "reads f d = (f d, d)"
definition writes :: "(db \<Rightarrow> db) \<Rightarrow> db \<Rightarrow> unit \<times> db" where "writes f d = ((), f d)"

definition emit :: "out_msg list \<Rightarrow> ('w, 'e) daemon \<Rightarrow> ('w, 'e) daemon" where
  "emit os d = d\<lparr>dm_out := dm_out d @ os\<rparr>"

definition notify :: "('w, 'e) ports \<Rightarrow> notification \<Rightarrow> ('w, 'e) daemon \<Rightarrow> ('w, 'e) daemon" where
  "notify p n d = (if pt_notifier p then emit [ONotify n] d else d)"

definition system_note :: "string \<Rightarrow> string \<Rightarrow> string \<Rightarrow> notification" where
  "system_note severity title body = \<lparr>nt_severity = severity, nt_title = title, nt_body = body, nt_action = None\<rparr>"

definition notifyCritical :: "('w, 'e) ports \<Rightarrow> string \<Rightarrow> ('w, 'e) daemon \<Rightarrow> ('w, 'e) daemon" where
  "notifyCritical p msg = notify p (system_note ''critical'' msg msg)"

definition publishActionEvent :: "string \<Rightarrow> string \<Rightarrow> int \<Rightarrow> duration \<Rightarrow> string \<Rightarrow> string \<Rightarrow> ('w, 'e) daemon \<Rightarrow> ('w, 'e) daemon" where
  "publishActionEvent kind ip strike ttl reason source = emit [OEvent kind ip strike ttl reason source]"

definition publishDetections :: "verdict list \<Rightarrow> ('w, 'e) daemon \<Rightarrow> ('w, 'e) daemon" where
  "publishDetections vs = emit (map ODetection vs)"

definition isRuntimeAllowlisted :: "('w, 'e) daemon \<Rightarrow> addr \<Rightarrow> bool" where
  "isRuntimeAllowlisted d ip = list_ex (\<lambda>p. prefix_contains p ip) (dm_runtime d)"

definition runtimeAllowlistOverlap :: "('w, 'e) daemon \<Rightarrow> pfx \<Rightarrow> pfx option" where
  "runtimeAllowlistOverlap d q = find_first (\<lambda>p. prefix_overlaps p q) (dm_runtime d)"

section \<open>The allowlist of the policy\<close>

definition canonical_pfx :: "pfx \<Rightarrow> pfx" where
  "canonical_pfx p = (case NormalizePrefix p of Inr q \<Rightarrow> q | Inl e \<Rightarrow> p)"

definition static_entry :: "string \<Rightarrow> pfx list" where
  "static_entry s =
     (case parse_prefix s of
        Some p \<Rightarrow> [canonical_pfx p]
      | None \<Rightarrow> (case parse_addr s of None \<Rightarrow> [] | Some a \<Rightarrow> [prefix_from (unmap a) (bit_len (unmap a))]))"

definition admin_entry :: "string \<Rightarrow> pfx list" where
  "admin_entry s = (case parse_prefix s of Some p \<Rightarrow> [canonical_pfx p] | None \<Rightarrow> [])"

definition staticAllowlistFromPolicy :: "policy \<Rightarrow> pfx list" where
  "staticAllowlistFromPolicy pol =
     concat (map static_entry (po_allowlist pol)) @ concat (map admin_entry (po_admin_cidrs pol))"

definition unionPrefixes :: "pfx list \<Rightarrow> pfx list \<Rightarrow> pfx list" where
  "unionPrefixes a b = foldl (\<lambda>out p. if p \<in> set out then out else out @ [p]) [] (a @ b)"

section \<open>Enforcement health\<close>

definition auditEnfTransition :: "('w, 'e) ports \<Rightarrow> string \<Rightarrow> string \<Rightarrow> ('w, 'e) daemon \<Rightarrow> ('w, 'e) daemon" where
  "auditEnfTransition p opn reason d =
     publishActionEvent opn ''system'' 0 0 reason ''enforcer''
       (snd (with_store (writes (AuditSystem (pt_clock p) opn reason)) d))"

definition enforcer_name :: "('w, 'e) ports \<Rightarrow> string" where
  "enforcer_name p = en_name (pt_inner p)"

definition arrow :: string where "arrow = [CHR 0xE2, CHR 0x86, CHR 0x92]"

definition record_enforce :: "('w, 'e) ports \<Rightarrow> string \<Rightarrow> enf_error option \<Rightarrow> ('w, 'e) daemon \<Rightarrow> ('w, 'e) daemon" where
  "record_enforce p opn r d =
     (if dm_gate d = None then d
      else (case recordEnforceResult (enforcer_name p) opn r (dm_health d) of
              (tr, h) \<Rightarrow>
                let d1 = d\<lparr>dm_health := h\<rparr>
                in case tr of
                     None \<Rightarrow> d1
                   | Some (ToDegraded detail) \<Rightarrow>
                       (let d2 = auditEnfTransition p ''enforce_degraded'' (''enforcement DEGRADED '' @ em_dash @ '' '' @ detail) d1
                        in if IsArmed (dm_policy d2)
                           then notifyCritical p (''enforcement DEGRADED: '' @ detail @ '' '' @ em_dash
                                  @ '' bans may not be applied; check the enforcer'') d2
                           else d2)
                   | Some ToActive \<Rightarrow>
                       auditEnfTransition p ''enforce_recovered''
                         (''enforcement recovered '' @ arrow @ '' ACTIVE ('' @ enforcer_name p @ '')'') d1))"

definition notifyEnforcerFailure :: "('w, 'e) ports \<Rightarrow> addr \<Rightarrow> enf_error \<Rightarrow> ('w, 'e) daemon \<Rightarrow> ('w, 'e) daemon" where
  "notifyEnforcerFailure p ip e =
     notify p (system_note ''critical''
       (''enforcer ban failed '' @ em_dash @ '' bans may not be applied; check the enforcer'')
       (''first failing target '' @ addr_str ip @ '': '' @ enf_error_str e
          @ '' (repeats within the dedup window are folded into this alert)''))"

section \<open>The rules over one address\<close>

text \<open>An address without an enricher keeps the zero enrichment.\<close>

definition enriched :: "('w, 'e) ports \<Rightarrow> addr \<Rightarrow> aggregate \<Rightarrow> aggregate" where
  "enriched p ip a = (case pt_geo p of None \<Rightarrow> a | Some lookup \<Rightarrow> a\<lparr>ag_enrich := lookup ip\<rparr>)"

definition window_verdicts :: "('w, 'e) ports \<Rightarrow> ('w, 'e) daemon \<Rightarrow> addr \<Rightarrow> duration \<Rightarrow> verdict list" where
  "window_verdicts p d ip w =
     Evaluate (pt_alive p w) (dm_rules d) (enriched p ip (agg_aggregate ip w (pt_clock p) (dm_agg d)))"

definition long_aggregate :: "addr \<Rightarrow> duration \<Rightarrow> (string, int) gomap \<Rightarrow> aggregate" where
  "long_aggregate ip w counts =
     \<lparr>ag_ip = ip, ag_window = w, ag_count = sum_list (map snd counts), ag_kinds = counts, ag_sample = [],
      ag_enrich = no_enrichment, ag_behavior = None\<rparr>"

fun evaluateLongRules ::
  "('w, 'e) ports \<Rightarrow> addr \<Rightarrow> (duration \<times> string list) list \<Rightarrow> ('w, 'e) daemon \<Rightarrow> verdict list \<times> ('w, 'e) daemon" where
  "evaluateLongRules p ip [] d = ([], d)"
| "evaluateLongRules p ip ((w, kinds) # ws) d =
     (case with_store (reads (SumEventCounts ip kinds (HourBucket (pt_clock p - w)))) d of
        (Inl e, d1) \<Rightarrow> evaluateLongRules p ip ws d1
      | (Inr tot, d1) \<Rightarrow>
          (case with_store (reads (ConsumedEventCounts ip w (pt_clock p))) d1 of
             (r, d2) \<Rightarrow>
               let counts = long_counts tot (case r of Inl e \<Rightarrow> [] | Inr c \<Rightarrow> c)
               in if sum_list (map snd counts) = 0 then evaluateLongRules p ip ws d2
                  else (case evaluateLongRules p ip ws d2 of
                          (vs, d3) \<Rightarrow> (Evaluate (pt_alive p w) (dm_rules d) (enriched p ip (long_aggregate ip w counts)) @ vs, d3))))"

definition boosted :: "string \<Rightarrow> verdict \<Rightarrow> verdict" where
  "boosted feed v = v\<lparr>vd_score := min 100 (vd_score v + feedReputationBoost),
     vd_reason := vd_reason v @ '' [reputation:'' @ feed @ '']''\<rparr>"

definition evaluateRules ::
  "('w, 'e) ports \<Rightarrow> addr \<Rightarrow> bool \<Rightarrow> ('w, 'e) daemon \<Rightarrow> verdict list \<times> ('w, 'e) daemon" where
  "evaluateRules p ip withLong d =
     (let short = concat (map (window_verdicts p d ip) (gg_windows (dm_agg d)));
          (long, d1) = (if withLong then evaluateLongRules p ip (pt_long_order p (dm_long_windows d)) d else ([], d));
          vs = short @ long
      in (case feed_lookup ip (dm_feed_rep d1) of
            Some feed \<Rightarrow> map (boosted feed) vs
          | None \<Rightarrow> vs, d1))"

section \<open>The AI layer\<close>

text \<open>The gates in front of a consult; the provider is part of the layer.\<close>

definition aiEligible :: "('w, 'e) ports \<Rightarrow> addr \<Rightarrow> int \<Rightarrow> ('w, 'e) daemon \<Rightarrow> bool \<times> ('w, 'e) daemon" where
  "aiEligible p ip highScore d =
     (case dm_ai d of
        None \<Rightarrow> (False, d)
      | Some ay \<Rightarrow>
          if ay_lo ay \<ge> ay_hi ay \<or> highScore < ay_lo ay \<or> highScore > ay_hi ay
             \<or> highScore \<ge> po_ban_threshold (dm_policy d) then (False, d)
          else
            (case with_store (reads (GetBanInfo (pt_clock p) (unmap ip))) d of
               (r, d1) \<Rightarrow>
                 if (case r of Inr (Some (t, n, dryBan)) \<Rightarrow> \<not> dryBan \<or> \<not> IsArmed (dm_policy d) | _ \<Rightarrow> False) then (False, d1)
                 else (case Budget_Exceeded (pt_wall p) (ay_budget ay) (dm_store d1) of
                         (Inl e, s2) \<Rightarrow> (False, d1\<lparr>dm_store := s2\<rparr>)
                       | (Inr False, s2) \<Rightarrow> (True, d1\<lparr>dm_store := s2\<rparr>)
                       | (Inr True, s2) \<Rightarrow>
                           (False, d1\<lparr>dm_store := s2,
                              dm_ai := Some (ay\<lparr>ay_budget := snd (NoteExceededToday (pt_wall p) (ay_budget ay))\<rparr>)\<rparr>))))"

definition collectAIAggregates :: "('w, 'e) ports \<Rightarrow> addr \<Rightarrow> ('w, 'e) daemon \<Rightarrow> aggregate list" where
  "collectAIAggregates p ip d =
     map (\<lambda>w. enriched p ip (agg_aggregate ip w (pt_clock p) (dm_agg d))) (gg_windows (dm_agg d))"

definition consult_cached :: "('w, 'e) ports \<Rightarrow> aggregate list \<Rightarrow> ai_layer \<Rightarrow> verdict list option \<times> ai_layer" where
  "consult_cached p aggs ay =
     (case aggs of
        [] \<Rightarrow> (None, ay)
      | a # as \<Rightarrow> (case Cache_Get (pt_wall p) a (ay_cache ay) of (r, c) \<Rightarrow> (r, ay\<lparr>ay_cache := c\<rparr>)))"

text \<open>
  The round trip: cache, budget hint, provider, consumption, binding, and only then the cache
  entry.  The flag says whether the layer answered.
\<close>

definition consultProvider ::
  "('w, 'e) ports \<Rightarrow> addr \<Rightarrow> aggregate list \<Rightarrow> ('w, 'e) daemon \<Rightarrow> (verdict list \<times> bool) \<times> ('w, 'e) daemon" where
  "consultProvider p ip aggs d =
     (case dm_ai d of
        None \<Rightarrow> (([], False), d)
      | Some ay0 \<Rightarrow>
          (case consult_cached p aggs ay0 of
             (Some cached, ay) \<Rightarrow> ((bindVerdictsToIP cached ip, True), d\<lparr>dm_ai := Some ay\<rparr>)
           | (None, ay) \<Rightarrow>
               (case Budget_Current (pt_wall p) (ay_budget ay) (dm_store d) of
                  (Inl e, s1) \<Rightarrow> (([], False), d\<lparr>dm_ai := Some ay, dm_store := s1\<rparr>)
                | (Inr budget, s1) \<Rightarrow>
                    (case pt_analyze p aggs budget of
                       (Inl e, u) \<Rightarrow> (([], False), d\<lparr>dm_ai := Some ay, dm_store := s1\<rparr>)
                     | (Inr vs, u) \<Rightarrow>
                         (case Budget_Consume (pt_wall p) u ip (ay_budget ay) s1 of
                            (r, b1, s2) \<Rightarrow>
                              let bound = bindVerdictsToIP vs ip;
                                  c = (if aggs \<noteq> [] \<and> bound \<noteq> [] then Cache_Set (pt_wall p) (hd aggs) bound (ay_cache ay) else ay_cache ay)
                              in ((bound, True), d\<lparr>dm_ai := Some (ay\<lparr>ay_budget := b1, ay_cache := c\<rparr>), dm_store := s2\<rparr>))))))"

definition maybeConsultAI :: "('w, 'e) ports \<Rightarrow> addr \<Rightarrow> verdict list \<Rightarrow> ('w, 'e) daemon \<Rightarrow> verdict list \<times> ('w, 'e) daemon" where
  "maybeConsultAI p ip vs d =
     (case aiEligible p ip (highestScore vs) d of
        (False, d1) \<Rightarrow> (vs, d1)
      | (True, d1) \<Rightarrow>
          (case consultProvider p ip (collectAIAggregates p ip d1) d1 of ((ai, answered), d2) \<Rightarrow> (vs @ ai, d2)))"

definition maybeEnqueueAI :: "('w, 'e) ports \<Rightarrow> addr \<Rightarrow> int \<Rightarrow> ('w, 'e) daemon \<Rightarrow> ('w, 'e) daemon" where
  "maybeEnqueueAI p ip ruleScore d =
     (case aiEligible p ip ruleScore d of
        (False, d1) \<Rightarrow> d1
      | (True, d1) \<Rightarrow>
          d1\<lparr>dm_ai := map_option (\<lambda>ay. ay\<lparr>ay_queue :=
               map_option (aq_push (pt_wall p) \<lparr>ai_ip = ip, ai_rule_score = ruleScore, ai_queued_at = pt_wall p\<rparr>) (ay_queue ay)\<rparr>) (dm_ai d1)\<rparr>)"

section \<open>The GeoIP verdict\<close>

definition GeoBlockScore :: int where "GeoBlockScore = 100"

definition equal_fold :: "string \<Rightarrow> string \<Rightarrow> bool" where
  "equal_fold a b \<longleftrightarrow> map to_lower a = map to_lower b"

definition geo_verdict :: "addr \<Rightarrow> string \<Rightarrow> string \<Rightarrow> verdict" where
  "geo_verdict ip source reason =
     \<lparr>vd_ip = ip, vd_score = GeoBlockScore, vd_category = ''geo_block'', vd_confidence = 0, vd_reason = reason,
      vd_source = source, vd_suggest_ttl = 0, vd_evidence = []\<rparr>"

definition maybeInjectGeoVerdict :: "('w, 'e) ports \<Rightarrow> policy \<Rightarrow> addr \<Rightarrow> verdict list \<Rightarrow> verdict list" where
  "maybeInjectGeoVerdict p pol ip vs =
     (case pt_geo p of
        None \<Rightarrow> vs
      | Some lookup \<Rightarrow>
          let enr = lookup ip; asn = ''AS'' @ int_str (er_asn enr)
          in if er_country enr \<noteq> [] \<and> list_ex (\<lambda>c. equal_fold c (er_country enr)) (po_block_countries pol)
             then vs @ [geo_verdict ip ''policy:block_countries'' (''blocked country: '' @ er_country enr)]
             else if er_asn enr \<noteq> 0 \<and> list_ex (\<lambda>a. equal_fold a asn) (po_block_asns pol)
             then vs @ [geo_verdict ip ''policy:block_asns'' (''blocked ASN: '' @ asn @ '' ('' @ er_asn_org enr @ '')'')]
             else vs)"

section \<open>Deferred retries\<close>

definition deferGatedBan :: "('w, 'e) ports \<Rightarrow> addr \<Rightarrow> ('w, 'e) daemon \<Rightarrow> ('w, 'e) daemon" where
  "deferGatedBan p ip d =
     d\<lparr>dm_gated := snd (recheck_schedule ip (pt_clock p + defaultSSHRecheckDelay) None (dm_gated d))\<rparr>"

definition maybeScheduleSSHRecheck :: "('w, 'e) ports \<Rightarrow> action \<Rightarrow> verdict list \<Rightarrow> ('w, 'e) daemon \<Rightarrow> ('w, 'e) daemon" where
  "maybeScheduleSSHRecheck p act vs d =
     (if ac_op act \<noteq> ''record'' \<or> ac_reason act \<noteq> ReasonAntiLockoutSSHPeer
         \<or> highestScore vs < po_ban_threshold (dm_policy d) then d
      else d\<lparr>dm_recheck := snd (recheck_schedule (ac_ip act) (pt_clock p + defaultSSHRecheckDelay)
               (elevatedAIVerdict vs (po_ban_threshold (dm_policy d))) (dm_recheck d))\<rparr>)"

section \<open>Dispatch\<close>

definition severityFor :: "string \<Rightarrow> string" where
  "severityFor opn = (if opn = ''ban'' then ''warn'' else ''info'')"

text \<open>A strike consumes the evidence that earned it.\<close>

definition consume_evidence :: "('w, 'e) ports \<Rightarrow> action \<Rightarrow> ('w, 'e) daemon \<Rightarrow> ('w, 'e) daemon" where
  "consume_evidence p act d =
     (if ac_op act = ''ban'' \<or> ac_op act = ''dry_ban'' then
        (let d1 = d\<lparr>dm_agg := agg_reset (ac_ip act) (dm_agg d)\<rparr>
         in if dm_long_windows d1 = [] then d1
            else snd (with_store (writes (ConsumeEventCounts (ac_ip act) (dm_long_windows d1) (pt_clock p))) d1))
      else d)"

definition ban_target :: "addr \<Rightarrow> duration \<Rightarrow> target" where
  "ban_target ip ttl = zero_target\<lparr>tg_ip := ip, tg_ttl := ttl\<rparr>"

definition gate_ban :: "('w, 'e) ports \<Rightarrow> 'w gate \<Rightarrow> target \<Rightarrow> ('w, 'e) daemon \<Rightarrow> enf_error option \<times> ('w, 'e) daemon" where
  "gate_ban p g t d = (case Gate_Ban (pt_inner p) g (pt_view p) t (dm_fw d) of (r, fw) \<Rightarrow> (r, d\<lparr>dm_fw := fw\<rparr>))"

definition enforce_action :: "('w, 'e) ports \<Rightarrow> action \<Rightarrow> ('w, 'e) daemon \<Rightarrow> ('w, 'e) daemon" where
  "enforce_action p act d =
     (case dm_gate d of
        None \<Rightarrow> d
      | Some g \<Rightarrow>
          if ac_op act \<noteq> ''ban'' then d
          else (case gate_ban p g (ban_target (ac_ip act) (ac_ttl act)) d of
                  (r, d1) \<Rightarrow>
                    record_enforce p ''ban'' r
                      (case r of
                         None \<Rightarrow> d1
                       | Some e \<Rightarrow> if is_gate_refused e then deferGatedBan p (ac_ip act) d1
                                  else notifyEnforcerFailure p (ac_ip act) e d1)))"

definition action_note :: "action \<Rightarrow> notification" where
  "action_note act =
     \<lparr>nt_severity = severityFor (ac_op act),
      nt_title = ''['' @ ac_op act @ ''] '' @ addr_str (ac_ip act) @ '' '' @ em_dash @ '' strike '' @ int_str (ac_strike act),
      nt_body = ac_reason act, nt_action = Some act\<rparr>"

definition notify_action :: "('w, 'e) ports \<Rightarrow> action \<Rightarrow> ('w, 'e) daemon \<Rightarrow> ('w, 'e) daemon" where
  "notify_action p act d =
     (if \<not> pt_notifier p \<or> ac_op act \<notin> {''ban'', ''dry_ban'', ''notify_only''} then d
      else if ac_op act = ''notify_only'' then
        (case dm_notify_sup d of
           None \<Rightarrow> notify p (action_note act) d
         | Some folder \<Rightarrow>
             (case admit_action (pt_wall p) act folder of
                ((send, summary), folder1) \<Rightarrow>
                  let d1 = d\<lparr>dm_notify_sup := Some folder1\<rparr>;
                      d2 = (case summary of None \<Rightarrow> d1 | Some n \<Rightarrow> notify p n d1)
                  in if send then notify p (action_note act) d2 else d2))
      else notify p (action_note act) d)"

definition dispatch_action :: "('w, 'e) ports \<Rightarrow> action \<Rightarrow> ('w, 'e) daemon \<Rightarrow> ('w, 'e) daemon" where
  "dispatch_action p act d =
     (let d1 = emit [OAction act] d;
          d2 = publishActionEvent (ac_op act) (addr_str (ac_ip act)) (ac_strike act) (ac_ttl act) (ac_reason act) ''pipeline'' d1
      in notify_action p act (enforce_action p act (consume_evidence p act d2)))"

end
