(* ===== verification/Pipeline.thy ===== *)
theory Pipeline
  imports Daemon
begin

text \<open>
  The steps of the daemon: one parsed event through the pipeline (\<open>processRaw\<close>), an answer of the
  asynchronous AI worker, the deferred re-check and the deferred enforcement, the reconcile, the
  periodic sweeps and a feed refresh.
\<close>

section \<open>Diagnostics\<close>

definition ineffective_reason :: "ban_ineffective_diag \<Rightarrow> string" where
  "ineffective_reason x =
     (let ladder = ''strike '' @ int_str (bd_strike x) @ ''/'' @ int_str (bd_ladder_len x) @ '' '' @ em_dash
            @ '' next rungs: '' @ bd_next_rungs x
      in case bd_phase x of
           PhaseInGrace \<Rightarrow> ladder @ ''; '' @ int_str (bd_events_in_grace x) @ '' events within the first ''
             @ int_str (bd_grace_seconds x) @ ''s after the ban (total suppressed: '' @ int_str (bd_total_suppressed x) @ '')''
         | PhasePostGrace \<Rightarrow> ladder @ ''; '' @ int_str (bd_events_after_grace x) @ '' events ''
             @ [CHR 0xE2, CHR 0x89, CHR 0xA5] @ int_str (bd_grace_seconds x)
             @ ''s after the ban (total suppressed: '' @ int_str (bd_total_suppressed x) @ '')'')"

definition line_feed :: string where "line_feed = [CHR 0x0A]"
definition apostrophe :: string where "apostrophe = [CHR 0x27]"

definition ineffective_causes :: "ban_ineffective_diag \<Rightarrow> string" where
  "ineffective_causes x =
     (case bd_phase x of
        PhaseInGrace \<Rightarrow> ''an already-established connection still being served after the ban ''
          @ ''(HTTP/2 or keep-alive reuse '' @ em_dash @ '' the enforcer'' @ apostrophe @ ''s pre-ban TCP teardown may be unavailable), ''
          @ ''or the enforcer applying the ban late (helper latency, entry not yet in the kernel)''
      | PhasePostGrace \<Rightarrow> ''a CDN/proxy in front of the server (local bans never see the client IP), ''
          @ ''missing real-IP parsing, or a broken enforcer'')"

definition ineffective_body :: "ban_ineffective_diag \<Rightarrow> int \<Rightarrow> string" where
  "ineffective_body x carried =
     ''Traffic from '' @ addr_str (bd_ip x) @ '' is flowing DESPITE an active ban ('' @ ineffective_reason x @ '').'' @ line_feed
     @ ''This signal is systemic '' @ em_dash @ '' likely causes: '' @ ineffective_causes x @ ''.'' @ line_feed
     @ ''Fix the enforcement path (edge enforcement, real-IP config, enforcer health) '' @ em_dash @ '' per-IP sentencing will not help.''
     @ (if carried > 0 then line_feed @ int_str carried @ '' additional firing(s) were aggregated since the previous alert.'' else [])"

definition permanent_reason :: "int \<Rightarrow> string" where
  "permanent_reason strike =
     ''promoting to PERMANENT at strike '' @ int_str strike @ '' an IP whose previous ban was ineffective''"

definition permanent_body :: "int \<Rightarrow> string" where
  "permanent_body strike =
     permanent_reason strike @ ''.'' @ line_feed @ ''The permanent ban will look '' @ apostrophe @ ''resolved forever'' @ apostrophe
     @ '' while traffic keeps flowing. Verify the enforcement path before trusting this ban (edge enforcement / real-IP parsing / enforcer health).''"

text \<open>
  One delivery.  The stream event is never deduplicated, the notification of an ineffective ban
  is, that of a promotion to permanent is not.
\<close>

fun deliver :: "('w, 'e) ports \<Rightarrow> ('w, 'e) daemon \<Rightarrow> diag \<Rightarrow> ('w, 'e) daemon" where
  "deliver p d (BanIneffective x) =
     (let d1 = publishActionEvent ''ban_ineffective'' (addr_str (bd_ip x)) (bd_strike x) 0 (ineffective_reason x) ''engine'' d
      in if \<not> pt_notifier p then d1
         else (case shouldNotify (pt_wall p) (dm_ineff d1) of
                 ((send, carried), dd) \<Rightarrow>
                   let d2 = d1\<lparr>dm_ineff := dd\<rparr>
                   in if \<not> send then d2
                      else notify p (system_note ''critical'' (''[ban_ineffective] enforcement looks broken ('' @ addr_str (bd_ip x) @ '')'')
                             (ineffective_body x carried)) d2))"
| "deliver p d (BanIneffectivePermanent ip strike) =
     notify p (system_note ''critical''
         (''[ban_ineffective_permanent] '' @ addr_str ip @ '' promoted to permanent while enforcement looks broken'')
         (permanent_body strike))
       (publishActionEvent ''ban_ineffective_permanent'' (addr_str ip) strike 0 (permanent_reason strike) ''engine'' d)"

definition decide_step :: "('w, 'e) ports \<Rightarrow> verdict list \<Rightarrow> ('w, 'e) daemon \<Rightarrow> (decide_error + action) \<times> ('w, 'e) daemon" where
  "decide_step p vs d =
     (case Decide (db_ops (pt_clock p)) (pt_decide p) vs (dm_engine d) (dm_store d) of
        (r, ds, e, s) \<Rightarrow> (r, foldl (deliver p) (d\<lparr>dm_engine := e, dm_store := s\<rparr>) ds))"

section \<open>One event\<close>

definition count_event :: "('w, 'e) ports \<Rightarrow> event \<Rightarrow> ('w, 'e) daemon \<Rightarrow> string \<Rightarrow> ('w, 'e) daemon" where
  "count_event p ev d kind =
     snd (with_store (writes (IncrEventCount (ev_source_ip ev) kind (HourBucket (pt_clock p)))) d)"

definition long_hits :: "('w, 'e) daemon \<Rightarrow> event \<Rightarrow> string list" where
  "long_hits d ev =
     (if ev_kind ev \<in> set (dm_long_kinds d) then [ev_kind ev] else [])
     @ (if ev_kind ev \<in> set (dm_long_field_kinds d) then LongCounterKinds (dm_rules d) ev else [])"

text \<open>Everything before the decision: counting, the rules, the AI layer, GeoIP, detections.\<close>

definition ai_is_async :: "('w, 'e) daemon \<Rightarrow> bool" where
  "ai_is_async d = (case dm_ai d of None \<Rightarrow> False | Some ay \<Rightarrow> ay_queue ay \<noteq> None)"

definition event_verdicts :: "('w, 'e) ports \<Rightarrow> event \<Rightarrow> ('w, 'e) daemon \<Rightarrow> verdict list \<times> ('w, 'e) daemon" where
  "event_verdicts p ev d =
     (let d1 = d\<lparr>dm_agg := agg_add (pt_agg_order p) ev (dm_agg d)\<rparr>;
          hits = long_hits d ev;
          d2 = foldl (count_event p ev) d1 hits
      in case evaluateRules p (ev_source_ip ev) (hits \<noteq> []) d2 of
           (vs, d3) \<Rightarrow>
             if vs = [] then ([], d3)
             else
               (case (if ai_is_async d3 then (vs, maybeEnqueueAI p (ev_source_ip ev) (highestScore vs) d3)
                      else maybeConsultAI p (ev_source_ip ev) vs d3) of
                  (vs2, d4) \<Rightarrow>
                    let vs3 = maybeInjectGeoVerdict p (dm_policy d4) (ev_source_ip ev) vs2
                    in (vs3, publishDetections vs3 d4)))"

definition decide_failed :: "('w, 'e) ports \<Rightarrow> decide_error \<Rightarrow> ('w, 'e) daemon \<Rightarrow> ('w, 'e) daemon" where
  "decide_failed p e d = (if e = ErrRateLimited then notifyCritical p ''ban rate limit exceeded'' d else d)"

definition decide_and_dispatch :: "('w, 'e) ports \<Rightarrow> verdict list \<Rightarrow> ('w, 'e) daemon \<Rightarrow> ('w, 'e) daemon" where
  "decide_and_dispatch p vs d =
     (case decide_step p vs d of
        (Inl e, d1) \<Rightarrow> decide_failed p e d1
      | (Inr act, d1) \<Rightarrow> maybeScheduleSSHRecheck p act vs (dispatch_action p act d1))"

definition process_event :: "('w, 'e) ports \<Rightarrow> event \<Rightarrow> ('w, 'e) daemon \<Rightarrow> ('w, 'e) daemon" where
  "process_event p ev d =
     (case event_verdicts p ev d of
        (vs, d1) \<Rightarrow>
          if vs = [] \<or> isRuntimeAllowlisted d1 (ev_source_ip ev) then d1
          else decide_and_dispatch p vs d1)"

record raw_line =
  rl_source :: string
  rl_line :: string

record parser =
  pr_matches :: "string \<Rightarrow> bool"
  pr_parse :: "raw_line \<Rightarrow> event list \<times> string option"

text \<open>The first parser that matches the source; no parser is no events.\<close>

definition parse_raw :: "parser list \<Rightarrow> raw_line \<Rightarrow> event list \<times> string option" where
  "parse_raw parsers raw =
     (case find_first (\<lambda>q. pr_matches q (rl_source raw)) parsers of None \<Rightarrow> ([], None) | Some q \<Rightarrow> pr_parse q raw)"

text \<open>\<open>pts i\<close> is what the processing of the \<open>i\<close>-th event of the line reads.\<close>

fun process_events :: "(nat \<Rightarrow> ('w, 'e) ports) \<Rightarrow> nat \<Rightarrow> event list \<Rightarrow> ('w, 'e) daemon \<Rightarrow> ('w, 'e) daemon" where
  "process_events pts i [] d = d"
| "process_events pts i (ev # evs) d = process_events pts (Suc i) evs (process_event (pts i) ev d)"

definition processRaw :: "(nat \<Rightarrow> ('w, 'e) ports) \<Rightarrow> parser list \<Rightarrow> raw_line \<Rightarrow> ('w, 'e) daemon \<Rightarrow> ('w, 'e) daemon" where
  "processRaw pts parsers raw d =
     (case parse_raw parsers raw of
        (evs, Some err) \<Rightarrow> d
      | (evs, None) \<Rightarrow> process_events pts 0 (map (\<lambda>ev. ev\<lparr>ev_raw := take EvidenceRawCap (rl_line raw)\<rparr>) evs) d)"

section \<open>The asynchronous AI worker\<close>

text \<open>\<open>clean\<close> is the rune filter of the cleaner.  The flags: a provider was called, it answered.\<close>

definition processAIAsyncItem ::
  "('w, 'e) ports \<Rightarrow> (string \<Rightarrow> string) \<Rightarrow> ai_item \<Rightarrow> ('w, 'e) daemon \<Rightarrow> (bool \<times> bool) \<times> ('w, 'e) daemon" where
  "processAIAsyncItem p clean item d =
     (let ip = ai_ip item in
      if isRuntimeAllowlisted d ip then ((False, False), d)
      else (case aiEligible p ip (ai_rule_score item) d of
              (False, d1) \<Rightarrow> ((False, False), d1)
            | (True, d1) \<Rightarrow>
                let cleaned = fst (CleanAggregates clean (collectAIAggregates p ip d1))
                in if cleaned = [] then ((False, False), d1)
                   else (case consultProvider p ip cleaned d1 of
                           ((vs, answered), d2) \<Rightarrow>
                             if vs = [] then ((True, answered), d2)
                             else
                               let d3 = publishDetections vs d2
                               in if isRuntimeAllowlisted d3 ip then ((True, True), d3)
                                  else (case decide_step p vs d3 of
                                          (Inl e, d4) \<Rightarrow> ((True, True), d4)
                                        | (Inr act, d4) \<Rightarrow> ((True, True), dispatch_action p act d4)))))"

definition runAIAsyncItem ::
  "('w, 'e) ports \<Rightarrow> (string \<Rightarrow> string) \<Rightarrow> ai_item \<Rightarrow> ('w, 'e) daemon \<Rightarrow> bool \<times> ('w, 'e) daemon" where
  "runAIAsyncItem p clean item d =
     (case processAIAsyncItem p clean item d of
        ((called, answered), d1) \<Rightarrow>
          (called, d1\<lparr>dm_ai := map_option (\<lambda>ay. ay\<lparr>ay_queue :=
             map_option (aq_done (pt_wall p) (ai_ip item) answered) (ay_queue ay)\<rparr>) (dm_ai d1)\<rparr>))"

section \<open>The deferred re-check\<close>

definition bump_last_seen :: "('w, 'e) ports \<Rightarrow> addr \<Rightarrow> ('w, 'e) daemon \<Rightarrow> ('w, 'e) daemon" where
  "bump_last_seen p ip d = snd (with_store (writes (BumpLastSeen (pt_clock p) ip)) d)"

definition audit_ip :: "('w, 'e) ports \<Rightarrow> addr \<Rightarrow> string \<Rightarrow> string \<Rightarrow> ('w, 'e) daemon \<Rightarrow> ('w, 'e) daemon" where
  "audit_ip p ip opn reason d =
     snd (with_store (writes (Audit (pt_clock p) (zero_action\<lparr>ac_ip := unmap ip, ac_op := opn, ac_reason := reason\<rparr>))) d)"

definition noteSSHRecheckDropped :: "('w, 'e) ports \<Rightarrow> addr \<Rightarrow> int \<Rightarrow> ('w, 'e) daemon \<Rightarrow> ('w, 'e) daemon" where
  "noteSSHRecheckDropped p ip attempts d =
     bump_last_seen p (unmap ip)
       (audit_ip p ip ''recheck_exhausted''
         (''ssh anti-lockout re-check retry budget exhausted after '' @ int_str attempts @ '' attempts '' @ em_dash
          @ '' would-be ban evidence dropped while the peer held an ESTABLISHED SSH connection'') d)"

definition recheck_later :: "('w, 'e) ports \<Rightarrow> recheck_item \<Rightarrow> ('w, 'e) daemon \<Rightarrow> ('w, 'e) daemon" where
  "recheck_later p it d =
     (case recheck_requeue (ri_ip it) (ri_attempts it + 1) (pt_clock p + defaultSSHRecheckDelay) (ri_ai_verdict it) (dm_recheck d) of
        (True, q) \<Rightarrow> d\<lparr>dm_recheck := q\<rparr>
      | (False, q) \<Rightarrow> noteSSHRecheckDropped p (ri_ip it) (ri_attempts it + 1) d)"

definition recheckAfterAntiLockout :: "('w, 'e) ports \<Rightarrow> ('w, 'e) daemon \<Rightarrow> recheck_item \<Rightarrow> ('w, 'e) daemon" where
  "recheckAfterAntiLockout p d it =
     (let ip = ri_ip it in
      if isRuntimeAllowlisted d ip then d
      else (case evaluateRules p ip True d of
              (vs, d1) \<Rightarrow>
                let vs1 = maybeInjectGeoVerdict p (dm_policy d1) ip vs
                in if vs1 = [] then d1
                   else
                     let vs2 = (case ri_ai_verdict it of None \<Rightarrow> vs1 | Some v \<Rightarrow> if vd_ip v = ip then vs1 @ [v] else vs1)
                     in (case decide_step p vs2 d1 of
                           (Inl e, d2) \<Rightarrow>
                             if e = ErrRateLimited then recheck_later p it (notifyCritical p ''ban rate limit exceeded'' d2) else d2
                         | (Inr act, d2) \<Rightarrow>
                             let d3 = dispatch_action p act d2
                             in if ac_op act = ''record'' \<and> ac_reason act = ReasonAntiLockoutSSHPeer
                                then recheck_later p it d3 else d3)))"

section \<open>The deferred enforcement\<close>

definition stored_target :: "addr \<Rightarrow> action list \<Rightarrow> target option" where
  "stored_target ip bans =
     map_option (\<lambda>b. ban_target (ac_ip b) (ac_ttl b)) (find_first (\<lambda>b. ac_op b = ''ban'' \<and> unmap (ac_ip b) = unmap ip) bans)"

text \<open>\<open>ActiveBans\<close> fails for a bad row as well as for the driver.\<close>

definition active_bans :: "('w, 'e) ports \<Rightarrow> ('w, 'e) daemon \<Rightarrow> (store_error + action list) \<times> ('w, 'e) daemon" where
  "active_bans p d =
     (case with_store (reads (ActiveBans (pt_clock p))) d of
        (Inl e, d1) \<Rightarrow> (Inl e, d1) | (Inr r, d1) \<Rightarrow> (r, d1))"

definition noteGatedBanExhausted :: "('w, 'e) ports \<Rightarrow> addr \<Rightarrow> int \<Rightarrow> ('w, 'e) daemon \<Rightarrow> ('w, 'e) daemon" where
  "noteGatedBanExhausted p ip attempts =
     audit_ip p ip ''enforce_deferred_exhausted''
       (''enforcement gate refused the stored ban on all '' @ int_str attempts
        @ '' deferred attempts (peer still guarded) '' @ em_dash @ '' entry left to the next reconcile'')"

definition retryGatedBan :: "('w, 'e) ports \<Rightarrow> ('w, 'e) daemon \<Rightarrow> recheck_item \<Rightarrow> ('w, 'e) daemon" where
  "retryGatedBan p d it =
     (let ip = ri_ip it; attempts = ri_attempts it + 1 in
      case active_bans p d of
        (Inl e, d1) \<Rightarrow> d1
      | (Inr bans, d1) \<Rightarrow>
          (case stored_target ip bans of
             None \<Rightarrow> d1
           | Some t \<Rightarrow>
               (case dm_gate d1 of
                  None \<Rightarrow> d1
                | Some g \<Rightarrow>
                    (case gate_ban p g t d1 of
                       (None, d2) \<Rightarrow> record_enforce p ''ban'' None d2
                     | (Some e, d2) \<Rightarrow>
                         if is_gate_refused e then
                           (case recheck_requeue ip attempts (pt_clock p + defaultSSHRecheckDelay) None (dm_gated d2) of
                              (True, q) \<Rightarrow> d2\<lparr>dm_gated := q\<rparr>
                            | (False, q) \<Rightarrow> noteGatedBanExhausted p ip attempts d2)
                         else record_enforce p ''ban'' (Some e) (notifyEnforcerFailure p ip e d2)))))"

text \<open>One apostrophe of the loop: the due re-checks, then the due enforcement retries.\<close>

definition recheck_tick_step ::
  "('w, 'e) ports \<Rightarrow> time \<Rightarrow> addr list \<Rightarrow> addr list \<Rightarrow> ('w, 'e) daemon \<Rightarrow> ('w, 'e) daemon" where
  "recheck_tick_step p now order1 order2 d =
     (case recheck_pop now order1 (dm_recheck d) of
        (items, q) \<Rightarrow>
          let d1 = foldl (recheckAfterAntiLockout p) (d\<lparr>dm_recheck := q\<rparr>) items
          in (case recheck_pop now order2 (dm_gated d1) of
                (items2, q2) \<Rightarrow> foldl (retryGatedBan p) (d1\<lparr>dm_gated := q2\<rparr>) items2))"

section \<open>The reconcile\<close>

definition wanted_targets :: "('w, 'e) daemon \<Rightarrow> action list \<Rightarrow> target list" where
  "wanted_targets d bans =
     map (\<lambda>b. ban_target (ac_ip b) (ac_ttl b))
       (filter (\<lambda>b. ac_op b = ''ban'' \<and> \<not> isRuntimeAllowlisted d (ac_ip b)) bans)"

definition both_ways :: string where "both_ways = [CHR 0xE2, CHR 0x86, CHR 0x94]"

definition audit_repairs :: "('w, 'e) ports \<Rightarrow> int \<times> int \<times> bool \<Rightarrow> ('w, 'e) daemon \<Rightarrow> ('w, 'e) daemon" where
  "audit_repairs p rep d =
     (case rep of (nadd, nrem, firstSync) \<Rightarrow>
        if (nadd > 0 \<or> nrem > 0) \<and> \<not> firstSync
        then snd (with_store (writes (AuditSystem (pt_clock p) ''enforce_reconcile''
               (''reconcile repaired store'' @ both_ways @ ''kernel drift: re-added '' @ int_str nadd @ '', removed '' @ int_str nrem))) d)
        else d)"

datatype sync_error = LoadBans store_error | SyncFailed enf_error

definition syncEnforcer :: "('w, 'e) ports \<Rightarrow> ('w, 'e) daemon \<Rightarrow> sync_error option \<times> ('w, 'e) daemon" where
  "syncEnforcer p d =
     (case dm_gate d of
        None \<Rightarrow> (None, d)
      | Some g \<Rightarrow>
          (case active_bans p d of
             (Inl e, d1) \<Rightarrow> (Some (LoadBans e), d1)
           | (Inr bans, d1) \<Rightarrow>
               (case Gate_Sync (pt_inner p) g (pt_view p) (wanted_targets d1 bans) (dm_fw d1) of
                  (r, fw) \<Rightarrow>
                    let d2 = record_enforce p ''sync'' r (d1\<lparr>dm_fw := fw\<rparr>)
                    in case r of
                         None \<Rightarrow> (None, audit_repairs p (Gate_LastSyncRepairs (pt_inner p) fw) d2)
                       | Some e \<Rightarrow> (Some (SyncFailed e), d2))))"

section \<open>The runtime allowlist\<close>

definition list_allow :: "('w, 'e) daemon \<Rightarrow> (store_error + allow_entry list) \<times> ('w, 'e) daemon" where
  "list_allow d = (case with_store (reads ListAllow) d of (Inl e, d1) \<Rightarrow> (Inl e, d1) | (Inr r, d1) \<Rightarrow> (r, d1))"

definition reloadAllowlist :: "('w, 'e) daemon \<Rightarrow> store_error option \<times> ('w, 'e) daemon" where
  "reloadAllowlist d =
     (case list_allow d of
        (Inl e, d1) \<Rightarrow> (Some e, d1)
      | (Inr entries, d1) \<Rightarrow>
          let ps = map ae_prefix entries
          in (None, d1\<lparr>dm_runtime := ps, dm_gate := map_option (SetExtraAllowlist ps) (dm_gate d1)\<rparr>))"

definition syncEnforcerAllowlist :: "('w, 'e) ports \<Rightarrow> ('w, 'e) daemon \<Rightarrow> enf_error option \<times> ('w, 'e) daemon" where
  "syncEnforcerAllowlist p d =
     (case dm_gate d of
        None \<Rightarrow> (None, d)
      | Some g \<Rightarrow>
          (case Gate_SyncAllowlist (pt_inner p) (unionPrefixes (dm_static d) (dm_runtime d)) (dm_fw d) of
             (r, fw) \<Rightarrow> (r, d\<lparr>dm_fw := fw\<rparr>)))"

section \<open>Sweeps\<close>

definition flushAggregates :: "addr list \<Rightarrow> time \<Rightarrow> ('w, 'e) daemon \<Rightarrow> ('w, 'e) daemon" where
  "flushAggregates order now d =
     (let d1 = d\<lparr>dm_agg := agg_flush order (now - gg_max_window (dm_agg d)) (dm_agg d)\<rparr>;
          longest = foldl (\<lambda>m (w, kinds). if w > m then w else m) 0 (dm_long_windows d1)
      in if longest > 0
         then snd (with_store (PruneEventCounts (HourBucket (now - longest - Hour))) d1)
         else d1)"

definition expire_bans_tick :: "('w, 'e) ports \<Rightarrow> time \<Rightarrow> ('w, 'e) daemon \<Rightarrow> ('w, 'e) daemon" where
  "expire_bans_tick p now d =
     (case with_store (ExpireBans now) d of
        (Inl e, d1) \<Rightarrow> d1
      | (Inr n, d1) \<Rightarrow> if n > 0 then snd (syncEnforcer p d1) else d1)"

definition expire_allows_tick :: "('w, 'e) ports \<Rightarrow> time \<Rightarrow> ('w, 'e) daemon \<Rightarrow> ('w, 'e) daemon" where
  "expire_allows_tick p now d =
     (case with_store (ExpireAllows now) d of
        (Inl e, d1) \<Rightarrow> d1
      | (Inr n, d1) \<Rightarrow> if n > 0 then snd (syncEnforcerAllowlist p (snd (reloadAllowlist d1))) else d1)"

end
