(* ===== verification/Reports.thy ===== *)
theory Reports
  imports Daemon
begin

text \<open>
  The read-only \<open>report\<close> verb: the queries of \<open>internal/store/report.go\<close> and the handlers of
  \<open>internal/daemon/report.go\<close>.  Timestamps are kept as instants instead of their RFC 3339 text; the
  order of texts that the listing uses is written out (\<open>newest_first\<close>).  Log evidence is a
  parameter: what the scan of the log files found.
\<close>

section \<open>Queries\<close>

definition reportLimitCap :: int where "reportLimitCap = 1000"

definition clampReportLimit :: "int \<Rightarrow> int" where
  "clampReportLimit limit = (if limit \<le> 0 then 1 else if limit > reportLimitCap then reportLimitCap else limit)"

record offender_record =
  or_ip :: addr
  or_first_seen :: time
  or_last_seen :: time
  or_total_strikes :: int

definition offender_of :: "addr \<times> offender_row \<Rightarrow> offender_record" where
  "offender_of = (\<lambda>(ip, r). \<lparr>or_ip = ip, or_first_seen = of_first_seen r, or_last_seen = of_last_seen r,
     or_total_strikes = of_total_strikes r\<rparr>)"

definition GetOffender :: "addr \<Rightarrow> db \<Rightarrow> offender_record option" where
  "GetOffender ip d = map_option (\<lambda>r. offender_of (ip, r)) (gm_get (db_offenders d) ip)"

definition StrikesForIP :: "addr \<Rightarrow> int \<Rightarrow> db \<Rightarrow> strike_row list" where
  "StrikesForIP ip limit d =
     take (nat (clampReportLimit limit)) (rev (sort_key sr_id (filter (\<lambda>r. sr_ip r = ip) (db_strikes d))))"

definition AuditLogForIP :: "addr \<Rightarrow> int \<Rightarrow> db \<Rightarrow> audit_row list" where
  "AuditLogForIP ip limit d =
     take (nat (clampReportLimit limit)) (rev (sort_key au_id (filter (\<lambda>r. au_ip r = SubIP ip) (db_audit d))))"

record ban_record =
  bn_banned_at :: time
  bn_expires_at :: "time option"
  bn_permanent :: bool
  bn_strike :: int
  bn_reason :: string

definition ActiveBanForIP :: "addr \<Rightarrow> db \<Rightarrow> ban_record option" where
  "ActiveBanForIP ip d =
     map_option (\<lambda>r. \<lparr>bn_banned_at = br_banned_at r, bn_expires_at = br_expires_at r,
         bn_permanent = (br_expires_at r = None), bn_strike = br_strike r, bn_reason = br_reason r\<rparr>)
       (gm_get (db_bans d) ip)"

record offender_summary =
  os_record :: offender_record
  os_banned :: bool
  os_permanent :: bool

definition summary_of :: "db \<Rightarrow> addr \<times> offender_row \<Rightarrow> offender_summary" where
  "summary_of d = (\<lambda>(ip, r).
     let b = gm_get (db_bans d) ip
     in \<lparr>os_record = offender_of (ip, r), os_banned = (b \<noteq> None),
         os_permanent = (case b of None \<Rightarrow> False | Some row \<Rightarrow> br_expires_at row = None)\<rparr>)"

text \<open>
  \<open>ORDER BY last_seen DESC, ip\<close>: stable sorts, least significant key first.  The order of two
  timestamps is that of their texts, the second and then what follows it.
\<close>

definition newest_first :: "offender_summary list \<Rightarrow> offender_summary list" where
  "newest_first os =
     (let by_ip = sort_key (\<lambda>x. addr_str (or_ip (os_record x))) os;
          by_suffix = sort_key (\<lambda>x. col_suffix (or_last_seen (os_record x))) (rev by_ip)
      in rev (sort_key (\<lambda>x. or_last_seen (os_record x) div Second) by_suffix))"

definition ListOffenders :: "bool \<Rightarrow> int \<Rightarrow> db \<Rightarrow> offender_summary list" where
  "ListOffenders permanentOnly limit d =
     take (nat (clampReportLimit limit))
       (newest_first (filter (\<lambda>x. \<not> permanentOnly \<or> os_permanent x) (map (summary_of d) (db_offenders d))))"

section \<open>The handlers\<close>

definition reportDefaultLimit :: int where "reportDefaultLimit = 100"

definition asnString :: "int \<Rightarrow> string" where
  "asnString n = (if n = 0 then [] else ''AS'' @ int_str n)"

text \<open>Country and ASN as the enricher knows them, empty without one.\<close>

definition geo_labels :: "('w, 'e) ports \<Rightarrow> addr \<Rightarrow> string \<times> string" where
  "geo_labels p ip =
     (case pt_geo p of None \<Rightarrow> ([], []) | Some lookup \<Rightarrow> (er_country (lookup ip), asnString (er_asn (lookup ip))))"

record report_summary =
  rp_offender :: offender_summary
  rp_labels :: "string \<times> string"

record abuse_report =
  ab_generated_at :: time
  ab_ip :: addr
  ab_offender :: "offender_record option"
  ab_labels :: "string \<times> string"
  ab_asn_org :: string
  ab_current_ban :: "ban_record option"
  ab_strikes :: "(time \<times> int \<times> int \<times> string \<times> verdict list) list"
  ab_actions :: "(time \<times> string \<times> int \<times> int \<times> string) list"
  ab_evidence :: "string list"

definition reportStrikes :: "strike_row list \<Rightarrow> (time \<times> int \<times> int \<times> string \<times> verdict list) list" where
  "reportStrikes rows = map (\<lambda>r. (sr_recorded_at r, sr_strike_num r, sr_ttl_seconds r, sr_reason r, sr_verdicts r)) rows"

definition reportActions :: "audit_row list \<Rightarrow> (time \<times> string \<times> int \<times> int \<times> string) list" where
  "reportActions rows = map (\<lambda>r. (au_recorded_at r, au_op r, au_ttl_seconds r, au_strike r, au_reason r)) rows"

datatype report_error =
    ReportTarget string
  | ReportFilter string
  | ReportStore string store_error
  | NoRecords addr

text \<open>The four queries run in order, the first failure ends the report.\<close>

definition buildAbuseReport ::
  "('w, 'e) ports \<Rightarrow> (addr \<Rightarrow> string list) \<Rightarrow> addr \<Rightarrow> int \<Rightarrow> bool \<Rightarrow> ('w, 'e) daemon \<Rightarrow> (report_error + abuse_report) \<times> ('w, 'e) daemon" where
  "buildAbuseReport p evidence_of ip limit evidence d =
     (case with_store (reads (GetOffender ip)) d of
        (Inl e, d1) \<Rightarrow> (Inl (ReportStore ''offender lookup'' e), d1)
      | (Inr offender, d1) \<Rightarrow>
          (case with_store (reads (ActiveBanForIP ip)) d1 of
             (Inl e, d2) \<Rightarrow> (Inl (ReportStore ''ban lookup'' e), d2)
           | (Inr ban, d2) \<Rightarrow>
               if offender = None \<and> ban = None then (Inl (NoRecords ip), d2)
               else (case with_store (reads (StrikesForIP ip limit)) d2 of
                       (Inl e, d3) \<Rightarrow> (Inl (ReportStore ''strike history'' e), d3)
                     | (Inr strikes, d3) \<Rightarrow>
                         (case with_store (reads (AuditLogForIP ip limit)) d3 of
                            (Inl e, d4) \<Rightarrow> (Inl (ReportStore ''audit trail'' e), d4)
                          | (Inr actions, d4) \<Rightarrow>
                              (Inr \<lparr>ab_generated_at = pt_wall p, ab_ip = ip, ab_offender = offender,
                                 ab_labels = geo_labels p ip,
                                 ab_asn_org = (case pt_geo p of None \<Rightarrow> [] | Some lookup \<Rightarrow> er_asn_org (lookup ip)),
                                 ab_current_ban = ban, ab_strikes = reportStrikes strikes,
                                 ab_actions = reportActions actions,
                                 ab_evidence = (if evidence then evidence_of ip else [])\<rparr>, d4)))))"

definition handleReportList ::
  "('w, 'e) ports \<Rightarrow> string \<Rightarrow> int \<Rightarrow> ('w, 'e) daemon \<Rightarrow> (report_error + report_summary list) \<times> ('w, 'e) daemon" where
  "handleReportList p flt limit d =
     (if flt \<notin> {[], ''all'', ''permanent''} then (Inl (ReportFilter flt), d)
      else (case with_store (reads (ListOffenders (flt = ''permanent'') limit)) d of
              (Inl e, d1) \<Rightarrow> (Inl (ReportStore ''list offenders'' e), d1)
            | (Inr os, d1) \<Rightarrow>
                (Inr (map (\<lambda>x. \<lparr>rp_offender = x, rp_labels = geo_labels p (or_ip (os_record x))\<rparr>) os), d1)))"

definition report_limit :: "int \<Rightarrow> int" where
  "report_limit limit = (if limit \<le> 0 then reportDefaultLimit else limit)"

section \<open>What the queries answer\<close>

lemma clampReportLimit_range: "1 \<le> clampReportLimit n \<and> clampReportLimit n \<le> 1000"
  by (simp add: clampReportLimit_def reportLimitCap_def)

lemma set_newest_first [simp]: "set (newest_first os) = set os"
  by (simp add: newest_first_def Let_def)

text \<open>No listing is longer than the cap, and the permanent listing lists permanent bans only.\<close>

lemma ListOffenders_bounded: "length (ListOffenders perm limit d) \<le> 1000"
  using clampReportLimit_range [of limit] by (auto simp: ListOffenders_def intro: min.coboundedI2)

lemma ListOffenders_permanent:
  assumes "x \<in> set (ListOffenders True limit d)"
  shows "\<exists>row. gm_get (db_bans d) (or_ip (os_record x)) = Some row \<and> br_expires_at row = None"
  using set_take_subset [THEN subsetD, OF assms [unfolded ListOffenders_def]]
  by (auto simp: summary_of_def offender_of_def Let_def split: option.splits)

lemma StrikesForIP_only: "r \<in> set (StrikesForIP ip limit d) \<Longrightarrow> r \<in> set (db_strikes d) \<and> sr_ip r = ip"
  by (auto simp: StrikesForIP_def dest: in_set_takeD)

text \<open>Strikes are answered newest first.\<close>

lemma sorted_wrt_take: "sorted_wrt R xs \<Longrightarrow> sorted_wrt R (take n xs)"
  using sorted_wrt_append [of R "take n xs" "drop n xs"] by simp

lemma StrikesForIP_newest: "sorted_wrt (\<lambda>a b. sr_id b \<le> sr_id a) (StrikesForIP ip limit d)"
proof -
  have "sorted_wrt (\<lambda>a b. sr_id a \<le> sr_id b) (sort_key sr_id xs)" for xs
    using sorted_sort_key [of sr_id xs] by (simp add: sorted_map)
  then show ?thesis unfolding StrikesForIP_def by (intro sorted_wrt_take) (simp add: sorted_wrt_rev)
qed

end
