(* ===== verification/GoTime.thy ===== *)
theory GoTime
  imports GoText
begin

text \<open>
  Calendar dates and the timestamp texts the daemon writes and reads: \<open>Time.Format\<close> and
  \<open>time.Parse\<close> of Go for the layouts RFC 3339 (with and without fraction), date-time without zone,
  and date.  All instants are UTC.  Main result: parsing a formatted instant gives it back, cut to
  the second.
\<close>

section \<open>The calendar\<close>

definition leap_year :: "int \<Rightarrow> bool" where
  "leap_year y \<longleftrightarrow> y mod 4 = 0 \<and> (y mod 100 \<noteq> 0 \<or> y mod 400 = 0)"

text \<open>Days since 0001-01-01.\<close>

definition days_before_year :: "int \<Rightarrow> int" where
  "days_before_year y = 365 * (y - 1) + (y - 1) div 4 - (y - 1) div 100 + (y - 1) div 400"

definition month_starts :: "bool \<Rightarrow> int list" where
  "month_starts leap = map (\<lambda>n. if leap \<and> n > 31 then n + 1 else n)
     [0, 31, 59, 90, 120, 151, 181, 212, 243, 273, 304, 334, 365]"

definition days_in :: "int \<Rightarrow> int \<Rightarrow> int" where
  "days_in m y = month_starts (leap_year y) ! nat m - month_starts (leap_year y) ! nat (m - 1)"

definition day_number :: "int \<Rightarrow> int \<Rightarrow> int \<Rightarrow> int" where
  "day_number y m d = days_before_year y + month_starts (leap_year y) ! nat (m - 1) + (d - 1)"

text \<open>Cycles of 400, 100, 4 and 1 years; the last day of a cycle belongs to its last part.\<close>

definition year_and_day :: "int \<Rightarrow> int \<times> int" where
  "year_and_day n =
     (let e = n div 146097; r1 = n mod 146097;
          c = min 3 (r1 div 36524); r2 = r1 - 36524 * c;
          q = r2 div 1461; r3 = r2 - 1461 * q;
          a = min 3 (r3 div 365)
      in (400 * e + 100 * c + 4 * q + a + 1, r3 - 365 * a))"

definition civil :: "int \<Rightarrow> int \<times> int \<times> int" where
  "civil n =
     (let (y, yd) = year_and_day n; starts = month_starts (leap_year y);
          m = length (filter (\<lambda>st. st \<le> yd) starts)
      in (y, int m, yd - starts ! (m - 1) + 1))"

definition epoch_day :: int where "epoch_day = 719162"

section \<open>Formatting\<close>

definition pad :: "nat \<Rightarrow> int \<Rightarrow> string" where
  "pad w x =
     (let s = nat_str (nat \<bar>x\<bar>)
      in (if x < 0 then ''-'' else []) @ replicate (w - length s) (CHR ''0'') @ s)"

definition fmt_date :: "time \<Rightarrow> string" where
  "fmt_date t =
     (case civil (time_unix t div 86400 + epoch_day) of
        (y, m, d) \<Rightarrow> pad 4 y @ CHR ''-'' # pad 2 m @ CHR ''-'' # pad 2 d)"

definition fmt_rfc3339 :: "time \<Rightarrow> string" where
  "fmt_rfc3339 t =
     (let s = time_unix t mod 86400
      in fmt_date t @ CHR ''T'' # pad 2 (s div 3600) @ CHR '':'' # pad 2 (s div 60 mod 60) @ CHR '':'' # pad 2 (s mod 60) @ ''Z'')"

section \<open>Parsing\<close>

type_synonym 'a reader = "string \<Rightarrow> ('a \<times> string) option"

definition getnum :: "bool \<Rightarrow> int reader" where
  "getnum fixed s =
     (case s of
        [] \<Rightarrow> None
      | c # t \<Rightarrow>
          if \<not> is_digit c then None
          else if t \<noteq> [] \<and> is_digit (hd t) then Some (int (digits_val [c, hd t]), tl t)
          else if fixed then None
          else Some (int (digit_val c), t))"

definition lit :: "char \<Rightarrow> unit reader" where
  "lit c s = (case s of [] \<Rightarrow> None | x # t \<Rightarrow> if x = c then Some ((), t) else None)"

definition year4 :: "int reader" where
  "year4 s = (if length s < 4 \<or> \<not> list_all is_digit (take 4 s) then None else Some (int (digits_val (take 4 s)), drop 4 s))"

definition and_then :: "'a reader \<Rightarrow> ('a \<Rightarrow> 'b reader) \<Rightarrow> 'b reader" where
  "and_then f g s = (case f s of None \<Rightarrow> None | Some (x, r) \<Rightarrow> g x r)"

definition ret :: "'a \<Rightarrow> 'a reader" where "ret x s = Some (x, s)"
definition fails :: "'a reader" where "fails s = None"

definition in_range :: "int \<Rightarrow> int \<Rightarrow> bool \<Rightarrow> int reader" where
  "in_range lo hi fixed = and_then (getnum fixed) (\<lambda>n. if lo \<le> n \<and> n \<le> hi then ret n else fails)"

definition read_date :: "int reader" where
  "read_date =
     and_then year4 (\<lambda>y. and_then (lit (CHR ''-'')) (\<lambda>_.
     and_then (in_range 1 12 True) (\<lambda>m. and_then (lit (CHR ''-'')) (\<lambda>_.
     and_then (getnum True) (\<lambda>d. if 1 \<le> d \<and> d \<le> days_in m y then ret (day_number y m d - epoch_day) else fails)))))"

text \<open>A fraction is accepted after the seconds whether or not the layout names one; digits after the ninth are dropped.\<close>

definition read_fraction :: "int reader" where
  "read_fraction s =
     (if length s \<ge> 2 \<and> hd s \<in> {CHR ''.'', CHR '',''} \<and> is_digit (s ! 1) then
        (let ds = takeWhile is_digit (tl s); top = take 9 ds
         in Some (int (digits_val top) * 10 ^ (9 - length top), drop (Suc (length ds)) s))
      else Some (0, s))"

definition read_clock :: "int reader" where
  "read_clock =
     and_then (lit (CHR ''T'')) (\<lambda>_.
     and_then (in_range 0 23 False) (\<lambda>h. and_then (lit (CHR '':'')) (\<lambda>_.
     and_then (in_range 0 59 True) (\<lambda>m. and_then (lit (CHR '':'')) (\<lambda>_.
     and_then (in_range 0 59 True) (\<lambda>s. and_then read_fraction (\<lambda>ns. ret ((h * 3600 + m * 60 + s) * Second + ns))))))))"

text \<open>The zone: the range test is \<open>>\<close>, not \<open>\<ge>\<close>, in Go.\<close>

definition read_zone :: "duration reader" where
  "read_zone s =
     (case s of
        [] \<Rightarrow> None
      | c # t \<Rightarrow>
          if c = CHR ''Z'' then Some (0, t)
          else and_then (in_range 0 24 True) (\<lambda>hh. and_then (lit (CHR '':'')) (\<lambda>_. and_then (in_range 0 60 True) (\<lambda>mm.
                 let off = (hh * 60 + mm) * Minute
                 in if c = CHR ''+'' then ret off else if c = CHR ''-'' then ret (- off) else fails))) t)"

definition all_of :: "'a reader \<Rightarrow> string \<Rightarrow> 'a option" where
  "all_of f s = (case f s of Some (x, []) \<Rightarrow> Some x | _ \<Rightarrow> None)"

definition parse_rfc3339 :: "string \<Rightarrow> time option" where
  "parse_rfc3339 = all_of (and_then read_date (\<lambda>d. and_then read_clock (\<lambda>c. and_then read_zone (\<lambda>off.
     ret (d * (24 * Hour) + c - off)))))"

definition parse_datetime :: "string \<Rightarrow> time option" where
  "parse_datetime = all_of (and_then read_date (\<lambda>d. and_then read_clock (\<lambda>c. ret (d * (24 * Hour) + c))))"

definition parse_date :: "string \<Rightarrow> time option" where
  "parse_date = all_of (and_then read_date (\<lambda>d. ret (d * (24 * Hour))))"

section \<open>The calendar is exact\<close>

lemma succ_mod_zero:
  fixes b k r :: int
  assumes "0 \<le> r" and "r < b"
  shows "(b * k + r + 1) mod b = 0 \<longleftrightarrow> r = b - 1"
proof
  assume "(b * k + r + 1) mod b = 0"
  then have "b dvd r + 1" by (metis add.assoc dvd_add_times_triv_left_iff mod_0_imp_dvd mult.commute)
  then show "r = b - 1" using zdvd_imp_le [of b "r + 1"] assms by linarith
next
  assume "r = b - 1"
  then have "b * k + r + 1 = b * (k + 1)" by (simp add: algebra_simps)
  then show "(b * k + r + 1) mod b = 0" by simp
qed

lemma year_cycles:
  fixes e c q a :: int
  assumes "0 \<le> c" "c \<le> 3" "0 \<le> q" "q \<le> 24" "0 \<le> a" "a \<le> 3"
  shows "days_before_year (400 * e + 100 * c + 4 * q + a + 1) = 146097 * e + 36524 * c + 1461 * q + 365 * a"
    and "leap_year (400 * e + 100 * c + 4 * q + a + 1) \<longleftrightarrow> a = 3 \<and> (q = 24 \<longrightarrow> c = 3)"
proof -
  let ?z = "400 * e + 100 * c + 4 * q + a"
  have z: "?z = 4 * (100 * e + 25 * c + q) + a" "?z = 100 * (4 * e + c) + (4 * q + a)" "?z = 400 * e + (100 * c + 4 * q + a)"
    by simp_all
  have d4: "?z div 4 = 100 * e + 25 * c + q" using assms by (intro int_div_pos_eq [OF z(1)]) simp_all
  have d100: "?z div 100 = 4 * e + c" using assms by (intro int_div_pos_eq [OF z(2)]) simp_all
  have d400: "?z div 400 = e" using assms by (intro int_div_pos_eq [OF z(3)]) simp_all
  show "days_before_year (?z + 1) = 146097 * e + 36524 * c + 1461 * q + 365 * a"
    by (simp add: days_before_year_def d4 d100 d400)
  have m4: "(?z + 1) mod 4 = 0 \<longleftrightarrow> a = 3"
    unfolding z(1) using succ_mod_zero [of a 4 "100 * e + 25 * c + q"] assms by simp
  have m100: "(?z + 1) mod 100 = 0 \<longleftrightarrow> 4 * q + a = 99"
    unfolding z(2) using succ_mod_zero [of "4 * q + a" 100 "4 * e + c"] assms by simp
  have m400: "(?z + 1) mod 400 = 0 \<longleftrightarrow> 100 * c + 4 * q + a = 399"
    unfolding z(3) using succ_mod_zero [of "100 * c + 4 * q + a" 400 e] assms by simp
  have "4 * q + a = 99 \<longleftrightarrow> q = 24 \<and> a = 3" "100 * c + 4 * q + a = 399 \<longleftrightarrow> c = 3 \<and> q = 24 \<and> a = 3"
    using assms by linarith+
  then show "leap_year (?z + 1) \<longleftrightarrow> a = 3 \<and> (q = 24 \<longrightarrow> c = 3)"
    unfolding leap_year_def m4 m100 m400 by blast
qed

text \<open>A cycle of four parts of length \<open>k\<close> and one more day.\<close>

lemma cycle_split:
  fixes r k :: int
  defines "c \<equiv> min 3 (r div k)"
  assumes "0 \<le> r" and "r \<le> 4 * k" and "0 < k"
  shows "0 \<le> c" and "c \<le> 3" and "0 \<le> r - k * c" and "r - k * c \<le> k" and "c < 3 \<Longrightarrow> r - k * c < k"
proof -
  have rk: "r = k * (r div k) + r mod k" "0 \<le> r mod k" "r mod k < k" using assms(4) by simp_all
  have pos: "0 \<le> r div k" using assms(2,4) by (simp add: pos_imp_zdiv_nonneg_iff)
  show "0 \<le> c" "c \<le> 3" using pos by (simp_all add: c_def)
  have small: "r - k * c = r mod k" if "r div k < 3" using that by (simp add: c_def minus_mult_div_eq_mod)
  have big: "r - k * c = r - 3 * k \<and> 3 * k \<le> r" if big: "3 \<le> r div k"
  proof -
    have "k * 3 \<le> k * (r div k)" using big assms(4) by (intro mult_left_mono) simp_all
    then have "3 * k \<le> r" using rk(1,2) by linarith
    then show ?thesis using big by (simp add: c_def)
  qed
  show "0 \<le> r - k * c" "r - k * c \<le> k" using small big rk assms(3) by (cases "r div k < 3"; force)+
  show "r - k * c < k" if c3: "c < 3"
  proof -
    have "r div k < 3" using c3 by (simp add: c_def min_def split: if_splits)
    then show ?thesis using small rk(3) by linarith
  qed
qed

lemma year_and_day_spec:
  assumes "year_and_day n = (y, yd)"
  shows "days_before_year y + yd = n" and "0 \<le> yd" and "yd < (if leap_year y then 366 else 365)"
proof -
  define e where "e = n div 146097"
  define r1 where "r1 = n mod 146097"
  define c where "c = min 3 (r1 div 36524)"
  define r2 where "r2 = r1 - 36524 * c"
  define q where "q = r2 div 1461"
  define r3 where "r3 = r2 - 1461 * q"
  define a where "a = min 3 (r3 div 365)"
  have r1: "0 \<le> r1" "r1 < 146097" by (simp_all add: r1_def)
  have c: "0 \<le> c" "c \<le> 3" "0 \<le> r2" "r2 \<le> 36524" "c < 3 \<Longrightarrow> r2 \<le> 36523"
    using cycle_split [of r1 36524] r1 unfolding c_def r2_def by simp_all
  have r3: "r3 = r2 mod 1461" by (simp add: r3_def q_def minus_mult_div_eq_mod)
  have q: "0 \<le> q" "q \<le> 24" "0 \<le> r3" "r3 \<le> 1460"
    using c(3) zdiv_mono1 [OF c(4), of 1461] by (simp_all add: q_def pos_imp_zdiv_nonneg_iff r3)
  have q24: "q = 24 \<Longrightarrow> c < 3 \<Longrightarrow> r3 \<le> 1459" using c(5) unfolding r3_def by linarith
  have a: "0 \<le> a" "a \<le> 3" "0 \<le> r3 - 365 * a" "a < 3 \<Longrightarrow> r3 - 365 * a < 365"
    using cycle_split [of r3 365] q unfolding a_def by simp_all
  have "400 * e + 100 * c + 4 * q + a + 1 = y \<and> r3 - 365 * a = yd"
    using assms unfolding year_and_day_def Let_def prod.inject e_def [symmetric] r1_def [symmetric] c_def [symmetric]
      r2_def [symmetric] q_def [symmetric] r3_def [symmetric] a_def [symmetric] .
  then have y: "y = 400 * e + 100 * c + 4 * q + a + 1" and yd: "yd = r3 - 365 * a" by simp_all
  have n: "n = 146097 * e + r1" by (simp add: e_def r1_def)
  show "days_before_year y + yd = n"
    using year_cycles(1) [OF c(1,2) q(1,2) a(1,2), of e] by (simp add: y yd n r2_def r3_def)
  show "0 \<le> yd" using a by (simp add: yd)
  have "a = 3 \<Longrightarrow> q = 24 \<Longrightarrow> c < 3 \<Longrightarrow> yd < 365" using q24 by (simp add: yd)
  moreover have "a = 3 \<Longrightarrow> yd < 366" using q by (simp add: yd)
  ultimately show "yd < (if leap_year y then 366 else 365)"
    using year_cycles(2) [OF c(1,2) q(1,2) a(1,2), of e] a c unfolding y yd by (cases "a = 3") auto
qed

lemma filter_le_takeWhile:
  fixes xs :: "int list"
  shows "sorted xs \<Longrightarrow> filter (\<lambda>st. st \<le> v) xs = takeWhile (\<lambda>st. st \<le> v) xs"
proof (induction xs)
  case (Cons x xs)
  then show ?case by (cases "x \<le> v"; cases xs) (auto simp: filter_empty_conv)
qed simp

lemma month_starts_facts: "sorted (month_starts leap)" "length (month_starts leap) = 13" "month_starts leap ! 0 = 0"
    "month_starts leap ! 12 = (if leap then 366 else 365)"
  by (simp_all add: month_starts_def)

lemma month_search:
  fixes leap v
  defines "m \<equiv> length (filter (\<lambda>st. st \<le> v) (month_starts leap))"
  assumes "0 \<le> v" and "v < (if leap then 366 else 365)"
  shows "1 \<le> m" and "m \<le> 12" and "month_starts leap ! (m - 1) \<le> v" and "v < month_starts leap ! m"
proof -
  let ?xs = "month_starts leap"
  define T where "T = takeWhile (\<lambda>st. st \<le> v) ?xs"
  have m: "m = length T"
    by (simp add: m_def T_def filter_le_takeWhile month_starts_facts(1))
  have T: "T ! i = ?xs ! i \<and> T ! i \<le> v" if i: "i < length T" for i
    using takeWhile_nth [of i "\<lambda>st. st \<le> v" ?xs] set_takeWhileD [OF nth_mem, of i "\<lambda>st. st \<le> v" ?xs] i
    unfolding T_def by metis
  have len: "m \<le> 13" using length_takeWhile_le [of "\<lambda>st. st \<le> v" ?xs] month_starts_facts(2) [of leap]
    unfolding m T_def by linarith
  have "\<not> ?xs ! 12 \<le> v" using assms(3) month_starts_facts(4) [of leap] by (simp split: if_splits)
  then have "\<not> 12 < m" using T [of 12] unfolding m by metis
  with len show le: "m \<le> 12" by linarith
  have "takeWhile (\<lambda>st. st \<le> v) ?xs \<noteq> []" using assms(2) by (simp add: month_starts_def)
  then show ge: "1 \<le> m" unfolding m T_def by (metis length_greater_0_conv less_eq_Suc_le One_nat_def)
  show "?xs ! (m - 1) \<le> v" using T [of "m - 1"] ge unfolding m by (metis One_nat_def diff_less less_le_trans zero_less_one)
  show "v < ?xs ! m"
    using nth_length_takeWhile [of "\<lambda>st. st \<le> v" ?xs] le month_starts_facts(2) [of leap] unfolding m T_def by simp
qed

lemma civil_spec:
  assumes "civil n = (y, m, d)"
  shows "day_number y m d = n" and "1 \<le> m" and "m \<le> 12" and "1 \<le> d" and "d \<le> days_in m y"
proof -
  obtain y' yd where yy: "year_and_day n = (y', yd)" by fastforce
  let ?xs = "month_starts (leap_year y')"
  define k where "k = length (filter (\<lambda>st. st \<le> yd) ?xs)"
  have "y = y' \<and> m = int k \<and> d = yd - ?xs ! (k - 1) + 1"
    using assms unfolding civil_def yy Let_def prod.case k_def [symmetric] prod.inject by metis
  note eq = this [THEN conjunct1] this [THEN conjunct2, THEN conjunct1] this [THEN conjunct2, THEN conjunct2]
  note spec = year_and_day_spec [OF yy]
  note k = month_search [OF spec(2,3), folded k_def]
  have km: "nat (int k - 1) = k - 1" using k(1) by simp
  show "day_number y m d = n" using spec(1) by (simp add: day_number_def eq km)
  show "1 \<le> m" "m \<le> 12" using k(1,2) by (simp_all add: eq)
  show "1 \<le> d" using k(3) by (simp add: eq)
  show "d \<le> days_in m y" using k(4) by (simp add: eq days_in_def km)
qed

section \<open>Reading what was written\<close>

lemma pad_two: "0 \<le> x \<Longrightarrow> x < 100 \<Longrightarrow> pad 2 x = [digit_char (nat x div 10), digit_char (nat x mod 10)]"
  by (cases "x < 10") (auto simp: pad_def nat_str.simps [of "nat x"] nat_str.simps [of "nat x div 10"] digit_char_zero Let_def)

lemma getnum_pad: "0 \<le> x \<Longrightarrow> x < 100 \<Longrightarrow> getnum b (pad 2 x @ r) = Some (x, r)"
  by (simp add: getnum_def pad_two digits_val_def)

lemma digits_val_zeros: "digits_val (replicate k (CHR ''0'') @ s) = digits_val s"
proof -
  have "foldl (\<lambda>n c. 10 * n + digit_val c) 0 (replicate k (CHR ''0'')) = 0"
    by (induction k) (simp_all add: digit_val_def)
  then show ?thesis by (simp add: digits_val_def)
qed

lemma length_nat_str: "n < 10 ^ Suc k \<Longrightarrow> length (nat_str n) \<le> Suc k"
proof (induction k arbitrary: n)
  case 0
  then show ?case by (simp add: nat_str.simps [of n])
next
  case (Suc k)
  have "n div 10 < 10 ^ Suc k" using Suc.prems by (simp add: less_mult_imp_div_less)
  from Suc.IH [OF this] show ?case by (simp add: nat_str.simps [of n])
qed

lemma year4_pad: "0 \<le> y \<Longrightarrow> y < 10000 \<Longrightarrow> year4 (pad 4 y @ r) = Some (y, r)"
proof -
  assume y: "0 \<le> y" "y < 10000"
  then have p: "pad 4 y = replicate (4 - length (nat_str (nat y))) (CHR ''0'') @ nat_str (nat y)"
    by (simp add: pad_def Let_def)
  have l: "length (pad 4 y) = 4" unfolding p using length_nat_str [of "nat y" 3] y by simp
  have "list_all is_digit (pad 4 y)" unfolding p using nat_str_digits [of "nat y"] by (auto simp: list_all_iff is_digit_def)
  moreover have "digits_val (pad 4 y) = nat y" unfolding p digits_val_zeros by simp
  ultimately show ?thesis using y by (simp add: year4_def l)
qed

lemma lit_hit [simp]: "lit c (c # r) = Some ((), r)"
  by (simp add: lit_def)

lemma and_then_Some: "f s = Some (x, r) \<Longrightarrow> and_then f g s = g x r"
  by (simp add: and_then_def)

lemma and_then_lit [simp]: "and_then (lit c) g (c # r) = g () r"
  by (simp add: and_then_def)

lemma and_then_range:
  "0 \<le> x \<Longrightarrow> x < 100 \<Longrightarrow> lo \<le> x \<Longrightarrow> x \<le> hi \<Longrightarrow> and_then (in_range lo hi b) g (pad 2 x @ r) = g x r"
  by (simp add: and_then_def in_range_def getnum_pad ret_def)

lemma and_then_year: "0 \<le> y \<Longrightarrow> y < 10000 \<Longrightarrow> and_then year4 g (pad 4 y @ r) = g y r"
  by (simp add: and_then_Some year4_pad)

lemma and_then_num: "0 \<le> x \<Longrightarrow> x < 100 \<Longrightarrow> and_then (getnum b) g (pad 2 x @ r) = g x r"
  by (simp add: and_then_Some getnum_pad)

lemma days_in_le: "1 \<le> m \<Longrightarrow> m \<le> 12 \<Longrightarrow> days_in m y \<le> 31"
proof -
  assume m: "1 \<le> m" "m \<le> 12"
  then have "m = 1 \<or> m = 2 \<or> m = 3 \<or> m = 4 \<or> m = 5 \<or> m = 6 \<or> m = 7 \<or> m = 8 \<or> m = 9 \<or> m = 10 \<or> m = 11 \<or> m = 12"
    by arith
  then show ?thesis by (elim disjE) (simp_all add: days_in_def month_starts_def)
qed

lemma read_fmt_date:
  assumes "civil (time_unix t div 86400 + epoch_day) = (y, m, d)" and "0 \<le> y" and "y < 10000"
  shows "read_date (fmt_date t @ r) = Some (time_unix t div 86400, r)"
proof -
  note spec = civil_spec [OF assms(1)]
  have d: "0 \<le> d" "d < 100" using spec days_in_le [of m y] by auto
  show ?thesis
    unfolding fmt_date_def assms(1) prod.case read_date_def append_assoc append_Cons
    using spec d assms(2,3) by (simp add: and_then_year and_then_range and_then_num ret_def)
qed

lemma hms_sum:
  fixes s :: int
  shows "s div 3600 * 3600 + s div 60 mod 60 * 60 + s mod 60 = s"
proof -
  define k where "k = s div 60"
  have h: "s div 3600 = k div 60" by (simp add: k_def zdiv_zmult2_eq [symmetric])
  have "k div 60 * 3600 + k mod 60 * 60 = (k div 60 * 60 + k mod 60) * 60" by (simp only: distrib_right)
  also have "\<dots> = k * 60" by (simp only: div_mult_mod_eq)
  finally have "s div 3600 * 3600 + s div 60 mod 60 * 60 = s div 60 * 60" by (simp only: h k_def [symmetric])
  then show ?thesis by (simp only: div_mult_mod_eq)
qed

lemma read_clock_pad:
  assumes "0 \<le> h" "h \<le> 23" "0 \<le> m" "m \<le> 59" "0 \<le> s" "s \<le> 59"
  shows "read_clock (CHR ''T'' # pad 2 h @ CHR '':'' # pad 2 m @ CHR '':'' # pad 2 s @ CHR ''Z'' # r)
    = Some ((h * 3600 + m * 60 + s) * Second, CHR ''Z'' # r)"
proof -
  have "read_fraction (CHR ''Z'' # r) = Some (0, CHR ''Z'' # r)" by (simp add: read_fraction_def)
  then show ?thesis unfolding read_clock_def using assms by (simp add: and_then_range and_then_Some ret_def)
qed

lemma read_fmt_clock:
  assumes "0 \<le> s" and "s < 86400"
  shows "read_clock (CHR ''T'' # pad 2 (s div 3600) @ CHR '':'' # pad 2 (s div 60 mod 60) @ CHR '':'' # pad 2 (s mod 60) @ CHR ''Z'' # r)
    = Some (s * Second, CHR ''Z'' # r)"
proof -
  have "s div 3600 \<le> 23" using zdiv_mono1 [of s 86399 3600] assms(2) by simp
  then show ?thesis
    using read_clock_pad [of "s div 3600" "s div 60 mod 60" "s mod 60" r] assms(1) hms_sum [of s]
    by (simp add: pos_imp_zdiv_nonneg_iff)
qed

text \<open>
  An instant of the years 0 to 9999, written and read back, is the same instant cut to its
  second.
\<close>

lemma parse_fmt_rfc3339:
  assumes "civil (time_unix t div 86400 + epoch_day) = (y, m, d)" and "0 \<le> y" and "y < 10000"
  shows "parse_rfc3339 (fmt_rfc3339 t) = Some (unix_time (time_unix t))"
proof -
  let ?s = "time_unix t mod 86400"
  have s: "0 \<le> ?s" "?s < 86400" by simp_all
  have zone: "read_zone ''Z'' = Some (0, [])" by (simp add: read_zone_def)
  have whole: "time_unix t div 86400 * (24 * Hour) + ?s * Second = unix_time (time_unix t)"
    using div_mult_mod_eq [of "time_unix t" 86400] unfolding unix_time_def Hour_def Second_def by linarith
  show ?thesis
    unfolding parse_rfc3339_def fmt_rfc3339_def Let_def all_of_def
    using read_fmt_clock [OF s, of "[]"] read_fmt_date [OF assms] by (simp add: and_then_Some zone ret_def whole)
qed

lemma year_bounds:
  fixes z :: int
  shows "365 * z + z div 4 - z div 100 + z div 400 \<le> 3652058 \<Longrightarrow> z < 9999"
    and "0 \<le> 365 * z + z div 4 - z div 100 + z div 400 + 365 \<Longrightarrow> - 2 < z"
proof -
  define p s where ps: "p = z div 4" "s = z mod 4"
  define q t where qt: "q = z div 100" "t = z mod 100"
  define r u where ru: "r = z div 400" "u = z mod 400"
  have e: "z = p * 4 + s" "z = q * 100 + t" "z = r * 400 + u" "0 \<le> s" "s < 4" "0 \<le> t" "t < 100" "0 \<le> u" "u < 400"
    by (simp_all add: ps qt ru)
  note f = ps(1) [symmetric] qt(1) [symmetric] ru(1) [symmetric]
  show "365 * z + z div 4 - z div 100 + z div 400 \<le> 3652058 \<Longrightarrow> z < 9999" unfolding f using e by linarith
  show "0 \<le> 365 * z + z div 4 - z div 100 + z div 400 + 365 \<Longrightarrow> - 2 < z" unfolding f using e by linarith
qed

lemma civil_year_range:
  assumes "civil n = (y, m, d)" and "0 \<le> n" and "n < 3652059"
  shows "0 \<le> y" and "y < 10000"
proof -
  obtain yd where y: "year_and_day n = (y, yd)" using assms(1) by (auto simp: civil_def Let_def split: prod.splits)
  have b: "0 \<le> days_before_year y + 365" "days_before_year y \<le> 3652058"
    using year_and_day_spec [OF y] assms(2,3) by (auto split: if_splits)
  show "y < 10000" using year_bounds(1) [OF b(2) [unfolded days_before_year_def]] by simp
  show "0 \<le> y" using year_bounds(2) [of "y - 1"] b(1) by (simp add: days_before_year_def algebra_simps)
qed

lemma parse_fmt_rfc3339_range:
  assumes "zero_time \<le> t" and "time_unix t div 86400 < 2932897"
  shows "parse_rfc3339 (fmt_rfc3339 t) = Some (unix_time (time_unix t))"
proof -
  obtain y m d where c: "civil (time_unix t div 86400 + epoch_day) = (y, m, d)" by (cases "civil (time_unix t div 86400 + epoch_day)")
  have "- 62135596800 \<le> time_unix t"
    using zdiv_mono1 [OF assms(1), of Second] by (simp add: time_unix_def zero_time_def zero_time_offset_def Second_def)
  from zdiv_mono1 [OF this, of 86400] have "0 \<le> time_unix t div 86400 + epoch_day" by (simp add: epoch_day_def)
  moreover have "time_unix t div 86400 + epoch_day < 3652059" using assms(2) by (simp add: epoch_day_def)
  ultimately show ?thesis using parse_fmt_rfc3339 [OF c] civil_year_range [OF c] by blast
qed

end
