(* ===== verification/ControlText.thy ===== *)
theory ControlText
  imports Pipeline Reports Retention GoTime
begin

text \<open>
  The control socket of \<open>internal/daemon\<close>: the request and response types of \<open>api.go\<close>, what the
  handlers of \<open>socket.go\<close> and \<open>arm.go\<close> read from and write into texts.  A response carries its
  error as a value of \<open>ctl_error\<close> and its payload as a value of \<open>payload\<close>; JSON is not modelled.
\<close>

section \<open>Requests and responses\<close>

record socket_request =
  sq_verb :: string
  sq_ip :: string
  sq_ttl :: string
  sq_for :: string
  sq_force :: bool
  sq_peer :: string
  sq_until :: string
  sq_reason :: string
  sq_limit :: int
  sq_filter :: string
  sq_evidence :: bool
  sq_name :: string
  sq_dry_run :: bool

definition empty_socket_request :: socket_request where
  "empty_socket_request = \<lparr>sq_verb = [], sq_ip = [], sq_ttl = [], sq_for = [], sq_force = False, sq_peer = [], sq_until = [],
     sq_reason = [], sq_limit = 0, sq_filter = [], sq_evidence = False, sq_name = [], sq_dry_run = False\<rparr>"

datatype ctl_error =
    TargetRequired
  | TargetInvalid string
  | TargetMapped allow_error
  | TTLInvalid string
  | DurationInvalid string
  | DurationNotPositive string
  | ForAndUntil
  | UntilInvalid string
  | UntilPast string
  | StoreFailed string store_error
  | EnforcerBan enf_error
  | ManualRefused string
  | NotAllowlisted pfx
  | ArmRefusedSelfBan
  | ArmRefusedPreflight
  | ArmWindowRange duration
  | ArmWindowLost store_error
  | PersistArmed bool string
  | NotArmed
  | NoArmWindow
  | DisarmFailed ctl_error
  | SyncLingers int sync_error
  | FeedsLinger int enf_error
  | NoFeeds
  | FeedRefreshFailed string
  | NoRetention
  | PruneStopped
  | Report report_error
  | EventsTarget string
  | MetricsMissing
  | ReadOnlyRefused string
  | UnknownSocketVerb string

record status_data =
  sd_uptime :: string
  sd_armed :: bool
  sd_enforcement :: "enf_state \<times> string"
  sd_collectors :: "coll_state \<times> string"
  sd_cdn_ok :: bool
  sd_active_bans :: int
  sd_simulated_bans :: int
  sd_armed_until :: string
  sd_version :: string

record ban_entry =
  bx_ip :: string
  bx_ttl :: string
  bx_strike :: int
  bx_reason :: string
  bx_labels :: "string \<times> string"
  bx_simulated :: bool

record arm_data =
  am_armed :: bool
  am_refused :: bool
  am_checks :: "(string \<times> string \<times> string) list"
  am_revert_at :: string

record feed_status =
  fs_name :: string
  fs_action :: string
  fs_last_refresh :: time
  fs_next_refresh :: "time option"
  fs_entries :: int
  fs_skipped :: int

record prune_data =
  pd_dry_run :: bool
  pd_tables :: "prune_stat list"
  pd_audit_skipped :: bool
  pd_vacuum_ran :: bool

datatype payload =
    NoData
  | StatusData status_data
  | BanEntries "ban_entry list"
  | AllowEntries "(string \<times> string \<times> string) list"
  | EventEntries "audit_row list"
  | ReportData abuse_report
  | ReportSummaries "report_summary list"
  | ArmData arm_data
  | DisableAllData bool int bool
  | FeedsStatus "feed_status list"
  | FeedsRefreshed int
  | PruneData prune_data
  | MetricsText string

record socket_response =
  sr_error :: "ctl_error option"
  sr_data :: payload

definition ok_with :: "payload \<Rightarrow> socket_response" where
  "ok_with x = \<lparr>sr_error = None, sr_data = x\<rparr>"

definition err_with :: "ctl_error \<Rightarrow> socket_response" where
  "err_with e = \<lparr>sr_error = Some e, sr_data = NoData\<rparr>"

section \<open>Targets\<close>

definition parseSocketTarget :: "string \<Rightarrow> ctl_error + pfx" where
  "parseSocketTarget s =
     (if s = [] then Inl TargetRequired
      else (case parse_prefix s of
              Some p \<Rightarrow> (case NormalizePrefix p of Inl e \<Rightarrow> Inl (TargetMapped e) | Inr q \<Rightarrow> Inr q)
            | None \<Rightarrow> (case parse_addr s of
                          None \<Rightarrow> Inl (TargetInvalid s)
                        | Some a \<Rightarrow> Inr (prefix_from (unmap a) (bit_len (unmap a))))))"

definition single_host :: "pfx \<Rightarrow> bool" where
  "single_host p \<longleftrightarrow> pfx_bits p = bit_len (pfx_ip p)"

definition targetFromPrefix :: "pfx \<Rightarrow> duration \<Rightarrow> target" where
  "targetFromPrefix p ttl =
     (if single_host p then zero_target\<lparr>tg_ip := pfx_ip p, tg_ttl := ttl\<rparr> else zero_target\<lparr>tg_prefix := p, tg_ttl := ttl\<rparr>)"

definition prefixDisplay :: "pfx \<Rightarrow> string" where
  "prefixDisplay p = (if single_host p then addr_str (pfx_ip p) else pfx_str p)"

definition parsePrefixOrAddrDaemon :: "string \<Rightarrow> pfx option" where
  "parsePrefixOrAddrDaemon s =
     (case parse_prefix s of
        Some p \<Rightarrow> Some p
      | None \<Rightarrow> map_option (\<lambda>a. prefix_from a (bit_len a)) (parse_addr s))"

section \<open>Durations and deadlines\<close>

text \<open>\<open>strconv.Atoi\<close>.\<close>

definition atoi :: "string \<Rightarrow> int option" where
  "atoi s =
     (let (neg, ds) = (case s of [] \<Rightarrow> (False, []) | c # t \<Rightarrow>
             if c = CHR ''-'' then (True, t) else if c = CHR ''+'' then (False, t) else (False, s));
          n = (if neg then - int (digits_val ds) else int (digits_val ds))
      in if ds = [] \<or> \<not> list_all is_digit ds \<or> n < - (2 ^ 63) \<or> n > 2 ^ 63 - 1 then None else Some n)"

definition parseExtendedDuration :: "string \<Rightarrow> duration option" where
  "parseExtendedDuration s =
     (if str_has_suffix s ''d'' then
        (case atoi (trim_suffix ''d'' s) of
           None \<Rightarrow> None
         | Some n \<Rightarrow> if n < 0 then None else Some (wrap64 (wrap64 (n * 24) * Hour)))
      else ParseDuration s)"

text \<open>The two RFC 3339 layouts accept the same texts.\<close>

definition parseUntil :: "string \<Rightarrow> time option" where
  "parseUntil s =
     (case parse_rfc3339 s of Some t \<Rightarrow> Some t | None \<Rightarrow>
      case parse_datetime s of Some t \<Rightarrow> Some t | None \<Rightarrow> parse_date s)"

definition dur_round :: "duration \<Rightarrow> duration \<Rightarrow> duration" where
  "dur_round d m =
     (if m \<le> 0 then d
      else let r = \<bar>d\<bar> mod m
           in sgn d * (if r + r < m then \<bar>d\<bar> - r else \<bar>d\<bar> + (m - r)))"

definition formatExpires :: "time \<Rightarrow> time \<Rightarrow> string" where
  "formatExpires t now =
     (if t = zero_time then ''never''
      else let remaining = t - now
           in if remaining \<le> 0 then ''expired''
              else if remaining < 24 * Hour then dur_str (dur_round remaining Hour) @ '' remaining''
              else fmt_date t)"

definition ban_ttl_text :: "action \<Rightarrow> string" where
  "ban_ttl_text b =
     (if ac_permanent b then ''permanent'' else if ac_ttl b > 0 then dur_str (dur_round (ac_ttl b) Second) else ''expired'')"

section \<open>The reasons of a refused manual ban\<close>

text \<open>A peer the client forwarded is reported like a peer of the host (in Go, with other words).\<close>

definition manual_error_str :: "pfx \<Rightarrow> manual_error \<Rightarrow> string" where
  "manual_error_str target e =
     (let t = pfx_str (case NormalizePrefix target of Inr q \<Rightarrow> q | Inl _ \<Rightarrow> target) in
      case e of
        ManualNormalize _ \<Rightarrow> ''refusing manual ban: IPv4-mapped IPv6 prefix '' @ pfx_str target
          @ '' is broader than /96 and has no IPv4 equivalent; use plain IPv4 or IPv6 form''
      | ErrManualBanAllowlisted p \<Rightarrow> ''target overlaps the allowlist/admin_cidrs: '' @ t @ '' overlaps '' @ pfx_str p
      | ErrManualBanSSHPeer a \<Rightarrow> ''target covers an active SSH session: '' @ t @ '' contains SSH peer '' @ addr_str a
      | ErrManualBanCDNRange p \<Rightarrow>
          ''target overlaps a known shared CDN edge range (use --force to override): '' @ t @ '' overlaps '' @ pfx_str p
      | ErrManualBanCDNUnverified \<Rightarrow> ''refusing manual ban of '' @ t @ '': CDN range data unavailable '' @ em_dash
          @ '' target cannot be verified against shared edge ranges (use --force to ban anyway)''
      | ManualRateLimited \<Rightarrow> ''decision: global ban rate limit exceeded'')"

section \<open>Facts\<close>

lemma is4in6_without_zone [simp]: "is4in6 (without_zone a) = is4in6 a"
  by (cases a) simp_all

lemma parseSocketTarget_canonical:
  assumes "parseSocketTarget s = Inr p"
  shows "\<not> is4in6 (pfx_ip p)"
  using assms
  by (auto simp: prefix_from_def parseSocketTarget_def NormalizePrefix_def split: if_splits option.splits sum.splits)

text \<open>A day count of 106752 or more does not fit in 64 bits: the product wraps to a negative duration.\<close>

lemma extended_duration_wraps: "\<exists>d. parseExtendedDuration ''106752d'' = Some d \<and> d < 0"
proof -
  have a: "atoi ''106752'' = Some 106752"
    by (simp add: atoi_def is_digit_def digits_val_def digit_val_def)
  have "wrap64 (106752 * 24) = 2562048" by (simp add: wrap64_id)
  moreover have "wrap64 (2562048 * Hour) < 0" by (simp add: wrap64_def Hour_def)
  ultimately show ?thesis using a
    by (simp add: parseExtendedDuration_def str_has_suffix_def trim_suffix_def str_has_prefix_def)
qed

end
