(* ===== verification/Control.thy ===== *)
theory Control
  imports ControlText NftClient
begin

text \<open>
  The control socket: the handlers of \<open>socket.go\<close>, \<open>arm.go\<close>, \<open>disableall.go\<close>, \<open>maintenance.go\<close>
  and \<open>feeds.go\<close> of \<open>internal/daemon\<close>, and the dispatch of one request with its access tier and
  its audit entry.

  \<^item> The state \<open>control\<close> is the daemon, the armed flag in \<open>policy.yaml\<close> (\<open>None\<close>: no policy path),
    the feed bookkeeping, and the health of the collectors.
  \<^item> What a request reads from outside is \<open>cports\<close>: the ports of the daemon, the outcome of the
    rewrite of \<open>policy.yaml\<close> for each flag, the feed syncer, the CDN table, the SSH peers, the peer
    credential of the connection.
  \<^item> The metrics text and the evidence lines of a report are parameters; so is the outcome of the
    VACUUM after a prune.
\<close>

section \<open>State and surroundings\<close>

record ('w, 'e) control =
  cl_dm :: "('w, 'e) daemon"
  cl_file :: "bool option"
  cl_feed_desired :: "(string, feed_element list) gomap"
  cl_feed_observed :: "(string, int) gomap"
  cl_feed_status :: "(string, feed_status) gomap"
  cl_collectors :: "(string, coll_entry) gomap"

record feed_update =
  fu_name :: string
  fu_action :: string
  fu_ttl :: duration
  fu_interval :: duration
  fu_prefixes :: "pfx list"

record ('w, 'e) cports =
  cp_ports :: "('w, 'e) ports"
  cp_rewrite :: "bool \<Rightarrow> string option"
  cp_start :: time
  cp_version :: string
  cp_collector_count :: nat
  cp_cdn :: "string + pfx list"
  cp_ssh_peers :: "addr list"
  cp_feed_syncer :: "(feed_element list \<Rightarrow> 'e enf_op) option"
  cp_feed_order :: "(string \<times> feed_element list) list \<Rightarrow> (string \<times> feed_element list) list"
  cp_feed_refresh :: "(string \<Rightarrow> feed_update list \<times> (string + int)) option"
  cp_has_feeds :: bool
  cp_retention :: "retention_policy option"
  cp_alive :: "string \<Rightarrow> nat \<Rightarrow> bool"
  cp_vacuum :: bool
  cp_metrics :: "string option"
  cp_evidence :: "addr \<Rightarrow> string list"
  cp_cred :: "(nat \<times> nat) option"

type_synonym ('w, 'e) handler = "('w, 'e) control \<Rightarrow> socket_response \<times> ('w, 'e) control"

definition in_dm :: "(('w, 'e) daemon \<Rightarrow> 'a \<times> ('w, 'e) daemon) \<Rightarrow> ('w, 'e) control \<Rightarrow> 'a \<times> ('w, 'e) control" where
  "in_dm f c = (case f (cl_dm c) of (r, d) \<Rightarrow> (r, c\<lparr>cl_dm := d\<rparr>))"

definition on_dm :: "(('w, 'e) daemon \<Rightarrow> ('w, 'e) daemon) \<Rightarrow> ('w, 'e) control \<Rightarrow> ('w, 'e) control" where
  "on_dm f c = c\<lparr>cl_dm := f (cl_dm c)\<rparr>"

definition journal :: "('w, 'e) ports \<Rightarrow> string \<Rightarrow> string \<Rightarrow> ('w, 'e) daemon \<Rightarrow> ('w, 'e) daemon" where
  "journal p opn reason d = snd (with_store (writes (AuditSystem (pt_clock p) opn reason)) d)"

definition journal_op :: "('w, 'e) ports \<Rightarrow> string \<Rightarrow> pfx \<Rightarrow> duration \<Rightarrow> string \<Rightarrow> ('w, 'e) daemon \<Rightarrow> ('w, 'e) daemon" where
  "journal_op p opn px ttl reason d = snd (with_store (writes (AuditOp (pt_clock p) opn px ttl reason)) d)"

section \<open>Manual bans\<close>

definition refuseManualBan ::
  "('w, 'e) ports \<Rightarrow> pfx \<Rightarrow> duration \<Rightarrow> string \<Rightarrow> ('w, 'e) daemon \<Rightarrow> socket_response \<times> ('w, 'e) daemon" where
  "refuseManualBan p px ttl reason d =
     (err_with (ManualRefused reason),
      publishActionEvent ''ban_refused'' (prefixDisplay px) 0 ttl reason ''cli''
        (journal_op p ''ban_refused'' px ttl reason d))"

text \<open>The row of a host, the journal entry of a range or of a row that could not be written.\<close>

definition record_manual_ban ::
  "('w, 'e) ports \<Rightarrow> string \<Rightarrow> pfx \<Rightarrow> duration \<Rightarrow> string \<Rightarrow> ('w, 'e) daemon \<Rightarrow> ('w, 'e) daemon" where
  "record_manual_ban p opn px ttl reason d =
     (if single_host px then
        (case with_store (\<lambda>db. case RecordManualBan (pt_clock p) (pt_clock p) (pfx_ip px) ttl reason
                 (\<not> IsArmed (dm_policy d)) db of Inl e \<Rightarrow> (Some e, db) | Inr db' \<Rightarrow> (None, db')) d of
           (Inr None, d1) \<Rightarrow> d1
         | (_, d1) \<Rightarrow> journal_op p opn px ttl reason d1)
      else journal_op p opn px ttl reason d)"

definition manual_ban_section ::
  "('w, 'e) ports \<Rightarrow> string \<Rightarrow> pfx \<Rightarrow> duration \<Rightarrow> string \<Rightarrow> ('w, 'e) daemon \<Rightarrow> enf_error option \<times> ('w, 'e) daemon" where
  "manual_ban_section p opn px ttl reason d =
     (case (case dm_gate d of
              None \<Rightarrow> (None, d)
            | Some g \<Rightarrow> if IsArmed (dm_policy d) then gate_ban p g (targetFromPrefix px ttl) d else (None, d)) of
        (Some e, d1) \<Rightarrow> (Some e, d1)
      | (None, d1) \<Rightarrow> (None, record_manual_ban p opn px ttl reason d1))"

definition apply_manual_ban ::
  "('w, 'e) ports \<Rightarrow> pfx \<Rightarrow> duration \<Rightarrow> string \<Rightarrow> ('w, 'e) daemon \<Rightarrow> socket_response \<times> ('w, 'e) daemon" where
  "apply_manual_ban p px ttl reason0 d =
     (let opn = (if IsArmed (dm_policy d) then ''ban'' else ''dry_ban'');
          reason = (if reason0 = [] then ''manual ban via CLI'' else reason0)
      in case manual_ban_section p opn px ttl reason d of
           (Some e, d1) \<Rightarrow> (err_with (EnforcerBan e), d1)
         | (None, d1) \<Rightarrow>
             (ok_with NoData, publishActionEvent opn (prefixDisplay px) 0 ttl reason ''cli'' d1))"

definition cli_peers :: "socket_request \<Rightarrow> addr list" where
  "cli_peers req = (case parse_addr (trim_space (sq_peer req)) of None \<Rightarrow> [] | Some a \<Rightarrow> [a])"

definition ban_ttl :: "socket_request \<Rightarrow> ctl_error + duration" where
  "ban_ttl req =
     (if sq_ttl req = [] then Inr 0
      else (case parseExtendedDuration (sq_ttl req) of None \<Rightarrow> Inl (TTLInvalid (sq_ttl req)) | Some t \<Rightarrow> Inr t))"

definition handleBan :: "('w, 'e) ports \<Rightarrow> socket_request \<Rightarrow> ('w, 'e) daemon \<Rightarrow> socket_response \<times> ('w, 'e) daemon" where
  "handleBan p req d =
     (case parseSocketTarget (sq_ip req) of
        Inl e \<Rightarrow> (err_with e, d)
      | Inr px \<Rightarrow>
          (case ban_ttl req of
             Inl e \<Rightarrow> (err_with e, d)
           | Inr ttl \<Rightarrow>
               (case runtimeAllowlistOverlap d px of
                  Some entry \<Rightarrow> refuseManualBan p px ttl
                    (''target '' @ pfx_str px @ '' overlaps runtime allowlist entry '' @ pfx_str entry) d
                | None \<Rightarrow>
                    (case AuthorizeManualBan (pt_decide p) px (sq_force req) (cli_peers req) (dm_engine d) of
                       (Inl e, en) \<Rightarrow> refuseManualBan p px ttl (manual_error_str px e) (d\<lparr>dm_engine := en\<rparr>)
                     | (Inr u, en) \<Rightarrow> apply_manual_ban p px ttl (sq_reason req) (d\<lparr>dm_engine := en\<rparr>)))))"

section \<open>Lifting bans\<close>

definition gate_unban :: "('w, 'e) ports \<Rightarrow> target \<Rightarrow> ('w, 'e) daemon \<Rightarrow> ('w, 'e) daemon" where
  "gate_unban p t d =
     (case dm_gate d of
        None \<Rightarrow> d
      | Some g \<Rightarrow> d\<lparr>dm_fw := snd (Gate_Unban (pt_inner p) t (dm_fw d))\<rparr>)"

definition handleUnban :: "('w, 'e) ports \<Rightarrow> socket_request \<Rightarrow> ('w, 'e) daemon \<Rightarrow> socket_response \<times> ('w, 'e) daemon" where
  "handleUnban p req d =
     (case parseSocketTarget (sq_ip req) of
        Inl e \<Rightarrow> (err_with e, d)
      | Inr px \<Rightarrow>
          let d1 = gate_unban p (targetFromPrefix px 0) d;
              now = pt_clock p;
              (r, d2) = (if single_host px
                         then (case with_store (writes (Unban now (pfx_ip px))) d1 of
                                 (Inl e, d') \<Rightarrow> (Some (StoreFailed ''store unban'' e), d') | (Inr u, d') \<Rightarrow> (None, d'))
                         else (case with_store (UnbanPrefix now px) d1 of
                                 (Inl e, d') \<Rightarrow> (Some (StoreFailed ''store unban prefix'' e), d') | (Inr n, d') \<Rightarrow> (None, d')))
          in case r of
               Some e \<Rightarrow> (err_with e, d2)
             | None \<Rightarrow> (ok_with NoData, publishActionEvent ''unban'' (prefixDisplay px) 0 0 (sq_reason req) ''cli'' d2))"

section \<open>The runtime allowlist\<close>

definition allow_expiry :: "('w, 'e) ports \<Rightarrow> socket_request \<Rightarrow> ctl_error + time option" where
  "allow_expiry p req =
     (if sq_for req \<noteq> [] \<and> sq_until req \<noteq> [] then Inl ForAndUntil
      else if sq_for req \<noteq> [] then
        (case parseExtendedDuration (sq_for req) of
           None \<Rightarrow> Inl (DurationInvalid (sq_for req))
         | Some dur \<Rightarrow> if dur \<le> 0 then Inl (DurationNotPositive (sq_for req)) else Inr (Some (pt_clock p + dur)))
      else if sq_until req \<noteq> [] then
        (case parseUntil (sq_until req) of
           None \<Rightarrow> Inl (UntilInvalid (sq_until req))
         | Some t \<Rightarrow> if \<not> t > pt_clock p then Inl (UntilPast (sq_until req)) else Inr (Some t))
      else Inr None)"

definition lift_one :: "('w, 'e) ports \<Rightarrow> pfx \<Rightarrow> ('w, 'e) daemon \<Rightarrow> action \<Rightarrow> ('w, 'e) daemon" where
  "lift_one p px d b =
     (if \<not> prefix_contains px (unmap (ac_ip b)) \<or> dm_gate d = None then d
      else gate_unban p (zero_target\<lparr>tg_ip := ac_ip b\<rparr>) d)"

definition liftBansCoveredBy :: "('w, 'e) ports \<Rightarrow> pfx \<Rightarrow> string \<Rightarrow> ('w, 'e) daemon \<Rightarrow> ('w, 'e) daemon" where
  "liftBansCoveredBy p px reason d =
     (case active_bans p d of
        (Inl e, d1) \<Rightarrow> d1
      | (Inr bans, d1) \<Rightarrow>
          let d2 = foldl (lift_one p px) d1 bans
          in (case with_store (UnbanCovered (pt_clock p) px reason) d2 of
                (Inl e, d3) \<Rightarrow> d3
              | (Inr lifted, d3) \<Rightarrow>
                  foldl (\<lambda>d ip. publishActionEvent ''unban'' (addr_str ip) 0 0 reason ''cli'' d) d3 lifted))"

definition push_allow :: "('w, 'e) ports \<Rightarrow> pfx \<Rightarrow> ('w, 'e) daemon \<Rightarrow> ('w, 'e) daemon" where
  "push_allow p px d =
     (case dm_gate d of
        None \<Rightarrow> d
      | Some g \<Rightarrow> d\<lparr>dm_fw := snd (Gate_Allow (pt_inner p) px (dm_fw d))\<rparr>)"

definition handleAllow :: "('w, 'e) ports \<Rightarrow> socket_request \<Rightarrow> ('w, 'e) daemon \<Rightarrow> socket_response \<times> ('w, 'e) daemon" where
  "handleAllow p req d =
     (case parseSocketTarget (sq_ip req) of
        Inl e \<Rightarrow> (err_with e, d)
      | Inr q \<Rightarrow>
          let px = prefix_masked q
          in case allow_expiry p req of
               Inl e \<Rightarrow> (err_with e, d)
             | Inr expires \<Rightarrow>
                 (case with_store (writes (AddAllow (pt_clock p) px expires (sq_reason req))) d of
                    (Inl e, d1) \<Rightarrow> (err_with (StoreFailed ''store add allow'' e), d1)
                  | (Inr u, d1) \<Rightarrow>
                      let ttl = (case expires of None \<Rightarrow> 0 | Some t \<Rightarrow> t - pt_clock p);
                          d2 = journal_op p ''allow'' px ttl (sq_reason req) d1;
                          d3 = snd (reloadAllowlist d2);
                          d4 = liftBansCoveredBy p px (''allowlisted: '' @ sq_reason req) d3;
                          d5 = push_allow p px d4
                      in (ok_with NoData, publishActionEvent ''allow'' (prefixDisplay px) 0 ttl (sq_reason req) ''cli'' d5)))"

definition handleUnallow :: "('w, 'e) ports \<Rightarrow> socket_request \<Rightarrow> ('w, 'e) daemon \<Rightarrow> socket_response \<times> ('w, 'e) daemon" where
  "handleUnallow p req d =
     (case parseSocketTarget (sq_ip req) of
        Inl e \<Rightarrow> (err_with e, d)
      | Inr q \<Rightarrow>
          let px = prefix_masked q
          in case with_store (RemoveAllow px) d of
               (Inl e, d1) \<Rightarrow> (err_with (StoreFailed ''store remove allow'' e), d1)
             | (Inr n, d1) \<Rightarrow>
                 if n = 0 then (err_with (NotAllowlisted px), d1)
                 else
                   let d2 = journal_op p ''unallow'' px 0 (sq_reason req) d1;
                       d3 = snd (reloadAllowlist d2);
                       d4 = snd (syncEnforcerAllowlist p d3)
                   in (ok_with NoData, publishActionEvent ''unallow'' (prefixDisplay px) 0 0 (sq_reason req) ''cli'' d4))"

section \<open>Arming\<close>

definition quoted :: "string \<Rightarrow> string" where "quoted s = CHR 0x27 # s @ [CHR 0x27]"

definition stateKeyArmWindow :: string where "stateKeyArmWindow = ''arm_window_expires_at''"
definition minArmWindow :: duration where "minArmWindow = Minute"
definition maxArmWindow :: duration where "maxArmWindow = 7 * 24 * Hour"

definition set_armed_flag :: "bool \<Rightarrow> ('w, 'e) daemon \<Rightarrow> ('w, 'e) daemon" where
  "set_armed_flag b d = d\<lparr>dm_engine := (dm_engine d)\<lparr>dc_policy := SetArmed b (dm_policy d)\<rparr>\<rparr>"

text \<open>The file first: the runtime flag follows it or stays.\<close>

definition setArmedState ::
  "('w, 'e) cports \<Rightarrow> bool \<Rightarrow> string \<Rightarrow> string \<Rightarrow> ('w, 'e) control \<Rightarrow> ctl_error option \<times> ('w, 'e) control" where
  "setArmedState p b opn reason c =
     (case (if cl_file c = None then None else cp_rewrite p b) of
        Some e \<Rightarrow> (Some (PersistArmed b e), c)
      | None \<Rightarrow>
          (None, c\<lparr>cl_file := map_option (\<lambda>_. b) (cl_file c),
             cl_dm := publishActionEvent opn ''system'' 0 0 reason ''operator''
               (journal (cp_ports p) opn reason (set_armed_flag b (cl_dm c)))\<rparr>))"

fun persist_error_str :: "ctl_error \<Rightarrow> string" where
  "persist_error_str (PersistArmed b e) = ''persisting armed='' @ (if b then ''true'' else ''false'') @ '': '' @ e"
| "persist_error_str _ = []"

definition delete_window :: "('w, 'e) daemon \<Rightarrow> (store_error + unit) \<times> ('w, 'e) daemon" where
  "delete_window = with_store (writes (DeleteState stateKeyArmWindow))"

definition get_window :: "('w, 'e) daemon \<Rightarrow> (store_error + string option) \<times> ('w, 'e) daemon" where
  "get_window = with_store (reads (GetState stateKeyArmWindow))"

type_synonym check = "string \<times> string \<times> string"

definition enforcer_check :: "('w, 'e) ports \<Rightarrow> ('w, 'e) daemon \<Rightarrow> check" where
  "enforcer_check p d =
     (if dm_gate d = None
      then (''enforcer'', ''fail'', ''no enforcer configured '' @ em_dash
              @ '' bans would be recorded but never enforced; configure the enforce section first'')
      else (''enforcer'', ''pass'', ''enforcer configured: '' @ enforcer_name p))"

definition len_str :: "'a list \<Rightarrow> string" where "len_str xs = nat_str (length xs)"

definition plural :: "nat \<Rightarrow> string \<Rightarrow> string \<Rightarrow> string" where
  "plural n one many = (if n = 1 then one else many)"

definition admin_check :: "policy \<Rightarrow> check" where
  "admin_check pol =
     (if po_admin_cidrs pol = [] \<and> po_allowlist pol = []
      then (''admin_cidrs'', ''fail'', ''admin_cidrs and allowlist are both empty '' @ em_dash
              @ '' nothing protects your own access; add your management IPs to admin_cidrs'')
      else if po_admin_cidrs pol = []
      then (''admin_cidrs'', ''warn'', ''admin_cidrs is empty (allowlist has entries) '' @ em_dash
              @ '' prefer admin_cidrs for operator IPs'')
      else (''admin_cidrs'', ''pass'', ''admin_cidrs: '' @ len_str (po_admin_cidrs pol) @ '' entr''
              @ plural (length (po_admin_cidrs pol)) ''y'' ''ies'' @ '', allowlist: '' @ len_str (po_allowlist pol)))"

definition policy_covers :: "policy \<Rightarrow> addr \<Rightarrow> bool" where
  "policy_covers pol a = list_ex (\<lambda>s. case parsePrefixOrAddrDaemon s of None \<Rightarrow> False | Some q \<Rightarrow> prefix_contains q a)
     (po_allowlist pol @ po_admin_cidrs pol)"

definition selfBanCheck :: "('w, 'e) daemon \<Rightarrow> string \<Rightarrow> check \<times> bool" where
  "selfBanCheck d peer =
     (case (if peer = [] then None else parse_addr (trim_space peer)) of
        None \<Rightarrow> ((''self_ban'', ''warn'', ''could not determine your client IP (no SSH_CLIENT?) '' @ em_dash
                   @ '' make sure the IP you connect from is in admin_cidrs''), False)
      | Some a \<Rightarrow>
          if isRuntimeAllowlisted d a \<or> policy_covers (dm_policy d) a
          then ((''self_ban'', ''pass'', ''your client IP '' @ addr_str a @ '' is covered by the allowlist''), False)
          else ((''self_ban'', ''fail'', ''your client IP '' @ addr_str a @ '' is NOT covered by admin_cidrs or the allowlist ''
                   @ em_dash @ '' arming could ban your own session (not bypassable with --force)''), True))"

definition simulated_bans :: "action list \<Rightarrow> int" where
  "simulated_bans bans = int (length (filter (\<lambda>b. ac_op b = ''dry_ban'') bans))"

definition countRecentDryBans :: "('w, 'e) ports \<Rightarrow> duration \<Rightarrow> ('w, 'e) daemon \<Rightarrow> int \<times> ('w, 'e) daemon" where
  "countRecentDryBans p window d =
     (case with_store (reads (ListAuditLog 1000)) d of
        (Inl e, d1) \<Rightarrow> (0, d1)
      | (Inr rows, d1) \<Rightarrow>
          (int (length (filter (\<lambda>r. au_op r = ''dry_ban'' \<and> au_recorded_at r > pt_wall p - window) rows)), d1))"

definition activity_check :: "int \<Rightarrow> int \<Rightarrow> check" where
  "activity_check simulated recent =
     (if simulated = 0 \<and> recent = 0
      then (''dry_run_activity'', ''warn'', ''no dry-run activity observed '' @ em_dash
              @ '' consider running in dry-run first and reviewing what would be banned'')
      else (''dry_run_activity'', ''pass'', ''last 24h: '' @ int_str recent @ '' dry_ban decision(s); currently ''
              @ int_str simulated @ '' simulated ban(s) would become candidates''))"

text \<open>The checks, whether one failed, whether the self-ban check did.\<close>

definition runArmPreflight :: "('w, 'e) ports \<Rightarrow> string \<Rightarrow> ('w, 'e) daemon \<Rightarrow> (check list \<times> bool \<times> bool) \<times> ('w, 'e) daemon" where
  "runArmPreflight p peer d =
     (let c1 = enforcer_check p d; c2 = admin_check (dm_policy d); (c3, selfBanFail) = selfBanCheck d peer;
          (r, d1) = active_bans p d;
          simulated = (case r of Inl e \<Rightarrow> 0 | Inr bans \<Rightarrow> simulated_bans bans);
          (recent, d2) = countRecentDryBans p (24 * Hour) d1;
          checks = [c1, c2, c3, activity_check simulated recent]
      in ((checks, list_ex (\<lambda>(name, status, detail). status = ''fail'') checks, selfBanFail), d2))"

definition armRefused :: "check list \<Rightarrow> ctl_error \<Rightarrow> socket_response" where
  "armRefused checks e =
     \<lparr>sr_error = Some e, sr_data = ArmData \<lparr>am_armed = False, am_refused = True, am_checks = checks, am_revert_at = []\<rparr>\<rparr>"

definition arm_window :: "('w, 'e) ports \<Rightarrow> socket_request \<Rightarrow> ctl_error + time option" where
  "arm_window p req =
     (if sq_for req = [] then Inr None
      else (case parseExtendedDuration (sq_for req) of
              None \<Rightarrow> Inl (DurationInvalid (sq_for req))
            | Some w \<Rightarrow> if w < minArmWindow \<or> w > maxArmWindow then Inl (ArmWindowRange w) else Inr (Some (pt_wall p + w))))"

definition arm_reason :: "socket_request \<Rightarrow> time option \<Rightarrow> string" where
  "arm_reason req revertAt =
     ''operator armed via '' @ quoted ''ezyshield arm'' @ (if sq_force req then '' (--force)'' else [])
     @ (case revertAt of None \<Rightarrow> [] | Some t \<Rightarrow> '' (auto-revert at '' @ fmt_rfc3339 t @ '' unless confirmed with --keep)'')"

definition armed_data :: "check list \<Rightarrow> string \<Rightarrow> payload" where
  "armed_data checks revert = ArmData \<lparr>am_armed = True, am_refused = False, am_checks = checks, am_revert_at = revert\<rparr>"

text \<open>Opening the window, or clearing an old one, once the daemon is armed.\<close>

definition arm_open_window ::
  "('w, 'e) cports \<Rightarrow> check list \<Rightarrow> time option \<Rightarrow> ('w, 'e) control \<Rightarrow> socket_response \<times> ('w, 'e) control" where
  "arm_open_window p checks revertAt c =
     (case revertAt of
        None \<Rightarrow> (ok_with (armed_data checks []), snd (in_dm delete_window c))
      | Some t \<Rightarrow>
          (case in_dm (with_store (writes (SetState (pt_clock (cp_ports p)) stateKeyArmWindow (fmt_rfc3339 t)))) c of
             (Inl e, c1) \<Rightarrow>
               (err_with (ArmWindowLost e),
                snd (setArmedState p False ''arm_revert'' ''reverting: arm window could not be persisted'' c1))
           | (Inr u, c1) \<Rightarrow> (ok_with (armed_data checks (fmt_rfc3339 t)), c1)))"

definition handleArm :: "('w, 'e) cports \<Rightarrow> socket_request \<Rightarrow> ('w, 'e) handler" where
  "handleArm p req c =
     (case in_dm (runArmPreflight (cp_ports p) (sq_peer req)) c of
        ((checks, hasFail, selfBanFail), c1) \<Rightarrow>
          if selfBanFail then (armRefused checks ArmRefusedSelfBan, c1)
          else if hasFail \<and> \<not> sq_force req then (armRefused checks ArmRefusedPreflight, c1)
          else
            (case arm_window (cp_ports p) req of
               Inl e \<Rightarrow> (err_with e, c1)
             | Inr revertAt \<Rightarrow>
                 (case setArmedState p True ''arm'' (arm_reason req revertAt) c1 of
                    (Some e, c2) \<Rightarrow> (err_with e, c2)
                  | (None, c2) \<Rightarrow> arm_open_window p checks revertAt c2)))"

definition handleArmKeep :: "('w, 'e) cports \<Rightarrow> ('w, 'e) handler" where
  "handleArmKeep p c =
     (if \<not> IsArmed (dm_policy (cl_dm c)) then (err_with NotArmed, c)
      else (case in_dm get_window c of
              (Inl e, c1) \<Rightarrow> (err_with (StoreFailed ''reading arm window'' e), c1)
            | (Inr None, c1) \<Rightarrow> (err_with NoArmWindow, c1)
            | (Inr (Some w), c1) \<Rightarrow>
                (case in_dm delete_window c1 of
                   (Inl e, c2) \<Rightarrow> (err_with (StoreFailed ''clearing arm window'' e), c2)
                 | (Inr u, c2) \<Rightarrow>
                     (ok_with (armed_data [] []),
                      on_dm (publishActionEvent ''arm_keep'' ''system'' 0 0 ''arm window confirmed'' ''operator''
                             \<circ> journal (cp_ports p) ''arm_keep'' (''operator confirmed the arm window via '' @ quoted ''ezyshield arm --keep'')) c2))))"

definition handleDisarm :: "('w, 'e) cports \<Rightarrow> ('w, 'e) handler" where
  "handleDisarm p c =
     (case setArmedState p False ''disarm'' (''operator disarmed via '' @ quoted ''ezyshield disarm'') c of
        (Some e, c1) \<Rightarrow> (err_with e, c1)
      | (None, c1) \<Rightarrow>
          (ok_with (ArmData \<lparr>am_armed = False, am_refused = False, am_checks = [], am_revert_at = []\<rparr>),
           snd (in_dm delete_window c1)))"

definition arm_expired_msg :: string where
  "arm_expired_msg = ''arm window expired without '' @ quoted ''ezyshield arm --keep'' @ '' '' @ em_dash @ '' reverted to dry-run''"

text \<open>An unreadable deadline counts as passed; a failed rewrite does not keep the daemon armed.\<close>

definition revert_window :: "('w, 'e) cports \<Rightarrow> ('w, 'e) control \<Rightarrow> ('w, 'e) control" where
  "revert_window p c =
     (let c1 = (case setArmedState p False ''arm_revert'' arm_expired_msg c of
                  (None, c') \<Rightarrow> c'
                | (Some e, c') \<Rightarrow> on_dm (journal (cp_ports p) ''arm_revert''
                     (arm_expired_msg @ '' (policy.yaml rewrite failed: '' @ persist_error_str e @ '')'') \<circ> set_armed_flag False) c')
      in on_dm (notifyCritical (cp_ports p) arm_expired_msg) (snd (in_dm delete_window c1)))"

definition checkArmWindow :: "('w, 'e) cports \<Rightarrow> time \<Rightarrow> ('w, 'e) control \<Rightarrow> ('w, 'e) control" where
  "checkArmWindow p now c =
     (case in_dm get_window c of
        (Inl e, c1) \<Rightarrow> c1
      | (Inr None, c1) \<Rightarrow> c1
      | (Inr (Some val), c1) \<Rightarrow>
          if \<not> IsArmed (dm_policy (cl_dm c1)) then snd (in_dm delete_window c1)
          else if now < (case parse_rfc3339 val of None \<Rightarrow> now - Second | Some t \<Rightarrow> t) then c1
          else revert_window p c1)"

definition armedUntil :: "('w, 'e) daemon \<Rightarrow> string \<times> ('w, 'e) daemon" where
  "armedUntil d =
     (if \<not> IsArmed (dm_policy d) then ([], d)
      else (case get_window d of
              (Inr (Some val), d1) \<Rightarrow> (val, d1)
            | (_, d1) \<Rightarrow> ([], d1)))"

section \<open>The panic button\<close>

definition disable_feeds :: "('w, 'e) cports \<Rightarrow> int \<Rightarrow> ('w, 'e) handler" where
  "disable_feeds p removed c =
     (case cp_feed_syncer p of
        None \<Rightarrow> (ok_with (DisableAllData True removed True), c)
      | Some sync \<Rightarrow>
          (case sync [] (dm_fw (cl_dm c)) of
             (r, fw) \<Rightarrow>
               let c1 = (on_dm (\<lambda>d. d\<lparr>dm_fw := fw\<rparr>) c)\<lparr>cl_feed_desired := []\<rparr>
               in case r of
                    None \<Rightarrow> (ok_with (DisableAllData True removed True), c1)
                  | Some e \<Rightarrow> (\<lparr>sr_error = Some (FeedsLinger removed e), sr_data = DisableAllData True removed False\<rparr>, c1)))"

definition handleDisableAll :: "('w, 'e) cports \<Rightarrow> ('w, 'e) handler" where
  "handleDisableAll p c =
     (case setArmedState p False ''disarm'' (''operator ran '' @ quoted ''ezyshield disable --all'') c of
        (Some e, c1) \<Rightarrow> (err_with (DisarmFailed e), c1)
      | (None, c1) \<Rightarrow>
          let c2 = snd (in_dm delete_window c1)
          in (case in_dm (with_store (UnbanAll (pt_clock (cp_ports p)) ''panic button: operator ran disable --all'')) c2 of
                (Inl e, c3) \<Rightarrow> (err_with (StoreFailed ''clear active bans'' e), c3)
              | (Inr removed, c3) \<Rightarrow>
                  (case in_dm (syncEnforcer (cp_ports p)) c3 of
                     (Some e, c4) \<Rightarrow> (\<lparr>sr_error = Some (SyncLingers removed e), sr_data = DisableAllData True removed False\<rparr>, c4)
                   | (None, c4) \<Rightarrow> disable_feeds p removed c4)))"

section \<open>Reading\<close>

definition handleStatus :: "('w, 'e) cports \<Rightarrow> ('w, 'e) handler" where
  "handleStatus p c =
     (case in_dm (active_bans (cp_ports p)) c of
        (Inl e, c1) \<Rightarrow> (err_with (StoreFailed ''active bans'' e), c1)
      | (Inr bans, c1) \<Rightarrow>
          (case in_dm armedUntil c1 of
             (armed_until, c2) \<Rightarrow>
               let d = cl_dm c2; armed = IsArmed (dm_policy d)
               in (ok_with (StatusData
                     \<lparr>sd_uptime = dur_str (dur_round (pt_wall (cp_ports p) - cp_start p) Second), sd_armed = armed,
                      sd_enforcement = enforcementState (map_option (\<lambda>_. armed) (dm_gate d)) (dm_health d),
                      sd_collectors = collectorsState (cp_collector_count p) (cl_collectors c2),
                      sd_cdn_ok = (case cp_cdn p of Inl e \<Rightarrow> False | Inr ps \<Rightarrow> True),
                      sd_active_bans = int (length bans) - simulated_bans bans, sd_simulated_bans = simulated_bans bans,
                      sd_armed_until = armed_until, sd_version = cp_version p\<rparr>), c2)))"

definition list_entry :: "('w, 'e) ports \<Rightarrow> action \<Rightarrow> ban_entry" where
  "list_entry p b =
     \<lparr>bx_ip = addr_str (ac_ip b), bx_ttl = ban_ttl_text b, bx_strike = ac_strike b, bx_reason = ac_reason b,
      bx_labels = geo_labels p (ac_ip b), bx_simulated = (ac_op b = ''dry_ban'')\<rparr>"

definition handleList :: "('w, 'e) ports \<Rightarrow> ('w, 'e) daemon \<Rightarrow> socket_response \<times> ('w, 'e) daemon" where
  "handleList p d =
     (case active_bans p d of
        (Inl e, d1) \<Rightarrow> (err_with (StoreFailed ''active bans'' e), d1)
      | (Inr bans, d1) \<Rightarrow> (ok_with (BanEntries (map (list_entry p) bans)), d1))"

definition handleListAllow :: "('w, 'e) ports \<Rightarrow> ('w, 'e) daemon \<Rightarrow> socket_response \<times> ('w, 'e) daemon" where
  "handleListAllow p d =
     (case list_allow d of
        (Inl e, d1) \<Rightarrow> (err_with (StoreFailed ''list allow'' e), d1)
      | (Inr entries, d1) \<Rightarrow>
          (ok_with (AllowEntries (map (\<lambda>x. (pfx_str (ae_prefix x), formatExpires (ae_expires_at x) (pt_clock p), ae_reason x)) entries)), d1))"

definition handleEvents :: "socket_request \<Rightarrow> ('w, 'e) daemon \<Rightarrow> socket_response \<times> ('w, 'e) daemon" where
  "handleEvents req d =
     (let limit = (if sq_limit req \<le> 0 then 100 else sq_limit req);
          query = (if sq_ip req = [] then Inr (ListAuditLog limit)
                   else (case parse_addr (sq_ip req) of
                           None \<Rightarrow> Inl (EventsTarget (sq_ip req)) | Some a \<Rightarrow> Inr (AuditLogForIP (unmap a) limit)))
      in case query of
           Inl e \<Rightarrow> (err_with e, d)
         | Inr q \<Rightarrow> (case with_store (reads q) d of
                       (Inl e, d1) \<Rightarrow> (err_with (StoreFailed ''list audit_log'' e), d1)
                     | (Inr rows, d1) \<Rightarrow> (ok_with (EventEntries rows), d1)))"

definition handleReport :: "('w, 'e) cports \<Rightarrow> socket_request \<Rightarrow> ('w, 'e) daemon \<Rightarrow> socket_response \<times> ('w, 'e) daemon" where
  "handleReport p req d =
     (let limit = report_limit (sq_limit req) in
      if sq_ip req = [] then
        (case handleReportList (cp_ports p) (sq_filter req) limit d of
           (Inl e, d1) \<Rightarrow> (err_with (Report e), d1) | (Inr os, d1) \<Rightarrow> (ok_with (ReportSummaries os), d1))
      else (case parse_addr (sq_ip req) of
              None \<Rightarrow> (err_with (Report (ReportTarget (sq_ip req))), d)
            | Some a \<Rightarrow>
                (case buildAbuseReport (cp_ports p) (cp_evidence p) a limit (sq_evidence req) d of
                   (Inl e, d1) \<Rightarrow> (err_with (Report e), d1) | (Inr rep, d1) \<Rightarrow> (ok_with (ReportData rep), d1))))"

definition handleMetrics :: "('w, 'e) cports \<Rightarrow> ('w, 'e) handler" where
  "handleMetrics p c = (case cp_metrics p of None \<Rightarrow> (err_with MetricsMissing, c) | Some txt \<Rightarrow> (ok_with (MetricsText txt), c))"

section \<open>Maintenance\<close>

definition prune_audit_row :: "('w, 'e) ports \<Rightarrow> ('w, 'e) daemon \<Rightarrow> prune_stat \<Rightarrow> ('w, 'e) daemon" where
  "prune_audit_row p d st =
     (if ps_count st = 0 then d
      else journal p ''retention_prune''
             (''retention prune: table='' @ ps_table st @ '' deleted='' @ int_str (ps_count st) @ '' window='' @ dur_str (ps_window st)) d)"

definition prune_store ::
  "('w, 'e) cports \<Rightarrow> retention_policy \<Rightarrow> ('w, 'e) daemon \<Rightarrow> (store_error + prune_stat list \<times> bool \<times> bool) \<times> ('w, 'e) daemon" where
  "prune_store p pol = with_store (\<lambda>db. case PruneRetention (cp_alive p) pol (pt_wall (cp_ports p)) db of
     (stats, skipped, stopped, db') \<Rightarrow> ((stats, skipped, stopped), db'))"

text \<open>The daily run: what an interrupted run deleted is journalled too.\<close>

definition runPruneOnce :: "('w, 'e) cports \<Rightarrow> ('w, 'e) daemon \<Rightarrow> ('w, 'e) daemon" where
  "runPruneOnce p d =
     (case cp_retention p of
        None \<Rightarrow> d
      | Some pol \<Rightarrow>
          (case prune_store p pol d of
             (Inl e, d1) \<Rightarrow> d1
           | (Inr (stats, skipped, stopped), d1) \<Rightarrow> foldl (prune_audit_row (cp_ports p)) d1 stats))"

definition handlePrune :: "('w, 'e) cports \<Rightarrow> socket_request \<Rightarrow> ('w, 'e) daemon \<Rightarrow> socket_response \<times> ('w, 'e) daemon" where
  "handlePrune p req d =
     (case cp_retention p of
        None \<Rightarrow> (err_with NoRetention, d)
      | Some pol \<Rightarrow>
          if sq_dry_run req then
            (case with_store (reads (CountPruneCandidates pol (pt_wall (cp_ports p)))) d of
               (Inl e, d1) \<Rightarrow> (err_with (StoreFailed ''count prune candidates'' e), d1)
             | (Inr stats, d1) \<Rightarrow>
                 (ok_with (PruneData \<lparr>pd_dry_run = True, pd_tables = stats,
                    pd_audit_skipped = (rp_audit pol > 0 \<and> \<not> rp_audit_prune_acknowledged pol), pd_vacuum_ran = False\<rparr>), d1))
          else
            (case prune_store p pol d of
               (Inl e, d1) \<Rightarrow> (err_with (StoreFailed ''prune'' e), d1)
             | (Inr (stats, skipped, stopped), d1) \<Rightarrow>
                 if stopped then (err_with PruneStopped, d1)
                 else (ok_with (PruneData \<lparr>pd_dry_run = False, pd_tables = stats, pd_audit_skipped = skipped,
                          pd_vacuum_ran = cp_vacuum p\<rparr>),
                       foldl (prune_audit_row (cp_ports p)) d1 stats)))"

section \<open>Feeds\<close>

definition feed_elem :: "duration \<Rightarrow> pfx \<Rightarrow> feed_element" where
  "feed_elem ttl q =
     \<lparr>fe_ip = (if prefix_is_single_ip q then addr_str (pfx_ip q) else pfx_str q), fe_ttl = float_seconds ttl div float_unit\<rparr>"

definition sync_feeds :: "('w, 'e) cports \<Rightarrow> feed_element list \<Rightarrow> ('w, 'e) control \<Rightarrow> ('w, 'e) control" where
  "sync_feeds p combined c =
     (if \<not> IsArmed (dm_policy (cl_dm c)) then c
      else (case cp_feed_syncer p of
              None \<Rightarrow> c
            | Some sync \<Rightarrow> on_dm (\<lambda>d. d\<lparr>dm_fw := snd (sync combined (dm_fw d))\<rparr>) c))"

text \<open>The feed's contribution replaces its last one; the whole desired set goes to the firewall.\<close>

definition applyFeedBlock :: "('w, 'e) cports \<Rightarrow> feed_update \<Rightarrow> pfx list \<Rightarrow> ('w, 'e) control \<Rightarrow> (int \<times> int) \<times> ('w, 'e) control" where
  "applyFeedBlock p u kept c =
     (let ttl = (if fu_ttl u \<le> 0 then Hour else fu_ttl u);
          elems = map (feed_elem ttl) kept;
          prev = (case gm_get (cl_feed_desired c) (fu_name u) of None \<Rightarrow> 0 | Some es \<Rightarrow> int (length es));
          c1 = c\<lparr>cl_feed_desired := gm_set (fu_name u) elems (cl_feed_desired c)\<rparr>;
          combined = concat (map snd (cp_feed_order p (cl_feed_desired c1)));
          applied = int (length elems)
      in ((applied, if prev > applied then prev - applied else 0), sync_feeds p combined c1))"

definition observeFeed :: "feed_update \<Rightarrow> pfx list \<Rightarrow> ('w, 'e) control \<Rightarrow> (int \<times> int) \<times> ('w, 'e) control" where
  "observeFeed u kept c =
     (let prev = gm_val (cl_feed_observed c) (fu_name u); applied = int (length kept)
      in ((applied, if prev > applied then prev - applied else 0),
          on_dm (\<lambda>d. d\<lparr>dm_feed_rep := feed_set (fu_name u) kept (dm_feed_rep d)\<rparr>)
            (c\<lparr>cl_feed_observed := gm_set (fu_name u) applied (cl_feed_observed c)\<rparr>)))"

definition handleFeedUpdate :: "('w, 'e) cports \<Rightarrow> feed_update \<Rightarrow> ('w, 'e) control \<Rightarrow> ('w, 'e) control" where
  "handleFeedUpdate p u c =
     (let cdn = (case cp_cdn p of Inl e \<Rightarrow> [] | Inr ps \<Rightarrow> ps);
          (kept, skipped) = filterFeedEntries (dm_static (cl_dm c)) (dm_runtime (cl_dm c)) (cp_ssh_peers p) cdn (fu_prefixes u);
          ((applied, removed), c1) = (if fu_action u = ''block'' then applyFeedBlock p u kept c else observeFeed u kept c);
          now = pt_wall (cp_ports p);
          st = \<lparr>fs_name = fu_name u, fs_action = (if fu_action u = [] then ''observe'' else fu_action u), fs_last_refresh = now,
                fs_next_refresh = (if fu_interval u > 0 then Some (now + fu_interval u) else None),
                fs_entries = applied, fs_skipped = int skipped\<rparr>;
          summary = ''feed '' @ fu_name u @ '' ('' @ fu_action u @ ''): entries='' @ int_str applied @ '' skipped_by_guardrails=''
            @ int_str (int skipped) @ '' removed='' @ int_str removed @ '' ttl='' @ dur_str (fu_ttl u)
      in on_dm (journal (cp_ports p) ''feed_refresh'' summary) (c1\<lparr>cl_feed_status := gm_set (fu_name u) st (cl_feed_status c1)\<rparr>))"

definition handleFeedsStatus :: "('w, 'e) cports \<Rightarrow> ('w, 'e) handler" where
  "handleFeedsStatus p c =
     (if \<not> cp_has_feeds p \<and> cp_feed_refresh p = None then (err_with NoFeeds, c)
      else (ok_with (FeedsStatus (sort_key fs_name (map snd (cl_feed_status c)))), c))"

definition handleFeedsRefresh :: "('w, 'e) cports \<Rightarrow> socket_request \<Rightarrow> ('w, 'e) handler" where
  "handleFeedsRefresh p req c =
     (case cp_feed_refresh p of
        None \<Rightarrow> (err_with NoFeeds, c)
      | Some refresh \<Rightarrow>
          (case refresh (sq_name req) of
             (updates, r) \<Rightarrow>
               ((case r of Inl e \<Rightarrow> err_with (FeedRefreshFailed e) | Inr n \<Rightarrow> ok_with (FeedsRefreshed n)),
                foldl (\<lambda>c u. handleFeedUpdate p u c) c updates)))"

section \<open>One request\<close>

definition readOnlyVerbs :: "string list" where
  "readOnlyVerbs = [''status'', ''list'', ''list_allow'', ''events'', ''report'', ''subscribe'', ''metrics'', ''feeds_status'']"

definition mutatingVerbs :: "string list" where
  "mutatingVerbs = [''arm'', ''arm_keep'', ''disarm'', ''ban'', ''unban'', ''allow'', ''unallow'', ''feeds_refresh'', ''disable_all'', ''prune'']"

definition auditSocketCmd :: "('w, 'e) cports \<Rightarrow> socket_request \<Rightarrow> bool \<Rightarrow> ('w, 'e) control \<Rightarrow> ('w, 'e) control" where
  "auditSocketCmd p req success =
     (let peer = (case cp_cred p of None \<Rightarrow> ''peer=unknown''
                  | Some (uid, gid) \<Rightarrow> ''peer_uid='' @ nat_str uid @ '' peer_gid='' @ nat_str gid);
          tgt = take 64 (sq_ip req);
          flag = (if success then ''true'' else ''false'');
          reason = (if tgt = [] then ''verb='' @ sq_verb req @ '' ok='' @ flag @ '' '' @ peer
                    else ''verb='' @ sq_verb req @ '' target='' @ tgt @ '' ok='' @ flag @ '' '' @ peer)
      in on_dm (journal (cp_ports p) ''socket_cmd'' reason))"

text \<open>The switch over the verb; \<open>subscribe\<close> acknowledges and streams.\<close>

definition dispatch_verb_of :: "('w, 'e) cports \<Rightarrow> socket_request \<Rightarrow> ('w, 'e) handler" where
  "dispatch_verb_of p req c =
     (let v = sq_verb req; q = cp_ports p in
      if v = ''status'' then handleStatus p c
      else if v = ''list'' then in_dm (handleList q) c
      else if v = ''list_allow'' then in_dm (handleListAllow q) c
      else if v = ''events'' then in_dm (handleEvents req) c
      else if v = ''report'' then in_dm (handleReport p req) c
      else if v = ''subscribe'' then (ok_with NoData, c)
      else if v = ''arm'' then handleArm p req c
      else if v = ''arm_keep'' then handleArmKeep p c
      else if v = ''disarm'' then handleDisarm p c
      else if v = ''ban'' then in_dm (handleBan q req) c
      else if v = ''unban'' then in_dm (handleUnban q req) c
      else if v = ''allow'' then in_dm (handleAllow q req) c
      else if v = ''unallow'' then in_dm (handleUnallow q req) c
      else if v = ''metrics'' then handleMetrics p c
      else if v = ''feeds_status'' then handleFeedsStatus p c
      else if v = ''feeds_refresh'' then handleFeedsRefresh p req c
      else if v = ''disable_all'' then handleDisableAll p c
      else if v = ''prune'' then in_dm (handlePrune p req) c
      else (err_with (UnknownSocketVerb v), c))"

definition handleConnScoped :: "('w, 'e) cports \<Rightarrow> bool \<Rightarrow> socket_request \<Rightarrow> ('w, 'e) handler" where
  "handleConnScoped p readOnly req c =
     (if readOnly \<and> sq_verb req \<notin> set readOnlyVerbs then
        (err_with (ReadOnlyRefused (sq_verb req)),
         if sq_verb req \<in> set mutatingVerbs then auditSocketCmd p req False c else c)
      else (case dispatch_verb_of p req c of
              (resp, c1) \<Rightarrow>
                (resp, if sq_verb req \<in> set mutatingVerbs then auditSocketCmd p req (sr_error resp = None) c1 else c1)))"

end
