(* ===== verification/DecisionFrame.thy ===== *)
theory DecisionFrame
  imports DecisionProps
begin

text \<open>
  What a decision leaves alone: the policy and the allowlist of the engine, and, of the store,
  everything each single store operation leaves alone (the locale \<open>ops_related\<close>).
\<close>

section \<open>The engine\<close>

definition rules_kept :: "engine \<Rightarrow> engine \<Rightarrow> bool" where
  "rules_kept e e' \<longleftrightarrow> dc_policy e' = dc_policy e \<and> dc_allow e' = dc_allow e"

lemma rules_kept_refl [simp]: "rules_kept e e"
  by (simp add: rules_kept_def)

lemma rules_kept_parts [simp]:
  "rules_kept e (clearNotifyEdge ip e') = rules_kept e e'" "rules_kept e (warnCDNRangesUnavailable env e') = rules_kept e e'"
  by (simp_all add: rules_kept_def clearNotifyEdge_def warnCDNRangesUnavailable_def Let_def)

lemma rules_kept_warned [simp]: "rules_kept (warnCDNRangesUnavailable env e) e' = rules_kept e e'"
  by (simp add: rules_kept_def warnCDNRangesUnavailable_def Let_def)

lemma rate_rules: "checkRateLimit now e = (ok, e') \<Longrightarrow> rules_kept e e'"
  by (auto simp: checkRateLimit_def Let_def rules_kept_def)

lemma edge_rules: "notifyEdgeRising order ip rule now e = (b, e') \<Longrightarrow> rules_kept e e'"
  by (auto simp: notifyEdgeRising_def Let_def rules_kept_def split: if_splits option.splits)

lemma rules_kept_peers: "activeSSHPeers env e = (ps, e') \<Longrightarrow> rules_kept e e'"
  using peers_frame [of env e] by (simp add: rules_kept_def)

lemma rules_kept_trans: "rules_kept a b \<Longrightarrow> rules_kept b c \<Longrightarrow> rules_kept a c"
  by (simp add: rules_kept_def)

lemma rate_gate_rules: "rate_gate ops env e ip n s = (ok, e', s') \<Longrightarrow> rules_kept e e'"
  by (auto simp: rate_gate_def split: if_splits prod.splits bool.splits dest: rate_rules)

lemma strike_path_rules: "strike_path ops env e ip b vs unv s = (r, ds, e', s') \<Longrightarrow> rules_kept e e'"
  by (auto simp: strike_path_def Let_def split: prod.splits sum.splits if_splits bool.splits dest!: rate_gate_rules)

lemma suppress_path_rules: "suppress_path ops env e ip t n dry vs s = (r, ds, e', s') \<Longrightarrow> rules_kept e e'"
  by (auto simp: suppress_path_def Let_def split: prod.splits sum.splits)

lemma ban_path_rules: "ban_path ops env e ip b vs unv s = (r, ds, e', s') \<Longrightarrow> rules_kept e e'"
  by (auto simp: ban_path_def split: prod.splits sum.splits option.splits if_splits
      dest: strike_path_rules suppress_path_rules)

lemma notify_path_rules: "notify_path ops env e ip b vs s = (r, ds, e', s') \<Longrightarrow> rules_kept e e'"
  by (auto simp: notify_path_def Let_def split: prod.splits sum.splits bool.splits dest: edge_rules)

lemma score_path_rules: "score_path ops env e ip b vs unv s = (r, ds, e', s') \<Longrightarrow> rules_kept e e'"
  by (auto simp: score_path_def audited_def split: if_splits option.splits dest: notify_path_rules ban_path_rules)

lemma cdn_path_rules: "cdn_path ops env e ip b vs s = (r, ds, e', s') \<Longrightarrow> rules_kept e e'"
  by (auto simp: cdn_path_def audited_def split: if_splits option.splits sum.splits
      dest!: score_path_rules intro: rules_kept_trans)

lemma Decide_rules: "Decide ops env vs e s = (r, ds, e', s') \<Longrightarrow> rules_kept e e'"
  by (cases vs) (auto simp: audited_def Let_def split: if_splits prod.splits
      dest!: cdn_path_rules rules_kept_peers intro: rules_kept_trans)

lemma manual_rate_rules: "manual_rate env e = (r, e') \<Longrightarrow> rules_kept e e'"
  by (auto simp: manual_rate_def split: prod.splits dest: rate_rules)

lemma AuthorizeManualBan_rules: "AuthorizeManualBan env t force peers e = (r, e') \<Longrightarrow> rules_kept e e'"
  by (auto simp: AuthorizeManualBan_def split: sum.splits option.splits prod.splits if_splits
      dest!: rules_kept_peers manual_rate_rules intro: rules_kept_trans)

section \<open>The store\<close>

locale ops_related =
  fixes ops :: "'s store_ops" and R :: "'s \<Rightarrow> 's \<Rightarrow> bool"
  assumes refl [simp]: "R s s"
    and trans: "R a b \<Longrightarrow> R b c \<Longrightarrow> R a c"
    and get_ban_info: "R s (snd (so_get_ban_info ops ip s))"
    and record_suppressed: "R s (snd (so_record_suppressed ops ip ag s))"
    and mark_ban_ineffective: "R s (snd (so_mark_ban_ineffective ops ip s))"
    and had_ineffective_ban: "R s (snd (so_had_ineffective_ban ops ip s))"
    and bump_last_seen: "R s (snd (so_bump_last_seen ops ip s))"
    and get_strike_count: "R s (snd (so_get_strike_count ops ip s))"
    and last_strike: "R s (snd (so_last_strike ops ip s))"
    and record_strike: "R s (snd (so_record_strike ops act s))"
    and audit: "R s (snd (so_audit ops act s))"
begin

lemma rate_gate: "rate_gate ops env e ip n s = (ok, e', s') \<Longrightarrow> R s s'"
  using last_strike [of s ip]
  by (auto simp: rate_gate_def escalationExempt_def split: if_splits prod.splits sum.splits option.splits bool.splits)

lemma permanent_alert: "permanent_alert ops env ip n ttl s = (ds, s') \<Longrightarrow> R s s'"
  using had_ineffective_ban [of s ip]
  by (auto simp: permanent_alert_def split: if_splits prod.splits sum.splits bool.splits)

lemma track: "trackSuppressedEvent ops env e ip t n s = (r, s') \<Longrightarrow> R s s'"
proof -
  assume a: "trackSuppressedEvent ops env e ip t n s = (r, s')"
  obtain r1 s1 where 1: "so_record_suppressed ops ip (de_clock env - t \<ge> po_ban_ineffective_grace (dc_policy e)) s = (r1, s1)"
    by fastforce
  have s1: "R s s1" using record_suppressed [of s ip "de_clock env - t \<ge> po_ban_ineffective_grace (dc_policy e)"] 1 by simp
  obtain r2 s2 where 2: "so_mark_ban_ineffective ops ip s1 = (r2, s2)" by fastforce
  have s2: "R s s2" using mark_ban_ineffective [of s1 ip] 2 trans [OF s1] by simp
  show "R s s'" using a 1 2 s1 s2
    by (auto simp: trackSuppressedEvent_def Let_def split: sum.splits prod.splits option.splits if_splits)
qed

lemma strike_path: "strike_path ops env e ip b vs unv s = (r, ds, e', s') \<Longrightarrow> R s s'"
proof -
  assume a: "strike_path ops env e ip b vs unv s = (r, ds, e', s')"
  obtain c s1 where 1: "so_get_strike_count ops ip s = (c, s1)" by fastforce
  have s1: "R s s1" using get_strike_count [of s ip] 1 by simp
  have rs: "R x (snd (so_record_strike ops act x))" for act x by (rule record_strike)
  show ?thesis using a 1 s1
    by (auto simp: strike_path_def Let_def split: sum.splits prod.splits if_splits bool.splits
        dest!: rate_gate permanent_alert) (metis rs snd_conv trans)+
qed

lemma suppress_path: "suppress_path ops env e ip t n dry vs s = (r, ds, e', s') \<Longrightarrow> R s s'"
  using bump_last_seen trans by (fastforce simp: suppress_path_def Let_def split: prod.splits sum.splits dest!: track)

lemma ban_path: "ban_path ops env e ip b vs unv s = (r, ds, e', s') \<Longrightarrow> R s s'"
proof -
  assume a: "ban_path ops env e ip b vs unv s = (r, ds, e', s')"
  obtain c s1 where 1: "so_get_ban_info ops ip s = (c, s1)" by fastforce
  have s1: "R s s1" using get_ban_info [of s ip] 1 by simp
  show ?thesis using a 1 trans [OF s1]
    by (auto simp: ban_path_def split: sum.splits option.splits if_splits dest!: strike_path suppress_path)
qed

lemma audited: "audited ops e act s = (r, ds, e', s') \<Longrightarrow> R s s'"
  using audit [of s act] by (auto simp: audited_def)

lemma notify_path: "notify_path ops env e ip b vs s = (r, ds, e', s') \<Longrightarrow> R s s'"
  using audit [of s "plain_action ip ''notify_only'' (vd_reason b) vs"]
  by (auto simp: notify_path_def Let_def split: prod.splits sum.splits bool.splits)

lemma score_path: "score_path ops env e ip b vs unv s = (r, ds, e', s') \<Longrightarrow> R s s'"
  by (auto simp: score_path_def split: if_splits option.splits dest: notify_path ban_path audited)

lemma Decide_related: "Decide ops env vs e s = (r, ds, e', s') \<Longrightarrow> R s s'"
  by (cases vs) (auto simp: cdn_path_def Let_def split: if_splits prod.splits option.splits sum.splits
      dest: score_path audited)

end

end
