(* ===== verification/DaemonFrame.thy ===== *)
theory DaemonFrame
  imports Control DecisionFrame
begin

text \<open>
  What the steps of the daemon leave alone.  A quiet step touches neither the firewall nor the
  guards, nor what is banned, allowed or stored as daemon state; almost everything the pipeline
  does apart from the decision and the enforcement is quiet.
\<close>

section \<open>Quiet steps\<close>

definition tables_kept :: "db \<Rightarrow> db \<Rightarrow> bool" where
  "tables_kept a b \<longleftrightarrow> db_bans b = db_bans a \<and> db_allow b = db_allow a \<and> db_state b = db_state a
     \<and> (\<forall>ip. GetStrikeCount ip b = GetStrikeCount ip a)"

definition guards_kept :: "('w, 'e) daemon \<Rightarrow> ('w, 'e) daemon \<Rightarrow> bool" where
  "guards_kept d d' \<longleftrightarrow> dm_gate d' = dm_gate d \<and> dm_static d' = dm_static d \<and> dm_runtime d' = dm_runtime d
     \<and> dm_policy d' = dm_policy d \<and> dc_allow (dm_engine d') = dc_allow (dm_engine d)"

definition quiet :: "('w, 'e) daemon \<Rightarrow> ('w, 'e) daemon \<Rightarrow> bool" where
  "quiet d d' \<longleftrightarrow> dm_fw d' = dm_fw d \<and> guards_kept d d' \<and> tables_kept (dm_db d) (dm_db d')"

lemma tables_kept_refl [simp]: "tables_kept a a"
  by (simp add: tables_kept_def)

lemma guards_kept_refl [simp]: "guards_kept d d"
  by (simp add: guards_kept_def)

lemma guards_kept_trans: "guards_kept a b \<Longrightarrow> guards_kept b c \<Longrightarrow> guards_kept a c"
  by (simp add: guards_kept_def)

lemma quiet_refl [simp]: "quiet d d"
  by (simp add: quiet_def)

lemma quiet_trans: "quiet a b \<Longrightarrow> quiet b c \<Longrightarrow> quiet a c"
  by (simp add: quiet_def guards_kept_def tables_kept_def)

lemma quiet_guards: "quiet a b \<Longrightarrow> guards_kept a b"
  by (simp add: quiet_def)

lemma quiet_fw: "quiet a b \<Longrightarrow> dm_fw b = dm_fw a"
  by (simp add: quiet_def)

lemma quiet_allowlisted: "guards_kept a b \<Longrightarrow> isRuntimeAllowlisted b ip = isRuntimeAllowlisted a ip"
  by (simp add: guards_kept_def isRuntimeAllowlisted_def)

text \<open>A change of the fields no guard reads.\<close>

lemma quiet_update:
  "quiet a (b\<lparr>dm_agg := x1\<rparr>) = quiet a b" "quiet a (b\<lparr>dm_recheck := x2\<rparr>) = quiet a b" "quiet a (b\<lparr>dm_gated := x3\<rparr>) = quiet a b"
  "quiet a (b\<lparr>dm_health := x4\<rparr>) = quiet a b" "quiet a (b\<lparr>dm_notify_sup := x5\<rparr>) = quiet a b" "quiet a (b\<lparr>dm_ineff := x6\<rparr>) = quiet a b"
  "quiet a (b\<lparr>dm_ai := x7\<rparr>) = quiet a b" "quiet a (b\<lparr>dm_feed_rep := x8\<rparr>) = quiet a b" "quiet a (b\<lparr>dm_out := x9\<rparr>) = quiet a b"
  by (simp_all add: quiet_def guards_kept_def)

lemmas quiet_simps [simp] = quiet_update

section \<open>Store calls\<close>

lemma with_store_quiet:
  assumes "with_store f d = (r, d')" and "\<And>db. tables_kept db (snd (f db))"
  shows "quiet d d'"
  using assms by (auto simp: with_store_def faulty_def quiet_def guards_kept_def split: prod.splits if_splits)

lemma reads_kept [simp]: "tables_kept db (snd (reads f db))"
  by (simp add: reads_def)

lemma tables_audit [simp]: "tables_kept db (insert_audit t opn sub ttl n reason db)"
  by (simp add: tables_kept_def insert_audit_def GetStrikeCount_def)

lemma writes_kept [simp]:
  "tables_kept db (snd (writes (Audit t a) db))" "tables_kept db (snd (writes (AuditOp t opn px ttl reason) db))"
  "tables_kept db (snd (writes (AuditSystem t opn reason) db))"
  by (simp_all add: writes_def Audit_def AuditOp_def AuditSystem_def)

lemma bump_kept [simp]: "tables_kept db (snd (writes (BumpLastSeen t ip) db))"
  using views_bump(1) [of _ t ip db] by (simp add: writes_def tables_kept_def) (simp add: BumpLastSeen_def upsert_offender_def)

lemma tables_kept_trans: "tables_kept a b \<Longrightarrow> tables_kept b c \<Longrightarrow> tables_kept a c"
  by (simp add: tables_kept_def)

lemma tables_kept_foldl: "(\<And>s x. tables_kept s (f s x)) \<Longrightarrow> tables_kept s (foldl f s xs)"
proof (induction xs arbitrary: s)
  case (Cons x xs)
  then show ?case using tables_kept_trans by fastforce
qed simp

lemma consume_kind_kept: "tables_kept db (consume_kind ip ws now totals db k)"
  by (simp add: consume_kind_def tables_kept_def GetStrikeCount_def Let_def split: option.split)

lemma consume_kept: "tables_kept db (ConsumeEventCounts ip ws t db)"
  unfolding ConsumeEventCounts_def Let_def
  by (rule tables_kept_foldl) (auto intro: tables_kept_foldl consume_kind_kept split: prod.splits)

lemma tables_counts [simp]:
  "tables_kept db (snd (writes (IncrEventCount ip kind b) db))"
  "tables_kept db (snd (writes (ConsumeEventCounts ip ws t) db))"
  "tables_kept db (snd (PruneEventCounts b db))"
  using consume_kept [of db ip ws t]
  by (simp_all add: writes_def tables_kept_def IncrEventCount_def PruneEventCounts_def GetStrikeCount_def Let_def)

lemma usage_kept: "tables_kept db (RecordUsage t prov u ip db)"
  by (simp add: tables_kept_def RecordUsage_def GetStrikeCount_def)

lemma store_call_quiet:
  "quiet d (snd (with_store (reads g) d))" "quiet d (snd (with_store (writes (Audit t a)) d))"
  "quiet d (snd (with_store (writes (AuditOp t opn px ttl reason)) d))"
  "quiet d (snd (with_store (writes (AuditSystem t opn reason)) d))"
  "quiet d (snd (with_store (writes (BumpLastSeen t ip)) d))"
  "quiet d (snd (with_store (writes (IncrEventCount ip kind b)) d))"
  "quiet d (snd (with_store (writes (ConsumeEventCounts ip ws t)) d))"
  "quiet d (snd (with_store (PruneEventCounts b) d))"
  by (rule with_store_quiet [OF surjective_pairing], simp)+

section \<open>Telling the outside\<close>

lemma emit_quiet [simp]: "quiet a (emit os d) = quiet a d"
  by (simp add: emit_def)

lemma notify_quiet [simp]: "quiet a (notify p n d) = quiet a d" "quiet a (notifyCritical p msg d) = quiet a d"
  by (simp_all add: notify_def notifyCritical_def)

lemma publish_quiet [simp]:
  "quiet a (publishActionEvent kind ip n ttl reason src d) = quiet a d" "quiet a (publishDetections vs d) = quiet a d"
  by (simp_all add: publishActionEvent_def publishDetections_def)

lemma auditEnfTransition_quiet: "quiet d (auditEnfTransition p opn reason d)"
  by (simp add: auditEnfTransition_def store_call_quiet)

lemma record_enforce_quiet: "quiet d (record_enforce p opn r d)"
proof -
  have "quiet d (auditEnfTransition p o1 reason (d\<lparr>dm_health := h\<rparr>))" for o1 reason h
    using quiet_trans [of d "d\<lparr>dm_health := h\<rparr>"] auditEnfTransition_quiet by fastforce
  then show ?thesis
    by (auto simp: record_enforce_def Let_def split: prod.splits option.splits enf_transition.splits)
qed

lemma notifyEnforcerFailure_quiet [simp]: "quiet a (notifyEnforcerFailure p ip e d) = quiet a d"
  by (simp add: notifyEnforcerFailure_def)

lemma notify_action_quiet: "quiet a (notify_action p act d) = quiet a d"
  by (auto simp: notify_action_def Let_def split: option.splits prod.splits)

lemma consume_evidence_quiet: "quiet d (consume_evidence p act d)"
  using quiet_trans [OF _ store_call_quiet(7), of d "d\<lparr>dm_agg := agg_reset (ac_ip act) (dm_agg d)\<rparr>"]
  by (auto simp: consume_evidence_def Let_def)

lemma schedule_quiet:
  "quiet a (deferGatedBan p ip d) = quiet a d" "quiet a (maybeScheduleSSHRecheck p act vs d) = quiet a d"
  by (simp_all add: deferGatedBan_def maybeScheduleSSHRecheck_def)

lemma deliver_quiet: "quiet a (deliver p d x) = quiet a d"
  by (cases x) (auto simp: Let_def split: prod.splits)

section \<open>The rules and the AI layer\<close>

lemma with_reads: "with_store (reads g) d = (r, d') \<Longrightarrow> quiet d d'"
  using store_call_quiet(1) [of d g] by simp

lemma evaluateLongRules_quiet: "evaluateLongRules p ip ws d = (vs, d') \<Longrightarrow> quiet d d'"
proof (induction ws arbitrary: d vs d')
  case (Cons wk ws)
  obtain w kinds where wk: "wk = (w, kinds)" by fastforce
  obtain r d1 where 1: "with_store (reads (SumEventCounts ip kinds (HourBucket (pt_clock p - w)))) d = (r, d1)" by fastforce
  obtain r2 d2 where 2: "with_store (reads (ConsumedEventCounts ip w (pt_clock p))) d1 = (r2, d2)" by fastforce
  obtain vs3 d3 where 3: "evaluateLongRules p ip ws d2 = (vs3, d3)" by fastforce
  show ?case
  proof (cases r)
    case (Inl e)
    then show ?thesis using Cons 1 quiet_trans [OF with_reads [OF 1]] by (auto simp: wk)
  next
    case (Inr tot)
    then have "d' = d3" using Cons.prems 1 2 3 by (auto simp: wk Let_def split: if_splits)
    then show ?thesis using quiet_trans [OF with_reads [OF 1]] quiet_trans [OF with_reads [OF 2]] Cons.IH [OF 3] by blast
  qed
qed simp

lemma evaluateRules_quiet: "evaluateRules p ip wl d = (vs, d') \<Longrightarrow> quiet d d'"
  using evaluateLongRules_quiet by (auto simp: evaluateRules_def Let_def split: if_splits prod.splits)

lemma store_only_quiet: "tables_kept (dm_db d) (snd s) \<Longrightarrow> quiet d (d\<lparr>dm_store := s\<rparr>)"
  by (simp add: quiet_def guards_kept_def)

lemma faulty_kept: "faulty f s = (r, s') \<Longrightarrow> (\<And>db. tables_kept db (snd (f db))) \<Longrightarrow> tables_kept (snd s) (snd s')"
  by (auto simp: faulty_def split: prod.splits if_splits)

lemma Budget_Current_kept: "Budget_Current now b s = (r, s') \<Longrightarrow> tables_kept (snd s) (snd s')"
  by (auto simp: Budget_Current_def split: if_splits prod.splits sum.splits dest!: faulty_kept)

lemma Budget_Exceeded_kept: "Budget_Exceeded now b s = (r, s') \<Longrightarrow> tables_kept (snd s) (snd s')"
  by (auto simp: Budget_Exceeded_def split: if_splits prod.splits sum.splits dest!: Budget_Current_kept)

lemma Budget_Consume_kept: "Budget_Consume now u ip b s = (r, b', s') \<Longrightarrow> tables_kept (snd s) (snd s')"
  using usage_kept by (auto simp: Budget_Consume_def Let_def split: if_splits prod.splits sum.splits
      dest!: faulty_kept Budget_Current_kept intro: tables_kept_trans)

lemma aiEligible_quiet: "aiEligible p ip n d = (b, d') \<Longrightarrow> quiet d d'"
proof -
  assume a: "aiEligible p ip n d = (b, d')"
  obtain r d1 where 1: "with_store (reads (GetBanInfo (pt_clock p) (unmap ip))) d = (r, d1)" by fastforce
  note q1 = with_reads [OF 1]
  have "quiet d1 (d1\<lparr>dm_store := s\<rparr>)" if "Budget_Exceeded (pt_wall p) bg (dm_store d1) = (r', s)" for r' s bg
    using Budget_Exceeded_kept [OF that] by (rule store_only_quiet)
  then show ?thesis using a q1 quiet_trans [OF q1]
    by (auto simp: aiEligible_def 1 split: option.splits if_splits prod.splits sum.splits bool.splits)
qed

lemma consultProvider_quiet: "consultProvider p ip aggs d = (r, d') \<Longrightarrow> quiet d d'"
proof -
  assume a: "consultProvider p ip aggs d = (r, d')"
  have cur: "quiet d (d\<lparr>dm_ai := x, dm_store := s\<rparr>)" if "Budget_Current (pt_wall p) bg (dm_store d) = (r', s)" for r' s bg x
    using store_only_quiet [of "d\<lparr>dm_ai := x\<rparr>" s] Budget_Current_kept [OF that] quiet_trans [of d "d\<lparr>dm_ai := x\<rparr>"] by simp
  have con: "quiet d (d\<lparr>dm_ai := x, dm_store := s2\<rparr>)"
    if "Budget_Current (pt_wall p) bg (dm_store d) = (r', s)" "Budget_Consume (pt_wall p) u ip bg s = (r2, b2, s2)" for r' s bg x u r2 b2 s2
    using store_only_quiet [of "d\<lparr>dm_ai := x\<rparr>" s2] tables_kept_trans [OF Budget_Current_kept [OF that(1)] Budget_Consume_kept [OF that(2)]]
      quiet_trans [of d "d\<lparr>dm_ai := x\<rparr>"] by simp
  show ?thesis using a cur con
    by (auto simp: consultProvider_def Let_def split: option.splits prod.splits sum.splits)
qed

lemma maybeConsultAI_quiet: "maybeConsultAI p ip vs d = (vs', d') \<Longrightarrow> quiet d d'"
  using aiEligible_quiet consultProvider_quiet quiet_trans
  by (auto simp: maybeConsultAI_def split: prod.splits bool.splits) blast

lemma maybeEnqueueAI_quiet: "quiet d (maybeEnqueueAI p ip n d)"
  using aiEligible_quiet by (auto simp: maybeEnqueueAI_def split: prod.splits bool.splits)

section \<open>Decision and dispatch\<close>

definition same_settings :: "fstore \<Rightarrow> fstore \<Rightarrow> bool" where
  "same_settings s s' \<longleftrightarrow> db_allow (snd s') = db_allow (snd s) \<and> db_state (snd s') = db_state (snd s)"

lemma faulty_settings: "(\<And>db. db_allow (snd (f db)) = db_allow db \<and> db_state (snd (f db)) = db_state db) \<Longrightarrow> same_settings s (snd (faulty f s))"
  by (auto simp: same_settings_def faulty_def split: prod.splits)

interpretation settings: ops_related "db_ops c" same_settings for c
proof
  show "same_settings s s" for s by (simp add: same_settings_def)
  show "same_settings a b \<Longrightarrow> same_settings b d \<Longrightarrow> same_settings a d" for a b d by (simp add: same_settings_def)
qed (auto simp: db_ops_def intro!: faulty_settings simp: RecordSuppressed_def MarkBanIneffective_def BumpLastSeen_def
    RecordStrike_def Audit_def upsert_offender_def insert_strike_def insert_audit_def Let_def split: option.splits)

text \<open>A decision reaches no address but the one its verdicts name, and not the firewall.\<close>

definition confined :: "time \<Rightarrow> addr \<Rightarrow> ('w, 'e) daemon \<Rightarrow> ('w, 'e) daemon \<Rightarrow> bool" where
  "confined c ip d d' \<longleftrightarrow> guards_kept d d' \<and> db_allow (dm_db d') = db_allow (dm_db d) \<and> db_state (dm_db d') = db_state (dm_db d)
     \<and> (\<forall>x. x \<noteq> ip \<longrightarrow> GetStrikeCount x (dm_db d') = GetStrikeCount x (dm_db d) \<and> GetBanInfo c x (dm_db d') = GetBanInfo c x (dm_db d))"

lemma confined_refl [simp]: "confined c ip d d"
  by (simp add: confined_def)

lemma confined_trans: "confined c ip a b \<Longrightarrow> confined c ip b e \<Longrightarrow> confined c ip a e"
  by (simp add: confined_def guards_kept_def)

lemma confined_calm: "guards_kept d d' \<Longrightarrow> tables_kept (dm_db d) (dm_db d') \<Longrightarrow> confined c ip d d'"
  by (simp add: confined_def tables_kept_def GetBanInfo_def)

lemma confined_quiet: "quiet d d' \<Longrightarrow> confined c ip d d'"
  by (simp add: quiet_def confined_calm)

lemma foldl_deliver_quiet: "quiet a (foldl (deliver p) d ds) = quiet a d"
  by (induction ds arbitrary: d) (simp_all add: deliver_quiet)

lemma decide_step_frame:
  assumes "decide_step p vs d = (r, d')"
  shows "dm_fw d' = dm_fw d" and "confined (pt_clock p) (decided_ip vs) d d'"
    and "r = Inr act \<Longrightarrow> vs \<noteq> [] \<Longrightarrow> ac_ip act = decided_ip vs \<and> (ac_op act = ''ban'' \<longrightarrow> IsArmed (dm_policy d))"
proof -
  obtain ds e s where dec: "Decide (db_ops (pt_clock p)) (pt_decide p) vs (dm_engine d) (dm_store d) = (r, ds, e, s)"
    using assms by (auto simp: decide_step_def split: prod.splits)
  let ?d1 = "d\<lparr>dm_engine := e, dm_store := s\<rparr>"
  have q: "quiet ?d1 d'" using assms dec foldl_deliver_quiet [of ?d1 p ?d1 ds] by (simp add: decide_step_def)
  then show "dm_fw d' = dm_fw d" by (simp add: quiet_def)
  obtain fs db where st: "dm_store d = (fs, db)" by fastforce
  obtain fs' db' where s: "s = (fs', db')" by fastforce
  note eff = decide_strikes_at [OF dec [unfolded st s]]
  have views: "\<forall>x. x \<noteq> decided_ip vs \<longrightarrow> GetStrikeCount x db' = GetStrikeCount x db \<and> GetBanInfo (pt_clock p) x db' = GetBanInfo (pt_clock p) x db"
    using eff by (auto split: sum.splits if_splits)
  have "confined (pt_clock p) (decided_ip vs) d ?d1"
    using views Decide_rules [OF dec] settings.Decide_related [OF dec]
    by (simp add: confined_def guards_kept_def rules_kept_def same_settings_def st s)
  then show "confined (pt_clock p) (decided_ip vs) d d'" using confined_quiet [OF q] confined_trans by blast
  show "ac_ip act = decided_ip vs \<and> (ac_op act = ''ban'' \<longrightarrow> IsArmed (dm_policy d))" if r: "r = Inr act" "vs \<noteq> []"
  proof (cases vs)
    case (Cons v ws)
    show ?thesis using Decide_outcome [of "db_ops (pt_clock p)" "pt_decide p" v ws] dec r Cons
      by (fastforce split: if_splits)
  qed (use r in simp)
qed

lemma enforce_action_frame:
  "guards_kept d (enforce_action p act d) \<and> tables_kept (dm_db d) (dm_db (enforce_action p act d))
   \<and> dm_fw (enforce_action p act d) = (case dm_gate d of None \<Rightarrow> dm_fw d | Some g \<Rightarrow>
       if ac_op act = ''ban'' then snd (Gate_Ban (pt_inner p) g (pt_view p) (ban_target (ac_ip act) (ac_ttl act)) (dm_fw d)) else dm_fw d)"
proof (cases "dm_gate d = None \<or> ac_op act \<noteq> ''ban''")
  case True
  then show ?thesis by (auto simp: enforce_action_def split: option.splits)
next
  case False
  then obtain g where g: "dm_gate d = Some g" "ac_op act = ''ban''" by auto
  obtain r fw where gb: "Gate_Ban (pt_inner p) g (pt_view p) (ban_target (ac_ip act) (ac_ttl act)) (dm_fw d) = (r, fw)" by fastforce
  let ?d1 = "d\<lparr>dm_fw := fw\<rparr>"
  have "quiet ?d1 (enforce_action p act d)"
    using g gb record_enforce_quiet [of ?d1 p "''ban''" r]
      quiet_trans [of ?d1 _ "record_enforce p ''ban'' r _", OF _ record_enforce_quiet]
    by (auto simp: enforce_action_def gate_ban_def schedule_quiet split: option.splits)
  then show ?thesis using g gb by (simp add: quiet_def guards_kept_def)
qed

lemma dispatch_action_frame:
  "guards_kept d (dispatch_action p act d) \<and> tables_kept (dm_db d) (dm_db (dispatch_action p act d))
   \<and> dm_fw (dispatch_action p act d) = (case dm_gate d of None \<Rightarrow> dm_fw d | Some g \<Rightarrow>
       if ac_op act = ''ban'' then snd (Gate_Ban (pt_inner p) g (pt_view p) (ban_target (ac_ip act) (ac_ttl act)) (dm_fw d)) else dm_fw d)"
proof -
  let ?d2 = "publishActionEvent (ac_op act) (addr_str (ac_ip act)) (ac_strike act) (ac_ttl act) (ac_reason act) ''pipeline'' (emit [OAction act] d)"
  let ?d3 = "consume_evidence p act ?d2"
  have q3: "quiet d ?d3" using quiet_trans [OF _ consume_evidence_quiet [of ?d2 p act], of d] by simp
  have q4: "quiet (enforce_action p act ?d3) (dispatch_action p act d)"
    by (simp add: dispatch_action_def Let_def notify_action_quiet)
  note ea = enforce_action_frame [of ?d3 p act]
  have g3: "dm_gate ?d3 = dm_gate d" "dm_fw ?d3 = dm_fw d" using q3 by (simp_all add: quiet_def guards_kept_def)
  have "dm_fw (dispatch_action p act d) = dm_fw (enforce_action p act ?d3)" using q4 by (simp add: quiet_def)
  then have "dm_fw (dispatch_action p act d) = (case dm_gate d of None \<Rightarrow> dm_fw d | Some g \<Rightarrow>
       if ac_op act = ''ban'' then snd (Gate_Ban (pt_inner p) g (pt_view p) (ban_target (ac_ip act) (ac_ttl act)) (dm_fw d)) else dm_fw d)"
    using ea unfolding g3 by simp
  moreover have "guards_kept d (dispatch_action p act d)"
    using guards_kept_trans [OF quiet_guards [OF q3]] guards_kept_trans [OF _ quiet_guards [OF q4]] ea by blast
  moreover have "tables_kept (dm_db d) (dm_db (dispatch_action p act d))"
    using ea q3 q4 tables_kept_trans unfolding quiet_def by blast
  ultimately show ?thesis by blast
qed

section \<open>A daemon for the witnesses\<close>

text \<open>A fresh daemon with the engine and the tables of the witnesses of the decision engine; \<open>fs\<close> are its store faults.\<close>

definition demo_agg :: aggregator where
  "demo_agg = \<lparr>gg_windows = [Minute], gg_max_window = Minute, gg_bucket = Minute, gg_max_samp = 10, gg_max_ips = 100,
     gg_classify = None, gg_buckets = []\<rparr>"

definition demo_daemon :: "'w gate option \<Rightarrow> 'e \<Rightarrow> bool list \<Rightarrow> ('w, 'e) daemon" where
  "demo_daemon g fw fs = \<lparr>dm_engine = demo_engine, dm_store = (fs, demo_db), dm_agg = demo_agg, dm_rules = [],
     dm_gate = g, dm_fw = fw, dm_static = [], dm_runtime = [], dm_long_windows = [], dm_long_kinds = [],
     dm_long_field_kinds = [], dm_recheck = [], dm_gated = [], dm_health = new_health, dm_notify_sup = None,
     dm_ineff = \<lparr>id_window = Hour, id_window_start = None, id_suppressed = 0\<rparr>, dm_ai = None, dm_feed_rep = newFeedReputation, dm_out = []\<rparr>"

definition demo_ports :: "'e enforcer \<Rightarrow> 'w \<Rightarrow> time \<Rightarrow> ('w, 'e) ports" where
  "demo_ports inner w now = \<lparr>pt_inner = inner, pt_view = w, pt_clock = now, pt_wall = now, pt_decide = demo_env, pt_geo = None,
     pt_notifier = True, pt_analyze = (\<lambda>aggs b. (Inl ''offline'', no_usage)), pt_alive = (\<lambda>w i. True), pt_agg_order = [],
     pt_long_order = (\<lambda>ws. ws)\<rparr>"

definition demo_control :: "('w, 'e) daemon \<Rightarrow> ('w, 'e) control" where
  "demo_control d = \<lparr>cl_dm = d, cl_file = Some True, cl_feed_desired = [], cl_feed_observed = [], cl_feed_status = [],
     cl_collectors = []\<rparr>"

definition demo_cports :: "('w, 'e) ports \<Rightarrow> ('w, 'e) cports" where
  "demo_cports p = \<lparr>cp_ports = p, cp_rewrite = (\<lambda>b. None), cp_start = 0, cp_version = [], cp_collector_count = 1,
     cp_cdn = Inr [], cp_ssh_peers = [], cp_feed_syncer = None, cp_feed_order = (\<lambda>m. m), cp_feed_refresh = None,
     cp_has_feeds = False, cp_retention = None, cp_alive = (\<lambda>t i. True), cp_vacuum = False, cp_metrics = None,
     cp_evidence = (\<lambda>ip. []), cp_cred = Some (1000, 1000)\<rparr>"

lemma demo_daemon_simps [simp]:
  "dm_engine (demo_daemon g fw fs) = demo_engine" "dm_store (demo_daemon g fw fs) = (fs, demo_db)"
  "dm_gate (demo_daemon g fw fs) = g" "dm_fw (demo_daemon g fw fs) = fw" "dm_runtime (demo_daemon g fw fs) = []"
  "dm_static (demo_daemon g fw fs) = []" "dm_gated (demo_daemon g fw fs) = []" "dm_recheck (demo_daemon g fw fs) = []"
  by (simp_all add: demo_daemon_def)

lemma demo_ports_simps [simp]:
  "pt_inner (demo_ports inner w now) = inner" "pt_view (demo_ports inner w now) = w" "pt_clock (demo_ports inner w now) = now"
  "pt_wall (demo_ports inner w now) = now" "pt_decide (demo_ports inner w now) = demo_env"
  by (simp_all add: demo_ports_def)

lemma demo_control_simps [simp]: "cl_dm (demo_control d) = d" "cl_file (demo_control d) = Some True"
  by (simp_all add: demo_control_def)

lemma demo_cports_simps [simp]:
  "cp_ports (demo_cports p) = p" "cp_rewrite (demo_cports p) b = None" "cp_feed_syncer (demo_cports p) = None"
  by (simp_all add: demo_cports_def)

end
