(* ===== verification/PipelineProps.thy ===== *)
theory PipelineProps
  imports DaemonFrame
begin

text \<open>
  The pipeline of the daemon, end to end: one event, and one answer of the asynchronous AI
  worker, reach nothing but the address they are about, whatever the AI provider answers and
  whichever store call fails; a disarmed daemon never touches the firewall.
\<close>

section \<open>Every verdict is about the address of the event\<close>

definition about :: "addr \<Rightarrow> verdict list \<Rightarrow> bool" where
  "about ip vs \<longleftrightarrow> (\<forall>v \<in> set vs. vd_ip v = ip)"

lemma about_simps [simp]: "about ip []" "about ip (vs @ ws) = (about ip vs \<and> about ip ws)"
  by (auto simp: about_def)

lemma about_decided: "about ip vs \<Longrightarrow> vs \<noteq> [] \<Longrightarrow> decided_ip vs = unmap ip"
  using best_verdict_max [of "hd vs" "tl vs"] by (auto simp: about_def decided_ip_def)

lemma evaluate_from_about: "about (ag_ip agg) (evaluate_from alive i rules agg)"
  by (induction alive i rules agg rule: evaluate_from.induct) (auto simp: about_def applyRule_def Let_def split: if_splits option.splits)

lemma Evaluate_about: "ag_ip agg = ip \<Longrightarrow> about ip (Evaluate alive rules agg)"
  using evaluate_from_about by (auto simp: Evaluate_def)

lemma enriched_ip [simp]: "ag_ip (enriched p ip a) = ag_ip a"
  by (simp add: enriched_def split: option.split)

lemma window_verdicts_about: "about ip (window_verdicts p d ip w)"
  unfolding window_verdicts_def by (rule Evaluate_about) (simp add: agg_aggregate_def Let_def split: option.split prod.split)

lemma long_about: "evaluateLongRules p ip ws d = (vs, d') \<Longrightarrow> about ip vs"
proof (induction ws arbitrary: d vs d')
  case (Cons wk ws)
  have e: "about ip (Evaluate alive rules (enriched p ip (long_aggregate ip w counts)))" for alive rules w counts
    by (rule Evaluate_about) (simp add: long_aggregate_def)
  from Cons show ?case by (cases wk) (auto simp: Let_def e split: prod.splits sum.splits if_splits)
qed simp

lemma about_boosted [simp]: "about ip (map (boosted feed) us) = about ip us"
  by (simp add: about_def boosted_def)

lemma evaluateRules_about: "evaluateRules p ip wl d = (vs, d') \<Longrightarrow> about ip vs"
proof -
  assume a: "evaluateRules p ip wl d = (vs, d')"
  have s: "about ip (concat (map (window_verdicts p x ip) ws))" for x :: "('a, 'b) daemon" and ws
    using window_verdicts_about [of ip p x] by (fastforce simp: about_def)
  have l: "about ip long" if "evaluateLongRules p ip ws d = (long, d1)" for long d1 ws
    using that by (rule long_about)
  show ?thesis using a by (auto simp: evaluateRules_def Let_def s split: prod.splits option.splits if_splits dest: l)
qed

lemma bound_about: "about ip (bindVerdictsToIP vs ip)"
  using bindVerdictsToIP_bound by (auto simp: about_def)

lemma consult_about: "consultProvider p ip aggs d = ((vs, b), d') \<Longrightarrow> about ip vs"
  using bound_about by (auto simp: consultProvider_def Let_def split: option.splits prod.splits sum.splits)

lemma maybeConsultAI_about: "maybeConsultAI p ip vs d = (vs', d') \<Longrightarrow> about ip vs \<Longrightarrow> about ip vs'"
  using consult_about by (auto simp: maybeConsultAI_def split: prod.splits bool.splits)

lemma geo_about: "about ip vs \<Longrightarrow> about ip (maybeInjectGeoVerdict p pol ip vs)"
  by (auto simp: maybeInjectGeoVerdict_def about_def geo_verdict_def Let_def split: option.splits)

lemma foldl_count_quiet: "quiet d (foldl (count_event p ev) d hits)"
proof (induction hits arbitrary: d)
  case (Cons h hits)
  have "quiet d (count_event p ev d h)" by (simp add: count_event_def store_call_quiet)
  then show ?case using quiet_trans Cons.IH by fastforce
qed simp

lemma event_verdicts_spec:
  assumes "event_verdicts p ev d = (vs, d')"
  shows "quiet d d'" and "about (ev_source_ip ev) vs"
proof -
  let ?ip = "ev_source_ip ev"
  let ?d1 = "d\<lparr>dm_agg := agg_add (pt_agg_order p) ev (dm_agg d)\<rparr>"
  let ?d2 = "foldl (count_event p ev) ?d1 (long_hits d ev)"
  obtain us d3 where e: "evaluateRules p ?ip (long_hits d ev \<noteq> []) ?d2 = (us, d3)" by fastforce
  have q3: "quiet d d3"
    using quiet_trans [OF quiet_trans [OF _ foldl_count_quiet] evaluateRules_quiet [OF e], of d] by simp
  note ab = evaluateRules_about [OF e]
  have "quiet d d' \<and> about ?ip vs"
  proof (cases "us = []")
    case True
    then show ?thesis using assms e q3 by (simp add: event_verdicts_def Let_def)
  next
    case False
    obtain vs2 d4 where c: "(if ai_is_async d3 then (us, maybeEnqueueAI p ?ip (highestScore us) d3) else maybeConsultAI p ?ip us d3) = (vs2, d4)"
      by fastforce
    have q4: "quiet d d4"
      using c by (auto split: if_splits intro: quiet_trans [OF q3] maybeEnqueueAI_quiet maybeConsultAI_quiet)
    have "about ?ip vs2" using c ab by (auto split: if_splits intro: maybeConsultAI_about)
    moreover have "vs = maybeInjectGeoVerdict p (dm_policy d4) ?ip vs2" "d' = publishDetections vs d4"
      using assms e c False by (auto simp: event_verdicts_def Let_def)
    ultimately show ?thesis using q4 geo_about by simp
  qed
  then show "quiet d d'" and "about ?ip vs" by blast+
qed

section \<open>One decision reaches one address\<close>

text \<open>
  The firewall after a step about \<open>ip\<close>: as before, or after one ban of \<open>ip\<close> through the gate of
  an armed daemon.
\<close>

definition fw_reached :: "('w, 'e) ports \<Rightarrow> addr \<Rightarrow> ('w, 'e) daemon \<Rightarrow> 'e set" where
  "fw_reached p ip d = {dm_fw d}
     \<union> {snd (Gate_Ban (pt_inner p) g (pt_view p) (ban_target ip ttl) (dm_fw d)) | g ttl. dm_gate d = Some g \<and> IsArmed (dm_policy d)}"

definition reaches_only :: "('w, 'e) ports \<Rightarrow> addr \<Rightarrow> ('w, 'e) daemon \<Rightarrow> ('w, 'e) daemon \<Rightarrow> bool" where
  "reaches_only p ip d d' \<longleftrightarrow> confined (pt_clock p) ip d d' \<and> dm_fw d' \<in> fw_reached p ip d"

lemma reaches_quiet: "quiet d d' \<Longrightarrow> reaches_only p ip d d'"
  by (simp add: reaches_only_def confined_quiet fw_reached_def quiet_def)

lemma reaches_after_quiet: "quiet d d1 \<Longrightarrow> reaches_only p ip d1 d2 \<Longrightarrow> reaches_only p ip d d2"
  using confined_trans [OF confined_quiet [of d d1], of "pt_clock p" ip d2]
  by (auto simp: reaches_only_def fw_reached_def quiet_def guards_kept_def)

lemma reaches_then_quiet: "reaches_only p ip d d1 \<Longrightarrow> quiet d1 d2 \<Longrightarrow> reaches_only p ip d d2"
  using confined_trans [OF _ confined_quiet [of d1 d2], of "pt_clock p" ip d] by (auto simp: reaches_only_def quiet_fw)

lemma reaches_fw: "dm_fw d' = dm_fw d \<Longrightarrow> confined (pt_clock p) ip d d' \<Longrightarrow> reaches_only p ip d d'"
  by (simp add: reaches_only_def fw_reached_def)

lemma decide_reaches:
  assumes "decide_step p vs d = (r, d1)" and "about ip vs" and "vs \<noteq> []"
  shows "r = Inl e \<Longrightarrow> reaches_only p (unmap ip) d d1"
    and "r = Inr act \<Longrightarrow> reaches_only p (unmap ip) d (dispatch_action p act d1)"
proof -
  note fr = decide_step_frame [OF assms(1), unfolded about_decided [OF assms(2,3)]]
  show "reaches_only p (unmap ip) d d1" using fr(1,2) by (rule reaches_fw)
  show "reaches_only p (unmap ip) d (dispatch_action p act d1)" if "r = Inr act"
  proof -
    have act: "ac_ip act = unmap ip" "ac_op act = ''ban'' \<longrightarrow> IsArmed (dm_policy d)" using fr(3) [OF that assms(3)] by blast+
    have gk: "dm_gate d1 = dm_gate d" using fr(2) by (simp add: confined_def guards_kept_def)
    note da = dispatch_action_frame [of d1 p act, unfolded gk fr(1) act(1)]
    have "confined (pt_clock p) (unmap ip) d (dispatch_action p act d1)"
      using confined_trans [OF fr(2) confined_calm] da by blast
    moreover have "dm_fw (dispatch_action p act d1) \<in> fw_reached p (unmap ip) d"
      using da act(2) unfolding fw_reached_def by (cases "dm_gate d") auto
    ultimately show ?thesis by (simp add: reaches_only_def)
  qed
qed

lemma decide_and_dispatch_reaches:
  assumes "about ip vs" and "vs \<noteq> []"
  shows "reaches_only p (unmap ip) d (decide_and_dispatch p vs d)"
proof -
  obtain r d1 where s: "decide_step p vs d = (r, d1)" by fastforce
  note re = decide_reaches [OF s assms]
  show ?thesis
  proof (cases r)
    case (Inl e)
    then show ?thesis using re(1) [OF Inl] reaches_then_quiet [of p "unmap ip" d d1] s
      by (auto simp: decide_and_dispatch_def decide_failed_def)
  next
    case (Inr act)
    then show ?thesis using re(2) [OF Inr] reaches_then_quiet [of p "unmap ip" d "dispatch_action p act d1"] s
      by (simp add: decide_and_dispatch_def schedule_quiet)
  qed
qed

lemma process_event_reaches: "reaches_only p (unmap (ev_source_ip ev)) d (process_event p ev d)"
proof -
  obtain vs d1 where e: "event_verdicts p ev d = (vs, d1)" by fastforce
  note spec = event_verdicts_spec [OF e]
  show ?thesis
    using reaches_quiet [OF spec(1)] reaches_after_quiet [OF spec(1) decide_and_dispatch_reaches [OF spec(2)]] e
    by (auto simp: process_event_def)
qed

lemma ai_item_reaches: "reaches_only p (unmap (ai_ip item)) d (snd (runAIAsyncItem p clean item d))"
proof -
  let ?ip = "ai_ip item"
  obtain fl d1 where 1: "processAIAsyncItem p clean item d = (fl, d1)" by fastforce
  have "reaches_only p (unmap ?ip) d d1"
  proof (cases "isRuntimeAllowlisted d ?ip")
    case True
    then show ?thesis using 1 by (auto simp: processAIAsyncItem_def Let_def intro: reaches_quiet)
  next
    case False
    obtain b d2 where 2: "aiEligible p ?ip (ai_rule_score item) d = (b, d2)" by fastforce
    note q2 = aiEligible_quiet [OF 2]
    let ?cleaned = "fst (CleanAggregates clean (collectAIAggregates p ?ip d2))"
    show ?thesis
    proof (cases "b \<and> ?cleaned \<noteq> []")
      case False': False
      then show ?thesis using 1 2 False q2 by (auto simp: processAIAsyncItem_def Let_def intro: reaches_quiet split: bool.splits if_splits)
    next
      case True
      obtain vs answered d3 where 3: "consultProvider p ?ip ?cleaned d2 = ((vs, answered), d3)" by (metis surj_pair)
      note q3 = quiet_trans [OF q2 consultProvider_quiet [OF 3]] and ab = consult_about [OF 3]
      have q3': "quiet d (publishDetections vs d3)" using q3 by simp
      obtain r d4 where 4: "decide_step p vs (publishDetections vs d3) = (r, d4)" by fastforce
      show ?thesis
      proof (cases "vs = [] \<or> isRuntimeAllowlisted (publishDetections vs d3) ?ip")
        case True': True
        then show ?thesis using 1 2 3 True False q3 q3'
          by (auto simp: processAIAsyncItem_def Let_def intro: reaches_quiet split: bool.splits if_splits)
      next
        case run: False
        note re = decide_reaches [OF 4 ab]
        show ?thesis
          using 1 2 3 4 True False run re reaches_after_quiet [OF q3']
          by (cases r) (auto simp: processAIAsyncItem_def Let_def split: bool.splits if_splits)
      qed
    qed
  qed
  then show ?thesis using reaches_then_quiet [of p "unmap ?ip" d d1] 1 by (cases fl) (simp add: runAIAsyncItem_def)
qed

section \<open>The deferred re-check\<close>

lemma audit_ip_quiet: "quiet d (audit_ip p ip opn reason d)"
  by (simp add: audit_ip_def store_call_quiet)

lemma recheck_later_quiet: "quiet d (recheck_later p it d)"
  using quiet_trans [OF audit_ip_quiet store_call_quiet(5)]
  by (auto simp: recheck_later_def noteSSHRecheckDropped_def bump_last_seen_def split: prod.splits bool.splits)

lemma recheck_reaches: "reaches_only p (unmap (ri_ip it)) d (recheckAfterAntiLockout p d it)"
proof (cases "isRuntimeAllowlisted d (ri_ip it)")
  case True
  then show ?thesis by (simp add: recheckAfterAntiLockout_def Let_def reaches_quiet)
next
  case False
  obtain vs d1 where 1: "evaluateRules p (ri_ip it) True d = (vs, d1)" by fastforce
  note q1 = evaluateRules_quiet [OF 1]
  let ?vs1 = "maybeInjectGeoVerdict p (dm_policy d1) (ri_ip it) vs"
  let ?vs2 = "case ri_ai_verdict it of None \<Rightarrow> ?vs1 | Some v \<Rightarrow> if vd_ip v = ri_ip it then ?vs1 @ [v] else ?vs1"
  show ?thesis
  proof (cases "?vs1 = []")
    case True
    then show ?thesis using 1 False q1 by (simp add: recheckAfterAntiLockout_def Let_def reaches_quiet)
  next
    case ne: False
    have ab: "about (ri_ip it) ?vs2" "?vs2 \<noteq> []"
      using geo_about [OF evaluateRules_about [OF 1]] ne by (auto simp: about_def split: option.split)
    obtain r d2 where 2: "decide_step p ?vs2 d1 = (r, d2)" by fastforce
    note re = decide_reaches [OF 2 ab]
    show ?thesis
    proof (cases r)
      case (Inl e)
      have "reaches_only p (unmap (ri_ip it)) d1 (recheckAfterAntiLockout p d it)"
        using re(1) [OF Inl] reaches_then_quiet [OF re(1) [OF Inl] recheck_later_quiet] False 1 2 ne Inl
          reaches_then_quiet [OF reaches_then_quiet [OF re(1) [OF Inl]] recheck_later_quiet, of "notifyCritical p ''ban rate limit exceeded'' d2" p it]
        by (simp add: recheckAfterAntiLockout_def Let_def)
      then show ?thesis by (rule reaches_after_quiet [OF q1])
    next
      case (Inr act)
      have "reaches_only p (unmap (ri_ip it)) d1 (recheckAfterAntiLockout p d it)"
        using re(2) [OF Inr] reaches_then_quiet [OF re(2) [OF Inr] recheck_later_quiet, of p it] False 1 2 ne Inr
        by (simp add: recheckAfterAntiLockout_def Let_def)
      then show ?thesis by (rule reaches_after_quiet [OF q1])
    qed
  qed
qed

text \<open>
  C2 (safety).  The pipeline is confined.  An event, an answer of the asynchronous AI worker and a
  deferred re-check change the strikes and bans of no address but the one they are about (in its
  canonical spelling), change neither the policy, the allowlists, the arm window nor the gate, and
  do to the firewall at most one ban of that address, through the gate and only when the daemon is
  armed.  This holds whatever the AI provider, GeoIP, the kernel and the verifier answer and
  whichever store call fails: an answer that names another address cannot redirect a ban.
\<close>

theorem pipeline_confined:
  "reaches_only p (unmap (ev_source_ip ev)) d (process_event p ev d)
   \<and> reaches_only p (unmap (ai_ip item)) d (snd (runAIAsyncItem p clean item d))
   \<and> reaches_only p (unmap (ri_ip it)) d (recheckAfterAntiLockout p d it)"
  using process_event_reaches ai_item_reaches recheck_reaches by blast

section \<open>Disarmed\<close>

lemma with_store_frame [simp]:
  "dm_fw (snd (with_store f d)) = dm_fw d" "dm_gate (snd (with_store f d)) = dm_gate d" "dm_engine (snd (with_store f d)) = dm_engine d"
  "dm_static (snd (with_store f d)) = dm_static d" "dm_runtime (snd (with_store f d)) = dm_runtime d"
  by (simp_all add: with_store_def split: prod.split)

lemma with_store_frame': "with_store f d = (r, d') \<Longrightarrow> dm_fw d' = dm_fw d \<and> dm_gate d' = dm_gate d \<and> dm_engine d' = dm_engine d
    \<and> dm_static d' = dm_static d \<and> dm_runtime d' = dm_runtime d"
  using with_store_frame [of f d] by simp

lemma emit_frame [simp]: "dm_fw (emit os d) = dm_fw d" "dm_gate (emit os d) = dm_gate d" "dm_engine (emit os d) = dm_engine d"
    "dm_store (emit os d) = dm_store d" "dm_static (emit os d) = dm_static d" "dm_runtime (emit os d) = dm_runtime d"
  by (simp_all add: emit_def)

lemmas publish_defs = publishActionEvent_def publishDetections_def

lemma journal_frame [simp]:
  "dm_fw (journal p opn reason d) = dm_fw d" "dm_fw (journal_op p opn px ttl reason d) = dm_fw d"
  "dm_engine (journal p opn reason d) = dm_engine d" "dm_engine (journal_op p opn px ttl reason d) = dm_engine d"
  "dm_gate (journal p opn reason d) = dm_gate d" "dm_gate (journal_op p opn px ttl reason d) = dm_gate d"
  by (simp_all add: journal_def journal_op_def)

lemma record_manual_ban_fw [simp]: "dm_fw (record_manual_ban p opn px ttl reason d) = dm_fw d"
proof -
  obtain r d1 where w: "with_store (\<lambda>db. case RecordManualBan (pt_clock p) (pt_clock p) (pfx_ip px) ttl reason
      (\<not> IsArmed (dm_policy d)) db of Inl e \<Rightarrow> (Some e, db) | Inr db' \<Rightarrow> (None, db')) d = (r, d1)" by fastforce
  show ?thesis using with_store_frame' [OF w] unfolding record_manual_ban_def w by (auto split: sum.splits option.splits)
qed

lemma handleBan_disarmed: "\<not> IsArmed (dm_policy d) \<Longrightarrow> dm_fw (snd (handleBan p req d)) = dm_fw d"
  by (auto simp: handleBan_def refuseManualBan_def apply_manual_ban_def manual_ban_section_def publish_defs Let_def
      split: sum.splits option.splits prod.splits dest: AuthorizeManualBan_rules simp: rules_kept_def)

lemma feed_update_disarmed: "\<not> IsArmed (dm_policy (cl_dm c)) \<Longrightarrow> dm_fw (cl_dm (handleFeedUpdate cp u c)) = dm_fw (cl_dm c)"
  by (auto simp: handleFeedUpdate_def Let_def applyFeedBlock_def observeFeed_def on_dm_def sync_feeds_def split: prod.splits if_splits)

lemma reaches_disarmed: "reaches_only p ip d d' \<Longrightarrow> \<not> IsArmed (dm_policy d) \<Longrightarrow> dm_fw d' = dm_fw d"
  by (auto simp: reaches_only_def fw_reached_def)

text \<open>
  C14 (safety).  A disarmed daemon never blocks: no event, no AI answer, no re-check, no manual ban
  and no feed refresh touches the firewall.
\<close>

theorem disarmed_never_blocks:
  assumes "\<not> IsArmed (dm_policy (cl_dm c))"
  shows "dm_fw (process_event p ev (cl_dm c)) = dm_fw (cl_dm c)
    \<and> dm_fw (snd (runAIAsyncItem p clean item (cl_dm c))) = dm_fw (cl_dm c)
    \<and> dm_fw (recheckAfterAntiLockout p (cl_dm c) it) = dm_fw (cl_dm c)
    \<and> dm_fw (snd (handleBan p req (cl_dm c))) = dm_fw (cl_dm c)
    \<and> dm_fw (cl_dm (handleFeedUpdate cp u c)) = dm_fw (cl_dm c)"
  using reaches_disarmed [OF process_event_reaches assms] reaches_disarmed [OF ai_item_reaches assms]
    reaches_disarmed [OF recheck_reaches assms] handleBan_disarmed [OF assms] feed_update_disarmed [OF assms] by blast

text \<open>The witness: the daemon of the other witnesses, disarmed, and a manual ban of 10.0.0.2.\<close>

definition demo_disarmed :: "(unit, unit list) control" where
  "demo_disarmed = demo_control (set_armed_flag False (demo_daemon (Some demo_gate) [] []))"

theorem disarmed_never_blocks_witness:
  "dm_fw (snd (handleBan (demo_ports demo_inner () Minute) (empty_socket_request\<lparr>sq_ip := ''10.0.0.2''\<rparr>) (cl_dm demo_disarmed))) = []"
proof -
  have "\<not> IsArmed (dm_policy (cl_dm demo_disarmed))" by (simp add: demo_disarmed_def set_armed_flag_def SetArmed_def IsArmed_def)
  from disarmed_never_blocks [OF this, of "demo_ports demo_inner () Minute" undefined undefined undefined undefined
      "empty_socket_request\<lparr>sq_ip := ''10.0.0.2''\<rparr>" undefined undefined]
  show ?thesis by (simp add: demo_disarmed_def set_armed_flag_def)
qed

end
