(* ===== verification/DaemonSteps.thy ===== *)
theory DaemonSteps
  imports DaemonFrame StoreSteps
begin

text \<open>
  Every step of the daemon, on the store, is a sequence of store operations: the daemon refines
  the state machine of theory \<open>StoreSteps\<close>.  The same pass shows that the queues of deferred work
  stay well formed and that the gate's runtime allowlist is the daemon's.
\<close>

section \<open>Steady steps\<close>

definition stored :: "db \<Rightarrow> db \<Rightarrow> bool" where
  "stored a b \<longleftrightarrow> (\<exists>ops. b = db_run a ops)"

definition gate_follows :: "('w, 'e) daemon \<Rightarrow> bool" where
  "gate_follows d \<longleftrightarrow> (\<forall>g. dm_gate d = Some g \<longrightarrow> gate_wf g \<and> SetExtraAllowlist (dm_runtime d) g = g)"

definition daemon_wf :: "('w, 'e) daemon \<Rightarrow> bool" where
  "daemon_wf d \<longleftrightarrow> recheck_ok (dm_recheck d) \<and> recheck_ok (dm_gated d) \<and> gate_follows d"

definition steady :: "('w, 'e) daemon \<Rightarrow> ('w, 'e) daemon \<Rightarrow> bool" where
  "steady d d' \<longleftrightarrow> (daemon_wf d \<longrightarrow> daemon_wf d' \<and> stored (dm_db d) (dm_db d'))"

lemma gate_follows_update [simp]:
  "gate_follows (d\<lparr>dm_agg := x1\<rparr>) = gate_follows d" "gate_follows (d\<lparr>dm_recheck := x2\<rparr>) = gate_follows d"
  "gate_follows (d\<lparr>dm_gated := x3\<rparr>) = gate_follows d" "gate_follows (d\<lparr>dm_health := x4\<rparr>) = gate_follows d"
  "gate_follows (d\<lparr>dm_notify_sup := x5\<rparr>) = gate_follows d" "gate_follows (d\<lparr>dm_ineff := x6\<rparr>) = gate_follows d"
  "gate_follows (d\<lparr>dm_ai := x7\<rparr>) = gate_follows d" "gate_follows (d\<lparr>dm_feed_rep := x8\<rparr>) = gate_follows d"
  "gate_follows (d\<lparr>dm_out := x9\<rparr>) = gate_follows d" "gate_follows (d\<lparr>dm_fw := x10\<rparr>) = gate_follows d"
  "gate_follows (d\<lparr>dm_engine := x11\<rparr>) = gate_follows d" "gate_follows (d\<lparr>dm_store := x12\<rparr>) = gate_follows d"
  by (simp_all add: gate_follows_def)

lemma stored_refl [simp]: "stored a a"
  unfolding stored_def by (rule exI [of _ "[]"]) (simp add: db_run_def)

lemma stored_trans: "stored a b \<Longrightarrow> stored b c \<Longrightarrow> stored a c"
  unfolding stored_def db_run_def by (metis foldl_append)

lemma stored_op: "b = db_apply a p \<Longrightarrow> stored a b"
  unfolding stored_def by (rule exI [of _ "[p]"]) (simp add: db_run_def)

lemma stored_ops [simp]:
  "stored a (RecordStrike t t2 act a)" "stored a (snd (RecordSuppressed t ip ag a))" "stored a (snd (MarkBanIneffective ip a))"
  "stored a (BumpLastSeen t ip a)" "stored a (snd (ExpireBans t a))" "stored a (Unban t ip a)"
  "stored a (Audit t act a)" "stored a (AuditOp t opn px ttl reason a)" "stored a (AuditSystem t opn reason a)"
  "stored a (AddAllow t px e reason a)" "stored a (snd (RemoveAllow px a))" "stored a (snd (ExpireAllows t a))"
  "stored a (snd (UnbanCovered t px reason a))" "stored a (snd (UnbanAll t reason a))" "stored a (RecordUsage t prov u s a)"
  "stored a (SetState t k v a)" "stored a (DeleteState k a)" "stored a (IncrEventCount ip kind b a)"
  "stored a (snd (PruneEventCounts b a))" "stored a (ConsumeEventCounts ip ws t a)"
  by (rule stored_op, rule db_apply.simps [symmetric])+

lemma stored_manual: "RecordManualBan t t2 ip ttl reason dry a = Inr b \<Longrightarrow> stored a b"
  by (rule stored_op [of _ _ "OManualBan t t2 ip ttl reason dry"]) simp

lemma stored_retention: "PruneRetention alive pol t a = (st, sk, stop, b) \<Longrightarrow> stored a b"
  by (rule stored_op [of _ _ "ORetention alive pol t"]) simp

lemma stored_prefix [simp]: "stored a (snd (UnbanPrefix t px a))"
  by (auto simp: UnbanPrefix_def Let_def split: prod.split) (metis snd_conv stored_ops(13))

lemma stored_io [simp]: "stored a (snd (reads f a))" "stored a (snd (writes g a)) = stored a (g a)"
  by (simp_all add: reads_def writes_def)

lemma steady_refl [simp]: "steady d d"
  by (simp add: steady_def daemon_wf_def)

lemma steady_trans: "steady a b \<Longrightarrow> steady b c \<Longrightarrow> steady a c"
  using stored_trans by (auto simp: steady_def)

lemma steady_update [simp]:
  "steady a (b\<lparr>dm_agg := x1\<rparr>) = steady a b" "steady a (b\<lparr>dm_health := x4\<rparr>) = steady a b"
  "steady a (b\<lparr>dm_notify_sup := x5\<rparr>) = steady a b" "steady a (b\<lparr>dm_ineff := x6\<rparr>) = steady a b"
  "steady a (b\<lparr>dm_ai := x7\<rparr>) = steady a b" "steady a (b\<lparr>dm_feed_rep := x8\<rparr>) = steady a b"
  "steady a (b\<lparr>dm_out := x9\<rparr>) = steady a b" "steady a (b\<lparr>dm_fw := x10\<rparr>) = steady a b"
  "steady a (b\<lparr>dm_engine := x11\<rparr>) = steady a b"
  by (simp_all add: steady_def daemon_wf_def)

lemma with_store_steady: "with_store f d = (r, d') \<Longrightarrow> (\<And>db. stored db (snd (f db))) \<Longrightarrow> steady d d'"
  by (auto simp: with_store_def faulty_def steady_def daemon_wf_def gate_follows_def split: prod.splits if_splits)

lemma with_store_steady' [simp]: "(\<And>db. stored db (snd (f db))) \<Longrightarrow> steady d (snd (with_store f d))"
  by (rule with_store_steady [OF surjective_pairing])

lemma reads_steady: "with_store (reads f) d = (r, d') \<Longrightarrow> steady d d'"
  by (erule with_store_steady) simp

lemma steady_then: "steady a b \<Longrightarrow> (\<And>x. steady x (f x)) \<Longrightarrow> steady a (f b)"
  using steady_trans by blast

lemma steady_foldl: "(\<And>d x. steady d (f d x)) \<Longrightarrow> steady d (foldl f d xs)"
proof (induction xs arbitrary: d)
  case (Cons x xs)
  then show ?case using steady_trans by fastforce
qed simp

lemma store_only_steady: "stored (dm_db d) (snd s) \<Longrightarrow> steady d (d\<lparr>dm_store := s\<rparr>)"
  by (simp add: steady_def daemon_wf_def)

section \<open>The pipeline\<close>

lemma emit_steady [simp]: "steady a (emit os d) = steady a d"
  by (simp add: emit_def)

lemma telling_steady [simp]:
  "steady a (notify p n d) = steady a d" "steady a (notifyCritical p msg d) = steady a d"
  "steady a (publishActionEvent kind ips n' ttl reason src d) = steady a d" "steady a (publishDetections vs d) = steady a d"
  "steady a (notifyEnforcerFailure p ip e d) = steady a d"
  by (simp_all add: notify_def notifyCritical_def publishActionEvent_def publishDetections_def notifyEnforcerFailure_def)

lemma auditEnf_steady [simp]: "steady d (auditEnfTransition p opn reason d)"
  by (simp add: auditEnfTransition_def)

lemma record_enforce_steady [simp]: "steady d (record_enforce p opn r d)"
proof -
  have "steady d (auditEnfTransition p o1 reason (d\<lparr>dm_health := h\<rparr>))" for o1 reason h
    by (rule steady_trans [of d "d\<lparr>dm_health := h\<rparr>"]) simp_all
  then show ?thesis
    by (auto simp: record_enforce_def Let_def split: prod.splits option.splits enf_transition.splits)
qed

lemma notify_action_steady [simp]: "steady a (notify_action p act d) = steady a d"
  by (auto simp: notify_action_def Let_def split: option.splits prod.splits)

lemma consume_evidence_steady [simp]: "steady d (consume_evidence p act d)"
proof -
  have "steady d (snd (with_store (writes (ConsumeEventCounts ip ws t)) (d\<lparr>dm_agg := x\<rparr>)))" for ip ws t x
    by (rule steady_trans [of d "d\<lparr>dm_agg := x\<rparr>"]) simp_all
  then show ?thesis by (simp add: consume_evidence_def Let_def)
qed

lemma recheck_queue_steady: "steady a b \<Longrightarrow> (daemon_wf b \<longrightarrow> recheck_ok q) \<Longrightarrow> steady a (b\<lparr>dm_recheck := q\<rparr>)"
  by (simp add: steady_def daemon_wf_def)

lemma gated_queue_steady: "steady a b \<Longrightarrow> (daemon_wf b \<longrightarrow> recheck_ok q) \<Longrightarrow> steady a (b\<lparr>dm_gated := q\<rparr>)"
  by (simp add: steady_def daemon_wf_def)

lemma defer_steady [simp]: "steady d (deferGatedBan p ip d)" "steady d (maybeScheduleSSHRecheck p act vs d)"
  by (simp_all add: deferGatedBan_def maybeScheduleSSHRecheck_def steady_def daemon_wf_def recheck_ok_schedule)

lemma deliver_steady [simp]: "steady a (deliver p d x) = steady a d"
  by (cases x) (auto simp: Let_def split: prod.splits)

lemma foldl_deliver_steady [simp]: "steady a (foldl (deliver p) d ds) = steady a d"
  by (induction ds arbitrary: d) simp_all

lemma evaluateLongRules_steady: "evaluateLongRules p ip ws d = (vs, d') \<Longrightarrow> steady d d'"
proof (induction ws arbitrary: d vs d')
  case (Cons wk ws)
  obtain w kinds where wk: "wk = (w, kinds)" by fastforce
  obtain r d1 where 1: "with_store (reads (SumEventCounts ip kinds (HourBucket (pt_clock p - w)))) d = (r, d1)" by fastforce
  obtain r2 d2 where 2: "with_store (reads (ConsumedEventCounts ip w (pt_clock p))) d1 = (r2, d2)" by fastforce
  obtain vs3 d3 where 3: "evaluateLongRules p ip ws d2 = (vs3, d3)" by fastforce
  show ?case
  proof (cases r)
    case (Inl e)
    then show ?thesis using Cons 1 steady_trans [OF reads_steady [OF 1]] by (auto simp: wk)
  next
    case (Inr tot)
    then have "d' = d3" using Cons.prems 1 2 3 by (auto simp: wk Let_def split: if_splits)
    then show ?thesis using steady_trans [OF reads_steady [OF 1]] steady_trans [OF reads_steady [OF 2]] Cons.IH [OF 3] by blast
  qed
qed simp

lemma evaluateRules_steady: "evaluateRules p ip wl d = (vs, d') \<Longrightarrow> steady d d'"
  using evaluateLongRules_steady by (auto simp: evaluateRules_def Let_def split: if_splits prod.splits)

lemma faulty_stored: "faulty f s = (r, s') \<Longrightarrow> (\<And>db. stored db (snd (f db))) \<Longrightarrow> stored (snd s) (snd s')"
  by (auto simp: faulty_def split: prod.splits if_splits)

lemma Budget_Current_stored: "Budget_Current now b s = (r, s') \<Longrightarrow> stored (snd s) (snd s')"
  by (auto simp: Budget_Current_def split: if_splits prod.splits sum.splits dest!: faulty_stored)

lemma Budget_Exceeded_stored: "Budget_Exceeded now b s = (r, s') \<Longrightarrow> stored (snd s) (snd s')"
  by (auto simp: Budget_Exceeded_def split: if_splits prod.splits sum.splits dest!: Budget_Current_stored)

lemma Budget_Consume_stored: "Budget_Consume now u ip b s = (r, b', s') \<Longrightarrow> stored (snd s) (snd s')"
  by (auto simp: Budget_Consume_def Let_def split: if_splits prod.splits sum.splits
      dest!: faulty_stored Budget_Current_stored intro: stored_trans)

lemma aiEligible_steady: "aiEligible p ip n d = (b, d') \<Longrightarrow> steady d d'"
proof -
  assume a: "aiEligible p ip n d = (b, d')"
  obtain r d1 where 1: "with_store (reads (GetBanInfo (pt_clock p) (unmap ip))) d = (r, d1)" by fastforce
  note q1 = reads_steady [OF 1]
  have "steady d1 (d1\<lparr>dm_store := s\<rparr>)" if "Budget_Exceeded (pt_wall p) bg (dm_store d1) = (r', s)" for r' s bg
    using Budget_Exceeded_stored [OF that] by (rule store_only_steady)
  then show ?thesis using a q1 steady_trans [OF q1]
    by (auto simp: aiEligible_def 1 split: option.splits if_splits prod.splits sum.splits bool.splits)
qed

lemma consultProvider_steady: "consultProvider p ip aggs d = (r, d') \<Longrightarrow> steady d d'"
proof -
  assume a: "consultProvider p ip aggs d = (r, d')"
  have ai: "steady d (d\<lparr>dm_ai := x, dm_store := s\<rparr>)" if "stored (dm_db d) (snd s)" for x s
    using store_only_steady [of "d\<lparr>dm_ai := x\<rparr>" s] that steady_trans [of d "d\<lparr>dm_ai := x\<rparr>"] by simp
  show ?thesis using a ai
    by (auto simp: consultProvider_def Let_def split: option.splits prod.splits sum.splits
        dest!: Budget_Current_stored Budget_Consume_stored intro: stored_trans)
qed

lemma maybeConsultAI_steady: "maybeConsultAI p ip vs d = (vs', d') \<Longrightarrow> steady d d'"
  using aiEligible_steady consultProvider_steady steady_trans
  by (auto simp: maybeConsultAI_def split: prod.splits bool.splits) blast

lemma maybeEnqueueAI_steady: "steady d (maybeEnqueueAI p ip n d)"
  using aiEligible_steady by (auto simp: maybeEnqueueAI_def split: prod.splits bool.splits)

lemma event_verdicts_steady: "event_verdicts p ev d = (vs, d') \<Longrightarrow> steady d d'"
proof -
  assume a: "event_verdicts p ev d = (vs, d')"
  let ?d1 = "d\<lparr>dm_agg := agg_add (pt_agg_order p) ev (dm_agg d)\<rparr>"
  let ?d2 = "foldl (count_event p ev) ?d1 (long_hits d ev)"
  obtain us d3 where e: "evaluateRules p (ev_source_ip ev) (long_hits d ev \<noteq> []) ?d2 = (us, d3)" by fastforce
  have c: "steady x (count_event p ev x k)" for x :: "('a, 'b) daemon" and k by (simp add: count_event_def)
  have "steady d ?d2" using steady_trans [OF _ steady_foldl [OF c], of d ?d1] by simp
  then have q3: "steady d d3" using evaluateRules_steady [OF e] steady_trans by blast
  obtain vs2 d4 where v: "(if ai_is_async d3 then (us, maybeEnqueueAI p (ev_source_ip ev) (highestScore us) d3)
      else maybeConsultAI p (ev_source_ip ev) us d3) = (vs2, d4)" by fastforce
  have "steady d3 d4" using v maybeEnqueueAI_steady maybeConsultAI_steady by (auto split: if_splits)
  then show ?thesis using a e v q3 steady_trans [OF q3]
    by (auto simp: event_verdicts_def Let_def split: if_splits prod.splits)
qed

interpretation store_run: ops_related "db_ops c" "\<lambda>s s'. stored (snd s) (snd s')" for c
proof
  show "stored (snd a) (snd b) \<Longrightarrow> stored (snd b) (snd d) \<Longrightarrow> stored (snd a) (snd d)" for a b d :: fstore by (rule stored_trans)
  have f: "stored (snd s) (snd (snd (faulty f s)))" if "\<And>db. stored db (snd (f db))" for s :: fstore and f
    using that faulty_stored [of f s] by (metis surjective_pairing)
  fix s :: fstore and ip ag act
  show "stored (snd s) (snd (snd (so_record_suppressed (db_ops c) ip ag s)))" "stored (snd s) (snd (snd (so_audit (db_ops c) act s)))"
    "stored (snd s) (snd (snd (so_mark_ban_ineffective (db_ops c) ip s)))" "stored (snd s) (snd (snd (so_bump_last_seen (db_ops c) ip s)))"
    "stored (snd s) (snd (snd (so_record_strike (db_ops c) act s)))" "stored (snd s) (snd (snd (so_get_ban_info (db_ops c) ip s)))"
    "stored (snd s) (snd (snd (so_had_ineffective_ban (db_ops c) ip s)))" "stored (snd s) (snd (snd (so_get_strike_count (db_ops c) ip s)))"
    "stored (snd s) (snd (snd (so_last_strike (db_ops c) ip s)))"
    by (simp_all add: db_ops_def f)
qed simp

lemma engine_store_steady: "stored (dm_db d) (snd s) \<Longrightarrow> steady d (d\<lparr>dm_engine := e, dm_store := s\<rparr>)"
  by (simp add: steady_def daemon_wf_def)

lemma decide_step_steady: "decide_step p vs d = (r, d') \<Longrightarrow> steady d d'"
  by (auto simp: decide_step_def split: prod.splits dest!: store_run.Decide_related simp: engine_store_steady)

lemma enforce_action_steady: "steady d (enforce_action p act d)"
proof (cases "dm_gate d")
  case (Some g)
  obtain r fw where gb: "Gate_Ban (pt_inner p) g (pt_view p) (ban_target (ac_ip act) (ac_ttl act)) (dm_fw d) = (r, fw)" by fastforce
  let ?d1 = "d\<lparr>dm_fw := fw\<rparr>"
  have 1: "steady d ?d1" by simp
  show ?thesis
    using Some gb steady_trans [OF 1 record_enforce_steady] steady_trans [OF steady_trans [OF 1 defer_steady(1)] record_enforce_steady]
      steady_trans [OF _ record_enforce_steady, of d "notifyEnforcerFailure p (ac_ip act) e ?d1" for e]
    by (auto simp: enforce_action_def gate_ban_def split: option.split)
qed (simp add: enforce_action_def)

lemma dispatch_steady: "steady d (dispatch_action p act d)"
proof -
  let ?d2 = "publishActionEvent (ac_op act) (addr_str (ac_ip act)) (ac_strike act) (ac_ttl act) (ac_reason act) ''pipeline'' (emit [OAction act] d)"
  have "steady d (consume_evidence p act ?d2)" by (rule steady_trans [OF _ consume_evidence_steady]) simp
  then show ?thesis using steady_trans [OF _ enforce_action_steady] by (simp add: dispatch_action_def Let_def)
qed

lemma decide_and_dispatch_steady: "steady d (decide_and_dispatch p vs d)"
proof -
  obtain r d1 where s: "decide_step p vs d = (r, d1)" by fastforce
  note 1 = decide_step_steady [OF s]
  show ?thesis
    using 1 s steady_trans [OF steady_trans [OF 1 dispatch_steady] defer_steady(2)]
    by (auto simp: decide_and_dispatch_def decide_failed_def split: sum.split)
qed

lemma process_event_steady: "steady d (process_event p ev d)"
  using event_verdicts_steady steady_trans [OF event_verdicts_steady decide_and_dispatch_steady]
  by (auto simp: process_event_def split: prod.split)

lemma process_events_steady: "steady d (process_events pts i evs d)"
  by (induction pts i evs d rule: process_events.induct) (auto intro: steady_trans process_event_steady)

lemma processRaw_steady: "steady d (processRaw pts parsers raw d)"
  by (auto simp: processRaw_def process_events_steady split: prod.split option.split)

lemma ai_item_steady: "steady d (snd (runAIAsyncItem p clean item d))"
proof -
  let ?ip = "ai_ip item"
  obtain fl d1 where 1: "processAIAsyncItem p clean item d = (fl, d1)" by fastforce
  obtain b d2 where 2: "aiEligible p ?ip (ai_rule_score item) d = (b, d2)" by fastforce
  let ?cleaned = "fst (CleanAggregates clean (collectAIAggregates p ?ip d2))"
  obtain vs answered d3 where 3: "consultProvider p ?ip ?cleaned d2 = ((vs, answered), d3)" by (metis surj_pair)
  obtain r d4 where 4: "decide_step p vs (publishDetections vs d3) = (r, d4)" by fastforce
  have q2: "steady d d2" using aiEligible_steady [OF 2] .
  have q3: "steady d d3" using steady_trans [OF q2 consultProvider_steady [OF 3]] .
  have q4: "steady d d4" using steady_trans [OF _ decide_step_steady [OF 4], of d] q3 by simp
  have "steady d (dispatch_action p act d4)" for act by (rule steady_trans [OF q4 dispatch_steady])
  then have "steady d d1" using 1 2 3 4 q2 q3 q4
    by (auto simp: processAIAsyncItem_def Let_def split: if_splits bool.splits sum.splits)
  then show ?thesis using 1 by (cases fl) (simp add: runAIAsyncItem_def)
qed

section \<open>Deferred work, the reconcile, the sweeps\<close>

lemma audit_ip_steady [simp]: "steady d (audit_ip p ip opn reason d)" "steady d (bump_last_seen p ip d)"
  by (simp_all add: audit_ip_def bump_last_seen_def)

lemma popped_attempts: "recheck_pop now order q = (items, q') \<Longrightarrow> recheck_ok q \<Longrightarrow> it \<in> set items \<Longrightarrow> 0 \<le> ri_attempts it"
  using recheck_pop_spec [of now order q items q'] poppedE [of now q items q' it] map_of_SomeD [of q "ri_ip it"]
  by (metis (no_types, lifting) case_prodD recheck_item.select_convs(2) recheck_item_of_def recheck_ok_def)

lemma steady_items:
  assumes "\<And>d it. P it \<Longrightarrow> steady d (f d it)" and "\<forall>it \<in> set items. P it"
  shows "steady d (foldl f d items)"
  using assms(2)
proof (induction items arbitrary: d)
  case (Cons it items)
  then have "steady d (f d it)" "steady (f d it) (foldl f (f d it) items)" using assms(1) by simp_all
  then show ?case using steady_trans by simp
qed simp

lemma recheck_later_steady:
  assumes "0 \<le> ri_attempts it"
  shows "steady d (recheck_later p it d)"
proof -
  have "daemon_wf d \<longrightarrow> recheck_ok (snd (recheck_requeue ip (ri_attempts it + 1) t v (dm_recheck d)))" for ip t v
    using assms recheck_ok_requeue [of "dm_recheck d" "ri_attempts it + 1" ip t v] by (simp add: daemon_wf_def)
  then show ?thesis
    by (auto simp: recheck_later_def noteSSHRecheckDropped_def split: prod.split bool.split
        intro!: recheck_queue_steady intro: steady_trans [OF audit_ip_steady(1) audit_ip_steady(2)]) (metis snd_conv)
qed

lemma recheck_steady:
  assumes "0 \<le> ri_attempts it"
  shows "steady d (recheckAfterAntiLockout p d it)"
proof -
  obtain vs d1 where 1: "evaluateRules p (ri_ip it) True d = (vs, d1)" by fastforce
  note q1 = evaluateRules_steady [OF 1]
  let ?vs1 = "maybeInjectGeoVerdict p (dm_policy d1) (ri_ip it) vs"
  let ?vs2 = "case ri_ai_verdict it of None \<Rightarrow> ?vs1 | Some v \<Rightarrow> if vd_ip v = ri_ip it then ?vs1 @ [v] else ?vs1"
  obtain r d2 where 2: "decide_step p ?vs2 d1 = (r, d2)" by fastforce
  have q2: "steady d d2" using steady_trans [OF q1 decide_step_steady [OF 2]] .
  have l: "steady d (recheck_later p it (notifyCritical p m d2))" for m
    by (rule steady_trans [OF _ recheck_later_steady [OF assms]]) (use q2 in simp)
  have q3: "steady d (dispatch_action p act d2)" for act by (rule steady_trans [OF q2 dispatch_steady])
  have q4: "steady d (recheck_later p it (dispatch_action p act d2))" for act by (rule steady_trans [OF q3 recheck_later_steady [OF assms]])
  show ?thesis using 1 2 q1 q2 q3 q4 l by (simp add: recheckAfterAntiLockout_def Let_def split: sum.split)
qed

lemma active_bans_steady: "active_bans p d = (r, d') \<Longrightarrow> steady d d'"
  using reads_steady by (auto simp: active_bans_def split: prod.splits sum.splits)

lemma retryGatedBan_steady:
  assumes "0 \<le> ri_attempts it"
  shows "steady d (retryGatedBan p d it)"
proof -
  obtain r d1 where 1: "active_bans p d = (r, d1)" by fastforce
  note q1 = active_bans_steady [OF 1]
  have fw: "steady d (d1\<lparr>dm_fw := x\<rparr>)" for x using q1 by simp
  have re: "steady d (record_enforce p opn res (d1\<lparr>dm_fw := x\<rparr>))" for opn res x by (rule steady_trans [OF fw record_enforce_steady])
  have re': "steady d (record_enforce p opn res (notifyEnforcerFailure p ip e (d1\<lparr>dm_fw := x\<rparr>)))" for opn res x ip e
    by (rule steady_trans [OF _ record_enforce_steady]) (use q1 in simp)
  have ex: "steady d (noteGatedBanExhausted p ip n (d1\<lparr>dm_fw := x\<rparr>))" for ip n x
    unfolding noteGatedBanExhausted_def by (rule steady_trans [OF fw audit_ip_steady(1)])
  have rq: "steady d ((d1\<lparr>dm_fw := x\<rparr>)\<lparr>dm_gated := q\<rparr>)"
    if "recheck_requeue ip (ri_attempts it + 1) t v (dm_gated d1) = (b, q)" for ip t v b q x
    using gated_queue_steady [OF fw, where q = q] recheck_ok_requeue [of "dm_gated d1" "ri_attempts it + 1" ip t v] that assms
    by (simp add: daemon_wf_def)
  show ?thesis using 1 q1 re re' ex rq
    by (auto simp: retryGatedBan_def gate_ban_def Let_def split: sum.split option.split prod.split bool.split)
qed

lemma recheck_tick_steady: "steady d (recheck_tick_step p now o1 o2 d)"
proof (cases "daemon_wf d")
  case True
  obtain items q where 1: "recheck_pop now o1 (dm_recheck d) = (items, q)" by fastforce
  let ?d1 = "foldl (recheckAfterAntiLockout p) (d\<lparr>dm_recheck := q\<rparr>) items"
  obtain items2 q2 where 2: "recheck_pop now o2 (dm_gated ?d1) = (items2, q2)" by fastforce
  have "recheck_ok (dm_recheck d)" using True by (simp add: daemon_wf_def)
  then have "\<forall>it \<in> set items. 0 \<le> ri_attempts it" "recheck_ok q"
    using popped_attempts [OF 1] recheck_ok_pop [of "dm_recheck d" now o1] 1 by simp_all
  then have a: "steady d ?d1" by (intro steady_trans [OF recheck_queue_steady steady_items [OF recheck_steady]]) simp_all
  then have "recheck_ok (dm_gated ?d1)" using True by (simp add: steady_def daemon_wf_def)
  then have "\<forall>it \<in> set items2. 0 \<le> ri_attempts it" "recheck_ok q2"
    using popped_attempts [OF 2] recheck_ok_pop [of "dm_gated ?d1" now o2] 2 by simp_all
  then have "steady d (foldl (retryGatedBan p) (?d1\<lparr>dm_gated := q2\<rparr>) items2)"
    by (intro steady_trans [OF gated_queue_steady [OF a] steady_items [OF retryGatedBan_steady]]) simp_all
  then show ?thesis using 1 2 by (simp add: recheck_tick_step_def Let_def)
qed (simp add: steady_def)

lemma audit_repairs_steady [simp]: "steady d (audit_repairs p rep d)"
  by (simp add: audit_repairs_def split: prod.split)

lemma syncEnforcer_steady: "steady d (snd (syncEnforcer p d))"
proof (cases "dm_gate d")
  case (Some g)
  obtain r d1 where 1: "active_bans p d = (r, d1)" by fastforce
  note q1 = active_bans_steady [OF 1]
  have re: "steady d (record_enforce p opn res (d1\<lparr>dm_fw := x\<rparr>))" for opn res x
    by (rule steady_trans [OF _ record_enforce_steady]) (use q1 in simp)
  have "steady d (audit_repairs p rep (record_enforce p opn res (d1\<lparr>dm_fw := x\<rparr>)))" for rep opn res x
    by (rule steady_trans [OF re audit_repairs_steady])
  then show ?thesis using Some 1 q1 re by (simp add: syncEnforcer_def Let_def split: sum.split prod.split option.split)
qed (simp add: syncEnforcer_def)

lemma reloadAllowlist_steady: "steady d (snd (reloadAllowlist d))"
proof -
  obtain r d1 where 1: "list_allow d = (r, d1)" by fastforce
  have q1: "steady d d1" using 1 reads_steady by (auto simp: list_allow_def split: prod.splits sum.splits)
  have "gate_follows d1 \<Longrightarrow> gate_follows (d1\<lparr>dm_runtime := ps, dm_gate := map_option (SetExtraAllowlist ps) (dm_gate d1)\<rparr>)" for ps
    using gate_wf_extra by (auto simp: gate_follows_def SetExtraAllowlist_def)
  then show ?thesis using 1 q1 by (auto simp: reloadAllowlist_def steady_def daemon_wf_def Let_def split: sum.split)
qed

lemma syncAllowlist_steady [simp]: "steady d (snd (syncEnforcerAllowlist p d))"
  by (simp add: syncEnforcerAllowlist_def split: option.split prod.split)

lemma flushAggregates_steady: "steady d (flushAggregates order now d)"
  by (auto simp: flushAggregates_def Let_def intro: steady_then)

lemma expire_bans_steady: "steady d (expire_bans_tick p now d)"
proof -
  obtain r d1 where 1: "with_store (ExpireBans now) d = (r, d1)" by fastforce
  have "steady d d1" using 1 by (rule with_store_steady) simp
  moreover from this have "steady d (snd (syncEnforcer p d1))" by (rule steady_trans [OF _ syncEnforcer_steady])
  ultimately show ?thesis using 1 by (simp add: expire_bans_tick_def split: sum.split)
qed

lemma expire_allows_steady: "steady d (expire_allows_tick p now d)"
proof -
  obtain r d1 where 1: "with_store (ExpireAllows now) d = (r, d1)" by fastforce
  have "steady d d1" using 1 by (rule with_store_steady) simp
  moreover from this have "steady d (snd (syncEnforcerAllowlist p (snd (reloadAllowlist d1))))"
    by (rule steady_trans [OF steady_trans [OF _ reloadAllowlist_steady] syncAllowlist_steady])
  ultimately show ?thesis using 1 by (simp add: expire_allows_tick_def split: sum.split)
qed

end
