(* ===== verification/ControlSteps.thy ===== *)
theory ControlSteps
  imports DaemonSteps
begin

text \<open>
  The steps of the whole daemon: pipeline, timers, feeds and control requests, in any order and
  with any outside.  Every state they reach is well formed, and what they do to the store is a run
  of the store operations.
\<close>

section \<open>The control handlers\<close>

lemma in_dm_steady: "in_dm f c = (r, c') \<Longrightarrow> (\<And>d. steady d (snd (f d))) \<Longrightarrow> steady (cl_dm c) (cl_dm c')"
  by (auto simp: in_dm_def split: prod.splits) (metis snd_conv)

lemma in_dm_steady' [simp]: "(\<And>d. steady d (snd (f d))) \<Longrightarrow> steady (cl_dm c) (cl_dm (snd (in_dm f c)))"
  by (rule in_dm_steady [OF surjective_pairing])

lemma on_dm_steady [simp]: "steady a (cl_dm (on_dm f c)) = steady a (f (cl_dm c))"
  by (simp add: on_dm_def)

lemma journal_steady [simp]: "steady d (journal p opn reason d)" "steady d (journal_op p opn px ttl reason d)"
  by (simp_all add: journal_def journal_op_def)

lemma journal_after: "steady a d \<Longrightarrow> steady a (journal p opn reason d)" "steady a d \<Longrightarrow> steady a (journal_op p opn px ttl reason d)"
  by (rule steady_trans, assumption, simp)+

lemma set_armed_steady [simp]: "steady a (set_armed_flag b d) = steady a d"
  by (simp add: set_armed_flag_def)

lemma refuse_steady: "steady d (snd (refuseManualBan p px ttl reason d))"
  by (simp add: refuseManualBan_def)

lemma record_manual_steady: "steady d (record_manual_ban p opn px ttl reason d)"
proof -
  let ?f = "\<lambda>db. case RecordManualBan (pt_clock p) (pt_clock p) (pfx_ip px) ttl reason (\<not> IsArmed (dm_policy d)) db of
      Inl e \<Rightarrow> (Some e, db) | Inr db' \<Rightarrow> (None, db')"
  obtain r d1 where w: "with_store ?f d = (r, d1)" by fastforce
  have "steady d d1" using w by (rule with_store_steady) (auto split: sum.split intro: stored_manual)
  then show ?thesis unfolding record_manual_ban_def w by (auto split: sum.split option.split intro: journal_after)
qed

lemma manual_section_steady: "manual_ban_section p opn px ttl reason d = (r, d') \<Longrightarrow> steady d d'"
proof -
  have "steady d (record_manual_ban p opn px ttl reason (d\<lparr>dm_fw := x\<rparr>))" for x
    by (rule steady_trans [OF _ record_manual_steady]) simp
  moreover have "steady d (record_manual_ban p opn px ttl reason d)" by (rule record_manual_steady)
  ultimately show "manual_ban_section p opn px ttl reason d = (r, d') \<Longrightarrow> steady d d'"
    by (auto simp: manual_ban_section_def gate_ban_def split: option.splits if_splits prod.splits)
qed

lemma engine_then: "(\<And>x. steady x (f x)) \<Longrightarrow> steady d (f (d\<lparr>dm_engine := e\<rparr>))"
  by (rule steady_trans [of d "d\<lparr>dm_engine := e\<rparr>"]) simp_all

lemma handleBan_steady: "steady d (snd (handleBan p req d))"
proof -
  have ap: "steady x (snd (apply_manual_ban p px ttl reason x))" for x :: "('a, 'b) daemon" and px ttl reason
    by (auto simp: apply_manual_ban_def Let_def split: prod.split option.split dest: manual_section_steady)
  show ?thesis
    by (auto simp: handleBan_def split: sum.split option.split prod.split
        intro: refuse_steady engine_then [where f = "\<lambda>x. snd (refuseManualBan p px ttl r x)" for px ttl r, OF refuse_steady]
          engine_then [where f = "\<lambda>x. snd (apply_manual_ban p px ttl r x)" for px ttl r, OF ap])
qed

lemma gate_unban_steady [simp]: "steady a (gate_unban p t d) = steady a d"
  by (simp add: gate_unban_def split: option.split)

lemma push_allow_steady [simp]: "steady a (push_allow p px d) = steady a d"
  by (simp add: push_allow_def split: option.split)

lemma handleUnban_steady: "steady d (snd (handleUnban p req d))"
proof -
  have "steady d d2" if "with_store (writes (Unban t ip)) (gate_unban p tg d) = (r, d2)" for t ip tg r d2
    using with_store_steady [OF that] steady_trans [of d "gate_unban p tg d"] by simp
  moreover have "steady d d2" if "with_store (UnbanPrefix t px) (gate_unban p tg d) = (r, d2)" for t px tg r d2
    using with_store_steady [OF that] steady_trans [of d "gate_unban p tg d"] by simp
  ultimately show ?thesis by (auto simp: handleUnban_def Let_def split: sum.splits prod.splits if_splits option.splits)
qed

lemma lift_one_steady [simp]: "steady d (lift_one p px d b)"
  by (simp add: lift_one_def)

lemma publish_fold_steady [simp]:
  "steady a (foldl (\<lambda>d ip. publishActionEvent ''unban'' (addr_str ip) 0 0 reason ''cli'' d) d ips) = steady a d"
  by (induction ips arbitrary: d) simp_all

lemma liftBans_steady: "steady d (liftBansCoveredBy p px reason d)"
proof -
  obtain r d1 where 1: "active_bans p d = (r, d1)" by fastforce
  note q1 = active_bans_steady [OF 1]
  have q2: "steady d (foldl (lift_one p px) d1 bans)" for bans
    by (rule steady_trans [OF q1]) (rule steady_foldl, simp)
  have "steady d d3" if "with_store (UnbanCovered (pt_clock p) px reason) (foldl (lift_one p px) d1 bans) = (x, d3)" for bans x d3
    by (rule steady_trans [OF q2 with_store_steady [OF that]]) simp
  then show ?thesis using 1 q1 by (auto simp: liftBansCoveredBy_def Let_def split: sum.split prod.split)
qed

lemma handleAllow_steady: "steady d (snd (handleAllow p req d))"
proof -
  have "steady d (push_allow p px (liftBansCoveredBy p px rs (snd (reloadAllowlist (journal_op p ''allow'' px ttl reason d1)))))"
    if "with_store (writes (AddAllow t px e reason)) d = (r, d1)" for t px e reason r d1 ttl rs
  proof -
    have "steady d d1" using that by (rule with_store_steady) simp
    then have "steady d (liftBansCoveredBy p px rs (snd (reloadAllowlist (journal_op p ''allow'' px ttl reason d1))))"
      by (intro steady_trans [OF _ liftBans_steady] steady_trans [OF _ reloadAllowlist_steady] journal_after)
    then show ?thesis by simp
  qed
  moreover have "steady d d1" if "with_store (writes (AddAllow t px e reason)) d = (r, d1)" for t px e reason r d1
    using that by (rule with_store_steady) simp
  ultimately show ?thesis by (auto simp: handleAllow_def Let_def split: sum.split prod.split)
qed

lemma handleUnallow_steady: "steady d (snd (handleUnallow p req d))"
proof -
  have q: "steady d d1" if "with_store (RemoveAllow px) d = (r, d1)" for px r d1
    using that by (rule with_store_steady) simp
  moreover have "steady d (snd (syncEnforcerAllowlist p (snd (reloadAllowlist (journal_op p ''unallow'' px 0 reason d1)))))"
    if "with_store (RemoveAllow px) d = (r, d1)" for px r d1 reason
    using q [OF that] by (intro steady_trans [OF _ syncAllowlist_steady] steady_trans [OF _ reloadAllowlist_steady] journal_after)
  ultimately show ?thesis by (auto simp: handleUnallow_def Let_def split: sum.split prod.split)
qed

lemma delete_window_steady [simp]: "steady d (snd (delete_window d))"
  by (simp add: delete_window_def)

lemma window_reads: "delete_window d = (r, d1) \<Longrightarrow> steady d d1" "get_window d = (r', d1) \<Longrightarrow> steady d d1"
  unfolding delete_window_def get_window_def by (erule with_store_steady, simp)+

lemma setArmed_steady: "setArmedState p b opn reason c = (r, c') \<Longrightarrow> steady (cl_dm c) (cl_dm c')"
  by (auto simp: setArmedState_def split: option.splits if_splits intro!: journal_after)

lemma preflight_steady: "steady d (snd (runArmPreflight p peer d))"
proof -
  obtain r d1 where 1: "active_bans p d = (r, d1)" by fastforce
  obtain n d2 where 2: "countRecentDryBans p (24 * Hour) d1 = (n, d2)" by fastforce
  have "steady d1 d2" using 2 reads_steady by (auto simp: countRecentDryBans_def split: prod.splits sum.splits)
  then have "steady d d2" using active_bans_steady [OF 1] steady_trans by blast
  then show ?thesis using 1 2 by (simp add: runArmPreflight_def Let_def split: prod.split)
qed

lemma arm_open_steady: "steady (cl_dm c) (cl_dm (snd (arm_open_window p checks revertAt c)))"
proof (cases revertAt)
  case (Some t)
  let ?set = "with_store (writes (SetState (pt_clock (cp_ports p)) stateKeyArmWindow (fmt_rfc3339 t)))"
  obtain r c1 where w: "in_dm ?set c = (r, c1)" by fastforce
  have a: "steady (cl_dm c) (cl_dm c1)" using w by (rule in_dm_steady) simp
  have "steady (cl_dm c) (cl_dm (snd (setArmedState p b opn reason c1)))" for b opn reason
    by (rule steady_trans [OF a setArmed_steady [OF surjective_pairing]])
  then show ?thesis using Some w a by (simp add: arm_open_window_def split: sum.split)
qed (simp add: arm_open_window_def)

lemma handleArm_steady: "steady (cl_dm c) (cl_dm (snd (handleArm p req c)))"
proof -
  obtain checks hasFail selfBan c1 where 1: "in_dm (runArmPreflight (cp_ports p) (sq_peer req)) c = ((checks, hasFail, selfBan), c1)"
    by (metis surj_pair)
  have q1: "steady (cl_dm c) (cl_dm c1)" using 1 by (rule in_dm_steady) (rule preflight_steady)
  have q2: "steady (cl_dm c) (cl_dm c2)" if "setArmedState p True ''arm'' reason c1 = (r, c2)" for reason r c2
    by (rule steady_trans [OF q1 setArmed_steady [OF that]])
  have "steady (cl_dm c) (cl_dm (snd (arm_open_window p checks t c2)))" if "setArmedState p True ''arm'' reason c1 = (r, c2)" for reason r c2 t
    by (rule steady_trans [OF q2 [OF that] arm_open_steady])
  then show ?thesis using 1 q1 q2 by (auto simp: handleArm_def split: sum.split prod.split option.split)
qed

lemma handleArmKeep_steady: "steady (cl_dm c) (cl_dm (snd (handleArmKeep p c)))"
proof -
  obtain r c1 where 1: "in_dm get_window c = (r, c1)" by fastforce
  have q1: "steady (cl_dm c) (cl_dm c1)" using 1 by (rule in_dm_steady) (rule window_reads(2) [OF surjective_pairing])
  obtain r2 c2 where 2: "in_dm delete_window c1 = (r2, c2)" by fastforce
  have q2: "steady (cl_dm c) (cl_dm c2)" by (rule steady_trans [OF q1 in_dm_steady [OF 2]]) simp
  show ?thesis using 1 2 q1 q2 by (auto simp: handleArmKeep_def split: sum.split option.split intro!: journal_after)
qed

lemma handleDisarm_steady: "steady (cl_dm c) (cl_dm (snd (handleDisarm p c)))"
proof -
  obtain r c1 where 1: "setArmedState p False ''disarm'' (''operator disarmed via '' @ quoted ''ezyshield disarm'') c = (r, c1)" by fastforce
  note q1 = setArmed_steady [OF 1]
  have "steady (cl_dm c) (cl_dm (snd (in_dm delete_window c1)))" by (rule steady_trans [OF q1 in_dm_steady']) simp
  then show ?thesis using 1 q1 by (simp add: handleDisarm_def split: option.split)
qed

lemma revert_steady: "steady (cl_dm c) (cl_dm (revert_window p c))"
proof -
  obtain r c1 where 1: "setArmedState p False ''arm_revert'' arm_expired_msg c = (r, c1)" by fastforce
  note q1 = setArmed_steady [OF 1]
  have a: "steady (cl_dm c) (cl_dm (snd (in_dm delete_window c')))" if "steady (cl_dm c) (cl_dm c')" for c'
    by (rule steady_trans [OF that in_dm_steady']) simp
  show ?thesis using 1 q1 by (auto simp: revert_window_def Let_def split: option.split intro!: a journal_after)
qed

lemma checkArmWindow_steady: "steady (cl_dm c) (cl_dm (checkArmWindow p now c))"
proof -
  obtain r c1 where 1: "in_dm get_window c = (r, c1)" by fastforce
  have q1: "steady (cl_dm c) (cl_dm c1)" using 1 by (rule in_dm_steady) (rule window_reads(2) [OF surjective_pairing])
  have a: "steady (cl_dm c) (cl_dm (revert_window p c1))" by (rule steady_trans [OF q1 revert_steady])
  have b: "steady (cl_dm c) (cl_dm (snd (in_dm delete_window c1)))" by (rule steady_trans [OF q1 in_dm_steady']) simp
  from 1 q1 a b show ?thesis by (simp add: checkArmWindow_def split: sum.split option.split)
qed

lemma disable_feeds_steady [simp]: "steady a (cl_dm (snd (disable_feeds p n c))) = steady a (cl_dm c)"
  by (simp add: disable_feeds_def Let_def on_dm_def split: option.split prod.split)

lemma handleDisableAll_steady: "steady (cl_dm c) (cl_dm (snd (handleDisableAll p c)))"
proof -
  obtain r c1 where 1: "setArmedState p False ''disarm'' (''operator ran '' @ quoted ''ezyshield disable --all'') c = (r, c1)" by fastforce
  note q1 = setArmed_steady [OF 1]
  let ?c2 = "snd (in_dm delete_window c1)"
  obtain r3 c3 where 3: "in_dm (with_store (UnbanAll (pt_clock (cp_ports p)) ''panic button: operator ran disable --all'')) ?c2 = (r3, c3)" by fastforce
  obtain r4 c4 where 4: "in_dm (syncEnforcer (cp_ports p)) c3 = (r4, c4)" by fastforce
  have q2: "steady (cl_dm c) (cl_dm ?c2)" by (rule steady_trans [OF q1 in_dm_steady']) simp
  have q3: "steady (cl_dm c) (cl_dm c3)" by (rule steady_trans [OF q2 in_dm_steady [OF 3]]) simp
  have q4: "steady (cl_dm c) (cl_dm c4)" by (rule steady_trans [OF q3 in_dm_steady [OF 4 syncEnforcer_steady]])
  show ?thesis using 1 3 4 q1 q3 q4 by (simp add: handleDisableAll_def Let_def split: option.split sum.split)
qed

lemma active_bans_steady' [simp]: "steady d (snd (active_bans p d))"
  by (rule active_bans_steady [OF surjective_pairing])

lemma armedUntil_steady [simp]: "steady d (snd (armedUntil d))"
  using window_reads(2) by (auto simp: armedUntil_def split: prod.split sum.split option.split)

lemma handleStatus_steady: "steady (cl_dm c) (cl_dm (snd (handleStatus p c)))"
proof -
  obtain r c1 where 1: "in_dm (active_bans (cp_ports p)) c = (r, c1)" by fastforce
  obtain r2 c2 where 2: "in_dm armedUntil c1 = (r2, c2)" by fastforce
  have q1: "steady (cl_dm c) (cl_dm c1)" using 1 by (rule in_dm_steady) simp
  have "steady (cl_dm c) (cl_dm c2)" by (rule steady_trans [OF q1 in_dm_steady [OF 2]]) simp
  then show ?thesis using 1 2 q1 by (simp add: handleStatus_def Let_def split: sum.split)
qed

lemma list_steady [simp]: "steady d (snd (handleList p d))" "steady d (snd (handleListAllow p d))" "steady d (snd (handleEvents req d))"
  using active_bans_steady reads_steady
  by (fastforce simp: handleList_def handleListAllow_def list_allow_def handleEvents_def Let_def split: prod.split sum.splits)+

lemma buildAbuseReport_steady: "steady d (snd (buildAbuseReport p ev ip n b d))"
proof -
  obtain r1 d1 where 1: "with_store (reads (GetOffender ip)) d = (r1, d1)" by fastforce
  obtain r2 d2 where 2: "with_store (reads (ActiveBanForIP ip)) d1 = (r2, d2)" by fastforce
  obtain r3 d3 where 3: "with_store (reads (StrikesForIP ip n)) d2 = (r3, d3)" by fastforce
  obtain r4 d4 where 4: "with_store (reads (AuditLogForIP ip n)) d3 = (r4, d4)" by fastforce
  note q1 = reads_steady [OF 1] note q2 = steady_trans [OF q1 reads_steady [OF 2]]
  note q3 = steady_trans [OF q2 reads_steady [OF 3]] note q4 = steady_trans [OF q3 reads_steady [OF 4]]
  show ?thesis using 1 2 3 4 q1 q2 q3 q4 by (simp add: buildAbuseReport_def split: sum.split)
qed

lemma handleReport_steady: "steady d (snd (handleReport p req d))"
proof -
  have "steady d (snd (handleReportList q f n d))" for q :: "('a, 'b) ports" and f n
    using reads_steady by (auto simp: handleReportList_def split: prod.split sum.split)
  moreover have "steady d d1" if "buildAbuseReport q ev ip n b d = (r, d1)" for q :: "('a, 'b) ports" and ev ip n b r d1
    using buildAbuseReport_steady [of d q ev ip n b] that by simp
  ultimately show ?thesis by (auto simp: handleReport_def Let_def split: sum.split prod.split option.split) (metis snd_conv)+
qed

lemma prune_row_steady [simp]: "steady d (prune_audit_row p d st)"
  by (simp add: prune_audit_row_def)

lemma prune_store_steady: "prune_store p pol d = (r, d') \<Longrightarrow> steady d d'"
  unfolding prune_store_def by (erule with_store_steady) (auto split: prod.split intro: stored_retention)

lemma prune_rows_steady: "steady a d \<Longrightarrow> steady a (foldl (prune_audit_row p) d stats)"
  by (rule steady_trans [OF _ steady_foldl]) simp_all

lemma prune_steady: "steady d (runPruneOnce p d)" "steady d (snd (handlePrune p req d))"
  using prune_store_steady reads_steady
  by (fastforce simp: runPruneOnce_def handlePrune_def split: option.split sum.split prod.split intro: prune_rows_steady)+

lemma feeds_apply_steady:
  "applyFeedBlock p u kept c = (r, c') \<Longrightarrow> steady (cl_dm c) (cl_dm c')" "observeFeed u kept c = (r, c') \<Longrightarrow> steady (cl_dm c) (cl_dm c')"
  by (auto simp: applyFeedBlock_def observeFeed_def sync_feeds_def on_dm_def Let_def split: if_splits option.splits)

lemma handleFeedUpdate_steady: "steady (cl_dm c) (cl_dm (handleFeedUpdate p u c))"
  by (auto simp: handleFeedUpdate_def Let_def split: prod.splits if_splits dest: feeds_apply_steady intro!: journal_after)

lemma foldl_feeds_steady: "steady (cl_dm c) (cl_dm (foldl (\<lambda>c u. handleFeedUpdate p u c) c us))"
proof (induction us arbitrary: c)
  case (Cons u us)
  then show ?case by (auto intro: steady_trans [OF handleFeedUpdate_steady])
qed simp

lemma feed_verbs_steady [simp]:
  "steady (cl_dm c) (cl_dm (snd (handleFeedsStatus p c)))" "steady (cl_dm c) (cl_dm (snd (handleFeedsRefresh p req c)))"
  "steady (cl_dm c) (cl_dm (snd (handleMetrics p c)))"
  by (simp_all add: handleFeedsStatus_def handleFeedsRefresh_def handleMetrics_def foldl_feeds_steady split: option.split prod.split)

lemmas handlers_steady = handleStatus_steady handleArm_steady handleArmKeep_steady handleDisarm_steady handleDisableAll_steady
  handleReport_steady handleBan_steady handleUnban_steady handleAllow_steady handleUnallow_steady prune_steady

lemma dispatch_verb_steady: "steady (cl_dm c) (cl_dm (snd (dispatch_verb_of p req c)))"
  unfolding dispatch_verb_of_def Let_def by (simp add: handlers_steady)

lemma audit_cmd_steady: "steady (cl_dm c) (cl_dm (auditSocketCmd p req ok c))"
  by (simp add: auditSocketCmd_def Let_def)

lemma handleConn_steady: "steady (cl_dm c) (cl_dm (snd (handleConnScoped p ro req c)))"
proof -
  obtain resp c1 where d: "dispatch_verb_of p req c = (resp, c1)" by fastforce
  have q: "steady (cl_dm c) (cl_dm c1)" using dispatch_verb_steady [of c p req] d by simp
  have "steady (cl_dm c) (cl_dm (auditSocketCmd p req ok c1))" for ok by (rule steady_trans [OF q audit_cmd_steady])
  then show ?thesis using d q by (simp add: handleConnScoped_def audit_cmd_steady)
qed

section \<open>The steps of the daemon\<close>

text \<open>The loop of the AI worker: one item off the queue.\<close>

definition ai_worker :: "('w, 'e) ports \<Rightarrow> (string \<Rightarrow> string) \<Rightarrow> ('w, 'e) daemon \<Rightarrow> ('w, 'e) daemon" where
  "ai_worker p clean d =
     (case dm_ai d of
        None \<Rightarrow> d
      | Some ay \<Rightarrow>
          (case map_option aq_pop (ay_queue ay) of
             Some (Some item, q) \<Rightarrow> snd (runAIAsyncItem p clean item (d\<lparr>dm_ai := Some (ay\<lparr>ay_queue := Some q\<rparr>)\<rparr>))
           | _ \<Rightarrow> d))"

definition fold_flush :: "('w, 'e) ports \<Rightarrow> string list \<Rightarrow> ('w, 'e) daemon \<Rightarrow> ('w, 'e) daemon" where
  "fold_flush p order d =
     (case dm_notify_sup d of
        None \<Rightarrow> d
      | Some folder \<Rightarrow>
          (case flush_summaries (pt_wall p) order folder of
             (ns, folder1) \<Rightarrow> foldl (\<lambda>d n. notify p n d) (d\<lparr>dm_notify_sup := Some folder1\<rparr>) ns))"

datatype ('w, 'e) sys_step =
    SysLine "nat \<Rightarrow> ('w, 'e) ports" "parser list" raw_line
  | SysAI "('w, 'e) ports" "string \<Rightarrow> string"
  | SysRetry "('w, 'e) ports" time "addr list" "addr list"
  | SysReconcile "('w, 'e) ports"
  | SysExpireBans "('w, 'e) ports" time
  | SysExpireAllows "('w, 'e) ports" time
  | SysFlush "addr list" time
  | SysFold "('w, 'e) ports" "string list"
  | SysPrune "('w, 'e) cports"
  | SysFeed "('w, 'e) cports" feed_update
  | SysArmWindow "('w, 'e) cports" time
  | SysRequest "('w, 'e) cports" bool socket_request

fun sys_apply :: "('w, 'e) control \<Rightarrow> ('w, 'e) sys_step \<Rightarrow> ('w, 'e) control" where
  "sys_apply c (SysLine pts parsers raw) = on_dm (processRaw pts parsers raw) c"
| "sys_apply c (SysAI p clean) = on_dm (ai_worker p clean) c"
| "sys_apply c (SysRetry p now o1 o2) = on_dm (recheck_tick_step p now o1 o2) c"
| "sys_apply c (SysReconcile p) = snd (in_dm (syncEnforcer p) c)"
| "sys_apply c (SysExpireBans p now) = on_dm (expire_bans_tick p now) c"
| "sys_apply c (SysExpireAllows p now) = on_dm (expire_allows_tick p now) c"
| "sys_apply c (SysFlush order now) = on_dm (flushAggregates order now) c"
| "sys_apply c (SysFold p order) = on_dm (fold_flush p order) c"
| "sys_apply c (SysPrune p) = on_dm (runPruneOnce p) c"
| "sys_apply c (SysFeed p u) = handleFeedUpdate p u c"
| "sys_apply c (SysArmWindow p now) = checkArmWindow p now c"
| "sys_apply c (SysRequest p ro req) = snd (handleConnScoped p ro req c)"

definition sys_run :: "('w, 'e) control \<Rightarrow> ('w, 'e) sys_step list \<Rightarrow> ('w, 'e) control" where
  "sys_run c steps = foldl sys_apply c steps"

lemma ai_worker_steady: "steady d (ai_worker p clean d)"
proof -
  have "steady d (snd (runAIAsyncItem p clean item (d\<lparr>dm_ai := x\<rparr>)))" for item x
    by (rule steady_trans [OF _ ai_item_steady]) simp
  then show ?thesis by (auto simp: ai_worker_def split: option.split prod.split)
qed

lemma fold_flush_steady: "steady d (fold_flush p order d)"
proof -
  have "steady a (foldl (\<lambda>d n. notify p n d) b ns) = steady a b" for a b :: "('a, 'b) daemon" and ns
    by (induction ns arbitrary: b) simp_all
  then show ?thesis by (auto simp: fold_flush_def split: option.split prod.split)
qed

lemma sys_apply_steady: "steady (cl_dm c) (cl_dm (sys_apply c st))"
  by (cases st) (simp_all add: processRaw_steady ai_worker_steady recheck_tick_steady syncEnforcer_steady expire_bans_steady
      expire_allows_steady flushAggregates_steady fold_flush_steady prune_steady handleFeedUpdate_steady checkArmWindow_steady
      handleConn_steady)

lemma sys_run_steady: "steady (cl_dm c) (cl_dm (sys_run c steps))"
proof (induction steps arbitrary: c)
  case (Cons st steps)
  then show ?case by (auto simp: sys_run_def intro: steady_trans [OF sys_apply_steady])
qed (simp add: sys_run_def)

end
