(* ===== verification/SocketProps.thy ===== *)
theory SocketProps
  imports ControlSteps
begin

text \<open>
  What a request cannot do: a viewer changes nothing but the audit log, and a manual ban that is
  answered with an error bans nobody.
\<close>

section \<open>Reading\<close>

text \<open>Only faults of the driver are consumed.\<close>

definition only_reads :: "('w, 'e) daemon \<Rightarrow> ('w, 'e) daemon \<Rightarrow> bool" where
  "only_reads d d' \<longleftrightarrow> (\<exists>fs. d' = d\<lparr>dm_store := (fs, dm_db d)\<rparr>)"

lemma only_reads_refl [simp]: "only_reads d d"
  unfolding only_reads_def by (rule exI [of _ "fst (dm_store d)"]) simp

lemma only_reads_trans: "only_reads a b \<Longrightarrow> only_reads b c \<Longrightarrow> only_reads a c"
  by (auto simp: only_reads_def)

lemma reads_only: "with_store (reads f) d = (r, d') \<Longrightarrow> only_reads d d'"
  by (auto simp: with_store_def faulty_def reads_def only_reads_def split: prod.splits if_splits)

lemma active_bans_only: "active_bans p d = (r, d') \<Longrightarrow> only_reads d d'"
  using reads_only by (auto simp: active_bans_def split: prod.splits sum.splits)

lemma armedUntil_only: "armedUntil d = (r, d') \<Longrightarrow> only_reads d d'"
  using reads_only by (auto simp: armedUntil_def get_window_def split: prod.splits sum.splits option.splits if_splits)

lemma in_dm_only: "in_dm f c = (r, c') \<Longrightarrow> (\<And>r d'. f (cl_dm c) = (r, d') \<Longrightarrow> only_reads (cl_dm c) d') \<Longrightarrow> \<exists>d'. c' = c\<lparr>cl_dm := d'\<rparr> \<and> only_reads (cl_dm c) d'"
  by (auto simp: in_dm_def split: prod.splits)

definition looks :: "('w, 'e) control \<Rightarrow> ('w, 'e) control \<Rightarrow> bool" where
  "looks c c' \<longleftrightarrow> (\<exists>d'. c' = c\<lparr>cl_dm := d'\<rparr> \<and> only_reads (cl_dm c) d')"

lemma looks_refl [simp]: "looks c c"
  unfolding looks_def by (rule exI [of _ "cl_dm c"]) simp

lemma looks_trans: "looks a b \<Longrightarrow> looks b c \<Longrightarrow> looks a c"
  using only_reads_trans by (fastforce simp: looks_def)

lemma in_dm_looks: "in_dm f c = (r, c') \<Longrightarrow> (\<And>d r d'. f d = (r, d') \<Longrightarrow> only_reads d d') \<Longrightarrow> looks c c'"
  unfolding looks_def by (rule in_dm_only)

lemma in_dm_looks' [intro]: "(\<And>d r d'. f d = (r, d') \<Longrightarrow> only_reads d d') \<Longrightarrow> looks c (snd (in_dm f c))"
  by (rule in_dm_looks [OF surjective_pairing])

lemma handleStatus_looks: "looks c (snd (handleStatus p c))"
proof -
  obtain r c1 where 1: "in_dm (active_bans (cp_ports p)) c = (r, c1)" by fastforce
  obtain r2 c2 where 2: "in_dm armedUntil c1 = (r2, c2)" by fastforce
  have q1: "looks c c1" using 1 active_bans_only by (rule in_dm_looks)
  have "looks c1 c2" using 2 armedUntil_only by (rule in_dm_looks)
  then have "looks c c2" using q1 looks_trans by blast
  then show ?thesis using 1 2 q1 by (simp add: handleStatus_def Let_def split: sum.split)
qed

lemma lists_only:
  "handleList p d = (r1, d') \<Longrightarrow> only_reads d d'" "handleListAllow p d = (r1, d') \<Longrightarrow> only_reads d d'"
  "handleEvents req d = (r1, d') \<Longrightarrow> only_reads d d'"
  using active_bans_only reads_only
  by (fastforce simp: handleList_def handleListAllow_def list_allow_def handleEvents_def Let_def split: prod.splits sum.splits)+

lemma report_only: "buildAbuseReport p ev ip n b d = (r, d') \<Longrightarrow> only_reads d d'"
proof -
  assume a: "buildAbuseReport p ev ip n b d = (r, d')"
  obtain r1 d1 where 1: "with_store (reads (GetOffender ip)) d = (r1, d1)" by fastforce
  obtain r2 d2 where 2: "with_store (reads (ActiveBanForIP ip)) d1 = (r2, d2)" by fastforce
  obtain r3 d3 where 3: "with_store (reads (StrikesForIP ip n)) d2 = (r3, d3)" by fastforce
  obtain r4 d4 where 4: "with_store (reads (AuditLogForIP ip n)) d3 = (r4, d4)" by fastforce
  note q1 = reads_only [OF 1] note q2 = only_reads_trans [OF q1 reads_only [OF 2]]
  note q3 = only_reads_trans [OF q2 reads_only [OF 3]] note q4 = only_reads_trans [OF q3 reads_only [OF 4]]
  show ?thesis using a 1 2 3 4 q1 q2 q3 q4 by (auto simp: buildAbuseReport_def split: sum.splits if_splits)
qed

lemma handleReport_only: "handleReport p req d = (r, d') \<Longrightarrow> only_reads d d'"
proof -
  have "only_reads d d'" if "handleReportList q f n d = (r, d')" for q :: "('a, 'b) ports" and f n d r d'
    using reads_only that by (auto simp: handleReportList_def split: prod.splits sum.splits if_splits)
  then show "handleReport p req d = (r, d') \<Longrightarrow> only_reads d d'"
    using report_only by (fastforce simp: handleReport_def Let_def split: sum.splits prod.splits option.splits if_splits)
qed

lemma lists_looks:
  "looks c (snd (in_dm (handleList q) c))" "looks c (snd (in_dm (handleListAllow q) c))"
  "looks c (snd (in_dm (handleEvents req) c))" "looks c (snd (in_dm (handleReport p req) c))"
  by (rule in_dm_looks', erule lists_only handleReport_only)+

lemma dispatch_reads: "sq_verb req \<in> set readOnlyVerbs \<Longrightarrow> looks c (snd (dispatch_verb_of p req c))"
  by (auto simp: readOnlyVerbs_def dispatch_verb_of_def handleMetrics_def handleFeedsStatus_def handleStatus_looks lists_looks
      split: option.split)

section \<open>The viewer's socket\<close>

text \<open>
  Apart from consumed driver faults, the state is as before, or with one more audit row, written
  for the command.
\<close>

definition observed :: "('w, 'e) control \<Rightarrow> ('w, 'e) control \<Rightarrow> bool" where
  "observed c c' \<longleftrightarrow> (\<exists>fs db. c' = c\<lparr>cl_dm := (cl_dm c)\<lparr>dm_store := (fs, db)\<rparr>\<rparr>
     \<and> (db = dm_db (cl_dm c) \<or> (\<exists>t reason. db = AuditSystem t ''socket_cmd'' reason (dm_db (cl_dm c)))))"

lemma looks_observed: "looks c c' \<Longrightarrow> observed c c'"
  by (auto simp: looks_def only_reads_def observed_def)

lemma journal_store: "\<exists>fs db. journal p opn reason d = d\<lparr>dm_store := (fs, db)\<rparr> \<and> (db = dm_db d \<or> db = AuditSystem (pt_clock p) opn reason (dm_db d))"
  by (cases "dm_store d") (auto simp: journal_def with_store_def faulty_def writes_def)

lemma audit_observed: "observed c (auditSocketCmd p req ok c)"
proof -
  have "observed c (on_dm (journal (cp_ports p) ''socket_cmd'' reason) c)" for reason
  proof -
    obtain fs db where j: "journal (cp_ports p) ''socket_cmd'' reason (cl_dm c) = (cl_dm c)\<lparr>dm_store := (fs, db)\<rparr>"
      and db: "db = dm_db (cl_dm c) \<or> db = AuditSystem (pt_clock (cp_ports p)) ''socket_cmd'' reason (dm_db (cl_dm c))"
      using journal_store [of "cp_ports p" "''socket_cmd''" reason "cl_dm c"] by blast
    show ?thesis unfolding observed_def on_dm_def using j db by auto
  qed
  then show ?thesis by (simp add: auditSocketCmd_def Let_def)
qed

lemma verbs_disjoint: "v \<in> set readOnlyVerbs \<Longrightarrow> v \<notin> set mutatingVerbs"
  by (auto simp: readOnlyVerbs_def mutatingVerbs_def)

lemma viewer_observes: "observed c (snd (handleConnScoped p True req c))"
proof (cases "sq_verb req \<in> set readOnlyVerbs")
  case True
  obtain resp c1 where d: "dispatch_verb_of p req c = (resp, c1)" by fastforce
  have "looks c c1" using dispatch_reads [OF True, of c p] d by simp
  then show ?thesis using True verbs_disjoint [OF True] looks_observed d by (simp add: handleConnScoped_def)
next
  case False
  have "observed c c" by (rule looks_observed) simp
  then show ?thesis using False by (simp add: handleConnScoped_def audit_observed)
qed

text \<open>
  C20 (safety).  The read-only socket reads.  Whatever a viewer asks for, the daemon's state is
  unchanged: policy, allowlists, bans, firewall, queues and feeds; at most one row about the command
  is appended to the audit log.  A request for anything outside the closed list of verbs is answered
  with an error.
\<close>

theorem read_only_socket:
  "observed c (snd (handleConnScoped p True req c))
   \<and> (sq_verb req \<in> set readOnlyVerbs \<or> sr_error (fst (handleConnScoped p True req c)) = Some (ReadOnlyRefused (sq_verb req)))"
proof
  show "observed c (snd (handleConnScoped p True req c))" by (rule viewer_observes)
qed (simp add: handleConnScoped_def err_with_def)

section \<open>The refused ban\<close>

lemma journal_op_quiet: "quiet d (journal_op p opn px ttl reason d)"
  by (auto simp: journal_op_def with_store_def faulty_def writes_def quiet_def guards_kept_def tables_kept_def AuditOp_def
      insert_audit_def GetStrikeCount_def Let_def split: prod.split)

lemma publish_action_quiet: "quiet d (publishActionEvent kind ips n ttl reason src d) = quiet d d"
  by (simp add: publishActionEvent_def emit_def)

lemma journal_op_row: "True \<notin> set (fst (dm_store d)) \<Longrightarrow> \<exists>row \<in> set (db_audit (dm_db (journal_op p opn px ttl reason d))). au_op row = opn \<and> au_reason row = reason"
  by (cases "dm_store d"; cases "fst (dm_store d)") (simp_all add: journal_op_def with_store_def faulty_def writes_def AuditOp_def insert_audit_def Let_def)

lemma refuse_effect:
  assumes "refuseManualBan p px ttl reason d = (resp, d')"
  shows "quiet d d' \<and> sr_error resp = Some (ManualRefused reason)
    \<and> (True \<notin> set (fst (dm_store d)) \<longrightarrow> (\<exists>row \<in> set (db_audit (dm_db d')). au_op row = ''ban_refused'' \<and> au_reason row = reason))"
  using assms journal_op_quiet journal_op_row
  by (auto simp: refuseManualBan_def publishActionEvent_def emit_def err_with_def)

text \<open>What an error of a manual ban may have changed.\<close>

definition ban_refused :: "('w, 'e) ports \<Rightarrow> socket_request \<Rightarrow> ('w, 'e) daemon \<Rightarrow> ctl_error \<Rightarrow> ('w, 'e) daemon \<Rightarrow> bool" where
  "ban_refused p req d e d' =
     (case e of
        EnforcerBan e' \<Rightarrow> IsArmed (dm_policy d)
          \<and> (\<exists>g px ttl. dm_gate d = Some g \<and> parseSocketTarget (sq_ip req) = Inr px \<and> ban_ttl req = Inr ttl
              \<and> Gate_Ban (pt_inner p) g (pt_view p) (targetFromPrefix px ttl) (dm_fw d) = (Some e', dm_fw d'))
      | ManualRefused reason \<Rightarrow> dm_fw d' = dm_fw d
          \<and> (True \<notin> set (fst (dm_store d)) \<longrightarrow> (\<exists>row \<in> set (db_audit (dm_db d')). au_op row = ''ban_refused'' \<and> au_reason row = reason))
      | _ \<Rightarrow> d' = d)"

lemma section_error:
  assumes "manual_ban_section p opn px ttl reason d = (Some e, d')"
  shows "IsArmed (dm_policy d) \<and> guards_kept d d' \<and> dm_store d' = dm_store d
    \<and> (\<exists>g. dm_gate d = Some g \<and> Gate_Ban (pt_inner p) g (pt_view p) (targetFromPrefix px ttl) (dm_fw d) = (Some e, dm_fw d'))"
  using assms by (auto simp: manual_ban_section_def gate_ban_def guards_kept_def split: option.splits prod.splits if_splits)

lemma apply_error:
  assumes "apply_manual_ban p px ttl reason d = (resp, d')" "sr_error resp = Some e"
  shows "\<exists>e'. e = EnforcerBan e' \<and> IsArmed (dm_policy d) \<and> guards_kept d d' \<and> dm_store d' = dm_store d
    \<and> (\<exists>g. dm_gate d = Some g \<and> Gate_Ban (pt_inner p) g (pt_view p) (targetFromPrefix px ttl) (dm_fw d) = (Some e', dm_fw d'))"
proof -
  obtain opn r where sec: "manual_ban_section p opn px ttl r d = (Some (case e of EnforcerBan e' \<Rightarrow> e'), d')" and e: "e = EnforcerBan (case e of EnforcerBan e' \<Rightarrow> e')"
    using assms by (auto simp: apply_manual_ban_def Let_def err_with_def ok_with_def split: prod.splits option.splits)
  show ?thesis using section_error [OF sec] e by blast
qed

lemma engine_quiet: "rules_kept (dm_engine d) en \<Longrightarrow> quiet d (d\<lparr>dm_engine := en\<rparr>)"
  by (simp add: quiet_def guards_kept_def rules_kept_def)

lemma parse_target_error: "parseSocketTarget s = Inl e \<Longrightarrow> (\<forall>e'. e \<noteq> EnforcerBan e') \<and> (\<forall>r. e \<noteq> ManualRefused r)"
  by (auto simp: parseSocketTarget_def Let_def split: option.splits sum.splits if_splits)

lemma handleBan_cases:
  assumes "handleBan p req d = (resp, d')" "sr_error resp = Some e"
  shows "(d' = d \<and> (\<forall>e'. e \<noteq> EnforcerBan e') \<and> (\<forall>r. e \<noteq> ManualRefused r))
    \<or> (\<exists>en px ttl reason. rules_kept (dm_engine d) en \<and> refuseManualBan p px ttl reason (d\<lparr>dm_engine := en\<rparr>) = (resp, d'))
    \<or> (\<exists>en px ttl reason. rules_kept (dm_engine d) en \<and> parseSocketTarget (sq_ip req) = Inr px \<and> ban_ttl req = Inr ttl
        \<and> apply_manual_ban p px ttl reason (d\<lparr>dm_engine := en\<rparr>) = (resp, d'))"
proof (cases "parseSocketTarget (sq_ip req)")
  case (Inl e')
  then show ?thesis using assms parse_target_error by (auto simp: handleBan_def err_with_def)
next
  case (Inr px)
  show ?thesis
  proof (cases "ban_ttl req")
    case (Inl e')
    then show ?thesis using assms Inr by (auto simp: handleBan_def err_with_def ban_ttl_def split: if_splits option.splits)
  next
    case ttl: (Inr ttl)
    show ?thesis
    proof (cases "runtimeAllowlistOverlap d px")
      case (Some entry)
      have "refuseManualBan p px ttl (''target '' @ pfx_str px @ '' overlaps runtime allowlist entry '' @ pfx_str entry)
          (d\<lparr>dm_engine := dm_engine d\<rparr>) = (resp, d')"
        using assms(1) Inr ttl Some by (simp add: handleBan_def)
      then show ?thesis using rules_kept_refl by blast
    next
      case None
      obtain r en where a: "AuthorizeManualBan (pt_decide p) px (sq_force req) (cli_peers req) (dm_engine d) = (r, en)" by fastforce
      then show ?thesis using assms(1) Inr ttl None AuthorizeManualBan_rules [OF a]
        by (cases r) (auto simp: handleBan_def)
    qed
  qed
qed

text \<open>
  C9 (error).  A manual ban answered with an error bans nobody: the policy, allowlists and the gate
  are as before, no ban, strike or allowlist row is written, and the firewall is untouched unless
  the error is the enforcer's own, of an armed daemon, asked once through the gate.  A refusal of a
  guard leaves its reason in the audit log when the store works; any other error is returned before
  anything happens.
\<close>

theorem refused_ban_harmless:
  assumes "handleBan p req d = (resp, d')" "sr_error resp = Some e"
  shows "tables_kept (dm_db d) (dm_db d') \<and> guards_kept d d' \<and> ban_refused p req d e d'"
proof -
  consider (early) "d' = d" "\<forall>e'. e \<noteq> EnforcerBan e'" "\<forall>r. e \<noteq> ManualRefused r"
    | (refused) en px ttl reason where "rules_kept (dm_engine d) en" "refuseManualBan p px ttl reason (d\<lparr>dm_engine := en\<rparr>) = (resp, d')"
    | (applied) en px ttl reason where "rules_kept (dm_engine d) en" "parseSocketTarget (sq_ip req) = Inr px" "ban_ttl req = Inr ttl"
        "apply_manual_ban p px ttl reason (d\<lparr>dm_engine := en\<rparr>) = (resp, d')"
    using handleBan_cases [OF assms] by blast
  then show ?thesis
  proof cases
    case early
    then show ?thesis by (simp add: ban_refused_def split: ctl_error.split)
  next
    case refused
    note r = refuse_effect [OF refused(2)]
    have "quiet d d'" by (rule quiet_trans [OF engine_quiet [OF refused(1)] conjunct1 [OF r]])
    then show ?thesis using r assms(2) by (auto simp: ban_refused_def quiet_def)
  next
    case applied
    from apply_error [OF applied(4) assms(2)] applied(1-3) show ?thesis
      by (auto simp: ban_refused_def guards_kept_def rules_kept_def)
  qed
qed

definition demo_allowing :: "(unit, unit list) daemon" where
  "demo_allowing = (demo_daemon (Some demo_gate) [] [])\<lparr>dm_runtime := [Pfx (V4 0x0A000000) 8]\<rparr>"

theorem refused_ban_harmless_witness:
  "\<exists>e. sr_error (fst (handleBan (demo_ports demo_inner () Minute) (empty_socket_request\<lparr>sq_ip := ''10.0.0.2''\<rparr>) demo_allowing)) = Some e
    \<and> ban_refused (demo_ports demo_inner () Minute) (empty_socket_request\<lparr>sq_ip := ''10.0.0.2''\<rparr>) demo_allowing e
        (snd (handleBan (demo_ports demo_inner () Minute) (empty_socket_request\<lparr>sq_ip := ''10.0.0.2''\<rparr>) demo_allowing))"
proof -
  let ?p = "demo_ports demo_inner () Minute" and ?req = "empty_socket_request\<lparr>sq_ip := ''10.0.0.2''\<rparr>"
  have px: "parseSocketTarget ''10.0.0.2'' = Inr (Pfx (V4 0x0A000002) 32)" by code_simp
  have ov: "runtimeAllowlistOverlap demo_allowing (Pfx (V4 0x0A000002) 32) = Some (Pfx (V4 0x0A000000) 8)"
    by (simp add: runtimeAllowlistOverlap_def demo_allowing_def) code_simp
  have r: "\<exists>reason. sr_error (fst (handleBan ?p ?req demo_allowing)) = Some (ManualRefused reason)"
    using px ov by (simp add: handleBan_def ban_ttl_def empty_socket_request_def refuseManualBan_def err_with_def)
  then obtain reason where e: "sr_error (fst (handleBan ?p ?req demo_allowing)) = Some (ManualRefused reason)" by blast
  from refused_ban_harmless [OF surjective_pairing e] e show ?thesis by blast
qed

end
