(* ===== verification/ArmWindow.thy ===== *)
theory ArmWindow
  imports SocketProps PipelineProps
begin

text \<open>
  The arm window.  Until its deadline the window an operator opened survives whatever the daemon
  does on its own and every request but the arming verbs; the first check after the deadline that
  can read it puts the daemon back into dry-run.
\<close>

section \<open>What the window rests on\<close>

definition arm_view :: "('w, 'e) daemon \<Rightarrow> policy \<times> (string, string \<times> time) gomap" where
  "arm_view d = (dm_policy d, db_state (dm_db d))"

lemma arm_view_update [simp]:
  "arm_view (d\<lparr>dm_agg := x1\<rparr>) = arm_view d" "arm_view (d\<lparr>dm_recheck := x2\<rparr>) = arm_view d" "arm_view (d\<lparr>dm_gated := x3\<rparr>) = arm_view d"
  "arm_view (d\<lparr>dm_health := x4\<rparr>) = arm_view d" "arm_view (d\<lparr>dm_notify_sup := x5\<rparr>) = arm_view d" "arm_view (d\<lparr>dm_ineff := x6\<rparr>) = arm_view d"
  "arm_view (d\<lparr>dm_ai := x7\<rparr>) = arm_view d" "arm_view (d\<lparr>dm_feed_rep := x8\<rparr>) = arm_view d" "arm_view (d\<lparr>dm_out := x9\<rparr>) = arm_view d"
  "arm_view (d\<lparr>dm_fw := x10\<rparr>) = arm_view d" "arm_view (d\<lparr>dm_runtime := x11\<rparr>) = arm_view d" "arm_view (d\<lparr>dm_gate := x12\<rparr>) = arm_view d"
  by (simp_all add: arm_view_def)

lemma arm_view_engine [simp]: "rules_kept (dm_engine d) en \<Longrightarrow> arm_view (d\<lparr>dm_engine := en\<rparr>) = arm_view d"
  by (simp add: arm_view_def rules_kept_def)

lemma arm_view_quiet: "quiet d d' \<Longrightarrow> arm_view d' = arm_view d"
  by (simp add: arm_view_def quiet_def guards_kept_def tables_kept_def)

lemma arm_view_reaches: "reaches_only p ip d d' \<Longrightarrow> arm_view d' = arm_view d"
  by (simp add: arm_view_def reaches_only_def confined_def guards_kept_def)

lemma arm_view_store [simp]:
  "(\<And>db. db_state (snd (f db)) = db_state db) \<Longrightarrow> arm_view (snd (with_store f d)) = arm_view d"
  by (simp add: arm_view_def with_store_def faulty_def split: prod.split)

lemma state_io [simp]: "db_state (snd (reads f a)) = db_state a" "db_state (snd (writes g a)) = db_state (g a)"
  by (simp_all add: reads_def writes_def)

lemma foldl_keeps: "(\<And>a x. g (f a x) = g a) \<Longrightarrow> g (foldl f a xs) = g a"
  by (induction xs arbitrary: a) simp_all

lemma state_folds [simp]:
  "db_state (foldl (audit_allow_expired t) a xs) = db_state a" "db_state (foldl (audit_expired t) a ys) = db_state a"
  "db_state (foldl (unban_one t reason) a ips) = db_state a"
  by (rule foldl_keeps, simp add: audit_allow_expired_def audit_expired_def unban_one_def insert_audit_def split: prod.split)+

lemma state_ops [simp]:
  "db_state (Audit t act a) = db_state a" "db_state (AuditOp t opn px ttl reason a) = db_state a" "db_state (AuditSystem t opn reason a) = db_state a"
  "db_state (AddAllow t px e reason a) = db_state a" "db_state (snd (RemoveAllow px a)) = db_state a" "db_state (snd (ExpireAllows t a)) = db_state a"
  "db_state (snd (ExpireBans t a)) = db_state a" "db_state (Unban t ip a) = db_state a" "db_state (snd (UnbanCovered t px reason a)) = db_state a"
  "db_state (snd (PruneEventCounts b a)) = db_state a"
  by (simp_all add: Audit_def AuditOp_def AuditSystem_def insert_audit_def AddAllow_def RemoveAllow_def ExpireAllows_def ExpireBans_def
      Unban_def UnbanCovered_def PruneEventCounts_def Let_def)

lemma state_prefix [simp]: "db_state (snd (UnbanPrefix t px a)) = db_state a"
  by (simp add: UnbanPrefix_def Let_def case_prod_beta)

lemma state_manual: "RecordManualBan t t2 ip ttl reason dry a = Inr b \<Longrightarrow> db_state b = db_state a"
  by (auto simp: RecordManualBan_def Let_def insert_audit_def split: if_splits)

lemma state_retention: "PruneRetention alive pol t a = (st, sk, stop, b) \<Longrightarrow> db_state b = db_state a"
proof (elim PruneRetention_effect)
  fix st1 stop1 d1 st2 stop2 sk2 d2
  assume 1: "prune_strikes alive pol t a = (st1, stop1, d1)" and 2: "prune_audit alive pol t d1 = (st2, sk2, stop2, d2)"
    and b: "b = d1 \<or> b = d2\<lparr>db_usage := db_usage b\<rparr>"
  have "db_state d1 = db_state a" "db_state d2 = db_state d1"
    using arg_cong [OF prune_strikes_effect(1) [OF 1], of db_state] arg_cong [OF prune_audit_effect(1) [OF 2], of db_state] by simp_all
  moreover have "db_state b = db_state d1 \<or> db_state b = db_state d2" using b
  proof
    assume "b = d2\<lparr>db_usage := db_usage b\<rparr>"
    from arg_cong [OF this, of db_state] show ?thesis by simp
  qed simp
  ultimately show "db_state b = db_state a" by auto
qed

section \<open>Background work keeps it\<close>

lemma arm_view_tell [simp]:
  "arm_view (emit os d) = arm_view d" "arm_view (notify p n d) = arm_view d" "arm_view (notifyCritical p msg d) = arm_view d"
  "arm_view (publishActionEvent kind ips n' ttl reason src d) = arm_view d" "arm_view (notifyEnforcerFailure p ip e d) = arm_view d"
  "arm_view (journal p opn reason d) = arm_view d" "arm_view (journal_op p opn px ttl reason d) = arm_view d"
  "arm_view (audit_ip p ip opn reason d) = arm_view d" "arm_view (audit_repairs p rep d) = arm_view d"
  by (simp_all add: emit_def notify_def notifyCritical_def publishActionEvent_def notifyEnforcerFailure_def journal_def journal_op_def
      audit_ip_def audit_repairs_def split: prod.split)

lemma arm_view_enforce [simp]: "arm_view (record_enforce p opn r d) = arm_view d"
  by (simp add: record_enforce_def auditEnfTransition_def Let_def split: prod.split option.split enf_transition.split)

lemma arm_view_bans [simp]: "arm_view (snd (active_bans p d)) = arm_view d" "arm_view (snd (list_allow d)) = arm_view d"
  by (simp_all add: active_bans_def list_allow_def case_prod_beta split: sum.split)

lemma arm_view_call: "f d = (r, d') \<Longrightarrow> arm_view (snd (f d)) = arm_view d \<Longrightarrow> arm_view d' = arm_view d"
  by simp

lemma arm_view_sync [simp]: "arm_view (snd (syncEnforcer p d)) = arm_view d" "arm_view (snd (reloadAllowlist d)) = arm_view d"
  "arm_view (snd (syncEnforcerAllowlist p d)) = arm_view d"
  by (simp_all add: syncEnforcer_def reloadAllowlist_def syncEnforcerAllowlist_def Let_def case_prod_beta split: option.split sum.split)

lemma arm_view_foldl: "(\<And>d x. arm_view (f d x) = arm_view d) \<Longrightarrow> arm_view (foldl f d xs) = arm_view d"
  by (rule foldl_keeps)

lemma arm_view_events: "arm_view (process_events pts i evs d) = arm_view d"
  by (induction pts i evs d rule: process_events.induct) (simp_all add: arm_view_reaches [OF process_event_reaches])

lemma arm_view_line [simp]: "arm_view (processRaw pts parsers raw d) = arm_view d"
  by (simp add: processRaw_def arm_view_events split: prod.split option.split)

lemma arm_view_ai [simp]: "arm_view (ai_worker p clean d) = arm_view d"
  by (simp add: ai_worker_def arm_view_reaches [OF ai_item_reaches] split: option.split prod.split)

lemma arm_view_gated [simp]: "arm_view (retryGatedBan p d it) = arm_view d"
  by (simp add: retryGatedBan_def gate_ban_def noteGatedBanExhausted_def Let_def case_prod_beta split: option.split sum.split bool.split)

lemma arm_view_retry [simp]: "arm_view (recheck_tick_step p now o1 o2 d) = arm_view d"
  by (simp add: recheck_tick_step_def Let_def case_prod_beta arm_view_foldl arm_view_reaches [OF recheck_reaches])

lemma arm_view_sweeps [simp]:
  "arm_view (expire_bans_tick p now d) = arm_view d" "arm_view (expire_allows_tick p now d) = arm_view d"
  "arm_view (flushAggregates order now d) = arm_view d" "arm_view (fold_flush p order2 d) = arm_view d"
  by (simp_all add: expire_bans_tick_def expire_allows_tick_def flushAggregates_def fold_flush_def case_prod_beta Let_def arm_view_foldl
      split: sum.split option.split)

lemma arm_view_prune [simp]: "arm_view (runPruneOnce p d) = arm_view d" "arm_view (snd (handlePrune p req d)) = arm_view d"
proof -
  have row: "arm_view (prune_audit_row q x st) = arm_view x" for q st and x :: "('a, 'b) daemon" by (simp add: prune_audit_row_def)
  have store: "arm_view (snd (prune_store p pol x)) = arm_view x" for pol and x :: "('a, 'b) daemon"
    unfolding prune_store_def by (rule arm_view_store) (auto split: prod.split dest: state_retention)
  show "arm_view (runPruneOnce p d) = arm_view d" "arm_view (snd (handlePrune p req d)) = arm_view d"
    by (simp_all add: runPruneOnce_def handlePrune_def case_prod_beta row store arm_view_foldl split: option.split sum.split)
qed

lemma arm_view_feeds [simp]:
  "arm_view (cl_dm (handleFeedUpdate p u c)) = arm_view (cl_dm c)" "arm_view (cl_dm (snd (handleFeedsRefresh p req c))) = arm_view (cl_dm c)"
proof -
  have one: "arm_view (cl_dm (handleFeedUpdate p u c)) = arm_view (cl_dm c)" for p u and c :: "('a, 'b) control"
    by (auto simp: handleFeedUpdate_def applyFeedBlock_def observeFeed_def sync_feeds_def on_dm_def Let_def split: prod.split option.split)
  have "arm_view (cl_dm (foldl (\<lambda>c u. handleFeedUpdate p u c) c us)) = arm_view (cl_dm c)" for us
    by (induction us arbitrary: c) (simp_all add: one)
  then show "arm_view (cl_dm (handleFeedUpdate p u c)) = arm_view (cl_dm c)"
    "arm_view (cl_dm (snd (handleFeedsRefresh p req c))) = arm_view (cl_dm c)"
    by (simp_all add: one handleFeedsRefresh_def split: option.split prod.split)
qed

section \<open>Requests that keep it\<close>

lemma arm_view_in_dm [simp]: "arm_view (cl_dm (snd (in_dm f c))) = arm_view (snd (f (cl_dm c)))"
  by (simp add: in_dm_def split: prod.split)

lemma arm_view_on_dm [simp]: "arm_view (cl_dm (on_dm f c)) = arm_view (f (cl_dm c))"
  by (simp add: on_dm_def)

lemma arm_view_manual [simp]: "arm_view (record_manual_ban p opn px ttl reason d) = arm_view d"
proof -
  let ?f = "\<lambda>db. case RecordManualBan (pt_clock p) (pt_clock p) (pfx_ip px) ttl reason (\<not> IsArmed (dm_policy d)) db of
      Inl e \<Rightarrow> (Some e, db) | Inr db' \<Rightarrow> (None, db')"
  have "arm_view (snd (with_store ?f d)) = arm_view d"
    by (rule arm_view_store) (auto split: sum.split dest: state_manual)
  then show ?thesis by (simp add: record_manual_ban_def case_prod_beta split: sum.split option.split)
qed

lemma arm_view_ban [simp]: "arm_view (snd (handleBan p req d)) = arm_view d"
proof -
  have "arm_view (snd (apply_manual_ban p px ttl r x)) = arm_view x" for px ttl r and x :: "('a, 'b) daemon"
    by (auto simp: apply_manual_ban_def manual_ban_section_def gate_ban_def Let_def split: prod.splits option.splits if_splits)
  moreover have "arm_view (snd (refuseManualBan p px ttl r x)) = arm_view x" for px ttl r and x :: "('a, 'b) daemon"
    by (simp add: refuseManualBan_def)
  ultimately show ?thesis
    by (auto simp: handleBan_def split: sum.split option.split prod.split dest: AuthorizeManualBan_rules)
qed

lemma arm_view_lift [simp]: "arm_view (gate_unban p t d) = arm_view d" "arm_view (push_allow p px d) = arm_view d"
  "arm_view (liftBansCoveredBy p px reason d) = arm_view d"
  by (simp_all add: gate_unban_def push_allow_def liftBansCoveredBy_def lift_one_def case_prod_beta Let_def arm_view_foldl
      split: option.split sum.split)

lemma arm_view_lists [simp]:
  "arm_view (snd (handleUnban p req d)) = arm_view d" "arm_view (snd (handleAllow p req d)) = arm_view d"
  "arm_view (snd (handleUnallow p req d)) = arm_view d"
  by (simp_all add: handleUnban_def handleAllow_def handleUnallow_def case_prod_beta Let_def split: sum.split option.split)

lemma arm_view_reading: "looks c c' \<Longrightarrow> arm_view (cl_dm c') = arm_view (cl_dm c)"
  by (auto simp: looks_def only_reads_def arm_view_def)

text \<open>The verbs that may change the window.\<close>

definition arming_verbs :: "string list" where
  "arming_verbs = [''arm'', ''arm_keep'', ''disarm'', ''disable_all'']"

lemma arm_view_verb: "sq_verb req \<notin> set arming_verbs \<Longrightarrow> arm_view (cl_dm (snd (dispatch_verb_of p req c))) = arm_view (cl_dm c)"
proof (cases "sq_verb req \<in> set readOnlyVerbs")
  case True
  then show ?thesis by (rule arm_view_reading [OF dispatch_reads])
next
  case False
  assume "sq_verb req \<notin> set arming_verbs"
  with False show ?thesis by (simp add: dispatch_verb_of_def Let_def handleMetrics_def handleFeedsStatus_def arming_verbs_def readOnlyVerbs_def)
qed

lemma arm_view_audit [simp]: "arm_view (cl_dm (auditSocketCmd p req ok c)) = arm_view (cl_dm c)"
  by (simp add: auditSocketCmd_def Let_def)

lemma arm_view_request: "ro \<or> sq_verb req \<notin> set arming_verbs \<Longrightarrow> arm_view (cl_dm (snd (handleConnScoped p ro req c))) = arm_view (cl_dm c)"
proof (cases "ro \<and> sq_verb req \<notin> set readOnlyVerbs")
  case False
  assume "ro \<or> sq_verb req \<notin> set arming_verbs"
  then have "sq_verb req \<notin> set arming_verbs" using False by (auto simp: readOnlyVerbs_def arming_verbs_def)
  from arm_view_verb [OF this] False show ?thesis by (auto simp: handleConnScoped_def case_prod_beta)
qed (auto simp: handleConnScoped_def)

section \<open>The window\<close>

definition armed_until :: "time \<Rightarrow> ('w, 'e) control \<Rightarrow> bool" where
  "armed_until t c \<longleftrightarrow> IsArmed (dm_policy (cl_dm c))
     \<and> (\<exists>val. GetState stateKeyArmWindow (dm_db (cl_dm c)) = Some val \<and> parse_rfc3339 val = Some t)"

text \<open>What may happen before the deadline: anything but an arming verb.\<close>

fun background :: "time \<Rightarrow> ('w, 'e) sys_step \<Rightarrow> bool" where
  "background t (SysArmWindow p now) \<longleftrightarrow> now < t"
| "background t (SysRequest p ro req) \<longleftrightarrow> ro \<or> sq_verb req \<notin> set arming_verbs"
| "background t _ \<longleftrightarrow> True"

lemma armed_until_view: "arm_view (cl_dm c') = arm_view (cl_dm c) \<Longrightarrow> armed_until t c' = armed_until t c"
  by (simp add: arm_view_def armed_until_def GetState_def)

lemma get_window_cases:
  "fst (get_window d) = Inr (GetState stateKeyArmWindow (dm_db d)) \<or> (\<exists>e. fst (get_window d) = Inl e)"
  "arm_view (snd (get_window d)) = arm_view d"
  by (auto simp: get_window_def with_store_def faulty_def reads_def arm_view_def split: prod.splits if_splits)

lemma window_check_early:
  assumes "armed_until t c" "now < t"
  shows "arm_view (cl_dm (checkArmWindow p now c)) = arm_view (cl_dm c)"
proof -
  obtain r d where g: "get_window (cl_dm c) = (r, d)" by fastforce
  have v: "arm_view d = arm_view (cl_dm c)" using get_window_cases(2) [of "cl_dm c"] g by simp
  then have "IsArmed (dm_policy d)" using assms(1) by (simp add: armed_until_def arm_view_def)
  moreover have "(\<exists>e. r = Inl e) \<or> (\<exists>val. r = Inr (Some val) \<and> parse_rfc3339 val = Some t)"
    using get_window_cases(1) [of "cl_dm c"] g assms(1) by (auto simp: armed_until_def)
  ultimately show ?thesis using g v assms(2) by (auto simp: checkArmWindow_def in_dm_def)
qed

lemma armed_until_step: "armed_until t c \<Longrightarrow> background t st \<Longrightarrow> armed_until t (sys_apply c st)"
  using armed_until_view [of "sys_apply c st" c t]
  by (cases st) (auto simp: window_check_early arm_view_request simp del: disj_not1)

lemma armed_until_run: "armed_until t c \<Longrightarrow> \<forall>st \<in> set steps. background t st \<Longrightarrow> armed_until t (sys_run c steps)"
  using armed_until_step by (induction steps arbitrary: c) (auto simp: sys_run_def)

definition readable :: "('w, 'e) daemon \<Rightarrow> bool" where
  "readable d \<longleftrightarrow> (case fst (dm_store d) of [] \<Rightarrow> True | broken # fs \<Rightarrow> \<not> broken)"

lemma readable_window: "readable d \<Longrightarrow> \<exists>fs. get_window d = (Inr (GetState stateKeyArmWindow (dm_db d)), d\<lparr>dm_store := (fs, dm_db d)\<rparr>)"
  by (cases "dm_store d") (auto simp: readable_def get_window_def with_store_def faulty_def reads_def split: list.splits)

lemma not_armed [simp]: "\<not> IsArmed (SetArmed False pol)"
  by (simp add: IsArmed_def SetArmed_def)

lemma disarming: "setArmedState p False opn reason c = (r, c')
    \<Longrightarrow> dm_fw (cl_dm c') = dm_fw (cl_dm c) \<and> (r = None \<longrightarrow> \<not> IsArmed (dm_policy (cl_dm c')))"
  by (auto simp: setArmedState_def journal_def set_armed_flag_def publishActionEvent_def split: option.splits if_splits)

lemma revert_disarms: "\<not> IsArmed (dm_policy (cl_dm (revert_window p c))) \<and> dm_fw (cl_dm (revert_window p c)) = dm_fw (cl_dm c)"
proof -
  obtain r c1 where 1: "setArmedState p False ''arm_revert'' arm_expired_msg c = (r, c1)" by fastforce
  show ?thesis using 1 disarming [OF 1]
    by (simp add: revert_window_def Let_def on_dm_def in_dm_def delete_window_def journal_def set_armed_flag_def notifyCritical_def
        notify_def case_prod_beta split: option.split)
qed

lemma window_check_late:
  assumes "armed_until t c" "t \<le> now" "readable (cl_dm c)"
  shows "\<not> IsArmed (dm_policy (cl_dm (checkArmWindow p now c))) \<and> dm_fw (cl_dm (checkArmWindow p now c)) = dm_fw (cl_dm c)"
proof -
  obtain val where val: "GetState stateKeyArmWindow (dm_db (cl_dm c)) = Some val" "parse_rfc3339 val = Some t"
    using assms(1) by (auto simp: armed_until_def)
  obtain fs where g: "get_window (cl_dm c) = (Inr (Some val), (cl_dm c)\<lparr>dm_store := (fs, dm_db (cl_dm c))\<rparr>)"
    using readable_window [OF assms(3)] val by auto
  let ?c1 = "c\<lparr>cl_dm := (cl_dm c)\<lparr>dm_store := (fs, dm_db (cl_dm c))\<rparr>\<rparr>"
  have "checkArmWindow p now c = revert_window p ?c1"
    using g val(2) assms(1,2) by (simp add: checkArmWindow_def in_dm_def armed_until_def)
  then show ?thesis using revert_disarms [of p ?c1] by simp
qed

text \<open>A successful \<open>arm --for\<close> opens the window; its deadline is cut to the second.\<close>

lemma set_window_opens:
  assumes "with_store (writes (SetState now stateKeyArmWindow val)) d = (Inr u, d')" "IsArmed (dm_policy d)" "parse_rfc3339 val = Some t"
  shows "armed_until t (c\<lparr>cl_dm := d'\<rparr>)"
  using assms by (auto simp: armed_until_def with_store_def faulty_def writes_def GetState_def SetState_def split: prod.splits if_splits)

lemma arm_opens:
  assumes "handleArm p req c0 = (resp, c)" "sr_error resp = None" "sq_for req \<noteq> []" "parseExtendedDuration (sq_for req) = Some w"
    and "parse_rfc3339 (fmt_rfc3339 (pt_wall (cp_ports p) + w)) = Some t"
  shows "armed_until t c \<and> minArmWindow \<le> w \<and> w \<le> maxArmWindow"
proof -
  obtain checks hasFail selfBan c1 where 1: "in_dm (runArmPreflight (cp_ports p) (sq_peer req)) c0 = ((checks, hasFail, selfBan), c1)"
    by (metis surj_pair)
  have win: "arm_window (cp_ports p) req = Inr (Some (pt_wall (cp_ports p) + w))" "minArmWindow \<le> w \<and> w \<le> maxArmWindow"
    using assms(1-4) 1 by (auto simp: handleArm_def arm_window_def armRefused_def err_with_def split: if_splits)
  let ?r = "Some (pt_wall (cp_ports p) + w)"
  obtain c2 where 2: "setArmedState p True ''arm'' (arm_reason req ?r) c1 = (None, c2)"
    and opened: "arm_open_window p checks ?r c2 = (resp, c)"
    using assms(1,2) 1 win(1) by (auto simp: handleArm_def armRefused_def err_with_def split: if_splits prod.splits option.splits)
  have armed: "IsArmed (dm_policy (cl_dm c2))"
    using 2 by (auto simp: setArmedState_def journal_def set_armed_flag_def publishActionEvent_def IsArmed_def SetArmed_def split: option.splits if_splits)
  obtain d where "with_store (writes (SetState (pt_clock (cp_ports p)) stateKeyArmWindow (fmt_rfc3339 (pt_wall (cp_ports p) + w)))) (cl_dm c2) = (Inr (), d)"
    and "c = c2\<lparr>cl_dm := d\<rparr>"
    using opened assms(2) by (auto simp: arm_open_window_def in_dm_def err_with_def split: sum.splits prod.splits)
  then show ?thesis using set_window_opens [OF _ armed assms(5)] win(2) by simp
qed

section \<open>The window closes\<close>

lemma unix_time_of_time_unix_gt: "x < unix_time (time_unix x) + Second"
proof -
  have "x div Second * Second + x mod Second = x" by (rule div_mult_mod_eq)
  moreover have "x mod Second < Second" by (simp add: Second_def)
  ultimately show ?thesis unfolding unix_time_def time_unix_def by linarith
qed

text \<open>
  C6 (liveness).  An arm window ends when nobody touches it.  After a successful \<open>arm --for w\<close>, and as
  long as no further \<open>arm\<close>, \<open>arm --keep\<close>, \<open>disarm\<close> or \<open>disable --all\<close> is served (the four verbs that
  replace or clear the window; a plain second \<open>arm\<close> deletes it and stays armed), whatever events, AI
  answers, retries, reconciles, sweeps, feeds and other requests follow, with whatever store and kernel
  faults, the daemon is still armed at the stored deadline, which is the end of the window cut to the
  second; the first check at or after the deadline that can read the store puts it into dry-run and
  leaves the firewall as it is; and a window is between a minute and seven days.
\<close>

theorem arm_window_reverts:
  assumes "handleArm p req c0 = (resp, c)" "sr_error resp = None"
    and "sq_for req \<noteq> []" "parseExtendedDuration (sq_for req) = Some w"
    and "zero_time \<le> pt_wall (cp_ports p) + w" "time_unix (pt_wall (cp_ports p) + w) div 86400 < 2932897"
    and "t = unix_time (time_unix (pt_wall (cp_ports p) + w))" "\<forall>st \<in> set steps. background t st"
  shows "armed_until t (sys_run c steps)
    \<and> (t \<le> now \<and> readable (cl_dm (sys_run c steps)) \<longrightarrow>
         \<not> IsArmed (dm_policy (cl_dm (checkArmWindow q now (sys_run c steps))))
         \<and> dm_fw (cl_dm (checkArmWindow q now (sys_run c steps))) = dm_fw (cl_dm (sys_run c steps)))
    \<and> t \<le> pt_wall (cp_ports p) + w \<and> pt_wall (cp_ports p) + w < t + Second \<and> minArmWindow \<le> w \<and> w \<le> maxArmWindow"
proof -
  have "armed_until t c \<and> minArmWindow \<le> w \<and> w \<le> maxArmWindow"
    using arm_opens [OF assms(1-4)] parse_fmt_rfc3339_range [OF assms(5,6)] assms(7) by simp
  moreover from this have "armed_until t (sys_run c steps)" using armed_until_run assms(8) by blast
  moreover have "t \<le> pt_wall (cp_ports p) + w" "pt_wall (cp_ports p) + w < t + Second"
    using unix_time_of_time_unix_le unix_time_of_time_unix_gt by (simp_all add: assms(7))
  ultimately show ?thesis using window_check_late by blast
qed

text \<open>The witness: a forced arm for a day, a check an hour before the deadline, and the deadline.\<close>

definition demo_arm :: socket_request where
  "demo_arm = empty_socket_request\<lparr>sq_verb := ''arm'', sq_for := ''1d'', sq_force := True\<rparr>"

definition demo_hour :: "(unit, unit list) cports" where
  "demo_hour = demo_cports (demo_ports demo_inner () (unix_time 3600))"

lemma demo_day: "parseExtendedDuration ''1d'' = Some (24 * Hour)"
proof -
  have "atoi ''1'' = Some 1" by (simp add: atoi_def is_digit_def digits_val_def digit_val_def)
  moreover have "wrap64 24 = 24" "wrap64 (24 * Hour) = 24 * Hour" by (simp_all add: wrap64_id Hour_def Minute_def Second_def)
  ultimately show ?thesis by (simp add: parseExtendedDuration_def str_has_suffix_def trim_suffix_def str_has_prefix_def)
qed

lemma demo_arm_parts: "sq_for demo_arm = ''1d''" "sq_force demo_arm" "sq_peer demo_arm = []"
  by (simp_all add: demo_arm_def empty_socket_request_def)

lemma preflight_unfaulty:
  assumes "runArmPreflight p [] d = (r, d')" "fst (dm_store d) = []"
  shows "\<not> snd (snd r) \<and> fst (dm_store d') = []"
  using assms by (auto simp: runArmPreflight_def selfBanCheck_def active_bans_def countRecentDryBans_def with_store_def faulty_def reads_def
      Let_def case_prod_beta split: sum.splits)

lemma unfaulty_arm:
  assumes "fst (dm_store (cl_dm c)) = []" "cl_file c = Some b" "cp_rewrite p on = None"
  shows "\<exists>c2. setArmedState p on opn reason c = (None, c2) \<and> fst (dm_store (cl_dm c2)) = []"
  using assms by (simp add: setArmedState_def journal_def with_store_def faulty_def writes_def publishActionEvent_def emit_def
      set_armed_flag_def case_prod_beta)

lemma unfaulty_open: "fst (dm_store (cl_dm c)) = [] \<Longrightarrow> sr_error (fst (arm_open_window p checks (Some t) c)) = None"
  by (simp add: arm_open_window_def in_dm_def with_store_def faulty_def writes_def ok_with_def case_prod_beta)

lemma demo_arm_ok: "sr_error (fst (handleArm demo_hour demo_arm demo_disarmed)) = None"
proof -
  have w: "arm_window (cp_ports demo_hour) demo_arm = Inr (Some (unix_time 3600 + 24 * Hour))"
    by (simp add: arm_window_def demo_arm_parts demo_day demo_hour_def minArmWindow_def maxArmWindow_def Hour_def Minute_def Second_def)
  obtain checks hasFail selfBan d1 where 1: "runArmPreflight (cp_ports demo_hour) [] (cl_dm demo_disarmed) = ((checks, hasFail, selfBan), d1)"
    by (metis surj_pair)
  have d1: "\<not> selfBan" "fst (dm_store d1) = []"
    using preflight_unfaulty [OF 1] by (simp_all add: demo_disarmed_def set_armed_flag_def)
  obtain c2 where 2: "setArmedState demo_hour True ''arm'' (arm_reason demo_arm (Some (unix_time 3600 + 24 * Hour))) (demo_disarmed\<lparr>cl_dm := d1\<rparr>) = (None, c2)"
      "fst (dm_store (cl_dm c2)) = []"
    using d1(2) unfaulty_arm [of "demo_disarmed\<lparr>cl_dm := d1\<rparr>" True demo_hour True] by (fastforce simp: demo_hour_def demo_disarmed_def)
  have "sr_error (fst (arm_open_window demo_hour checks (Some (unix_time 3600 + 24 * Hour)) c2)) = None"
    using 2(2) by (rule unfaulty_open)
  then show ?thesis using 1 d1(1) w 2(1) by (simp add: handleArm_def in_dm_def demo_arm_parts)
qed

theorem arm_window_reverts_witness:
  "armed_until (unix_time 90000) (sys_run (snd (handleArm demo_hour demo_arm demo_disarmed)) [SysArmWindow demo_hour (unix_time 86400)])"
proof -
  let ?t = "pt_wall (cp_ports demo_hour) + 24 * Hour"
  have t: "?t = unix_time 90000" "unix_time (time_unix ?t) = unix_time 90000"
    by (simp_all add: demo_hour_def unix_time_def time_unix_def Hour_def Minute_def Second_def)
  have z: "zero_time \<le> ?t" "time_unix ?t div 86400 < 2932897"
    by (simp_all add: t(1) zero_time_def zero_time_offset_def unix_time_def time_unix_def Second_def)
  have req: "sq_for demo_arm \<noteq> []" "parseExtendedDuration (sq_for demo_arm) = Some (24 * Hour)"
    by (simp_all add: demo_arm_parts demo_day)
  have bg: "\<forall>st \<in> set [SysArmWindow demo_hour (unix_time 86400)]. background (unix_time 90000) st" by (simp add: unix_time_mono)
  show ?thesis
    by (rule conjunct1 [OF arm_window_reverts [OF surjective_pairing demo_arm_ok req z t(2) [symmetric] bg]])
qed

end
