(* ===== verification/Startup.thy ===== *)
theory Startup
  imports Control Rules
begin

text \<open>
  The start of the daemon and the supervision of its collectors, \<open>internal/daemon/daemon.go\<close>:
  \<open>New\<close> builds the state of theory \<open>Daemon\<close> from the configuration, the head of \<open>Run\<close> reconciles
  and restores the runtime allowlist, \<open>runCollector\<close> restarts a failed collector with a growing
  delay.  The goroutines, metrics and signals are not modelled; a run of a collector is given by
  how long it lasted and how it ended.
\<close>

section \<open>New\<close>

definition DefaultMaxIPs :: int where "DefaultMaxIPs = 10000"
definition DefaultAmbiguousBand :: "int \<times> int" where "DefaultAmbiguousBand = (30, DefaultBanThreshold - 1)"

record ai_config =
  ac_cache :: ai_cache
  ac_budget :: ai_budget
  ac_band :: "int \<times> int"
  ac_async :: bool
  ac_queue_size :: int

record ('w, 'e) new_config =
  nw_policy :: "policy option"
  nw_store :: fstore
  nw_rules_path :: string
  nw_rules_dir :: string
  nw_max_ips :: int
  nw_gate :: "'w gate option"
  nw_fw :: 'e
  nw_auth_probe :: "'w \<Rightarrow> addr list"
  nw_notify_window :: "int option"
  nw_ai :: "ai_config option"

datatype new_error = NilPolicy | RuleEngineFailed load_error | EngineFailed allow_error

definition new_windows :: "spec list \<Rightarrow> duration list" where
  "new_windows rules =
     (let ws = filter (\<lambda>w. w \<le> LongWindowCutoff) (rule_windows rules) in if ws = [] then [Minute, 10 * Minute] else ws)"

definition new_long_kinds :: "spec list \<Rightarrow> string list" where
  "new_long_kinds rules = filter (\<lambda>k. \<not> IsLongCounterKind k) (concat (map snd (KindsForLongWindows rules)))"

definition new_long_field_kinds :: "spec list \<Rightarrow> string list" where
  "new_long_field_kinds rules = concat (map sp_kinds (filter isLongField rules))"

lemma new_long_field_kinds_set: "set (new_long_field_kinds rules) = LongFieldEventKinds rules"
  by (auto simp: new_long_field_kinds_def LongFieldEventKinds_def)

text \<open>An omitted band follows the configured threshold; an explicit one is kept.\<close>

definition new_band :: "policy \<Rightarrow> int \<times> int \<Rightarrow> int \<times> int" where
  "new_band pol band =
     (if band = DefaultAmbiguousBand \<and> po_ban_threshold pol - 1 > fst band then (fst band, po_ban_threshold pol - 1) else band)"

definition new_ai :: "policy \<Rightarrow> ai_config \<Rightarrow> ai_layer" where
  "new_ai pol cfg =
     \<lparr>ay_cache = ac_cache cfg, ay_budget = ac_budget cfg, ay_lo = fst (new_band pol (ac_band cfg)),
      ay_hi = snd (new_band pol (ac_band cfg)),
      ay_queue = (if ac_async cfg then Some (newAIAsyncQueue (ac_queue_size cfg)) else None)\<rparr>"

text \<open>With the authenticated-peer mode, the narrowed probe replaces the gate's own.\<close>

definition new_gate :: "policy \<Rightarrow> ('w \<Rightarrow> addr list) \<Rightarrow> 'w gate \<Rightarrow> 'w gate" where
  "new_gate pol probe g = (if RequireAuthenticatedPeer pol then SetSSHPeerProbe (Some probe) g else g)"

definition Daemon_New :: "rules_fs \<Rightarrow> string \<Rightarrow> time \<Rightarrow> ('w, 'e) new_config \<Rightarrow> new_error + ('w, 'e) daemon" where
  "Daemon_New fs ssh_client now cfg =
     (case nw_policy cfg of
        None \<Rightarrow> Inl NilPolicy
      | Some pol \<Rightarrow>
          (case rules_new fs (nw_rules_path cfg) (nw_rules_dir cfg) of
             Inl e \<Rightarrow> Inl (RuleEngineFailed e)
           | Inr rules \<Rightarrow>
               (case engine_new ssh_client now pol of
                  Inl e \<Rightarrow> Inl (EngineFailed e)
                | Inr en \<Rightarrow>
                    Inr \<lparr>dm_engine = en, dm_store = nw_store cfg,
                      dm_agg = with_classifier (Some (MemoryCounterKinds rules))
                        (with_max_ips (if nw_max_ips cfg \<le> 0 then DefaultMaxIPs else nw_max_ips cfg) (the (agg_new (new_windows rules) 0))),
                      dm_rules = rules, dm_gate = map_option (new_gate pol (nw_auth_probe cfg)) (nw_gate cfg), dm_fw = nw_fw cfg,
                      dm_static = staticAllowlistFromPolicy pol, dm_runtime = [], dm_long_windows = KindsForLongWindows rules,
                      dm_long_kinds = new_long_kinds rules, dm_long_field_kinds = new_long_field_kinds rules,
                      dm_recheck = [], dm_gated = [], dm_health = new_health,
                      dm_notify_sup = (case nw_notify_window cfg of None \<Rightarrow> None
                        | Some sec \<Rightarrow> if sec \<ge> 0 then Some (newNotifySuppressor (sec * Second)) else None),
                      dm_ineff = \<lparr>id_window = 0, id_window_start = None, id_suppressed = 0\<rparr>,
                      dm_ai = map_option (new_ai pol) (nw_ai cfg), dm_feed_rep = newFeedReputation, dm_out = []\<rparr>)))"

text \<open>The windows are never empty, so the aggregator exists.\<close>

lemma new_windows_some: "new_windows rules \<noteq> [] \<and> agg_new (new_windows rules) n \<noteq> None"
  by (cases "new_windows rules") (auto simp: new_windows_def Let_def split: if_splits)

section \<open>The start of Run\<close>

definition Run_start :: "('w, 'e) cports \<Rightarrow> ('w, 'e) control \<Rightarrow> ('w, 'e) control" where
  "Run_start p c =
     (let q = cp_ports p;
          c1 = snd (in_dm (syncEnforcer q) c);
          c2 = snd (in_dm reloadAllowlist c1);
          c3 = snd (in_dm (syncEnforcerAllowlist q) c2)
      in checkArmWindow p (pt_clock q) c3)"

section \<open>The supervision of a collector\<close>

definition defaultCollectorBackoffBase :: duration where "defaultCollectorBackoffBase = Second"
definition defaultCollectorBackoffMax :: duration where "defaultCollectorBackoffMax = 30 * Second"
definition defaultCollectorStableRuntime :: duration where "defaultCollectorStableRuntime = 60 * Second"
definition defaultCollectorFailureAlert :: int where "defaultCollectorFailureAlert = 5"

record tunables =
  tu_base :: duration
  tu_max :: duration
  tu_stable :: duration
  tu_alert :: int

definition collectorBackoffBase :: "tunables \<Rightarrow> duration" where
  "collectorBackoffBase t = (if tu_base t > 0 then tu_base t else defaultCollectorBackoffBase)"

definition collectorBackoffMax :: "tunables \<Rightarrow> duration" where
  "collectorBackoffMax t = (if tu_max t > 0 then tu_max t else defaultCollectorBackoffMax)"

definition collectorStableRuntime :: "tunables \<Rightarrow> duration" where
  "collectorStableRuntime t = (if tu_stable t > 0 then tu_stable t else defaultCollectorStableRuntime)"

definition collectorFailureAlert :: "tunables \<Rightarrow> int" where
  "collectorFailureAlert t = (if tu_alert t > 0 then tu_alert t else defaultCollectorFailureAlert)"

text \<open>How a run ended; \<open>co_cancelled\<close> says whether the context was cancelled meanwhile, \<open>co_stop\<close> whether it is during the wait.\<close>

datatype run_end = RunDone | RunFailed string | RunPanicked string

record collector_run =
  co_ran :: duration
  co_end :: run_end
  co_cancelled :: bool
  co_stop :: bool

definition auditCollTransition :: "('w, 'e) ports \<Rightarrow> string \<Rightarrow> string \<Rightarrow> ('w, 'e) daemon \<Rightarrow> ('w, 'e) daemon" where
  "auditCollTransition p opn reason d =
     publishActionEvent opn ''system'' 0 0 reason ''collector'' (snd (with_store (writes (AuditSystem (pt_clock p) opn reason)) d))"

definition notifyPanic :: "('w, 'e) ports \<Rightarrow> string \<Rightarrow> string \<Rightarrow> ('w, 'e) daemon \<Rightarrow> ('w, 'e) daemon" where
  "notifyPanic p source msg = notify p (system_note ''critical'' (''daemon panic recovered ('' @ source @ '')'') msg)"

definition collector_healthy :: "('w, 'e) ports \<Rightarrow> string \<Rightarrow> ('w, 'e) control \<Rightarrow> ('w, 'e) control" where
  "collector_healthy p name c =
     (case recordCollectorHealthy name (cl_collectors c) of
        (None, st) \<Rightarrow> c\<lparr>cl_collectors := st\<rparr>
      | (Some reason, st) \<Rightarrow> on_dm (auditCollTransition p ''collector_recovered'' reason) (c\<lparr>cl_collectors := st\<rparr>))"

definition collector_failed :: "('w, 'e) ports \<Rightarrow> int \<Rightarrow> string \<Rightarrow> int \<Rightarrow> string \<Rightarrow> ('w, 'e) control \<Rightarrow> ('w, 'e) control" where
  "collector_failed p alert name n err c =
     (let c1 = (case recordCollectorFailure alert name n err (cl_collectors c) of
                  (None, st) \<Rightarrow> c\<lparr>cl_collectors := st\<rparr>
                | (Some reason, st) \<Rightarrow> on_dm (auditCollTransition p ''collector_degraded'' reason) (c\<lparr>cl_collectors := st\<rparr>))
      in if n = alert
         then on_dm (notifyCritical p (''collector '' @ [CHR 0x22] @ name @ [CHR 0x22] @ '' failed '' @ int_str n
                @ '' times in a row; detection on this source may be degraded'')) c1
         else c1)"

text \<open>
  The loop over the runs of one collector.  The result says how long it waited before each
  restart; \<open>p i\<close> is what the \<open>i\<close>-th round reads.
\<close>

fun runCollector ::
  "(nat \<Rightarrow> ('w, 'e) ports) \<Rightarrow> tunables \<Rightarrow> string \<Rightarrow> nat \<Rightarrow> duration \<Rightarrow> int \<Rightarrow> collector_run list \<Rightarrow> ('w, 'e) control
     \<Rightarrow> duration list \<times> ('w, 'e) control" where
  "runCollector p t name i backoff failures [] c = ([], c)"
| "runCollector p t name i backoff failures (run # runs) c =
     (let c0 = (case co_end run of RunPanicked v \<Rightarrow> on_dm (notifyPanic (p i) name (''collector panic: '' @ v)) c | _ \<Rightarrow> c)
      in if co_cancelled run then ([], c0)
         else
           let stable = co_ran run \<ge> collectorStableRuntime t;
               b = (if stable then collectorBackoffBase t else backoff);
               n = (if stable then 0 else failures);
               c1 = (if stable then collector_healthy (p i) name c0 else c0)
           in case (case co_end run of RunDone \<Rightarrow> None | RunFailed e \<Rightarrow> Some e | RunPanicked v \<Rightarrow> Some (''collector panic: '' @ v)) of
                None \<Rightarrow> ([], c1)
              | Some e \<Rightarrow>
                  let c2 = collector_failed (p i) (collectorFailureAlert t) name (n + 1) e c1
                  in if co_stop run then ([], c2)
                     else (case runCollector p t name (Suc i) (min (b * 2) (collectorBackoffMax t)) (n + 1) runs c2 of
                             (ws, c') \<Rightarrow> (b # ws, c')))"

definition supervise :: "(nat \<Rightarrow> ('w, 'e) ports) \<Rightarrow> tunables \<Rightarrow> string \<Rightarrow> collector_run list \<Rightarrow> ('w, 'e) control \<Rightarrow> duration list \<times> ('w, 'e) control" where
  "supervise p t name = runCollector p t name 0 (collectorBackoffBase t) 0"

section \<open>The delays of the supervision\<close>

text \<open>The delay after \<open>n\<close> failures in a row.\<close>

definition nth_delay :: "tunables \<Rightarrow> nat \<Rightarrow> duration" where
  "nth_delay t n = (if n = 0 then collectorBackoffBase t else min (collectorBackoffBase t * 2 ^ n) (collectorBackoffMax t))"

lemma tunables_pos: "0 < collectorBackoffBase t" "0 < collectorBackoffMax t" "0 < collectorStableRuntime t" "0 < collectorFailureAlert t"
  by (simp_all add: collectorBackoffBase_def collectorBackoffMax_def collectorStableRuntime_def collectorFailureAlert_def
      defaultCollectorBackoffBase_def defaultCollectorBackoffMax_def defaultCollectorStableRuntime_def defaultCollectorFailureAlert_def
      duration_units)

lemma next_delay: "min (nth_delay t n * 2) (collectorBackoffMax t) = nth_delay t (Suc n)"
  using tunables_pos [of t] by (auto simp: nth_delay_def min_def)

text \<open>How many failures in a row precede each wait.\<close>

fun streaks :: "tunables \<Rightarrow> nat \<Rightarrow> collector_run list \<Rightarrow> nat list" where
  "streaks t n [] = []"
| "streaks t n (run # runs) =
     (let m = (if co_ran run \<ge> collectorStableRuntime t then 0 else n)
      in if co_cancelled run \<or> co_end run = RunDone \<or> co_stop run then [] else m # streaks t (Suc m) runs)"

lemma runCollector_delays:
  "fst (runCollector p t name i (nth_delay t n) k runs c) = map (nth_delay t) (streaks t n runs)"
proof (induction runs arbitrary: i n k c)
  case (Cons run runs)
  have b: "(if co_ran run \<ge> collectorStableRuntime t then collectorBackoffBase t else nth_delay t n)
      = nth_delay t (if co_ran run \<ge> collectorStableRuntime t then 0 else n)" by (simp add: nth_delay_def)
  show ?case using Cons.IH by (cases "co_end run") (simp_all add: b next_delay Let_def split: prod.split, (metis fst_conv)+)
qed simp

end
