(* ===== verification/FeedPush.thy ===== *)
theory FeedPush
  imports Enforcement
begin

text \<open>
  The feed sets of the kernel, the other half of what the helper's chains drop: the addresses a host
  drops at all (\<open>dropped_at\<close>), the enforcer's feed push over the socket, and that pushing the empty
  desired set empties both feed sets and leaves the sets of bans as they are.
\<close>

section \<open>The feed sets\<close>

text \<open>The elements of a named set that have not expired, and those of the two feed sets.\<close>

definition set_live :: "time \<Rightarrow> string \<Rightarrow> ksets \<Rightarrow> string set" where
  "set_live now st k =
     (case gm_get k st of None \<Rightarrow> {} | Some s \<Rightarrow> {el. \<exists>e. (el, e) \<in> set (ks_elems s) \<and> \<not> expired now e})"

definition feeds_live :: "hworld \<Rightarrow> string set" where
  "feeds_live w = (let n = sv_names (hw_server w); k = kh_sets (hw_host w)
     in set_live (hw_now w) (nm_feeds4 n) k \<union> set_live (hw_now w) (nm_feeds6 n) k)"

text \<open>The chains drop what the sets of bans or the feed sets hold.\<close>

definition dropped_at :: "hworld \<Rightarrow> addr \<Rightarrow> bool" where
  "dropped_at w x \<longleftrightarrow> blocked_at w x \<or> \<not> is4in6 x \<and> (\<exists>el \<in> feeds_live w. prefix_contains (toPrefix el) x)"

text \<open>The daemon's feed syncer is the nftables enforcer itself (\<open>run.go\<close>).\<close>

definition nft_feed_syncer ::
  "((string \<times> time option) list \<Rightarrow> (string \<times> time option) list) \<Rightarrow> feed_element list \<Rightarrow> (client \<times> hworld) enf_op" where
  "nft_feed_syncer ord elems s = enf_result ''SyncFeeds'' (client_SyncFeeds (helper_tr ord) elems s)"

section \<open>The empty push in the kernel\<close>

lemma flush_two:
  assumes "set_word t" "set_word a" "set_word b"
    and "apply_lines now [flush_line t a, flush_line t b, []] k = Inr k'"
  shows "set_live now a k' = {}" and "set_live now b k' = {}"
proof -
  have ne: "flush_line t a \<noteq> []" "flush_line t b \<noteq> []" by (simp_all add: flush_line_def)
  have empty: "trim_space [] = []" by (simp add: trim_space_def)
  let ?f = "\<lambda>st k. case gm_get k st of None \<Rightarrow> k | Some s \<Rightarrow> gm_set st (s\<lparr>ks_elems := []\<rparr>) k"
  have line: "applyLine now (flush_line t st) k = Inr (?f st k)" if "set_word st" for st k
    using flush_line_apply(3) [OF assms(1) that] by (simp split: option.split)
  have k': "k' = ?f b (?f a k)"
    using assms(4) ne flush_line_apply(1) [OF assms(1,2)] flush_line_apply(1) [OF assms(1,3)]
    by (simp add: line assms(2,3) empty Let_def)
  show "set_live now a k' = {}" "set_live now b k' = {}"
    unfolding k' set_live_def by (auto split: option.split)
qed

lemma nftFeedsSync_empty:
  assumes "helper_ok now n sv h" and "nftFeedsSync (kernel_ops ord now) n [] h = (None, h')"
  shows "set_live now (nm_feeds4 n) (kh_sets h') = {}" and "set_live now (nm_feeds6 n) (kh_sets h') = {}"
    and "live now n h' = live now n h" and "helper_ok now n sv h'"
proof -
  have n: "names_ok n" and ok: "host_ok n h" using assms(1) by (simp_all add: helper_ok_def)
  obtain t where t: "nm_table n = ''inet '' @ t" "set_word t" using names_ok_table [OF n] by blast
  note f = flush_run [OF assms(1), of "nm_feeds4 n" "nm_feeds6 n" t, OF _ _ t]
  let ?ls = "[flush_line t (nm_feeds4 n), flush_line t (nm_feeds6 n)]"
  have w: "set_word (nm_feeds4 n)" "set_word (nm_feeds6 n)"
    using other_sets [OF n, of "nm_feeds4 n"] other_sets [OF n, of "nm_feeds6 n"] by auto
  have "flush_script n (nm_feeds4 n) (nm_feeds6 n) = lines_of ?ls" using f(3) by simp
  moreover have "write_chunks n st [] = []" for st by (simp add: write_chunks.simps)
  ultimately have run: "host_run now (lines_of ?ls) h = (None, h')"
    using assms(2) by (cases "host_run now (lines_of ?ls) h") (auto simp: nftFeedsSync_def kernel_ops_def run_err_def)
  then have nf: "\<not> (kh_faults h \<noteq> [] \<and> hd (kh_faults h))" by (auto simp: host_run_def)
  have ap: "Apply now (lines_of ?ls) (kh_sets h) = (None, kh_sets h')"
    using run nf by (auto simp: host_run_def split: prod.splits)
  have split: "str_split (CHR 0x0A) (lines_of ?ls) = ?ls @ [[]]"
    by (rule str_split_lines) (use flush_line_apply(2) [OF t(2)] w in simp)
  have "apply_lines now [flush_line t (nm_feeds4 n), flush_line t (nm_feeds6 n), []] (gcLocked now (kh_sets h)) = Inr (kh_sets h')"
    using ap unfolding Apply_def split Let_def by (auto split: sum.splits)
  from flush_two [OF t(2) w this]
  show "set_live now (nm_feeds4 n) (kh_sets h') = {}" "set_live now (nm_feeds6 n) (kh_sets h') = {}" .
  have q: "\<forall>l \<in> set ?ls. quiet_line {nm_set4 n, nm_set6 n} now l" using f by simp
  from host_frame [OF ok Apply_quiet [OF q]] ap show "live now n h' = live now n h" by (simp add: live_def)
  show "helper_ok now n sv h'" by (rule run_quiet [OF assms(1) q run])
qed

section \<open>The empty push over the socket\<close>

lemma feeds_dispatch:
  assumes "pinned_ok now sv h" and "names_settled req sv" and "rq_verb req = ''feeds_sync''" and "rq_elements req = []"
    and "dispatch (kernel_ops ord now) now req sv h = (resp, sv', h')" and "rs_ok resp"
  shows "sv_names sv' = sv_names sv" and "live now (sv_names sv) h' = live now (sv_names sv) h"
    and "set_live now (nm_feeds4 (sv_names sv)) (kh_sets h') = {}" and "set_live now (nm_feeds6 (sv_names sv)) (kh_sets h') = {}"
proof -
  have "sv_names sv' = sv_names sv \<and> live now (sv_names sv) h' = live now (sv_names sv) h
    \<and> set_live now (nm_feeds4 (sv_names sv)) (kh_sets h') = {} \<and> set_live now (nm_feeds6 (sv_names sv)) (kh_sets h') = {}"
    using assms(2,5)
  proof (cases rule: dispatch_settled)
    case verb
    obtain r h1 where s: "nftFeedsSync (kernel_ops ord now) (sv_names sv) [] h = (r, h1)" by fastforce
    then have "r = None" "h' = h1" "sv' = sv\<lparr>sv_pinned := True\<rparr>"
      using verb assms(3,4,6) by (auto simp: dispatch_verb_def feed_check_def of_run_def resp_err_def split: option.splits if_splits)
    then show ?thesis using nftFeedsSync_empty [OF assms(1), of ord h'] s by simp
  qed (use assms(3,6) in auto)
  then show "sv_names sv' = sv_names sv" "live now (sv_names sv) h' = live now (sv_names sv) h"
    "set_live now (nm_feeds4 (sv_names sv)) (kh_sets h') = {}" "set_live now (nm_feeds6 (sv_names sv)) (kh_sets h') = {}" by blast+
qed

lemma feeds_request:
  assumes "world_ok (rq_table req) (rq_set req) w" and "rq_verb req = ''feeds_sync''" and "rq_elements req = []"
    and "helper_tr ord req w = (Some resp, w')" and "rs_ok resp"
  shows "world_live w' \<subseteq> world_live w" and "feeds_live w' = {}"
proof -
  let ?now = "next_tick w"
  let ?w1 = "w\<lparr>hw_now := ?now, hw_ticks := tl (hw_ticks w), hw_links := tl (hw_links w)\<rparr>"
  note later = world_later [OF assms(1) next_tick_ge refl, of "tl (hw_links w)" "tl (hw_ticks w)"]
  obtain resp1 sv h where d: "dispatch (kernel_ops ord ?now) ?now req (hw_server w) (hw_host w) = (resp1, sv, h)" by (metis prod_cases3)
  have w': "w' = ?w1\<lparr>hw_server := sv, hw_host := h\<rparr>" and r: "resp1 = resp"
    using assms(4) d by (auto simp: helper_tr_def Let_def split: list.splits if_splits)
  have ok: "pinned_ok ?now (hw_server w) (hw_host w)" using later(1) by (simp add: world_ok_def)
  have ns: "names_settled req (hw_server w)" using assms(1) by (auto simp: world_ok_def settled_def names_settled_def)
  note f = feeds_dispatch [OF ok ns assms(2,3) d, unfolded r, OF assms(5)]
  show "world_live w' \<subseteq> world_live w" using later(2) f(1,2) by (simp add: world_live_def w')
  show "feeds_live w' = {}" using f by (simp add: feeds_live_def Let_def w')
qed

lemma empty_push:
  assumes "nft_ok s" and "client_SyncFeeds (helper_tr ord) [] s = (None, s')"
  shows "nft_live s' \<subseteq> nft_live s" and "feeds_live (snd s') = {}"
proof -
  obtain c w where cw: "s = (c, w)" by fastforce
  let ?req = "empty_request\<lparr>rq_verb := ''feeds_sync'', rq_elements := []\<rparr>"
  have "rpc (helper_tr ord) ?req s = (None, s')"
    using assms(2) by (auto simp: client_SyncFeeds_def split: prod.splits option.splits)
  then obtain resp0 where rr: "rpcResp (helper_tr ord) ?req (c, w) = (Inr resp0, s')"
    by (auto simp: rpc_def cw split: prod.splits sum.splits)
  obtain r1 c1 w1 where caps: "ensureCustomNamesSupported (helper_tr ord) (c, w) = (r1, c1, w1)" by (metis prod_cases3)
  note p = caps_step [OF assms(1) [unfolded cw] caps]
  let ?req1 = "?req\<lparr>rq_table := nc_table c, rq_set := nc_set c\<rparr>"
  obtain q w2 where tr: "helper_tr ord ?req1 w1 = (q, w2)" by fastforce
  obtain resp where q: "q = Some resp" "rs_ok resp" "s' = (c1, w2)"
    using rr caps tr by (auto simp: rpcResp_def split: option.splits if_splits)
  have "world_ok (nc_table c) (nc_set c) w1" using p(1,2) by (simp add: nft_ok_def same_client_def)
  then have ok: "world_ok (rq_table ?req1) (rq_set ?req1) w1" by simp
  note f = feeds_request [OF ok _ _ tr [unfolded q(1)] q(2)]
  show "nft_live s' \<subseteq> nft_live s" using f(1) p(3) q(3) cw by simp
  show "feeds_live (snd s') = {}" using f(2) q(3) by simp
qed

text \<open>What the panic button needs of its feed syncer: an empty push that succeeds leaves the bans' drops only.\<close>

lemma empty_feeds:
  assumes "nft_ok s" and "nft_feed_syncer ord [] s = (None, s')" and "dropped_at (snd s') x"
  shows "blocked_at (snd s) x"
proof -
  have "client_SyncFeeds (helper_tr ord) [] s = (None, s')"
    using assms(2) by (auto simp: nft_feed_syncer_def enf_result_def split: prod.splits)
  from empty_push [OF assms(1) this] show ?thesis using assms(3) by (auto simp: dropped_at_def blocked_at_def)
qed
text \<open>With no failing \<open>nft\<close> the empty push succeeds.\<close>

lemma empty_push_runs:
  assumes "helper_ok now n sv h" and "kh_faults h = []"
  shows "fst (nftFeedsSync (kernel_ops ord now) n [] h) = None"
proof -
  have n: "names_ok n" using assms(1) by (simp add: helper_ok_def)
  obtain t where t: "nm_table n = ''inet '' @ t" "set_word t" using names_ok_table [OF n] by blast
  have w: "set_word (nm_feeds4 n)" "set_word (nm_feeds6 n)"
    using other_sets [OF n, of "nm_feeds4 n"] other_sets [OF n, of "nm_feeds6 n"] by auto
  let ?ls = "[flush_line t (nm_feeds4 n), flush_line t (nm_feeds6 n)]"
  have split: "str_split (CHR 0x0A) (lines_of ?ls) = ?ls @ [[]]"
    by (rule str_split_lines) (use flush_line_apply(2) [OF t(2)] w in simp)
  have line: "\<exists>k1. applyLine now (flush_line t st) k = Inr k1" if "set_word st" for st k
    using flush_line_apply(3) [OF t(2) that] by (simp split: option.split)
  have "\<exists>k'. apply_lines now (?ls @ [[]]) k = Inr k'" for k
  proof -
    obtain k1 where 1: "applyLine now (flush_line t (nm_feeds4 n)) k = Inr k1" using line [OF w(1)] by blast
    obtain k2 where 2: "applyLine now (flush_line t (nm_feeds6 n)) k1 = Inr k2" using line [OF w(2)] by blast
    have "trim_space [] = []" by (simp add: trim_space_def)
    then show ?thesis using 1 2 flush_line_apply(1) [OF t(2) w(1)] flush_line_apply(1) [OF t(2) w(2)]
      by (simp add: Let_def flush_line_def)
  qed
  then have "fst (Apply now (lines_of ?ls) (kh_sets h)) = None"
    unfolding Apply_def split Let_def by (metis (no_types, lifting) old.sum.simps(6) fst_conv)
  then have "fst (host_run now (lines_of ?ls) h) = None" using assms(2) by (simp add: host_run_def case_prod_beta)
  then show ?thesis
    by (simp add: nftFeedsSync_def write_chunks.simps flush_script_lines [OF t(1)] kernel_ops_def run_err_def case_prod_beta)
qed

lemma empty_feeds_answer:
  assumes "nft_ok (c, w)" and "nc_init_err c = None" "nc_table c = []" "nc_set c = []"
    and "hw_links w = []" "hw_ticks w = []" "kh_faults (hw_host w) = []" "sv_pinned (hw_server w)"
    and "sv_names (hw_server w) = default_names"
  shows "fst (nft_feed_syncer ord [] (c, w)) = None"
proof -
  let ?req = "empty_request\<lparr>rq_verb := ''feeds_sync'', rq_elements := [], rq_table := [], rq_set := []\<rparr>"
  have now: "next_tick w = hw_now w" using assms(6) by (simp add: next_tick_def)
  obtain resp sv h where d: "dispatch (kernel_ops ord (hw_now w)) (hw_now w) ?req (hw_server w) (hw_host w) = (resp, sv, h)"
    by (metis prod_cases3)
  have ok: "pinned_ok (hw_now w) (hw_server w) (hw_host w)" using assms(1) by (simp add: nft_ok_def world_ok_def)
  have pin: "(hw_server w)\<lparr>sv_pinned := True\<rparr> = hw_server w" using assms(8) by simp
  have "rs_ok resp"
  proof -
    obtain h1 where run: "nftFeedsSync (kernel_ops ord (hw_now w)) (sv_names (hw_server w)) [] (hw_host w) = (None, h1)"
      using empty_push_runs [OF ok assms(7), of ord] by (metis prod.collapse)
    then show ?thesis using d assms(8,9)
      by (auto simp: dispatch_def validVerbs_def Resolve_default resolveNames_def dispatch_verb_def feed_check_def of_run_def resp_ok_def
          split: if_splits sum.splits)
  qed
  then have "helper_tr ord ?req w = (Some resp, w\<lparr>hw_now := hw_now w, hw_ticks := [], hw_links := [], hw_server := sv, hw_host := h\<rparr>)"
    using d assms(5,6) by (simp add: helper_tr_def Let_def now)
  then show ?thesis using \<open>rs_ok resp\<close> assms(2-4)
    by (simp add: nft_feed_syncer_def enf_result_def client_SyncFeeds_def rpc_def rpcResp_def ensureCustomNamesSupported_def)
qed

end
