(* ===== verification/SystemProps.thy ===== *)
theory SystemProps
  imports ArmWindow Startup GatedRuns FeedPush
begin

text \<open>
  Properties of the assembled daemon: what it starts from and keeps, how the store, the gate and the
  kernel agree after a reconcile, what the panic button achieves, how a failing collector is paced.
\<close>

section \<open>From New on\<close>

lemma new_gate_parts [simp]:
  "ga_allowlist (new_gate pol probe g) = ga_allowlist g" "ga_extra (new_gate pol probe g) = ga_extra g"
  by (simp_all add: new_gate_def SetSSHPeerProbe_def)

lemma NewGate_follows [simp]: "gate_wf (new_gate pol probe (NewGate allow q))" "SetExtraAllowlist [] (new_gate pol probe (NewGate allow q)) = new_gate pol probe (NewGate allow q)"
  by (auto simp: gate_wf_def NewGate_def new_gate_def SetSSHPeerProbe_def SetExtraAllowlist_def)

lemma Daemon_New_wf:
  assumes "Daemon_New fs ssh now cfg = Inr d" "nw_gate cfg = map_option (\<lambda>(allow, q). NewGate allow q) gate"
  shows "daemon_wf d \<and> dm_db d = snd (nw_store cfg)"
  using assms
  by (auto simp: Daemon_New_def daemon_wf_def gate_follows_def recheck_ok_Nil split: option.splits sum.splits)

lemma Run_start_steady: "steady (cl_dm c) (cl_dm (Run_start p c))"
proof -
  have 1: "steady (cl_dm c) (cl_dm (snd (in_dm (syncEnforcer (cp_ports p)) c)))" by (simp add: syncEnforcer_steady)
  have 2: "steady (cl_dm c) (cl_dm (snd (in_dm reloadAllowlist (snd (in_dm (syncEnforcer (cp_ports p)) c)))))"
    by (rule steady_trans [OF 1]) (simp add: reloadAllowlist_steady)
  have 3: "steady (cl_dm c) (cl_dm (snd (in_dm (syncEnforcerAllowlist (cp_ports p)) (snd (in_dm reloadAllowlist (snd (in_dm (syncEnforcer (cp_ports p)) c)))))))"
    by (rule steady_trans [OF 2]) simp
  show ?thesis unfolding Run_start_def Let_def by (rule steady_trans [OF 3 checkArmWindow_steady])
qed

lemma db_reach_ok: "db_reach d \<Longrightarrow> db_ok d"
  by (induction rule: db_reach.induct) (auto intro: db_ok_empty db_ok_apply)

text \<open>
  C8 (type).  The daemon is well formed for life.  A daemon that \<open>New\<close> built over a gate and a database
  of theory \<open>StoreSteps\<close> has, after the start of \<open>Run\<close> and any sequence of log lines, AI answers,
  timers, feeds and control requests with any outside and any faults, retry queues within their caps
  and budgets, a gate that follows the runtime allowlist, and a consistent database; and whatever it
  did to the database is a sequence of store operations.
\<close>

theorem daemon_well_formed:
  assumes "Daemon_New fs ssh now cfg = Inr (cl_dm c)" "nw_gate cfg = map_option (\<lambda>(allow, q). NewGate allow q) gate"
    and "db_reach (snd (nw_store cfg))"
  shows "daemon_wf (cl_dm (sys_run (Run_start p c) steps)) \<and> db_ok (dm_db (cl_dm (sys_run (Run_start p c) steps)))
    \<and> (\<exists>ops. dm_db (cl_dm (sys_run (Run_start p c) steps)) = db_run (snd (nw_store cfg)) ops)"
proof -
  have s: "steady (cl_dm c) (cl_dm (sys_run (Run_start p c) steps))" by (rule steady_trans [OF Run_start_steady sys_run_steady])
  with Daemon_New_wf [OF assms(1,2)] have wf: "daemon_wf (cl_dm (sys_run (Run_start p c) steps))"
    "stored (snd (nw_store cfg)) (dm_db (cl_dm (sys_run (Run_start p c) steps)))" by (auto simp: steady_def)
  then obtain ops where ops: "dm_db (cl_dm (sys_run (Run_start p c) steps)) = db_run (snd (nw_store cfg)) ops"
    by (auto simp: stored_def)
  have "db_ok (snd (nw_store cfg))" using assms(3) by (rule db_reach_ok)
  then have "db_ok (dm_db (cl_dm (sys_run (Run_start p c) steps)))" unfolding ops by (rule db_ok_run)
  with wf(1) ops show ?thesis by blast
qed

text \<open>The witness: the rules and the policy of the other witnesses.\<close>

definition demo_new_config :: "(unit, unit list) new_config" where
  "demo_new_config = \<lparr>nw_policy = Some demo_allow, nw_store = ([], empty_db), nw_rules_path = [], nw_rules_dir = ''d'', nw_max_ips = 0,
     nw_gate = Some demo_gate, nw_fw = [], nw_auth_probe = (\<lambda>w. []), nw_notify_window = None, nw_ai = None\<rparr>"

theorem daemon_well_formed_witness:
  "\<exists>d. Daemon_New demo_fs [] 0 demo_new_config = Inr d
    \<and> daemon_wf (cl_dm (sys_run (Run_start demo_hour (demo_control d)) [SysReconcile (cp_ports demo_hour)]))"
proof -
  obtain d where d: "Daemon_New demo_fs [] 0 demo_new_config = Inr d"
    by (simp add: Daemon_New_def demo_new_config_def demo_rules_new demo_new)
  have "nw_gate demo_new_config = map_option (\<lambda>(allow, q). NewGate allow q) (Some ([Pfx (V4 0x0A000000) 8], None))"
    by (simp add: demo_new_config_def demo_gate_def)
  moreover have "db_reach (snd (nw_store demo_new_config))" by (simp add: demo_new_config_def db_start)
  ultimately have "daemon_wf (cl_dm (sys_run (Run_start demo_hour (demo_control d)) [SysReconcile (cp_ports demo_hour)]))"
    using d by (intro conjunct1 [OF daemon_well_formed [where gate = "Some ([Pfx (V4 0x0A000000) 8], None)"]]) simp_all
  with d show ?thesis by blast
qed

section \<open>The pace of a failing collector\<close>

text \<open>
  C40 (functional).  A collector that keeps failing is restarted at an exact pace: the wait before each
  restart is the base delay doubled once for every earlier failure in a row and capped, and a run that
  lasted long enough starts the streak anew; a run that ended without error, the cancellation of the
  daemon or of the wait ends the supervision.
\<close>

theorem collector_pace:
  "fst (supervise p t name runs c) = map (nth_delay t) (streaks t 0 runs)"
  using runCollector_delays [of p t name 0 0 0 runs c] by (simp add: supervise_def nth_delay_def)

section \<open>Store, gate and kernel\<close>

context converging_enforcer begin

lemma gate_sync_exact:
  assumes "inv s" and "gate_wf g" and "\<forall>t \<in> set want. target_ok t" and "Gate_Sync e g w want s = (None, s')" and "drops s' x"
  shows "(\<exists>t \<in> set want. target_covers t x) \<and> \<not> gate_protects g w x"
proof -
  let ?f = "filter (\<lambda>t. refuse g (currentPeers g w) t = None) want"
  have ok: "\<forall>t \<in> set (map normalizeGateTarget ?f). target_ok t" using assms(3) target_ok_normal by auto
  have "en_sync e (map normalizeGateTarget ?f) s = (None, s')" using assms(4) by (simp add: Gate_Sync_def Let_def)
  from converges [OF assms(1) ok this assms(5)] have "\<exists>t \<in> set want. target_covers t x"
    using gatePrefix_normal assms(3) by (auto simp: target_ok_def)
  then show ?thesis using gate_sync_heals [OF assms(1-4), of x] assms(5) by blast
qed

end

lemma ban_target_covers: "addr_zone ip = [] \<Longrightarrow> target_covers (ban_target ip ttl) x \<Longrightarrow> x = unmap ip"
  using host_prefix_contains [of "unmap ip" x]
  by (cases ip) (auto simp: target_covers_def gatePrefix_def ban_target_def zero_target_def prefix_is_valid_def no_prefix_def split: if_splits)

text \<open>The bans the store holds have plain addresses and lifetimes a kernel timeout can express.\<close>

definition plain_bans :: "time \<Rightarrow> db \<Rightarrow> bool" where
  "plain_bans clock db \<longleftrightarrow> (\<forall>(ip, r) \<in> set (db_bans db). addr_zone ip = []
     \<and> (case br_expires_at r of None \<Rightarrow> True | Some et \<Rightarrow> et - clock \<le> 9223372036 * Second))"

lemma active_rows_from: "active_rows clock rows = Inr bans \<Longrightarrow> b \<in> set bans \<Longrightarrow> \<exists>(ip, r) \<in> set rows. ban_action clock (ip, r) = Some b"
  by (induction clock rows arbitrary: bans rule: active_rows.induct) (fastforce split: if_splits sum.splits option.splits)+

lemma wanted_plain:
  assumes "plain_bans clock db" "ActiveBans clock db = Inr bans" "b \<in> set bans"
  shows "addr_zone (ac_ip b) = [] \<and> target_ok (ban_target (ac_ip b) (ac_ttl b))"
proof -
  obtain ip r where r: "(ip, r) \<in> set (db_bans db)" "ban_action clock (ip, r) = Some b"
    using active_rows_from [of clock "db_bans db" bans b] assms(2,3) by (auto simp: ActiveBans_def)
  then have "addr_zone ip = []" "case br_expires_at r of None \<Rightarrow> True | Some et \<Rightarrow> et - clock \<le> 9223372036 * Second"
    using assms(1) by (auto simp: plain_bans_def)
  then show ?thesis using r(2)
    by (auto simp: ban_action_def target_ok_def ban_target_def zero_target_def zero_action_def Second_def split: option.splits if_splits)
qed

lemma enforce_frame [simp]:
  "dm_fw (record_enforce p opn r d) = dm_fw d" "dm_fw (audit_repairs p rep d) = dm_fw d"
  "db_bans (dm_db (record_enforce p opn r d)) = db_bans (dm_db d)" "db_bans (dm_db (audit_repairs p rep d)) = db_bans (dm_db d)"
  "dm_policy (record_enforce p opn r d) = dm_policy d" "dm_policy (audit_repairs p rep d) = dm_policy d"
  using record_enforce_quiet [of d p opn r]
  by (auto simp: quiet_def tables_kept_def guards_kept_def audit_repairs_def with_store_def faulty_def writes_def AuditSystem_def insert_audit_def
      split: prod.splits)

lemma syncEnforcer_parts:
  assumes "syncEnforcer p d = (None, d')" "dm_gate d = Some g"
  obtains bans d1 where "active_bans p d = (Inr bans, d1)" "fst (Gate_Sync (pt_inner p) g (pt_view p) (wanted_targets d1 bans) (dm_fw d1)) = None"
    "dm_fw d' = snd (Gate_Sync (pt_inner p) g (pt_view p) (wanted_targets d1 bans) (dm_fw d1))"
proof -
  obtain r d1 where 1: "active_bans p d = (r, d1)" by fastforce
  obtain bans where r: "r = Inr bans" using assms 1 by (cases r) (auto simp: syncEnforcer_def)
  let ?s = "Gate_Sync (pt_inner p) g (pt_view p) (wanted_targets d1 bans) (dm_fw d1)"
  have "fst ?s = None" "dm_fw d' = dm_fw (audit_repairs p (Gate_LastSyncRepairs (pt_inner p) (snd ?s)) (record_enforce p ''sync'' None (d1\<lparr>dm_fw := snd ?s\<rparr>)))"
    using assms 1 r by (auto simp: syncEnforcer_def Let_def split: prod.splits option.splits)
  then show ?thesis using that [of bans d1] 1 r by simp
qed

lemma active_bans_frame: "active_bans p d = (r, d1) \<Longrightarrow> dm_fw d1 = dm_fw d \<and> dm_runtime d1 = dm_runtime d \<and> dm_db d1 = dm_db d
    \<and> (\<forall>bans. r = Inr bans \<longrightarrow> ActiveBans (pt_clock p) (dm_db d) = Inr bans)"
  by (auto simp: active_bans_def with_store_def faulty_def reads_def split: prod.splits sum.splits if_splits)

lemma sync_exact:
  assumes "syncEnforcer p d = (None, d')" "dm_gate d = Some g" "gate_wf g"
    and "pt_inner p = nft_enforcer (helper_tr ord) ow oc" "orders_ok ow oc" "nft_synced (dm_fw d)"
    and "plain_bans (pt_clock p) (dm_db d)" "blocked_at (snd (dm_fw d')) x"
  obtains bans b where "ActiveBans (pt_clock p) (dm_db d) = Inr bans" "b \<in> set bans" "ac_op b = ''ban''"
    "\<not> isRuntimeAllowlisted d (ac_ip b)" "target_covers (ban_target (ac_ip b) (ac_ttl b)) x" "\<not> gate_protects g (pt_view p) x"
proof -
  obtain bans d1 where 1: "active_bans p d = (Inr bans, d1)"
    and s: "fst (Gate_Sync (pt_inner p) g (pt_view p) (wanted_targets d1 bans) (dm_fw d1)) = None"
      "dm_fw d' = snd (Gate_Sync (pt_inner p) g (pt_view p) (wanted_targets d1 bans) (dm_fw d1))"
    using syncEnforcer_parts [OF assms(1,2)] .
  have f: "dm_fw d1 = dm_fw d" "dm_runtime d1 = dm_runtime d" "ActiveBans (pt_clock p) (dm_db d) = Inr bans"
    using active_bans_frame [OF 1] by simp_all
  have ok: "\<forall>t \<in> set (wanted_targets d1 bans). target_ok t"
    using wanted_plain [OF assms(7) f(3)] by (auto simp: wanted_targets_def)
  have run: "Gate_Sync (nft_enforcer (helper_tr ord) ow oc) g (pt_view p) (wanted_targets d1 bans) (dm_fw d) = (None, dm_fw d')"
    using s f(1) assms(4) by (metis surjective_pairing)
  have inv: "orders_ok ow oc \<and> nft_synced (dm_fw d)" using assms(5,6) by simp
  have "nft_drops (dm_fw d') x" using assms(8) by (simp add: nft_drops_def)
  from nft_conv.gate_sync_exact [OF inv assms(3) ok run this]
  obtain b where "b \<in> set bans" "ac_op b = ''ban''" "\<not> isRuntimeAllowlisted d1 (ac_ip b)"
    "target_covers (ban_target (ac_ip b) (ac_ttl b)) x" "\<not> gate_protects g (pt_view p) x"
    by (auto simp: wanted_targets_def)
  with that f show ?thesis by (simp add: isRuntimeAllowlisted_def)
qed

text \<open>
  C3 (refinement).  After a reconcile of the daemon over the nftables client and its helper that
  returned no error, from a state in which the helper's cache mirrors the kernel's sets of bans and no
  \<open>nft\<close> process fails (\<open>nft_synced\<close>), these sets refine the store: every address they drop has an
  active, real ban in the store, is not covered by the runtime allowlist, and is protected by no entry
  of the gate and no SSH peer of that moment.  So an address lifted, allowlisted, expired or only
  simulated is in no set of bans, and a block nobody recorded is gone.  (The feed sets hold no bans and
  are not reconciled.)
\<close>

theorem reconcile_follows_store:
  assumes "syncEnforcer p d = (None, d')" "dm_gate d = Some g" "gate_wf g"
    and "pt_inner p = nft_enforcer (helper_tr ord) ow oc" "orders_ok ow oc" "nft_synced (dm_fw d)"
    and "plain_bans (pt_clock p) (dm_db d)" "blocked_at (snd (dm_fw d')) x"
  shows "\<exists>bans b. ActiveBans (pt_clock p) (dm_db d) = Inr bans \<and> b \<in> set bans \<and> ac_op b = ''ban'' \<and> unmap (ac_ip b) = x
    \<and> \<not> isRuntimeAllowlisted d (ac_ip b) \<and> \<not> gate_protects g (pt_view p) x"
proof (rule sync_exact [OF assms])
  fix bans b
  assume b: "ActiveBans (pt_clock p) (dm_db d) = Inr bans" "b \<in> set bans" "target_covers (ban_target (ac_ip b) (ac_ttl b)) x"
    and r: "ac_op b = ''ban''" "\<not> isRuntimeAllowlisted d (ac_ip b)" "\<not> gate_protects g (pt_view p) x"
  have "unmap (ac_ip b) = x" using wanted_plain [OF assms(7) b(1,2)] ban_target_covers [OF _ b(3)] by simp
  with b r show ?thesis by blast
qed

text \<open>The witness: the store bans 10.0.0.1 for good, and the reconcile puts it into the empty kernel.\<close>

definition demo_store :: db where
  "demo_store = empty_db\<lparr>db_bans := [(V4 0x0A000001, fresh_ban 0 None 1 [] False)]\<rparr>"

definition demo_ports_nft :: "(unit, client \<times> hworld) ports" where
  "demo_ports_nft = demo_ports demo_enforcer () 0"

definition demo_daemon_nft :: "(unit, client \<times> hworld) daemon" where
  "demo_daemon_nft = (demo_daemon (Some open_gate) (demo_client, first_world 0 []) [])\<lparr>dm_store := ([], demo_store)\<rparr>"

lemma demo_nft_bans: "ActiveBans 0 demo_store
    = Inr [zero_action\<lparr>ac_ip := V4 0x0A000001, ac_op := ''ban'', ac_ttl := 0, ac_permanent := True, ac_strike := 1, ac_reason := []\<rparr>]"
  by (simp add: ActiveBans_def demo_store_def fresh_ban_def ban_action_def addr_is_valid_def zero_action_def)

lemma demo_nft_parts [simp]:
  "pt_inner demo_ports_nft = demo_enforcer" "pt_view demo_ports_nft = ()" "pt_clock demo_ports_nft = 0"
  "dm_gate demo_daemon_nft = Some open_gate" "dm_fw demo_daemon_nft = (demo_client, first_world 0 [])" "dm_runtime demo_daemon_nft = []"
  "dm_store demo_daemon_nft = ([], demo_store)"
  by (simp_all add: demo_ports_nft_def demo_daemon_nft_def)

lemma demo_nft_active: "active_bans demo_ports_nft demo_daemon_nft = (ActiveBans 0 demo_store, demo_daemon_nft)"
  by (simp add: active_bans_def with_store_def faulty_def reads_def demo_nft_bans)

lemma demo_nft_wanted: "wanted_targets demo_daemon_nft [zero_action\<lparr>ac_ip := V4 0x0A000001, ac_op := ''ban'', ac_ttl := 0, ac_permanent := True,
    ac_strike := 1, ac_reason := []\<rparr>] = [GatedRuns.demo_ban]"
  by (simp add: wanted_targets_def isRuntimeAllowlisted_def ban_target_def GatedRuns.demo_ban_def zero_target_def zero_action_def)

lemma demo_nft_sync: "fst (syncEnforcer demo_ports_nft demo_daemon_nft) = None
    \<and> dm_fw (snd (syncEnforcer demo_ports_nft demo_daemon_nft)) = demo_after_sync"
  by (simp add: syncEnforcer_def demo_nft_active demo_nft_bans demo_nft_wanted demo_gate_sync Let_def)

theorem reconcile_follows_store_witness:
  "\<exists>bans b. ActiveBans 0 demo_store = Inr bans \<and> b \<in> set bans \<and> unmap (ac_ip b) = V4 0x0A000001"
proof -
  have s: "syncEnforcer demo_ports_nft demo_daemon_nft = (None, snd (syncEnforcer demo_ports_nft demo_daemon_nft))"
    using demo_nft_sync by (metis surjective_pairing)
  have wf: "gate_wf open_gate" by (simp add: open_gate_def)
  have plain: "plain_bans (pt_clock demo_ports_nft) (dm_db demo_daemon_nft)" by (simp add: plain_bans_def demo_store_def fresh_ban_def)
  have "blocked_at (snd (dm_fw (snd (syncEnforcer demo_ports_nft demo_daemon_nft)))) (V4 0x0A000001)"
    using demo_nft_sync demo_sync_blocked by simp
  from reconcile_follows_store [OF s _ wf _ demo_orders _ plain this] show ?thesis
    using demo_synced by simp blast
qed

section \<open>The panic button\<close>

lemma disable_feeds_effect:
  assumes "disable_feeds p n c = (resp, c')" "sr_error resp = None" "cp_feed_syncer p = Some sync"
  shows "sync [] (dm_fw (cl_dm c)) = (None, dm_fw (cl_dm c'))" "cl_feed_desired c' = []"
    "dm_engine (cl_dm c') = dm_engine (cl_dm c)" "dm_db (cl_dm c') = dm_db (cl_dm c)" "cl_file c' = cl_file c"
  using assms by (auto simp: disable_feeds_def on_dm_def Let_def split: option.splits prod.splits)

lemma disarm_effect:
  assumes "setArmedState p False opn reason c = (None, c')"
  shows "\<not> IsArmed (dm_policy (cl_dm c'))" "dm_fw (cl_dm c') = dm_fw (cl_dm c)" "dm_gate (cl_dm c') = dm_gate (cl_dm c)"
    "cl_file c' = map_option (\<lambda>_. False) (cl_file c)"
  using assms by (auto simp: setArmedState_def journal_def set_armed_flag_def publishActionEvent_def split: option.splits if_splits)

lemma unban_all_effect:
  assumes "with_store (UnbanAll t reason) d = (Inr n, d')"
  shows "db_bans (dm_db d') = []" "dm_fw d' = dm_fw d" "dm_gate d' = dm_gate d" "dm_policy d' = dm_policy d"
  using assms by (auto simp: with_store_def faulty_def UnbanAll_def insert_audit_def Let_def split: prod.splits if_splits)

lemma sync_keeps: "db_bans (dm_db (snd (syncEnforcer p d))) = db_bans (dm_db d) \<and> dm_policy (snd (syncEnforcer p d)) = dm_policy d"
proof (cases "dm_gate d")
  case (Some g)
  obtain r d1 where 1: "active_bans p d = (r, d1)" by fastforce
  have "dm_engine d1 = dm_engine d" using 1 by (auto simp: active_bans_def with_store_def split: prod.splits sum.splits)
  then show ?thesis using Some 1 active_bans_frame [OF 1] by (simp add: syncEnforcer_def Let_def split: sum.split prod.split option.split)
qed (simp add: syncEnforcer_def)

lemma sync_synced:
  assumes "syncEnforcer p d = (None, d')" "dm_gate d = Some g" "gate_wf g"
    and "pt_inner p = nft_enforcer (helper_tr ord) ow oc" "orders_ok ow oc" "nft_synced (dm_fw d)" "plain_bans (pt_clock p) (dm_db d)"
  shows "nft_synced (dm_fw d')"
proof -
  obtain bans d1 where 1: "active_bans p d = (Inr bans, d1)"
    and s: "dm_fw d' = snd (Gate_Sync (pt_inner p) g (pt_view p) (wanted_targets d1 bans) (dm_fw d1))"
    using syncEnforcer_parts [OF assms(1,2)] .
  have f: "dm_fw d1 = dm_fw d" "ActiveBans (pt_clock p) (dm_db d) = Inr bans" using active_bans_frame [OF 1] by simp_all
  have ok: "gate_op_ok (GSync (wanted_targets d1 bans))"
    using wanted_plain [OF assms(7) f(2)] by (auto simp: wanted_targets_def list_all_iff)
  have inv: "orders_ok ow oc \<and> nft_synced (dm_fw d)" using assms(5,6) by simp
  from nft_conv.gate_step(1) [OF inv assms(3) ok, of ord "pt_view p"] show ?thesis
    using s f(1) assms(4) by (metis gate_apply.simps(3) surjective_pairing)
qed

text \<open>
  C7 (functional).  The panic button opens the host.  Over an nftables client and helper whose cache is in
  step with the kernel (\<open>nft_synced\<close>), with that client as the feed syncer as \<open>run.go\<close> wires it: when
  \<open>disable --all\<close> answers without an error, the daemon is in dry-run, in memory and in the policy file, the
  store holds no ban, no feed element is left to push, and the kernel drops no address at all, neither by
  its sets of bans (manual ranges and blocks the store never knew included) nor by its feed sets, whatever
  was in force before.
\<close>

theorem panic_button_opens:
  assumes "handleDisableAll p c = (resp, c')" "sr_error resp = None" "dm_gate (cl_dm c) = Some g" "gate_wf g"
    and "pt_inner (cp_ports p) = nft_enforcer (helper_tr ord) ow oc" "orders_ok ow oc" "nft_synced (dm_fw (cl_dm c))"
    and "cp_feed_syncer p = Some (nft_feed_syncer ord)"
  shows "\<not> IsArmed (dm_policy (cl_dm c')) \<and> db_bans (dm_db (cl_dm c')) = [] \<and> (\<forall>x. \<not> dropped_at (snd (dm_fw (cl_dm c'))) x)
    \<and> cl_feed_desired c' = [] \<and> cl_file c' = map_option (\<lambda>_. False) (cl_file c)"
proof -
  let ?why = "''operator ran '' @ quoted ''ezyshield disable --all''"
  obtain c1 where 1: "setArmedState p False ''disarm'' ?why c = (None, c1)"
    using assms(1,2) by (auto simp: handleDisableAll_def err_with_def split: prod.splits option.splits)
  let ?c2 = "snd (in_dm delete_window c1)"
  obtain n d3 where 3: "with_store (UnbanAll (pt_clock (cp_ports p)) ''panic button: operator ran disable --all'') (cl_dm ?c2) = (Inr n, d3)"
    using assms(1,2) 1 by (auto simp: handleDisableAll_def Let_def in_dm_def [of "with_store (UnbanAll t r)" for t r] err_with_def split: prod.splits sum.splits)
  obtain d4 where 4: "syncEnforcer (cp_ports p) d3 = (None, d4)" and 5: "disable_feeds p n (?c2\<lparr>cl_dm := d4\<rparr>) = (resp, c')"
    using assms(1,2) 1 3
    by (auto simp: handleDisableAll_def Let_def in_dm_def [of "with_store (UnbanAll t r)" for t r] in_dm_def [of "syncEnforcer q" for q]
        split: prod.splits option.splits)
  note u = unban_all_effect [OF 3] and a = disarm_effect [OF 1] and e = disable_feeds_effect [OF 5 assms(2,8), simplified]
  have w: "dm_fw (cl_dm ?c2) = dm_fw (cl_dm c1)" "dm_gate (cl_dm ?c2) = dm_gate (cl_dm c1)" "dm_engine (cl_dm ?c2) = dm_engine (cl_dm c1)"
    "cl_file ?c2 = cl_file c1"
    by (simp_all add: in_dm_def delete_window_def case_prod_beta)
  have k: "db_bans (dm_db d4) = []" "dm_policy d4 = dm_policy d3" using sync_keeps [of "cp_ports p" d3] 4 u(1) by simp_all
  have plain: "plain_bans (pt_clock (cp_ports p)) (dm_db d3)" by (simp add: plain_bans_def u(1))
  have g3: "dm_gate d3 = Some g" "nft_synced (dm_fw d3)" using u a w assms(3,7) by simp_all
  have "\<not> blocked_at (snd (dm_fw d4)) x" for x
    using sync_exact [OF 4 g3(1) assms(4-6) g3(2) plain, of x] u(1) by (auto simp: ActiveBans_def)
  moreover have "nft_ok (dm_fw d4)" using sync_synced [OF 4 g3(1) assms(4-6) g3(2) plain] by (rule synced_ok)
  ultimately have "\<not> dropped_at (snd (dm_fw (cl_dm c'))) x" for x using empty_feeds [OF _ e(1)] by blast
  then show ?thesis using a w u(4) k e by simp
qed

text \<open>The witness: an armed daemon with one ban in the store, over the empty kernel.\<close>

definition demo_panic :: "(unit, client \<times> hworld) control" where
  "demo_panic = demo_control (demo_daemon (Some open_gate) (demo_client, first_world 0 []) [])"

definition demo_panic_ports :: "(unit, client \<times> hworld) cports" where
  "demo_panic_ports = (demo_cports demo_ports_nft)\<lparr>cp_feed_syncer := Some (nft_feed_syncer demo_order)\<rparr>"

lemma demo_empty_sync: "\<exists>c. Gate_Sync demo_enforcer open_gate () [] (demo_client, first_world 0 [])
    = (None, c, (first_world 0 [])\<lparr>hw_server := NewServer\<lparr>sv_pinned := True\<rparr>\<rparr>)
    \<and> nc_init_err c = None \<and> nc_table c = [] \<and> nc_set c = []"
proof -
  have "wantSet (nc_allowlist demo_client) [] = []" by (simp add: wantSet_def)
  then have "client_Sync (helper_tr demo_order) keep_order keep_order [] (demo_client, first_world 0 [])
      = (None, sync_account 0 0 demo_client, (first_world 0 [])\<lparr>hw_server := NewServer\<lparr>sv_pinned := True\<rparr>\<rparr>)"
    unfolding client_Sync_def demo_list by (simp add: Let_def currentSet_def keep_order_def)
  then show ?thesis
    by (simp add: Gate_Sync_def Let_def enf_result_def) (simp add: sync_account_def demo_client_def client_new_def Let_def)
qed

lemma empty_store_sync:
  assumes "dm_store d = ([], db)" "db_bans db = []" "dm_gate d = Some open_gate" "dm_fw d = (demo_client, first_world 0 [])"
  shows "fst (syncEnforcer demo_ports_nft d) = None
    \<and> fst (nft_feed_syncer demo_order [] (dm_fw (snd (syncEnforcer demo_ports_nft d)))) = None"
proof -
  have act: "active_bans demo_ports_nft d = (Inr [], d)"
    using assms by (simp add: active_bans_def with_store_def faulty_def reads_def ActiveBans_def)
  let ?w = "(first_world 0 [])\<lparr>hw_server := NewServer\<lparr>sv_pinned := True\<rparr>\<rparr>"
  obtain c where c: "Gate_Sync demo_enforcer open_gate () [] (demo_client, first_world 0 []) = (None, c, ?w)"
    "nc_init_err c = None" "nc_table c = []" "nc_set c = []" using demo_empty_sync by blast
  have fst: "fst (syncEnforcer demo_ports_nft d) = None"
    and fw: "dm_fw (snd (syncEnforcer demo_ports_nft d)) = (c, ?w)"
    using act assms c(1) by (simp_all add: syncEnforcer_def wanted_targets_def Let_def case_prod_beta)
  have "nft_synced (c, ?w)"
    using sync_synced [of demo_ports_nft d "snd (syncEnforcer demo_ports_nft d)" open_gate demo_order keep_order keep_order]
      fst fw assms demo_synced demo_orders
    by (simp add: open_gate_def plain_bans_def prod_eq_iff)
  from empty_feeds_answer [OF synced_ok [OF this] c(2-4)] show ?thesis using fst fw
    by (simp add: first_world_def NewServer_def)
qed

lemma demo_panic_ok: "sr_error (fst (handleDisableAll demo_panic_ports demo_panic)) = None"
proof -
  let ?p = "demo_panic_ports" and ?why = "''operator ran '' @ quoted ''ezyshield disable --all''"
  have p: "cp_ports ?p = demo_ports_nft" "cp_feed_syncer ?p = Some (nft_feed_syncer demo_order)"
    by (simp_all add: demo_panic_ports_def)
  obtain c1 where 1: "setArmedState ?p False ''disarm'' ?why demo_panic = (None, c1)" "fst (dm_store (cl_dm c1)) = []"
    using unfaulty_arm [of demo_panic True ?p False] by (fastforce simp: demo_panic_def demo_panic_ports_def)
  let ?c2 = "snd (in_dm delete_window c1)"
  have 2: "fst (dm_store (cl_dm ?c2)) = []" "dm_gate (cl_dm ?c2) = Some open_gate" "dm_fw (cl_dm ?c2) = (demo_client, first_world 0 [])"
    using 1(2) disarm_effect [OF 1(1)]
    by (simp_all add: in_dm_def delete_window_def case_prod_beta with_store_def faulty_def demo_panic_def)
  obtain n d3 where 3: "with_store (UnbanAll 0 ''panic button: operator ran disable --all'') (cl_dm ?c2) = (Inr n, d3)" "fst (dm_store d3) = []"
    using 2(1) by (simp add: with_store_def faulty_def case_prod_beta)
  have "fst (syncEnforcer demo_ports_nft d3) = None
      \<and> fst (nft_feed_syncer demo_order [] (dm_fw (snd (syncEnforcer demo_ports_nft d3)))) = None"
    using empty_store_sync [of d3 "dm_db d3"] unban_all_effect [OF 3(1)] 2 3(2) by (metis prod.collapse)
  then show ?thesis using 1(1) 3(1) p
    by (simp add: handleDisableAll_def Let_def in_dm_def [of "with_store (UnbanAll t r)" for t r] in_dm_def [of "syncEnforcer q" for q]
        disable_feeds_def ok_with_def case_prod_beta)
qed

theorem panic_button_opens_witness:
  "db_bans (dm_db (cl_dm (snd (handleDisableAll demo_panic_ports demo_panic)))) = []
   \<and> \<not> dropped_at (snd (dm_fw (cl_dm (snd (handleDisableAll demo_panic_ports demo_panic))))) (V4 0x0A000001)"
proof -
  have g: "dm_gate (cl_dm demo_panic) = Some open_gate" "gate_wf open_gate" "nft_synced (dm_fw (cl_dm demo_panic))"
    "cp_feed_syncer demo_panic_ports = Some (nft_feed_syncer demo_order)"
    by (simp_all add: demo_panic_def open_gate_def demo_synced demo_panic_ports_def)
  have inner: "pt_inner (cp_ports demo_panic_ports) = demo_enforcer" by (simp add: demo_panic_ports_def)
  from panic_button_opens [OF surjective_pairing demo_panic_ok g(1,2) inner demo_orders g(3,4)] show ?thesis by blast
qed

end
