(* ===== verification/SshPeers.thy ===== *)
theory SshPeers
  imports Rules NetipV6 GoText
begin

text \<open>
  Who is connected by SSH: \<open>internal/decision/sshpeers.go\<close> reads the peers of established sockets on
  the sshd ports from the kernel's tables, \<open>internal/decision/authpeers.go\<close> narrows them to peers
  with a login session.  A file is the list of lines the scanner delivers, \<open>None\<close> when it cannot be
  opened; the output of \<open>loginctl\<close> is a text, \<open>None\<close> when it fails.

  The narrowing fails open (\<open>narrowing_fails_open\<close>) and the kernel's notation of an address is read back
  (\<open>procAddr_kernel\<close>).
\<close>

section \<open>The kernel's tables\<close>

type_synonym proc_file = "string list option"

text \<open>\<open>strconv.ParseUint\<close> in base 10 and 16.\<close>

definition parse_uint :: "nat \<Rightarrow> string \<Rightarrow> nat option" where
  "parse_uint bits s = (if s = [] \<or> \<not> list_all is_digit s \<or> digits_val s \<ge> 2 ^ bits then None else Some (digits_val s))"

definition parse_hex :: "nat \<Rightarrow> string \<Rightarrow> nat option" where
  "parse_hex bits s = (if s = [] \<or> \<not> list_all is_hex s \<or> hex_val s \<ge> 2 ^ bits then None else Some (hex_val s))"

fun hex_decode :: "string \<Rightarrow> nat list option" where
  "hex_decode [] = Some []"
| "hex_decode [c] = None"
| "hex_decode (c # d # s) =
     (if is_hex c \<and> is_hex d then map_option (\<lambda>bs. (16 * hex_digit_val c + hex_digit_val d) # bs) (hex_decode s) else None)"

definition procTCPEstablished :: string where "procTCPEstablished = ''01''"

definition port_directive :: "string \<Rightarrow> nat option" where
  "port_directive line =
     (case str_fields line of
        k # v # _ \<Rightarrow> if map to_lower k \<noteq> ''port'' then None
                     else (case parse_uint 16 v of Some n \<Rightarrow> if n > 0 then Some n else None | None \<Rightarrow> None)
      | _ \<Rightarrow> None)"

definition sshdPorts :: "proc_file \<Rightarrow> nat list" where
  "sshdPorts file =
     (case file of
        None \<Rightarrow> [22]
      | Some ls \<Rightarrow> let ports = List.map_filter port_directive ls in if ports = [] then [22] else ports)"

definition procPort :: "string \<Rightarrow> nat option" where
  "procPort field =
     (case split_last (CHR '':'') field of
        None \<Rightarrow> None
      | Some (a, p) \<Rightarrow> if length p \<noteq> 4 then None else parse_hex 16 p)"

text \<open>Each 32-bit group in the byte order of the host.\<close>

definition procAddr :: "string \<Rightarrow> addr option" where
  "procAddr field =
     (case split_last (CHR '':'') field of
        None \<Rightarrow> None
      | Some (a, p) \<Rightarrow>
          (case hex_decode a of
             None \<Rightarrow> None
           | Some raw \<Rightarrow>
               if length raw = 4 then Some (V4 (bytes_word (rev raw)))
               else if length raw = 16
                    then Some (unmap (V6 (bytes_word (rev (take 4 raw) @ rev (take 4 (drop 4 raw)) @ rev (take 4 (drop 8 raw))
                                @ rev (drop 12 raw))) []))
               else None))"

definition proc_peer :: "nat list \<Rightarrow> string \<Rightarrow> addr option" where
  "proc_peer ports line =
     (case str_fields line of
        sl # laddr # raddr # st # _ \<Rightarrow>
          if st \<noteq> procTCPEstablished then None
          else (case procPort laddr of
                  None \<Rightarrow> None
                | Some n \<Rightarrow> if n \<in> set ports then procAddr raddr else None)
      | _ \<Rightarrow> None)"

definition parseProcTCPPeers :: "nat list \<Rightarrow> string list \<Rightarrow> addr list" where
  "parseProcTCPPeers ports ls = List.map_filter (proc_peer ports) ls"

text \<open>The first occurrence of each.\<close>

definition dedup :: "'a list \<Rightarrow> 'a list" where
  "dedup xs = rev (remdups (rev xs))"

definition ProcSSHPeers :: "proc_file \<Rightarrow> proc_file list \<Rightarrow> addr list" where
  "ProcSSHPeers config tables =
     (let ports = sshdPorts config
      in dedup (concat (map (\<lambda>f. case f of None \<Rightarrow> [] | Some ls \<Rightarrow> parseProcTCPPeers ports ls) tables)))"

section \<open>Login sessions\<close>

definition AuthPeerGraceWindow :: duration where "AuthPeerGraceWindow = 10 * Second"
definition logindCacheTTL :: duration where "logindCacheTTL = 5 * Second"

definition session_ids :: "string \<Rightarrow> string list" where
  "session_ids out = List.map_filter (\<lambda>line. case str_fields line of [] \<Rightarrow> None | f # _ \<Rightarrow> Some f) (str_split (CHR 0x0A) out)"

fun remote_hosts :: "string list \<Rightarrow> addr list option" where
  "remote_hosts [] = Some []"
| "remote_hosts (line # ls) =
     (if trim_space line = [] then remote_hosts ls
      else (case parse_addr (trim_space line) of
              None \<Rightarrow> None
            | Some a \<Rightarrow> map_option ((#) (unmap a)) (remote_hosts ls)))"

text \<open>\<open>show\<close> is what \<open>loginctl show-session\<close> prints for the sessions; \<open>None\<close> is the answer that cannot be trusted.\<close>

definition logindRemoteHosts :: "string option \<Rightarrow> (string list \<Rightarrow> string option) \<Rightarrow> addr list option" where
  "logindRemoteHosts sessions show_session =
     (case sessions of
        None \<Rightarrow> None
      | Some out \<Rightarrow>
          if session_ids out = [] then Some []
          else (case show_session (session_ids out) of
                  None \<Rightarrow> None
                | Some out2 \<Rightarrow> remote_hosts (str_split (CHR 0x0A) out2)))"

record session_probe =
  sp_cached :: "addr list option"
  sp_fetched :: time

definition NewLogindSessionProbe :: session_probe where
  "NewLogindSessionProbe = \<lparr>sp_cached = None, sp_fetched = zero_time\<rparr>"

definition probe_sessions :: "time \<Rightarrow> time \<Rightarrow> addr list option \<Rightarrow> session_probe \<Rightarrow> addr list option \<times> session_probe" where
  "probe_sessions now after fresh pr =
     (if now - sp_fetched pr < logindCacheTTL then (sp_cached pr, pr)
      else (fresh, \<lparr>sp_cached = fresh, sp_fetched = after\<rparr>))"

section \<open>The filter\<close>

type_synonym first_seen = "(addr, time) gomap"

definition first_sight :: "time \<Rightarrow> first_seen \<Rightarrow> addr \<Rightarrow> first_seen" where
  "first_sight now m p = (if gm_get m (unmap p) = None then gm_set (unmap p) now m else m)"

definition track_peers :: "time \<Rightarrow> addr list \<Rightarrow> first_seen \<Rightarrow> first_seen" where
  "track_peers now established seen =
     filter (\<lambda>(a, t). a \<in> unmap ` set established)
       (foldl (first_sight now) seen established)"

text \<open>The answer, and when each connection was first seen.\<close>

definition Peers :: "duration \<Rightarrow> time \<Rightarrow> addr list \<Rightarrow> addr list option \<Rightarrow> first_seen \<Rightarrow> addr list \<times> first_seen" where
  "Peers grace now established sessions seen =
     (let seen1 = track_peers now established seen
      in case sessions of
           None \<Rightarrow> (established, seen1)
         | Some hosts \<Rightarrow>
             (filter (\<lambda>p. unmap p \<in> set hosts \<or> now - gm_val seen1 (unmap p) \<le> grace) established, seen1))"

section \<open>What the filter may drop\<close>

text \<open>
  A history of probes, the latest first: when each was made and who was connected.  \<open>held\<close>: since a
  probe at \<open>t\<close>, every probe saw the address.
\<close>

type_synonym history = "(time \<times> addr list) list"

fun track_run :: "history \<Rightarrow> first_seen" where
  "track_run [] = []"
| "track_run ((now, est) # h) = track_peers now est (track_run h)"

fun held :: "addr \<Rightarrow> time \<Rightarrow> history \<Rightarrow> bool" where
  "held a t [] \<longleftrightarrow> False"
| "held a t ((now, est) # h) \<longleftrightarrow> a \<in> unmap ` set est \<and> (t = now \<or> held a t h)"

lemma track_fold:
  "gm_ok seen \<Longrightarrow> gm_ok (foldl (first_sight now) seen est)"
  "gm_ok seen \<Longrightarrow> gm_get (foldl (first_sight now) seen est) a
     = (case gm_get seen a of Some t \<Rightarrow> Some t | None \<Rightarrow> if a \<in> unmap ` set est then Some now else None)"
proof (induction est arbitrary: seen)
  case (Cons p est)
  { case 1 then show ?case using Cons.IH(1) by (simp add: first_sight_def) }
  { case 2 then show ?case using Cons.IH(2) [of "first_sight now seen p"] by (auto simp: first_sight_def split: option.splits) }
qed (auto split: option.split)

lemma track_peers_get:
  assumes "gm_ok seen"
  shows "gm_ok (track_peers now est seen)"
    "gm_get (track_peers now est seen) a = (if a \<in> unmap ` set est
       then (case gm_get seen a of Some t \<Rightarrow> Some t | None \<Rightarrow> Some now) else None)"
  using track_fold [OF assms, of now est] by (auto simp: track_peers_def gm_ok_filter gm_get_filter split: option.split)

lemma track_run_held: "gm_ok (track_run h) \<and> (gm_get (track_run h) a = Some t \<longrightarrow> held a t h)"
proof (induction h)
  case (Cons x h)
  obtain now est where x: "x = (now, est)" by fastforce
  show ?case using Cons track_peers_get [of "track_run h" now est] by (auto simp: x split: if_splits option.splits)
qed simp

text \<open>
  C30 (safety).  The narrowing of SSH immunity to logged-in peers fails open.  A connected peer loses its
  immunity only when \<open>loginctl\<close> gave an answer that can be trusted, the answer has no session from that
  address, and every probe for longer than the grace window saw it connected; without an answer nobody
  loses it, and nobody gains it.
\<close>

theorem narrowing_fails_open:
  "set (fst (Peers grace now est sessions (track_run h))) \<subseteq> set est
   \<and> (\<forall>p \<in> set est. p \<notin> set (fst (Peers grace now est sessions (track_run h))) \<longrightarrow>
        (\<exists>hosts t. sessions = Some hosts \<and> unmap p \<notin> set hosts \<and> grace < now - t \<and> held (unmap p) t ((now, est) # h)))"
proof (intro conjI ballI impI)
  show "set (fst (Peers grace now est sessions (track_run h))) \<subseteq> set est" by (auto simp: Peers_def Let_def split: option.split)
  fix p
  assume p: "p \<in> set est" "p \<notin> set (fst (Peers grace now est sessions (track_run h)))"
  then obtain hosts where s: "sessions = Some hosts" by (cases sessions) (auto simp: Peers_def Let_def)
  obtain t where t: "gm_get (track_run ((now, est) # h)) (unmap p) = Some t"
    using p(1) track_peers_get(2) [of "track_run h" now est "unmap p"] track_run_held [of h] by (auto split: option.splits)
  have "held (unmap p) t ((now, est) # h)" using track_run_held [of "(now, est) # h" "unmap p" t] t by blast
  moreover have "unmap p \<notin> set hosts" "grace < now - t"
    using p s t by (auto simp: Peers_def Let_def gm_val_def)
  ultimately show "\<exists>hosts t. sessions = Some hosts \<and> unmap p \<notin> set hosts \<and> grace < now - t \<and> held (unmap p) t ((now, est) # h)"
    using s by blast
qed

text \<open>A peer seen first at instant 0 and never logged in keeps its immunity for ten seconds and no longer.\<close>

definition demo_peer :: addr where "demo_peer = V4 0xCB007107"

theorem narrowing_fails_open_witness:
  "fst (Peers AuthPeerGraceWindow (10 * Second) [demo_peer] (Some []) (track_run [(0, [demo_peer])])) = [demo_peer]
   \<and> fst (Peers AuthPeerGraceWindow (11 * Second) [demo_peer] (Some []) (track_run [(0, [demo_peer])])) = []
   \<and> (\<exists>t. AuthPeerGraceWindow < 11 * Second - t \<and> held demo_peer t [(11 * Second, [demo_peer]), (0, [demo_peer])])"
proof -
  have u: "unmap demo_peer = demo_peer" by (simp add: demo_peer_def unmap.simps)
  have "fst (Peers AuthPeerGraceWindow (10 * Second) [demo_peer] (Some []) (track_run [(0, [demo_peer])])) = [demo_peer]"
    and gone: "fst (Peers AuthPeerGraceWindow (11 * Second) [demo_peer] (Some []) (track_run [(0, [demo_peer])])) = []"
    by (simp_all add: Peers_def Let_def track_peers_def first_sight_def u AuthPeerGraceWindow_def gm_val_def Second_def)
  moreover have "\<exists>t. AuthPeerGraceWindow < 11 * Second - t \<and> held demo_peer t [(11 * Second, [demo_peer]), (0, [demo_peer])]"
    using narrowing_fails_open [of AuthPeerGraceWindow "11 * Second" "[demo_peer]" "Some []" "[(0, [demo_peer])]"] gone u by auto
  ultimately show ?thesis by blast
qed

text \<open>
  A session from a link-local address carries the zone of the interface, which the kernel's table does
  not, so such a peer is not recognised although it is logged in.
\<close>

lemma zoned_session_unmatched:
  assumes "parse_addr s = Some (V6 w z)" "z \<noteq> []" "trim_space s = s" "s \<noteq> []"
  shows "\<exists>hosts. remote_hosts [s] = Some hosts \<and> V6 w [] \<notin> set hosts"
  using assms by (simp add: unmap.simps split: if_split)

section \<open>The kernel's notation\<close>

definition hex_upper :: "nat \<Rightarrow> char" where
  "hex_upper d = (if d < 10 then digit_char d else char_of (55 + d))"

definition hex_byte :: "nat \<Rightarrow> string" where
  "hex_byte b = [hex_upper (b div 16), hex_upper (b mod 16)]"

fun swap_groups :: "'a list \<Rightarrow> 'a list" where
  "swap_groups (a # b # c # d # xs) = d # c # b # a # swap_groups xs"
| "swap_groups xs = xs"

text \<open>How a little-endian kernel writes an address and a port.\<close>

fun kernel_bytes :: "addr \<Rightarrow> nat list" where
  "kernel_bytes (V4 w) = ipv4_bytes w"
| "kernel_bytes (V6 w z) = group_bytes (v6_groups w)"
| "kernel_bytes NoAddr = []"

definition kernel_text :: "addr \<Rightarrow> string \<Rightarrow> string" where
  "kernel_text a port = concat (map hex_byte (swap_groups (kernel_bytes a))) @ CHR '':'' # port"

lemma hex_upper_val: "d < 16 \<Longrightarrow> is_hex (hex_upper d) \<and> hex_digit_val (hex_upper d) = d"
  by (auto simp: is_hex_def hex_digit_val_def hex_upper_def of_char_of is_digit_def digit_val_def digit_char_def)

lemma hex_no_colon: "is_hex c \<Longrightarrow> c \<noteq> CHR '':''"
  by (auto simp: is_hex_def is_digit_def)

lemma hex_decode_bytes: "\<forall>b \<in> set bs. b < 256 \<Longrightarrow> hex_decode (concat (map hex_byte bs)) = Some bs"
proof (induction bs)
  case (Cons b bs)
  then have "b div 16 < 16" "b mod 16 < 16" by auto
  with Cons hex_upper_val show ?case by (simp add: hex_byte_def)
qed simp

lemma swap_groups_twice: "length xs mod 4 = 0 \<Longrightarrow> swap_groups (swap_groups xs) = xs"
  by (induction xs rule: swap_groups.induct) auto

lemma swap_groups_set [simp]: "set (swap_groups xs) = set xs" and swap_groups_length [simp]: "length (swap_groups xs) = length xs"
  by (induction xs rule: swap_groups.induct) auto

lemma swap_four: "length xs = 4 \<Longrightarrow> rev xs = swap_groups xs"
  by (auto simp: numeral_eq_Suc length_Suc_conv)

lemma swap_sixteen: "length xs = 16 \<Longrightarrow>
    rev (take 4 xs) @ rev (take 4 (drop 4 xs)) @ rev (take 4 (drop 8 xs)) @ rev (drop 12 xs) = swap_groups xs"
  by (auto simp: numeral_eq_Suc length_Suc_conv)

lemma split_last_colon: "CHR '':'' \<notin> set p \<Longrightarrow> split_last (CHR '':'') (a @ CHR '':'' # p) = Some (a, p)"
proof -
  assume p: "CHR '':'' \<notin> set p"
  then have "takeWhile (\<lambda>x. x \<noteq> CHR '':'') (rev p @ CHR '':'' # rev a) = rev p"
    "dropWhile (\<lambda>x. x \<noteq> CHR '':'') (rev p @ CHR '':'' # rev a) = CHR '':'' # rev a"
    by (subst takeWhile_append2 dropWhile_append2; auto)+
  then show ?thesis by (simp add: split_last_def)
qed

text \<open>
  The address column of the kernel's table is read back as the address, an IPv4-mapped one in its
  IPv4 spelling, and the port column as the port.
\<close>

lemma procAddr_kernel:
  assumes "a \<noteq> NoAddr" "addr_zone a = []" "CHR '':'' \<notin> set port"
  shows "procAddr (kernel_text a port) = Some (unmap a)"
proof -
  let ?bs = "swap_groups (kernel_bytes a)"
  have v6: "\<forall>b \<in> set (group_bytes (v6_groups w)). b < 256" for w
  proof -
    have "\<forall>g \<in> set (v6_groups w). g < 65536" by (auto simp: v6_groups_def nat_less_iff)
    then show ?thesis by (auto simp: group_bytes_def less_mult_imp_div_less)
  qed
  have "\<forall>b \<in> set ?bs. b < 256" using assms(1) ipv4_bytes_bounds v6 by (cases a) auto
  then have d: "hex_decode (concat (map hex_byte ?bs)) = Some ?bs" by (rule hex_decode_bytes)
  have sp: "split_last (CHR '':'') (kernel_text a port) = Some (concat (map hex_byte ?bs), port)"
    unfolding kernel_text_def by (rule split_last_colon [OF assms(3)])
  show ?thesis
  proof (cases a)
    case (V4 w)
    have l: "length (ipv4_bytes w) = 4" by (simp add: ipv4_bytes_def)
    then have "rev ?bs = ipv4_bytes w" using swap_four [of ?bs] swap_groups_twice [of "ipv4_bytes w"] V4 by simp
    then show ?thesis using sp d V4 l by (simp add: procAddr_def bytes_word_ipv4_bytes)
  next
    case (V6 w z)
    have l: "length (group_bytes (v6_groups w)) = 16" by (simp add: v6_groups_def)
    then have "swap_groups ?bs = group_bytes (v6_groups w)" using swap_groups_twice [of "group_bytes (v6_groups w)"] V6 by simp
    then show ?thesis using sp d V6 l assms(2) swap_sixteen [of ?bs] by (simp add: procAddr_def bytes_word_groups)
  qed (use assms(1) in simp)
qed

end
